(* ===== verification/Prelude.thy ===== *)
theory Prelude
  imports Main "HOL-Library.Multiset"
begin

text \<open>
  Shared vocabulary of the development: the reason codes of
  \<^verbatim>\<open>src/src/flom_errors.h.in\<close>, the identifiers of connections, the C
  conversions between \<^verbatim>\<open>long\<close> and \<^verbatim>\<open>gint\<close>, the decimal conversions
  \<^verbatim>\<open>%d\<close> and \<^verbatim>\<open>strtol\<close>, and the list lemmas the components share.

  The collections: \<open>list_first\<close> gathers the laws of the operation that
  removes the first element with a property (the code finds a node of a
  \<^verbatim>\<open>GSList\<close> or \<^verbatim>\<open>GQueue\<close> and removes it), \<open>cstring_simps\<close> those of the decimal
  conversions.
\<close>

named_theorems list_first
named_theorems cstring_simps

section \<open>Reason codes\<close>

abbreviation (input) FLOM_RC_OK :: int where "FLOM_RC_OK \<equiv> 0"
abbreviation (input) FLOM_RC_LOCK_ENQUEUED :: int where "FLOM_RC_LOCK_ENQUEUED \<equiv> 1"
abbreviation (input) FLOM_RC_LOCK_WAIT_RESOURCE :: int where "FLOM_RC_LOCK_WAIT_RESOURCE \<equiv> 2"
abbreviation (input) FLOM_RC_LOCK_CANT_LOCK :: int where "FLOM_RC_LOCK_CANT_LOCK \<equiv> 3"
abbreviation (input) FLOM_RC_LOCK_BUSY :: int where "FLOM_RC_LOCK_BUSY \<equiv> 4"
abbreviation (input) FLOM_RC_LOCK_CANT_WAIT :: int where "FLOM_RC_LOCK_CANT_WAIT \<equiv> 5"
abbreviation (input) FLOM_RC_LOCK_IMPOSSIBLE :: int where "FLOM_RC_LOCK_IMPOSSIBLE \<equiv> 6"
abbreviation (input) FLOM_RC_CONNECTION_CLOSED :: int where "FLOM_RC_CONNECTION_CLOSED \<equiv> 8"
abbreviation (input) FLOM_RC_NETWORK_TIMEOUT :: int where "FLOM_RC_NETWORK_TIMEOUT \<equiv> 9"
abbreviation (input) FLOM_RC_INTERNAL_ERROR :: int where "FLOM_RC_INTERNAL_ERROR \<equiv> - 1"
abbreviation (input) FLOM_RC_NULL_OBJECT :: int where "FLOM_RC_NULL_OBJECT \<equiv> - 4"
abbreviation (input) FLOM_RC_INVALID_OPTION :: int where "FLOM_RC_INVALID_OPTION \<equiv> - 5"
abbreviation (input) FLOM_RC_OBJ_CORRUPTED :: int where "FLOM_RC_OBJ_CORRUPTED \<equiv> - 6"
abbreviation (input) FLOM_RC_OUT_OF_RANGE :: int where "FLOM_RC_OUT_OF_RANGE \<equiv> - 7"
abbreviation (input) FLOM_RC_BUFFER_OVERFLOW :: int where "FLOM_RC_BUFFER_OVERFLOW \<equiv> - 9"
abbreviation (input) FLOM_RC_INVALID_PROPERTY_VALUE :: int where "FLOM_RC_INVALID_PROPERTY_VALUE \<equiv> - 11"
abbreviation (input) FLOM_RC_CONTAINER_FULL :: int where "FLOM_RC_CONTAINER_FULL \<equiv> - 12"
abbreviation (input) FLOM_RC_PROTOCOL_ERROR :: int where "FLOM_RC_PROTOCOL_ERROR \<equiv> - 13"
abbreviation (input) FLOM_RC_INVALID_RESOURCE_NAME :: int where "FLOM_RC_INVALID_RESOURCE_NAME \<equiv> - 14"
abbreviation (input) FLOM_RC_INVALID_TIMESTAMP_FORMAT :: int where "FLOM_RC_INVALID_TIMESTAMP_FORMAT \<equiv> - 25"
abbreviation (input) FLOM_RC_GETTIMEOFDAY_ERROR :: int where "FLOM_RC_GETTIMEOFDAY_ERROR \<equiv> - 115"
abbreviation (input) FLOM_RC_LOCALTIME_R_ERROR :: int where "FLOM_RC_LOCALTIME_R_ERROR \<equiv> - 118"
abbreviation (input) FLOM_RC_RECV_ERROR :: int where "FLOM_RC_RECV_ERROR \<equiv> - 126"
abbreviation (input) FLOM_RC_REGEXEC_ERROR :: int where "FLOM_RC_REGEXEC_ERROR \<equiv> - 129"
abbreviation (input) FLOM_RC_SEND_ERROR :: int where "FLOM_RC_SEND_ERROR \<equiv> - 130"
abbreviation (input) FLOM_RC_G_STRDUP_ERROR :: int where "FLOM_RC_G_STRDUP_ERROR \<equiv> - 212"
abbreviation (input) FLOM_RC_G_TRY_MALLOC_ERROR :: int where "FLOM_RC_G_TRY_MALLOC_ERROR \<equiv> - 216"

text \<open>
  A connection object (\<^verbatim>\<open>flom_conn_t *\<close>) is shared by pointer and compared by
  pointer; the model names it by its unique identifier
  (\<^verbatim>\<open>flom_conn_s.uid\<close>).
\<close>

type_synonym conn = nat
type_synonym rc = int

section \<open>C integer conversions\<close>

text \<open>Conversion of a \<^verbatim>\<open>long\<close> to a 32 bit \<^verbatim>\<open>int\<close>/\<^verbatim>\<open>gint\<close> (modulo $2^{32}$).\<close>

definition to_gint :: "int \<Rightarrow> int" where
  "to_gint x = (x + 2147483648) mod 4294967296 - 2147483648"

definition gint_range :: "int \<Rightarrow> bool" where
  "gint_range x \<longleftrightarrow> - 2147483648 \<le> x \<and> x \<le> 2147483647"

lemma to_gint_id: "gint_range x \<Longrightarrow> to_gint x = x"
  by (simp add: to_gint_def gint_range_def)

lemma to_gint_range: "gint_range (to_gint x)"
proof -
  have "0 \<le> (x + 2147483648) mod 4294967296" "(x + 2147483648) mod 4294967296 < 4294967296"
    by simp_all
  then show ?thesis unfolding gint_range_def to_gint_def by linarith
qed

section \<open>Decimal conversions\<close>

text \<open>\<^verbatim>\<open>snprintf\<close> with \<^verbatim>\<open>%d\<close>, \<^verbatim>\<open>%u\<close> and \<^verbatim>\<open>%hu\<close>.\<close>

definition digit_char :: "nat \<Rightarrow> char" where
  "digit_char d = char_of (48 + d)"

definition is_digit :: "char \<Rightarrow> bool" where
  "is_digit c \<longleftrightarrow> 48 \<le> (of_char c :: nat) \<and> (of_char c :: nat) \<le> 57"

definition digit_value :: "char \<Rightarrow> nat" where
  "digit_value c = of_char c - 48"

fun string_of_nat :: "nat \<Rightarrow> string" where
  "string_of_nat n = (if n < 10 then [digit_char n]
     else string_of_nat (n div 10) @ [digit_char (n mod 10)])"

declare string_of_nat.simps [simp del]

definition string_of_int :: "int \<Rightarrow> string" where
  "string_of_int i = (if i < 0 then ''-'' @ string_of_nat (nat (- i)) else string_of_nat (nat i))"

definition digits_value :: "string \<Rightarrow> nat" where
  "digits_value s = foldl (\<lambda>n c. 10 * n + digit_value c) 0 s"

text \<open>
  \<^verbatim>\<open>strtol(text, NULL, 10)\<close>: leading white space, an optional sign, the longest
  run of digits; no digit gives 0, an overflow saturates at \<^verbatim>\<open>LONG_MIN\<close> or
  \<^verbatim>\<open>LONG_MAX\<close> of a 64 bit \<^verbatim>\<open>long\<close>.
\<close>

definition is_space :: "char \<Rightarrow> bool" where
  "is_space c \<longleftrightarrow> of_char c \<in> {9, 10, 11, 12, 13, 32 :: nat}"

definition long_max :: int where "long_max = 9223372036854775807"

definition strtol :: "string \<Rightarrow> int" where
  "strtol s = (let t = dropWhile is_space s in
     case t of
       [] \<Rightarrow> 0
     | c # r \<Rightarrow>
         if c = CHR ''-'' then max (- long_max - 1) (- int (digits_value (takeWhile is_digit r)))
         else if c = CHR ''+'' then min long_max (int (digits_value (takeWhile is_digit r)))
         else min long_max (int (digits_value (takeWhile is_digit t))))"

lemma digits_value_Nil [cstring_simps]: "digits_value [] = 0"
  by (simp add: digits_value_def)

lemma digits_value_snoc [cstring_simps]:
  "digits_value (s @ [c]) = 10 * digits_value s + digit_value c"
  by (simp add: digits_value_def)

lemma digit_char_nat [cstring_simps]:
  "d < 10 \<Longrightarrow> (of_char (digit_char d) :: nat) = 48 + d"
  by (simp add: digit_char_def of_char_of)

lemma digit_char_props [cstring_simps]:
  assumes "d < 10"
  shows "is_digit (digit_char d)" "digit_value (digit_char d) = d"
  using assms by (simp_all add: is_digit_def digit_value_def cstring_simps)

lemma string_of_nat_digits: "\<forall>c \<in> set (string_of_nat n). is_digit c"
proof (induction n rule: string_of_nat.induct)
  case (1 n)
  then show ?case
    by (subst string_of_nat.simps) (auto simp: cstring_simps)
qed

lemma string_of_nat_value [cstring_simps]: "digits_value (string_of_nat n) = n"
proof (induction n rule: string_of_nat.induct)
  case (1 n)
  then show ?case
    by (subst string_of_nat.simps)
       (auto simp: cstring_simps digits_value_def)
qed

lemma string_of_nat_nonempty [simp]: "string_of_nat n \<noteq> []"
  by (subst string_of_nat.simps) simp

lemma string_of_nat_length: "n < 10 ^ Suc k \<Longrightarrow> length (string_of_nat n) \<le> Suc k"
proof (induction k arbitrary: n)
  case 0
  then show ?case by (subst string_of_nat.simps) simp
next
  case (Suc k)
  then have "length (string_of_nat (n div 10)) \<le> Suc k" by simp
  then show ?case by (subst string_of_nat.simps) simp
qed

lemma takeWhile_string_of_nat [cstring_simps]:
  "takeWhile is_digit (string_of_nat n) = string_of_nat n"
  using string_of_nat_digits by (simp add: takeWhile_eq_all_conv)

lemma digit_not_sign:
  assumes "is_digit c"
  shows "c \<noteq> CHR ''-''" "c \<noteq> CHR ''+''" "\<not> is_space c"
  using assms by (auto simp: is_digit_def is_space_def)

text \<open>What \<^verbatim>\<open>%d\<close> prints, \<^verbatim>\<open>strtol\<close> reads back, within the range of a \<^verbatim>\<open>long\<close>.\<close>

lemma strtol_string_of_int:
  assumes "- long_max - 1 \<le> i" "i \<le> long_max"
  shows "strtol (string_of_int i) = i"
proof (cases "i < 0")
  case True
  have "\<not> is_space (CHR ''-'')" by (simp add: is_space_def)
  with True assms show ?thesis
    by (simp add: strtol_def string_of_int_def cstring_simps)
next
  case False
  obtain c r where cr: "string_of_nat (nat i) = c # r"
    using string_of_nat_nonempty by (meson neq_Nil_conv)
  have c: "is_digit c" using string_of_nat_digits [of "nat i"] cr by simp
  have "takeWhile is_digit (c # r) = string_of_nat (nat i)"
    using takeWhile_string_of_nat [of "nat i"] cr by simp
  then have "digits_value (takeWhile is_digit (c # r)) = nat i"
    by (simp add: cstring_simps)
  with False assms cr digit_not_sign [OF c] show ?thesis
    by (simp add: strtol_def string_of_int_def Let_def)
qed

lemma gint_strtol_string_of_int:
  "gint_range i \<Longrightarrow> to_gint (strtol (string_of_int i)) = i"
  by (simp add: strtol_string_of_int to_gint_id gint_range_def long_max_def)

section \<open>Removing the first element with a property\<close>

fun remove_first :: "('a \<Rightarrow> bool) \<Rightarrow> 'a list \<Rightarrow> 'a list" where
  "remove_first P [] = []"
| "remove_first P (x # xs) = (if P x then xs else x # remove_first P xs)"

lemma remove_first_none [list_first]:
  "\<not> (\<exists>x \<in> set xs. P x) \<Longrightarrow> remove_first P xs = xs"
  by (induction xs) auto

lemma find_None_set [list_first]: "find P xs = None \<longleftrightarrow> \<not> (\<exists>x \<in> set xs. P x)"
  by (auto simp: find_None_iff)

lemma find_Some_set: "find P xs = Some x \<Longrightarrow> x \<in> set xs \<and> P x"
  by (induction xs) (auto split: if_splits)

lemma set_remove_first: "set (remove_first P xs) \<subseteq> set xs"
  by (induction xs) auto

lemma mset_remove_first:
  "find P xs = Some x \<Longrightarrow> mset xs = add_mset x (mset (remove_first P xs))"
  by (induction xs) (auto split: if_splits)

lemma find_in_mset: "find P xs = Some x \<Longrightarrow> x \<in># mset xs"
  by (auto dest: find_Some_set)

lemma length_remove_first:
  "find P xs = Some x \<Longrightarrow> length xs = Suc (length (remove_first P xs))"
  by (metis mset_remove_first size_add_mset size_mset)

lemma length_remove_first_le: "length (remove_first P xs) \<le> length xs"
  by (induction xs) auto

lemma sum_list_remove_first [list_first]:
  fixes f :: "'a \<Rightarrow> int"
  assumes "find P xs = Some x"
  shows "sum_list (map f (remove_first P xs)) = sum_list (map f xs) - f x"
  using assms by (induction xs) (auto split: if_splits)

lemma distinct_map_remove_first:
  "distinct (map f xs) \<Longrightarrow> distinct (map f (remove_first P xs))"
  by (induction xs) (use set_remove_first in fastforce)+

lemma distinct_submset:
  assumes "mset xs \<subseteq># mset ys" "distinct ys"
  shows "distinct xs"
proof -
  have "count (mset xs) a = (if a \<in> set xs then 1 else 0)" for a
  proof -
    have "count (mset xs) a \<le> count (mset ys) a" using assms(1) by (simp add: mset_subset_eq_count)
    also have "\<dots> \<le> 1" using assms(2) by (metis distinct_count_atmost_1 order_refl zero_le)
    finally have "count (mset xs) a \<le> 1" .
    moreover have "0 < count (mset xs) a" if "a \<in> set xs" using that by simp
    moreover have "count (mset xs) a = 0" if "a \<notin> set xs" using that by (simp add: count_eq_zero_iff)
    ultimately show ?thesis by (metis One_nat_def le_antisym less_eq_Suc_le)
  qed
  then show ?thesis by (simp add: distinct_count_atmost_1)
qed

section \<open>Pairwise relations on multisets\<close>

definition mutual :: "('a \<Rightarrow> 'a \<Rightarrow> bool) \<Rightarrow> 'a multiset \<Rightarrow> bool" where
  "mutual R M \<longleftrightarrow> (\<forall>a \<in># M. \<forall>b \<in># M - {#a#}. R a b)"

lemma mutual_empty [simp]: "mutual R {#}"
  by (simp add: mutual_def)

lemma mutual_add:
  assumes "mutual R M" "\<And>b. b \<in># M \<Longrightarrow> R x b \<and> R b x"
  shows "mutual R (add_mset x M)"
  unfolding mutual_def
proof (intro ballI)
  fix a b assume a: "a \<in># add_mset x M" and b: "b \<in># add_mset x M - {#a#}"
  show "R a b"
  proof (cases "a = x")
    case True
    then show ?thesis using b assms(2) by simp
  next
    case False
    then have "a \<in># M" using a by simp
    moreover have "b \<in># add_mset x (M - {#a#})" using b False by (simp add: add_mset_diff_bothsides diff_add_mset_swap)
    ultimately show ?thesis using assms by (auto simp: mutual_def)
  qed
qed

lemma mutual_subset:
  assumes "mutual R M" "N \<subseteq># M"
  shows "mutual R N"
  unfolding mutual_def
proof (intro ballI)
  fix a b assume a: "a \<in># N" and b: "b \<in># N - {#a#}"
  have "count {#a#} b < count M b"
    using b mset_subset_eq_count [OF assms(2), of b] by (simp only: in_diff_count)
  then have "b \<in># M - {#a#}" by (simp only: in_diff_count)
  moreover have "a \<in># M" using a assms(2) by (rule mset_subset_eqD [rotated])
  ultimately show "R a b" using assms(1) by (auto simp: mutual_def)
qed

lemma mset_nth_rest:
  assumes "i < length xs" "j < length xs" "i \<noteq> j"
  shows "xs ! j \<in># mset xs - {#xs ! i#}"
proof -
  have "mset xs = add_mset (xs ! i) (mset (take i xs @ drop (Suc i) xs))"
    using assms(1) by (metis id_take_nth_drop mset.simps(2) mset_append union_mset_add_mset_right)
  moreover have "xs ! j \<in> set (take i xs @ drop (Suc i) xs)"
  proof (cases "j < i")
    case True
    then have "take i xs ! j = xs ! j" "j < length (take i xs)" using assms by auto
    then show ?thesis by (metis UnCI nth_mem set_append)
  next
    case False
    then have "drop (Suc i) xs ! (j - Suc i) = xs ! j" "j - Suc i < length (drop (Suc i) xs)"
      using assms by auto
    then show ?thesis by (metis UnCI nth_mem set_append)
  qed
  ultimately show ?thesis by simp
qed

lemma mutual_nth:
  assumes "mutual R (mset xs)" "i < length xs" "j < length xs" "i \<noteq> j"
  shows "R (xs ! i) (xs ! j)"
  using assms mset_nth_rest [OF assms(2-4)] by (auto simp: mutual_def)

end
