(* ===== verification/Rsrc_Name.thy ===== *)
theory Rsrc_Name
  imports Prelude
begin

text \<open>
  Resource names, the first half of \<^verbatim>\<open>src/src/flom_rsrc.c\<close>: the six regular
  expressions of \<^verbatim>\<open>global_res_name_preg_init\<close>, the type of a resource from its
  name, the number, the infix and the elements a name carries.

  The expressions are compiled with \<^verbatim>\<open>REG_EXTENDED|REG_NEWLINE\<close>, so the anchors
  match at every line and \<^verbatim>\<open>regexec\<close> succeeds when some line of the name is in the
  language; the capture groups are those of the first such line.  A backslash
  inside a bracket expression is a plain character of POSIX regular expressions.
  Character classes are those of the C locale.  The separators are the values
  \<^verbatim>\<open>configure.ac\<close> gives them, ``.'' for sets and ``/'' for hierarchies.
\<close>

section \<open>Lexical classes and splitting\<close>

datatype flom_rsrc_type =
    FLOM_RSRC_TYPE_NULL
  | FLOM_RSRC_TYPE_SIMPLE
  | FLOM_RSRC_TYPE_NUMERIC
  | FLOM_RSRC_TYPE_SET
  | FLOM_RSRC_TYPE_HIER
  | FLOM_RSRC_TYPE_SEQUENCE
  | FLOM_RSRC_TYPE_TIMESTAMP

definition is_alpha :: "char \<Rightarrow> bool" where
  "is_alpha c \<longleftrightarrow> (let n = (of_char c :: nat) in 65 \<le> n \<and> n \<le> 90 \<or> 97 \<le> n \<and> n \<le> 122)"

definition is_alnum :: "char \<Rightarrow> bool" where
  "is_alnum c \<longleftrightarrow> is_alpha c \<or> is_digit c"

fun split_on :: "char \<Rightarrow> string \<Rightarrow> string list" where
  "split_on c [] = [[]]"
| "split_on c (x # xs) =
     (if x = c then [] # split_on c xs
      else case split_on c xs of [] \<Rightarrow> [[x]] | y # ys \<Rightarrow> (x # y) # ys)"

fun join_on :: "char \<Rightarrow> string list \<Rightarrow> string" where
  "join_on c [] = []"
| "join_on c [x] = x"
| "join_on c (x # y # ys) = x @ c # join_on c (y # ys)"

text \<open>\<^verbatim>\<open>g_strsplit\<close> with a one character delimiter; the empty string has no piece.\<close>

definition g_strsplit :: "char \<Rightarrow> string \<Rightarrow> string list" where
  "g_strsplit c s = (if s = [] then [] else split_on c s)"

definition set_separator :: char where "set_separator = CHR ''.''"
definition hier_separator :: char where "hier_separator = CHR ''/''"
definition newline :: char where "newline = CHR 0x0A"
definition backslash :: char where "backslash = CHR 0x5C"

section \<open>The regular expressions\<close>

type_synonym groups = "string option \<times> string option"

definition is_ident :: "string \<Rightarrow> bool" where
  "is_ident s \<longleftrightarrow> (case s of [] \<Rightarrow> False | c # r \<Rightarrow> is_alpha c \<and> list_all is_alnum r)"

definition is_format :: "string \<Rightarrow> bool" where
  "is_format s \<longleftrightarrow> (case s of [] \<Rightarrow> False | c # r \<Rightarrow>
     (is_alpha c \<or> c = CHR ''%'' \<or> c = CHR ''#'') \<and>
     list_all (\<lambda>d. is_alnum d \<or> d \<in> {CHR ''%'', CHR ''#'', backslash, CHR ''.'', CHR '':''}) r)"

text \<open>\<open>prefix[digits]\<close>: the prefix up to the first bracket and the digits.\<close>

definition bracketed :: "(string \<Rightarrow> bool) \<Rightarrow> string \<Rightarrow> (string \<times> string) option" where
  "bracketed P s =
     (let p = takeWhile (\<lambda>c. c \<noteq> CHR ''['') s; r = dropWhile (\<lambda>c. c \<noteq> CHR ''['') s in
      if P p \<and> r \<noteq> [] \<and> tl r \<noteq> [] \<and> last (tl r) = CHR '']''
         \<and> butlast (tl r) \<noteq> [] \<and> list_all is_digit (butlast (tl r))
      then Some (p, butlast (tl r)) else None)"

definition number_groups :: "(string \<times> string) option \<Rightarrow> groups option" where
  "number_groups m = map_option (\<lambda>(p, d). (Some p, Some d)) m"

fun line_match :: "flom_rsrc_type \<Rightarrow> string \<Rightarrow> groups option" where
  "line_match FLOM_RSRC_TYPE_NULL s = (if s = ''_'' then Some (None, None) else None)"
| "line_match FLOM_RSRC_TYPE_SIMPLE s =
     (if s = ''_RESOURCE'' then Some (None, None)
      else if is_ident s then Some (Some s, None) else None)"
| "line_match FLOM_RSRC_TYPE_NUMERIC s = number_groups (bracketed is_ident s)"
| "line_match FLOM_RSRC_TYPE_SET s =
     (let ps = split_on set_separator s in
      if 2 \<le> length ps \<and> list_all is_ident ps
      then Some (Some (hd ps), Some (set_separator # last ps)) else None)"
| "line_match FLOM_RSRC_TYPE_HIER s =
     (case s of [] \<Rightarrow> None | c # r \<Rightarrow>
        let ps = split_on hier_separator r in
        if c = hier_separator \<and> list_all (\<lambda>p. p \<noteq> [] \<and> backslash \<notin> set p \<and> newline \<notin> set p) ps
        then Some (if length ps = 1 then None else Some (hier_separator # last ps), None)
        else None)"
| "line_match FLOM_RSRC_TYPE_SEQUENCE s =
     (if take 3 s = ''_s_'' \<or> take 3 s = ''_S_'' then number_groups (bracketed is_ident (drop 3 s))
      else None)"
| "line_match FLOM_RSRC_TYPE_TIMESTAMP s =
     (if take 3 s = ''_t_'' then number_groups (bracketed is_format (drop 3 s)) else None)"

fun first_line_match :: "flom_rsrc_type \<Rightarrow> string list \<Rightarrow> groups option" where
  "first_line_match t [] = None"
| "first_line_match t (l # ls) =
     (case line_match t l of None \<Rightarrow> first_line_match t ls | Some g \<Rightarrow> Some g)"

definition res_name_regexec :: "flom_rsrc_type \<Rightarrow> string \<Rightarrow> groups option" where
  "res_name_regexec t name = first_line_match t (split_on newline name)"

section \<open>Operations on names\<close>

definition rsrc_types :: "flom_rsrc_type list" where
  "rsrc_types = [FLOM_RSRC_TYPE_SIMPLE, FLOM_RSRC_TYPE_NUMERIC, FLOM_RSRC_TYPE_SET,
     FLOM_RSRC_TYPE_HIER, FLOM_RSRC_TYPE_SEQUENCE, FLOM_RSRC_TYPE_TIMESTAMP]"

definition flom_rsrc_get_type :: "string \<Rightarrow> flom_rsrc_type" where
  "flom_rsrc_get_type name =
     (case find (\<lambda>t. res_name_regexec t name \<noteq> None) rsrc_types of
        Some t \<Rightarrow> t | None \<Rightarrow> FLOM_RSRC_TYPE_NULL)"

fun flom_rsrc_get_type_human_readable :: "flom_rsrc_type \<Rightarrow> string" where
  "flom_rsrc_get_type_human_readable FLOM_RSRC_TYPE_NULL = ''null''"
| "flom_rsrc_get_type_human_readable FLOM_RSRC_TYPE_SIMPLE = ''simple''"
| "flom_rsrc_get_type_human_readable FLOM_RSRC_TYPE_NUMERIC = ''numeric''"
| "flom_rsrc_get_type_human_readable FLOM_RSRC_TYPE_SET = ''set''"
| "flom_rsrc_get_type_human_readable FLOM_RSRC_TYPE_HIER = ''hierarchical''"
| "flom_rsrc_get_type_human_readable FLOM_RSRC_TYPE_SEQUENCE = ''sequence''"
| "flom_rsrc_get_type_human_readable FLOM_RSRC_TYPE_TIMESTAMP = ''timestamp''"

definition flom_rsrc_get_transactional :: "string \<Rightarrow> bool" where
  "flom_rsrc_get_transactional name \<longleftrightarrow>
     flom_rsrc_get_type name = FLOM_RSRC_TYPE_SEQUENCE \<and> 1 < length name \<and> name ! 1 = CHR ''S''"

text \<open>
  The number is the second group, copied into a buffer of 1000 bytes (longer
  runs of digits are cut) and converted with \<^verbatim>\<open>strtol\<close> to a \<^verbatim>\<open>gint\<close>.  A missing
  group is an exception the \<^verbatim>\<open>switch\<close> does not map, hence the internal error.
\<close>

definition flom_rsrc_get_number :: "string \<Rightarrow> flom_rsrc_type \<Rightarrow> rc \<times> int option" where
  "flom_rsrc_get_number name type =
     (case res_name_regexec type name of
        None \<Rightarrow> (FLOM_RC_REGEXEC_ERROR, None)
      | Some (g1, g2) \<Rightarrow>
          (case g2 of
             None \<Rightarrow> (FLOM_RC_INTERNAL_ERROR, None)
           | Some d \<Rightarrow> (FLOM_RC_OK, Some (to_gint (strtol (take 999 d))))))"

definition flom_rsrc_get_infix :: "string \<Rightarrow> flom_rsrc_type \<Rightarrow> rc \<times> string option" where
  "flom_rsrc_get_infix name type =
     (case res_name_regexec type name of
        None \<Rightarrow> (FLOM_RC_REGEXEC_ERROR, None)
      | Some (g1, g2) \<Rightarrow>
          (case g1 of
             None \<Rightarrow> (FLOM_RC_INTERNAL_ERROR, None)
           | Some p \<Rightarrow> (FLOM_RC_OK, Some (take 999 p))))"

text \<open>
  An element of a resource set: its name and the connection that holds it.
\<close>

record flom_rsrc_data_set_element =
  se_name :: string
  se_conn :: "conn option"

definition flom_rsrc_get_elements ::
  "string \<Rightarrow> flom_rsrc_data_set_element list \<Rightarrow> rc \<times> flom_rsrc_data_set_element list" where
  "flom_rsrc_get_elements name elements =
     (FLOM_RC_OK, elements @ map (\<lambda>n. \<lparr>se_name = n, se_conn = None\<rparr>) (g_strsplit set_separator name))"

section \<open>Lemmas on splitting and matching\<close>

lemma split_on_nonempty [simp]: "split_on c s \<noteq> []"
  by (induction s) (auto split: list.splits)

lemma join_split_on: "join_on c (split_on c s) = s"
proof (induction s)
  case (Cons x xs)
  then show ?case
    by (cases "split_on c xs"; cases "tl (split_on c xs)")
       (auto simp: split_on_nonempty)
qed simp

lemma split_on_length: "n \<in> set (split_on c s) \<Longrightarrow> length n \<le> length s"
  by (induction s arbitrary: n) (fastforce split: list.splits if_splits)+

lemma split_on_none: "c \<notin> set s \<Longrightarrow> split_on c s = [s]"
  by (induction s) auto

lemma split_on_append:
  "c \<notin> set s \<Longrightarrow> split_on c (s @ c # t) = s # split_on c t"
  by (induction s) auto

lemma split_on_join_on:
  "xs \<noteq> [] \<Longrightarrow> \<forall>x \<in> set xs. c \<notin> set x \<Longrightarrow> split_on c (join_on c xs) = xs"
  by (induction xs rule: join_on.induct [of _ c]) (auto simp: split_on_none split_on_append)

lemma res_name_regexec_line:
  "newline \<notin> set name \<Longrightarrow> res_name_regexec t name = line_match t name"
  by (simp add: res_name_regexec_def split_on_none split: option.splits)

lemma is_alpha_plain:
  assumes "is_alpha c"
  shows "c \<noteq> CHR ''_''" "c \<noteq> CHR ''[''" "c \<noteq> CHR ''.''" "c \<noteq> CHR ''/''" "c \<noteq> newline"
  using assms by (auto simp: is_alpha_def Let_def newline_def)

lemma is_alnum_plain:
  assumes "is_alnum c"
  shows "c \<noteq> CHR ''_''" "c \<noteq> CHR ''[''" "c \<noteq> CHR '']''" "c \<noteq> CHR ''.''" "c \<noteq> CHR ''/''" "c \<noteq> newline"
  using assms by (auto simp: is_alnum_def is_alpha_def is_digit_def Let_def newline_def)

lemma is_ident_alnum: "is_ident s \<Longrightarrow> c \<in> set s \<Longrightarrow> is_alnum c"
  by (auto simp: is_ident_def is_alnum_def list_all_iff split: list.splits)

lemma is_ident_Cons: "is_ident s \<Longrightarrow> \<exists>c r. s = c # r \<and> is_alpha c"
  by (auto simp: is_ident_def split: list.splits)

lemma is_ident_plain:
  assumes "is_ident s"
  shows "CHR ''['' \<notin> set s" "CHR ''.'' \<notin> set s" "newline \<notin> set s" "CHR ''/'' \<notin> set s"
  using assms is_ident_alnum is_alnum_plain by blast+

lemma bracketed_Some_in:
  "bracketed P s = Some (p, d) \<Longrightarrow> P p \<and> CHR ''['' \<in> set s"
  by (auto simp: bracketed_def Let_def dropWhile_eq_Nil_conv split: if_splits)

lemma bracketed_build:
  assumes "P p" "CHR ''['' \<notin> set p" "d \<noteq> []" "\<forall>c \<in> set d. is_digit c"
  shows "bracketed P (p @ CHR ''['' # d @ '']'') = Some (p, d)"
proof -
  let ?Q = "\<lambda>c. c \<noteq> CHR ''[''"
  have all: "\<And>x. x \<in> set p \<Longrightarrow> ?Q x" using assms(2) by auto
  have "takeWhile ?Q (p @ CHR ''['' # d @ '']'') = p"
    using takeWhile_append2 [of p ?Q "CHR ''['' # d @ '']''", OF all] by simp
  moreover have "dropWhile ?Q (p @ CHR ''['' # d @ '']'') = CHR ''['' # d @ '']''"
    using dropWhile_append2 [of p ?Q "CHR ''['' # d @ '']''", OF all] by simp
  ultimately show ?thesis using assms by (simp add: bracketed_def list_all_iff butlast_append)
qed

lemma line_match_SIMPLE:
  "line_match FLOM_RSRC_TYPE_SIMPLE s = Some g \<Longrightarrow>
   s = ''_RESOURCE'' \<or> is_alpha (hd s) \<and> CHR ''['' \<notin> set s \<and> CHR ''.'' \<notin> set s"
  using is_ident_plain is_ident_Cons by (fastforce split: if_splits)

lemma line_match_NUMERIC:
  assumes "line_match FLOM_RSRC_TYPE_NUMERIC s = Some g"
  shows "is_alpha (hd s) \<and> CHR ''['' \<in> set s"
proof -
  obtain p d where b: "bracketed is_ident s = Some (p, d)"
    using assms by (auto simp: number_groups_def)
  then have "p = takeWhile (\<lambda>c. c \<noteq> CHR ''['') s"
    by (auto simp: bracketed_def Let_def split: if_splits)
  moreover have "is_ident p" using bracketed_Some_in [OF b] by simp
  then obtain c r where "p = c # r" "is_alpha c" using is_ident_Cons by blast
  ultimately have "is_alpha (hd s)"
    by (cases s) (auto split: if_splits)
  then show ?thesis using bracketed_Some_in [OF b] by simp
qed

lemma set_join_on:
  "set (join_on c xs) \<subseteq> insert c (\<Union> (set (map set xs)))"
  by (induction xs rule: join_on.induct [of _ c]) auto

lemma line_match_SET:
  assumes "line_match FLOM_RSRC_TYPE_SET s = Some g"
  shows "is_alpha (hd s) \<and> CHR ''['' \<notin> set s \<and> CHR ''.'' \<in> set s"
proof -
  let ?ps = "split_on set_separator s"
  have ps: "2 \<le> length ?ps" "\<forall>p \<in> set ?ps. is_ident p"
    using assms by (auto simp: Let_def list_all_iff split: if_splits)
  then obtain a b ys where eq: "?ps = a # b # ys"
    by (cases ?ps; cases "tl ?ps") auto
  have s: "s = a @ set_separator # join_on set_separator (b # ys)"
    using join_split_on [of set_separator s] eq by simp
  have "is_ident a" using ps eq by simp
  then obtain c r where "a = c # r" "is_alpha c" using is_ident_Cons by blast
  moreover have "CHR ''['' \<notin> set s"
    using set_join_on [of set_separator ?ps] join_split_on [of set_separator s] ps(2)
      is_ident_plain(1) by (fastforce simp: set_separator_def)
  ultimately show ?thesis using s by (simp add: set_separator_def)
qed

lemma line_match_HIER: "line_match FLOM_RSRC_TYPE_HIER s = Some g \<Longrightarrow> hd s = CHR ''/''"
  by (auto simp: Let_def hier_separator_def split: list.splits if_splits)

lemma line_match_underscore:
  "line_match FLOM_RSRC_TYPE_SEQUENCE s = Some g \<Longrightarrow>
     take 3 s = ''_s_'' \<or> take 3 s = ''_S_''"
  "line_match FLOM_RSRC_TYPE_TIMESTAMP s = Some g \<Longrightarrow> take 3 s = ''_t_''"
  by (auto split: if_splits)

text \<open>
  The shape of a name decides its type by looking at the first characters and at
  the presence of a bracket or a dot: a reference definition for the ordered
  search of the code.
\<close>

definition name_class :: "string \<Rightarrow> flom_rsrc_type" where
  "name_class s =
     (if take 3 s = ''_RE'' then FLOM_RSRC_TYPE_SIMPLE
      else if take 3 s = ''_s_'' \<or> take 3 s = ''_S_'' then FLOM_RSRC_TYPE_SEQUENCE
      else if take 3 s = ''_t_'' then FLOM_RSRC_TYPE_TIMESTAMP
      else if hd s = CHR ''/'' then FLOM_RSRC_TYPE_HIER
      else if CHR ''['' \<in> set s then FLOM_RSRC_TYPE_NUMERIC
      else if CHR ''.'' \<in> set s then FLOM_RSRC_TYPE_SET
      else FLOM_RSRC_TYPE_SIMPLE)"

lemma alpha_hd_take3:
  assumes "is_alpha (hd s)" "take 3 s = CHR ''_'' # x"
  shows False
  using assms is_alpha_plain(1) by (cases s) auto

lemma slash_hd_take3:
  assumes "hd s = CHR ''/''" "take 3 s = CHR ''_'' # x"
  shows False
  using assms by (cases s) auto

lemma alpha_not_slash: "is_alpha (hd s) \<Longrightarrow> hd s \<noteq> CHR ''/''"
  using is_alpha_plain(4) by blast

lemma line_match_class:
  assumes "line_match t s = Some g" "t \<noteq> FLOM_RSRC_TYPE_NULL"
  shows "name_class s = t"
proof (cases t)
  case FLOM_RSRC_TYPE_SIMPLE
  with assms line_match_SIMPLE consider "s = ''_RESOURCE''"
    | "is_alpha (hd s)" "CHR ''['' \<notin> set s" "CHR ''.'' \<notin> set s" by blast
  then show ?thesis
  proof cases
    case 2
    then have "\<And>x. take 3 s \<noteq> CHR ''_'' # x" using alpha_hd_take3 by blast
    with 2 FLOM_RSRC_TYPE_SIMPLE show ?thesis
      by (simp add: name_class_def alpha_not_slash)
  qed (simp add: name_class_def FLOM_RSRC_TYPE_SIMPLE)
next
  case FLOM_RSRC_TYPE_NUMERIC
  then have l: "is_alpha (hd s)" "CHR ''['' \<in> set s"
    using line_match_NUMERIC assms by blast+
  then have "\<And>x. take 3 s \<noteq> CHR ''_'' # x" using alpha_hd_take3 by blast
  with l FLOM_RSRC_TYPE_NUMERIC show ?thesis by (simp add: name_class_def alpha_not_slash)
next
  case FLOM_RSRC_TYPE_SET
  then have l: "is_alpha (hd s)" "CHR ''['' \<notin> set s" "CHR ''.'' \<in> set s"
    using line_match_SET assms by blast+
  then have "\<And>x. take 3 s \<noteq> CHR ''_'' # x" using alpha_hd_take3 by blast
  with l FLOM_RSRC_TYPE_SET show ?thesis by (simp add: name_class_def alpha_not_slash)
next
  case FLOM_RSRC_TYPE_HIER
  then have l: "hd s = CHR ''/''" using line_match_HIER assms by blast
  then have "\<And>x. take 3 s \<noteq> CHR ''_'' # x" using slash_hd_take3 by blast
  with l FLOM_RSRC_TYPE_HIER show ?thesis by (simp add: name_class_def)
next
  case FLOM_RSRC_TYPE_SEQUENCE
  then have "take 3 s = ''_s_'' \<or> take 3 s = ''_S_''"
    using assms line_match_underscore(1) by blast
  with FLOM_RSRC_TYPE_SEQUENCE show ?thesis by (auto simp: name_class_def)
next
  case FLOM_RSRC_TYPE_TIMESTAMP
  then have "take 3 s = ''_t_''" using assms line_match_underscore(2) by blast
  with FLOM_RSRC_TYPE_TIMESTAMP show ?thesis by (simp add: name_class_def)
qed (use assms in simp)

lemma regexec_class:
  assumes "newline \<notin> set name" "res_name_regexec t name = Some g" "t \<noteq> FLOM_RSRC_TYPE_NULL"
  shows "name_class name = t"
  using assms line_match_class by (simp add: res_name_regexec_line)

lemma get_type_match:
  "flom_rsrc_get_type name = t \<Longrightarrow> t \<noteq> FLOM_RSRC_TYPE_NULL \<Longrightarrow> \<exists>g. res_name_regexec t name = Some g"
  by (auto simp: flom_rsrc_get_type_def split: option.splits dest!: find_Some_set)

lemma get_type_NULL:
  "flom_rsrc_get_type name = FLOM_RSRC_TYPE_NULL \<longleftrightarrow>
   (\<forall>t. t \<noteq> FLOM_RSRC_TYPE_NULL \<longrightarrow> res_name_regexec t name = None)"
proof
  assume *: "flom_rsrc_get_type name = FLOM_RSRC_TYPE_NULL"
  have "find (\<lambda>t. res_name_regexec t name \<noteq> None) rsrc_types = None"
  proof (rule ccontr)
    assume "\<not> ?thesis"
    then obtain t where t: "find (\<lambda>t. res_name_regexec t name \<noteq> None) rsrc_types = Some t"
      by auto
    then have "t \<in> set rsrc_types" by (rule find_Some_set [THEN conjunct1])
    then have "t \<noteq> FLOM_RSRC_TYPE_NULL" by (auto simp: rsrc_types_def)
    with t * show False by (simp add: flom_rsrc_get_type_def)
  qed
  then have none: "\<forall>t \<in> set rsrc_types. res_name_regexec t name = None"
    unfolding find_None_set by blast
  have "t \<noteq> FLOM_RSRC_TYPE_NULL \<Longrightarrow> t \<in> set rsrc_types" for t
    by (cases t) (simp_all add: rsrc_types_def)
  with none show "\<forall>t. t \<noteq> FLOM_RSRC_TYPE_NULL \<longrightarrow> res_name_regexec t name = None"
    by simp
next
  assume "\<forall>t. t \<noteq> FLOM_RSRC_TYPE_NULL \<longrightarrow> res_name_regexec t name = None"
  then have "find (\<lambda>t. res_name_regexec t name \<noteq> None) rsrc_types = None"
    by (simp add: find_None_set rsrc_types_def)
  then show "flom_rsrc_get_type name = FLOM_RSRC_TYPE_NULL"
    by (simp add: flom_rsrc_get_type_def)
qed

section \<open>Properties\<close>

text \<open>C37. On a name of one line the type found by the ordered search over the six
  regular expressions does not depend on the order: a type is the result exactly
  when its expression accepts the name.\<close>

theorem get_type_iff_match:
  assumes "newline \<notin> set name" "t \<noteq> FLOM_RSRC_TYPE_NULL"
  shows "flom_rsrc_get_type name = t \<longleftrightarrow> res_name_regexec t name \<noteq> None"
proof
  assume "flom_rsrc_get_type name = t"
  then show "res_name_regexec t name \<noteq> None" using get_type_match assms(2) by blast
next
  assume r: "res_name_regexec t name \<noteq> None"
  then have "flom_rsrc_get_type name \<noteq> FLOM_RSRC_TYPE_NULL"
    using get_type_NULL [of name] assms(2) by auto
  then obtain g where "res_name_regexec (flom_rsrc_get_type name) name = Some g"
    using get_type_match by blast
  then have "name_class name = flom_rsrc_get_type name"
    using regexec_class [OF assms(1)] \<open>flom_rsrc_get_type name \<noteq> FLOM_RSRC_TYPE_NULL\<close> by blast
  moreover have "name_class name = t" using regexec_class [OF assms(1)] r assms(2) by blast
  ultimately show "flom_rsrc_get_type name = t" by simp
qed

theorem get_type_iff_match_witness:
  "newline \<notin> set ''disk[5]'' \<and> flom_rsrc_get_type ''disk[5]'' = FLOM_RSRC_TYPE_NUMERIC"
proof -
  have nl: "newline \<notin> set ''disk[5]''" by (simp add: newline_def)
  have "res_name_regexec FLOM_RSRC_TYPE_NUMERIC ''disk[5]'' \<noteq> None"
    by code_simp
  with nl show ?thesis
    using get_type_iff_match [of "''disk[5]''" FLOM_RSRC_TYPE_NUMERIC] by blast
qed

text \<open>The number of a numeric resource name is read back exactly: for an
  identifier followed by the decimal digits of a number of the range of a gint in
  brackets, the number is the one written.\<close>

theorem get_number_roundtrip:
  assumes "is_ident p" "n < 2147483648"
  shows "flom_rsrc_get_number (p @ CHR ''['' # string_of_nat n @ '']'') FLOM_RSRC_TYPE_NUMERIC
         = (FLOM_RC_OK, Some (int n))"
proof -
  let ?name = "p @ CHR ''['' # string_of_nat n @ '']''"
  have "bracketed is_ident ?name = Some (p, string_of_nat n)"
    using assms(1) is_ident_plain(1) string_of_nat_digits by (intro bracketed_build) auto
  then have m: "line_match FLOM_RSRC_TYPE_NUMERIC ?name = Some (Some p, Some (string_of_nat n))"
    by (simp add: number_groups_def)
  have "newline \<notin> set ?name"
    using is_ident_plain(3) [OF assms(1)] string_of_nat_digits [of n]
    by (auto simp: newline_def is_digit_def)
  with m have r: "res_name_regexec FLOM_RSRC_TYPE_NUMERIC ?name = Some (Some p, Some (string_of_nat n))"
    using res_name_regexec_line [of ?name] by simp
  have "length (string_of_nat n) \<le> 10"
    using assms(2) string_of_nat_length [of n 9] by simp
  then have "take 999 (string_of_nat n) = string_of_nat n" by simp
  moreover have "to_gint (strtol (string_of_nat n)) = int n"
    using gint_strtol_string_of_int [of "int n"] assms(2)
    by (simp add: gint_range_def string_of_int_def)
  ultimately show ?thesis using r by (simp add: flom_rsrc_get_number_def)
qed

theorem get_number_roundtrip_witness:
  "flom_rsrc_get_number (''disk'' @ CHR ''['' # string_of_nat 42 @ '']'') FLOM_RSRC_TYPE_NUMERIC
   = (FLOM_RC_OK, Some 42)"
proof -
  have "is_ident ''disk''" by code_simp
  then show ?thesis using get_number_roundtrip [of "''disk''" 42] by simp
qed

text \<open>A number beyond the range of a gint is not refused: its conversion wraps,
  and a resource named with 4294967297 units has one unit, one named with twenty
  nines has -1.\<close>

theorem get_number_wraps:
  "flom_rsrc_get_number ''a[4294967297]'' FLOM_RSRC_TYPE_NUMERIC = (FLOM_RC_OK, Some 1) \<and>
   flom_rsrc_get_number ''a[99999999999999999999]'' FLOM_RSRC_TYPE_NUMERIC = (FLOM_RC_OK, Some (- 1))"
proof -
  have d: "digits_value (takeWhile is_digit ''4294967297'') = 4294967297"
    "digits_value (takeWhile is_digit ''99999999999999999999'') = 99999999999999999999"
    by (simp_all add: digits_value_def is_digit_def digit_value_def)
  have "strtol ''4294967297'' = 4294967297" "strtol ''99999999999999999999'' = long_max"
    using d by (simp_all add: strtol_def is_space_def long_max_def)
  moreover have
    "res_name_regexec FLOM_RSRC_TYPE_NUMERIC ''a[4294967297]'' = Some (Some ''a'', Some ''4294967297'')"
    "res_name_regexec FLOM_RSRC_TYPE_NUMERIC ''a[99999999999999999999]''
       = Some (Some ''a'', Some ''99999999999999999999'')"
    by code_simp+
  ultimately show ?thesis
    by (simp add: flom_rsrc_get_number_def to_gint_def long_max_def)
qed

text \<open>The elements of a resource set are the identifiers between the dots, in
  order: two or more, each an identifier, none of them locked, and together with
  the separators they spell the name.\<close>

theorem get_elements_of_set:
  assumes "newline \<notin> set name" "flom_rsrc_get_type name = FLOM_RSRC_TYPE_SET"
  shows "\<exists>ps. flom_rsrc_get_elements name [] =
               (FLOM_RC_OK, map (\<lambda>n. \<lparr>se_name = n, se_conn = None\<rparr>) ps)
             \<and> 2 \<le> length ps \<and> list_all is_ident ps \<and> join_on set_separator ps = name"
proof -
  let ?ps = "split_on set_separator name"
  have "line_match FLOM_RSRC_TYPE_SET name \<noteq> None"
    using get_type_match [OF assms(2)] res_name_regexec_line [OF assms(1)] by fastforce
  then have ps: "2 \<le> length ?ps" "list_all is_ident ?ps"
    by (simp_all add: Let_def split: if_splits)
  then have "name \<noteq> []" by auto
  with ps show ?thesis
    by (intro exI [of _ ?ps]) (simp add: flom_rsrc_get_elements_def g_strsplit_def join_split_on)
qed

theorem get_elements_of_set_witness:
  "\<exists>ps. flom_rsrc_get_elements ''red.green.blue'' [] =
          (FLOM_RC_OK, map (\<lambda>n. \<lparr>se_name = n, se_conn = None\<rparr>) ps)
        \<and> 2 \<le> length ps \<and> list_all is_ident ps \<and> join_on set_separator ps = ''red.green.blue''"
proof -
  have "newline \<notin> set ''red.green.blue''" "flom_rsrc_get_type ''red.green.blue'' = FLOM_RSRC_TYPE_SET"
    by code_simp+
  then show ?thesis by (rule get_elements_of_set)
qed

end
