(* ===== verification/Msg.thy ===== *)
theory Msg
  imports Rsrc_Name
begin

text \<open>
  The messages of the protocol, \<^verbatim>\<open>src/src/flom_msg.h\<close> and \<^verbatim>\<open>src/src/flom_msg.c\<close>:
  the lock modes, the message structure, its release, the check of the direction
  of a message, the XML text of every message, the parser callbacks that fill a
  message from the XML events, and the construction of the daemon's answers.

  The body of a message is a C union; its members are the separate fields of one
  record here, except \<^verbatim>\<open>lock_24\<close> and \<^verbatim>\<open>lock_32\<close>, which have the same layout and
  which the code uses interchangeably: they are the one field \<open>lock_24\<close>.  This is
  exact as long as verb and step do not change once a member has been written.
  A \<^verbatim>\<open>gchar *\<close> is a \<open>string option\<close>, with \<open>None\<close> for \<^verbatim>\<open>NULL\<close>.
\<close>

section \<open>Lock modes\<close>

text \<open>
  The mode of a request is converted from the text of the message without a
  check, so a value outside the enumeration is possible.
\<close>

datatype flom_lock_mode =
    FLOM_LOCK_MODE_NL | FLOM_LOCK_MODE_CR | FLOM_LOCK_MODE_CW
  | FLOM_LOCK_MODE_PR | FLOM_LOCK_MODE_PW | FLOM_LOCK_MODE_EX
  | FLOM_LOCK_MODE_N | FLOM_LOCK_MODE_INVALID | FLOM_LOCK_MODE_OTHER int

definition lock_mode_of_int :: "int \<Rightarrow> flom_lock_mode" where
  "lock_mode_of_int i =
     (if i = 0 then FLOM_LOCK_MODE_NL else if i = 1 then FLOM_LOCK_MODE_CR
      else if i = 2 then FLOM_LOCK_MODE_CW else if i = 3 then FLOM_LOCK_MODE_PR
      else if i = 4 then FLOM_LOCK_MODE_PW else if i = 5 then FLOM_LOCK_MODE_EX
      else if i = 6 then FLOM_LOCK_MODE_N else if i = 7 then FLOM_LOCK_MODE_INVALID
      else FLOM_LOCK_MODE_OTHER i)"

fun int_of_lock_mode :: "flom_lock_mode \<Rightarrow> int" where
  "int_of_lock_mode FLOM_LOCK_MODE_NL = 0"
| "int_of_lock_mode FLOM_LOCK_MODE_CR = 1"
| "int_of_lock_mode FLOM_LOCK_MODE_CW = 2"
| "int_of_lock_mode FLOM_LOCK_MODE_PR = 3"
| "int_of_lock_mode FLOM_LOCK_MODE_PW = 4"
| "int_of_lock_mode FLOM_LOCK_MODE_EX = 5"
| "int_of_lock_mode FLOM_LOCK_MODE_N = 6"
| "int_of_lock_mode FLOM_LOCK_MODE_INVALID = 7"
| "int_of_lock_mode (FLOM_LOCK_MODE_OTHER i) = i"

definition valid_mode :: "flom_lock_mode \<Rightarrow> bool" where
  "valid_mode m \<longleftrightarrow> m \<in> {FLOM_LOCK_MODE_NL, FLOM_LOCK_MODE_CR, FLOM_LOCK_MODE_CW,
     FLOM_LOCK_MODE_PR, FLOM_LOCK_MODE_PW, FLOM_LOCK_MODE_EX}"

fun flom_lock_mode_short_string :: "flom_lock_mode \<Rightarrow> string option" where
  "flom_lock_mode_short_string FLOM_LOCK_MODE_NL = Some ''NL''"
| "flom_lock_mode_short_string FLOM_LOCK_MODE_CR = Some ''CR''"
| "flom_lock_mode_short_string FLOM_LOCK_MODE_CW = Some ''CW''"
| "flom_lock_mode_short_string FLOM_LOCK_MODE_PR = Some ''PR''"
| "flom_lock_mode_short_string FLOM_LOCK_MODE_PW = Some ''PW''"
| "flom_lock_mode_short_string FLOM_LOCK_MODE_EX = Some ''EX''"
| "flom_lock_mode_short_string _ = None"

fun flom_lock_mode_long_string :: "flom_lock_mode \<Rightarrow> string option" where
  "flom_lock_mode_long_string FLOM_LOCK_MODE_NL = Some ''NullLock''"
| "flom_lock_mode_long_string FLOM_LOCK_MODE_CR = Some ''ConcurrentRead''"
| "flom_lock_mode_long_string FLOM_LOCK_MODE_CW = Some ''ConcurrentWrite''"
| "flom_lock_mode_long_string FLOM_LOCK_MODE_PR = Some ''ProtectedRead''"
| "flom_lock_mode_long_string FLOM_LOCK_MODE_PW = Some ''ProtectedWrite''"
| "flom_lock_mode_long_string FLOM_LOCK_MODE_EX = Some ''Exclusive''"
| "flom_lock_mode_long_string _ = None"

text \<open>\<^verbatim>\<open>STRCASESTR\<close>: a substring search without regard to the case.\<close>

definition to_lower :: "char \<Rightarrow> char" where
  "to_lower c = (let n = (of_char c :: nat) in if 65 \<le> n \<and> n \<le> 90 then char_of (n + 32) else c)"

fun is_prefix_of :: "string \<Rightarrow> string \<Rightarrow> bool" where
  "is_prefix_of [] t = True"
| "is_prefix_of (c # s) [] = False"
| "is_prefix_of (c # s) (d # t) = (c = d \<and> is_prefix_of s t)"

fun is_substring :: "string \<Rightarrow> string \<Rightarrow> bool" where
  "is_substring s [] = (s = [])"
| "is_substring s (d # t) = (is_prefix_of s (d # t) \<or> is_substring s t)"

definition strcasestr :: "string \<Rightarrow> string \<Rightarrow> bool" where
  "strcasestr text pat = is_substring (map to_lower pat) (map to_lower text)"

definition flom_lock_mode_retrieve :: "string \<Rightarrow> flom_lock_mode" where
  "flom_lock_mode_retrieve text =
     (if strcasestr text ''NullLock'' \<or> strcasestr text ''NL'' then FLOM_LOCK_MODE_NL
      else if strcasestr text ''ConcurrentRead'' \<or> strcasestr text ''CR'' then FLOM_LOCK_MODE_CR
      else if strcasestr text ''ConcurrentWrite'' \<or> strcasestr text ''CW'' then FLOM_LOCK_MODE_CW
      else if strcasestr text ''ProtectedWrite'' \<or> strcasestr text ''PW'' then FLOM_LOCK_MODE_PW
      else if strcasestr text ''ProtectedRead'' \<or> strcasestr text ''PR'' then FLOM_LOCK_MODE_PR
      else if strcasestr text ''Exclusive'' \<or> strcasestr text ''EX'' then FLOM_LOCK_MODE_EX
      else FLOM_LOCK_MODE_INVALID)"

section \<open>The message structure\<close>

abbreviation (input) FLOM_MSG_VERB_NULL :: int where "FLOM_MSG_VERB_NULL \<equiv> 0"
abbreviation (input) FLOM_MSG_VERB_LOCK :: int where "FLOM_MSG_VERB_LOCK \<equiv> 1"
abbreviation (input) FLOM_MSG_VERB_UNLOCK :: int where "FLOM_MSG_VERB_UNLOCK \<equiv> 2"
abbreviation (input) FLOM_MSG_VERB_PING :: int where "FLOM_MSG_VERB_PING \<equiv> 3"
abbreviation (input) FLOM_MSG_VERB_DISCOVER :: int where "FLOM_MSG_VERB_DISCOVER \<equiv> 4"
abbreviation (input) FLOM_MSG_VERB_MNGMNT :: int where "FLOM_MSG_VERB_MNGMNT \<equiv> 5"
abbreviation (input) FLOM_MSG_STEP_INCR :: int where "FLOM_MSG_STEP_INCR \<equiv> 8"
abbreviation (input) FLOM_MSG_LEVEL :: int where "FLOM_MSG_LEVEL \<equiv> 3"

datatype flom_msg_state =
    FLOM_MSG_STATE_INITIALIZED | FLOM_MSG_STATE_PARSING
  | FLOM_MSG_STATE_READY | FLOM_MSG_STATE_INVALID

record flom_msg_body_answer =
  ans_rc :: int
  ans_element :: "string option"

record flom_msg_body_lock_8 =
  l8_peerid :: "string option"
  l8_name :: "string option"
  l8_mode :: flom_lock_mode
  l8_wait :: int
  l8_quantity :: int
  l8_create :: int
  l8_lifespan :: int

record flom_msg_body_lock_16 =
  l16_peerid :: "string option"
  l16_answer :: flom_msg_body_answer

record flom_msg_body_unlock_8 =
  u8_name :: "string option"
  u8_rollback :: int

record flom_msg_body_discover_16 =
  d16_address :: "string option"
  d16_port :: int

datatype flom_msg_mngmnt_action =
    FLOM_MSG_MNGMNT_ACTION_NULL | FLOM_MSG_MNGMNT_ACTION_SHUTDOWN | FLOM_MSG_MNGMNT_ACTION_INVALID

record flom_msg_body_mngmnt_8 =
  m8_peerid :: "string option"
  m8_action :: flom_msg_mngmnt_action
  m8_immediate :: int

record flom_msg =
  msg_state :: flom_msg_state
  msg_level :: int
  msg_verb :: int
  msg_step :: int
  lock_8 :: flom_msg_body_lock_8
  lock_16 :: flom_msg_body_lock_16
  lock_24 :: flom_msg_body_answer
  unlock_8 :: flom_msg_body_unlock_8
  discover_16 :: flom_msg_body_discover_16
  mngmnt_8 :: flom_msg_body_mngmnt_8

definition flom_msg_init :: flom_msg where
  "flom_msg_init =
     \<lparr> msg_state = FLOM_MSG_STATE_INITIALIZED, msg_level = 0, msg_verb = 0, msg_step = 0,
       lock_8 = \<lparr> l8_peerid = None, l8_name = None, l8_mode = FLOM_LOCK_MODE_NL, l8_wait = 0,
                  l8_quantity = 0, l8_create = 0, l8_lifespan = 0 \<rparr>,
       lock_16 = \<lparr> l16_peerid = None, l16_answer = \<lparr> ans_rc = 0, ans_element = None \<rparr> \<rparr>,
       lock_24 = \<lparr> ans_rc = 0, ans_element = None \<rparr>,
       unlock_8 = \<lparr> u8_name = None, u8_rollback = 0 \<rparr>,
       discover_16 = \<lparr> d16_address = None, d16_port = 0 \<rparr>,
       mngmnt_8 = \<lparr> m8_peerid = None, m8_action = FLOM_MSG_MNGMNT_ACTION_NULL, m8_immediate = 0 \<rparr> \<rparr>"

section \<open>Release, protocol check, answers\<close>

definition flom_msg_free_body :: "flom_msg \<Rightarrow> flom_msg option" where
  "flom_msg_free_body m =
     (let verb = msg_verb m; step = msg_step m in
      if verb = FLOM_MSG_VERB_NULL then Some m
      else if verb = FLOM_MSG_VERB_LOCK then
        (if step = FLOM_MSG_STEP_INCR then
           Some (m\<lparr>lock_8 := (lock_8 m)\<lparr>l8_peerid := None, l8_name := None\<rparr>\<rparr>)
         else if step = 2 * FLOM_MSG_STEP_INCR then
           Some (m\<lparr>lock_16 := (lock_16 m)\<lparr>l16_peerid := None,
                    l16_answer := (l16_answer (lock_16 m))\<lparr>ans_element := None\<rparr>\<rparr>\<rparr>)
         else if step = 3 * FLOM_MSG_STEP_INCR \<or> step = 4 * FLOM_MSG_STEP_INCR then
           Some (m\<lparr>lock_24 := (lock_24 m)\<lparr>ans_element := None\<rparr>\<rparr>)
         else None)
      else if verb = FLOM_MSG_VERB_UNLOCK then
        (if step = FLOM_MSG_STEP_INCR then Some (m\<lparr>unlock_8 := (unlock_8 m)\<lparr>u8_name := None\<rparr>\<rparr>)
         else if step = 2 * FLOM_MSG_STEP_INCR then Some m
         else None)
      else if verb = FLOM_MSG_VERB_PING then
        (if step = FLOM_MSG_STEP_INCR \<or> step = 2 * FLOM_MSG_STEP_INCR then Some m else None)
      else if verb = FLOM_MSG_VERB_DISCOVER then
        (if step = FLOM_MSG_STEP_INCR then Some m
         else if step = 2 * FLOM_MSG_STEP_INCR then
           Some (m\<lparr>discover_16 := (discover_16 m)\<lparr>d16_address := None\<rparr>\<rparr>)
         else None)
      else if verb = FLOM_MSG_VERB_MNGMNT then
        (if step = FLOM_MSG_STEP_INCR then Some (m\<lparr>mngmnt_8 := (mngmnt_8 m)\<lparr>m8_peerid := None\<rparr>\<rparr>)
         else None)
      else None)"

definition flom_msg_free :: "flom_msg \<Rightarrow> rc \<times> flom_msg" where
  "flom_msg_free m =
     (let m' = m\<lparr>msg_state := FLOM_MSG_STATE_INVALID\<rparr> in
      case flom_msg_free_body m' of
        None \<Rightarrow> (FLOM_RC_INVALID_PROPERTY_VALUE, m')
      | Some m'' \<Rightarrow> (FLOM_RC_OK, m''))"

definition flom_msg_check_protocol :: "flom_msg \<Rightarrow> bool \<Rightarrow> bool" where
  "flom_msg_check_protocol m client =
     (let verb = msg_verb m; step = msg_step m in
      if verb = FLOM_MSG_VERB_LOCK then
        (if step = FLOM_MSG_STEP_INCR then client
         else if step = 2 * FLOM_MSG_STEP_INCR \<or> step = 3 * FLOM_MSG_STEP_INCR
                 \<or> step = 4 * FLOM_MSG_STEP_INCR then \<not> client
         else False)
      else if verb = FLOM_MSG_VERB_UNLOCK then
        (if step = FLOM_MSG_STEP_INCR then client else False)
      else if verb = FLOM_MSG_VERB_PING then
        (if step = FLOM_MSG_STEP_INCR then \<not> client
         else if step = 2 * FLOM_MSG_STEP_INCR then client
         else False)
      else if verb = FLOM_MSG_VERB_DISCOVER then
        (if step = FLOM_MSG_STEP_INCR then client
         else if step = 2 * FLOM_MSG_STEP_INCR then \<not> client
         else False)
      else if verb = FLOM_MSG_VERB_MNGMNT then
        (if step = FLOM_MSG_STEP_INCR then client else False)
      else False)"

text \<open>
  The answer of the daemon.  \<open>uid\<close> is the value of \<^verbatim>\<open>flom_tls_get_unique_id\<close>,
  \<^verbatim>\<open>NULL\<close> when it is not available.  Copying the element never fails: \<^verbatim>\<open>g_strdup\<close>
  aborts the process when the memory is exhausted.
\<close>

definition flom_msg_build_answer ::
  "string option \<Rightarrow> flom_msg \<Rightarrow> int \<Rightarrow> int \<Rightarrow> int \<Rightarrow> string option \<Rightarrow> rc \<times> flom_msg" where
  "flom_msg_build_answer uid m verb step rc element =
     (let m1 = m\<lparr>msg_state := FLOM_MSG_STATE_PARSING, msg_level := FLOM_MSG_LEVEL,
                 msg_verb := verb, msg_step := step\<rparr> in
      if step = 2 * FLOM_MSG_STEP_INCR then
        (let m2 = m1\<lparr>lock_16 := (lock_16 m1)\<lparr>l16_peerid := uid\<rparr>\<rparr> in
         if uid = None then (FLOM_RC_NULL_OBJECT, m2)
         else (FLOM_RC_OK, m2\<lparr>lock_16 := (lock_16 m2)\<lparr>l16_answer := \<lparr>ans_rc = rc, ans_element = element\<rparr>\<rparr>,
                              msg_state := FLOM_MSG_STATE_READY\<rparr>))
      else if step = 3 * FLOM_MSG_STEP_INCR \<or> step = 4 * FLOM_MSG_STEP_INCR then
        (FLOM_RC_OK, m1\<lparr>lock_24 := \<lparr>ans_rc = rc, ans_element = element\<rparr>,
                        msg_state := FLOM_MSG_STATE_READY\<rparr>)
      else (FLOM_RC_INVALID_OPTION, m1))"

definition flom_msg_get_peerid :: "flom_msg option \<Rightarrow> string option" where
  "flom_msg_get_peerid mo =
     (case mo of
        None \<Rightarrow> None
      | Some m \<Rightarrow>
          if msg_verb m = FLOM_MSG_VERB_LOCK then
            (if msg_step m = FLOM_MSG_STEP_INCR then l8_peerid (lock_8 m)
             else if msg_step m = 2 * FLOM_MSG_STEP_INCR then l16_peerid (lock_16 m)
             else None)
          else if msg_verb m = FLOM_MSG_VERB_MNGMNT then
            (if msg_step m = FLOM_MSG_STEP_INCR then m8_peerid (mngmnt_8 m) else None)
          else None)"

section \<open>Properties\<close>

lemma strcasestr_case: "map to_lower s = map to_lower t \<Longrightarrow> strcasestr s pat = strcasestr t pat"
  by (simp add: strcasestr_def)

lemma retrieve_case: "map to_lower s = map to_lower t \<Longrightarrow> flom_lock_mode_retrieve s = flom_lock_mode_retrieve t"
  by (simp add: flom_lock_mode_retrieve_def strcasestr_case [of s t])

lemma to_lower_letters:
  "to_lower (CHR ''C'') = CHR ''c''" "to_lower (CHR ''E'') = CHR ''e''" "to_lower (CHR ''L'') = CHR ''l''"
  "to_lower (CHR ''N'') = CHR ''n''" "to_lower (CHR ''P'') = CHR ''p''" "to_lower (CHR ''R'') = CHR ''r''"
  "to_lower (CHR ''W'') = CHR ''w''" "to_lower (CHR ''X'') = CHR ''x''" "to_lower (CHR ''a'') = CHR ''a''"
  "to_lower (CHR ''c'') = CHR ''c''" "to_lower (CHR ''d'') = CHR ''d''" "to_lower (CHR ''e'') = CHR ''e''"
  "to_lower (CHR ''i'') = CHR ''i''" "to_lower (CHR ''k'') = CHR ''k''" "to_lower (CHR ''l'') = CHR ''l''"
  "to_lower (CHR ''n'') = CHR ''n''" "to_lower (CHR ''o'') = CHR ''o''" "to_lower (CHR ''r'') = CHR ''r''"
  "to_lower (CHR ''s'') = CHR ''s''" "to_lower (CHR ''t'') = CHR ''t''" "to_lower (CHR ''u'') = CHR ''u''"
  "to_lower (CHR ''v'') = CHR ''v''" "to_lower (CHR ''x'') = CHR ''x''"
  by code_simp+

lemma retrieve_printed:
  "flom_lock_mode_retrieve ''NL'' = FLOM_LOCK_MODE_NL" "flom_lock_mode_retrieve ''NullLock'' = FLOM_LOCK_MODE_NL"
  "flom_lock_mode_retrieve ''CR'' = FLOM_LOCK_MODE_CR" "flom_lock_mode_retrieve ''ConcurrentRead'' = FLOM_LOCK_MODE_CR"
  "flom_lock_mode_retrieve ''CW'' = FLOM_LOCK_MODE_CW" "flom_lock_mode_retrieve ''ConcurrentWrite'' = FLOM_LOCK_MODE_CW"
  "flom_lock_mode_retrieve ''PR'' = FLOM_LOCK_MODE_PR" "flom_lock_mode_retrieve ''ProtectedRead'' = FLOM_LOCK_MODE_PR"
  "flom_lock_mode_retrieve ''PW'' = FLOM_LOCK_MODE_PW" "flom_lock_mode_retrieve ''ProtectedWrite'' = FLOM_LOCK_MODE_PW"
  "flom_lock_mode_retrieve ''EX'' = FLOM_LOCK_MODE_EX" "flom_lock_mode_retrieve ''Exclusive'' = FLOM_LOCK_MODE_EX"
  by (simp_all add: flom_lock_mode_retrieve_def strcasestr_def to_lower_letters)

text \<open>The lock mode written on a command line or in a configuration file is read
  back: the short and the long name of a mode, in any mixture of upper and lower
  case, are recognised as that mode.\<close>

theorem lock_mode_names_roundtrip:
  assumes "flom_lock_mode_short_string mode = Some name \<or> flom_lock_mode_long_string mode = Some name"
    and "map to_lower s = map to_lower name"
  shows "flom_lock_mode_retrieve s = mode"
  unfolding retrieve_case [OF assms(2)]
  using assms(1) by (cases mode) (auto simp: retrieve_printed)

theorem lock_mode_names_roundtrip_witness:
  "flom_lock_mode_retrieve ''protectedWRITE'' = FLOM_LOCK_MODE_PW"
proof (rule lock_mode_names_roundtrip)
  show "flom_lock_mode_short_string FLOM_LOCK_MODE_PW = Some ''ProtectedWrite'' \<or>
    flom_lock_mode_long_string FLOM_LOCK_MODE_PW = Some ''ProtectedWrite''" by simp
  show "map to_lower ''protectedWRITE'' = map to_lower ''ProtectedWrite''" by code_simp
qed

end
