(* ===== verification/Msg_Xml.thy ===== *)
theory Msg_Xml
  imports Msg "HOL-Library.Sublist"
begin

text \<open>
  The XML form of the messages: \<^verbatim>\<open>flom_msg_serialize\<close> with one function per verb
  and step, and the callbacks \<^verbatim>\<open>flom_msg_deserialize_start_element\<close> and
  \<^verbatim>\<open>flom_msg_deserialize_end_element\<close> that GMarkup calls, all of
  \<^verbatim>\<open>src/src/flom_msg.c\<close>.

  The GLib functions are parameters: \<open>b64\<close> stands for \<^verbatim>\<open>g_base64_encode\<close> and
  \<open>unb64\<close> for \<^verbatim>\<open>g_base64_decode\<close> with the reallocation that appends the
  terminator (\<open>None\<close> when one of the two returns \<^verbatim>\<open>NULL\<close>).  GMarkup itself is
  represented by the sequence of the events it delivers.
\<close>

section \<open>Serialization\<close>

text \<open>
  The state of a serialization: the text written so far (its length is the
  \<^verbatim>\<open>offset\<close>) and \<^verbatim>\<open>free_chars\<close>.  Every \<^verbatim>\<open>snprintf\<close> is followed by the same
  check of the space left, with room kept for the terminator.
\<close>

type_synonym ser = "string \<times> nat"

definition put :: "string \<Rightarrow> ser \<Rightarrow> rc + ser" where
  "put s b = (if snd b \<le> length s then Inl FLOM_RC_CONTAINER_FULL
              else Inr (fst b @ s, snd b - length s))"

definition ser_bind :: "rc + 'a \<Rightarrow> ('a \<Rightarrow> rc + 'b) \<Rightarrow> rc + 'b" where
  "ser_bind x f = (case x of Inl e \<Rightarrow> Inl e | Inr a \<Rightarrow> f a)"

definition dquote :: char where "dquote = CHR 0x22"

definition xml_attr :: "string \<times> string \<Rightarrow> string" where
  "xml_attr kv = '' '' @ fst kv @ ''='' @ dquote # snd kv @ [dquote]"

definition xml_empty :: "string \<Rightarrow> (string \<times> string) list \<Rightarrow> string" where
  "xml_empty tag as = ''<'' @ tag @ concat (map xml_attr as) @ ''/>''"

definition str_or_empty :: "string option \<Rightarrow> string" where
  "str_or_empty s = (case s of None \<Rightarrow> [] | Some t \<Rightarrow> t)"

definition answer_attrs :: "flom_msg_body_answer \<Rightarrow> (string \<times> string) list" where
  "answer_attrs a =
     (case ans_element a of
        None \<Rightarrow> [(''rc'', string_of_int (ans_rc a))]
      | Some e \<Rightarrow> [(''rc'', string_of_int (ans_rc a)), (''element'', e)])"

text \<open>
  The attributes of the resource element of a lock request depend on the type of
  the resource.  The name must not be \<^verbatim>\<open>NULL\<close> (\<^verbatim>\<open>strlen\<close> would read through it):
  the clients always set it.
\<close>

definition lock_8_attrs ::
  "(string \<Rightarrow> string) \<Rightarrow> flom_msg_body_lock_8 \<Rightarrow> (string \<times> string) list option" where
  "lock_8_attrs b64 b =
     (let name = str_or_empty (l8_name b);
          n = (''name'', b64 name);
          mode = (''mode'', string_of_int (int_of_lock_mode (l8_mode b)));
          wait = (''wait'', string_of_int (l8_wait b));
          quantity = (''quantity'', string_of_int (l8_quantity b));
          create = (''create'', string_of_int (l8_create b));
          lifespan = (''lifespan'', string_of_int (l8_lifespan b)) in
      case flom_rsrc_get_type name of
        FLOM_RSRC_TYPE_SIMPLE \<Rightarrow> Some [n, mode, wait, create, lifespan]
      | FLOM_RSRC_TYPE_NUMERIC \<Rightarrow> Some [n, wait, quantity, create, lifespan]
      | FLOM_RSRC_TYPE_SET \<Rightarrow> Some [n, wait, create, lifespan]
      | FLOM_RSRC_TYPE_HIER \<Rightarrow> Some [n, mode, wait, create, lifespan]
      | FLOM_RSRC_TYPE_SEQUENCE \<Rightarrow> Some [n, wait, create, lifespan]
      | FLOM_RSRC_TYPE_TIMESTAMP \<Rightarrow> Some [n, wait, create, lifespan]
      | FLOM_RSRC_TYPE_NULL \<Rightarrow> None)"

definition flom_msg_serialize_lock_8 :: "(string \<Rightarrow> string) \<Rightarrow> flom_msg \<Rightarrow> ser \<Rightarrow> rc + ser" where
  "flom_msg_serialize_lock_8 b64 m b =
     ser_bind (put (xml_empty ''session'' [(''peerid'', str_or_empty (l8_peerid (lock_8 m)))]) b)
       (\<lambda>b. case lock_8_attrs b64 (lock_8 m) of
              None \<Rightarrow> Inl FLOM_RC_INVALID_RESOURCE_NAME
            | Some as \<Rightarrow> put (xml_empty ''resource'' as) b)"

definition flom_msg_serialize_lock_16 :: "flom_msg \<Rightarrow> ser \<Rightarrow> rc + ser" where
  "flom_msg_serialize_lock_16 m b =
     ser_bind (put (xml_empty ''session'' [(''peerid'', str_or_empty (l16_peerid (lock_16 m)))]) b)
       (put (xml_empty ''answer'' (answer_attrs (l16_answer (lock_16 m)))))"

definition flom_msg_serialize_lock_24 :: "flom_msg \<Rightarrow> ser \<Rightarrow> rc + ser" where
  "flom_msg_serialize_lock_24 m b = put (xml_empty ''answer'' (answer_attrs (lock_24 m))) b"

definition flom_msg_serialize_lock_32 :: "flom_msg \<Rightarrow> ser \<Rightarrow> rc + ser" where
  "flom_msg_serialize_lock_32 m b = put (xml_empty ''answer'' (answer_attrs (lock_24 m))) b"

definition flom_msg_serialize_unlock_8 :: "(string \<Rightarrow> string) \<Rightarrow> flom_msg \<Rightarrow> ser \<Rightarrow> rc + ser" where
  "flom_msg_serialize_unlock_8 b64 m b =
     put (''<resource'' @ xml_attr (''name'', b64 (str_or_empty (u8_name (unlock_8 m))))
          @ xml_attr (''rollback'', string_of_int (u8_rollback (unlock_8 m))) @ '' />'') b"

definition flom_msg_serialize_ping :: "flom_msg \<Rightarrow> ser \<Rightarrow> rc + ser" where
  "flom_msg_serialize_ping m b = Inr b"

definition flom_msg_serialize_discover_8 :: "flom_msg \<Rightarrow> ser \<Rightarrow> rc + ser" where
  "flom_msg_serialize_discover_8 m b = Inr b"

definition flom_msg_serialize_discover_16 :: "flom_msg \<Rightarrow> ser \<Rightarrow> rc + ser" where
  "flom_msg_serialize_discover_16 m b =
     put (xml_empty ''network''
       [(''address'', str_or_empty (d16_address (discover_16 m))),
        (''port'', string_of_int (d16_port (discover_16 m)))]) b"

text \<open>
  When the action is not a shutdown nothing is printed, but the number of
  characters of the session element is subtracted and added a second time: the
  text then carries the terminator of the last \<^verbatim>\<open>snprintf\<close> and what the buffer of
  the caller, \<open>old\<close>, held behind it.
\<close>

definition stale :: "(nat \<Rightarrow> char) \<Rightarrow> nat \<Rightarrow> nat \<Rightarrow> string" where
  "stale old offset n = map (\<lambda>i. if i = 0 then CHR 0x00 else old (offset + i)) [0..<n]"

definition flom_msg_serialize_mngmnt_8 :: "(nat \<Rightarrow> char) \<Rightarrow> flom_msg \<Rightarrow> ser \<Rightarrow> rc + ser" where
  "flom_msg_serialize_mngmnt_8 old m b =
     (let session = xml_empty ''session'' [(''peerid'', str_or_empty (m8_peerid (mngmnt_8 m)))] in
      ser_bind (put session b)
        (\<lambda>b. if m8_action (mngmnt_8 m) = FLOM_MSG_MNGMNT_ACTION_SHUTDOWN
             then put (xml_empty ''shutdown''
                    [(''immediate'', string_of_int (m8_immediate (mngmnt_8 m)))]) b
             else put (stale old (length (fst b)) (length session)) b))"

definition xml_header :: string where
  "xml_header = ''<?xml version='' @ dquote # ''1.0'' @ dquote # '' encoding='' @ dquote # ''UTF-8''
     @ dquote # '' ?>''"

definition msg_attrs :: "flom_msg \<Rightarrow> (string \<times> string) list" where
  "msg_attrs m = [(''level'', string_of_int (msg_level m)), (''verb'', string_of_int (msg_verb m)),
                  (''step'', string_of_int (msg_step m))]"

definition xml_msg_open :: "flom_msg \<Rightarrow> string" where
  "xml_msg_open m = ''<msg'' @ concat (map xml_attr (msg_attrs m)) @ ''>''"

definition flom_msg_serialize_body ::
  "(string \<Rightarrow> string) \<Rightarrow> (nat \<Rightarrow> char) \<Rightarrow> flom_msg \<Rightarrow> ser \<Rightarrow> rc + ser" where
  "flom_msg_serialize_body b64 old m b =
     (let verb = msg_verb m; step = msg_step m in
      if verb = FLOM_MSG_VERB_LOCK then
        (if step = FLOM_MSG_STEP_INCR then flom_msg_serialize_lock_8 b64 m b
         else if step = 2 * FLOM_MSG_STEP_INCR then flom_msg_serialize_lock_16 m b
         else if step = 3 * FLOM_MSG_STEP_INCR then flom_msg_serialize_lock_24 m b
         else if step = 4 * FLOM_MSG_STEP_INCR then flom_msg_serialize_lock_32 m b
         else Inl FLOM_RC_INTERNAL_ERROR)
      else if verb = FLOM_MSG_VERB_UNLOCK then
        (if step = FLOM_MSG_STEP_INCR then flom_msg_serialize_unlock_8 b64 m b
         else Inl FLOM_RC_INTERNAL_ERROR)
      else if verb = FLOM_MSG_VERB_PING then
        (if step = FLOM_MSG_STEP_INCR \<or> step = 2 * FLOM_MSG_STEP_INCR
         then flom_msg_serialize_ping m b else Inl FLOM_RC_INTERNAL_ERROR)
      else if verb = FLOM_MSG_VERB_DISCOVER then
        (if step = FLOM_MSG_STEP_INCR then flom_msg_serialize_discover_8 m b
         else if step = 2 * FLOM_MSG_STEP_INCR then flom_msg_serialize_discover_16 m b
         else Inl FLOM_RC_INTERNAL_ERROR)
      else if verb = FLOM_MSG_VERB_MNGMNT then
        (if step = FLOM_MSG_STEP_INCR then flom_msg_serialize_mngmnt_8 old m b
         else Inl FLOM_RC_INTERNAL_ERROR)
      else Inl FLOM_RC_INTERNAL_ERROR)"

text \<open>The text of a message, or the reason code; \<open>len\<close> is the size of the buffer.\<close>

definition flom_msg_serialize ::
  "(string \<Rightarrow> string) \<Rightarrow> (nat \<Rightarrow> char) \<Rightarrow> flom_msg \<Rightarrow> nat \<Rightarrow> rc + string" where
  "flom_msg_serialize b64 old m len =
     ser_bind (put xml_header ([], len))
       (\<lambda>b. ser_bind (put (xml_msg_open m) b)
         (\<lambda>b. ser_bind (flom_msg_serialize_body b64 old m b)
           (\<lambda>b. ser_bind (put ''</msg>'' b) (\<lambda>b. Inr (fst b)))))"

text \<open>
  Consecutive prints are one print of the concatenation: the space checks add up.
\<close>

lemma put_put_bind:
  "ser_bind (put s b) (\<lambda>b. ser_bind (put t b) f) = ser_bind (put (s @ t) b) f"
  by (auto simp: ser_bind_def put_def)

lemma put_put: "ser_bind (put s b) (put t) = put (s @ t) b"
  by (auto simp: ser_bind_def put_def)

lemma put_put_finish:
  "ser_bind (put s ([], len)) (\<lambda>b. Inr (fst b)) =
     (if length s < len then Inr s else Inl FLOM_RC_CONTAINER_FULL)"
  by (auto simp: ser_bind_def put_def)

lemma ser_bind_assoc:
  "ser_bind (ser_bind x f) g = ser_bind x (\<lambda>a. ser_bind (f a) g)"
  by (simp add: ser_bind_def split: sum.splits)

section \<open>Deserialization\<close>

datatype markup_event =
    Start_element string "(string \<times> string) list"
  | End_element string

datatype tag_type =
    dummy_tag | msg_tag | resource_tag | answer_tag | network_tag | session_tag | shutdown_tag

definition tag_type_of :: "string \<Rightarrow> tag_type" where
  "tag_type_of element_name =
     (if element_name = ''msg'' then msg_tag
      else if element_name = ''resource'' then resource_tag
      else if element_name = ''answer'' then answer_tag
      else if element_name = ''network'' then network_tag
      else if element_name = ''session'' then session_tag
      else if element_name = ''shutdown'' then shutdown_tag
      else dummy_tag)"

text \<open>An \<^verbatim>\<open>int\<close> field read from an attribute, and the 16 bit port.\<close>

definition attr_int :: "string \<Rightarrow> int" where
  "attr_int v = to_gint (strtol v)"

definition attr_port :: "string \<Rightarrow> int" where
  "attr_port v = strtol v mod 65536"

text \<open>
  One turn of the loop over the attributes: the message, and whether the turn
  ended without an exception.
\<close>

definition start_msg_attr :: "string \<times> string \<Rightarrow> flom_msg \<Rightarrow> bool \<times> flom_msg" where
  "start_msg_attr kv m =
     (if fst kv = ''level'' then
        (attr_int (snd kv) = FLOM_MSG_LEVEL, m\<lparr>msg_level := attr_int (snd kv)\<rparr>)
      else if fst kv = ''verb'' then (True, m\<lparr>msg_verb := attr_int (snd kv)\<rparr>)
      else if fst kv = ''step'' then (True, m\<lparr>msg_step := attr_int (snd kv)\<rparr>)
      else (True, m))"

definition is_lock :: "flom_msg \<Rightarrow> int \<Rightarrow> bool" where
  "is_lock m n \<longleftrightarrow> msg_verb m = FLOM_MSG_VERB_LOCK \<and> msg_step m = n * FLOM_MSG_STEP_INCR"

definition is_unlock :: "flom_msg \<Rightarrow> int \<Rightarrow> bool" where
  "is_unlock m n \<longleftrightarrow> msg_verb m = FLOM_MSG_VERB_UNLOCK \<and> msg_step m = n * FLOM_MSG_STEP_INCR"

definition start_resource_attr ::
  "(string \<Rightarrow> string option) \<Rightarrow> string \<times> string \<Rightarrow> flom_msg \<Rightarrow> bool \<times> flom_msg" where
  "start_resource_attr unb64 kv m =
     (let k = fst kv; v = snd kv; lock = (msg_verb m = FLOM_MSG_VERB_LOCK) in
      if is_lock m 1 \<or> is_unlock m 1 then
        (if k = ''name'' then
           (case unb64 v of
              None \<Rightarrow> (False, m)
            | Some n \<Rightarrow>
                (True, if lock then m\<lparr>lock_8 := (lock_8 m)\<lparr>l8_name := Some n\<rparr>\<rparr>
                       else m\<lparr>unlock_8 := (unlock_8 m)\<lparr>u8_name := Some n\<rparr>\<rparr>))
         else if k = ''mode'' then
           (if lock then (True, m\<lparr>lock_8 := (lock_8 m)\<lparr>l8_mode := lock_mode_of_int (attr_int v)\<rparr>\<rparr>)
            else (False, m))
         else if k = ''rollback'' then
           (if \<not> lock then (True, m\<lparr>unlock_8 := (unlock_8 m)\<lparr>u8_rollback := attr_int v\<rparr>\<rparr>)
            else (False, m))
         else if k = ''wait'' then
           (if lock then (True, m\<lparr>lock_8 := (lock_8 m)\<lparr>l8_wait := attr_int v\<rparr>\<rparr>) else (False, m))
         else if k = ''quantity'' then
           (if lock then (True, m\<lparr>lock_8 := (lock_8 m)\<lparr>l8_quantity := attr_int v\<rparr>\<rparr>) else (False, m))
         else if k = ''create'' then
           (if lock then (True, m\<lparr>lock_8 := (lock_8 m)\<lparr>l8_create := attr_int v\<rparr>\<rparr>) else (False, m))
         else if k = ''lifespan'' then
           (if lock then (True, m\<lparr>lock_8 := (lock_8 m)\<lparr>l8_lifespan := attr_int v\<rparr>\<rparr>) else (False, m))
         else (True, m))
      else (True, m))"

definition start_answer_attr :: "string \<times> string \<Rightarrow> flom_msg \<Rightarrow> bool \<times> flom_msg" where
  "start_answer_attr kv m =
     (let k = fst kv; v = snd kv; a = l16_answer (lock_16 m) in
      if is_lock m 2 \<or> is_lock m 3 \<or> is_lock m 4 then
        (if k = ''rc'' then
           (True, if is_lock m 2 then m\<lparr>lock_16 := (lock_16 m)\<lparr>l16_answer := a\<lparr>ans_rc := attr_int v\<rparr>\<rparr>\<rparr>
                  else m\<lparr>lock_24 := (lock_24 m)\<lparr>ans_rc := attr_int v\<rparr>\<rparr>)
         else if k = ''element'' then
           (True, if is_lock m 2 then m\<lparr>lock_16 := (lock_16 m)\<lparr>l16_answer := a\<lparr>ans_element := Some v\<rparr>\<rparr>\<rparr>
                  else m\<lparr>lock_24 := (lock_24 m)\<lparr>ans_element := Some v\<rparr>\<rparr>)
         else (True, m))
      else (True, m))"

definition start_network_attr :: "string \<times> string \<Rightarrow> flom_msg \<Rightarrow> bool \<times> flom_msg" where
  "start_network_attr kv m =
     (let k = fst kv; v = snd kv in
      if msg_verb m = FLOM_MSG_VERB_DISCOVER \<and> msg_step m = 2 * FLOM_MSG_STEP_INCR then
        (if k = ''port'' then (True, m\<lparr>discover_16 := (discover_16 m)\<lparr>d16_port := attr_port v\<rparr>\<rparr>)
         else if k = ''address'' then
           (True, m\<lparr>discover_16 := (discover_16 m)\<lparr>d16_address := Some v\<rparr>\<rparr>)
         else (False, m))
      else (True, m))"

definition is_mngmnt_8 :: "flom_msg \<Rightarrow> bool" where
  "is_mngmnt_8 m \<longleftrightarrow> msg_verb m = FLOM_MSG_VERB_MNGMNT \<and> msg_step m = FLOM_MSG_STEP_INCR"

definition start_session_attr :: "string \<times> string \<Rightarrow> flom_msg \<Rightarrow> bool \<times> flom_msg" where
  "start_session_attr kv m =
     (if (is_lock m 1 \<or> is_lock m 2 \<or> is_mngmnt_8 m) \<and> fst kv = ''peerid'' then
        (True, if is_lock m 1 then m\<lparr>lock_8 := (lock_8 m)\<lparr>l8_peerid := Some (snd kv)\<rparr>\<rparr>
               else if is_lock m 2 then m\<lparr>lock_16 := (lock_16 m)\<lparr>l16_peerid := Some (snd kv)\<rparr>\<rparr>
               else m\<lparr>mngmnt_8 := (mngmnt_8 m)\<lparr>m8_peerid := Some (snd kv)\<rparr>\<rparr>)
      else (True, m))"

definition start_shutdown_attr :: "string \<times> string \<Rightarrow> flom_msg \<Rightarrow> bool \<times> flom_msg" where
  "start_shutdown_attr kv m =
     (if is_mngmnt_8 m then
        (if fst kv = ''immediate'' then
           (True, m\<lparr>mngmnt_8 := (mngmnt_8 m)\<lparr>m8_action := FLOM_MSG_MNGMNT_ACTION_SHUTDOWN,
                                           m8_immediate := attr_int (snd kv)\<rparr>\<rparr>)
         else (False, m))
      else (True, m))"

fun start_attr ::
  "(string \<Rightarrow> string option) \<Rightarrow> tag_type \<Rightarrow> string \<times> string \<Rightarrow> flom_msg \<Rightarrow> bool \<times> flom_msg" where
  "start_attr unb64 msg_tag kv m = start_msg_attr kv m"
| "start_attr unb64 resource_tag kv m = start_resource_attr unb64 kv m"
| "start_attr unb64 answer_tag kv m = start_answer_attr kv m"
| "start_attr unb64 network_tag kv m = start_network_attr kv m"
| "start_attr unb64 session_tag kv m = start_session_attr kv m"
| "start_attr unb64 shutdown_tag kv m = start_shutdown_attr kv m"
| "start_attr unb64 dummy_tag kv m = (False, m)"

fun start_attrs ::
  "(string \<Rightarrow> string option) \<Rightarrow> tag_type \<Rightarrow> (string \<times> string) list \<Rightarrow> flom_msg \<Rightarrow> flom_msg" where
  "start_attrs unb64 tag [] m = m"
| "start_attrs unb64 tag (kv # as) m =
     (case start_attr unb64 tag kv m of
        (ok, m') \<Rightarrow> if ok then start_attrs unb64 tag as m'
                    else m'\<lparr>msg_state := FLOM_MSG_STATE_INVALID\<rparr>)"

definition flom_msg_deserialize_start_element ::
  "(string \<Rightarrow> string option) \<Rightarrow> string \<Rightarrow> (string \<times> string) list \<Rightarrow> flom_msg \<Rightarrow> flom_msg" where
  "flom_msg_deserialize_start_element unb64 element_name as m =
     (if msg_state m = FLOM_MSG_STATE_INVALID then m
      else start_attrs unb64 (tag_type_of element_name) as
             (if msg_state m = FLOM_MSG_STATE_INITIALIZED
              then m\<lparr>msg_state := FLOM_MSG_STATE_PARSING\<rparr> else m))"

definition flom_msg_deserialize_end_element :: "string \<Rightarrow> flom_msg \<Rightarrow> flom_msg" where
  "flom_msg_deserialize_end_element element_name m =
     (case msg_state m of
        FLOM_MSG_STATE_INVALID \<Rightarrow> m
      | FLOM_MSG_STATE_READY \<Rightarrow> m
      | FLOM_MSG_STATE_INITIALIZED \<Rightarrow> m\<lparr>msg_state := FLOM_MSG_STATE_INVALID\<rparr>
      | FLOM_MSG_STATE_PARSING \<Rightarrow>
          if element_name = ''msg'' then m\<lparr>msg_state := FLOM_MSG_STATE_READY\<rparr> else m)"

fun markup_step :: "(string \<Rightarrow> string option) \<Rightarrow> markup_event \<Rightarrow> flom_msg \<Rightarrow> flom_msg" where
  "markup_step unb64 (Start_element n as) m = flom_msg_deserialize_start_element unb64 n as m"
| "markup_step unb64 (End_element n) m = flom_msg_deserialize_end_element n m"

text \<open>\<^verbatim>\<open>flom_msg_deserialize\<close>: GMarkup calls the callbacks for the events of the text.\<close>

definition flom_msg_deserialize ::
  "(string \<Rightarrow> string option) \<Rightarrow> markup_event list \<Rightarrow> flom_msg \<Rightarrow> flom_msg" where
  "flom_msg_deserialize unb64 evs m = fold (markup_step unb64) evs m"

section \<open>The document of a message\<close>

text \<open>
  The elements between \<^verbatim>\<open><msg>\<close> and \<^verbatim>\<open></msg>\<close>, the text they are written as and
  the events a parser delivers for it.
\<close>

type_synonym xml_elements = "(string \<times> (string \<times> string) list) list"

definition msg_elements :: "(string \<Rightarrow> string) \<Rightarrow> flom_msg \<Rightarrow> xml_elements option" where
  "msg_elements b64 m =
     (let session = (\<lambda>peerid. (''session'', [(''peerid'', str_or_empty peerid)])) in
      if is_lock m 1 then
        map_option (\<lambda>as. [session (l8_peerid (lock_8 m)), (''resource'', as)]) (lock_8_attrs b64 (lock_8 m))
      else if is_lock m 2 then
        Some [session (l16_peerid (lock_16 m)), (''answer'', answer_attrs (l16_answer (lock_16 m)))]
      else if is_lock m 3 \<or> is_lock m 4 then Some [(''answer'', answer_attrs (lock_24 m))]
      else if is_unlock m 1 then
        Some [(''resource'', [(''name'', b64 (str_or_empty (u8_name (unlock_8 m)))),
                              (''rollback'', string_of_int (u8_rollback (unlock_8 m)))])]
      else if msg_verb m = FLOM_MSG_VERB_DISCOVER \<and> msg_step m = 2 * FLOM_MSG_STEP_INCR then
        Some [(''network'', [(''address'', str_or_empty (d16_address (discover_16 m))),
                             (''port'', string_of_int (d16_port (discover_16 m)))])]
      else if is_mngmnt_8 m then
        Some [session (m8_peerid (mngmnt_8 m)),
              (''shutdown'', [(''immediate'', string_of_int (m8_immediate (mngmnt_8 m)))])]
      else Some [])"

definition element_text :: "flom_msg \<Rightarrow> string \<times> (string \<times> string) list \<Rightarrow> string" where
  "element_text m el = ''<'' @ fst el @ concat (map xml_attr (snd el)) @
     (if is_unlock m 1 then '' />'' else ''/>'')"

definition msg_text :: "flom_msg \<Rightarrow> xml_elements \<Rightarrow> string" where
  "msg_text m els = xml_header @ xml_msg_open m @ concat (map (element_text m) els) @ ''</msg>''"

definition msg_events :: "flom_msg \<Rightarrow> xml_elements \<Rightarrow> markup_event list" where
  "msg_events m els = Start_element ''msg'' (msg_attrs m) #
     concat (map (\<lambda>el. [Start_element (fst el) (snd el), End_element (fst el)]) els) @ [End_element ''msg'']"

text \<open>The messages of the protocol; management messages are shutdown requests.\<close>

definition wire_msg :: "flom_msg \<Rightarrow> bool" where
  "wire_msg m \<longleftrightarrow> (flom_msg_check_protocol m True \<or> flom_msg_check_protocol m False) \<and>
     (is_mngmnt_8 m \<longrightarrow> m8_action (mngmnt_8 m) = FLOM_MSG_MNGMNT_ACTION_SHUTDOWN)"

lemma is_lock_simps [simp]:
  "msg_verb m = 1 \<Longrightarrow> is_lock m n \<longleftrightarrow> msg_step m = n * 8" "msg_verb m \<noteq> 1 \<Longrightarrow> \<not> is_lock m n"
  "msg_verb m = 2 \<Longrightarrow> is_unlock m n \<longleftrightarrow> msg_step m = n * 8" "msg_verb m \<noteq> 2 \<Longrightarrow> \<not> is_unlock m n"
  "msg_verb m = 5 \<Longrightarrow> is_mngmnt_8 m \<longleftrightarrow> msg_step m = 8" "msg_verb m \<noteq> 5 \<Longrightarrow> \<not> is_mngmnt_8 m"
  by (simp_all add: is_lock_def is_unlock_def is_mngmnt_8_def)

lemma check_protocol_cases:
  assumes "flom_msg_check_protocol m client"
  obtains "msg_verb m = 1" "msg_step m = 8" | "msg_verb m = 1" "msg_step m = 16"
    | "msg_verb m = 1" "msg_step m = 24" | "msg_verb m = 1" "msg_step m = 32"
    | "msg_verb m = 2" "msg_step m = 8" | "msg_verb m = 3" "msg_step m = 8"
    | "msg_verb m = 3" "msg_step m = 16" | "msg_verb m = 4" "msg_step m = 8"
    | "msg_verb m = 4" "msg_step m = 16" | "msg_verb m = 5" "msg_step m = 8"
  using assms by (auto simp: flom_msg_check_protocol_def Let_def split: if_splits)

lemma wire_msg_cases:
  assumes "wire_msg m"
  obtains "msg_verb m = 1" "msg_step m = 8" | "msg_verb m = 1" "msg_step m = 16"
    | "msg_verb m = 1" "msg_step m = 24" | "msg_verb m = 1" "msg_step m = 32"
    | "msg_verb m = 2" "msg_step m = 8" | "msg_verb m = 3" "msg_step m = 8"
    | "msg_verb m = 3" "msg_step m = 16" | "msg_verb m = 4" "msg_step m = 8"
    | "msg_verb m = 4" "msg_step m = 16"
    | "msg_verb m = 5" "msg_step m = 8" "m8_action (mngmnt_8 m) = FLOM_MSG_MNGMNT_ACTION_SHUTDOWN"
proof -
  from assms obtain client where c: "flom_msg_check_protocol m client" by (auto simp: wire_msg_def)
  have a: "m8_action (mngmnt_8 m) = FLOM_MSG_MNGMNT_ACTION_SHUTDOWN" if "msg_verb m = 5" "msg_step m = 8"
    using assms that by (simp add: wire_msg_def)
  from c show thesis by (rule check_protocol_cases) (use that a in blast)+
qed

text \<open>One print of the body: the space checks of the single prints add up.\<close>

lemma serialize_body_put:
  assumes "wire_msg m" "msg_elements b64 m = Some els"
  shows "ser_bind (flom_msg_serialize_body b64 old m b) (put ''</msg>'') =
     put (concat (map (element_text m) els) @ ''</msg>'') b"
  using assms(1)
proof (cases rule: wire_msg_cases)
  case 1
  with assms(2) obtain as where "lock_8_attrs b64 (lock_8 m) = Some as"
    "els = [(''session'', [(''peerid'', str_or_empty (l8_peerid (lock_8 m)))]), (''resource'', as)]"
    by (auto simp: msg_elements_def)
  with 1 show ?thesis
    by (simp add: flom_msg_serialize_body_def flom_msg_serialize_lock_8_def put_put element_text_def xml_empty_def)
qed (use assms(2) in \<open>auto simp: msg_elements_def flom_msg_serialize_body_def Let_def put_put
    flom_msg_serialize_lock_16_def flom_msg_serialize_lock_24_def flom_msg_serialize_lock_32_def
    flom_msg_serialize_unlock_8_def flom_msg_serialize_ping_def flom_msg_serialize_discover_8_def
    flom_msg_serialize_discover_16_def flom_msg_serialize_mngmnt_8_def element_text_def xml_empty_def
    ser_bind_def [of "Inr b"] put_def [of "''</msg>''"]\<close>)

lemma serialize_text:
  assumes "wire_msg m" "msg_elements b64 m = Some els"
  shows "flom_msg_serialize b64 old m len =
    (if length (msg_text m els) < len then Inr (msg_text m els) else Inl FLOM_RC_CONTAINER_FULL)"
proof -
  have "ser_bind (flom_msg_serialize_body b64 old m b) (\<lambda>b. ser_bind (put ''</msg>'' b) (\<lambda>b. Inr (fst b))) =
      ser_bind (put (concat (map (element_text m) els) @ ''</msg>'') b) (\<lambda>b. Inr (fst b))" for b
    using serialize_body_put [OF assms, of old b] by (metis ser_bind_assoc)
  then show ?thesis
    unfolding flom_msg_serialize_def by (simp add: put_put_bind put_put_finish msg_text_def)
qed

section \<open>Properties\<close>

text \<open>The protocol has one list of messages: a message belongs to exactly one
  direction or to none, the serializer knows exactly the messages that belong to a
  direction, and each of them can be freed.\<close>

theorem protocol_messages_agree:
  "((flom_msg_check_protocol m True \<or> flom_msg_check_protocol m False) =
      (flom_msg_serialize_body b64 old m b \<noteq> Inl FLOM_RC_INTERNAL_ERROR)) \<and>
   (flom_msg_check_protocol m True \<and> flom_msg_check_protocol m False) = False \<and>
   (flom_msg_check_protocol m client \<and> fst (flom_msg_free m) = FLOM_RC_OK) = flom_msg_check_protocol m client"
proof (intro conjI)
  show "(flom_msg_check_protocol m True \<or> flom_msg_check_protocol m False) =
      (flom_msg_serialize_body b64 old m b \<noteq> Inl FLOM_RC_INTERNAL_ERROR)"
    unfolding flom_msg_check_protocol_def flom_msg_serialize_body_def
    by (simp add: Let_def ser_bind_def put_def flom_msg_serialize_lock_8_def
        flom_msg_serialize_lock_16_def flom_msg_serialize_lock_24_def flom_msg_serialize_lock_32_def
        flom_msg_serialize_unlock_8_def flom_msg_serialize_ping_def flom_msg_serialize_discover_8_def
        flom_msg_serialize_discover_16_def flom_msg_serialize_mngmnt_8_def split: option.splits)
  show "(flom_msg_check_protocol m True \<and> flom_msg_check_protocol m False) = False"
    by (simp add: flom_msg_check_protocol_def Let_def)
  have "fst (flom_msg_free m) = FLOM_RC_OK" if "flom_msg_check_protocol m client"
    using that by (cases rule: check_protocol_cases) (simp_all add: flom_msg_free_def flom_msg_free_body_def Let_def)
  then show "(flom_msg_check_protocol m client \<and> fst (flom_msg_free m) = FLOM_RC_OK) = flom_msg_check_protocol m client"
    by blast
qed

text \<open>The text only grows, and the space left shrinks by as much.\<close>

definition extends :: "ser \<Rightarrow> ser \<Rightarrow> bool" where
  "extends b b' \<longleftrightarrow> prefix (fst b) (fst b') \<and> length (fst b') + snd b' = length (fst b) + snd b"

lemma extends_refl [simp]: "extends b b"
  by (simp add: extends_def)

lemma extends_trans: "extends a b \<Longrightarrow> extends b c \<Longrightarrow> extends a c"
  by (auto simp: extends_def)

lemma put_extends: "put s b = Inr b' \<Longrightarrow> extends b b'"
  by (auto simp: put_def extends_def split: if_splits)

lemma bind_extends:
  assumes "ser_bind x f = Inr b'" "\<And>b. x = Inr b \<Longrightarrow> extends a b" "\<And>b b'. f b = Inr b' \<Longrightarrow> extends b b'"
  shows "extends a b'"
proof -
  obtain b where "x = Inr b" "f b = Inr b'" using assms(1) by (cases x) (auto simp: ser_bind_def)
  then show ?thesis using assms(2,3) extends_trans by blast
qed

lemma body_extends:
  assumes "flom_msg_serialize_body b64 old m b = Inr b'"
  shows "extends b b'"
  using assms
  unfolding flom_msg_serialize_body_def flom_msg_serialize_lock_8_def
    flom_msg_serialize_lock_16_def flom_msg_serialize_lock_24_def flom_msg_serialize_lock_32_def
    flom_msg_serialize_unlock_8_def flom_msg_serialize_ping_def flom_msg_serialize_discover_8_def
    flom_msg_serialize_discover_16_def flom_msg_serialize_mngmnt_8_def Let_def
  by (auto split: if_splits option.splits intro: put_extends elim!: bind_extends)

text \<open>C38. A serialized message fits the buffer with its terminator, starts with the XML
  declaration and ends with the closing tag that the receiver looks for.\<close>

theorem serialize_bounded:
  assumes "flom_msg_serialize b64 old m len = Inr text"
  shows "length text < len \<and> prefix xml_header text \<and> suffix ''</msg>'' text"
proof -
  obtain b1 b2 b3 b4 where b: "put xml_header ([], len) = Inr b1" "put (xml_msg_open m) b1 = Inr b2"
      "flom_msg_serialize_body b64 old m b2 = Inr b3" "put ''</msg>'' b3 = Inr b4" "text = fst b4"
    using assms unfolding flom_msg_serialize_def ser_bind_def by (auto split: sum.splits)
  have "extends b1 b3" using b(2,3) put_extends body_extends extends_trans by blast
  with b(4,5) b(1) show ?thesis
    by (auto simp: put_def extends_def suffix_def split: if_splits)
qed

theorem serialize_bounded_witness:
  "\<exists>text. flom_msg_serialize id (\<lambda>_. CHR ''?'') (flom_msg_init\<lparr>msg_level := 3, msg_verb := 3, msg_step := 8\<rparr>) 100 = Inr text \<and>
     length text < 100 \<and> prefix xml_header text \<and> suffix ''</msg>'' text"
proof -
  let ?m = "flom_msg_init\<lparr>msg_level := 3, msg_verb := 3, msg_step := 8\<rparr>"
  have "\<exists>text. flom_msg_serialize id (\<lambda>_. CHR ''?'') ?m 100 = Inr text"
    by (simp add: flom_msg_serialize_def flom_msg_serialize_body_def flom_msg_serialize_ping_def
        ser_bind_def put_def xml_header_def xml_msg_open_def msg_attrs_def xml_attr_def string_of_int_def
        string_of_nat.simps)
  then show ?thesis using serialize_bounded by blast
qed

section \<open>The round trip\<close>

text \<open>
  The types of the C fields: 32 bit integers, a 16 bit port, and a lock mode
  written with the constructor of its number.
\<close>

definition msg_typed :: "flom_msg \<Rightarrow> bool" where
  "msg_typed m \<longleftrightarrow>
     list_all gint_range [l8_wait (lock_8 m), l8_quantity (lock_8 m), l8_create (lock_8 m),
       l8_lifespan (lock_8 m), int_of_lock_mode (l8_mode (lock_8 m)), ans_rc (l16_answer (lock_16 m)),
       ans_rc (lock_24 m), u8_rollback (unlock_8 m), m8_immediate (mngmnt_8 m)] \<and>
     lock_mode_of_int (int_of_lock_mode (l8_mode (lock_8 m))) = l8_mode (lock_8 m) \<and>
     0 \<le> d16_port (discover_16 m) \<and> d16_port (discover_16 m) < 65536"

text \<open>
  What the receiver has: the members that travel.  The mode is sent for simple and
  hierarchical resources only, the quantity for numeric ones.
\<close>

definition lock_8_received :: "flom_msg_body_lock_8 \<Rightarrow> flom_msg_body_lock_8" where
  "lock_8_received b =
     (let t = flom_rsrc_get_type (str_or_empty (l8_name b)) in
      b\<lparr>l8_peerid := Some (str_or_empty (l8_peerid b)), l8_name := Some (str_or_empty (l8_name b)),
        l8_mode := (if t = FLOM_RSRC_TYPE_SIMPLE \<or> t = FLOM_RSRC_TYPE_HIER then l8_mode b
                    else FLOM_LOCK_MODE_NL),
        l8_quantity := (if t = FLOM_RSRC_TYPE_NUMERIC then l8_quantity b else 0)\<rparr>)"

definition msg_received :: "flom_msg \<Rightarrow> flom_msg" where
  "msg_received m =
     (let r = flom_msg_init\<lparr>msg_state := FLOM_MSG_STATE_READY, msg_level := FLOM_MSG_LEVEL,
                           msg_verb := msg_verb m, msg_step := msg_step m\<rparr> in
      if is_lock m 1 then r\<lparr>lock_8 := lock_8_received (lock_8 m)\<rparr>
      else if is_lock m 2 then
        r\<lparr>lock_16 := (lock_16 m)\<lparr>l16_peerid := Some (str_or_empty (l16_peerid (lock_16 m)))\<rparr>\<rparr>
      else if is_lock m 3 \<or> is_lock m 4 then r\<lparr>lock_24 := lock_24 m\<rparr>
      else if is_unlock m 1 then
        r\<lparr>unlock_8 := (unlock_8 m)\<lparr>u8_name := Some (str_or_empty (u8_name (unlock_8 m)))\<rparr>\<rparr>
      else if msg_verb m = FLOM_MSG_VERB_DISCOVER \<and> msg_step m = 2 * FLOM_MSG_STEP_INCR then
        r\<lparr>discover_16 := (discover_16 m)\<lparr>d16_address := Some (str_or_empty (d16_address (discover_16 m)))\<rparr>\<rparr>
      else if is_mngmnt_8 m then
        r\<lparr>mngmnt_8 := (mngmnt_8 m)\<lparr>m8_peerid := Some (str_or_empty (m8_peerid (mngmnt_8 m)))\<rparr>\<rparr>
      else r)"

lemma attr_int_print: "gint_range i \<Longrightarrow> attr_int (string_of_int i) = i"
  by (simp add: attr_int_def gint_strtol_string_of_int)

lemma attr_port_print: "0 \<le> i \<Longrightarrow> i < 65536 \<Longrightarrow> attr_port (string_of_int i) = i"
  by (simp add: attr_port_def strtol_string_of_int long_max_def)

text \<open>The state of the message after the opening tag.\<close>

definition msg_opened :: "flom_msg \<Rightarrow> flom_msg" where
  "msg_opened m = flom_msg_init\<lparr>msg_state := FLOM_MSG_STATE_PARSING, msg_level := FLOM_MSG_LEVEL,
                           msg_verb := msg_verb m, msg_step := msg_step m\<rparr>"

lemma start_msg:
  assumes "gint_range (msg_verb m)" "gint_range (msg_step m)" "msg_level m = FLOM_MSG_LEVEL"
  shows "flom_msg_deserialize_start_element unb64 ''msg'' (msg_attrs m) flom_msg_init = msg_opened m"
proof -
  have "gint_range (msg_level m)" by (simp add: assms gint_range_def)
  with assms show ?thesis
    by (simp add: flom_msg_deserialize_start_element_def tag_type_of_def msg_attrs_def start_msg_attr_def
        attr_int_print msg_opened_def flom_msg_init_def)
qed

lemma opened_sel [simp]:
  "msg_state (msg_opened m) = FLOM_MSG_STATE_PARSING" "msg_verb (msg_opened m) = msg_verb m"
  "msg_step (msg_opened m) = msg_step m"
  by (simp_all add: msg_opened_def)

lemmas start_element_simps =
  flom_msg_deserialize_start_element_def tag_type_of_def flom_msg_deserialize_end_element_def
  start_resource_attr_def start_answer_attr_def start_network_attr_def start_session_attr_def
  start_shutdown_attr_def attr_int_print attr_port_print is_lock_def is_unlock_def is_mngmnt_8_def

lemma body_lock_8:
  assumes "msg_verb m = 1" "msg_step m = 8" "msg_typed m" "\<And>s. unb64 (b64 s) = Some s"
    and "lock_8_attrs b64 (lock_8 m) = Some as"
  shows "start_attrs unb64 resource_tag as
      ((msg_opened m)\<lparr>lock_8 := (lock_8 (msg_opened m))\<lparr>l8_peerid := Some (str_or_empty (l8_peerid (lock_8 m)))\<rparr>\<rparr>) =
    (msg_opened m)\<lparr>lock_8 := lock_8_received (lock_8 m)\<rparr>"
  using assms
  by (cases "flom_rsrc_get_type (str_or_empty (l8_name (lock_8 m)))")
     (auto simp: lock_8_attrs_def start_element_simps msg_typed_def lock_8_received_def
        msg_opened_def flom_msg_init_def)

lemma deserialize_events:
  assumes "wire_msg m" "msg_typed m" "msg_level m = FLOM_MSG_LEVEL" "\<And>s. unb64 (b64 s) = Some s"
    and "msg_elements b64 m = Some els"
  shows "flom_msg_deserialize unb64 (msg_events m els) flom_msg_init = msg_received m"
proof -
  have g: "gint_range (msg_verb m)" "gint_range (msg_step m)"
    using assms(1) by (cases rule: wire_msg_cases; simp add: gint_range_def)+
  have "fold (markup_step unb64)
      (concat (map (\<lambda>el. [Start_element (fst el) (snd el), End_element (fst el)]) els) @ [End_element ''msg''])
      (msg_opened m) = msg_received m"
    using assms(1)
  proof (cases rule: wire_msg_cases)
    case 1
    with assms(5) obtain as where as: "lock_8_attrs b64 (lock_8 m) = Some as"
      "els = [(''session'', [(''peerid'', str_or_empty (l8_peerid (lock_8 m)))]), (''resource'', as)]"
      by (auto simp: msg_elements_def)
    from body_lock_8 [of m unb64 b64, OF 1 assms(2,4) as(1)] show ?thesis
      unfolding as(2) using 1 
      by (simp add: start_element_simps) (simp add: msg_received_def msg_opened_def)
  qed (use assms(2,4,5) in \<open>auto simp: msg_elements_def msg_received_def start_element_simps
      msg_typed_def msg_opened_def flom_msg_init_def answer_attrs_def split: option.splits\<close>)
  then show ?thesis
    unfolding flom_msg_deserialize_def msg_events_def
    by (simp add: start_msg [OF g assms(3)])
qed

lemma serialize_elements:
  assumes "wire_msg m" "flom_msg_serialize b64 old m len = Inr text"
  obtains els where "msg_elements b64 m = Some els" "text = msg_text m els"
proof (cases "msg_elements b64 m")
  case None
  with assms(1) have "msg_verb m = 1 \<and> msg_step m = 8 \<and> lock_8_attrs b64 (lock_8 m) = None"
    by (cases rule: wire_msg_cases) (auto simp: msg_elements_def)
  with assms(2) show ?thesis
    by (auto simp: flom_msg_serialize_def flom_msg_serialize_body_def flom_msg_serialize_lock_8_def
        ser_bind_def split: sum.splits)
next
  case (Some els)
  with serialize_text [OF assms(1) Some, of old len] assms(2) that show ?thesis
    by (auto split: if_splits)
qed


text \<open>A request for a lock, with an encoder that maps every character to itself.\<close>

definition sample_lock_8 :: flom_msg where
  "sample_lock_8 = flom_msg_init\<lparr>msg_level := 3, msg_verb := 1, msg_step := 8,
     lock_8 := \<lparr>l8_peerid = Some ''p'', l8_name = Some ''r'', l8_mode = FLOM_LOCK_MODE_PW, l8_wait = 1,
       l8_quantity = 0, l8_create = 1, l8_lifespan = -2\<rparr>\<rparr>"


section \<open>The states of a message that is parsed\<close>

text \<open>
  Along the events: a message that is not invalid has the level of this protocol or
  none, and it is ready only behind the closing tag.
\<close>

definition parse_inv :: "bool \<Rightarrow> flom_msg \<Rightarrow> bool" where
  "parse_inv closed m \<longleftrightarrow> msg_state m = FLOM_MSG_STATE_INVALID \<or>
     (msg_level m = 0 \<or> msg_level m = FLOM_MSG_LEVEL) \<and> (msg_state m = FLOM_MSG_STATE_READY \<longrightarrow> closed)"

lemma start_attr_level:
  assumes "start_attr unb64 tag kv m = (ok, m')"
  shows "msg_state m' = msg_state m \<and> (msg_level m' = msg_level m \<or> ok = (msg_level m' = FLOM_MSG_LEVEL))"
  using assms
  by (cases tag)
     (auto simp: start_msg_attr_def start_resource_attr_def start_answer_attr_def start_network_attr_def
        start_session_attr_def start_shutdown_attr_def Let_def split: if_splits option.splits)

lemma start_attrs_inv: "parse_inv c m \<Longrightarrow> parse_inv c (start_attrs unb64 tag as m)"
proof (induction as arbitrary: m)
  case (Cons kv as)
  obtain ok m' where k: "start_attr unb64 tag kv m = (ok, m')" by fastforce
  show ?case
  proof (cases ok)
    case True
    with Cons.prems start_attr_level [OF k] have "parse_inv c m'" by (auto simp: parse_inv_def)
    with Cons.IH k True show ?thesis by simp
  next
    case False
    with k show ?thesis by (simp add: parse_inv_def)
  qed
qed simp

lemma markup_step_inv:
  assumes "parse_inv c m"
  shows "parse_inv (c \<or> ev = End_element ''msg'') (markup_step unb64 ev m)"
proof (cases ev)
  case (Start_element n as)
  have "parse_inv c (start_attrs unb64 (tag_type_of n) as
      (if msg_state m = FLOM_MSG_STATE_INITIALIZED then m\<lparr>msg_state := FLOM_MSG_STATE_PARSING\<rparr> else m))"
    by (rule start_attrs_inv) (use assms in \<open>auto simp: parse_inv_def\<close>)
  with Start_element assms show ?thesis by (simp add: flom_msg_deserialize_start_element_def)
next
  case (End_element n)
  with assms show ?thesis
    by (auto simp: flom_msg_deserialize_end_element_def parse_inv_def split: flom_msg_state.splits)
qed

text \<open>A message is ready for use only after its closing tag, and it is one of this
  level of the protocol: a message that announces another level never becomes ready,
  whatever the events.\<close>

theorem ready_message_level:
  assumes "msg_state (flom_msg_deserialize unb64 evs flom_msg_init) = FLOM_MSG_STATE_READY"
  shows "End_element ''msg'' \<in> set evs \<and>
    msg_level (flom_msg_deserialize unb64 evs flom_msg_init) \<in> {0, FLOM_MSG_LEVEL}"
proof -
  have "parse_inv (End_element ''msg'' \<in> set evs) (flom_msg_deserialize unb64 evs flom_msg_init)"
  proof (induction evs rule: rev_induct)
    case Nil
    show ?case by (simp add: flom_msg_deserialize_def parse_inv_def flom_msg_init_def)
  next
    case (snoc ev evs)
    from markup_step_inv [OF snoc, of ev unb64] show ?case
      by (simp add: flom_msg_deserialize_def disj_commute eq_commute)
  qed
  with assms show ?thesis by (auto simp: parse_inv_def)
qed

theorem ready_message_level_witness:
  "End_element ''msg'' \<in> set [Start_element ''msg'' [(''level'', ''3'')], End_element ''msg''] \<and>
   msg_level (flom_msg_deserialize Some [Start_element ''msg'' [(''level'', ''3'')], End_element ''msg'']
     flom_msg_init) \<in> {0, FLOM_MSG_LEVEL}"
proof (rule ready_message_level)
  show "msg_state (flom_msg_deserialize Some [Start_element ''msg'' [(''level'', ''3'')], End_element ''msg'']
     flom_msg_init) = FLOM_MSG_STATE_READY" by code_simp
qed

end
