(* ===== verification/Rsrc.thy ===== *)
theory Rsrc
  imports Msg_Xml "HOL-Library.Word"
begin

text \<open>
  What the six resource modules share (\<^verbatim>\<open>src/src/flom_rsrc.h\<close>, second half of
  \<^verbatim>\<open>src/src/flom_rsrc.c\<close>): the lock record of a connection, the state of the
  connections they touch, the answer to a waiting client, and the scan of the
  queue of the waiting clients.

  \<^item> \<open>env\<close> holds the results of the calls that leave the modelled code: the memory
    allocator, \<^verbatim>\<open>flom_tls_get_unique_id\<close>, the outcome of the n-th network send,
    \<^verbatim>\<open>g_base64_encode\<close>, the uninitialised bytes of the send buffer, what an
    access outside of the compatibility table reads, and which allocations of
    tree nodes fail (by the number of sends tried and the position in the path).  Every operation takes its
    own \<open>env\<close>, so any call may fail at any time.
  \<^item> \<open>world\<close> holds the state of the connections the modules read and write: the
    last step of each, the messages sent to it (the last one first) and the number of
    sends tried.  The calls that mirror the locks in the virtual file system have
    their results ignored by the code; they are recorded in the order they are made.
\<close>

section \<open>Connections and lock records\<close>

datatype vfs_call =
    Vfs_add_locker_conn conn bool flom_lock_mode "int option" "string option" "string option"
  | Vfs_add_locker_conn_file conn bool string string
  | Vfs_move_locker_conn conn
  | Vfs_del_conn conn

record env =
  e_malloc :: bool
  e_uid :: "string option"
  e_send :: "nat \<Rightarrow> conn \<Rightarrow> rc"
  e_b64 :: "string \<Rightarrow> string"
  e_old :: "nat \<Rightarrow> char"
  e_oob :: "flom_lock_mode \<Rightarrow> flom_lock_mode \<Rightarrow> bool"
  e_node_fail :: "nat \<Rightarrow> nat \<Rightarrow> bool"

record world =
  w_last_step :: "conn \<Rightarrow> int"
  w_sent :: "(conn \<times> flom_msg) list"
  w_sends :: nat
  w_vfs :: "vfs_call list"

type_synonym timeval = "int \<times> int"

text \<open>
  \<^verbatim>\<open>struct flom_rsrc_conn_lock_s\<close>; the union \<^verbatim>\<open>info\<close> is four fields, a resource
  uses the one of its type.  \<^verbatim>\<open>flom_rsrc_conn_lock_new\<close> returns a zeroed record.
\<close>

record flom_rsrc_conn_lock =
  cl_lock_mode :: flom_lock_mode
  cl_quantity :: int
  cl_sequence_value :: "32 word"
  cl_timestamp_value :: timeval
  cl_name :: "string option"
  cl_rollback :: bool
  cl_conn :: conn

definition flom_rsrc_conn_lock_new :: "env \<Rightarrow> conn \<Rightarrow> flom_rsrc_conn_lock option" where
  "flom_rsrc_conn_lock_new e c =
     (if e_malloc e then
        Some \<lparr> cl_lock_mode = FLOM_LOCK_MODE_NL, cl_quantity = 0, cl_sequence_value = 0,
               cl_timestamp_value = (0, 0), cl_name = None, cl_rollback = False, cl_conn = c \<rparr>
      else None)"

text \<open>\<^verbatim>\<open>flom_rsrc_conn_find\<close>: the first lock record of a connection.\<close>

definition flom_rsrc_conn_find ::
  "flom_rsrc_conn_lock list \<Rightarrow> conn \<Rightarrow> flom_rsrc_conn_lock option" where
  "flom_rsrc_conn_find holders c = find (\<lambda>cl. cl_conn cl = c) holders"

text \<open>The unlinking of the first lock record of a connection from a list or a queue.\<close>

definition conn_remove :: "flom_rsrc_conn_lock list \<Rightarrow> conn \<Rightarrow> flom_rsrc_conn_lock list" where
  "conn_remove cls c = remove_first (\<lambda>cl. cl_conn cl = c) cls"

definition vfs_log :: "vfs_call \<Rightarrow> world \<Rightarrow> world" where
  "vfs_log v w = w\<lparr>w_vfs := w_vfs w @ [v]\<rparr>"

text \<open>\<^verbatim>\<open>flom_conn_send\<close> of a serialized message.\<close>

definition flom_conn_send :: "env \<Rightarrow> conn \<Rightarrow> flom_msg \<Rightarrow> world \<Rightarrow> rc \<times> world" where
  "flom_conn_send e c m w =
     (let rc = e_send e (w_sends w) c in
      (rc, w\<lparr>w_sends := Suc (w_sends w),
             w_sent := (if rc = FLOM_RC_OK then (c, m) # w_sent w else w_sent w)\<rparr>))"

text \<open>The answer built in the message of the request, one step after the last one.\<close>

definition build_lock_answer ::
  "env \<Rightarrow> world \<Rightarrow> conn \<Rightarrow> flom_msg \<Rightarrow> rc \<Rightarrow> string option \<Rightarrow> rc \<times> flom_msg" where
  "build_lock_answer e w c m rc element =
     flom_msg_build_answer (e_uid e) m FLOM_MSG_VERB_LOCK (w_last_step w c + FLOM_MSG_STEP_INCR) rc element"

text \<open>
  The message that tells a waiting client that it holds the lock now: built,
  serialized in a buffer of 1024 bytes, sent, and freed.
\<close>

definition network_buffer_size :: nat where "network_buffer_size = 1024"

definition answer_waiting :: "env \<Rightarrow> conn \<Rightarrow> string option \<Rightarrow> world \<Rightarrow> rc \<times> world" where
  "answer_waiting e c element w =
     (case flom_msg_build_answer (e_uid e) flom_msg_init FLOM_MSG_VERB_LOCK
             (3 * FLOM_MSG_STEP_INCR) FLOM_RC_OK element of
        (rc, m) \<Rightarrow>
          if rc \<noteq> FLOM_RC_OK then (rc, w)
          else case flom_msg_serialize (e_b64 e) (e_old e) m network_buffer_size of
            Inl rc \<Rightarrow> (rc, w)
          | Inr text \<Rightarrow>
              (case flom_conn_send e c m w of
                 (rc, w) \<Rightarrow>
                   if rc \<noteq> FLOM_RC_OK then (rc, w)
                   else (fst (flom_msg_free m),
                         w\<lparr>w_last_step := (w_last_step w)(c := msg_step m)\<rparr>)))"

section \<open>The compatibility table\<close>

text \<open>
  The table \<^verbatim>\<open>lock_table[old][new]\<close> of \<^verbatim>\<open>flom_resource_simple_can_lock\<close> and
  \<^verbatim>\<open>flom_resource_hier_can_lock\<close>.  An index that is not one of the six lock
  modes reads outside of it: the result is then the parameter \<open>oob\<close>.
\<close>

fun mode_index :: "flom_lock_mode \<Rightarrow> nat option" where
  "mode_index FLOM_LOCK_MODE_NL = Some 0"
| "mode_index FLOM_LOCK_MODE_CR = Some 1"
| "mode_index FLOM_LOCK_MODE_CW = Some 2"
| "mode_index FLOM_LOCK_MODE_PR = Some 3"
| "mode_index FLOM_LOCK_MODE_PW = Some 4"
| "mode_index FLOM_LOCK_MODE_EX = Some 5"
| "mode_index _ = None"

definition table_rows :: "bool list list" where
  "table_rows =
     [[True, True,  True,  True,  True,  True ],
      [True, True,  True,  True,  True,  False],
      [True, True,  True,  False, False, False],
      [True, True,  False, True,  False, False],
      [True, True,  False, False, False, False],
      [True, False, False, False, False, False]]"

definition lock_table ::
  "(flom_lock_mode \<Rightarrow> flom_lock_mode \<Rightarrow> bool) \<Rightarrow> flom_lock_mode \<Rightarrow> flom_lock_mode \<Rightarrow> bool" where
  "lock_table oob old new =
     (case (mode_index old, mode_index new) of
        (Some i, Some j) \<Rightarrow> table_rows ! i ! j
      | _ \<Rightarrow> oob old new)"

text \<open>The table without its surroundings.\<close>

definition compat :: "flom_lock_mode \<Rightarrow> flom_lock_mode \<Rightarrow> bool" where
  "compat old new \<longleftrightarrow> lock_table (\<lambda>_ _. False) old new"

lemma valid_mode_cases:
  assumes "valid_mode m"
  obtains "m = FLOM_LOCK_MODE_NL" | "m = FLOM_LOCK_MODE_CR" | "m = FLOM_LOCK_MODE_CW"
    | "m = FLOM_LOCK_MODE_PR" | "m = FLOM_LOCK_MODE_PW" | "m = FLOM_LOCK_MODE_EX"
  using assms by (auto simp: valid_mode_def)

lemma valid_mode_index: "valid_mode m \<Longrightarrow> \<exists>i. mode_index m = Some i"
  by (erule valid_mode_cases) auto

lemma lock_table_compat:
  "valid_mode a \<Longrightarrow> valid_mode b \<Longrightarrow> lock_table oob a b = compat a b"
  using valid_mode_index [of a] valid_mode_index [of b] by (auto simp: lock_table_def compat_def)

lemma compat_sym: "compat a b \<longleftrightarrow> compat b a"
  by (cases a; cases b) (simp_all add: compat_def lock_table_def table_rows_def)

lemma compat_EX: "compat a FLOM_LOCK_MODE_EX \<Longrightarrow> a = FLOM_LOCK_MODE_NL"
  by (cases a) (simp_all add: compat_def lock_table_def table_rows_def)

lemma compat_NL: "valid_mode a \<Longrightarrow> compat a FLOM_LOCK_MODE_NL"
  by (erule valid_mode_cases) (simp_all add: compat_def lock_table_def table_rows_def)

section \<open>The answer to a waiting client\<close>

definition lock_24_text :: "string option \<Rightarrow> string" where
  "lock_24_text element = xml_header @ ''<msg'' @ xml_attr (''level'', ''3'') @ xml_attr (''verb'', ''1'')
     @ xml_attr (''step'', ''24'') @ ''>''
     @ xml_empty ''answer'' (answer_attrs \<lparr>ans_rc = 0, ans_element = element\<rparr>) @ ''</msg>''"

lemma string_of_int_small:
  "string_of_int 0 = ''0''" "string_of_int 1 = ''1''" "string_of_int 3 = ''3''" "string_of_int 24 = ''24''"
  by code_simp+

lemma serialize_lock_24:
  assumes "msg_verb m = 1" "msg_step m = 24" "msg_level m = 3" "lock_24 m = \<lparr>ans_rc = 0, ans_element = element\<rparr>"
  shows "flom_msg_serialize b64 old m len =
    (if length (lock_24_text element) < len then Inr (lock_24_text element) else Inl FLOM_RC_CONTAINER_FULL)"
proof -
  let ?open = "''<msg'' @ xml_attr (''level'', ''3'') @ xml_attr (''verb'', ''1'') @ xml_attr (''step'', ''24'') @ ''>''"
  let ?body = "xml_empty ''answer'' (answer_attrs \<lparr>ans_rc = 0, ans_element = element\<rparr>)"
  have o: "xml_msg_open m = ?open"
    using assms by (simp add: xml_msg_open_def msg_attrs_def string_of_int_small)
  have b: "flom_msg_serialize_body b64 old m b = put ?body b" for b
    using assms by (simp add: flom_msg_serialize_body_def flom_msg_serialize_lock_24_def)
  show ?thesis
    unfolding flom_msg_serialize_def o b put_put_bind put_put_finish
    by (simp add: lock_24_text_def put_def)
qed

text \<open>
  What the answer does: it fails when the text does not fit the buffer or the
  network fails, and otherwise one message is sent and the last step is 24.
\<close>

definition lock_24_msg :: "string option \<Rightarrow> flom_msg" where
  "lock_24_msg element = flom_msg_init\<lparr>msg_state := FLOM_MSG_STATE_READY, msg_level := FLOM_MSG_LEVEL,
     msg_verb := FLOM_MSG_VERB_LOCK, msg_step := 24, lock_24 := \<lparr>ans_rc = 0, ans_element = element\<rparr>\<rparr>"

lemma build_lock_24:
  "flom_msg_build_answer uid flom_msg_init 1 24 0 element = (FLOM_RC_OK, lock_24_msg element)"
  by (simp add: flom_msg_build_answer_def lock_24_msg_def Let_def)

lemma free_lock_24: "fst (flom_msg_free (lock_24_msg element)) = FLOM_RC_OK"
  by (simp add: flom_msg_free_def flom_msg_free_body_def lock_24_msg_def Let_def)

lemma answer_waiting_eq:
  "answer_waiting e c element w =
     (if length (lock_24_text element) \<ge> 1024 then (FLOM_RC_CONTAINER_FULL, w)
      else if e_send e (w_sends w) c \<noteq> FLOM_RC_OK
           then (e_send e (w_sends w) c, w\<lparr>w_sends := Suc (w_sends w)\<rparr>)
      else (FLOM_RC_OK, w\<lparr>w_sends := Suc (w_sends w), w_sent := (c, lock_24_msg element) # w_sent w,
                          w_last_step := (w_last_step w)(c := 24)\<rparr>))"
proof -
  have f: "msg_verb (lock_24_msg element) = 1" "msg_step (lock_24_msg element) = 24"
    "msg_level (lock_24_msg element) = 3" "lock_24 (lock_24_msg element) = \<lparr>ans_rc = 0, ans_element = element\<rparr>"
    by (simp_all add: lock_24_msg_def)
  show ?thesis
    using serialize_lock_24 [OF f, of "e_b64 e" "e_old e" 1024] free_lock_24 [of element]
    by (simp add: answer_waiting_def build_lock_24 network_buffer_size_def flom_conn_send_def f Let_def)
qed

lemma lock_24_text_None: "length (lock_24_text None) < 1024"
  by (simp add: lock_24_text_def xml_header_def xml_attr_def xml_empty_def answer_attrs_def string_of_int_small)

section \<open>The scan of the waiting clients\<close>

text \<open>
  The loop of every \<^verbatim>\<open>flom_resource_..._waitings\<close>: look at the i-th element of
  the queue; if its lock can be granted take it out and grant it, staying at
  position i; otherwise step to i + 1.  A failing grant ends the scan, with the
  element already out of the queue.
\<close>

function waitings_loop ::
  "('s \<Rightarrow> 'c \<Rightarrow> bool) \<Rightarrow> ('s \<Rightarrow> 'c \<Rightarrow> rc \<times> 's) \<Rightarrow> nat \<Rightarrow> 's \<Rightarrow> 'c list \<Rightarrow> rc \<times> 's \<times> 'c list" where
  "waitings_loop can grant i s q =
     (if length q \<le> i then (FLOM_RC_OK, s, q)
      else if can s (q ! i) then
        (case grant s (q ! i) of
           (rc, s') \<Rightarrow>
             if rc \<noteq> FLOM_RC_OK then (rc, s', take i q @ drop (Suc i) q)
             else waitings_loop can grant i s' (take i q @ drop (Suc i) q))
      else waitings_loop can grant (Suc i) s q)"
  by pat_completeness auto
termination
  by (relation "measure (\<lambda>(can, grant, i, s, q). length q - i)") auto

declare waitings_loop.simps [simp del]

text \<open>The same scan by recursion on the queue: the form the proofs use.\<close>

fun scan ::
  "('s \<Rightarrow> 'c \<Rightarrow> bool) \<Rightarrow> ('s \<Rightarrow> 'c \<Rightarrow> rc \<times> 's) \<Rightarrow> 's \<Rightarrow> 'c list \<Rightarrow> rc \<times> 's \<times> 'c list" where
  "scan can grant s [] = (FLOM_RC_OK, s, [])"
| "scan can grant s (c # q) =
     (if can s c then
        (case grant s c of
           (rc, s') \<Rightarrow> if rc \<noteq> FLOM_RC_OK then (rc, s', q) else scan can grant s' q)
      else (case scan can grant s q of (rc, s', q') \<Rightarrow> (rc, s', c # q')))"

lemma waitings_loop_scan:
  "waitings_loop can grant (length p) s (p @ q) =
     (case scan can grant s q of (rc, s', q') \<Rightarrow> (rc, s', p @ q'))"
proof (induction q arbitrary: p s)
  case Nil
  then show ?case by (subst waitings_loop.simps) simp
next
  case (Cons c q)
  have step: "waitings_loop can grant (Suc (length p)) s (p @ c # q) =
      (case scan can grant s q of (rc, s', q') \<Rightarrow> (rc, s', p @ c # q'))" for s
    using Cons.IH [of "p @ [c]" s] by (simp split: prod.splits)
  show ?case
    by (subst waitings_loop.simps)
       (auto simp: Cons.IH step nth_append split: prod.splits)
qed

lemma waitings_loop_eq_scan: "waitings_loop can grant 0 s q = scan can grant s q"
  using waitings_loop_scan [of can grant "[]" s q] by (simp split: prod.splits)

lemma scan_queue_subset: "scan can grant s q = (rc, s', q') \<Longrightarrow> set q' \<subseteq> set q"
  by (induction can grant s q arbitrary: rc s' q' rule: scan.induct)
     (auto split: if_splits prod.splits)

lemma scan_ok:
  assumes "\<And>s c. fst (grant s c) = FLOM_RC_OK"
  shows "fst (scan can grant s q) = FLOM_RC_OK"
proof (induction q arbitrary: s)
  case (Cons c q)
  obtain s1 where "grant s c = (FLOM_RC_OK, s1)" using assms [of s c] by (cases "grant s c") simp
  moreover obtain rc s2 q2 where "scan can grant s q = (rc, s2, q2)" by (metis prod_cases3)
  ultimately show ?case using Cons.IH [of s] Cons.IH [of s1] by simp
qed simp

text \<open>
  The contracts of a scan: an invariant that every granted lock keeps
  (\<open>grant_scan\<close>), the connections of the locks held and of the requests queued
  are neither lost nor duplicated (\<open>conserving_scan\<close>), and a grant never makes
  another request grantable (\<open>exhaustive_scan\<close>): then a scan that ends well
  leaves no request in the queue that could have been granted.
\<close>

locale grant_scan =
  fixes can :: "'s \<Rightarrow> 'c \<Rightarrow> bool"
    and grant :: "'s \<Rightarrow> 'c \<Rightarrow> rc \<times> 's"
    and inv :: "'s \<Rightarrow> bool"
    and ok :: "'c \<Rightarrow> bool"
  assumes inv_grant: "inv s \<Longrightarrow> ok c \<Longrightarrow> can s c \<Longrightarrow> inv (snd (grant s c))"
begin

lemma scan_inv:
  assumes "inv s" "\<forall>c \<in> set q. ok c" "scan can grant s q = (rc, s', q')"
  shows "inv s'"
  using assms
proof (induction q arbitrary: s rc s' q')
  case (Cons c q)
  show ?case
  proof (cases "can s c")
    case True
    obtain rc1 s1 where g: "grant s c = (rc1, s1)" by force
    then have "inv s1" using inv_grant [OF Cons.prems(1) _ True] Cons.prems(2) by simp
    then show ?thesis
      using True g Cons.prems(2,3) Cons.IH [of s1] by (auto split: if_splits)
  next
    case False
    obtain rc1 s1 q1 where "scan can grant s q = (rc1, s1, q1)" by (metis prod_cases3)
    then show ?thesis using False Cons.prems Cons.IH [of s rc1 s1 q1] by simp
  qed
qed simp

lemma loop_inv:
  assumes "inv s" "\<forall>c \<in> set q. ok c"
  shows "inv (fst (snd (waitings_loop can grant 0 s q)))"
  using assms scan_inv [of s q] by (cases "scan can grant s q") (simp add: waitings_loop_eq_scan)

end

locale exhaustive_scan = grant_scan +
  assumes grant_blocks:
    "inv s \<Longrightarrow> ok c \<Longrightarrow> ok d \<Longrightarrow> can s c \<Longrightarrow> \<not> can s d \<Longrightarrow> \<not> can (snd (grant s c)) d"
begin

lemma scan_keeps_blocked:
  assumes "inv s" "\<forall>c \<in> set q. ok c" "scan can grant s q = (rc, s', q')" "ok d" "\<not> can s d"
  shows "\<not> can s' d"
  using assms
proof (induction q arbitrary: s rc s' q')
  case (Cons c q)
  have g: "inv (snd (grant s c)) \<and> \<not> can (snd (grant s c)) d" if "can s c"
    using inv_grant [OF Cons.prems(1) _ that] Cons.prems(2,4,5)
      grant_blocks [OF Cons.prems(1) _ Cons.prems(4) that] by simp
  show ?case
    using Cons.prems g Cons.IH [of "snd (grant s c)"] Cons.IH [of s]
    by (auto split: if_splits prod.splits)
qed simp

lemma scan_exhaustive:
  assumes "inv s" "\<forall>c \<in> set q. ok c" "scan can grant s q = (FLOM_RC_OK, s', q')"
  shows "\<forall>d \<in> set q'. \<not> can s' d"
  using assms
proof (induction q arbitrary: s s' q')
  case (Cons c q)
  show ?case
  proof (cases "can s c")
    case True
    then have "inv (snd (grant s c))"
      using inv_grant [OF Cons.prems(1) _ True] Cons.prems(2) by simp
    with True Cons.prems Cons.IH [of "snd (grant s c)"] show ?thesis
      by (auto split: if_splits prod.splits)
  next
    case False
    obtain q'' where q'': "scan can grant s q = (FLOM_RC_OK, s', q'')" "q' = c # q''"
      using False Cons.prems(3) by (auto split: prod.splits)
    then have "\<forall>d \<in> set q''. \<not> can s' d" using Cons.IH Cons.prems by simp
    moreover have "\<not> can s' c"
      using scan_keeps_blocked [OF Cons.prems(1) _ q''(1) _ False] Cons.prems(2) by simp
    ultimately show ?thesis using q'' by simp
  qed
qed simp

lemma loop_exhaustive:
  assumes "inv s" "\<forall>c \<in> set q. ok c" "waitings_loop can grant 0 s q = (FLOM_RC_OK, s', q')"
  shows "\<forall>d \<in> set q'. \<not> can s' d"
  using assms scan_exhaustive by (simp add: waitings_loop_eq_scan)

end

locale conserving_scan =
  fixes can :: "'s \<Rightarrow> 'c \<Rightarrow> bool"
    and grant :: "'s \<Rightarrow> 'c \<Rightarrow> rc \<times> 's"
    and held :: "'s \<Rightarrow> conn multiset"
    and key :: "'c \<Rightarrow> conn"
  assumes held_grant:
      "can s c \<Longrightarrow> fst (grant s c) = FLOM_RC_OK \<Longrightarrow> held (snd (grant s c)) = add_mset (key c) (held s)"
    and held_fail: "can s c \<Longrightarrow> fst (grant s c) \<noteq> FLOM_RC_OK \<Longrightarrow> held (snd (grant s c)) = held s"
begin

lemma scan_conserves:
  assumes "scan can grant s q = (FLOM_RC_OK, s', q')"
  shows "held s' + image_mset key (mset q') = held s + image_mset key (mset q)"
  using assms
proof (induction q arbitrary: s s' q')
  case (Cons c q)
  show ?case
    using Cons.prems Cons.IH [of "snd (grant s c)"] Cons.IH [of s] held_grant [of s c]
    by (auto split: if_splits prod.splits)
qed simp

text \<open>A scan that fails loses exactly one request: the one whose grant failed.\<close>

lemma scan_fail_loses_one:
  assumes "scan can grant s q = (rc, s', q')" "rc \<noteq> FLOM_RC_OK"
  shows "\<exists>c \<in> set q. add_mset (key c) (held s' + image_mset key (mset q'))
           = held s + image_mset key (mset q)"
  using assms
proof (induction q arbitrary: s s' q')
  case (Cons c q)
  show ?case
    using Cons.prems Cons.IH [of "snd (grant s c)"] Cons.IH [of s] held_grant [of s c]
      held_fail [of s c]
    by (fastforce split: if_splits prod.splits)
qed simp

lemma loop_conserves:
  assumes "waitings_loop can grant 0 s q = (FLOM_RC_OK, s', q')"
  shows "held s' + image_mset key (mset q') = held s + image_mset key (mset q)"
  using assms scan_conserves by (simp add: waitings_loop_eq_scan)

end

section \<open>The interface of a resource\<close>

text \<open>
  The two methods of the table of virtual functions in \<^verbatim>\<open>flom_resource_s\<close> that
  change the locks, and what happens to a resource: requests that arrive and
  connections that end.  Each event carries the environment it runs in.
\<close>

datatype rsrc_event = Ev_inmsg env conn flom_msg | Ev_clean env conn

type_synonym 'r inmsg_op = "env \<Rightarrow> 'r \<Rightarrow> conn \<Rightarrow> flom_msg \<Rightarrow> world \<Rightarrow> rc \<times> 'r \<times> flom_msg \<times> world"
type_synonym 'r clean_op = "env \<Rightarrow> 'r \<Rightarrow> conn \<Rightarrow> world \<Rightarrow> rc \<times> 'r \<times> world"

fun rsrc_step :: "'r inmsg_op \<Rightarrow> 'r clean_op \<Rightarrow> rsrc_event \<Rightarrow> 'r \<times> world \<Rightarrow> 'r \<times> world" where
  "rsrc_step inmsg clean (Ev_inmsg e c m) (r, w) =
     (case inmsg e r c m w of (rc, r', m', w') \<Rightarrow> (r', w'))"
| "rsrc_step inmsg clean (Ev_clean e c) (r, w) =
     (case clean e r c w of (rc, r', w') \<Rightarrow> (r', w'))"

definition rsrc_run ::
  "'r inmsg_op \<Rightarrow> 'r clean_op \<Rightarrow> rsrc_event list \<Rightarrow> 'r \<times> world \<Rightarrow> 'r \<times> world" where
  "rsrc_run inmsg clean evs s = fold (rsrc_step inmsg clean) evs s"

fun ev_ok :: "(env \<Rightarrow> bool) \<Rightarrow> (flom_msg \<Rightarrow> bool) \<Rightarrow> rsrc_event \<Rightarrow> bool" where
  "ev_ok ok_env ok_msg (Ev_inmsg e c m) = (ok_env e \<and> ok_msg m)"
| "ev_ok ok_env ok_msg (Ev_clean e c) = ok_env e"

abbreviation any_env :: "env \<Rightarrow> bool" where "any_env \<equiv> \<lambda>e. True"

text \<open>
  The contract: a property of the resource that the two methods keep, for requests
  and environments of a kind; it then holds after any run of such events.
\<close>

locale resource_ops =
  fixes inmsg :: "'r inmsg_op"
    and clean :: "'r clean_op"
    and rinv :: "'r \<Rightarrow> bool"
    and ok_env :: "env \<Rightarrow> bool"
    and ok_msg :: "flom_msg \<Rightarrow> bool"
  assumes inmsg_rinv:
      "rinv r \<Longrightarrow> ok_env e \<Longrightarrow> ok_msg m \<Longrightarrow> rinv (fst (snd (inmsg e r c m w)))"
    and clean_rinv: "rinv r \<Longrightarrow> ok_env e \<Longrightarrow> rinv (fst (snd (clean e r c w)))"
begin

lemma step_rinv:
  assumes "rinv (fst s)" "ev_ok ok_env ok_msg ev"
  shows "rinv (fst (rsrc_step inmsg clean ev s))"
proof (cases ev)
  case (Ev_inmsg e c m)
  then show ?thesis
    using assms inmsg_rinv [of "fst s" e m c "snd s"] by (cases s) (auto split: prod.splits)
next
  case (Ev_clean e c)
  then show ?thesis
    using assms clean_rinv [of "fst s" e c "snd s"] by (cases s) (auto split: prod.splits)
qed

lemma run_rinv:
  assumes "rinv (fst s)" "list_all (ev_ok ok_env ok_msg) evs"
    and "(r, w) = rsrc_run inmsg clean evs s"
  shows "rinv r"
proof -
  have "rinv (fst (rsrc_run inmsg clean evs s))"
    using assms(1,2) unfolding rsrc_run_def
    by (induction evs arbitrary: s) (simp_all add: step_rinv)
  then show ?thesis using assms(3) by (metis fst_conv)
qed

end

text \<open>
  The same contract for a property that weakens with the number of events, up to
  a bound (counters that wrap around).
\<close>

locale bounded_resource_ops =
  fixes inmsg :: "'r inmsg_op"
    and clean :: "'r clean_op"
    and binv :: "nat \<Rightarrow> 'r \<Rightarrow> bool"
    and bound :: nat
  assumes inmsg_binv: "binv n r \<Longrightarrow> n < bound \<Longrightarrow> binv (Suc n) (fst (snd (inmsg e r c m w)))"
    and clean_binv: "binv n r \<Longrightarrow> n < bound \<Longrightarrow> binv (Suc n) (fst (snd (clean e r c w)))"
begin

lemma step_binv:
  assumes "binv n (fst s)" "n < bound"
  shows "binv (Suc n) (fst (rsrc_step inmsg clean ev s))"
proof (cases ev)
  case (Ev_inmsg e c m)
  then show ?thesis
    using assms inmsg_binv [of n "fst s" e c m "snd s"] by (cases s) (auto split: prod.splits)
next
  case (Ev_clean e c)
  then show ?thesis
    using assms clean_binv [of n "fst s" e c "snd s"] by (cases s) (auto split: prod.splits)
qed

lemma run_binv:
  assumes "binv n (fst s)" "n + length evs \<le> bound" "(r, w) = rsrc_run inmsg clean evs s"
  shows "binv (n + length evs) r"
proof -
  have "binv (n + length evs) (fst (rsrc_run inmsg clean evs s))"
    using assms(1,2) unfolding rsrc_run_def
  proof (induction evs arbitrary: n s)
    case (Cons ev evs)
    then show ?case using Cons.IH [of "Suc n" "rsrc_step inmsg clean ev s"] step_binv by simp
  qed simp
  then show ?thesis using assms(3) by (metis fst_conv)
qed

end

text \<open>
  A resource with the third method, the time out of the poll of the locker thread.
\<close>

datatype timed_event = Ev_rsrc rsrc_event | Ev_timeout env

type_synonym 'r timeout_op = "env \<Rightarrow> 'r \<Rightarrow> world \<Rightarrow> rc \<times> 'r \<times> world"

fun timed_step ::
  "'r inmsg_op \<Rightarrow> 'r clean_op \<Rightarrow> 'r timeout_op \<Rightarrow> timed_event \<Rightarrow> 'r \<times> world \<Rightarrow> 'r \<times> world" where
  "timed_step inmsg clean timeout (Ev_rsrc ev) s = rsrc_step inmsg clean ev s"
| "timed_step inmsg clean timeout (Ev_timeout e) (r, w) =
     (case timeout e r w of (rc, r', w') \<Rightarrow> (r', w'))"

definition timed_run ::
  "'r inmsg_op \<Rightarrow> 'r clean_op \<Rightarrow> 'r timeout_op \<Rightarrow> timed_event list \<Rightarrow> 'r \<times> world \<Rightarrow> 'r \<times> world" where
  "timed_run inmsg clean timeout evs s = fold (timed_step inmsg clean timeout) evs s"

fun timed_ok :: "(env \<Rightarrow> bool) \<Rightarrow> (flom_msg \<Rightarrow> bool) \<Rightarrow> timed_event \<Rightarrow> bool" where
  "timed_ok ok_env ok_msg (Ev_rsrc ev) = ev_ok ok_env ok_msg ev"
| "timed_ok ok_env ok_msg (Ev_timeout e) = ok_env e"

locale timed_resource_ops = resource_ops +
  fixes timeout :: "'a timeout_op"
  assumes timeout_rinv: "rinv r \<Longrightarrow> ok_env e \<Longrightarrow> rinv (fst (snd (timeout e r w)))"
begin

lemma timed_step_rinv:
  assumes "rinv (fst s)" "timed_ok ok_env ok_msg ev"
  shows "rinv (fst (timed_step inmsg clean timeout ev s))"
proof (cases ev)
  case (Ev_rsrc ev')
  then show ?thesis using assms step_rinv by simp
next
  case (Ev_timeout e)
  then show ?thesis
    using assms timeout_rinv [of "fst s" e "snd s"] by (cases s) (auto split: prod.splits)
qed

lemma timed_run_rinv:
  assumes "rinv (fst s)" "list_all (timed_ok ok_env ok_msg) evs"
  shows "rinv (fst (timed_run inmsg clean timeout evs s))"
  using assms unfolding timed_run_def
  by (induction evs arbitrary: s) (simp_all add: timed_step_rinv)

end

section \<open>Good environments and well formed requests\<close>

text \<open>
  An environment in which no call fails, and the messages of a client as the
  daemon has checked them: a lock request of step 8 (the step of the connection
  is then 8) and an unlock request.
\<close>

definition env_ok :: "env \<Rightarrow> bool" where
  "env_ok e \<longleftrightarrow> e_malloc e \<and> e_uid e \<noteq> None \<and> e_send e = (\<lambda>n c. FLOM_RC_OK)
     \<and> e_node_fail e = (\<lambda>n i. False)"

definition lock_request :: "flom_msg \<Rightarrow> bool" where
  "lock_request m \<longleftrightarrow> msg_verb m = FLOM_MSG_VERB_LOCK \<and> msg_step m = FLOM_MSG_STEP_INCR"

definition unlock_request :: "flom_msg \<Rightarrow> bool" where
  "unlock_request m \<longleftrightarrow> msg_verb m = FLOM_MSG_VERB_UNLOCK \<and> msg_step m = FLOM_MSG_STEP_INCR"

definition lock_16_msg :: "string option \<Rightarrow> rc \<Rightarrow> string option \<Rightarrow> flom_msg" where
  "lock_16_msg uid rc element = flom_msg_init\<lparr>msg_state := FLOM_MSG_STATE_READY, msg_level := FLOM_MSG_LEVEL,
     msg_verb := FLOM_MSG_VERB_LOCK, msg_step := 16,
     lock_16 := \<lparr>l16_peerid = uid, l16_answer = \<lparr>ans_rc = rc, ans_element = element\<rparr>\<rparr>\<rparr>"

lemma lock_request_free: "lock_request m \<Longrightarrow> fst (flom_msg_free m) = FLOM_RC_OK"
  by (simp add: lock_request_def flom_msg_free_def flom_msg_free_body_def Let_def)

lemma unlock_request_free: "unlock_request m \<Longrightarrow> fst (flom_msg_free m) = FLOM_RC_OK"
  by (simp add: unlock_request_def flom_msg_free_def flom_msg_free_body_def Let_def)

lemma build_lock_answer_16:
  "w_last_step w c = 8 \<Longrightarrow> e_uid e \<noteq> None \<Longrightarrow>
   build_lock_answer e w c flom_msg_init rc element = (FLOM_RC_OK, lock_16_msg (e_uid e) rc element)"
  by (simp add: build_lock_answer_def flom_msg_build_answer_def lock_16_msg_def flom_msg_init_def Let_def)

lemma vfs_log_simps [simp]:
  "w_last_step (vfs_log v w) = w_last_step w" "w_sent (vfs_log v w) = w_sent w"
  "w_sends (vfs_log v w) = w_sends w"
  by (simp_all add: vfs_log_def)

lemma answer_waiting_ok:
  "env_ok e \<Longrightarrow> length (lock_24_text element) < 1024 \<Longrightarrow> fst (answer_waiting e c element w) = FLOM_RC_OK"
  by (simp add: answer_waiting_eq env_ok_def)

lemmas answer_waiting_ok_None = answer_waiting_ok [OF _ lock_24_text_None]

text \<open>Concrete values for the witnesses.\<close>

definition sample_env :: env where
  "sample_env = \<lparr> e_malloc = True, e_uid = Some ''peer'', e_send = (\<lambda>n c. FLOM_RC_OK), e_b64 = id,
     e_old = (\<lambda>i. CHR 0x00), e_oob = (\<lambda>a b. False), e_node_fail = (\<lambda>n i. False) \<rparr>"

definition sample_world :: world where
  "sample_world = \<lparr> w_last_step = (\<lambda>c. 8), w_sent = [], w_sends = 0, w_vfs = [] \<rparr>"

definition sample_lock :: "flom_lock_mode \<Rightarrow> flom_msg" where
  "sample_lock mode = flom_msg_init\<lparr>msg_state := FLOM_MSG_STATE_READY, msg_verb := FLOM_MSG_VERB_LOCK,
     msg_step := FLOM_MSG_STEP_INCR, lock_8 := (lock_8 flom_msg_init)\<lparr>l8_mode := mode, l8_wait := 1\<rparr>\<rparr>"

definition sample_unlock :: "string \<Rightarrow> flom_msg" where
  "sample_unlock name = flom_msg_init\<lparr>msg_state := FLOM_MSG_STATE_READY, msg_verb := FLOM_MSG_VERB_UNLOCK,
     msg_step := FLOM_MSG_STEP_INCR, unlock_8 := \<lparr>u8_name = Some name, u8_rollback = 0\<rparr>\<rparr>"

definition sample_request :: "string \<Rightarrow> int \<Rightarrow> flom_msg" where
  "sample_request name quantity = flom_msg_init\<lparr>msg_state := FLOM_MSG_STATE_READY,
     msg_verb := FLOM_MSG_VERB_LOCK, msg_step := FLOM_MSG_STEP_INCR,
     lock_8 := (lock_8 flom_msg_init)\<lparr>l8_name := Some name, l8_quantity := quantity, l8_wait := 1\<rparr>\<rparr>"

end
