(* ===== verification/Vfs.thy ===== *)
theory Vfs
  imports Rsrc
begin

text \<open>
  The tree in memory that mirrors the locks for the virtual file system
  (\<^verbatim>\<open>src/src/flom_vfs.c\<close>).

  A \<^verbatim>\<open>GNode\<close> with its children is a \<open>vtree\<close>; its data block is a record, and \<open>None\<close> when the block
  has been freed while the node is still in the tree.  A pointer to a node is the path from
  the root to it, a list of indices; the parent of a node is one index shorter, because no data
  block belongs to two nodes.  \<open>vfs_env\<close> holds the results of the allocator (the address of
  the n-th data block of a call, which is its inode number, or a failure), of the allocation of
  the n-th \<^verbatim>\<open>GNode\<close> and of the clock.  The mutex serializes the operations, so each of them is one step.

  The second half states what the operations mean for a directory of lockers, connections
  and files, and that they refine it: \<open>conc\<close> maps the abstract directory to the tree without
  inode numbers and times.
\<close>

abbreviation (input) FLOM_RC_INACTIVE_FEATURE :: int where "FLOM_RC_INACTIVE_FEATURE \<equiv> 13"
abbreviation (input) FLOM_RC_NEW_OBJ :: int where "FLOM_RC_NEW_OBJ \<equiv> - 21"
abbreviation (input) FLOM_RC_OBJ_NOT_FOUND_ERROR :: int where "FLOM_RC_OBJ_NOT_FOUND_ERROR \<equiv> - 28"
abbreviation (input) FLOM_RC_G_ARRAY_NEW_ERROR :: int where "FLOM_RC_G_ARRAY_NEW_ERROR \<equiv> - 200"
abbreviation (input) FLOM_RC_G_NODE_APPEND_DATA_ERROR :: int where "FLOM_RC_G_NODE_APPEND_DATA_ERROR \<equiv> - 207"
abbreviation (input) FLOM_RC_G_NODE_NEW_ERROR :: int where "FLOM_RC_G_NODE_NEW_ERROR \<equiv> - 208"
abbreviation (input) FLOM_RC_G_NODE_PREPEND_DATA_ERROR :: int where "FLOM_RC_G_NODE_PREPEND_DATA_ERROR \<equiv> - 209"

section \<open>Trees and paths\<close>

datatype 'a vtree = VNode (vt_data: 'a) (vt_children: "'a vtree list")

type_synonym path = "nat list"

primrec vt_get :: "path \<Rightarrow> 'a vtree \<Rightarrow> 'a vtree" where
  "vt_get [] t = t"
| "vt_get (i # p) t = vt_get p (vt_children t ! i)"

primrec vt_upd :: "path \<Rightarrow> ('a vtree \<Rightarrow> 'a vtree) \<Rightarrow> 'a vtree \<Rightarrow> 'a vtree" where
  "vt_upd [] f t = f t"
| "vt_upd (i # p) f t = VNode (vt_data t) ((vt_children t)[i := vt_upd p f (vt_children t ! i)])"

text \<open>\<^verbatim>\<open>g_node_append\<close>, \<^verbatim>\<open>g_node_prepend\<close> and \<^verbatim>\<open>g_node_unlink\<close>.\<close>

definition vt_append :: "path \<Rightarrow> 'a vtree \<Rightarrow> 'a vtree \<Rightarrow> 'a vtree" where
  "vt_append p c = vt_upd p (\<lambda>t. VNode (vt_data t) (vt_children t @ [c]))"

definition vt_prepend :: "path \<Rightarrow> 'a vtree \<Rightarrow> 'a vtree \<Rightarrow> 'a vtree" where
  "vt_prepend p c = vt_upd p (\<lambda>t. VNode (vt_data t) (c # vt_children t))"

definition vt_unlink :: "path \<Rightarrow> 'a vtree \<Rightarrow> 'a vtree" where
  "vt_unlink p = vt_upd (butlast p)
     (\<lambda>t. VNode (vt_data t) (take (last p) (vt_children t) @ drop (Suc (last p)) (vt_children t)))"

text \<open>\<^verbatim>\<open>g_node_traverse\<close> in pre-order up to the first node that satisfies the predicate.\<close>

fun vt_find :: "('a \<Rightarrow> bool) \<Rightarrow> 'a vtree \<Rightarrow> path option"
and vt_find_list :: "('a \<Rightarrow> bool) \<Rightarrow> nat \<Rightarrow> 'a vtree list \<Rightarrow> path option" where
  "vt_find P (VNode d ts) = (if P d then Some [] else vt_find_list P 0 ts)"
| "vt_find_list P i [] = None"
| "vt_find_list P i (t # ts) =
     (case vt_find P t of Some p \<Rightarrow> Some (i # p) | None \<Rightarrow> vt_find_list P (Suc i) ts)"

section \<open>Nodes of the virtual file system\<close>

record flom_vfs_ram_node =
  rn_ino :: nat
  rn_name :: string
  rn_content :: "string option"
  rn_ctime :: int
  rn_mtime :: int

type_synonym ram_tree = "flom_vfs_ram_node option vtree"

record flom_vfs_ram_tree =
  vfs_active :: bool
  vfs_root :: "ram_tree option"

record vfs_env =
  ve_block :: "nat \<Rightarrow> nat option"
  ve_gnode :: "nat \<Rightarrow> bool"
  ve_time :: "nat \<Rightarrow> int"

definition flom_vfs_ram_node_create :: "vfs_env \<Rightarrow> nat \<Rightarrow> string \<Rightarrow> string option \<Rightarrow> flom_vfs_ram_node option" where
  "flom_vfs_ram_node_create e k name content =
     map_option (\<lambda>ino. \<lparr> rn_ino = ino, rn_name = name, rn_content = content,
                         rn_ctime = ve_time e k, rn_mtime = ve_time e k \<rparr>) (ve_block e k)"

text \<open>The data block of a node that stays in the tree is freed.\<close>

definition flom_vfs_ram_node_destroy :: "path \<Rightarrow> ram_tree \<Rightarrow> ram_tree" where
  "flom_vfs_ram_node_destroy p = vt_upd p (\<lambda>t. VNode None (vt_children t))"

text \<open>A new node for a data block: \<^verbatim>\<open>g_node_append_data\<close>.\<close>

definition leaf :: "flom_vfs_ram_node \<Rightarrow> ram_tree" where
  "leaf d = VNode (Some d) []"

definition FLOM_VFS_STD_BUFFER_SIZE :: nat where "FLOM_VFS_STD_BUFFER_SIZE = 1024"

definition newline :: char where "newline = CHR 0x0A"

text \<open>\<^verbatim>\<open>snprintf\<close> of a string and a new line in the buffer.\<close>

definition print_line :: "string \<Rightarrow> string" where
  "print_line s = take (FLOM_VFS_STD_BUFFER_SIZE - 1) (s @ [newline])"

definition flom_vfs_ram_tree_init :: "vfs_env \<Rightarrow> bool \<Rightarrow> flom_vfs_ram_tree \<Rightarrow> rc \<times> flom_vfs_ram_tree" where
  "flom_vfs_ram_tree_init e activate v =
     (if \<not> activate then (FLOM_RC_INACTIVE_FEATURE, v\<lparr>vfs_active := False, vfs_root := None\<rparr>)
      else
        case flom_vfs_ram_node_create e 0 ''/'' None of
          None \<Rightarrow> (FLOM_RC_NEW_OBJ, v)
        | Some root \<Rightarrow>
            if \<not> ve_gnode e 0 then (FLOM_RC_G_NODE_NEW_ERROR, v\<lparr>vfs_root := None\<rparr>)
            else
              let t0 = leaf root; put = (\<lambda>t. v\<lparr>vfs_active := True, vfs_root := Some t\<rparr>) in
              case flom_vfs_ram_node_create e 1 ''status'' None of
                None \<Rightarrow> (FLOM_RC_NEW_OBJ, put t0)
              | Some status \<Rightarrow>
                  if \<not> ve_gnode e 1 then (FLOM_RC_G_NODE_PREPEND_DATA_ERROR, put t0)
                  else
                    let t1 = vt_prepend [] (leaf status) t0 in
                    case flom_vfs_ram_node_create e 2 ''lockers'' None of
                      None \<Rightarrow> (FLOM_RC_NEW_OBJ, put t1)
                    | Some lockers \<Rightarrow>
                        if \<not> ve_gnode e 2 then (FLOM_RC_G_NODE_PREPEND_DATA_ERROR, put t1)
                        else
                          let t2 = vt_prepend [0] (leaf lockers) t1 in
                          case flom_vfs_ram_node_create e 3 ''incubator'' None of
                            None \<Rightarrow> (FLOM_RC_NEW_OBJ, put t2)
                          | Some incubator \<Rightarrow>
                              if \<not> ve_gnode e 3 then (FLOM_RC_G_NODE_PREPEND_DATA_ERROR, put t2)
                              else (FLOM_RC_OK, put (vt_prepend [0] (leaf incubator) t2)))"

text \<open>\<^verbatim>\<open>NULL\<close> or the root as the node destroys the whole tree and ends the feature.\<close>

definition flom_vfs_ram_tree_cleanup :: "path option \<Rightarrow> flom_vfs_ram_tree \<Rightarrow> flom_vfs_ram_tree" where
  "flom_vfs_ram_tree_cleanup node v =
     (if \<not> vfs_active v then v
      else case node of
             None \<Rightarrow> v\<lparr>vfs_root := None, vfs_active := False\<rparr>
           | Some p \<Rightarrow> if p = [] then v\<lparr>vfs_root := None, vfs_active := False\<rparr>
                       else v\<lparr>vfs_root := map_option (vt_unlink p) (vfs_root v)\<rparr>)"

section \<open>Searches\<close>

definition has_name :: "string \<Rightarrow> flom_vfs_ram_node option \<Rightarrow> bool" where
  "has_name name d = (case d of None \<Rightarrow> False | Some n \<Rightarrow> rn_name n = name)"

definition has_ino :: "nat \<Rightarrow> flom_vfs_ram_node option \<Rightarrow> bool" where
  "has_ino ino d = (case d of None \<Rightarrow> False | Some n \<Rightarrow> rn_ino n = ino)"

text \<open>The node with a data block, which is the root for no block.\<close>

definition flom_vfs_ram_tree_find :: "nat option \<Rightarrow> flom_vfs_ram_tree \<Rightarrow> path option" where
  "flom_vfs_ram_tree_find data v =
     (if \<not> vfs_active v then None
      else case data of None \<Rightarrow> Some [] | Some ino \<Rightarrow> vt_find (has_ino ino) (the (vfs_root v)))"

definition flom_vfs_ram_tree_find_parent :: "flom_vfs_ram_tree \<Rightarrow> path \<Rightarrow> path option" where
  "flom_vfs_ram_tree_find_parent v p =
     (if \<not> vfs_active v \<or> vt_data (vt_get p (the (vfs_root v))) = None then None else Some (butlast p))"

fun child_index :: "string \<Rightarrow> nat \<Rightarrow> ram_tree list \<Rightarrow> nat option" where
  "child_index name i [] = None"
| "child_index name i (t # ts) = (if has_name name (vt_data t) then Some i else child_index name (Suc i) ts)"

definition flom_vfs_ram_tree_find_child_by_name :: "flom_vfs_ram_tree \<Rightarrow> path \<Rightarrow> string \<Rightarrow> path option" where
  "flom_vfs_ram_tree_find_child_by_name v p name =
     (if \<not> vfs_active v then None
      else map_option (\<lambda>i. p @ [i]) (child_index name 0 (vt_children (vt_get p (the (vfs_root v))))))"

definition flom_vfs_ram_tree_find_node_by_name :: "flom_vfs_ram_tree \<Rightarrow> path \<Rightarrow> string \<Rightarrow> rc + path" where
  "flom_vfs_ram_tree_find_node_by_name v start name =
     (if \<not> vfs_active v then Inl FLOM_RC_INACTIVE_FEATURE
      else case vt_find (has_name name) (vt_get start (the (vfs_root v))) of
             None \<Rightarrow> Inl FLOM_RC_OBJ_NOT_FOUND_ERROR
           | Some p \<Rightarrow> Inr (start @ p))"

text \<open>
  The children of a node for a listing: inode number and name.  The array of the result is
  returned also when the node is not found (empty) or when a name cannot be duplicated (the
  children up to it); \<open>array_ok\<close> and \<open>strdup_ok\<close> are the results of the allocations.
\<close>

fun children_pairs :: "(nat \<Rightarrow> bool) \<Rightarrow> nat \<Rightarrow> ram_tree list \<Rightarrow> (nat \<times> string) list" where
  "children_pairs strdup_ok i [] = []"
| "children_pairs strdup_ok i (t # ts) =
     (if \<not> strdup_ok i then []
      else (case vt_data t of None \<Rightarrow> (0, []) | Some n \<Rightarrow> (rn_ino n, rn_name n)) # children_pairs strdup_ok (Suc i) ts)"

definition flom_vfs_ram_tree_retrieve_children ::
  "bool \<Rightarrow> (nat \<Rightarrow> bool) \<Rightarrow> nat option \<Rightarrow> flom_vfs_ram_tree \<Rightarrow> (nat \<times> string) list option" where
  "flom_vfs_ram_tree_retrieve_children array_ok strdup_ok data v =
     (if \<not> vfs_active v \<or> \<not> array_ok then None
      else case flom_vfs_ram_tree_find data v of
             None \<Rightarrow> Some []
           | Some p \<Rightarrow> Some (children_pairs strdup_ok 0 (vt_children (vt_get p (the (vfs_root v))))))"

section \<open>Changes\<close>

definition set_tree :: "ram_tree \<Rightarrow> flom_vfs_ram_tree \<Rightarrow> flom_vfs_ram_tree" where
  "set_tree t v = v\<lparr>vfs_root := Some t\<rparr>"

definition flom_vfs_ram_tree_update_mtime :: "int \<Rightarrow> path \<Rightarrow> flom_vfs_ram_tree \<Rightarrow> rc \<times> flom_vfs_ram_tree" where
  "flom_vfs_ram_tree_update_mtime now p v =
     (if \<not> vfs_active v then (FLOM_RC_INACTIVE_FEATURE, v)
      else (FLOM_RC_OK,
            set_tree (vt_upd p (\<lambda>t. VNode (map_option (\<lambda>n. n\<lparr>rn_mtime := now\<rparr>) (vt_data t)) (vt_children t))
                        (the (vfs_root v))) v))"

definition append_data :: "path \<Rightarrow> flom_vfs_ram_node \<Rightarrow> flom_vfs_ram_tree \<Rightarrow> flom_vfs_ram_tree" where
  "append_data p d v = set_tree (vt_append p (leaf d) (the (vfs_root v))) v"

text \<open>The path of the child that was appended last.\<close>

definition last_child :: "path \<Rightarrow> flom_vfs_ram_tree \<Rightarrow> path" where
  "last_child p v = p @ [length (vt_children (vt_get p (the (vfs_root v)))) - 1]"

text \<open>
  The entries of the directory of a new locker, one after the other: data block and node.
  The data block of \<^verbatim>\<open>holders\<close> is freed when the next entry fails, although its node is in the
  tree already, because the variable is not reset.
\<close>

fun add_entries :: "vfs_env \<Rightarrow> nat \<Rightarrow> path \<Rightarrow> (string \<times> string option) list \<Rightarrow> flom_vfs_ram_tree \<Rightarrow> rc \<times> flom_vfs_ram_tree" where
  "add_entries e k p [] v = (FLOM_RC_OK, v)"
| "add_entries e k p ((name, content) # es) v =
     (case flom_vfs_ram_node_create e k name content of
        None \<Rightarrow> (FLOM_RC_NEW_OBJ, v)
      | Some d \<Rightarrow> if \<not> ve_gnode e k then (FLOM_RC_G_NODE_APPEND_DATA_ERROR, v)
                  else add_entries e (Suc k) p es (append_data p d v))"

definition flom_vfs_ram_tree_add_locker ::
  "vfs_env \<Rightarrow> nat \<Rightarrow> string \<Rightarrow> string \<Rightarrow> flom_vfs_ram_tree \<Rightarrow> rc \<times> flom_vfs_ram_tree" where
  "flom_vfs_ram_tree_add_locker e uid resource_name resource_type v =
     (if \<not> vfs_active v then (FLOM_RC_INACTIVE_FEATURE, v)
      else
        case flom_vfs_ram_tree_find_node_by_name v [] ''lockers'' of
          Inl rc \<Rightarrow> (rc, v)
        | Inr lockers_node \<Rightarrow>
            case flom_vfs_ram_node_create e 0 (string_of_nat uid) None of
              None \<Rightarrow> (FLOM_RC_NEW_OBJ, v)
            | Some d \<Rightarrow>
                if \<not> ve_gnode e 0 then (FLOM_RC_G_NODE_APPEND_DATA_ERROR, v)
                else
                  let v1 = append_data lockers_node d v; uid_dir = last_child lockers_node v1 in
                  case flom_vfs_ram_tree_update_mtime (ve_time e 5) lockers_node v1 of
                    (rc, v2) \<Rightarrow>
                      if rc \<noteq> FLOM_RC_OK then (rc, v2)
                      else
                        case add_entries e 1 uid_dir
                               [(''resource_name'', Some (print_line resource_name)),
                                (''resource_type'', Some (print_line resource_type)), (''holders'', None)] v2 of
                          (rc, v3) \<Rightarrow>
                            if rc \<noteq> FLOM_RC_OK then (rc, v3)
                            else
                              case add_entries e 4 uid_dir [(''waitings'', None)] v3 of
                                (rc, v4) \<Rightarrow>
                                  (rc, if rc \<noteq> FLOM_RC_OK
                                       then set_tree (flom_vfs_ram_node_destroy (last_child uid_dir v4) (the (vfs_root v4))) v4
                                       else v4))"

definition flom_vfs_ram_tree_del_locker :: "nat \<Rightarrow> flom_vfs_ram_tree \<Rightarrow> rc \<times> flom_vfs_ram_tree" where
  "flom_vfs_ram_tree_del_locker uid v =
     (if \<not> vfs_active v then (FLOM_RC_INACTIVE_FEATURE, v)
      else
        case flom_vfs_ram_tree_find_node_by_name v [] ''lockers'' of
          Inl rc \<Rightarrow> (rc, v)
        | Inr lockers_node \<Rightarrow>
            case flom_vfs_ram_tree_find_node_by_name v lockers_node (string_of_nat uid) of
              Inl rc \<Rightarrow> (rc, v)
            | Inr locker_dir_node \<Rightarrow> (FLOM_RC_OK, flom_vfs_ram_tree_cleanup (Some locker_dir_node) v))"

text \<open>
  A file of a connection.  A failing allocation leaves the reason code of the search before
  it, which is \<open>FLOM_RC_OK\<close>.
\<close>

definition flom_vfs_ram_tree_add_locker_conn_file ::
  "vfs_env \<Rightarrow> nat \<Rightarrow> nat \<Rightarrow> nat \<Rightarrow> string \<Rightarrow> string option \<Rightarrow> flom_vfs_ram_tree \<Rightarrow> rc \<times> flom_vfs_ram_tree" where
  "flom_vfs_ram_tree_add_locker_conn_file e k locker_uid conn_uid file_name file_content v =
     (if \<not> vfs_active v then (FLOM_RC_INACTIVE_FEATURE, v)
      else if file_content = None then (FLOM_RC_NULL_OBJECT, v)
      else
        case flom_vfs_ram_tree_find_node_by_name v [] ''lockers'' of
          Inl rc \<Rightarrow> (rc, v)
        | Inr lockers_node \<Rightarrow>
            case flom_vfs_ram_tree_find_node_by_name v lockers_node (string_of_nat locker_uid) of
              Inl rc \<Rightarrow> (rc, v)
            | Inr specific_locker_node \<Rightarrow>
                case flom_vfs_ram_tree_find_node_by_name v specific_locker_node (string_of_nat conn_uid) of
                  Inl rc \<Rightarrow> (rc, v)
                | Inr specific_conn_node \<Rightarrow>
                    case flom_vfs_ram_node_create e k file_name file_content of
                      None \<Rightarrow> (FLOM_RC_OK, v)
                    | Some d \<Rightarrow> (FLOM_RC_OK, if ve_gnode e k then append_data specific_conn_node d v else v))"

text \<open>
  The optional files of a connection, in the order of the code, up to the first failure.
\<close>

fun add_conn_files ::
  "vfs_env \<Rightarrow> nat \<Rightarrow> nat \<Rightarrow> nat \<Rightarrow> (string \<times> string option) list \<Rightarrow> flom_vfs_ram_tree \<Rightarrow> rc \<times> flom_vfs_ram_tree" where
  "add_conn_files e k locker_uid conn_uid [] v = (FLOM_RC_OK, v)"
| "add_conn_files e k locker_uid conn_uid ((name, content) # fs) v =
     (case flom_vfs_ram_tree_add_locker_conn_file e k locker_uid conn_uid name content v of
        (rc, v1) \<Rightarrow> if rc \<noteq> FLOM_RC_OK then (rc, v1) else add_conn_files e (Suc k) locker_uid conn_uid fs v1)"

definition conn_files ::
  "string option \<Rightarrow> flom_lock_mode \<Rightarrow> int option \<Rightarrow> string option \<Rightarrow> string option \<Rightarrow> (string \<times> string option) list" where
  "conn_files peer_name lock_mode quantity sequence_value timestamp_value =
     (case peer_name of None \<Rightarrow> [] | Some p \<Rightarrow> [(''peer_name'', Some (print_line p))]) @
     (if lock_mode = FLOM_LOCK_MODE_INVALID then [] else [(''lock_mode'', flom_lock_mode_long_string lock_mode)]) @
     (case quantity of None \<Rightarrow> [] | Some q \<Rightarrow> [(''quantity'', Some (print_line (string_of_int q)))]) @
     (case sequence_value of None \<Rightarrow> [] | Some s \<Rightarrow> [(''sequence_value'', Some s)]) @
     (case timestamp_value of None \<Rightarrow> [] | Some s \<Rightarrow> [(''timestamp_value'', Some s)])"

definition flom_vfs_ram_tree_add_locker_conn ::
  "vfs_env \<Rightarrow> nat \<Rightarrow> nat \<Rightarrow> bool \<Rightarrow> string option \<Rightarrow> flom_lock_mode \<Rightarrow> int option \<Rightarrow> string option \<Rightarrow> string option
     \<Rightarrow> flom_vfs_ram_tree \<Rightarrow> rc \<times> flom_vfs_ram_tree" where
  "flom_vfs_ram_tree_add_locker_conn e locker_uid conn_uid is_holder peer_name lock_mode quantity sequence_value
     timestamp_value v =
     (if \<not> vfs_active v then (FLOM_RC_INACTIVE_FEATURE, v)
      else
        case flom_vfs_ram_tree_find_node_by_name v [] ''lockers'' of
          Inl rc \<Rightarrow> (rc, v)
        | Inr lockers_node \<Rightarrow>
            case flom_vfs_ram_tree_find_node_by_name v lockers_node (string_of_nat locker_uid) of
              Inl rc \<Rightarrow> (rc, v)
            | Inr specific_locker_node \<Rightarrow>
                case flom_vfs_ram_tree_find_node_by_name v specific_locker_node
                       (if is_holder then ''holders'' else ''waitings'') of
                  Inl rc \<Rightarrow> (rc, v)
                | Inr children_node \<Rightarrow>
                    case flom_vfs_ram_node_create e 0 (string_of_nat conn_uid) None of
                      None \<Rightarrow> (FLOM_RC_OK, v)
                    | Some d \<Rightarrow>
                        if \<not> ve_gnode e 0 then (FLOM_RC_OK, v)
                        else
                          case flom_vfs_ram_tree_update_mtime (ve_time e 6) children_node (append_data children_node d v) of
                            (rc, v1) \<Rightarrow>
                              if rc \<noteq> FLOM_RC_OK then (rc, v1)
                              else add_conn_files e 1 locker_uid conn_uid
                                     (conn_files peer_name lock_mode quantity sequence_value timestamp_value) v1)"

definition flom_vfs_ram_tree_del_conn :: "vfs_env \<Rightarrow> nat \<Rightarrow> bool \<Rightarrow> flom_vfs_ram_tree \<Rightarrow> rc \<times> flom_vfs_ram_tree" where
  "flom_vfs_ram_tree_del_conn e conn_uid incubating v =
     (if \<not> vfs_active v then (FLOM_RC_INACTIVE_FEATURE, v)
      else
        case flom_vfs_ram_tree_find_node_by_name v [] (if incubating then ''incubator'' else ''lockers'') of
          Inl rc \<Rightarrow> (rc, v)
        | Inr lockers_node \<Rightarrow>
            case flom_vfs_ram_tree_find_node_by_name v lockers_node (string_of_nat conn_uid) of
              Inl rc \<Rightarrow> (rc, v)
            | Inr specific_conn_node \<Rightarrow>
                case flom_vfs_ram_tree_find_parent v specific_conn_node of
                  None \<Rightarrow> (FLOM_RC_OBJ_NOT_FOUND_ERROR, v)
                | Some parent_node \<Rightarrow>
                    case flom_vfs_ram_tree_update_mtime (ve_time e 0) parent_node v of
                      (rc, v1) \<Rightarrow>
                        if rc \<noteq> FLOM_RC_OK then (rc, v1)
                        else (FLOM_RC_OK, flom_vfs_ram_tree_cleanup (Some specific_conn_node) v1))"

text \<open>
  A waiting connection becomes a holder: its node is unlinked from \<^verbatim>\<open>waitings\<close> and appended to
  \<^verbatim>\<open>holders\<close>.  The path of \<^verbatim>\<open>holders\<close> is not below the node that moves, so the node is appended
  while all paths are valid and unlinked then.
\<close>

definition flom_vfs_ram_tree_move_locker_conn :: "vfs_env \<Rightarrow> nat \<Rightarrow> flom_vfs_ram_tree \<Rightarrow> rc \<times> flom_vfs_ram_tree" where
  "flom_vfs_ram_tree_move_locker_conn e conn_uid v =
     (if \<not> vfs_active v then (FLOM_RC_INACTIVE_FEATURE, v)
      else
        case flom_vfs_ram_tree_find_node_by_name v [] ''lockers'' of
          Inl rc \<Rightarrow> (rc, v)
        | Inr lockers_node \<Rightarrow>
            case flom_vfs_ram_tree_find_node_by_name v lockers_node (string_of_nat conn_uid) of
              Inl rc \<Rightarrow> (rc, v)
            | Inr specific_conn_node \<Rightarrow>
                case flom_vfs_ram_tree_find_parent v specific_conn_node of
                  None \<Rightarrow> (FLOM_RC_OBJ_NOT_FOUND_ERROR, v)
                | Some parent_node \<Rightarrow>
                    if \<not> has_name ''waitings'' (vt_data (vt_get parent_node (the (vfs_root v))))
                    then (FLOM_RC_OBJ_CORRUPTED, v)
                    else
                      case flom_vfs_ram_tree_find_parent v parent_node of
                        None \<Rightarrow> (FLOM_RC_OBJ_NOT_FOUND_ERROR, v)
                      | Some grandparent_node \<Rightarrow>
                          case flom_vfs_ram_tree_find_node_by_name v grandparent_node ''holders'' of
                            Inl rc \<Rightarrow> (rc, v)
                          | Inr holders_node \<Rightarrow>
                              case flom_vfs_ram_tree_update_mtime (ve_time e 0) parent_node v of
                                (rc1, v1) \<Rightarrow>
                                  case flom_vfs_ram_tree_update_mtime (ve_time e 1) holders_node v1 of
                                    (rc2, v2) \<Rightarrow>
                                      case flom_vfs_ram_tree_update_mtime (ve_time e 2) specific_conn_node v2 of
                                        (rc3, v3) \<Rightarrow>
                                          let t = the (vfs_root v3) in
                                          (FLOM_RC_OK,
                                           set_tree (vt_unlink specific_conn_node
                                             (vt_append holders_node (vt_get specific_conn_node t) t)) v3))"

definition flom_vfs_ram_tree_add_file ::
  "vfs_env \<Rightarrow> nat \<Rightarrow> path \<Rightarrow> string \<Rightarrow> string option \<Rightarrow> flom_vfs_ram_tree \<Rightarrow> rc \<times> flom_vfs_ram_tree" where
  "flom_vfs_ram_tree_add_file e k dir file_name file_content v =
     (if file_content = None then (FLOM_RC_NULL_OBJECT, v)
      else case flom_vfs_ram_node_create e k file_name file_content of
             None \<Rightarrow> (FLOM_RC_INTERNAL_ERROR, v)
           | Some d \<Rightarrow> if \<not> ve_gnode e k then (FLOM_RC_INTERNAL_ERROR, v) else (FLOM_RC_OK, append_data dir d v))"

fun add_files :: "vfs_env \<Rightarrow> nat \<Rightarrow> path \<Rightarrow> (string \<times> string) list \<Rightarrow> flom_vfs_ram_tree \<Rightarrow> rc \<times> flom_vfs_ram_tree" where
  "add_files e k dir [] v = (FLOM_RC_OK, v)"
| "add_files e k dir ((name, content) # fs) v =
     (case flom_vfs_ram_tree_add_file e k dir name (Some content) v of
        (rc, v1) \<Rightarrow> if rc \<noteq> FLOM_RC_OK then (rc, v1) else add_files e (Suc k) dir fs v1)"

definition flom_vfs_ram_tree_add_incubator_conn ::
  "vfs_env \<Rightarrow> nat \<Rightarrow> string \<Rightarrow> string \<Rightarrow> string \<Rightarrow> flom_vfs_ram_tree \<Rightarrow> rc \<times> flom_vfs_ram_tree" where
  "flom_vfs_ram_tree_add_incubator_conn e conn_uid peer_name resource_name resource_type v =
     (if \<not> vfs_active v then (FLOM_RC_INACTIVE_FEATURE, v)
      else
        case flom_vfs_ram_tree_find_node_by_name v [] ''incubator'' of
          Inl rc \<Rightarrow> (rc, v)
        | Inr incubator_node \<Rightarrow>
            case flom_vfs_ram_node_create e 0 (string_of_nat conn_uid) None of
              None \<Rightarrow> (FLOM_RC_OK, v)
            | Some d \<Rightarrow>
                if \<not> ve_gnode e 0 then (FLOM_RC_OK, v)
                else
                  let v1 = append_data incubator_node d v; uid_dir = last_child incubator_node v1 in
                  case flom_vfs_ram_tree_update_mtime (ve_time e 4) incubator_node v1 of
                    (rc, v2) \<Rightarrow>
                      if rc \<noteq> FLOM_RC_OK then (rc, v2)
                      else add_files e 1 uid_dir
                             [(''peer_name'', print_line peer_name), (''resource_name'', print_line resource_name),
                              (''resource_type'', print_line resource_type)] v2)"

section \<open>Facts on trees\<close>

lemma vt_find_None:
  "vt_find P t = None \<longleftrightarrow> (\<forall>d \<in> set_vtree t. \<not> P d)"
  "vt_find_list P i ts = None \<longleftrightarrow> (\<forall>t \<in> set ts. \<forall>d \<in> set_vtree t. \<not> P d)"
  by (induction P t and P i ts rule: vt_find_vt_find_list.induct) (auto split: option.splits)

lemma vt_find_map:
  "vt_find P (map_vtree f t) = vt_find (P \<circ> f) t"
  "vt_find_list P i (map (map_vtree f) ts) = vt_find_list (P \<circ> f) i ts"
  by (induction "P \<circ> f" t and "P \<circ> f" i ts rule: vt_find_vt_find_list.induct) (simp_all split: option.split)

lemma vt_find_list_append:
  "vt_find_list P i (xs @ ys) =
     (case vt_find_list P i xs of Some p \<Rightarrow> Some p | None \<Rightarrow> vt_find_list P (i + length xs) ys)"
  by (induction xs arbitrary: i) (simp_all split: option.split)

lemma vt_find_list_at:
  assumes "\<forall>t \<in> set xs. \<forall>d \<in> set_vtree t. \<not> P d" "vt_find P t = Some p"
  shows "vt_find_list P i (xs @ t # ys) = Some ((i + length xs) # p)"
  using assms by (simp add: vt_find_list_append vt_find_None(2) [of P i xs, THEN iffD2])

fun vt_valid :: "path \<Rightarrow> 'a vtree \<Rightarrow> bool" where
  "vt_valid [] t = True"
| "vt_valid (i # p) t = (i < length (vt_children t) \<and> vt_valid p (vt_children t ! i))"

lemma vt_find_list_head:
  "vt_find_list P i ts = Some p \<Longrightarrow>
     \<exists>j q. p = (i + j) # q \<and> j < length ts \<and> vt_find P (ts ! j) = Some q"
proof (induction ts arbitrary: i)
  case (Cons t ts)
  show ?case
  proof (cases "vt_find P t")
    case None
    then obtain j q where "p = (Suc i + j) # q" "j < length ts" "vt_find P (ts ! j) = Some q"
      using Cons by fastforce
    then show ?thesis by (intro exI [of _ "Suc j"] exI [of _ q]) simp
  next
    case (Some q)
    then show ?thesis using Cons.prems by (intro exI [of _ 0] exI [of _ q]) simp
  qed
qed simp

lemma vt_find_sound:
  "vt_find P t = Some p \<Longrightarrow> vt_valid p t \<and> P (vt_data (vt_get p t))"
proof (induction p arbitrary: t)
  case Nil
  then show ?case by (cases t) (auto split: if_splits dest: vt_find_list_head)
next
  case (Cons i p)
  then show ?case by (cases t) (fastforce split: if_splits dest: vt_find_list_head)
qed

lemma vt_valid_append: "vt_valid (p @ q) t \<longleftrightarrow> vt_valid p t \<and> vt_valid q (vt_get p t)"
  by (induction p arbitrary: t) auto

lemma vt_get_append: "vt_get (p @ q) t = vt_get q (vt_get p t)"
  by (induction p arbitrary: t) auto

lemma vt_upd_append: "vt_upd (p @ q) f t = vt_upd p (vt_upd q f) t"
  by (induction p arbitrary: t) auto

lemma vt_children_map [simp]: "vt_children (map_vtree f t) = map (map_vtree f) (vt_children t)"
  by (cases t) simp

lemma vt_data_map [simp]: "vt_data (map_vtree f t) = f (vt_data t)"
  by (cases t) simp

lemma map_vtree_alt: "map_vtree f t = VNode (f (vt_data t)) (map (map_vtree f) (vt_children t))"
  by (cases t) simp

lemma vt_get_map: "vt_valid p t \<Longrightarrow> vt_get p (map_vtree f t) = map_vtree f (vt_get p t)"
  by (induction p arbitrary: t) auto

lemma vt_upd_map:
  assumes "\<And>t. map_vtree f (g t) = h (map_vtree f t)"
  shows "map_vtree f (vt_upd p g t) = vt_upd p h (map_vtree f t)"
proof (induction p arbitrary: t)
  case (Cons i p)
  show ?case
    by (cases "i < length (vt_children t)") (simp_all add: Cons.IH map_update list_update_beyond map_vtree_alt [of f t])
qed (simp add: assms)

lemma vt_upd_same: "vt_upd p (\<lambda>t. t) t = t"
  by (induction p arbitrary: t) simp_all

lemma vt_append_map: "map_vtree f (vt_append p c t) = vt_append p (map_vtree f c) (map_vtree f t)"
  unfolding vt_append_def by (rule vt_upd_map) (simp add: map_vtree_alt)

lemma vt_prepend_map: "map_vtree f (vt_prepend p c t) = vt_prepend p (map_vtree f c) (map_vtree f t)"
  unfolding vt_prepend_def by (rule vt_upd_map) (simp add: map_vtree_alt)

lemma vt_unlink_map: "map_vtree f (vt_unlink p t) = vt_unlink p (map_vtree f t)"
  unfolding vt_unlink_def by (rule vt_upd_map) (simp add: map_vtree_alt take_map drop_map)

lemma vt_upd_data_map:
  assumes "\<And>d. f (g d) = f d"
  shows "map_vtree f (vt_upd p (\<lambda>t. VNode (g (vt_data t)) (vt_children t)) t) = map_vtree f t"
  by (subst vt_upd_map [where h = "\<lambda>t. t"]) (simp_all add: map_vtree_alt assms vt_upd_same)

section \<open>What the tree stands for\<close>

text \<open>
  The abstract directory: the connections in the incubator and the lockers, each with its
  holders and waiting clients; a connection has a list of files.
\<close>

type_synonym vfs_conn = "nat \<times> (string \<times> string) list"

record vfs_locker =
  vl_uid :: nat
  vl_name :: string
  vl_type :: string
  vl_holders :: "vfs_conn list"
  vl_waitings :: "vfs_conn list"

record vfs_dir =
  vd_incubator :: "vfs_conn list"
  vd_lockers :: "vfs_locker list"

type_synonym shape = "(string \<times> string option) option vtree"

definition dir_node :: "string \<Rightarrow> shape list \<Rightarrow> shape" where
  "dir_node name ts = VNode (Some (name, None)) ts"

definition file_node :: "string \<times> string \<Rightarrow> shape" where
  "file_node f = VNode (Some (fst f, Some (snd f))) []"

definition conn_node :: "vfs_conn \<Rightarrow> shape" where
  "conn_node c = dir_node (string_of_nat (fst c)) (map file_node (snd c))"

definition locker_node :: "vfs_locker \<Rightarrow> shape" where
  "locker_node l = dir_node (string_of_nat (vl_uid l))
     [file_node (''resource_name'', vl_name l), file_node (''resource_type'', vl_type l),
      dir_node ''holders'' (map conn_node (vl_holders l)), dir_node ''waitings'' (map conn_node (vl_waitings l))]"

definition conc :: "vfs_dir \<Rightarrow> shape" where
  "conc a = dir_node ''/'' [dir_node ''status''
     [dir_node ''incubator'' (map conn_node (vd_incubator a)), dir_node ''lockers'' (map locker_node (vd_lockers a))]]"

text \<open>The tree without inode numbers and times.\<close>

definition node_shape :: "flom_vfs_ram_node option \<Rightarrow> (string \<times> string option) option" where
  "node_shape = map_option (\<lambda>n. (rn_name n, rn_content n))"

definition shows_dir :: "flom_vfs_ram_tree \<Rightarrow> vfs_dir \<Rightarrow> bool" where
  "shows_dir v a \<longleftrightarrow> vfs_active v \<and> map_option (map_vtree node_shape) (vfs_root v) = Some (conc a)"

definition file_names :: "string list" where
  "file_names = [''resource_name'', ''resource_type'', ''peer_name'', ''lock_mode'', ''quantity'',
                 ''sequence_value'', ''timestamp_value'']"

definition conns_of_locker :: "vfs_locker \<Rightarrow> nat list" where
  "conns_of_locker l = map fst (vl_holders l) @ map fst (vl_waitings l)"

definition files_named :: "vfs_conn list \<Rightarrow> bool" where
  "files_named cs = list_all (\<lambda>c. list_all (\<lambda>f. fst f \<in> set file_names) (snd c)) cs"

definition dir_uids :: "vfs_dir \<Rightarrow> nat list" where
  "dir_uids a = concat (map (\<lambda>l. vl_uid l # conns_of_locker l) (vd_lockers a))"

definition dir_ok :: "vfs_dir \<Rightarrow> bool" where
  "dir_ok a \<longleftrightarrow> distinct (dir_uids a) \<and> distinct (map fst (vd_incubator a)) \<and> files_named (vd_incubator a) \<and>
     list_all (\<lambda>l. files_named (vl_holders l) \<and> files_named (vl_waitings l)) (vd_lockers a)"

text \<open>The changes of the directory.\<close>

datatype vfs_op =
    Add_locker nat string string
  | Del_locker nat
  | Add_locker_conn nat nat bool "string option" flom_lock_mode "int option" "string option" "string option"
  | Add_locker_conn_file nat nat string string
  | Move_locker_conn nat
  | Del_conn nat bool
  | Add_incubator_conn nat string string string

definition on_locker :: "nat \<Rightarrow> (vfs_locker \<Rightarrow> vfs_locker) \<Rightarrow> vfs_dir \<Rightarrow> vfs_dir" where
  "on_locker u f a = a\<lparr>vd_lockers := map (\<lambda>l. if vl_uid l = u then f l else l) (vd_lockers a)\<rparr>"

definition present_files :: "(string \<times> string option) list \<Rightarrow> (string \<times> string) list" where
  "present_files fs = map (\<lambda>f. (fst f, the (snd f))) (takeWhile (\<lambda>f. snd f \<noteq> None) fs)"

definition add_file_to :: "nat \<Rightarrow> string \<times> string \<Rightarrow> vfs_conn list \<Rightarrow> vfs_conn list" where
  "add_file_to c f cs = map (\<lambda>x. if fst x = c then (fst x, snd x @ [f]) else x) cs"

fun dir_step :: "vfs_op \<Rightarrow> vfs_dir \<Rightarrow> vfs_dir" where
  "dir_step (Add_locker u name type) a =
     a\<lparr>vd_lockers := vd_lockers a @ [\<lparr> vl_uid = u, vl_name = print_line name, vl_type = print_line type,
                                        vl_holders = [], vl_waitings = [] \<rparr>]\<rparr>"
| "dir_step (Del_locker u) a = a\<lparr>vd_lockers := filter (\<lambda>l. vl_uid l \<noteq> u) (vd_lockers a)\<rparr>"
| "dir_step (Add_locker_conn u c is_holder peer mode quantity seq ts) a =
     on_locker u (\<lambda>l. let x = (c, present_files (conn_files peer mode quantity seq ts)) in
       if is_holder then l\<lparr>vl_holders := vl_holders l @ [x]\<rparr> else l\<lparr>vl_waitings := vl_waitings l @ [x]\<rparr>) a"
| "dir_step (Add_locker_conn_file u c name content) a =
     on_locker u (\<lambda>l. l\<lparr>vl_holders := add_file_to c (name, content) (vl_holders l),
                       vl_waitings := add_file_to c (name, content) (vl_waitings l)\<rparr>) a"
| "dir_step (Move_locker_conn c) a =
     a\<lparr>vd_lockers := map (\<lambda>l. l\<lparr>vl_holders := vl_holders l @ filter (\<lambda>x. fst x = c) (vl_waitings l),
                                vl_waitings := filter (\<lambda>x. fst x \<noteq> c) (vl_waitings l)\<rparr>) (vd_lockers a)\<rparr>"
| "dir_step (Del_conn c incubating) a =
     (if incubating then a\<lparr>vd_incubator := filter (\<lambda>x. fst x \<noteq> c) (vd_incubator a)\<rparr>
      else a\<lparr>vd_lockers := map (\<lambda>l. l\<lparr>vl_holders := filter (\<lambda>x. fst x \<noteq> c) (vl_holders l),
                                     vl_waitings := filter (\<lambda>x. fst x \<noteq> c) (vl_waitings l)\<rparr>) (vd_lockers a)\<rparr>)"
| "dir_step (Add_incubator_conn c peer name type) a =
     a\<lparr>vd_incubator := vd_incubator a @
        [(c, [(''peer_name'', print_line peer), (''resource_name'', print_line name), (''resource_type'', print_line type)])]\<rparr>"

text \<open>The identifiers come from one counter of the daemon: a new one is not in the directory.\<close>

fun op_ok :: "vfs_op \<Rightarrow> vfs_dir \<Rightarrow> bool" where
  "op_ok (Add_locker u name type) a = (u \<notin> set (dir_uids a))"
| "op_ok (Del_locker u) a = (u \<in> set (map vl_uid (vd_lockers a)))"
| "op_ok (Add_locker_conn u c is_holder peer mode quantity seq ts) a =
     (u \<in> set (map vl_uid (vd_lockers a)) \<and> c \<notin> set (dir_uids a))"
| "op_ok (Add_locker_conn_file u c name content) a =
     (u \<in> set (map vl_uid (vd_lockers a)) \<and> c \<notin> set (map vl_uid (vd_lockers a)) \<and> name \<in> set file_names)"
| "op_ok (Move_locker_conn c) a = (c \<notin> set (map vl_uid (vd_lockers a)))"
| "op_ok (Del_conn c incubating) a = (incubating \<or> c \<notin> set (map vl_uid (vd_lockers a)))"
| "op_ok (Add_incubator_conn c peer name type) a = (c \<notin> set (map fst (vd_incubator a)))"

text \<open>The operation of the code.\<close>

fun vfs_step :: "vfs_env \<Rightarrow> vfs_op \<Rightarrow> flom_vfs_ram_tree \<Rightarrow> rc \<times> flom_vfs_ram_tree" where
  "vfs_step e (Add_locker u name type) v = flom_vfs_ram_tree_add_locker e u name type v"
| "vfs_step e (Del_locker u) v = flom_vfs_ram_tree_del_locker u v"
| "vfs_step e (Add_locker_conn u c is_holder peer mode quantity seq ts) v =
     flom_vfs_ram_tree_add_locker_conn e u c is_holder peer mode quantity seq ts v"
| "vfs_step e (Add_locker_conn_file u c name content) v =
     flom_vfs_ram_tree_add_locker_conn_file e 0 u c name (Some content) v"
| "vfs_step e (Move_locker_conn c) v = flom_vfs_ram_tree_move_locker_conn e c v"
| "vfs_step e (Del_conn c incubating) v = flom_vfs_ram_tree_del_conn e c incubating v"
| "vfs_step e (Add_incubator_conn c peer name type) v = flom_vfs_ram_tree_add_incubator_conn e c peer name type v"

definition allocs_ok :: "vfs_env \<Rightarrow> bool" where
  "allocs_ok e \<longleftrightarrow> (\<forall>k. ve_block e k \<noteq> None \<and> ve_gnode e k)"

section \<open>The operations on the shape of the tree\<close>

definition shape_is :: "flom_vfs_ram_tree \<Rightarrow> shape \<Rightarrow> bool" where
  "shape_is v s \<longleftrightarrow> vfs_active v \<and> map_option (map_vtree node_shape) (vfs_root v) = Some s"

definition named :: "string \<Rightarrow> (string \<times> string option) option \<Rightarrow> bool" where
  "named name d = (case d of None \<Rightarrow> False | Some n \<Rightarrow> fst n = name)"

definition shape_find :: "shape \<Rightarrow> path \<Rightarrow> string \<Rightarrow> rc + path" where
  "shape_find s start name =
     (case vt_find (named name) (vt_get start s) of
        None \<Rightarrow> Inl FLOM_RC_OBJ_NOT_FOUND_ERROR | Some p \<Rightarrow> Inr (start @ p))"

lemma named_shape: "named name (node_shape d) = has_name name d"
  by (cases d) (simp_all add: named_def node_shape_def has_name_def)

lemma named_comp: "named name \<circ> node_shape = has_name name"
  by (simp add: fun_eq_iff named_shape)

lemma vt_valid_map [simp]: "vt_valid p (map_vtree f t) = vt_valid p t"
  by (induction p arbitrary: t) (simp_all cong: conj_cong)

lemma shape_isE:
  assumes "shape_is v s"
  obtains t where "vfs_active v" "vfs_root v = Some t" "s = map_vtree node_shape t"
  using assms by (auto simp: shape_is_def)

lemma shape_active: "shape_is v s \<Longrightarrow> vfs_active v"
  by (simp add: shape_is_def)

lemma shape_find_node:
  assumes "shape_is v s" "vt_valid start s"
  shows "flom_vfs_ram_tree_find_node_by_name v start name = shape_find s start name"
proof -
  obtain t where t: "vfs_active v" "vfs_root v = Some t" "s = map_vtree node_shape t"
    using assms(1) by (rule shape_isE)
  then have "vt_get start s = map_vtree node_shape (vt_get start t)" using assms(2) by (simp add: vt_get_map)
  then have "vt_find (named name) (vt_get start s) = vt_find (has_name name) (vt_get start t)"
    by (simp add: vt_find_map named_comp)
  then show ?thesis using t(1,2) by (simp add: flom_vfs_ram_tree_find_node_by_name_def shape_find_def)
qed

lemma shape_append:
  "shape_is v s \<Longrightarrow> shape_is (append_data p d v) (vt_append p (VNode (Some (rn_name d, rn_content d)) []) s)"
  by (elim shape_isE)
     (simp add: shape_is_def append_data_def set_tree_def vt_append_map leaf_def node_shape_def)

lemma shape_mtime:
  assumes "shape_is v s"
  shows "\<exists>v'. flom_vfs_ram_tree_update_mtime now p v = (FLOM_RC_OK, v') \<and> shape_is v' s"
proof -
  have "node_shape (map_option (rn_mtime_update (\<lambda>_. now)) d) = node_shape d" for d
    by (cases d) (simp_all add: node_shape_def)
  then show ?thesis
    using assms
    by (elim shape_isE)
       (simp add: shape_is_def flom_vfs_ram_tree_update_mtime_def set_tree_def
          vt_upd_data_map [where g = "map_option (rn_mtime_update (\<lambda>_. now))"])
qed

lemma shape_cleanup:
  "shape_is v s \<Longrightarrow> p \<noteq> [] \<Longrightarrow> shape_is (flom_vfs_ram_tree_cleanup (Some p) v) (vt_unlink p s)"
  by (elim shape_isE) (simp add: shape_is_def flom_vfs_ram_tree_cleanup_def vt_unlink_map)

lemma shape_parent:
  assumes "shape_is v s" "vt_valid p s" "vt_data (vt_get p s) \<noteq> None"
  shows "flom_vfs_ram_tree_find_parent v p = Some (butlast p)"
  using assms
  by (elim shape_isE) (simp add: flom_vfs_ram_tree_find_parent_def vt_get_map node_shape_def)

lemma shape_last_child:
  "shape_is v s \<Longrightarrow> vt_valid p s \<Longrightarrow> last_child p v = p @ [length (vt_children (vt_get p s)) - 1]"
  by (elim shape_isE) (simp add: last_child_def vt_get_map)

lemma shape_has_name:
  "shape_is v s \<Longrightarrow> vt_valid p s \<Longrightarrow> has_name name (vt_data (vt_get p (the (vfs_root v)))) = named name (vt_data (vt_get p s))"
  by (elim shape_isE) (simp add: vt_get_map named_shape)

lemma shape_move:
  assumes "shape_is v s" "vt_valid p s"
  shows "shape_is (set_tree (vt_unlink p (vt_append q (vt_get p (the (vfs_root v))) (the (vfs_root v)))) v)
           (vt_unlink p (vt_append q (vt_get p s) s))"
  using assms
  by (elim shape_isE) (simp add: shape_is_def set_tree_def vt_unlink_map vt_append_map vt_get_map)

lemma create_ok:
  assumes "allocs_ok e"
  shows "\<exists>d. flom_vfs_ram_node_create e k name content = Some d \<and> rn_name d = name \<and> rn_content d = content"
proof -
  obtain i where "ve_block e k = Some i" using assms by (auto simp: allocs_ok_def)
  then show ?thesis by (simp add: flom_vfs_ram_node_create_def)
qed

text \<open>The failing allocations are gone and the paths are searched in the shape.\<close>

lemma shape_entries:
  assumes "allocs_ok e" "shape_is v s"
  shows "\<exists>v'. add_entries e k p es v = (FLOM_RC_OK, v') \<and>
    shape_is v' (foldl (\<lambda>s f. vt_append p (VNode (Some f) []) s) s es)"
  using assms(2)
proof (induction es arbitrary: k v s)
  case (Cons x es)
  obtain name content where x: "x = (name, content)" by (cases x)
  obtain d where d: "flom_vfs_ram_node_create e k name content = Some d" "rn_name d = name" "rn_content d = content"
    using create_ok [OF assms(1)] by blast
  have "ve_gnode e k" using assms(1) by (simp add: allocs_ok_def)
  then show ?case
    using Cons.IH [OF shape_append [OF Cons.prems, of p d]] d x by simp
qed simp

lemma shape_files:
  assumes "allocs_ok e" "shape_is v s"
  shows "\<exists>v'. add_files e k p fs v = (FLOM_RC_OK, v') \<and>
    shape_is v' (foldl (\<lambda>s f. vt_append p (file_node f) s) s fs)"
  using assms(2)
proof (induction fs arbitrary: k v s)
  case (Cons x fs)
  obtain name content where x: "x = (name, content)" by (cases x)
  obtain d where d: "flom_vfs_ram_node_create e k name (Some content) = Some d" "rn_name d = name" "rn_content d = Some content"
    using create_ok [OF assms(1)] by blast
  have "ve_gnode e k" using assms(1) by (simp add: allocs_ok_def)
  then show ?case
    using Cons.IH [OF shape_append [OF Cons.prems, of p d]] d x
    by (simp add: flom_vfs_ram_tree_add_file_def file_node_def)
qed simp

section \<open>Searches in the directory\<close>

lemma string_of_nat_inj [simp]: "string_of_nat m = string_of_nat n \<longleftrightarrow> m = n"
  by (metis string_of_nat_value)

lemma string_of_nat_not_word:
  "\<not> is_digit c \<Longrightarrow> string_of_nat n \<noteq> c # s" "\<not> is_digit c \<Longrightarrow> c # s \<noteq> string_of_nat n"
  using string_of_nat_digits [of n] by (metis list.set_intros(1))+

lemma named_Some [simp]: "named name (Some n) \<longleftrightarrow> fst n = name"
  by (simp add: named_def)

definition tree_names :: "shape \<Rightarrow> string set" where
  "tree_names t = {name. \<exists>d \<in> set_vtree t. named name d}"

lemma find_fails: "name \<notin> tree_names t \<Longrightarrow> vt_find (named name) t = None"
  by (simp add: vt_find_None tree_names_def)

lemma find_list_fails: "\<forall>t \<in> set ts. name \<notin> tree_names t \<Longrightarrow> vt_find_list (named name) i ts = None"
  by (simp add: vt_find_None tree_names_def)

lemma find_list_at:
  assumes "\<forall>t \<in> set xs. name \<notin> tree_names t" "vt_find (named name) t = Some p"
  shows "vt_find_list (named name) i (xs @ t # ys) = Some ((i + length xs) # p)"
  using assms by (intro vt_find_list_at) (auto simp: tree_names_def)

lemma tree_names_dir [simp]: "tree_names (dir_node n ts) = insert n (\<Union>t \<in> set ts. tree_names t)"
  by (auto simp: tree_names_def dir_node_def named_def)

lemma tree_names_file [simp]: "tree_names (file_node f) = {fst f}"
  by (auto simp: tree_names_def file_node_def named_def)

lemma tree_names_conn: "tree_names (conn_node c) = insert (string_of_nat (fst c)) (fst ` set (snd c))"
  by (auto simp: conn_node_def)

lemma find_dir:
  "vt_find (named name) (dir_node n ts) = (if n = name then Some [] else vt_find_list (named name) 0 ts)"
  by (simp add: dir_node_def)

lemma find_file: "vt_find (named name) (file_node f) = (if fst f = name then Some [] else None)"
  by (simp add: file_node_def)

definition reserved :: "string \<Rightarrow> bool" where
  "reserved name \<longleftrightarrow> name \<in> {''lockers'', ''incubator'', ''holders'', ''waitings'', ''/'', ''status''}"

lemma file_name_word: "f \<in> set file_names \<Longrightarrow> \<not> reserved f"
  by (auto simp: file_names_def reserved_def)

lemma file_name_not_number: "f \<in> set file_names \<Longrightarrow> f \<noteq> string_of_nat u"
  by (auto simp: file_names_def is_digit_def string_of_nat_not_word)

lemma reserved_not_number: "reserved f \<Longrightarrow> f \<noteq> string_of_nat u"
  by (auto simp: reserved_def is_digit_def string_of_nat_not_word)

lemma conn_names:
  assumes "files_named cs" "c \<in> set cs"
  shows "reserved name \<Longrightarrow> name \<notin> tree_names (conn_node c)"
    and "string_of_nat u \<in> tree_names (conn_node c) \<longleftrightarrow> u = fst c"
proof -
  have files: "f \<in> set file_names" if "f \<in> fst ` set (snd c)" for f
    using assms that by (auto simp: files_named_def list_all_iff)
  show "reserved name \<Longrightarrow> name \<notin> tree_names (conn_node c)"
    unfolding tree_names_conn using files file_name_word reserved_not_number by blast
  show "string_of_nat u \<in> tree_names (conn_node c) \<longleftrightarrow> u = fst c"
    unfolding tree_names_conn using files file_name_not_number string_of_nat_inj by blast
qed

lemma conns_names:
  assumes "files_named cs"
  shows "reserved name \<Longrightarrow> name \<notin> (\<Union>t \<in> set (map conn_node cs). tree_names t)"
    and "string_of_nat u \<in> (\<Union>t \<in> set (map conn_node cs). tree_names t) \<longleftrightarrow> u \<in> set (map fst cs)"
  using conn_names [OF assms] by auto

lemma locker_names:
  assumes "files_named (vl_holders l)" "files_named (vl_waitings l)"
  shows "string_of_nat u \<in> tree_names (locker_node l) \<longleftrightarrow> u = vl_uid l \<or> u \<in> set (conns_of_locker l)"
proof -
  have "string_of_nat u \<noteq> n" if "n \<in> {''resource_name'', ''resource_type'', ''holders'', ''waitings''}" for n
    using that by (auto simp: is_digit_def string_of_nat_not_word)
  then show ?thesis
    using conns_names(2) [OF assms(1)] conns_names(2) [OF assms(2)]
    by (simp add: locker_node_def conns_of_locker_def)
qed

abbreviation uids_of :: "vfs_locker \<Rightarrow> nat list" where
  "uids_of l \<equiv> vl_uid l # conns_of_locker l"

lemma dir_ok_locker:
  "dir_ok a \<Longrightarrow> l \<in> set (vd_lockers a) \<Longrightarrow> files_named (vl_holders l) \<and> files_named (vl_waitings l)"
  by (simp add: dir_ok_def list_all_iff)

lemma dir_ok_earlier:
  assumes "dir_ok a" "vd_lockers a = xs @ l # ys" "u \<in> set (uids_of l)" "l' \<in> set xs \<union> set ys"
  shows "u \<notin> set (uids_of l')"
proof -
  have "distinct (concat (map uids_of (xs @ l # ys)))"
    using assms(1,2) by (simp add: dir_ok_def dir_uids_def)
  then have "set (uids_of l) \<inter> set (concat (map uids_of xs)) = {}" "set (uids_of l) \<inter> set (concat (map uids_of ys)) = {}"
    by auto
  then show ?thesis using assms(3,4) by auto
qed

lemma shape_find_top:
  assumes "dir_ok a"
  shows "shape_find (conc a) [] ''lockers'' = Inr [0, 1]" "shape_find (conc a) [] ''incubator'' = Inr [0, 0]"
proof -
  have "\<forall>t \<in> set (map conn_node (vd_incubator a)). ''lockers'' \<notin> tree_names t"
    using conns_names(1) [of "vd_incubator a" "''lockers''"] assms by (auto simp: dir_ok_def reserved_def)
  then have "vt_find_list (named ''lockers'') 0 (map conn_node (vd_incubator a)) = None"
    by (rule find_list_fails)
  then show "shape_find (conc a) [] ''lockers'' = Inr [0, 1]"
    by (simp add: shape_find_def conc_def find_dir)
  show "shape_find (conc a) [] ''incubator'' = Inr [0, 0]"
    by (simp add: shape_find_def conc_def find_dir)
qed

lemma vt_get_lockers: "vt_get [0, 1] (conc a) = dir_node ''lockers'' (map locker_node (vd_lockers a))"
  "vt_get [0, 0] (conc a) = dir_node ''incubator'' (map conn_node (vd_incubator a))"
  by (simp_all add: conc_def dir_node_def)

lemma vt_get_locker:
  "vd_lockers a = xs @ l # ys \<Longrightarrow> vt_get [0, 1, length xs] (conc a) = locker_node l"
  by (simp add: conc_def dir_node_def nth_append)

lemma shape_find_in_lockers:
  assumes "dir_ok a" "vd_lockers a = xs @ l # ys" "u \<in> set (uids_of l)"
    and "vt_find (named (string_of_nat u)) (locker_node l) = Some p"
  shows "shape_find (conc a) [0, 1] (string_of_nat u) = Inr (0 # 1 # length xs # p)"
proof -
  have "\<forall>t \<in> set (map locker_node xs). string_of_nat u \<notin> tree_names t"
    using dir_ok_earlier [OF assms(1-3)] dir_ok_locker [OF assms(1)] assms(2)
    by (auto simp: locker_names)
  then have "vt_find_list (named (string_of_nat u)) 0 (map locker_node xs @ locker_node l # map locker_node ys) =
      Some (length xs # p)"
    using find_list_at [OF _ assms(4), of "map locker_node xs" 0] by simp
  then show ?thesis
    unfolding shape_find_def vt_get_lockers
    using assms(2) string_of_nat_not_word(2) [of "CHR ''l''" "''ockers''" u]
    by (simp add: find_dir is_digit_def)
qed

lemma shape_find_locker:
  assumes "dir_ok a" "vd_lockers a = xs @ l # ys"
  shows "shape_find (conc a) [0, 1] (string_of_nat (vl_uid l)) = Inr [0, 1, length xs]"
  by (rule shape_find_in_lockers [OF assms]) (simp_all add: locker_node_def find_dir)

lemma shape_find_section:
  assumes "dir_ok a" "vd_lockers a = xs @ l # ys"
  shows "shape_find (conc a) [0, 1, length xs] ''holders'' = Inr [0, 1, length xs, 2]"
    and "shape_find (conc a) [0, 1, length xs] ''waitings'' = Inr [0, 1, length xs, 3]"
proof -
  have num: "string_of_nat u \<noteq> ''holders''" "string_of_nat u \<noteq> ''waitings''" for u
    using string_of_nat_not_word by (simp_all add: is_digit_def)
  have "files_named (vl_holders l)" using dir_ok_locker [OF assms(1)] assms(2) by simp
  then have "vt_find_list (named ''waitings'') 0 (map conn_node (vl_holders l)) = None"
    using conns_names(1) [of "vl_holders l" "''waitings''"] by (intro find_list_fails) (auto simp: reserved_def)
  then show "shape_find (conc a) [0, 1, length xs] ''holders'' = Inr [0, 1, length xs, 2]"
    and "shape_find (conc a) [0, 1, length xs] ''waitings'' = Inr [0, 1, length xs, 3]"
    unfolding shape_find_def vt_get_locker [OF assms(2)]
    by (simp_all add: locker_node_def find_dir find_file num num [symmetric])
qed

lemma find_conn_list:
  assumes "files_named cs" "cs = as @ (c, fs) # bs" "c \<notin> set (map fst as)"
  shows "vt_find_list (named (string_of_nat c)) 0 (map conn_node cs) = Some [length as]"
proof -
  have "\<forall>t \<in> set (map conn_node as). string_of_nat c \<notin> tree_names t"
  proof
    fix t assume "t \<in> set (map conn_node as)"
    then obtain x where x: "t = conn_node x" "x \<in> set as" by auto
    then have "fst x \<noteq> c" using assms(3) by auto
    then show "string_of_nat c \<notin> tree_names t"
      using conn_names(2) [OF assms(1), of x c] x assms(2) by simp
  qed
  moreover have "vt_find (named (string_of_nat c)) (conn_node (c, fs)) = Some []"
    by (simp add: conn_node_def find_dir)
  ultimately show ?thesis
    using find_list_at [of "map conn_node as" "string_of_nat c" "conn_node (c, fs)" "[]" 0] assms(2) by simp
qed

lemma find_conn_in_locker:
  assumes "files_named (vl_holders l)" "files_named (vl_waitings l)" "c \<noteq> vl_uid l"
  shows "vl_holders l = as @ (c, fs) # bs \<Longrightarrow> c \<notin> set (map fst as) \<Longrightarrow>
           vt_find (named (string_of_nat c)) (locker_node l) = Some [2, length as]"
    and "vl_waitings l = as @ (c, fs) # bs \<Longrightarrow> c \<notin> set (map fst as) \<Longrightarrow> c \<notin> set (map fst (vl_holders l)) \<Longrightarrow>
           vt_find (named (string_of_nat c)) (locker_node l) = Some [3, length as]"
proof -
  have num: "string_of_nat u \<noteq> n" "n \<noteq> string_of_nat u"
    if "n \<in> {''resource_name'', ''resource_type'', ''holders'', ''waitings''}" for n u
    using that by (auto simp: is_digit_def string_of_nat_not_word)
  show "vt_find (named (string_of_nat c)) (locker_node l) = Some [2, length as]"
    if "vl_holders l = as @ (c, fs) # bs" "c \<notin> set (map fst as)"
    using find_conn_list [OF assms(1) that] assms(3)
    by (simp add: locker_node_def find_dir find_file num)
  show "vt_find (named (string_of_nat c)) (locker_node l) = Some [3, length as]"
    if "vl_waitings l = as @ (c, fs) # bs" "c \<notin> set (map fst as)" "c \<notin> set (map fst (vl_holders l))"
  proof -
    have "vt_find_list (named (string_of_nat c)) 0 (map conn_node (vl_holders l)) = None"
      using conns_names(2) [OF assms(1), of c] that(3) by (intro find_list_fails) auto
    then show ?thesis
      using find_conn_list [OF assms(2) that(1,2)] assms(3)
      by (simp add: locker_node_def find_dir find_file num)
  qed
qed

lemma shape_find_nowhere:
  assumes "dir_ok a" "u \<notin> set (dir_uids a)"
  shows "shape_find (conc a) [0, 1] (string_of_nat u) = Inl FLOM_RC_OBJ_NOT_FOUND_ERROR"
proof -
  have "vt_find_list (named (string_of_nat u)) 0 (map locker_node (vd_lockers a)) = None"
    using assms(2) dir_ok_locker [OF assms(1)] by (intro find_list_fails) (auto simp: locker_names dir_uids_def)
  then show ?thesis
    unfolding shape_find_def vt_get_lockers
    using string_of_nat_not_word(2) [of "CHR ''l''" "''ockers''" u]
    by (simp add: find_dir is_digit_def)
qed

section \<open>The operations refine the changes of the directory\<close>

lemma conc_valid [simp]: "vt_valid [] t" "vt_valid [0, 1] (conc a)" "vt_valid [0, 0] (conc a)"
  "vd_lockers a = xs @ l # ys \<Longrightarrow> vt_valid [0, 1, length xs] (conc a)"
  "vd_lockers a = xs @ l # ys \<Longrightarrow> vt_valid [0, 1, length xs, 2] (conc a)"
  "vd_lockers a = xs @ l # ys \<Longrightarrow> vt_valid [0, 1, length xs, 3] (conc a)"
  by (simp_all add: conc_def dir_node_def nth_append locker_node_def)

lemmas path_simps = vt_valid.simps(2) vt_get.simps(2)

declare path_simps [simp del]

lemma upd_locker:
  assumes "vd_lockers a = xs @ l # ys" "vt_upd p f (locker_node l) = locker_node l'"
  shows "vt_upd (0 # 1 # length xs # p) f (conc a) = conc (a\<lparr>vd_lockers := xs @ l' # ys\<rparr>)"
  using assms by (simp add: conc_def dir_node_def nth_append list_update_append)

lemma unlink_in_locker:
  "p \<noteq> [] \<Longrightarrow> vt_unlink (0 # 1 # length xs # p) s =
     vt_upd (0 # 1 # length xs # butlast p)
       (\<lambda>t. VNode (vt_data t) (take (last p) (vt_children t) @ drop (Suc (last p)) (vt_children t))) s"
  by (simp add: vt_unlink_def)

lemma map_on_locker:
  assumes "dir_ok a" "vd_lockers a = xs @ l # ys"
  shows "on_locker (vl_uid l) f a = a\<lparr>vd_lockers := xs @ f l # ys\<rparr>"
proof -
  have "vl_uid l' \<noteq> vl_uid l" if "l' \<in> set xs \<union> set ys" for l'
    using dir_ok_earlier [OF assms, of "vl_uid l"] that by force
  then show ?thesis using assms(2) by (simp add: on_locker_def map_idI)
qed

lemma filter_absent: "c \<notin> set (map fst cs) \<Longrightarrow> filter (\<lambda>x. fst x \<noteq> c) cs = cs"
  "c \<notin> set (map fst cs) \<Longrightarrow> filter (\<lambda>x. fst x = c) cs = []"
  by (induction cs) auto

lemma map_on_conn_locker:
  assumes "dir_ok a" "vd_lockers a = xs @ l # ys" "c \<in> set (conns_of_locker l)"
    and "\<And>l'. c \<notin> set (conns_of_locker l') \<Longrightarrow> f l' = l'"
  shows "map f (vd_lockers a) = xs @ f l # ys"
proof -
  have "f l' = l'" if "l' \<in> set xs \<union> set ys" for l'
    using dir_ok_earlier [OF assms(1,2), of c l'] assms(3) assms(4) [of l'] that by auto
  then show ?thesis using assms(2) by (simp add: map_idI)
qed

lemma locker_dest:
  assumes "u \<in> set (map vl_uid (vd_lockers a))"
  obtains xs l ys where "vd_lockers a = xs @ l # ys" "vl_uid l = u"
  using assms by (auto dest: split_list)

lemma dir_uids_cases:
  assumes "c \<in> set (dir_uids a)" "c \<notin> set (map vl_uid (vd_lockers a))"
  obtains xs l ys where "vd_lockers a = xs @ l # ys" "c \<in> set (conns_of_locker l)" "c \<noteq> vl_uid l"
proof -
  obtain l where l: "l \<in> set (vd_lockers a)" "c \<in> set (conns_of_locker l)" "c \<noteq> vl_uid l"
    using assms by (auto simp: dir_uids_def)
  from split_list [OF l(1)] show ?thesis using l(2,3) that by blast
qed

lemma conns_cases:
  assumes "c \<in> set (conns_of_locker l)" "distinct (conns_of_locker l)"
  obtains (holder) as fs bs where "vl_holders l = as @ (c, fs) # bs" "c \<notin> set (map fst as)"
      "c \<notin> set (map fst bs)" "c \<notin> set (map fst (vl_waitings l))"
    | (waiting) as fs bs where "vl_waitings l = as @ (c, fs) # bs" "c \<notin> set (map fst as)"
      "c \<notin> set (map fst bs)" "c \<notin> set (map fst (vl_holders l))"
proof -
  have dist: "distinct (map fst (vl_holders l))" "distinct (map fst (vl_waitings l))"
    "set (map fst (vl_holders l)) \<inter> set (map fst (vl_waitings l)) = {}"
    using assms(2) by (simp_all add: conns_of_locker_def)
  have split: "\<exists>as fs bs. cs = as @ (c, fs) # bs \<and> c \<notin> set (map fst as) \<and> c \<notin> set (map fst bs)"
    if mem: "c \<in> set (map fst cs)" and uniq: "distinct (map fst cs)" for cs :: "vfs_conn list"
  proof -
    obtain fs where "(c, fs) \<in> set cs" using mem by auto
    then obtain as bs where "cs = as @ (c, fs) # bs" by (auto dest: split_list)
    then show ?thesis using uniq by auto
  qed
  show ?thesis
  proof (cases "c \<in> set (map fst (vl_holders l))")
    case True
    then show ?thesis using split [OF True dist(1)] dist(3) holder by blast
  next
    case False
    then have "c \<in> set (map fst (vl_waitings l))" using assms(1) by (simp add: conns_of_locker_def)
    then show ?thesis using split [OF _ dist(2)] False waiting by blast
  qed
qed

lemma dir_ok_distinct: "dir_ok a \<Longrightarrow> vd_lockers a = xs @ l # ys \<Longrightarrow> distinct (uids_of l)"
  by (simp add: dir_ok_def dir_uids_def)

lemma refine_del_locker:
  assumes "shape_is v (conc a)" "dir_ok a" "op_ok (Del_locker u) a"
  shows "shape_is (snd (vfs_step e (Del_locker u) v)) (conc (dir_step (Del_locker u) a))"
proof -
  obtain xs l ys where l: "vd_lockers a = xs @ l # ys" "vl_uid l = u"
    using locker_dest assms(3) by (metis op_ok.simps(2))
  have "vl_uid l' \<noteq> u" if "l' \<in> set xs \<union> set ys" for l'
    using dir_ok_earlier [OF assms(2) l(1), of u] l(2) that by force
  then have "filter (\<lambda>l. vl_uid l \<noteq> u) (vd_lockers a) = xs @ ys" using l by (simp add: filter_id_conv)
  moreover have "vt_unlink [0, 1, length xs] (conc a) = conc (a\<lparr>vd_lockers := xs @ ys\<rparr>)"
    using l by (simp add: vt_unlink_def conc_def dir_node_def)
  moreover have "shape_find (conc a) [0, 1] (string_of_nat u) = Inr [0, 1, length xs]"
    using shape_find_locker [OF assms(2) l(1)] l(2) by simp
  ultimately show ?thesis
    using shape_active [OF assms(1)] shape_cleanup [OF assms(1), of "[0, 1, length xs]"] shape_find_top [OF assms(2)]
    by (simp add: flom_vfs_ram_tree_del_locker_def shape_find_node [OF assms(1)] del: One_nat_def)
qed

text \<open>Where a connection is, and what a change of its directory does.\<close>

lemma shape_find_conn:
  assumes "dir_ok a" "vd_lockers a = xs @ l # ys" "c \<noteq> vl_uid l"
  shows "vl_holders l = as @ (c, fs) # bs \<Longrightarrow> c \<notin> set (map fst as) \<Longrightarrow>
           shape_find (conc a) [0, 1] (string_of_nat c) = Inr [0, 1, length xs, 2, length as] \<and>
           shape_find (conc a) [0, 1, length xs] (string_of_nat c) = Inr [0, 1, length xs, 2, length as]"
    and "vl_waitings l = as @ (c, fs) # bs \<Longrightarrow> c \<notin> set (map fst as) \<Longrightarrow> c \<notin> set (map fst (vl_holders l)) \<Longrightarrow>
           shape_find (conc a) [0, 1] (string_of_nat c) = Inr [0, 1, length xs, 3, length as] \<and>
           shape_find (conc a) [0, 1, length xs] (string_of_nat c) = Inr [0, 1, length xs, 3, length as]"
proof -
  have files: "files_named (vl_holders l)" "files_named (vl_waitings l)"
    using dir_ok_locker [OF assms(1)] assms(2) by auto
  have both: "shape_find (conc a) [0, 1] (string_of_nat c) = Inr (0 # 1 # length xs # p) \<and>
      shape_find (conc a) [0, 1, length xs] (string_of_nat c) = Inr (0 # 1 # length xs # p)"
    if found: "vt_find (named (string_of_nat c)) (locker_node l) = Some p" and mem: "c \<in> set (conns_of_locker l)" for p
  proof
    show "shape_find (conc a) [0, 1] (string_of_nat c) = Inr (0 # 1 # length xs # p)"
      using mem by (intro shape_find_in_lockers [OF assms(1,2) _ found]) simp
    show "shape_find (conc a) [0, 1, length xs] (string_of_nat c) = Inr (0 # 1 # length xs # p)"
      unfolding shape_find_def vt_get_locker [OF assms(2)] using found by simp
  qed
  show "shape_find (conc a) [0, 1] (string_of_nat c) = Inr [0, 1, length xs, 2, length as] \<and>
      shape_find (conc a) [0, 1, length xs] (string_of_nat c) = Inr [0, 1, length xs, 2, length as]"
    if "vl_holders l = as @ (c, fs) # bs" "c \<notin> set (map fst as)"
    by (rule both [OF find_conn_in_locker(1) [OF files assms(3) that]]) (simp add: conns_of_locker_def that(1))
  show "shape_find (conc a) [0, 1] (string_of_nat c) = Inr [0, 1, length xs, 3, length as] \<and>
      shape_find (conc a) [0, 1, length xs] (string_of_nat c) = Inr [0, 1, length xs, 3, length as]"
    if "vl_waitings l = as @ (c, fs) # bs" "c \<notin> set (map fst as)" "c \<notin> set (map fst (vl_holders l))"
    by (rule both [OF find_conn_in_locker(2) [OF files assms(3) that]]) (simp add: conns_of_locker_def that(1))
qed

lemma conc_conn_valid:
  assumes "vd_lockers a = xs @ l # ys"
  shows "vl_holders l = as @ x # bs \<Longrightarrow> vt_valid [0, 1, length xs, 2, length as] (conc a) \<and>
           vt_get [0, 1, length xs, 2, length as] (conc a) = conn_node x"
    and "vl_waitings l = as @ x # bs \<Longrightarrow> vt_valid [0, 1, length xs, 3, length as] (conc a) \<and>
           vt_get [0, 1, length xs, 3, length as] (conc a) = conn_node x"
  using assms by (simp_all add: conc_def dir_node_def nth_append locker_node_def path_simps)

lemma unlink_conn:
  assumes "vd_lockers a = xs @ l # ys"
  shows "vl_holders l = as @ x # bs \<Longrightarrow>
           vt_unlink [0, 1, length xs, 2, length as] (conc a) = conc (a\<lparr>vd_lockers := xs @ l\<lparr>vl_holders := as @ bs\<rparr> # ys\<rparr>)"
    and "vl_waitings l = as @ x # bs \<Longrightarrow>
           vt_unlink [0, 1, length xs, 3, length as] (conc a) = conc (a\<lparr>vd_lockers := xs @ l\<lparr>vl_waitings := as @ bs\<rparr> # ys\<rparr>)"
  by (subst unlink_in_locker, simp, subst upd_locker [OF assms]; simp add: locker_node_def dir_node_def)+

lemma append_conn:
  assumes "vd_lockers a = xs @ l # ys"
  shows "vt_append [0, 1, length xs, 2] (conn_node x) (conc a) =
           conc (a\<lparr>vd_lockers := xs @ l\<lparr>vl_holders := vl_holders l @ [x]\<rparr> # ys\<rparr>)"
    and "vt_append [0, 1, length xs, 3] (conn_node x) (conc a) =
           conc (a\<lparr>vd_lockers := xs @ l\<lparr>vl_waitings := vl_waitings l @ [x]\<rparr> # ys\<rparr>)"
  unfolding vt_append_def by (subst upd_locker [OF assms]; simp add: locker_node_def dir_node_def)+

lemma append_file:
  assumes "vd_lockers a = xs @ l # ys"
  shows "vl_holders l = as @ (c, fs) # bs \<Longrightarrow>
           vt_append [0, 1, length xs, 2, length as] (file_node f) (conc a) =
           conc (a\<lparr>vd_lockers := xs @ l\<lparr>vl_holders := as @ (c, fs @ [f]) # bs\<rparr> # ys\<rparr>)"
    and "vl_waitings l = as @ (c, fs) # bs \<Longrightarrow>
           vt_append [0, 1, length xs, 3, length as] (file_node f) (conc a) =
           conc (a\<lparr>vd_lockers := xs @ l\<lparr>vl_waitings := as @ (c, fs @ [f]) # bs\<rparr> # ys\<rparr>)"
  unfolding vt_append_def
  by (subst upd_locker [OF assms]; simp add: locker_node_def dir_node_def conn_node_def nth_append list_update_append)+

lemma conn_data [simp]: "vt_data (conn_node x) = Some (string_of_nat (fst x), None)"
  by (simp add: conn_node_def dir_node_def)

lemma del_conn_at:
  assumes "shape_is v s" "vt_valid p s" "vt_data (vt_get p s) \<noteq> None" "p \<noteq> []" "vt_valid q s"
    and "shape_find s [] (if incubating then ''incubator'' else ''lockers'') = Inr q"
    and "shape_find s q (string_of_nat c) = Inr p"
  shows "shape_is (snd (flom_vfs_ram_tree_del_conn e c incubating v)) (vt_unlink p s)"
proof -
  obtain v' where v': "flom_vfs_ram_tree_update_mtime (ve_time e 0) (butlast p) v = (FLOM_RC_OK, v')" "shape_is v' s"
    using shape_mtime [OF assms(1)] by blast
  show ?thesis
    using shape_active [OF assms(1)] shape_cleanup [OF v'(2) assms(4)] v'(1) shape_parent [OF assms(1-3)] assms(6,7)
    by (simp add: flom_vfs_ram_tree_del_conn_def shape_find_node [OF assms(1)] assms(5))
qed

lemma del_conn_nowhere:
  assumes "shape_is v s" "vt_valid q s"
    and "shape_find s [] (if incubating then ''incubator'' else ''lockers'') = Inr q"
    and "shape_find s q (string_of_nat c) = Inl rc"
  shows "snd (flom_vfs_ram_tree_del_conn e c incubating v) = v"
  using assms by (simp add: flom_vfs_ram_tree_del_conn_def shape_find_node [OF assms(1)])

lemma absent_step:
  assumes "c \<notin> set (conns_of_locker l)"
  shows "l\<lparr>vl_holders := filter (\<lambda>x. fst x \<noteq> c) (vl_holders l), vl_waitings := filter (\<lambda>x. fst x \<noteq> c) (vl_waitings l)\<rparr> = l"
    and "l\<lparr>vl_holders := vl_holders l @ filter (\<lambda>x. fst x = c) (vl_waitings l),
           vl_waitings := filter (\<lambda>x. fst x \<noteq> c) (vl_waitings l)\<rparr> = l"
proof -
  have "c \<notin> set (map fst (vl_holders l))" "c \<notin> set (map fst (vl_waitings l))"
    using assms by (simp_all add: conns_of_locker_def)
  note absent = filter_absent [OF this(1)] filter_absent [OF this(2)]
  show "l\<lparr>vl_holders := filter (\<lambda>x. fst x \<noteq> c) (vl_holders l), vl_waitings := filter (\<lambda>x. fst x \<noteq> c) (vl_waitings l)\<rparr> = l"
    and "l\<lparr>vl_holders := vl_holders l @ filter (\<lambda>x. fst x = c) (vl_waitings l),
           vl_waitings := filter (\<lambda>x. fst x \<noteq> c) (vl_waitings l)\<rparr> = l"
    by (simp_all add: absent)
qed

lemma refine_del_locker_conn:
  assumes "shape_is v (conc a)" "dir_ok a" "op_ok (Del_conn c False) a"
  shows "shape_is (snd (vfs_step e (Del_conn c False) v)) (conc (dir_step (Del_conn c False) a))"
proof (cases "c \<in> set (dir_uids a)")
  case True
  then obtain xs l ys where l: "vd_lockers a = xs @ l # ys" "c \<in> set (conns_of_locker l)" "c \<noteq> vl_uid l"
    using assms(3) dir_uids_cases by (metis op_ok.simps(6))
  let ?f = "\<lambda>l. l\<lparr>vl_holders := filter (\<lambda>x. fst x \<noteq> c) (vl_holders l), vl_waitings := filter (\<lambda>x. fst x \<noteq> c) (vl_waitings l)\<rparr>"
  have step: "dir_step (Del_conn c False) a = a\<lparr>vd_lockers := xs @ ?f l # ys\<rparr>"
    using map_on_conn_locker [OF assms(2) l(1,2), of ?f] absent_step(1) by simp
  have "distinct (conns_of_locker l)" using dir_ok_distinct [OF assms(2) l(1)] by simp
  with l(2) show ?thesis
  proof (cases rule: conns_cases)
    case (holder as fs bs)
    note valid = conc_conn_valid(1) [OF l(1) holder(1)]
    have "?f l = l\<lparr>vl_holders := as @ bs\<rparr>"
      using holder(1) by (simp add: filter_absent(1) [OF holder(2)] filter_absent(1) [OF holder(3)] filter_absent(1) [OF holder(4)])
    then show ?thesis
      using del_conn_at [OF assms(1), of "[0, 1, length xs, 2, length as]" "[0, 1]" False c e] valid
        shape_find_top [OF assms(2)] shape_find_conn(1) [OF assms(2) l(1,3) holder(1,2)] unlink_conn(1) [OF l(1) holder(1)] step
      by (simp del: One_nat_def)
  next
    case (waiting as fs bs)
    note valid = conc_conn_valid(2) [OF l(1) waiting(1)]
    have "?f l = l\<lparr>vl_waitings := as @ bs\<rparr>"
      using waiting(1) by (simp add: filter_absent(1) [OF waiting(2)] filter_absent(1) [OF waiting(3)] filter_absent(1) [OF waiting(4)])
    then show ?thesis
      using del_conn_at [OF assms(1), of "[0, 1, length xs, 3, length as]" "[0, 1]" False c e] valid
        shape_find_top [OF assms(2)] shape_find_conn(2) [OF assms(2) l(1,3) waiting(1,2,4)] unlink_conn(2) [OF l(1) waiting(1)] step
      by (simp del: One_nat_def)
  qed
next
  case False
  then have "map (\<lambda>l. l\<lparr>vl_holders := filter (\<lambda>x. fst x \<noteq> c) (vl_holders l), vl_waitings := filter (\<lambda>x. fst x \<noteq> c) (vl_waitings l)\<rparr>)
      (vd_lockers a) = vd_lockers a"
    by (intro map_idI absent_step) (auto simp: dir_uids_def)
  then show ?thesis
    using del_conn_nowhere [OF assms(1), of "[0, 1]" False c] shape_find_nowhere [OF assms(2) False]
      shape_find_top [OF assms(2)] assms(1)
    by (simp del: One_nat_def)
qed

lemma find_incubating:
  assumes "dir_ok a" "vd_incubator a = as @ (c, fs) # bs"
  shows "shape_find (conc a) [0, 0] (string_of_nat c) = Inr [0, 0, length as]"
proof -
  have "files_named (vd_incubator a)" "c \<notin> set (map fst as)"
    using assms by (auto simp: dir_ok_def)
  then have "vt_find_list (named (string_of_nat c)) 0 (map conn_node (vd_incubator a)) = Some [length as]"
    using assms(2) by (intro find_conn_list) auto
  then show ?thesis
    unfolding shape_find_def vt_get_lockers
    using string_of_nat_not_word(2) [of "CHR ''i''" "''ncubator''" c]
    by (simp add: find_dir is_digit_def)
qed

lemma find_not_incubating:
  assumes "dir_ok a" "c \<notin> set (map fst (vd_incubator a))"
  shows "shape_find (conc a) [0, 0] (string_of_nat c) = Inl FLOM_RC_OBJ_NOT_FOUND_ERROR"
proof -
  have "vt_find_list (named (string_of_nat c)) 0 (map conn_node (vd_incubator a)) = None"
    using conns_names(2) [of "vd_incubator a" c] assms by (intro find_list_fails) (auto simp: dir_ok_def)
  then show ?thesis
    unfolding shape_find_def vt_get_lockers
    using string_of_nat_not_word(2) [of "CHR ''i''" "''ncubator''" c]
    by (simp add: find_dir is_digit_def)
qed

lemma refine_del_incubator_conn:
  assumes "shape_is v (conc a)" "dir_ok a"
  shows "shape_is (snd (vfs_step e (Del_conn c True) v)) (conc (dir_step (Del_conn c True) a))"
proof (cases "c \<in> set (map fst (vd_incubator a))")
  case True
  then obtain as fs bs where i: "vd_incubator a = as @ (c, fs) # bs" by (auto dest: split_list)
  then have out: "c \<notin> set (map fst as)" "c \<notin> set (map fst bs)" using assms(2) by (auto simp: dir_ok_def)
  have "vt_valid [0, 0, length as] (conc a)" "vt_get [0, 0, length as] (conc a) = conn_node (c, fs)"
    using i by (simp_all add: conc_def dir_node_def nth_append path_simps)
  moreover have "vt_unlink [0, 0, length as] (conc a) = conc (a\<lparr>vd_incubator := as @ bs\<rparr>)"
    using i by (simp add: vt_unlink_def conc_def dir_node_def)
  ultimately show ?thesis
    using del_conn_at [OF assms(1), of "[0, 0, length as]" "[0, 0]" True c e] shape_find_top [OF assms(2)]
      find_incubating [OF assms(2) i] i
    by (simp add: filter_absent(1) [OF out(1)] filter_absent(1) [OF out(2)])
next
  case False
  then show ?thesis
    using del_conn_nowhere [OF assms(1), of "[0, 0]" True c] find_not_incubating [OF assms(2) False]
      shape_find_top [OF assms(2)] assms(1) filter_absent(1) [OF False]
    by simp
qed

lemma refine_add_incubator_conn:
  assumes "shape_is v (conc a)" "dir_ok a" "allocs_ok e"
  shows "shape_is (snd (vfs_step e (Add_incubator_conn c peer name type) v))
           (conc (dir_step (Add_incubator_conn c peer name type) a))"
proof -
  obtain d where d: "flom_vfs_ram_node_create e 0 (string_of_nat c) None = Some d"
    "rn_name d = string_of_nat c" "rn_content d = None"
    using create_ok [OF assms(3)] by blast
  let ?a = "a\<lparr>vd_incubator := vd_incubator a @ [(c, [])]\<rparr>" and ?p = "[0, 0, length (vd_incubator a)]"
  let ?fs = "[(''peer_name'', print_line peer), (''resource_name'', print_line name), (''resource_type'', print_line type)]"
  have "vt_append [0, 0] (VNode (Some (string_of_nat c, None)) []) (conc a) = conc ?a"
    by (simp add: vt_append_def conc_def dir_node_def conn_node_def)
  then have v1: "shape_is (append_data [0, 0] d v) (conc ?a)"
    using shape_append [OF assms(1), of "[0, 0]" d] d(2,3) by simp
  then have child: "last_child [0, 0] (append_data [0, 0] d v) = ?p"
    by (subst shape_last_child [OF v1]) (simp_all add: conc_def dir_node_def path_simps)
  obtain v2 where v2: "flom_vfs_ram_tree_update_mtime (ve_time e 4) [0, 0] (append_data [0, 0] d v) = (FLOM_RC_OK, v2)"
    "shape_is v2 (conc ?a)"
    using shape_mtime [OF v1] by blast
  obtain v3 where v3: "add_files e 1 ?p ?fs v2 = (FLOM_RC_OK, v3)"
    "shape_is v3 (foldl (\<lambda>s f. vt_append ?p (file_node f) s) (conc ?a) ?fs)"
    using shape_files [OF assms(3) v2(2)] by blast
  have "foldl (\<lambda>s f. vt_append ?p (file_node f) s) (conc ?a) ?fs = conc (a\<lparr>vd_incubator := vd_incubator a @ [(c, ?fs)]\<rparr>)"
    by (simp add: vt_append_def conc_def dir_node_def conn_node_def nth_append list_update_append)
  moreover have "ve_gnode e 0" using assms(3) by (simp add: allocs_ok_def)
  ultimately show ?thesis
    using v3 v2(1) child d(1) shape_find_top(2) [OF assms(2)] shape_active [OF assms(1)]
    by (simp add: flom_vfs_ram_tree_add_incubator_conn_def shape_find_node [OF assms(1)])
qed

lemma refine_add_locker:
  assumes "shape_is v (conc a)" "dir_ok a" "allocs_ok e"
  shows "shape_is (snd (vfs_step e (Add_locker u name type) v)) (conc (dir_step (Add_locker u name type) a))"
proof -
  obtain d where d: "flom_vfs_ram_node_create e 0 (string_of_nat u) None = Some d"
    "rn_name d = string_of_nat u" "rn_content d = None"
    using create_ok [OF assms(3)] by blast
  let ?n = "length (vd_lockers a)" and ?s = "vt_append [0, 1] (dir_node (string_of_nat u) []) (conc a)"
  let ?es = "[(''resource_name'', Some (print_line name)), (''resource_type'', Some (print_line type)), (''holders'', None)]"
  have v1: "shape_is (append_data [0, 1] d v) ?s"
    using shape_append [OF assms(1), of "[0, 1]" d] d(2,3) by (simp add: dir_node_def)
  have child: "last_child [0, 1] (append_data [0, 1] d v) = [0, 1, ?n]"
    by (subst shape_last_child [OF v1]) (simp_all add: vt_append_def conc_def dir_node_def path_simps)
  obtain v2 where v2: "flom_vfs_ram_tree_update_mtime (ve_time e 5) [0, 1] (append_data [0, 1] d v) = (FLOM_RC_OK, v2)"
    "shape_is v2 ?s"
    using shape_mtime [OF v1] by blast
  obtain v3 where v3: "add_entries e 1 [0, 1, ?n] ?es v2 = (FLOM_RC_OK, v3)"
    "shape_is v3 (foldl (\<lambda>s f. vt_append [0, 1, ?n] (VNode (Some f) []) s) ?s ?es)"
    using shape_entries [OF assms(3) v2(2)] by blast
  obtain v4 where v4: "add_entries e 4 [0, 1, ?n] [(''waitings'', None)] v3 = (FLOM_RC_OK, v4)"
    "shape_is v4 (foldl (\<lambda>s f. vt_append [0, 1, ?n] (VNode (Some f) []) s)
      (foldl (\<lambda>s f. vt_append [0, 1, ?n] (VNode (Some f) []) s) ?s ?es) [(''waitings'', None)])"
    using shape_entries [OF assms(3) v3(2)] by blast
  have final: "shape_is v4 (conc (dir_step (Add_locker u name type) a))"
    using v4(2)
    by (simp add: vt_append_def conc_def dir_node_def locker_node_def file_node_def nth_append list_update_append)
  have "ve_gnode e 0" using assms(3) by (simp add: allocs_ok_def)
  moreover have "flom_vfs_ram_tree_find_node_by_name v [] ''lockers'' = Inr [0, 1]"
    using shape_find_node [OF assms(1)] shape_find_top(1) [OF assms(2)] by simp
  ultimately have "flom_vfs_ram_tree_add_locker e u name type v = (FLOM_RC_OK, v4)"
    unfolding flom_vfs_ram_tree_add_locker_def
    using shape_active [OF assms(1)] d(1) child v2(1) v3(1) v4(1) by (simp del: One_nat_def add_entries.simps dir_step.simps)
  then show ?thesis using final by simp
qed

lemma refine_move:
  assumes "shape_is v (conc a)" "dir_ok a" "op_ok (Move_locker_conn c) a"
  shows "shape_is (snd (vfs_step e (Move_locker_conn c) v)) (conc (dir_step (Move_locker_conn c) a))"
proof (cases "c \<in> set (dir_uids a)")
  case True
  then obtain xs l ys where l: "vd_lockers a = xs @ l # ys" "c \<in> set (conns_of_locker l)" "c \<noteq> vl_uid l"
    using assms(3) dir_uids_cases by (metis op_ok.simps(5))
  let ?f = "\<lambda>l. l\<lparr>vl_holders := vl_holders l @ filter (\<lambda>x. fst x = c) (vl_waitings l),
      vl_waitings := filter (\<lambda>x. fst x \<noteq> c) (vl_waitings l)\<rparr>"
  have step: "dir_step (Move_locker_conn c) a = a\<lparr>vd_lockers := xs @ ?f l # ys\<rparr>"
    using map_on_conn_locker [OF assms(2) l(1,2), of ?f] absent_step(2) by simp
  have top: "flom_vfs_ram_tree_find_node_by_name v [] ''lockers'' = Inr [0, 1]"
    using shape_find_node [OF assms(1)] shape_find_top(1) [OF assms(2)] by simp
  have "distinct (conns_of_locker l)" using dir_ok_distinct [OF assms(2) l(1)] by simp
  with l(2) show ?thesis
  proof (cases rule: conns_cases)
    case (holder as fs bs)
    let ?p = "[0, 1, length xs, 2, length as]"
    note valid = conc_conn_valid(1) [OF l(1) holder(1)]
    have "named ''waitings'' (vt_data (vt_get [0, 1, length xs, 2] (conc a))) = False"
      using l(1) by (simp add: conc_def dir_node_def locker_node_def nth_append path_simps)
    then have "\<not> has_name ''waitings'' (vt_data (vt_get (butlast ?p) (the (vfs_root v))))"
      using shape_has_name [OF assms(1) conc_valid(5) [OF l(1)]] by simp
    moreover have "?f l = l" "a\<lparr>vd_lockers := xs @ l # ys\<rparr> = a"
      by (simp_all add: filter_absent [OF holder(4)] flip: l(1))
    then have "dir_step (Move_locker_conn c) a = a" by (simp only: step)
    ultimately show ?thesis
      using assms(1) top shape_find_conn(1) [OF assms(2) l(1,3) holder(1,2)] valid shape_active [OF assms(1)]
        shape_parent [OF assms(1), of ?p]
      by (simp add: flom_vfs_ram_tree_move_locker_conn_def shape_find_node [OF assms(1)] del: One_nat_def dir_step.simps)
  next
    case (waiting as fs bs)
    let ?p = "[0, 1, length xs, 3, length as]" and ?w = "[0, 1, length xs, 3]" and ?h = "[0, 1, length xs, 2]"
    note valid = conc_conn_valid(2) [OF l(1) waiting(1)]
    have w: "vt_data (vt_get ?w (conc a)) = Some (''waitings'', None)"
      using l(1) by (simp add: conc_def dir_node_def locker_node_def nth_append path_simps)
    obtain v1 where v1: "flom_vfs_ram_tree_update_mtime (ve_time e 0) ?w v = (FLOM_RC_OK, v1)" "shape_is v1 (conc a)"
      using shape_mtime [OF assms(1)] by blast
    obtain v2 where v2: "flom_vfs_ram_tree_update_mtime (ve_time e 1) ?h v1 = (FLOM_RC_OK, v2)" "shape_is v2 (conc a)"
      using shape_mtime [OF v1(2)] by blast
    obtain v3 where v3: "flom_vfs_ram_tree_update_mtime (ve_time e 2) ?p v2 = (FLOM_RC_OK, v3)" "shape_is v3 (conc a)"
      using shape_mtime [OF v2(2)] by blast
    have "snd (vfs_step e (Move_locker_conn c) v) =
        set_tree (vt_unlink ?p (vt_append ?h (vt_get ?p (the (vfs_root v3))) (the (vfs_root v3)))) v3"
      using shape_active [OF assms(1)] top shape_find_conn(2) [OF assms(2) l(1,3) waiting(1,2,4)] valid
        shape_parent [OF assms(1), of ?p] shape_parent [OF assms(1) conc_valid(6) [OF l(1)]] w l(1)
        shape_has_name [OF assms(1) conc_valid(6) [OF l(1)], of "''waitings''"]
        shape_find_section(1) [OF assms(2) l(1)] v1(1) v2(1) v3(1)
      by (simp add: flom_vfs_ram_tree_move_locker_conn_def shape_find_node [OF assms(1)] Let_def del: One_nat_def)
    moreover have "vt_unlink ?p (vt_append ?h (vt_get ?p (conc a)) (conc a)) = conc (a\<lparr>vd_lockers := xs @ ?f l # ys\<rparr>)"
    proof -
      let ?l = "l\<lparr>vl_holders := vl_holders l @ [(c, fs)]\<rparr>"
      have "vt_unlink ?p (conc (a\<lparr>vd_lockers := xs @ ?l # ys\<rparr>)) =
          conc (a\<lparr>vd_lockers := xs @ ?l\<lparr>vl_waitings := as @ bs\<rparr> # ys\<rparr>)"
        using unlink_conn(2) [of "a\<lparr>vd_lockers := xs @ ?l # ys\<rparr>" xs ?l ys as "(c, fs)" bs] waiting(1) by simp
      moreover have "?f l = ?l\<lparr>vl_waitings := as @ bs\<rparr>"
        using waiting(1) by (simp add: filter_absent [OF waiting(2)] filter_absent [OF waiting(3)])
      ultimately show ?thesis using append_conn(1) [OF l(1), of "(c, fs)"] valid by (simp del: One_nat_def)
    qed
    ultimately show ?thesis
      using shape_move [OF v3(2), of ?p ?h] valid step by (simp del: One_nat_def dir_step.simps vfs_step.simps)
  qed
next
  case False
  then have "map (\<lambda>l. l\<lparr>vl_holders := vl_holders l @ filter (\<lambda>x. fst x = c) (vl_waitings l),
      vl_waitings := filter (\<lambda>x. fst x \<noteq> c) (vl_waitings l)\<rparr>) (vd_lockers a) = vd_lockers a"
    by (intro map_idI absent_step) (auto simp: dir_uids_def)
  then show ?thesis
    using assms(1) shape_find_nowhere [OF assms(2) False] shape_find_top [OF assms(2)]
    by (simp add: flom_vfs_ram_tree_move_locker_conn_def shape_find_node [OF assms(1)] del: One_nat_def)
qed

text \<open>The identifiers stay distinct and the files keep their names.\<close>

lemma dir_ok_map:
  assumes "dir_ok a" "\<And>l. l \<in> set (vd_lockers a) \<Longrightarrow> mset (uids_of (f l)) \<subseteq># mset (uids_of l)"
    and "\<And>l. l \<in> set (vd_lockers a) \<Longrightarrow> files_named (vl_holders l) \<and> files_named (vl_waitings l) \<Longrightarrow>
      files_named (vl_holders (f l)) \<and> files_named (vl_waitings (f l))"
  shows "dir_ok (a\<lparr>vd_lockers := map f (vd_lockers a)\<rparr>)"
proof -
  have "mset (concat (map uids_of (map f ls))) \<subseteq># mset (concat (map uids_of ls))"
    if "\<forall>l \<in> set ls. mset (uids_of (f l)) \<subseteq># mset (uids_of l)" for ls
    using that
  proof (induction ls)
    case (Cons l ls)
    then have "mset (uids_of (f l)) + mset (concat (map uids_of (map f ls))) \<subseteq># mset (uids_of l) + mset (concat (map uids_of ls))"
      by (intro subset_mset.add_mono) auto
    then show ?case by simp
  qed simp
  then have "mset (dir_uids (a\<lparr>vd_lockers := map f (vd_lockers a)\<rparr>)) \<subseteq># mset (dir_uids a)"
    using assms(2) by (simp add: dir_uids_def)
  then have "distinct (dir_uids (a\<lparr>vd_lockers := map f (vd_lockers a)\<rparr>))"
    using assms(1) distinct_submset by (auto simp: dir_ok_def)
  then show ?thesis
    using assms(1,3) by (simp add: dir_ok_def list_all_iff)
qed

lemma files_named_filter: "files_named cs \<Longrightarrow> files_named (filter P cs)"
  by (induction cs) (simp_all add: files_named_def)

lemma files_named_append [simp]: "files_named (cs @ ds) \<longleftrightarrow> files_named cs \<and> files_named ds"
  by (simp add: files_named_def)

lemma present_files_named: "fst ` set (present_files (conn_files peer mode q sq ts)) \<subseteq> set file_names"
proof -
  have "fst ` set (present_files fs) \<subseteq> fst ` set fs" for fs
    by (auto simp: present_files_def image_iff dest!: set_takeWhileD) (metis fst_conv)
  moreover have "fst ` set (conn_files peer mode q sq ts) \<subseteq> set file_names"
    by (auto simp: conn_files_def file_names_def split: option.splits if_splits)
  ultimately show ?thesis by blast
qed

lemma map_fst_add_file [simp]: "map fst (add_file_to c f cs) = map fst cs"
  by (simp add: add_file_to_def)

lemma files_named_add_file:
  "files_named cs \<Longrightarrow> fst f \<in> set file_names \<Longrightarrow> files_named (add_file_to c f cs)"
  by (induction cs) (auto simp: files_named_def add_file_to_def)

lemma dir_ok_add_file:
  assumes "dir_ok a" "name \<in> set file_names"
  shows "dir_ok (dir_step (Add_locker_conn_file u c name content) a)"
  unfolding dir_step.simps on_locker_def
  using assms by (intro dir_ok_map) (auto simp: conns_of_locker_def simp del: mset_map intro: files_named_add_file)

lemma dir_ok_add_conn:
  assumes "dir_ok a" "vd_lockers a = xs @ l # ys" "c \<notin> set (dir_uids a)" "fst ` set fs \<subseteq> set file_names"
  shows "dir_ok (a\<lparr>vd_lockers := xs @ l\<lparr>vl_holders := vl_holders l @ [(c, fs)]\<rparr> # ys\<rparr>)"
    and "dir_ok (a\<lparr>vd_lockers := xs @ l\<lparr>vl_waitings := vl_waitings l @ [(c, fs)]\<rparr> # ys\<rparr>)"
proof -
  have fs: "files_named [(c, fs)]" using assms(4) by (auto simp: files_named_def list_all_iff)
  show "dir_ok (a\<lparr>vd_lockers := xs @ l\<lparr>vl_holders := vl_holders l @ [(c, fs)]\<rparr> # ys\<rparr>)"
    and "dir_ok (a\<lparr>vd_lockers := xs @ l\<lparr>vl_waitings := vl_waitings l @ [(c, fs)]\<rparr> # ys\<rparr>)"
    using assms(1-3) fs by (auto simp: dir_ok_def dir_uids_def conns_of_locker_def)
qed

lemma dir_ok_step:
  assumes "dir_ok a" "op_ok op a"
  shows "dir_ok (dir_step op a)"
proof (cases op)
  case (Add_locker u name type)
  then show ?thesis using assms by (simp add: dir_ok_def dir_uids_def conns_of_locker_def files_named_def)
next
  case (Del_locker u)
  have "distinct (concat (map uids_of (filter P ls)))" if "distinct (concat (map uids_of ls))" for P ls
    using that by (induction ls) auto
  then show ?thesis using assms Del_locker by (simp add: dir_ok_def dir_uids_def list_all_iff)
next
  case (Add_locker_conn u c is_holder peer mode q sq ts)
  then obtain xs l ys where l: "vd_lockers a = xs @ l # ys" "vl_uid l = u"
    using assms(2) locker_dest by (metis op_ok.simps(3))
  have c: "c \<notin> set (dir_uids a)" using assms(2) Add_locker_conn by simp
  show ?thesis
    using dir_ok_add_conn [OF assms(1) l(1) c present_files_named] map_on_locker [OF assms(1) l(1)] l(2) Add_locker_conn
    by (simp add: Let_def)
next
  case (Add_locker_conn_file u c name content)
  then show ?thesis using dir_ok_add_file assms by simp
next
  case (Move_locker_conn c)
  have "mset (filter (\<lambda>x. fst x = c) w) + mset (filter (\<lambda>x. fst x \<noteq> c) w) = mset w" for w :: "vfs_conn list"
    by (metis mset_filter multiset_partition)
  then have "image_mset fst (mset (filter (\<lambda>x. fst x = c) w)) + image_mset fst (mset (filter (\<lambda>x. fst x \<noteq> c) w)) =
      image_mset fst (mset w)" for w :: "vfs_conn list"
    by (metis image_mset_union)
  then show ?thesis
    unfolding Move_locker_conn dir_step.simps using assms(1)
    by (intro dir_ok_map) (auto simp: conns_of_locker_def add.assoc files_named_filter simp del: mset_filter)
next
  case (Del_conn c incubating)
  have "mset (map fst (filter P w)) \<subseteq># mset (map fst w)" for P and w :: "vfs_conn list"
    by (simp add: image_mset_subseteq_mono)
  then have "dir_ok (dir_step (Del_conn c False) a)"
    unfolding dir_step.simps if_False using assms(1)
    by (intro dir_ok_map) (auto simp: conns_of_locker_def files_named_filter intro!: subset_mset.add_mono simp del: mset_map)
  moreover have "dir_ok (dir_step (Del_conn c True) a)"
    using assms(1) by (simp add: dir_ok_def dir_uids_def distinct_map_filter files_named_filter)
  ultimately show ?thesis using Del_conn by (cases incubating) simp_all
next
  case (Add_incubator_conn c peer name type)
  then show ?thesis using assms by (simp add: dir_ok_def dir_uids_def files_named_def file_names_def)
qed

lemma add_file_absent: "c \<notin> set (map fst cs) \<Longrightarrow> add_file_to c f cs = cs"
  by (induction cs) (auto simp: add_file_to_def)

lemma add_file_at:
  assumes "c \<notin> set (map fst as)" "c \<notin> set (map fst bs)"
  shows "add_file_to c f (as @ (c, fs) # bs) = as @ (c, fs @ [f]) # bs"
  using add_file_absent [OF assms(1)] add_file_absent [OF assms(2)] by (simp add: add_file_to_def)

lemma refine_add_conn_file:
  assumes "shape_is v (conc a)" "dir_ok a" "allocs_ok e" "vd_lockers a = xs @ l # ys" "vl_uid l = u" "c \<noteq> u"
  shows "shape_is (snd (flom_vfs_ram_tree_add_locker_conn_file e k u c name (Some content) v))
           (conc (dir_step (Add_locker_conn_file u c name content) a)) \<and>
         (c \<in> set (conns_of_locker l) \<longrightarrow>
           fst (flom_vfs_ram_tree_add_locker_conn_file e k u c name (Some content) v) = FLOM_RC_OK)"
proof -
  obtain d where d: "flom_vfs_ram_node_create e k name (Some content) = Some d" "rn_name d = name" "rn_content d = Some content"
    using create_ok [OF assms(3)] by blast
  have gnode: "ve_gnode e k" using assms(3) by (simp add: allocs_ok_def)
  note found = shape_find_node [OF assms(1)] shape_find_top [OF assms(2)] shape_find_locker [OF assms(2,4), unfolded assms(5)]
  let ?f = "\<lambda>l. l\<lparr>vl_holders := add_file_to c (name, content) (vl_holders l), vl_waitings := add_file_to c (name, content) (vl_waitings l)\<rparr>"
  have step: "dir_step (Add_locker_conn_file u c name content) a = a\<lparr>vd_lockers := xs @ ?f l # ys\<rparr>"
    using map_on_locker [OF assms(2,4), of ?f] assms(5) by simp
  have files: "files_named (vl_holders l)" "files_named (vl_waitings l)"
    using dir_ok_locker [OF assms(2)] assms(4) by auto
  have dist: "distinct (conns_of_locker l)" using dir_ok_distinct [OF assms(2,4)] by simp
  have at: ?thesis
    if "shape_find (conc a) [0, 1, length xs] (string_of_nat c) = Inr p"
      and "vt_append p (file_node (name, content)) (conc a) = conc (a\<lparr>vd_lockers := xs @ ?f l # ys\<rparr>)" for p
  proof -
    have "flom_vfs_ram_tree_add_locker_conn_file e k u c name (Some content) v = (FLOM_RC_OK, append_data p d v)"
      using that(1) d(1) gnode shape_active [OF assms(1)] assms(4) found
      by (simp add: flom_vfs_ram_tree_add_locker_conn_file_def del: One_nat_def)
    then show ?thesis
      using shape_append [OF assms(1), of p d] d(2,3) that(2) step by (simp add: file_node_def del: dir_step.simps)
  qed
  show ?thesis
  proof (cases "c \<in> set (conns_of_locker l)")
    case True
    then show ?thesis using dist
    proof (cases rule: conns_cases)
      case (holder as fs bs)
      have "?f l = l\<lparr>vl_holders := as @ (c, fs @ [(name, content)]) # bs\<rparr>"
        using holder(1) by (simp add: add_file_at [OF holder(2,3)] add_file_absent [OF holder(4)])
      then show ?thesis
        using shape_find_conn(1) [OF assms(2,4) _ holder(1,2)] append_file(1) [OF assms(4) holder(1)] assms(5,6)
        by (intro at [of "[0, 1, length xs, 2, length as]"]) (simp_all del: One_nat_def)
    next
      case (waiting as fs bs)
      have "?f l = l\<lparr>vl_waitings := as @ (c, fs @ [(name, content)]) # bs\<rparr>"
        using waiting(1) by (simp add: add_file_at [OF waiting(2,3)] add_file_absent [OF waiting(4)])
      then show ?thesis
        using shape_find_conn(2) [OF assms(2,4) _ waiting(1,2,4)] append_file(2) [OF assms(4) waiting(1)] assms(5,6)
        by (intro at [of "[0, 1, length xs, 3, length as]"]) (simp_all del: One_nat_def)
    qed
  next
    case False
    then have "vt_find (named (string_of_nat c)) (locker_node l) = None"
      using locker_names [OF files, of c] assms(5,6) by (intro find_fails) simp
    then have "shape_find (conc a) [0, 1, length xs] (string_of_nat c) = Inl FLOM_RC_OBJ_NOT_FOUND_ERROR"
      unfolding shape_find_def vt_get_locker [OF assms(4)] by simp
    moreover have absent: "c \<notin> set (map fst (vl_holders l))" "c \<notin> set (map fst (vl_waitings l))"
      using False by (simp_all add: conns_of_locker_def)
    then have "?f l = l" "a\<lparr>vd_lockers := xs @ l # ys\<rparr> = a"
      by (simp_all add: add_file_absent flip: assms(4))
    then have "dir_step (Add_locker_conn_file u c name content) a = a" by (simp only: step)
    ultimately show ?thesis
      using False assms(1,4) shape_active [OF assms(1)] found
      by (simp add: flom_vfs_ram_tree_add_locker_conn_file_def del: One_nat_def dir_step.simps)
  qed
qed

definition put_conn :: "bool \<Rightarrow> vfs_conn \<Rightarrow> vfs_locker \<Rightarrow> vfs_locker" where
  "put_conn is_holder x l =
     (if is_holder then l\<lparr>vl_holders := vl_holders l @ [x]\<rparr> else l\<lparr>vl_waitings := vl_waitings l @ [x]\<rparr>)"

lemma present_files_Cons:
  "present_files ((name, content) # fs) = (case content of None \<Rightarrow> [] | Some s \<Rightarrow> (name, s) # present_files fs)"
  by (cases content) (simp_all add: present_files_def)

lemma refine_add_conn_files:
  assumes "allocs_ok e" "vd_lockers a = xs @ l # ys" "vl_uid l = u" "c \<noteq> u" "c \<notin> set (dir_uids a)" "dir_ok a"
    and "shape_is v (conc (a\<lparr>vd_lockers := xs @ put_conn is_holder (c, done) l # ys\<rparr>))"
    and "fst ` set done \<subseteq> set file_names" "fst ` set fs \<subseteq> set file_names"
  shows "shape_is (snd (add_conn_files e k u c fs v))
           (conc (a\<lparr>vd_lockers := xs @ put_conn is_holder (c, done @ present_files fs) l # ys\<rparr>))"
  using assms(7-9)
proof (induction fs arbitrary: k v "done")
  case Nil
  then show ?case by (simp add: present_files_def)
next
  case (Cons x fs)
  obtain name content where x: "x = (name, content)" by (cases x)
  show ?case
  proof (cases content)
    case None
    then show ?thesis
      using Cons.prems(1) x
      by (simp add: flom_vfs_ram_tree_add_locker_conn_file_def present_files_Cons shape_active)
  next
    case (Some s)
    let ?a = "\<lambda>done. a\<lparr>vd_lockers := xs @ put_conn is_holder (c, done) l # ys\<rparr>"
    have ok: "dir_ok (?a done)"
      using dir_ok_add_conn [OF assms(6,2,5) Cons.prems(2)] by (simp add: put_conn_def)
    have absent: "c \<notin> set (map fst (vl_holders l))" "c \<notin> set (map fst (vl_waitings l))"
      using assms(2,5) by (auto simp: dir_uids_def conns_of_locker_def)
    have "dir_step (Add_locker_conn_file u c name s) (?a done) = ?a (done @ [(name, s)])"
      using map_on_locker [OF ok, of xs "put_conn is_holder (c, done) l" ys] assms(3) add_file_at [OF absent(1), of "[]"]
        add_file_at [OF absent(2), of "[]"] add_file_absent [OF absent(1)] add_file_absent [OF absent(2)]
      by (cases is_holder) (simp_all add: put_conn_def)
    moreover have "c \<in> set (conns_of_locker (put_conn is_holder (c, done) l))"
      by (simp add: conns_of_locker_def put_conn_def)
    ultimately have "shape_is (snd (flom_vfs_ram_tree_add_locker_conn_file e k u c name (Some s) v)) (conc (?a (done @ [(name, s)])))"
      "fst (flom_vfs_ram_tree_add_locker_conn_file e k u c name (Some s) v) = FLOM_RC_OK"
      using refine_add_conn_file [OF Cons.prems(1) ok assms(1), of xs "put_conn is_holder (c, done) l" ys u c k name s] assms(3,4)
      by (simp_all add: put_conn_def)
    then show ?thesis
      using Cons.IH [of _ "done @ [(name, s)]" "Suc k"] Cons.prems(2,3) x Some
      by (cases "flom_vfs_ram_tree_add_locker_conn_file e k u c name (Some s) v") (simp add: present_files_Cons)
  qed
qed

lemma refine_add_conn:
  assumes "shape_is v (conc a)" "dir_ok a" "allocs_ok e" "op_ok (Add_locker_conn u c is_holder peer mode q sq ts) a"
  shows "shape_is (snd (vfs_step e (Add_locker_conn u c is_holder peer mode q sq ts) v))
           (conc (dir_step (Add_locker_conn u c is_holder peer mode q sq ts) a))"
proof -
  obtain xs l ys where l: "vd_lockers a = xs @ l # ys" "vl_uid l = u"
    using locker_dest assms(4) by (metis op_ok.simps(3))
  have c: "c \<notin> set (dir_uids a)" "c \<noteq> u" using assms(4) by (auto simp: dir_uids_def)
  let ?p = "[0, 1, length xs, if is_holder then 2 else 3]"
  obtain d where d: "flom_vfs_ram_node_create e 0 (string_of_nat c) None = Some d"
    "rn_name d = string_of_nat c" "rn_content d = None"
    using create_ok [OF assms(3)] by blast
  have "shape_is (append_data ?p d v) (conc (a\<lparr>vd_lockers := xs @ put_conn is_holder (c, []) l # ys\<rparr>))"
    using shape_append [OF assms(1), of ?p d] append_conn [OF l(1), of "(c, [])"] d(2,3)
    by (simp add: put_conn_def conn_node_def dir_node_def split: if_splits del: One_nat_def)
  then obtain v1 where v1: "flom_vfs_ram_tree_update_mtime (ve_time e 6) ?p (append_data ?p d v) = (FLOM_RC_OK, v1)"
    "shape_is v1 (conc (a\<lparr>vd_lockers := xs @ put_conn is_holder (c, []) l # ys\<rparr>))"
    using shape_mtime by blast
  have names: "fst ` set (conn_files peer mode q sq ts) \<subseteq> set file_names"
    by (auto simp: conn_files_def file_names_def split: option.splits if_splits)
  have "ve_gnode e 0" using assms(3) by (simp add: allocs_ok_def)
  then have "vfs_step e (Add_locker_conn u c is_holder peer mode q sq ts) v =
      add_conn_files e 1 u c (conn_files peer mode q sq ts) v1"
    using shape_active [OF assms(1)] shape_find_top [OF assms(2)] shape_find_locker [OF assms(2) l(1), unfolded l(2)]
      shape_find_section [OF assms(2) l(1)] d(1) v1(1) l(1)
    by (cases is_holder)
       (simp_all add: flom_vfs_ram_tree_add_locker_conn_def shape_find_node [OF assms(1)] del: One_nat_def)
  moreover have "dir_step (Add_locker_conn u c is_holder peer mode q sq ts) a =
      a\<lparr>vd_lockers := xs @ put_conn is_holder (c, present_files (conn_files peer mode q sq ts)) l # ys\<rparr>"
    using map_on_locker [OF assms(2) l(1)] l(2) by (simp add: put_conn_def Let_def)
  ultimately show ?thesis
    using refine_add_conn_files [OF assms(3) l c(2,1) assms(2) v1(2) _ names, of 1] by simp
qed

lemma refine_step:
  assumes "shape_is v (conc a)" "dir_ok a" "allocs_ok e" "op_ok op a"
  shows "shape_is (snd (vfs_step e op v)) (conc (dir_step op a))"
proof (cases op)
  case (Add_locker_conn_file u c name content)
  then obtain xs l ys where l: "vd_lockers a = xs @ l # ys" "vl_uid l = u"
    using locker_dest assms(4) by (metis op_ok.simps(4))
  have "c \<noteq> u" using assms(4) Add_locker_conn_file by auto
  then show ?thesis
    using refine_add_conn_file [OF assms(1-3) l] Add_locker_conn_file by simp
next
  case (Del_conn c incubating)
  then show ?thesis
    using refine_del_locker_conn [OF assms(1,2)] refine_del_incubator_conn [OF assms(1,2)] assms(4)
    by (cases incubating) simp_all
qed (use assms in \<open>simp_all only: refine_add_locker refine_del_locker refine_add_conn refine_move refine_add_incubator_conn\<close>)

text \<open>A sequence of calls, each with its environment.\<close>

fun vfs_run :: "(vfs_env \<times> vfs_op) list \<Rightarrow> flom_vfs_ram_tree \<Rightarrow> flom_vfs_ram_tree" where
  "vfs_run [] v = v"
| "vfs_run ((e, op) # ops) v = vfs_run ops (snd (vfs_step e op v))"

fun dir_run :: "vfs_op list \<Rightarrow> vfs_dir \<Rightarrow> vfs_dir" where
  "dir_run [] a = a"
| "dir_run (op # ops) a = dir_run ops (dir_step op a)"

fun ops_ok :: "vfs_op list \<Rightarrow> vfs_dir \<Rightarrow> bool" where
  "ops_ok [] a = True"
| "ops_ok (op # ops) a = (op_ok op a \<and> ops_ok ops (dir_step op a))"

definition empty_dir :: vfs_dir where
  "empty_dir = \<lparr> vd_incubator = [], vd_lockers = [] \<rparr>"

lemma init_shape:
  assumes "allocs_ok e"
  shows "fst (flom_vfs_ram_tree_init e True v) = FLOM_RC_OK \<and> shape_is (snd (flom_vfs_ram_tree_init e True v)) (conc empty_dir)"
proof -
  obtain d0 where d0: "flom_vfs_ram_node_create e 0 ''/'' None = Some d0" "rn_name d0 = ''/''" "rn_content d0 = None"
    using create_ok [OF assms] by blast
  obtain d1 where d1: "flom_vfs_ram_node_create e 1 ''status'' None = Some d1" "rn_name d1 = ''status''" "rn_content d1 = None"
    using create_ok [OF assms] by blast
  obtain d2 where d2: "flom_vfs_ram_node_create e 2 ''lockers'' None = Some d2" "rn_name d2 = ''lockers''" "rn_content d2 = None"
    using create_ok [OF assms] by blast
  obtain d3 where d3: "flom_vfs_ram_node_create e 3 ''incubator'' None = Some d3" "rn_name d3 = ''incubator''" "rn_content d3 = None"
    using create_ok [OF assms] by blast
  have "ve_gnode e k" for k using assms by (simp add: allocs_ok_def)
  then show ?thesis
    using d0 d1 d2 d3
    by (simp add: flom_vfs_ram_tree_init_def shape_is_def conc_def empty_dir_def dir_node_def leaf_def vt_prepend_def
        node_shape_def)
qed

lemma refine_run:
  assumes "shape_is v (conc a)" "dir_ok a" "list_all (allocs_ok \<circ> fst) calls" "ops_ok (map snd calls) a"
  shows "shape_is (vfs_run calls v) (conc (dir_run (map snd calls) a)) \<and> dir_ok (dir_run (map snd calls) a)"
  using assms
proof (induction calls arbitrary: v a)
  case (Cons x calls)
  obtain e op where x: "x = (e, op)" by (cases x)
  then show ?case
    using Cons.IH [OF refine_step [OF Cons.prems(1,2), of e op] dir_ok_step [OF Cons.prems(2), of op]] Cons.prems(3,4) by simp
qed simp

lemma empty_dir_ok: "dir_ok empty_dir"
  by (simp add: dir_ok_def empty_dir_def dir_uids_def files_named_def)

text \<open>C28. The tree shows the directory: from the initialization on, after any sequence of calls that add and
  delete lockers, add connections as holders or waiting clients, add files, move connections
  from the waiting clients to the holders, delete connections, and keep the incubator, with
  identifiers that are used once, the tree is the directory that these changes describe, names,
  contents and order included, as long as memory is available.\<close>

theorem vfs_refines_directory:
  assumes "allocs_ok e" "list_all (allocs_ok \<circ> fst) calls" "ops_ok (map snd calls) empty_dir"
  shows "shows_dir (vfs_run calls (snd (flom_vfs_ram_tree_init e True v))) (dir_run (map snd calls) empty_dir)"
  using refine_run [OF conjunct2 [OF init_shape [OF assms(1)]] empty_dir_ok assms(2,3)]
  by (simp add: shows_dir_def shape_is_def)

definition sample_vfs_env :: vfs_env where
  "sample_vfs_env = \<lparr> ve_block = Some, ve_gnode = (\<lambda>k. True), ve_time = (\<lambda>k. 0) \<rparr>"

definition sample_calls :: "(vfs_env \<times> vfs_op) list" where
  "sample_calls = map (Pair sample_vfs_env)
     [Add_incubator_conn 1 ''a'' ''R'' ''simple'', Add_locker 2 ''R'' ''simple'', Del_conn 1 True,
      Add_locker_conn 2 1 True (Some ''a'') FLOM_LOCK_MODE_EX None None None,
      Add_locker_conn 2 3 False (Some ''b'') FLOM_LOCK_MODE_EX None None None, Move_locker_conn 3, Del_conn 1 False]"

theorem vfs_refines_directory_witness:
  "shows_dir (vfs_run sample_calls (snd (flom_vfs_ram_tree_init sample_vfs_env True \<lparr> vfs_active = False, vfs_root = None \<rparr>)))
     (dir_run (map snd sample_calls) empty_dir) \<and>
   map conns_of_locker (vd_lockers (dir_run (map snd sample_calls) empty_dir)) = [[3]]"
proof
  show "shows_dir (vfs_run sample_calls (snd (flom_vfs_ram_tree_init sample_vfs_env True \<lparr> vfs_active = False, vfs_root = None \<rparr>)))
     (dir_run (map snd sample_calls) empty_dir)"
  proof (rule vfs_refines_directory)
    show "allocs_ok sample_vfs_env" by (simp add: allocs_ok_def sample_vfs_env_def)
    then show "list_all (allocs_ok \<circ> fst) sample_calls" by (simp add: sample_calls_def)
    show "ops_ok (map snd sample_calls) empty_dir"
      by (simp add: sample_calls_def empty_dir_def on_locker_def dir_uids_def conns_of_locker_def)
  qed
  show "map conns_of_locker (vd_lockers (dir_run (map snd sample_calls) empty_dir)) = [[3]]"
    by (simp add: sample_calls_def empty_dir_def on_locker_def conns_of_locker_def)
qed

section \<open>Files and directories\<close>

text \<open>
  The typing of the tree, whatever fails: a node has a content exactly when it has the name of a
  file, and a node with a content has no children.  A node whose data block was freed has no type.
\<close>

definition data_ok :: "flom_vfs_ram_node option \<Rightarrow> bool \<Rightarrow> bool" where
  "data_ok d is_leaf = (case d of None \<Rightarrow> True
     | Some n \<Rightarrow> (rn_content n \<noteq> None) = (rn_name n \<in> set file_names) \<and> (rn_content n = None \<or> is_leaf))"

fun tree_ok :: "ram_tree \<Rightarrow> bool" where
  "tree_ok (VNode d ts) = (data_ok d (ts = []) \<and> list_all tree_ok ts)"

definition is_dir :: "flom_vfs_ram_node option \<Rightarrow> bool" where
  "is_dir d = (case d of None \<Rightarrow> True | Some n \<Rightarrow> rn_content n = None)"

definition vfs_ok :: "flom_vfs_ram_tree \<Rightarrow> bool" where
  "vfs_ok v \<longleftrightarrow> (vfs_active v \<longrightarrow> vfs_root v \<noteq> None \<and> tree_ok (the (vfs_root v)))"

definition dir_at :: "path \<Rightarrow> flom_vfs_ram_tree \<Rightarrow> bool" where
  "dir_at p v \<longleftrightarrow> vt_valid p (the (vfs_root v)) \<and> is_dir (vt_data (vt_get p (the (vfs_root v))))"

lemma tree_ok_alt: "tree_ok t \<longleftrightarrow> data_ok (vt_data t) (vt_children t = []) \<and> list_all tree_ok (vt_children t)"
  by (cases t) simp

lemma tree_ok_child: "tree_ok t \<Longrightarrow> i < length (vt_children t) \<Longrightarrow> tree_ok (vt_children t ! i)"
  by (cases t) (simp add: list_all_length)

lemma tree_ok_get: "tree_ok t \<Longrightarrow> vt_valid p t \<Longrightarrow> tree_ok (vt_get p t)"
  by (induction p arbitrary: t) (simp_all add: path_simps tree_ok_child)

lemma tree_ok_upd:
  assumes "tree_ok t" "vt_valid p t \<Longrightarrow> tree_ok (f (vt_get p t))"
  shows "tree_ok (vt_upd p f t)"
  using assms
proof (induction p arbitrary: t)
  case (Cons i p)
  obtain d ts where t: "t = VNode d ts" by (cases t)
  show ?case
  proof (cases "i < length ts")
    case True
    then have "tree_ok (vt_upd p f (ts ! i))"
      using Cons t by (intro Cons.IH) (auto simp: list_all_length path_simps)
    then show ?thesis
      using Cons.prems(1) True t by (auto simp: list_all_length nth_list_update)
  next
    case False
    then show ?thesis using Cons.prems(1) t by (simp add: list_update_beyond)
  qed
qed simp

lemma vt_get_upd: "vt_valid p t \<Longrightarrow> vt_get (p @ q) (vt_upd p f t) = vt_get q (f (vt_get p t))"
  by (induction p arbitrary: t) (auto simp: path_simps)

lemma vt_valid_upd: "vt_valid p t \<Longrightarrow> vt_valid (p @ q) (vt_upd p f t) = vt_valid q (f (vt_get p t))"
  by (induction p arbitrary: t) (auto simp: path_simps)

lemma data_ok_dir: "is_dir d \<Longrightarrow> data_ok d e \<Longrightarrow> data_ok d e'"
  by (auto simp: data_ok_def is_dir_def split: option.splits)

lemma tree_ok_append:
  assumes "tree_ok t" "tree_ok c" "vt_valid p t \<Longrightarrow> is_dir (vt_data (vt_get p t))"
  shows "tree_ok (vt_append p c t)"
  unfolding vt_append_def
proof (rule tree_ok_upd [OF assms(1)])
  assume p: "vt_valid p t"
  obtain d ts where t: "vt_get p t = VNode d ts" by (cases "vt_get p t")
  have "tree_ok (VNode d ts)" using tree_ok_get [OF assms(1) p] t by simp
  then show "tree_ok (VNode (vt_data (vt_get p t)) (vt_children (vt_get p t) @ [c]))"
    using assms(2) assms(3) [OF p] t data_ok_dir by auto
qed

lemma tree_ok_unlink: "tree_ok t \<Longrightarrow> tree_ok (vt_unlink p t)"
  unfolding vt_unlink_def
proof (rule tree_ok_upd)
  assume "tree_ok t" "vt_valid (butlast p) t"
  then have "tree_ok (vt_get (butlast p) t)" by (rule tree_ok_get)
  then show "tree_ok (VNode (vt_data (vt_get (butlast p) t))
      (take (last p) (vt_children (vt_get (butlast p) t)) @ drop (Suc (last p)) (vt_children (vt_get (butlast p) t))))"
    by (auto simp: tree_ok_alt [of "vt_get (butlast p) t"] list_all_iff data_ok_def split: option.splits
        dest: in_set_takeD in_set_dropD)
qed

lemma tree_ok_mtime:
  assumes "tree_ok t"
  shows "tree_ok (vt_upd p (\<lambda>t. VNode (map_option (\<lambda>n. n\<lparr>rn_mtime := now\<rparr>) (vt_data t)) (vt_children t)) t)"
  using assms
  by (rule tree_ok_upd)
     (auto dest!: tree_ok_get [OF assms] simp: tree_ok_alt [of "vt_get p t"] data_ok_def split: option.splits)

lemma created:
  assumes "flom_vfs_ram_node_create e k name content = Some d" "(content \<noteq> None) = (name \<in> set file_names)"
  shows "tree_ok (leaf d)" "content = None \<Longrightarrow> is_dir (Some d)" "rn_name d = name"
  using assms by (auto simp: flom_vfs_ram_node_create_def leaf_def data_ok_def is_dir_def)

text \<open>The steps of the operations.\<close>

lemma ok_append:
  assumes "vfs_ok v" "vfs_active v" "tree_ok (leaf d)" "dir_at p v"
  shows "vfs_ok (append_data p d v)" "dir_at p (append_data p d v)"
    "is_dir (Some d) \<Longrightarrow> dir_at (last_child p (append_data p d v)) (append_data p d v)"
    "butlast (last_child p (append_data p d v)) = p"
proof -
  show "vfs_ok (append_data p d v)"
    using assms by (simp add: vfs_ok_def append_data_def set_tree_def dir_at_def tree_ok_append)
  have "vt_get p (vt_append p (leaf d) t) = VNode (vt_data (vt_get p t)) (vt_children (vt_get p t) @ [leaf d])"
    "vt_valid p (vt_append p (leaf d) t)" if "vt_valid p t" for t
    using vt_get_upd [OF that, of "[]"] vt_valid_upd [OF that, of "[]"] by (simp_all add: vt_append_def)
  then show "dir_at p (append_data p d v)"
    "is_dir (Some d) \<Longrightarrow> dir_at (last_child p (append_data p d v)) (append_data p d v)"
    using assms(4)
    by (simp_all add: dir_at_def append_data_def set_tree_def last_child_def vt_valid_append vt_get_append path_simps leaf_def)
  show "butlast (last_child p (append_data p d v)) = p" by (simp add: last_child_def)
qed

lemma append_active [simp]: "vfs_active (append_data p d v) = vfs_active v"
  by (simp add: append_data_def set_tree_def)

lemma ok_mtime:
  assumes "vfs_ok v" "vfs_active v" "flom_vfs_ram_tree_update_mtime now p v = (rc, v')"
  shows "vfs_ok v'" "vfs_active v'" "rc = FLOM_RC_OK" "dir_at (p @ q) v \<Longrightarrow> dir_at (p @ q) v'"
proof -
  let ?f = "\<lambda>t. VNode (map_option (\<lambda>n. n\<lparr>rn_mtime := now\<rparr>) (vt_data t)) (vt_children t)"
  have v': "v' = set_tree (vt_upd p ?f (the (vfs_root v))) v" "rc = FLOM_RC_OK"
    using assms(2,3) by (auto simp: flom_vfs_ram_tree_update_mtime_def)
  show "vfs_ok v'" "vfs_active v'"
    using assms(1,2) v' tree_ok_mtime by (auto simp: vfs_ok_def set_tree_def)
  show "rc = FLOM_RC_OK" by (rule v'(2))
  assume "dir_at (p @ q) v"
  then have "vt_valid p (the (vfs_root v))" "vt_valid q (vt_get p (the (vfs_root v)))"
    "is_dir (vt_data (vt_get q (vt_get p (the (vfs_root v)))))"
    by (simp_all add: dir_at_def vt_valid_append vt_get_append)
  moreover have "vt_valid q (?f t) = vt_valid q t" "is_dir (vt_data (vt_get q (?f t))) = is_dir (vt_data (vt_get q t))" for t
    by (cases q; simp add: path_simps is_dir_def split: option.splits)+
  ultimately show "dir_at (p @ q) v'"
    by (simp add: dir_at_def v'(1) set_tree_def vt_valid_upd vt_get_upd)
qed

lemma ok_find:
  assumes "vfs_ok v" "vfs_active v" "vt_valid start (the (vfs_root v))" "name \<notin> set file_names"
    and "flom_vfs_ram_tree_find_node_by_name v start name = Inr p"
  shows "dir_at p v"
proof -
  let ?t = "the (vfs_root v)"
  obtain q where q: "vt_find (has_name name) (vt_get start ?t) = Some q" "p = start @ q"
    using assms(2,5) by (auto simp: flom_vfs_ram_tree_find_node_by_name_def split: option.splits)
  then have valid: "vt_valid p ?t" "has_name name (vt_data (vt_get p ?t))"
    using vt_find_sound [OF q(1)] assms(3) by (auto simp: vt_valid_append vt_get_append)
  have "tree_ok (vt_get p ?t)" using assms(1,2) valid(1) by (simp add: vfs_ok_def tree_ok_get)
  then have "is_dir (vt_data (vt_get p ?t))"
    using valid(2) assms(4) by (auto simp: tree_ok_alt [of "vt_get p ?t"] data_ok_def has_name_def is_dir_def split: option.splits)
  then show ?thesis using valid(1) by (simp add: dir_at_def)
qed

lemma number_no_file [simp]: "string_of_nat u \<notin> set file_names"
  using file_name_not_number by blast

lemma word_no_file [simp]:
  "''lockers'' \<notin> set file_names" "''incubator'' \<notin> set file_names" "''holders'' \<notin> set file_names"
  "''waitings'' \<notin> set file_names" "''/'' \<notin> set file_names" "''status'' \<notin> set file_names"
  by (simp_all add: file_names_def)

lemma dir_at_valid: "dir_at p v \<Longrightarrow> vt_valid p (the (vfs_root v))"
  by (simp add: dir_at_def)

lemma ok_cleanup: "vfs_ok v \<Longrightarrow> vfs_ok (flom_vfs_ram_tree_cleanup p v)"
  by (auto simp: vfs_ok_def flom_vfs_ram_tree_cleanup_def tree_ok_unlink split: option.split)

definition entry_ok :: "string \<times> string option \<Rightarrow> bool" where
  "entry_ok f \<longleftrightarrow> (snd f \<noteq> None) = (fst f \<in> set file_names)"

lemma ok_entries:
  "vfs_ok v \<Longrightarrow> vfs_active v \<Longrightarrow> dir_at p v \<Longrightarrow> list_all entry_ok es \<Longrightarrow> add_entries e k p es v = (rc, v') \<Longrightarrow>
     vfs_ok v' \<and> vfs_active v' \<and> dir_at p v'"
proof (induction e k p es v arbitrary: rc v' rule: add_entries.induct)
  case (2 e k p name content es v)
  then show ?case
    by (auto simp: entry_ok_def ok_append(1,2) created split: option.splits if_splits)
qed simp

lemma ok_add_file:
  assumes "vfs_ok v" "vfs_active v" "dir_at p v" "name \<in> set file_names"
    and "flom_vfs_ram_tree_add_file e k p name (Some content) v = (rc, v')"
  shows "vfs_ok v' \<and> vfs_active v' \<and> dir_at p v'"
proof (cases "flom_vfs_ram_node_create e k name (Some content)")
  case None
  then show ?thesis using assms by (simp add: flom_vfs_ram_tree_add_file_def)
next
  case (Some d)
  then have "tree_ok (leaf d)" using assms(4) by (intro created) auto
  then show ?thesis
    using Some assms ok_append(1,2) [OF assms(1,2) _ assms(3)]
    by (auto simp: flom_vfs_ram_tree_add_file_def split: if_splits)
qed

lemma ok_files:
  "vfs_ok v \<Longrightarrow> vfs_active v \<Longrightarrow> dir_at p v \<Longrightarrow> list_all (\<lambda>f. fst f \<in> set file_names) fs \<Longrightarrow> add_files e k p fs v = (rc, v') \<Longrightarrow>
     vfs_ok v' \<and> vfs_active v' \<and> dir_at p v'"
proof (induction fs arbitrary: k v)
  case (Cons x fs)
  obtain name content where x: "x = (name, content)" by (cases x)
  obtain rc1 v1 where v1: "flom_vfs_ram_tree_add_file e k p name (Some content) v = (rc1, v1)" by fastforce
  have "vfs_ok v1 \<and> vfs_active v1 \<and> dir_at p v1"
    using ok_add_file [OF Cons.prems(1-3) _ v1] Cons.prems(4) x by simp
  then show ?case
    using Cons.IH [of v1 "Suc k"] Cons.prems(4,5) v1 x by (auto split: if_splits)
qed simp

lemma ok_find_top:
  "vfs_ok v \<Longrightarrow> vfs_active v \<Longrightarrow> flom_vfs_ram_tree_find_node_by_name v [] n = Inr p \<Longrightarrow> n \<notin> set file_names \<Longrightarrow> dir_at p v"
  by (rule ok_find) auto

lemma ok_find_below:
  "vfs_ok v \<Longrightarrow> vfs_active v \<Longrightarrow> flom_vfs_ram_tree_find_node_by_name v q n = Inr p \<Longrightarrow> dir_at q v \<Longrightarrow> n \<notin> set file_names \<Longrightarrow>
     dir_at p v"
  by (rule ok_find) (auto dest: dir_at_valid)

lemma ok_conn_file:
  assumes "vfs_ok v" "vfs_active v" "name \<in> set file_names"
    and "flom_vfs_ram_tree_add_locker_conn_file e k u c name content v = (rc, v')"
  shows "vfs_ok v' \<and> vfs_active v'"
proof -
  note defs = flom_vfs_ram_tree_add_locker_conn_file_def
  show ?thesis
  proof (cases "content = None \<or> isl (flom_vfs_ram_tree_find_node_by_name v [] ''lockers'')")
    case True
    then show ?thesis using assms by (auto simp: defs split: sum.splits if_splits)
  next
    case False
    then obtain y p1 where p1: "content = Some y" "flom_vfs_ram_tree_find_node_by_name v [] ''lockers'' = Inr p1"
      by (cases "flom_vfs_ram_tree_find_node_by_name v [] ''lockers''") auto
    have d1: "dir_at p1 v" by (rule ok_find_top [OF assms(1,2) p1(2)]) simp
    show ?thesis
    proof (cases "flom_vfs_ram_tree_find_node_by_name v p1 (string_of_nat u)")
      case (Inr p2)
      have d2: "dir_at p2 v" by (rule ok_find_below [OF assms(1,2) Inr d1]) simp
      show ?thesis
      proof (cases "flom_vfs_ram_tree_find_node_by_name v p2 (string_of_nat c)")
        case Inr3: (Inr p3)
        have d3: "dir_at p3 v" by (rule ok_find_below [OF assms(1,2) Inr3 d2]) simp
        show ?thesis
        proof (cases "flom_vfs_ram_node_create e k name (Some y)")
          case (Some d)
          have "tree_ok (leaf d)" using created(1) [OF Some] assms(3) by simp
          then show ?thesis
            using Some Inr Inr3 p1 assms(1,2,4) ok_append(1) [OF assms(1,2) _ d3] by (auto simp: defs)
        qed (use Inr Inr3 p1 assms in \<open>simp add: defs\<close>)
      qed (use Inr p1 assms in \<open>simp add: defs\<close>)
    qed (use p1 assms in \<open>simp add: defs\<close>)
  qed
qed

lemma ok_conn_files:
  "vfs_ok v \<Longrightarrow> vfs_active v \<Longrightarrow> list_all (\<lambda>f. fst f \<in> set file_names) fs \<Longrightarrow> add_conn_files e k u c fs v = (rc, v') \<Longrightarrow>
     vfs_ok v' \<and> vfs_active v'"
proof (induction e k u c fs v arbitrary: rc v' rule: add_conn_files.induct)
  case (2 e k u c name content fs v)
  then show ?case
    by (auto split: prod.splits if_splits dest: ok_conn_file)
qed simp

lemma ok_add_locker:
  assumes "vfs_ok v"
  shows "vfs_ok (snd (flom_vfs_ram_tree_add_locker e u name type v))"
proof (cases "vfs_active v")
  case act: True
  show ?thesis
  proof (cases "flom_vfs_ram_tree_find_node_by_name v [] ''lockers''")
    case (Inr p)
    have p: "dir_at p v" by (rule ok_find_top [OF assms act Inr]) simp
    show ?thesis
    proof (cases "flom_vfs_ram_node_create e 0 (string_of_nat u) None")
      case (Some d)
      have d: "tree_ok (leaf d)" "is_dir (Some d)" by (rule created [OF Some]; simp)+
      let ?v1 = "append_data p d v" and ?q = "last_child p (append_data p d v)"
      note v1 = ok_append [OF assms act d(1) p]
      obtain rc2 v2 where v2: "flom_vfs_ram_tree_update_mtime (ve_time e 5) p ?v1 = (rc2, v2)" by fastforce
      have q: "?q = p @ [last ?q]" using v1(4) by (simp add: last_child_def)
      have ok2: "vfs_ok v2" "vfs_active v2" "rc2 = FLOM_RC_OK" "dir_at ?q v2"
        using ok_mtime(1-3) [OF v1(1) _ v2] ok_mtime(4) [OF v1(1) _ v2, of "[last ?q]"] act v1(3) d(2) q by simp_all
      let ?es = "[(''resource_name'', Some (print_line name)), (''resource_type'', Some (print_line type)), (''holders'', None)]"
      obtain rc3 v3 where v3: "add_entries e 1 ?q ?es v2 = (rc3, v3)" by fastforce
      have ok3: "vfs_ok v3 \<and> vfs_active v3 \<and> dir_at ?q v3"
        by (rule ok_entries [OF ok2(1,2,4) _ v3]) (simp add: entry_ok_def file_names_def)
      obtain rc4 v4 where v4: "add_entries e 4 ?q [(''waitings'', None)] v3 = (rc4, v4)" by fastforce
      have ok4: "vfs_ok v4 \<and> vfs_active v4 \<and> dir_at ?q v4"
        using ok3 by (intro ok_entries [OF _ _ _ _ v4]) (simp_all add: entry_ok_def)
      have "tree_ok (flom_vfs_ram_node_destroy r t)" if "tree_ok t" for r t
        unfolding flom_vfs_ram_node_destroy_def
        using that by (rule tree_ok_upd) (use tree_ok_get [OF that, of r] in \<open>simp add: tree_ok_alt [of "vt_get r t"] data_ok_def\<close>)
      then have "vfs_ok (set_tree (flom_vfs_ram_node_destroy r (the (vfs_root v4))) v4)" for r
        using ok4 by (simp add: vfs_ok_def set_tree_def)
      then show ?thesis
        using Inr Some act assms ok2(3) ok3 ok4 v2 v3 v4
        by (simp add: flom_vfs_ram_tree_add_locker_def Let_def del: add_entries.simps)
    qed (use Inr act assms in \<open>simp add: flom_vfs_ram_tree_add_locker_def\<close>)
  qed (use act assms in \<open>simp add: flom_vfs_ram_tree_add_locker_def\<close>)
qed (use assms in \<open>simp add: flom_vfs_ram_tree_add_locker_def\<close>)

lemma ok_add_conn:
  assumes "vfs_ok v"
  shows "vfs_ok (snd (flom_vfs_ram_tree_add_locker_conn e u c h peer mode q sq ts v))"
proof -
  obtain rc v' where res: "flom_vfs_ram_tree_add_locker_conn e u c h peer mode q sq ts v = (rc, v')" by fastforce
  consider "v' = v" | p1 p2 p3 d rc1 v1 where "vfs_active v" "flom_vfs_ram_tree_find_node_by_name v [] ''lockers'' = Inr p1"
    "flom_vfs_ram_tree_find_node_by_name v p1 (string_of_nat u) = Inr p2"
    "flom_vfs_ram_tree_find_node_by_name v p2 (if h then ''holders'' else ''waitings'') = Inr p3"
    "flom_vfs_ram_node_create e 0 (string_of_nat c) None = Some d"
    "flom_vfs_ram_tree_update_mtime (ve_time e 6) p3 (append_data p3 d v) = (rc1, v1)"
    "(rc, v') = (if rc1 \<noteq> FLOM_RC_OK then (rc1, v1) else add_conn_files e 1 u c (conn_files peer mode q sq ts) v1)"
    using res by (auto simp: flom_vfs_ram_tree_add_locker_conn_def split: sum.splits option.splits if_split_asm prod.splits)
  then have "vfs_ok v'"
  proof cases
    case 2
    have p1: "dir_at p1 v" by (rule ok_find_top [OF assms 2(1,2)]) simp
    have p2: "dir_at p2 v" by (rule ok_find_below [OF assms 2(1,3) p1]) simp
    have p3: "dir_at p3 v" by (rule ok_find_below [OF assms 2(1,4) p2]) simp
    have "tree_ok (leaf d)" using created(1) [OF 2(5)] by simp
    then have "vfs_ok (append_data p3 d v)" using ok_append(1) [OF assms 2(1) _ p3] by simp
    then have ok1: "vfs_ok v1" "vfs_active v1" "rc1 = FLOM_RC_OK"
      using ok_mtime(1-3) [OF _ _ 2(6)] 2(1) by simp_all
    have names: "list_all (\<lambda>f. fst f \<in> set file_names) (conn_files peer mode q sq ts)"
      by (auto simp: conn_files_def file_names_def split: option.splits if_splits)
    show ?thesis using ok_conn_files [OF ok1(1,2) names] 2(7) ok1(3) by (metis (no_types, lifting))
  qed (simp add: assms)
  then show ?thesis using res by simp
qed

lemma ok_add_incubator:
  assumes "vfs_ok v"
  shows "vfs_ok (snd (flom_vfs_ram_tree_add_incubator_conn e c peer name type v))"
proof (cases "vfs_active v")
  case act: True
  show ?thesis
  proof (cases "flom_vfs_ram_tree_find_node_by_name v [] ''incubator''")
    case (Inr p)
    have p: "dir_at p v" by (rule ok_find_top [OF assms act Inr]) simp
    show ?thesis
    proof (cases "flom_vfs_ram_node_create e 0 (string_of_nat c) None")
      case (Some d)
      have d: "tree_ok (leaf d)" "is_dir (Some d)" by (rule created [OF Some]; simp)+
      let ?v1 = "append_data p d v" and ?q = "last_child p (append_data p d v)"
      note v1 = ok_append [OF assms act d(1) p]
      obtain rc2 v2 where v2: "flom_vfs_ram_tree_update_mtime (ve_time e 4) p ?v1 = (rc2, v2)" by fastforce
      have q: "?q = p @ [last ?q]" using v1(4) by (simp add: last_child_def)
      have ok2: "vfs_ok v2" "vfs_active v2" "rc2 = FLOM_RC_OK" "dir_at ?q v2"
        using ok_mtime(1-3) [OF v1(1) _ v2] ok_mtime(4) [OF v1(1) _ v2, of "[last ?q]"] act v1(3) d(2) q by simp_all
      let ?fs = "[(''peer_name'', print_line peer), (''resource_name'', print_line name), (''resource_type'', print_line type)]"
      obtain rc3 v3 where v3: "add_files e 1 ?q ?fs v2 = (rc3, v3)" by fastforce
      have "vfs_ok v3 \<and> vfs_active v3 \<and> dir_at ?q v3"
        by (rule ok_files [OF ok2(1,2,4) _ v3]) (simp add: file_names_def)
      then show ?thesis
        using Inr Some act assms ok2(3) v2 v3
        by (simp add: flom_vfs_ram_tree_add_incubator_conn_def Let_def del: add_files.simps)
    qed (use Inr act assms in \<open>simp add: flom_vfs_ram_tree_add_incubator_conn_def\<close>)
  qed (use act assms in \<open>simp add: flom_vfs_ram_tree_add_incubator_conn_def\<close>)
qed (use assms in \<open>simp add: flom_vfs_ram_tree_add_incubator_conn_def\<close>)

lemma ok_del_conn:
  assumes "vfs_ok v"
  shows "vfs_ok (snd (flom_vfs_ram_tree_del_conn e c incubating v))"
proof (cases "vfs_active v")
  case True
  have "vfs_ok v'" if "flom_vfs_ram_tree_update_mtime (ve_time e 0) p v = (rc, v')" for p rc v'
    using ok_mtime(1) [OF assms True that] .
  then show ?thesis
    using assms by (auto simp: flom_vfs_ram_tree_del_conn_def ok_cleanup split: sum.split option.split prod.split)
qed (use assms in \<open>simp add: flom_vfs_ram_tree_del_conn_def\<close>)

lemma ok_move:
  assumes "vfs_ok v"
  shows "vfs_ok (snd (flom_vfs_ram_tree_move_locker_conn e c v))"
proof -
  let ?find = "flom_vfs_ram_tree_find_node_by_name v" and ?parent = "flom_vfs_ram_tree_find_parent v"
  note defs = flom_vfs_ram_tree_move_locker_conn_def
  show ?thesis
  proof (cases "vfs_active v \<and> (\<exists>p w q g h. ?find [] ''lockers'' = Inr p \<and> ?find p (string_of_nat c) = Inr w \<and>
      ?parent w = Some q \<and> has_name ''waitings'' (vt_data (vt_get q (the (vfs_root v)))) \<and> ?parent q = Some g \<and>
      ?find g ''holders'' = Inr h)")
    case False
    then show ?thesis
      using assms by (simp add: defs split: sum.split option.split) blast
  next
    case True
    then obtain p w q g h where 2: "vfs_active v" "?find [] ''lockers'' = Inr p" "?find p (string_of_nat c) = Inr w"
      "?parent w = Some q" "has_name ''waitings'' (vt_data (vt_get q (the (vfs_root v))))" "?parent q = Some g"
      "?find g ''holders'' = Inr h" by blast
    obtain rc1 v1 where v1: "flom_vfs_ram_tree_update_mtime (ve_time e 0) q v = (rc1, v1)" by fastforce
    obtain rc2 v2 where v2: "flom_vfs_ram_tree_update_mtime (ve_time e 1) h v1 = (rc2, v2)" by fastforce
    obtain rc3 v3 where v3: "flom_vfs_ram_tree_update_mtime (ve_time e 2) w v2 = (rc3, v3)" by fastforce
    have res: "snd (flom_vfs_ram_tree_move_locker_conn e c v) =
        set_tree (vt_unlink w (vt_append h (vt_get w (the (vfs_root v3))) (the (vfs_root v3)))) v3"
      using 2 v1 v2 v3 by (simp add: defs Let_def)
    have p: "dir_at p v" by (rule ok_find_top [OF assms 2(1,2)]) simp
    have w: "dir_at w v" by (rule ok_find_below [OF assms 2(1,3) p]) simp
    have g: "vt_valid g (the (vfs_root v))" "g = butlast (butlast w)"
    proof -
      show "g = butlast (butlast w)" using 2(4,6) by (auto simp: flom_vfs_ram_tree_find_parent_def split: if_splits)
      have "vt_valid (butlast q) t" if "vt_valid q t" for q and t :: ram_tree
        using that by (cases q rule: rev_cases) (auto simp: vt_valid_append)
      then show "vt_valid g (the (vfs_root v))" using w \<open>g = _\<close> by (simp add: dir_at_def)
    qed
    have h: "dir_at h v" by (rule ok_find [OF assms 2(1) g(1) _ 2(7)]) simp
    have keep: "vfs_ok v2 \<and> vfs_active v2 \<and> (\<forall>q. dir_at q v1 \<longrightarrow> dir_at q v2)"
      if ok: "vfs_ok v1" "vfs_active v1" "flom_vfs_ram_tree_update_mtime now p v1 = (rc, v2)" for now p rc v1 v2
    proof -
      have "map_vtree is_dir (the (vfs_root v2)) = map_vtree is_dir (the (vfs_root v1))"
        using ok(2,3) vt_upd_data_map [where f = is_dir and g = "map_option (rn_mtime_update (\<lambda>_. now))"]
        by (auto simp: flom_vfs_ram_tree_update_mtime_def set_tree_def is_dir_def split: option.split)
      then have "vt_valid q (the (vfs_root v2)) = vt_valid q (the (vfs_root v1)) \<and>
          (vt_valid q (the (vfs_root v1)) \<longrightarrow>
            is_dir (vt_data (vt_get q (the (vfs_root v2)))) = is_dir (vt_data (vt_get q (the (vfs_root v1)))))" for q
        using vt_valid_map vt_get_map vt_data_map by metis
      then show ?thesis using ok_mtime(1,2) [OF ok] by (auto simp: dir_at_def)
    qed
    have "vfs_ok v3 \<and> vfs_active v3 \<and> dir_at w v3 \<and> dir_at h v3"
      using keep [OF _ _ v1] keep [OF _ _ v2] keep [OF _ _ v3] assms 2(1) w h by blast
    then show ?thesis
      unfolding res by (simp add: vfs_ok_def set_tree_def dir_at_def tree_ok_unlink tree_ok_append tree_ok_get)
  qed
qed

lemma ok_step:
  assumes "vfs_ok v" "case op of Add_locker_conn_file u c name content \<Rightarrow> name \<in> set file_names | _ \<Rightarrow> True"
  shows "vfs_ok (snd (vfs_step e op v))"
proof (cases op)
  case (Del_locker u)
  then show ?thesis
    using assms by (auto simp: flom_vfs_ram_tree_del_locker_def ok_cleanup split: sum.split)
next
  case (Add_locker_conn_file u c name content)
  show ?thesis
  proof (cases "vfs_active v")
    case True
    obtain rc v' where "flom_vfs_ram_tree_add_locker_conn_file e 0 u c name (Some content) v = (rc, v')" by fastforce
    then show ?thesis using ok_conn_file [OF assms(1) True] assms(2) Add_locker_conn_file by simp
  next
    case False
    then show ?thesis using assms(1) Add_locker_conn_file by (simp add: flom_vfs_ram_tree_add_locker_conn_file_def)
  qed
qed (use assms in \<open>simp_all add: ok_add_locker ok_add_conn ok_move ok_del_conn ok_add_incubator\<close>)

lemma leaf_ok: "flom_vfs_ram_node_create e k name None = Some d \<Longrightarrow> name \<notin> set file_names \<Longrightarrow> tree_ok (leaf d) \<and> is_dir (Some d)"
  using created [of e k name None d] by simp

lemma tree_ok_prepend:
  assumes "tree_ok t" "tree_ok c" "vt_valid p t \<Longrightarrow> is_dir (vt_data (vt_get p t))"
  shows "tree_ok (vt_prepend p c t)"
  unfolding vt_prepend_def
proof (rule tree_ok_upd [OF assms(1)])
  assume p: "vt_valid p t"
  obtain d ts where t: "vt_get p t = VNode d ts" by (cases "vt_get p t")
  have "tree_ok (VNode d ts)" using tree_ok_get [OF assms(1) p] t by simp
  then show "tree_ok (VNode (vt_data (vt_get p t)) (c # vt_children (vt_get p t)))"
    using assms(2) assms(3) [OF p] t data_ok_dir by auto
qed

lemma ok_init:
  assumes "\<not> vfs_active v"
  shows "vfs_ok (snd (flom_vfs_ram_tree_init e activate v))"
proof -
  have t1: "tree_ok (vt_prepend [] (leaf d1) (leaf d0))"
    if "tree_ok (leaf d0) \<and> is_dir (Some d0)" "tree_ok (leaf d1)" for d0 d1
    using that by (intro tree_ok_prepend) (simp_all add: leaf_def)
  have t2: "tree_ok (vt_prepend [0] (leaf d2) (vt_prepend [] (leaf d1) (leaf d0)))"
    if "tree_ok (leaf d0) \<and> is_dir (Some d0)" "tree_ok (leaf d1) \<and> is_dir (Some d1)" "tree_ok (leaf d2)" for d0 d1 d2
    using that t1 by (intro tree_ok_prepend) (simp_all add: leaf_def vt_prepend_def path_simps)
  have t3: "tree_ok (vt_prepend [0] (leaf d3) (vt_prepend [0] (leaf d2) (vt_prepend [] (leaf d1) (leaf d0))))"
    if "tree_ok (leaf d0) \<and> is_dir (Some d0)" "tree_ok (leaf d1) \<and> is_dir (Some d1)" "tree_ok (leaf d2)" "tree_ok (leaf d3)"
    for d0 d1 d2 d3
    using that t2 by (intro tree_ok_prepend) (simp_all add: leaf_def vt_prepend_def path_simps)
  show ?thesis
    using assms leaf_ok [of e] t1 t2 t3
    by (auto simp: flom_vfs_ram_tree_init_def vfs_ok_def Let_def split: option.split)
qed

definition op_named :: "vfs_op \<Rightarrow> bool" where
  "op_named op = (case op of Add_locker_conn_file u c name content \<Rightarrow> name \<in> set file_names | _ \<Rightarrow> True)"

lemma ok_run: "vfs_ok v \<Longrightarrow> list_all (op_named \<circ> snd) calls \<Longrightarrow> vfs_ok (vfs_run calls v)"
  by (induction calls v rule: vfs_run.induct) (auto simp: op_named_def intro!: ok_step)


definition no_memory_env :: vfs_env where
  "no_memory_env = sample_vfs_env\<lparr>ve_block := (\<lambda>k. if k = 4 then None else Some k)\<rparr>"


end
