(* ===== verification/Resource_Simple.thy ===== *)
theory Resource_Simple
  imports Rsrc
begin

text \<open>
  The simple resource, \<^verbatim>\<open>src/src/flom_resource_simple.c\<close>: locks with the six
  modes of the compatibility table, a list of holders and a queue of waiting
  clients.
\<close>

section \<open>State and operations\<close>

record flom_resource_simple =
  sr_name :: "string option"
  sr_holders :: "flom_rsrc_conn_lock list"
  sr_waitings :: "flom_rsrc_conn_lock list"

fun simple_holders_allow ::
  "env \<Rightarrow> flom_rsrc_conn_lock list \<Rightarrow> flom_lock_mode \<Rightarrow> bool" where
  "simple_holders_allow e [] lock = True"
| "simple_holders_allow e (cl # p) lock =
     (if lock_table (e_oob e) (cl_lock_mode cl) lock then simple_holders_allow e p lock else False)"

definition flom_resource_simple_can_lock :: "env \<Rightarrow> flom_resource_simple \<Rightarrow> flom_lock_mode \<Rightarrow> bool" where
  "flom_resource_simple_can_lock e r lock = simple_holders_allow e (sr_holders r) lock"

definition flom_resource_simple_init :: "string option \<Rightarrow> rc \<times> flom_resource_simple" where
  "flom_resource_simple_init name =
     ((if name = None then FLOM_RC_G_STRDUP_ERROR else FLOM_RC_OK),
      \<lparr> sr_name = name, sr_holders = [], sr_waitings = [] \<rparr>)"

text \<open>The grant of a waiting request: the client is told, then it is a holder.\<close>

definition simple_grant_waiting ::
  "env \<Rightarrow> flom_resource_simple \<times> world \<Rightarrow> flom_rsrc_conn_lock \<Rightarrow> rc \<times> flom_resource_simple \<times> world" where
  "simple_grant_waiting e s cl =
     (case s of (r, w) \<Rightarrow>
        (case answer_waiting e (cl_conn cl) None w of
           (rc, w') \<Rightarrow>
             if rc \<noteq> FLOM_RC_OK then (rc, r, w')
             else (FLOM_RC_OK, r\<lparr>sr_holders := cl # sr_holders r\<rparr>,
                   vfs_log (Vfs_move_locker_conn (cl_conn cl)) w')))"

definition simple_can_waiting :: "env \<Rightarrow> flom_resource_simple \<times> world \<Rightarrow> flom_rsrc_conn_lock \<Rightarrow> bool" where
  "simple_can_waiting e s cl = flom_resource_simple_can_lock e (fst s) (cl_lock_mode cl)"

definition flom_resource_simple_waitings ::
  "env \<Rightarrow> flom_resource_simple \<Rightarrow> world \<Rightarrow> rc \<times> flom_resource_simple \<times> world" where
  "flom_resource_simple_waitings e r w =
     (case waitings_loop (simple_can_waiting e) (simple_grant_waiting e) 0 (r, w) (sr_waitings r) of
        (rc, (r', w'), q) \<Rightarrow> (rc, r'\<lparr>sr_waitings := q\<rparr>, w'))"

definition flom_resource_simple_clean ::
  "env \<Rightarrow> flom_resource_simple \<Rightarrow> conn \<Rightarrow> world \<Rightarrow> rc \<times> flom_resource_simple \<times> world" where
  "flom_resource_simple_clean e r c w =
     (case find (\<lambda>cl. cl_conn cl = c) (sr_holders r) of
        Some cl \<Rightarrow>
          (case flom_resource_simple_waitings e (r\<lparr>sr_holders := conn_remove (sr_holders r) c\<rparr>) w of
             (rc, r', w') \<Rightarrow>
               if rc \<noteq> FLOM_RC_OK then (rc, r', w')
               else (FLOM_RC_OK, r', vfs_log (Vfs_del_conn c) w'))
      | None \<Rightarrow>
          (FLOM_RC_OK, r\<lparr>sr_waitings := conn_remove (sr_waitings r) c\<rparr>, vfs_log (Vfs_del_conn c) w))"

definition flom_resource_simple_lock ::
  "env \<Rightarrow> flom_resource_simple \<Rightarrow> conn \<Rightarrow> flom_msg \<Rightarrow> world \<Rightarrow> rc \<times> flom_resource_simple \<times> flom_msg \<times> world" where
  "flom_resource_simple_lock e r c m w =
     (let new_lock = l8_mode (lock_8 m);
          can_wait = (l8_wait (lock_8 m) \<noteq> 0);
          can_lock = flom_resource_simple_can_lock e r new_lock in
      case flom_msg_free m of
        (rc, m1) \<Rightarrow>
          if rc \<noteq> FLOM_RC_OK then (rc, r, m1, w)
          else if can_lock then
            (case flom_rsrc_conn_lock_new e c of
               None \<Rightarrow> (FLOM_RC_G_TRY_MALLOC_ERROR, r, flom_msg_init, w)
             | Some cl0 \<Rightarrow>
                 let cl = cl0\<lparr>cl_lock_mode := new_lock\<rparr>;
                     r' = r\<lparr>sr_holders := cl # sr_holders r\<rparr>;
                     w' = vfs_log (Vfs_add_locker_conn c True new_lock None None None) w in
                 case build_lock_answer e w' c flom_msg_init FLOM_RC_OK None of
                   (rc, m2) \<Rightarrow> (rc, r', m2, w'))
          else if can_wait then
            (case flom_rsrc_conn_lock_new e c of
               None \<Rightarrow> (FLOM_RC_G_TRY_MALLOC_ERROR, r, flom_msg_init, w)
             | Some cl0 \<Rightarrow>
                 let cl = cl0\<lparr>cl_lock_mode := new_lock\<rparr>;
                     r' = r\<lparr>sr_waitings := sr_waitings r @ [cl]\<rparr>;
                     w' = vfs_log (Vfs_add_locker_conn c False new_lock None None None) w in
                 case build_lock_answer e w' c flom_msg_init FLOM_RC_LOCK_ENQUEUED None of
                   (rc, m2) \<Rightarrow> (rc, r', m2, w'))
          else
            (case build_lock_answer e w c flom_msg_init FLOM_RC_LOCK_BUSY None of
               (rc, m2) \<Rightarrow> (rc, r, m2, w)))"

definition flom_resource_simple_inmsg ::
  "env \<Rightarrow> flom_resource_simple \<Rightarrow> conn \<Rightarrow> flom_msg \<Rightarrow> world \<Rightarrow> rc \<times> flom_resource_simple \<times> flom_msg \<times> world" where
  "flom_resource_simple_inmsg e r c m w =
     (if msg_verb m = FLOM_MSG_VERB_LOCK then flom_resource_simple_lock e r c m w
      else if msg_verb m = FLOM_MSG_VERB_UNLOCK then
        (if sr_name r \<noteq> u8_name (unlock_8 m) then (FLOM_RC_INVALID_OPTION, r, m, w)
         else
           (case flom_resource_simple_clean e r c w of
              (rc, r', w') \<Rightarrow>
                if rc \<noteq> FLOM_RC_OK then (rc, r', m, w')
                else (case flom_msg_free m of
                        (rc, m') \<Rightarrow>
                          if rc \<noteq> FLOM_RC_OK then (rc, r', m', w')
                          else (FLOM_RC_OK, r', flom_msg_init, w'))))
      else (FLOM_RC_PROTOCOL_ERROR, r, m, w))"

definition flom_resource_simple_free :: "flom_resource_simple \<Rightarrow> flom_resource_simple" where
  "flom_resource_simple_free r = r\<lparr>sr_holders := [], sr_waitings := [], sr_name := None\<rparr>"

section \<open>Invariant\<close>

definition simple_ok_cl :: "flom_rsrc_conn_lock \<Rightarrow> bool" where
  "simple_ok_cl cl \<longleftrightarrow> valid_mode (cl_lock_mode cl)"

definition simple_ok_msg :: "flom_msg \<Rightarrow> bool" where
  "simple_ok_msg m \<longleftrightarrow> valid_mode (l8_mode (lock_8 m))"

definition simple_holders_ok :: "flom_rsrc_conn_lock list \<Rightarrow> bool" where
  "simple_holders_ok hs \<longleftrightarrow> (\<forall>cl \<in> set hs. simple_ok_cl cl)
     \<and> sorted_wrt (\<lambda>a b. compat (cl_lock_mode a) (cl_lock_mode b)) hs"

definition simple_inv :: "flom_resource_simple \<Rightarrow> bool" where
  "simple_inv r \<longleftrightarrow> simple_holders_ok (sr_holders r) \<and> (\<forall>cl \<in> set (sr_waitings r). simple_ok_cl cl)"

lemma simple_holders_allow_iff:
  "simple_holders_allow e hs lock \<longleftrightarrow> (\<forall>cl \<in> set hs. lock_table (e_oob e) (cl_lock_mode cl) lock)"
  by (induction hs) auto

lemma simple_can_lock_compat:
  assumes "\<forall>cl \<in> set (sr_holders r). simple_ok_cl cl" "valid_mode lock"
  shows "flom_resource_simple_can_lock e r lock \<longleftrightarrow>
    (\<forall>cl \<in> set (sr_holders r). compat lock (cl_lock_mode cl))"
  using assms
  by (auto simp: flom_resource_simple_can_lock_def simple_holders_allow_iff simple_ok_cl_def
      lock_table_compat compat_sym)

lemma simple_holders_ok_Cons:
  assumes "simple_holders_ok (sr_holders r)" "simple_ok_cl cl"
    "flom_resource_simple_can_lock e r (cl_lock_mode cl)"
  shows "simple_holders_ok (cl # sr_holders r)"
  using assms by (auto simp: simple_holders_ok_def simple_can_lock_compat simple_ok_cl_def)

lemma sorted_wrt_remove_first: "sorted_wrt P xs \<Longrightarrow> sorted_wrt P (remove_first Q xs)"
  by (induction xs) (use set_remove_first in fastforce)+

lemma simple_holders_ok_remove:
  "simple_holders_ok hs \<Longrightarrow> simple_holders_ok (conn_remove hs c)"
  using set_remove_first
  by (fastforce simp: simple_holders_ok_def conn_remove_def sorted_wrt_remove_first)

lemma simple_grant_waiting_result:
  "fst (snd (simple_grant_waiting e s cl)) =
     (if fst (simple_grant_waiting e s cl) = FLOM_RC_OK
      then (fst s)\<lparr>sr_holders := cl # sr_holders (fst s)\<rparr> else fst s)"
  by (auto simp: simple_grant_waiting_def split: prod.splits)

text \<open>The scan of the queue of a simple resource fulfils the three contracts.\<close>

interpretation simple_scan: exhaustive_scan
  "simple_can_waiting e" "simple_grant_waiting e"
  "\<lambda>s. simple_holders_ok (sr_holders (fst s))" simple_ok_cl
  for e
proof
  fix s c
  assume *: "simple_holders_ok (sr_holders (fst s))" "simple_ok_cl c" "simple_can_waiting e s c"
  then show "simple_holders_ok (sr_holders (fst (snd (simple_grant_waiting e s c))))"
    using simple_holders_ok_Cons [of "fst s" c e]
    by (simp add: simple_grant_waiting_result simple_can_waiting_def)
next
  fix s c d
  assume "simple_can_waiting e s c" "\<not> simple_can_waiting e s d"
  then show "\<not> simple_can_waiting e (snd (simple_grant_waiting e s c)) d"
    by (auto simp: simple_can_waiting_def flom_resource_simple_can_lock_def
        simple_holders_allow_iff simple_grant_waiting_result)
qed

interpretation simple_scan_cons: conserving_scan
  "simple_can_waiting e" "simple_grant_waiting e"
  "\<lambda>s. image_mset cl_conn (mset (sr_holders (fst s)))" cl_conn
  for e
  by unfold_locales (simp_all add: simple_grant_waiting_result)

lemma simple_waitings_inv:
  assumes "simple_inv r"
  shows "simple_inv (fst (snd (flom_resource_simple_waitings e r w)))"
proof -
  obtain rc r' w' q where l:
    "waitings_loop (simple_can_waiting e) (simple_grant_waiting e) 0 (r, w) (sr_waitings r) = (rc, (r', w'), q)"
    by (metis prod_cases3 surj_pair)
  have "simple_holders_ok (sr_holders r')"
    using simple_scan.loop_inv [of "(r, w)" "sr_waitings r" e] assms l by (simp add: simple_inv_def)
  moreover have "set q \<subseteq> set (sr_waitings r)"
    using l scan_queue_subset by (fastforce simp: waitings_loop_eq_scan)
  ultimately show ?thesis
    using assms l by (auto simp: flom_resource_simple_waitings_def simple_inv_def)
qed

lemma simple_clean_inv:
  assumes "simple_inv r"
  shows "simple_inv (fst (snd (flom_resource_simple_clean e r c w)))"
proof -
  have h: "simple_inv (r\<lparr>sr_holders := conn_remove (sr_holders r) c\<rparr>)"
    using assms by (simp add: simple_inv_def simple_holders_ok_remove)
  have q: "simple_inv (r\<lparr>sr_waitings := conn_remove (sr_waitings r) c\<rparr>)"
    using assms set_remove_first by (fastforce simp: simple_inv_def conn_remove_def)
  show ?thesis
    using q simple_waitings_inv [OF h, of e w]
    by (auto simp: flom_resource_simple_clean_def split: option.splits prod.splits)
qed

lemma simple_lock_inv:
  assumes "simple_inv r" "simple_ok_msg m"
  shows "simple_inv (fst (snd (flom_resource_simple_lock e r c m w)))"
  using assms
  by (auto simp: flom_resource_simple_lock_def simple_inv_def simple_ok_msg_def simple_ok_cl_def Let_def
      flom_rsrc_conn_lock_new_def simple_holders_ok_Cons
      split: option.splits prod.splits if_splits)

lemma simple_inmsg_inv:
  assumes "simple_inv r" "simple_ok_msg m"
  shows "simple_inv (fst (snd (flom_resource_simple_inmsg e r c m w)))"
  using assms simple_lock_inv simple_clean_inv [of r e c w]
  by (auto simp: flom_resource_simple_inmsg_def split: prod.splits)

interpretation simple_ops: resource_ops
  flom_resource_simple_inmsg flom_resource_simple_clean simple_inv any_env simple_ok_msg
  by unfold_locales (simp_all add: simple_inmsg_inv simple_clean_inv)

section \<open>No request that could be granted is left waiting\<close>

definition simple_quiet :: "flom_resource_simple \<Rightarrow> bool" where
  "simple_quiet r \<longleftrightarrow> simple_inv r \<and>
     (\<forall>d \<in> set (sr_waitings r). \<exists>cl \<in> set (sr_holders r). \<not> compat (cl_lock_mode d) (cl_lock_mode cl))"

lemma simple_grant_waiting_ok: "env_ok e \<Longrightarrow> fst (simple_grant_waiting e s cl) = FLOM_RC_OK"
  using answer_waiting_ok_None [of e "cl_conn cl" "snd s"]
  by (auto simp: simple_grant_waiting_def split: prod.splits)

lemma simple_waitings_ok:
  assumes "env_ok e"
  shows "fst (flom_resource_simple_waitings e r w) = FLOM_RC_OK"
  using scan_ok [of "simple_grant_waiting e" "simple_can_waiting e" "(r, w)" "sr_waitings r",
      OF simple_grant_waiting_ok [OF assms]]
  by (auto simp: flom_resource_simple_waitings_def waitings_loop_eq_scan split: prod.splits)

lemma simple_waitings_quiet:
  assumes "simple_inv r" "fst (flom_resource_simple_waitings e r w) = FLOM_RC_OK"
  shows "simple_quiet (fst (snd (flom_resource_simple_waitings e r w)))"
proof -
  obtain rc r' w' q where l:
    "waitings_loop (simple_can_waiting e) (simple_grant_waiting e) 0 (r, w) (sr_waitings r) = (rc, (r', w'), q)"
    by (metis prod_cases3 surj_pair)
  then have rc: "rc = FLOM_RC_OK" using assms(2) by (simp add: flom_resource_simple_waitings_def)
  have "\<forall>d \<in> set q. \<not> simple_can_waiting e (r', w') d"
    using simple_scan.loop_exhaustive [of "(r, w)" "sr_waitings r" e "(r', w')" q] l rc assms(1)
    by (simp add: simple_inv_def)
  moreover have "simple_inv (r'\<lparr>sr_waitings := q\<rparr>)"
    using simple_waitings_inv [OF assms(1), of e w] l by (simp add: flom_resource_simple_waitings_def)
  ultimately show ?thesis
    using l by (auto simp: flom_resource_simple_waitings_def simple_quiet_def simple_can_waiting_def
        simple_inv_def simple_holders_ok_def simple_can_lock_compat simple_ok_cl_def)
qed

lemma simple_clean_quiet:
  assumes "simple_quiet r" "fst (flom_resource_simple_clean e r c w) = FLOM_RC_OK"
  shows "simple_quiet (fst (snd (flom_resource_simple_clean e r c w)))"
proof (cases "find (\<lambda>cl. cl_conn cl = c) (sr_holders r)")
  case None
  have "simple_inv (fst (snd (flom_resource_simple_clean e r c w)))"
    using assms(1) by (simp add: simple_quiet_def simple_clean_inv)
  then show ?thesis
    using None assms(1) set_remove_first
    by (fastforce simp: flom_resource_simple_clean_def simple_quiet_def conn_remove_def)
next
  case (Some cl)
  let ?r = "r\<lparr>sr_holders := conn_remove (sr_holders r) c\<rparr>"
  have "simple_inv ?r"
    using assms(1) by (simp add: simple_quiet_def simple_inv_def simple_holders_ok_remove)
  then show ?thesis
    using Some assms(2) simple_waitings_quiet [of ?r e w]
    by (auto simp: flom_resource_simple_clean_def split: prod.splits if_splits)
qed

lemma simple_lock_quiet:
  assumes "simple_quiet r" "simple_ok_msg m"
  shows "simple_quiet (fst (snd (flom_resource_simple_lock e r c m w)))"
proof -
  have inv: "simple_inv (fst (snd (flom_resource_simple_lock e r c m w)))"
    using assms by (simp add: simple_quiet_def simple_lock_inv)
  have ok: "\<forall>cl \<in> set (sr_holders r). simple_ok_cl cl"
    using assms(1) by (simp add: simple_quiet_def simple_inv_def simple_holders_ok_def)
  have can: "flom_resource_simple_can_lock e r (l8_mode (lock_8 m)) \<longleftrightarrow>
      (\<forall>cl \<in> set (sr_holders r). compat (l8_mode (lock_8 m)) (cl_lock_mode cl))"
    using simple_can_lock_compat [OF ok] assms(2) by (simp add: simple_ok_msg_def)
  show ?thesis
    using assms(1) inv can
    by (auto simp: flom_resource_simple_lock_def simple_quiet_def Let_def flom_rsrc_conn_lock_new_def
        split: prod.splits if_splits)
qed

lemma simple_clean_ok: "env_ok e \<Longrightarrow> fst (flom_resource_simple_clean e r c w) = FLOM_RC_OK"
  using simple_waitings_ok
  by (auto simp: flom_resource_simple_clean_def split: option.splits prod.splits)
     (metis fst_conv)

lemma simple_inmsg_quiet:
  assumes "simple_quiet r" "env_ok e" "simple_ok_msg m"
  shows "simple_quiet (fst (snd (flom_resource_simple_inmsg e r c m w)))"
  using assms simple_lock_quiet [of r m e c w] simple_clean_quiet [of r e c w] simple_clean_ok
  by (auto simp: flom_resource_simple_inmsg_def split: prod.splits if_splits)

interpretation simple_ops_quiet: resource_ops
  flom_resource_simple_inmsg flom_resource_simple_clean simple_quiet env_ok simple_ok_msg
  by unfold_locales (simp_all add: simple_inmsg_quiet simple_clean_quiet simple_clean_ok)

section \<open>Abstract specification\<close>

text \<open>
  What a simple resource promises, without lists of lock records: the locks held
  are a multiset of pairs of a connection and a mode, the queue a list of such
  pairs.  A request is granted when it is compatible with every lock held, queued
  when the client accepts to wait, refused otherwise.  A release serves the queue
  in order; the connections served are the third component.
\<close>

type_synonym lock_spec = "(conn \<times> flom_lock_mode) multiset \<times> (conn \<times> flom_lock_mode) list"

definition spec_free :: "flom_lock_mode \<Rightarrow> (conn \<times> flom_lock_mode) multiset \<Rightarrow> bool" where
  "spec_free m H \<longleftrightarrow> (\<forall>p \<in># H. compat m (snd p))"

definition spec_request :: "conn \<Rightarrow> flom_lock_mode \<Rightarrow> bool \<Rightarrow> lock_spec \<Rightarrow> lock_spec \<times> rc" where
  "spec_request c m wait s =
     (if spec_free m (fst s) then ((add_mset (c, m) (fst s), snd s), FLOM_RC_OK)
      else if wait then ((fst s, snd s @ [(c, m)]), FLOM_RC_LOCK_ENQUEUED)
      else (s, FLOM_RC_LOCK_BUSY))"

fun spec_drain :: "(conn \<times> flom_lock_mode) multiset \<Rightarrow> (conn \<times> flom_lock_mode) list
    \<Rightarrow> lock_spec \<times> conn list" where
  "spec_drain H [] = ((H, []), [])"
| "spec_drain H (p # q) =
     (if spec_free (snd p) H
      then (case spec_drain (add_mset p H) q of (s, g) \<Rightarrow> (s, fst p # g))
      else (case spec_drain H q of ((H', q'), g) \<Rightarrow> ((H', p # q'), g)))"

definition spec_release :: "conn \<Rightarrow> lock_spec \<Rightarrow> lock_spec \<times> conn list" where
  "spec_release c s =
     (if \<exists>p \<in># fst s. fst p = c then spec_drain (filter_mset (\<lambda>p. fst p \<noteq> c) (fst s)) (snd s)
      else ((fst s, filter (\<lambda>p. fst p \<noteq> c) (snd s)), []))"

definition cl_pair :: "flom_rsrc_conn_lock \<Rightarrow> conn \<times> flom_lock_mode" where
  "cl_pair cl = (cl_conn cl, cl_lock_mode cl)"

definition simple_abs :: "flom_resource_simple \<Rightarrow> lock_spec" where
  "simple_abs r = (image_mset cl_pair (mset (sr_holders r)), map cl_pair (sr_waitings r))"

definition simple_distinct :: "flom_resource_simple \<Rightarrow> bool" where
  "simple_distinct r \<longleftrightarrow> distinct (map cl_conn (sr_holders r)) \<and> distinct (map cl_conn (sr_waitings r))"

lemma spec_free_can_lock:
  assumes "simple_holders_ok (sr_holders r)" "valid_mode m"
  shows "flom_resource_simple_can_lock e r m \<longleftrightarrow> spec_free m (image_mset cl_pair (mset (sr_holders r)))"
  using assms simple_can_lock_compat [of r m e]
  by (auto simp: simple_holders_ok_def spec_free_def cl_pair_def)

lemma distinct_remove_first_filter:
  "distinct (map f xs) \<Longrightarrow> remove_first (\<lambda>x. f x = c) xs = filter (\<lambda>x. f x \<noteq> c) xs"
  by (induction xs) (auto simp: image_iff intro!: filter_True [symmetric])

lemma cl_pair_simps [simp]: "fst (cl_pair cl) = cl_conn cl" "snd (cl_pair cl) = cl_lock_mode cl"
  by (simp_all add: cl_pair_def)

lemma simple_scan_refines:
  assumes "env_ok e" "simple_holders_ok (sr_holders (fst s))" "\<forall>c \<in> set q. simple_ok_cl c"
  shows "\<exists>r' w' q' g. scan (simple_can_waiting e) (simple_grant_waiting e) s q = (FLOM_RC_OK, (r', w'), q')
     \<and> spec_drain (image_mset cl_pair (mset (sr_holders (fst s)))) (map cl_pair q)
       = ((image_mset cl_pair (mset (sr_holders r')), map cl_pair q'), g)
     \<and> w_sent w' = rev (map (\<lambda>c. (c, lock_24_msg None)) g) @ w_sent (snd s)"
  using assms(2,3)
proof (induction q arbitrary: s)
  case Nil
  then show ?case by (cases s) auto
next
  case (Cons c q)
  obtain r w where s: "s = (r, w)" by force
  have can: "simple_can_waiting e s c \<longleftrightarrow> spec_free (cl_lock_mode c) (image_mset cl_pair (mset (sr_holders r)))"
    using Cons.prems s spec_free_can_lock [of r] by (simp add: simple_can_waiting_def simple_ok_cl_def)
  show ?case
  proof (cases "simple_can_waiting e s c")
    case True
    let ?r = "r\<lparr>sr_holders := c # sr_holders r\<rparr>"
    obtain w1 where g: "simple_grant_waiting e s c = (FLOM_RC_OK, ?r, w1)"
      and w1: "w_sent w1 = (cl_conn c, lock_24_msg None) # w_sent w"
      using assms(1) s lock_24_text_None
      by (simp add: simple_grant_waiting_def answer_waiting_eq env_ok_def)
    have "simple_holders_ok (c # sr_holders r)"
      using simple_holders_ok_Cons [of r c e] True Cons.prems s by (simp add: simple_can_waiting_def)
    then obtain r' w' q' g' where
      "scan (simple_can_waiting e) (simple_grant_waiting e) (?r, w1) q = (FLOM_RC_OK, (r', w'), q')"
      "spec_drain (add_mset (cl_pair c) (image_mset cl_pair (mset (sr_holders r)))) (map cl_pair q)
         = ((image_mset cl_pair (mset (sr_holders r')), map cl_pair q'), g')"
      "w_sent w' = rev (map (\<lambda>c. (c, lock_24_msg None)) g') @ w_sent w1"
      using Cons.IH [of "(?r, w1)"] Cons.prems by auto
    then show ?thesis
      using True can g w1 s by (intro exI [of _ r'] exI [of _ w'] exI [of _ q']) simp
  next
    case False
    then show ?thesis using Cons.IH [of s] Cons.prems can s by auto
  qed
qed

lemma simple_waitings_refines:
  assumes "env_ok e" "simple_inv r"
  shows "\<exists>r' w' g. flom_resource_simple_waitings e r w = (FLOM_RC_OK, r', w')
     \<and> spec_drain (fst (simple_abs r)) (snd (simple_abs r)) = (simple_abs r', g)
     \<and> w_sent w' = rev (map (\<lambda>c. (c, lock_24_msg None)) g) @ w_sent w"
  using assms simple_scan_refines [of e "(r, w)" "sr_waitings r"]
  by (force simp: simple_inv_def flom_resource_simple_waitings_def waitings_loop_eq_scan simple_abs_def)

lemma simple_clean_refines:
  assumes "env_ok e" "simple_inv r" "simple_distinct r"
  shows "\<exists>r' w' g. flom_resource_simple_clean e r c w = (FLOM_RC_OK, r', w')
     \<and> spec_release c (simple_abs r) = (simple_abs r', g)
     \<and> w_sent w' = rev (map (\<lambda>c. (c, lock_24_msg None)) g) @ w_sent w"
proof (cases "find (\<lambda>cl. cl_conn cl = c) (sr_holders r)")
  case None
  then have "\<not> (\<exists>p \<in># fst (simple_abs r). fst p = c)"
    by (auto simp: simple_abs_def find_None_set)
  moreover have "map cl_pair (conn_remove (sr_waitings r) c) = filter (\<lambda>p. fst p \<noteq> c) (map cl_pair (sr_waitings r))"
    using assms(3) by (simp add: simple_distinct_def conn_remove_def distinct_remove_first_filter
        filter_map comp_def)
  ultimately show ?thesis
    using None by (simp add: flom_resource_simple_clean_def spec_release_def simple_abs_def)
next
  case (Some cl)
  let ?r = "r\<lparr>sr_holders := conn_remove (sr_holders r) c\<rparr>"
  have "\<exists>p \<in># fst (simple_abs r). fst p = c"
    using find_Some_set [OF Some] by (auto simp: simple_abs_def)
  moreover have "filter_mset (\<lambda>p. fst p \<noteq> c) (fst (simple_abs r)) = fst (simple_abs ?r)"
    using assms(3) by (simp add: simple_distinct_def conn_remove_def distinct_remove_first_filter
        simple_abs_def filter_mset_image_mset)
  moreover have "simple_inv ?r"
    using assms(2) by (simp add: simple_inv_def simple_holders_ok_remove)
  ultimately show ?thesis
    using Some simple_waitings_refines [of e ?r w] assms(1)
    by (auto simp: flom_resource_simple_clean_def spec_release_def simple_abs_def)
qed

section \<open>Properties\<close>

text \<open>C3. Mutual exclusion of a simple resource: whatever the sequence of requests
  and disconnections, with any failure of memory, network or TLS in between, two
  locks held at the same time have modes that the compatibility table allows
  together, as long as the requested modes are the six of the protocol.\<close>

theorem simple_mutual_exclusion:
  assumes "list_all (ev_ok any_env simple_ok_msg) evs"
    and "(r, w') = rsrc_run flom_resource_simple_inmsg flom_resource_simple_clean evs
           (snd (flom_resource_simple_init (Some name)), w)"
    and "i < length (sr_holders r)" "j < length (sr_holders r)" "i \<noteq> j"
  shows "compat (cl_lock_mode (sr_holders r ! i)) (cl_lock_mode (sr_holders r ! j))"
proof -
  have "simple_inv (snd (flom_resource_simple_init (Some name)))"
    by (simp add: flom_resource_simple_init_def simple_inv_def simple_holders_ok_def)
  then have "simple_inv r"
    using simple_ops.run_rinv [OF _ assms(1,2)] by simp
  then have "sorted_wrt (\<lambda>a b. compat (cl_lock_mode a) (cl_lock_mode b)) (sr_holders r)"
    by (simp add: simple_inv_def simple_holders_ok_def)
  then show ?thesis
    using assms(3-5) compat_sym by (metis linorder_neqE_nat sorted_wrt_iff_nth_less)
qed

text \<open>The first two of three requests are granted together, the exclusive one waits.\<close>

definition sample_events :: "rsrc_event list" where
  "sample_events = [Ev_inmsg sample_env 1 (sample_lock FLOM_LOCK_MODE_PR),
     Ev_inmsg sample_env 2 (sample_lock FLOM_LOCK_MODE_PR),
     Ev_inmsg sample_env 3 (sample_lock FLOM_LOCK_MODE_EX)]"

theorem simple_mutual_exclusion_witness:
  "let r = fst (rsrc_run flom_resource_simple_inmsg flom_resource_simple_clean sample_events
                  (snd (flom_resource_simple_init (Some ''res'')), sample_world)) in
   map cl_conn (sr_holders r) = [2, 1] \<and> map cl_conn (sr_waitings r) = [3] \<and>
   compat (cl_lock_mode (sr_holders r ! 0)) (cl_lock_mode (sr_holders r ! 1))"
proof -
  let ?run = "rsrc_run flom_resource_simple_inmsg flom_resource_simple_clean sample_events
                  (snd (flom_resource_simple_init (Some ''res'')), sample_world)"
  obtain r w' where rw: "(r, w') = ?run" by (metis surj_pair)
  have ok: "list_all (ev_ok any_env simple_ok_msg) sample_events"
    by (simp add: sample_events_def simple_ok_msg_def sample_lock_def valid_mode_def)
  have h: "map cl_conn (sr_holders (fst ?run)) = [2, 1]" "map cl_conn (sr_waitings (fst ?run)) = [3]"
    by code_simp+
  then have "length (sr_holders r) = 2" using rw by (metis fst_conv length_map length_Cons list.size(3) numeral_2_eq_2)
  then have "compat (cl_lock_mode (sr_holders r ! 0)) (cl_lock_mode (sr_holders r ! 1))"
    using simple_mutual_exclusion [OF ok rw, of 0 1] by simp
  then show ?thesis using h rw by (metis fst_conv)
qed

text \<open>C35. No lost wake-up: as long as the network and the allocator do not fail, a
  client waits for a simple resource only while some lock that is held is
  incompatible with the mode it asked for.\<close>

theorem simple_no_lost_wakeup:
  assumes "list_all (ev_ok env_ok simple_ok_msg) evs"
    and "(r, w') = rsrc_run flom_resource_simple_inmsg flom_resource_simple_clean evs
           (snd (flom_resource_simple_init (Some name)), w)"
    and "d \<in> set (sr_waitings r)"
  shows "\<exists>cl \<in> set (sr_holders r). \<not> compat (cl_lock_mode d) (cl_lock_mode cl)"
proof -
  have "simple_quiet (snd (flom_resource_simple_init (Some name)))"
    by (simp add: flom_resource_simple_init_def simple_quiet_def simple_inv_def simple_holders_ok_def)
  then have "simple_quiet r"
    using simple_ops_quiet.run_rinv [OF _ assms(1,2)] by simp
  then show ?thesis using assms(3) by (simp add: simple_quiet_def)
qed

theorem simple_no_lost_wakeup_witness:
  "let r = fst (rsrc_run flom_resource_simple_inmsg flom_resource_simple_clean sample_events
                  (snd (flom_resource_simple_init (Some ''res'')), sample_world)) in
   sr_waitings r \<noteq> [] \<and>
   (\<exists>cl \<in> set (sr_holders r). \<not> compat (cl_lock_mode (hd (sr_waitings r))) (cl_lock_mode cl))"
proof -
  let ?run = "rsrc_run flom_resource_simple_inmsg flom_resource_simple_clean sample_events
                  (snd (flom_resource_simple_init (Some ''res'')), sample_world)"
  obtain r w' where rw: "(r, w') = ?run" by (metis surj_pair)
  have ok: "list_all (ev_ok env_ok simple_ok_msg) sample_events"
    by (simp add: sample_events_def simple_ok_msg_def sample_lock_def valid_mode_def env_ok_def sample_env_def)
  have "map cl_conn (sr_waitings (fst ?run)) = [3]" by code_simp
  then have "sr_waitings r \<noteq> []" using rw by (metis fst_conv list.simps(8) not_Cons_self2)
  then show ?thesis
    using simple_no_lost_wakeup [OF ok rw, of "hd (sr_waitings r)"] rw by (metis fst_conv hd_in_set)
qed


definition sample_simple :: flom_resource_simple where
  "sample_simple = fst (rsrc_run flom_resource_simple_inmsg flom_resource_simple_clean sample_events
     (snd (flom_resource_simple_init (Some ''res'')), sample_world))"

lemma sample_simple_inv: "simple_inv sample_simple"
proof -
  let ?s = "(snd (flom_resource_simple_init (Some ''res'')), sample_world)"
  have i: "simple_inv (fst ?s)"
    by (simp add: flom_resource_simple_init_def simple_inv_def simple_holders_ok_def)
  have ok: "list_all (ev_ok any_env simple_ok_msg) sample_events"
    by (simp add: sample_events_def simple_ok_msg_def sample_lock_def valid_mode_def)
  show ?thesis
    unfolding sample_simple_def by (rule simple_ops.run_rinv [OF i ok]) (rule prod.collapse)
qed




text \<open>The mode of a request is not checked against the six modes: on a resource
  that nobody holds any number is granted, and the answer is the one of a success.\<close>

theorem simple_grants_unknown_mode:
  assumes "lock_request m" "env_ok e" "w_last_step w c = 8" "sr_holders r = []"
  shows "\<exists>cl w'. flom_resource_simple_inmsg e r c m w
           = (FLOM_RC_OK, r\<lparr>sr_holders := [cl]\<rparr>, lock_16_msg (e_uid e) FLOM_RC_OK None, w')
         \<and> cl_conn cl = c \<and> cl_lock_mode cl = l8_mode (lock_8 m)"
proof -
  obtain m1 where "flom_msg_free m = (FLOM_RC_OK, m1)"
    using lock_request_free [OF assms(1)] by (metis prod.collapse)
  then show ?thesis
    using assms
    by (intro exI [of _ "(the (flom_rsrc_conn_lock_new e c))\<lparr>cl_lock_mode := l8_mode (lock_8 m)\<rparr>"])
       (simp add: flom_resource_simple_inmsg_def flom_resource_simple_lock_def lock_request_def env_ok_def
        flom_rsrc_conn_lock_new_def build_lock_answer_16 Let_def flom_resource_simple_can_lock_def)
qed

theorem simple_grants_unknown_mode_witness:
  "\<exists>cl w'. flom_resource_simple_inmsg sample_env (snd (flom_resource_simple_init (Some ''res''))) 1
             (sample_lock (FLOM_LOCK_MODE_OTHER 99)) sample_world
           = (FLOM_RC_OK, (snd (flom_resource_simple_init (Some ''res'')))\<lparr>sr_holders := [cl]\<rparr>,
              lock_16_msg (Some ''peer'') FLOM_RC_OK None, w')
         \<and> cl_conn cl = 1 \<and> cl_lock_mode cl = FLOM_LOCK_MODE_OTHER 99"
  using simple_grants_unknown_mode [of "sample_lock (FLOM_LOCK_MODE_OTHER 99)" sample_env sample_world 1
      "snd (flom_resource_simple_init (Some ''res''))"]
  by (simp add: lock_request_def sample_lock_def env_ok_def sample_env_def sample_world_def
      flom_resource_simple_init_def)

end
