(* ===== verification/Vfs_Mirror.thy ===== *)
theory Vfs_Mirror
  imports Vfs Resource_Simple
begin

text \<open>
  The virtual file system shows the locks: the calls that a simple resource makes
  (\<^verbatim>\<open>src/src/flom_resource_simple.c\<close>), applied to the tree of \<open>Vfs\<close> in their order, keep the
  directory of its locker equal to its holders and its queue.
\<close>

section \<open>The calls of a resource\<close>

definition call_op :: "nat \<Rightarrow> (conn \<Rightarrow> string) \<Rightarrow> vfs_call \<Rightarrow> vfs_op" where
  "call_op u peer call =
     (case call of
        Vfs_add_locker_conn c is_holder mode quantity seq ts \<Rightarrow>
          Add_locker_conn u c is_holder (Some (peer c)) mode quantity seq ts
      | Vfs_add_locker_conn_file c already_locked name content \<Rightarrow> Add_locker_conn_file u c name content
      | Vfs_move_locker_conn c \<Rightarrow> Move_locker_conn c
      | Vfs_del_conn c \<Rightarrow> Del_conn c False)"

text \<open>
  After the calls of a world the directory has one locker, with these connections as
  holders and as waiting clients.
\<close>

definition mirror :: "nat \<Rightarrow> (conn \<Rightarrow> string) \<Rightarrow> vfs_dir \<Rightarrow> world \<Rightarrow> conn list \<Rightarrow> conn list \<Rightarrow> bool" where
  "mirror u peer a w hs ws \<longleftrightarrow>
     ops_ok (map (call_op u peer) (w_vfs w)) a \<and>
     (\<exists>l. vd_lockers (dir_run (map (call_op u peer) (w_vfs w)) a) = [l] \<and> vl_uid l = u \<and>
          map fst (vl_holders l) = hs \<and> map fst (vl_waitings l) = ws)"

lemma dir_run_append [simp]: "dir_run (xs @ ys) a = dir_run ys (dir_run xs a)"
  by (induction xs arbitrary: a) simp_all

lemma ops_ok_append [simp]: "ops_ok (xs @ ys) a \<longleftrightarrow> ops_ok xs a \<and> ops_ok ys (dir_run xs a)"
  by (induction xs arbitrary: a) simp_all

lemma mirror_add:
  assumes "mirror u peer a w hs ws" "c \<notin> set (u # hs @ ws)"
  shows "mirror u peer a (vfs_log (Vfs_add_locker_conn c True mode q sq ts) w) (hs @ [c]) ws"
    and "mirror u peer a (vfs_log (Vfs_add_locker_conn c False mode q sq ts) w) hs (ws @ [c])"
proof -
  let ?a = "dir_run (map (call_op u peer) (w_vfs w)) a"
  obtain l where l: "ops_ok (map (call_op u peer) (w_vfs w)) a" "vd_lockers ?a = [l]" "vl_uid l = u"
    "map fst (vl_holders l) = hs" "map fst (vl_waitings l) = ws"
    using assms(1) by (auto simp: mirror_def)
  have "dir_uids ?a = u # hs @ ws" by (simp add: dir_uids_def conns_of_locker_def l)
  then have "c \<notin> set (dir_uids ?a)" using assms(2) by simp
  then show "mirror u peer a (vfs_log (Vfs_add_locker_conn c True mode q sq ts) w) (hs @ [c]) ws"
    and "mirror u peer a (vfs_log (Vfs_add_locker_conn c False mode q sq ts) w) hs (ws @ [c])"
    using l by (auto simp: mirror_def vfs_log_def call_op_def on_locker_def Let_def)
qed

lemma map_fst_filter:
  "map fst (filter (\<lambda>x. fst x = c) xs) = filter (\<lambda>x. x = c) (map fst xs)"
  "map fst (filter (\<lambda>x. fst x \<noteq> c) xs) = filter (\<lambda>x. x \<noteq> c) (map fst xs)"
  by (induction xs) simp_all

lemma mirror_move:
  assumes "mirror u peer a w hs ws" "c \<noteq> u"
  shows "mirror u peer a (vfs_log (Vfs_move_locker_conn c) w) (hs @ filter (\<lambda>x. x = c) ws) (filter (\<lambda>x. x \<noteq> c) ws)"
  using assms by (auto simp: mirror_def vfs_log_def call_op_def map_fst_filter)

lemma mirror_del:
  assumes "mirror u peer a w hs ws" "c \<noteq> u"
  shows "mirror u peer a (vfs_log (Vfs_del_conn c) w) (filter (\<lambda>x. x \<noteq> c) hs) (filter (\<lambda>x. x \<noteq> c) ws)"
  using assms by (auto simp: mirror_def vfs_log_def call_op_def map_fst_filter)

lemma mirror_cong: "w_vfs w' = w_vfs w \<Longrightarrow> mirror u peer a w' hs ws = mirror u peer a w hs ws"
  by (simp add: mirror_def)

lemma answer_waiting_vfs: "w_vfs (snd (answer_waiting e c element w)) = w_vfs w"
  by (auto simp: answer_waiting_def flom_conn_send_def Let_def split: prod.splits sum.splits)

section \<open>The scan of the queue\<close>

lemma grant_mirror:
  assumes "env_ok e" "mirror u peer a w hs (kept @ cl_conn cl # ws)" "cl_conn cl \<noteq> u" "cl_conn cl \<notin> set (kept @ ws)"
    and "simple_grant_waiting e (r, w) cl = (rc, r', w')"
  shows "r' = r\<lparr>sr_holders := cl # sr_holders r\<rparr> \<and> mirror u peer a w' (hs @ [cl_conn cl]) (kept @ ws)"
proof -
  let ?c = "cl_conn cl"
  obtain w1 where w1: "answer_waiting e ?c None w = (FLOM_RC_OK, w1)"
    using answer_waiting_ok_None [OF assms(1), of ?c w] by (metis prod.collapse)
  then have "w_vfs w1 = w_vfs w" using answer_waiting_vfs [of e ?c None w] by simp
  then have m: "mirror u peer a w1 hs (kept @ ?c # ws)" using mirror_cong assms(2) by metis
  have f: "filter (\<lambda>x. x \<noteq> ?c) (kept @ ?c # ws) = kept @ ws" "filter (\<lambda>x. x = ?c) (kept @ ?c # ws) = [?c]"
    using assms(4) filter_id_conv [of "\<lambda>x. x \<noteq> ?c" kept] filter_id_conv [of "\<lambda>x. x \<noteq> ?c" ws]
      filter_empty_conv [of "\<lambda>x. x = ?c" kept] filter_empty_conv [of "\<lambda>x. x = ?c" ws] by auto
  show ?thesis
    using mirror_move [OF m assms(3)] f w1 assms(5) by (simp add: simple_grant_waiting_def)
qed

lemma scan_mirror:
  assumes "env_ok e" "distinct (kept @ map cl_conn q)" "u \<notin> set (map cl_conn q)"
    and "mirror u peer a w hs (kept @ map cl_conn q)"
    and "scan (simple_can_waiting e) (simple_grant_waiting e) (r, w) q = (rc, (r', w'), q')"
  shows "\<exists>g. sr_holders r' = g @ sr_holders r \<and> mirror u peer a w' (hs @ rev (map cl_conn g)) (kept @ map cl_conn q') \<and>
    mset g + mset q' = mset q"
  using assms(2-)
proof (induction q arbitrary: kept hs r w r' w' q')
  case (Cons cl q)
  show ?case
  proof (cases "simple_can_waiting e (r, w) cl")
    case True
    obtain rc1 r1 w1 where g: "simple_grant_waiting e (r, w) cl = (rc1, r1, w1)" by (metis prod_cases3)
    have g1: "r1 = r\<lparr>sr_holders := cl # sr_holders r\<rparr>" "mirror u peer a w1 (hs @ [cl_conn cl]) (kept @ map cl_conn q)"
      using grant_mirror [OF assms(1), of u peer a w hs kept cl "map cl_conn q" r rc1 r1 w1] Cons.prems(1-3) g by auto
    have "rc1 = FLOM_RC_OK" using simple_grant_waiting_ok [OF assms(1)] g by (metis fst_conv)
    then have "scan (simple_can_waiting e) (simple_grant_waiting e) (r1, w1) q = (rc, (r', w'), q')"
      using Cons.prems(4) g True by simp
    then obtain gs where "sr_holders r' = gs @ sr_holders r1" "mset gs + mset q' = mset q"
      "mirror u peer a w' ((hs @ [cl_conn cl]) @ rev (map cl_conn gs)) (kept @ map cl_conn q')"
      using Cons.IH [OF _ _ g1(2), of r1 r' w' q'] Cons.prems(1,2) by auto
    then show ?thesis using g1(1) by (intro exI [of _ "gs @ [cl]"]) simp
  next
    case False
    obtain rc1 r1 w1 q1 where s: "scan (simple_can_waiting e) (simple_grant_waiting e) (r, w) q = (rc1, (r1, w1), q1)"
      by (metis prod_cases3 surj_pair)
    then have res: "rc1 = rc" "r' = r1" "w' = w1" "q' = cl # q1" using Cons.prems(4) False by auto
    have "mirror u peer a w hs ((kept @ [cl_conn cl]) @ map cl_conn q)" using Cons.prems(3) by simp
    then show ?thesis
      using Cons.IH [of "kept @ [cl_conn cl]" w hs r r1 w1 q1] Cons.prems(1,2) s res by auto
  qed
qed simp

section \<open>The methods\<close>

definition mirrored :: "nat \<Rightarrow> (conn \<Rightarrow> string) \<Rightarrow> vfs_dir \<Rightarrow> flom_resource_simple \<Rightarrow> world \<Rightarrow> bool" where
  "mirrored u peer a r w \<longleftrightarrow>
     distinct (u # map cl_conn (sr_holders r) @ map cl_conn (sr_waitings r)) \<and>
     mirror u peer a w (rev (map cl_conn (sr_holders r))) (map cl_conn (sr_waitings r))"

lemma map_conn_remove:
  "distinct (map cl_conn cls) \<Longrightarrow> map cl_conn (conn_remove cls c) = filter (\<lambda>x. x \<noteq> c) (map cl_conn cls)"
  unfolding conn_remove_def
proof (induction cls)
  case (Cons x cls)
  show ?case
  proof (cases "cl_conn x = c")
    case True
    then have "c \<notin> set (map cl_conn cls)" using Cons.prems by auto
    then have "filter (\<lambda>x. x \<noteq> c) (map cl_conn cls) = map cl_conn cls" by (metis (mono_tags, lifting) filter_True)
    then show ?thesis using True by simp
  qed (use Cons in simp)
qed simp

lemma waitings_mirror:
  assumes "env_ok e" "distinct (map cl_conn (sr_waitings r))" "u \<notin> set (map cl_conn (sr_waitings r))"
    and "mirror u peer a w hs (map cl_conn (sr_waitings r))"
    and "flom_resource_simple_waitings e r w = (rc, r', w')"
  shows "rc = FLOM_RC_OK \<and> (\<exists>g. sr_holders r' = g @ sr_holders r \<and> mset g + mset (sr_waitings r') = mset (sr_waitings r) \<and>
    mirror u peer a w' (hs @ rev (map cl_conn g)) (map cl_conn (sr_waitings r')))"
proof -
  obtain rc1 r1 w1 q where s: "scan (simple_can_waiting e) (simple_grant_waiting e) (r, w) (sr_waitings r) = (rc1, (r1, w1), q)"
    by (metis prod_cases3 surj_pair)
  then have res: "rc = rc1" "r' = r1\<lparr>sr_waitings := q\<rparr>" "w' = w1"
    using assms(5) by (simp_all add: flom_resource_simple_waitings_def waitings_loop_eq_scan)
  then show ?thesis
    using scan_mirror [OF assms(1), of "[]" "sr_waitings r" u peer a w hs r rc1 r1 w1 q] assms(2-4) s
      simple_waitings_ok [OF assms(1), of r w] assms(5) by auto
qed

lemma clean_mirror:
  assumes "env_ok e" "mirrored u peer a r w" "c \<noteq> u" "flom_resource_simple_clean e r c w = (rc, r', w')"
  shows "mirrored u peer a r' w'"
proof -
  let ?hs = "map cl_conn (sr_holders r)" and ?ws = "map cl_conn (sr_waitings r)"
  have dist: "distinct (u # ?hs @ ?ws)" "mirror u peer a w (rev ?hs) ?ws" using assms(2) by (simp_all add: mirrored_def)
  show ?thesis
  proof (cases "find (\<lambda>cl. cl_conn cl = c) (sr_holders r)")
    case None
    then have hs: "filter (\<lambda>x. x \<noteq> c) ?hs = ?hs" by (auto simp: find_None_iff filter_id_conv)
    have ws: "map cl_conn (conn_remove (sr_waitings r) c) = filter (\<lambda>x. x \<noteq> c) ?ws"
      using dist(1) by (simp add: map_conn_remove)
    have "r' = r\<lparr>sr_waitings := conn_remove (sr_waitings r) c\<rparr>" "w' = vfs_log (Vfs_del_conn c) w"
      using None assms(4) by (auto simp: flom_resource_simple_clean_def)
    then have "map cl_conn (sr_holders r') = ?hs" "map cl_conn (sr_waitings r') = filter (\<lambda>x. x \<noteq> c) ?ws"
      "mirror u peer a w' (rev ?hs) (filter (\<lambda>x. x \<noteq> c) ?ws)"
      using mirror_del [OF dist(2) assms(3)] hs ws by (simp_all add: rev_filter [symmetric])
    moreover have "distinct (u # ?hs @ filter (\<lambda>x. x \<noteq> c) ?ws)" using dist(1) by auto
    ultimately show ?thesis by (simp only: mirrored_def simp_thms)
  next
    case (Some cl)
    then have c: "c \<in> set ?hs" by (auto simp: find_Some_iff)
    let ?r = "r\<lparr>sr_holders := conn_remove (sr_holders r) c\<rparr>"
    obtain rc1 r1 w1 where w1: "flom_resource_simple_waitings e ?r w = (rc1, r1, w1)" by (metis prod_cases3)
    obtain g where rc1: "rc1 = FLOM_RC_OK" and g: "sr_holders r1 = g @ sr_holders ?r"
      "mset g + mset (sr_waitings r1) = mset (sr_waitings r)"
      "mirror u peer a w1 (rev ?hs @ rev (map cl_conn g)) (map cl_conn (sr_waitings r1))"
      using waitings_mirror [OF assms(1), of ?r u peer a w "rev ?hs" rc1 r1 w1] dist w1 by auto
    have perm: "mset (map cl_conn g @ map cl_conn (sr_waitings r1)) = mset ?ws"
      using g(2) by (metis mset_map mset_append image_mset_union)
    have set: "set (map cl_conn g @ map cl_conn (sr_waitings r1)) = set ?ws" using perm by (rule mset_eq_setD)
    have dg: "distinct (map cl_conn g @ map cl_conn (sr_waitings r1))"
      using perm dist(1) mset_eq_imp_distinct_iff by (metis distinct.simps(2) distinct_append)
    have "c \<notin> set ?ws" using c dist(1) by auto
    then have out: "c \<notin> set (map cl_conn g)" "c \<notin> set (map cl_conn (sr_waitings r1))" using set by auto
    have keep: "filter (\<lambda>x. x \<noteq> c) xs = xs" if "c \<notin> set xs" for xs using that by (auto simp: filter_id_conv)
    have hs: "map cl_conn (sr_holders r1) = map cl_conn g @ filter (\<lambda>x. x \<noteq> c) ?hs"
      using g(1) dist(1) by (simp add: map_conn_remove)
    have "mirror u peer a (vfs_log (Vfs_del_conn c) w1) (rev (map cl_conn (sr_holders r1))) (map cl_conn (sr_waitings r1))"
      using mirror_del [OF g(3) assms(3)] keep [OF out(1)] keep [OF out(2)] hs by (simp add: rev_filter [symmetric])
    moreover have "distinct (u # (map cl_conn g @ filter (\<lambda>x. x \<noteq> c) ?hs) @ map cl_conn (sr_waitings r1))"
      using dg dist(1) set by (auto simp del: set_map)
    then have "distinct (u # map cl_conn (sr_holders r1) @ map cl_conn (sr_waitings r1))" by (simp only: hs)
    ultimately show ?thesis
      using Some w1 rc1 assms(4) by (simp add: flom_resource_simple_clean_def mirrored_def)
  qed
qed

lemma lock_mirror:
  assumes "mirrored u peer a r w" "c \<notin> set (u # map cl_conn (sr_holders r) @ map cl_conn (sr_waitings r))"
    and "flom_resource_simple_lock e r c m w = (rc, r', m', w')"
  shows "mirrored u peer a r' w'"
proof -
  let ?hs = "map cl_conn (sr_holders r)" and ?ws = "map cl_conn (sr_waitings r)"
  have old: "distinct (u # ?hs @ ?ws)" "mirror u peer a w (rev ?hs) ?ws" using assms(1) by (simp_all add: mirrored_def)
  have fresh: "c \<notin> set (u # rev ?hs @ ?ws)" using assms(2) by simp
  have cl: "cl_conn cl = c" if "flom_rsrc_conn_lock_new e c = Some cl" for cl
    using that by (auto simp: flom_rsrc_conn_lock_new_def split: if_splits)
  consider "r' = r" "w' = w" | "map cl_conn (sr_holders r') = c # ?hs" "map cl_conn (sr_waitings r') = ?ws"
      "w' = vfs_log (Vfs_add_locker_conn c True (l8_mode (lock_8 m)) None None None) w"
    | "map cl_conn (sr_holders r') = ?hs" "map cl_conn (sr_waitings r') = ?ws @ [c]"
      "w' = vfs_log (Vfs_add_locker_conn c False (l8_mode (lock_8 m)) None None None) w"
    using assms(3) cl
    by (auto simp: flom_resource_simple_lock_def Let_def split: prod.splits if_splits option.splits)
  then show ?thesis
  proof cases
    case 2
    have "distinct (u # (c # ?hs) @ ?ws)" using old(1) assms(2) by auto
    then show ?thesis
      unfolding mirrored_def 2 using mirror_add(1) [OF old(2) fresh] by (simp only: rev.simps simp_thms)
  next
    case 3
    have "distinct (u # ?hs @ ?ws @ [c])" using old(1) assms(2) by auto
    then show ?thesis
      unfolding mirrored_def 3 using mirror_add(2) [OF old(2) fresh] by (simp only: simp_thms)
  qed (use assms(1) in simp)
qed

lemma inmsg_mirror:
  assumes "env_ok e" "mirrored u peer a r w" "c \<noteq> u"
    and "msg_verb m = FLOM_MSG_VERB_LOCK \<Longrightarrow> c \<notin> set (map cl_conn (sr_holders r) @ map cl_conn (sr_waitings r))"
    and "flom_resource_simple_inmsg e r c m w = (rc, r', m', w')"
  shows "mirrored u peer a r' w'"
proof (cases "msg_verb m = FLOM_MSG_VERB_LOCK")
  case True
  then show ?thesis
    using lock_mirror [OF assms(2), of c e m rc r' m' w'] assms(3,4,5) by (simp add: flom_resource_simple_inmsg_def)
next
  case False
  obtain rc1 r1 w1 where cl: "flom_resource_simple_clean e r c w = (rc1, r1, w1)" by (metis prod_cases3)
  then have "mirrored u peer a r1 w1" using clean_mirror [OF assms(1-3)] by simp
  moreover have "r' = r \<and> w' = w \<or> r' = r1 \<and> w' = w1"
    using False assms(5) cl by (auto simp: flom_resource_simple_inmsg_def split: if_splits prod.splits)
  ultimately show ?thesis using assms(2) by auto
qed

text \<open>Clients that ask for one lock at a time.\<close>

fun one_at_a_time :: "nat \<Rightarrow> rsrc_event list \<Rightarrow> flom_resource_simple \<times> world \<Rightarrow> bool" where
  "one_at_a_time u [] s = True"
| "one_at_a_time u (ev # evs) s =
     ((case ev of
         Ev_inmsg e c m \<Rightarrow> c \<noteq> u \<and> (msg_verb m = FLOM_MSG_VERB_LOCK \<longrightarrow>
           c \<notin> set (map cl_conn (sr_holders (fst s)) @ map cl_conn (sr_waitings (fst s))))
       | Ev_clean e c \<Rightarrow> c \<noteq> u) \<and>
      one_at_a_time u evs (rsrc_step flom_resource_simple_inmsg flom_resource_simple_clean ev s))"

lemma run_mirror:
  assumes "mirrored u peer a (fst s) (snd s)" "one_at_a_time u evs s" "list_all (ev_ok env_ok (\<lambda>m. True)) evs"
    and "(r, w) = rsrc_run flom_resource_simple_inmsg flom_resource_simple_clean evs s"
  shows "mirrored u peer a r w"
  using assms
proof (induction evs arbitrary: s)
  case Nil
  then show ?case by (simp add: rsrc_run_def) (metis fst_conv snd_conv)
next
  case (Cons ev evs)
  let ?s = "rsrc_step flom_resource_simple_inmsg flom_resource_simple_clean ev s"
  obtain r0 w0 where s: "s = (r0, w0)" by (cases s)
  have "mirrored u peer a (fst ?s) (snd ?s)"
  proof (cases ev)
    case (Ev_inmsg e c m)
    obtain rc r1 m1 w1 where st: "flom_resource_simple_inmsg e r0 c m w0 = (rc, r1, m1, w1)" by (metis prod_cases4)
    then show ?thesis
      using Cons.prems(1-3) Ev_inmsg s inmsg_mirror [OF _ _ _ _ st, of u peer a] by simp
  next
    case (Ev_clean e c)
    obtain rc r1 w1 where st: "flom_resource_simple_clean e r0 c w0 = (rc, r1, w1)" by (metis prod_cases3)
    then show ?thesis
      using Cons.prems(1-3) Ev_clean s clean_mirror [OF _ _ _ st, of u peer a] by simp
  qed
  then show ?case
    using Cons.IH [of ?s] Cons.prems(2-4) by (simp add: rsrc_run_def)
qed

text \<open>C29. The file system shows the locks: for a simple resource whose clients ask for one lock at a time
  and as long as nothing fails, the tree that results from the calls the resource made has in
  the directory of its locker exactly the holders, in the order in which they got the lock,
  and the waiting clients in the order of the queue.\<close>

theorem vfs_mirrors_simple_locks:
  assumes "shows_dir v a" "dir_ok a" "vd_lockers a = [l]" "vl_uid l = u" "vl_holders l = []" "vl_waitings l = []"
    and "w_vfs w = []" "one_at_a_time u evs (snd (flom_resource_simple_init name), w)" "list_all (ev_ok env_ok (\<lambda>m. True)) evs"
    and "(r, w') = rsrc_run flom_resource_simple_inmsg flom_resource_simple_clean evs (snd (flom_resource_simple_init name), w)"
    and "allocs_ok ve"
  shows "\<exists>a' l'. shows_dir (vfs_run (map (\<lambda>call. (ve, call_op u peer call)) (w_vfs w')) v) a' \<and> vd_lockers a' = [l'] \<and>
    map fst (vl_holders l') = rev (map cl_conn (sr_holders r)) \<and> map fst (vl_waitings l') = map cl_conn (sr_waitings r)"
proof -
  have "mirrored u peer a (snd (flom_resource_simple_init name)) w"
    using assms(3-7) by (simp add: mirrored_def mirror_def flom_resource_simple_init_def)
  then have "mirrored u peer a r w'" using run_mirror [OF _ assms(8-10), of peer a] by simp
  then obtain l' where l': "ops_ok (map (call_op u peer) (w_vfs w')) a"
    "vd_lockers (dir_run (map (call_op u peer) (w_vfs w')) a) = [l']"
    "map fst (vl_holders l') = rev (map cl_conn (sr_holders r))" "map fst (vl_waitings l') = map cl_conn (sr_waitings r)"
    by (auto simp: mirrored_def mirror_def)
  let ?calls = "map (\<lambda>call. (ve, call_op u peer call)) (w_vfs w')"
  have calls: "map snd ?calls = map (call_op u peer) (w_vfs w')" "list_all (allocs_ok \<circ> fst) ?calls"
    using assms(11) by (simp_all add: list_all_iff)
  have shape: "shows_dir x b \<longleftrightarrow> shape_is x (conc b)" for x b by (simp add: shows_dir_def shape_is_def)
  have "ops_ok (map snd ?calls) a" using l'(1) by (simp only: calls(1))
  then have "shows_dir (vfs_run ?calls v) (dir_run (map snd ?calls) a)"
    using refine_run [OF assms(1) [unfolded shape] assms(2) calls(2)] by (simp only: shape)
  then show ?thesis using l'(2-4) calls(1) by metis
qed

definition sample_locker_calls :: "(vfs_env \<times> vfs_op) list" where
  "sample_locker_calls = [(sample_vfs_env, Add_locker 9 ''res'' ''simple'')]"

definition sample_lock_events :: "rsrc_event list" where
  "sample_lock_events = sample_events @ [Ev_clean sample_env 2]"

theorem vfs_mirrors_simple_locks_witness:
  "\<exists>a l. shows_dir (vfs_run (map (\<lambda>call. (sample_vfs_env, call_op 9 (\<lambda>c. ''peer'') call))
        (w_vfs (snd (rsrc_run flom_resource_simple_inmsg flom_resource_simple_clean sample_lock_events
          (snd (flom_resource_simple_init (Some ''res'')), sample_world)))))
      (vfs_run sample_locker_calls (snd (flom_vfs_ram_tree_init sample_vfs_env True \<lparr> vfs_active = False, vfs_root = None \<rparr>)))) a \<and>
    vd_lockers a = [l] \<and> map fst (vl_holders l) = [1] \<and> map fst (vl_waitings l) = [3]"
proof -
  let ?run = "rsrc_run flom_resource_simple_inmsg flom_resource_simple_clean sample_lock_events
      (snd (flom_resource_simple_init (Some ''res'')), sample_world)"
  let ?v = "vfs_run sample_locker_calls (snd (flom_vfs_ram_tree_init sample_vfs_env True \<lparr> vfs_active = False, vfs_root = None \<rparr>))"
  let ?a = "dir_run (map snd sample_locker_calls) empty_dir"
  have mem: "allocs_ok sample_vfs_env" by (simp add: allocs_ok_def sample_vfs_env_def)
  have ops: "ops_ok (map snd sample_locker_calls) empty_dir" by (simp add: sample_locker_calls_def empty_dir_def dir_uids_def)
  have start: "shape_is ?v (conc ?a) \<and> dir_ok ?a"
    using refine_run [OF conjunct2 [OF init_shape [OF mem]] empty_dir_ok _ ops] mem by (simp add: sample_locker_calls_def)
  have a: "vd_lockers ?a = [\<lparr> vl_uid = 9, vl_name = print_line ''res'', vl_type = print_line ''simple'', vl_holders = [], vl_waitings = [] \<rparr>]"
    by (simp add: sample_locker_calls_def empty_dir_def)
  have one: "one_at_a_time 9 sample_lock_events (snd (flom_resource_simple_init (Some ''res'')), sample_world)"
    by code_simp
  have envs: "list_all (ev_ok env_ok (\<lambda>m. True)) sample_lock_events"
    by (simp add: sample_lock_events_def sample_events_def env_ok_def sample_env_def)
  obtain r w' where rw: "(r, w') = ?run" by (metis surj_pair)
  have h: "map cl_conn (sr_holders (fst ?run)) = [1]" "map cl_conn (sr_waitings (fst ?run)) = [3]" by code_simp+
  have v: "shows_dir ?v ?a" using start by (simp only: shows_dir_def shape_is_def simp_thms)
  have "\<exists>a' l'. shows_dir (vfs_run (map (\<lambda>call. (sample_vfs_env, call_op 9 (\<lambda>c. ''peer'') call)) (w_vfs w')) ?v) a' \<and>
      vd_lockers a' = [l'] \<and> map fst (vl_holders l') = rev (map cl_conn (sr_holders r)) \<and>
      map fst (vl_waitings l') = map cl_conn (sr_waitings r)"
    by (rule vfs_mirrors_simple_locks [OF v conjunct2 [OF start] a _ _ _ _ one envs rw mem]) (simp_all add: sample_world_def)
  moreover have "map cl_conn (sr_holders r) = [1]" "map cl_conn (sr_waitings r) = [3]" "w' = snd ?run"
    using h rw by (metis fst_conv, metis fst_conv, metis snd_conv)
  ultimately show ?thesis by simp
qed

end
