(* ===== verification/Resource_Numeric.thy ===== *)
theory Resource_Numeric
  imports Rsrc
begin

text \<open>
  The numeric resource, \<^verbatim>\<open>src/src/flom_resource_numeric.c\<close>: a number of units,
  given in the name of the resource, of which every lock takes a quantity.  The
  quantities are \<^verbatim>\<open>gint\<close>, modelled as integers; the invariant shows that with
  quantities that are not negative no sum leaves the range of a \<^verbatim>\<open>gint\<close>.
\<close>

section \<open>State and operations\<close>

record flom_resource_numeric =
  nr_name :: "string option"
  nr_total_quantity :: int
  nr_locked_quantity :: int
  nr_holders :: "flom_rsrc_conn_lock list"
  nr_waitings :: "flom_rsrc_conn_lock list"

definition flom_resource_numeric_can_lock :: "flom_resource_numeric \<Rightarrow> int \<Rightarrow> bool" where
  "flom_resource_numeric_can_lock r quantity \<longleftrightarrow> nr_total_quantity r - nr_locked_quantity r \<ge> quantity"

definition flom_resource_numeric_init :: "string option \<Rightarrow> rc \<times> flom_resource_numeric" where
  "flom_resource_numeric_init name =
     (let r = \<lparr> nr_name = name, nr_total_quantity = 0, nr_locked_quantity = 0,
                nr_holders = [], nr_waitings = [] \<rparr> in
      case name of
        None \<Rightarrow> (FLOM_RC_G_STRDUP_ERROR, r)
      | Some n \<Rightarrow>
          (case flom_rsrc_get_number n FLOM_RSRC_TYPE_NUMERIC of
             (rc, number) \<Rightarrow>
               (case number of
                  None \<Rightarrow> (rc, r)
                | Some quantity \<Rightarrow> (rc, r\<lparr>nr_total_quantity := quantity\<rparr>))))"

text \<open>The grant of a waiting request: the client is told, then it is a holder.\<close>

definition numeric_grant_waiting ::
  "env \<Rightarrow> flom_resource_numeric \<times> world \<Rightarrow> flom_rsrc_conn_lock \<Rightarrow> rc \<times> flom_resource_numeric \<times> world" where
  "numeric_grant_waiting e s cl =
     (case s of (r, w) \<Rightarrow>
        (case answer_waiting e (cl_conn cl) None w of
           (rc, w') \<Rightarrow>
             if rc \<noteq> FLOM_RC_OK then (rc, r, w')
             else (FLOM_RC_OK, r\<lparr>nr_holders := cl # nr_holders r,
                       nr_locked_quantity := nr_locked_quantity r + cl_quantity cl\<rparr>,
                   vfs_log (Vfs_move_locker_conn (cl_conn cl)) w')))"

definition numeric_can_waiting :: "env \<Rightarrow> flom_resource_numeric \<times> world \<Rightarrow> flom_rsrc_conn_lock \<Rightarrow> bool" where
  "numeric_can_waiting e s cl = flom_resource_numeric_can_lock (fst s) (cl_quantity cl)"

definition flom_resource_numeric_waitings ::
  "env \<Rightarrow> flom_resource_numeric \<Rightarrow> world \<Rightarrow> rc \<times> flom_resource_numeric \<times> world" where
  "flom_resource_numeric_waitings e r w =
     (case waitings_loop (numeric_can_waiting e) (numeric_grant_waiting e) 0 (r, w) (nr_waitings r) of
        (rc, (r', w'), q) \<Rightarrow> (rc, r'\<lparr>nr_waitings := q\<rparr>, w'))"

definition flom_resource_numeric_clean ::
  "env \<Rightarrow> flom_resource_numeric \<Rightarrow> conn \<Rightarrow> world \<Rightarrow> rc \<times> flom_resource_numeric \<times> world" where
  "flom_resource_numeric_clean e r c w =
     (case find (\<lambda>cl. cl_conn cl = c) (nr_holders r) of
        Some cl \<Rightarrow>
          (case flom_resource_numeric_waitings e
                  (r\<lparr>nr_holders := conn_remove (nr_holders r) c,
                     nr_locked_quantity := nr_locked_quantity r - cl_quantity cl\<rparr>) w of
             (rc, r', w') \<Rightarrow>
               if rc \<noteq> FLOM_RC_OK then (rc, r', w')
               else (FLOM_RC_OK, r', vfs_log (Vfs_del_conn c) w'))
      | None \<Rightarrow>
          (FLOM_RC_OK, r\<lparr>nr_waitings := conn_remove (nr_waitings r) c\<rparr>, vfs_log (Vfs_del_conn c) w))"

definition flom_resource_numeric_lock ::
  "env \<Rightarrow> flom_resource_numeric \<Rightarrow> conn \<Rightarrow> flom_msg \<Rightarrow> world \<Rightarrow> rc \<times> flom_resource_numeric \<times> flom_msg \<times> world" where
  "flom_resource_numeric_lock e r c m w =
     (let new_quantity = l8_quantity (lock_8 m);
          can_lock = flom_resource_numeric_can_lock r new_quantity;
          impossible_lock = (new_quantity > nr_total_quantity r);
          can_wait = (\<not> impossible_lock \<and> l8_wait (lock_8 m) \<noteq> 0) in
      case flom_msg_free m of
        (rc, m1) \<Rightarrow>
          if rc \<noteq> FLOM_RC_OK then (rc, r, m1, w)
          else if can_lock then
            (case flom_rsrc_conn_lock_new e c of
               None \<Rightarrow> (FLOM_RC_G_TRY_MALLOC_ERROR, r, flom_msg_init, w)
             | Some cl0 \<Rightarrow>
                 let cl = cl0\<lparr>cl_quantity := new_quantity\<rparr>;
                     r' = r\<lparr>nr_holders := cl # nr_holders r,
                            nr_locked_quantity := nr_locked_quantity r + new_quantity\<rparr>;
                     w' = vfs_log (Vfs_add_locker_conn c True FLOM_LOCK_MODE_INVALID (Some new_quantity) None None) w in
                 case build_lock_answer e w' c flom_msg_init FLOM_RC_OK None of
                   (rc, m2) \<Rightarrow> (rc, r', m2, w'))
          else if can_wait then
            (case flom_rsrc_conn_lock_new e c of
               None \<Rightarrow> (FLOM_RC_G_TRY_MALLOC_ERROR, r, flom_msg_init, w)
             | Some cl0 \<Rightarrow>
                 let cl = cl0\<lparr>cl_quantity := new_quantity\<rparr>;
                     r' = r\<lparr>nr_waitings := nr_waitings r @ [cl]\<rparr>;
                     w' = vfs_log (Vfs_add_locker_conn c False FLOM_LOCK_MODE_INVALID (Some new_quantity) None None) w in
                 case build_lock_answer e w' c flom_msg_init FLOM_RC_LOCK_ENQUEUED None of
                   (rc, m2) \<Rightarrow> (rc, r', m2, w'))
          else
            (case build_lock_answer e w c flom_msg_init
                    (if impossible_lock then FLOM_RC_LOCK_IMPOSSIBLE else FLOM_RC_LOCK_BUSY) None of
               (rc, m2) \<Rightarrow> (rc, r, m2, w)))"

definition flom_resource_numeric_inmsg ::
  "env \<Rightarrow> flom_resource_numeric \<Rightarrow> conn \<Rightarrow> flom_msg \<Rightarrow> world \<Rightarrow> rc \<times> flom_resource_numeric \<times> flom_msg \<times> world" where
  "flom_resource_numeric_inmsg e r c m w =
     (if msg_verb m = FLOM_MSG_VERB_LOCK then flom_resource_numeric_lock e r c m w
      else if msg_verb m = FLOM_MSG_VERB_UNLOCK then
        (if nr_name r \<noteq> u8_name (unlock_8 m) then (FLOM_RC_INVALID_OPTION, r, m, w)
         else
           (case flom_resource_numeric_clean e r c w of
              (rc, r', w') \<Rightarrow>
                if rc \<noteq> FLOM_RC_OK then (rc, r', m, w')
                else (case flom_msg_free m of
                        (rc, m') \<Rightarrow>
                          if rc \<noteq> FLOM_RC_OK then (rc, r', m', w')
                          else (FLOM_RC_OK, r', flom_msg_init, w'))))
      else (FLOM_RC_PROTOCOL_ERROR, r, m, w))"

definition flom_resource_numeric_free :: "flom_resource_numeric \<Rightarrow> flom_resource_numeric" where
  "flom_resource_numeric_free r = r\<lparr>nr_holders := [], nr_waitings := [],
     nr_total_quantity := 0, nr_locked_quantity := 0, nr_name := None\<rparr>"

section \<open>Invariant\<close>

definition numeric_ok_msg :: "flom_msg \<Rightarrow> bool" where
  "numeric_ok_msg m \<longleftrightarrow> 0 \<le> l8_quantity (lock_8 m)"

definition held_quantity :: "flom_resource_numeric \<Rightarrow> int" where
  "held_quantity r = sum_list (map cl_quantity (nr_holders r))"

definition numeric_ok_cl :: "flom_rsrc_conn_lock \<Rightarrow> bool" where
  "numeric_ok_cl cl \<longleftrightarrow> 0 \<le> cl_quantity cl"

definition numeric_holders_inv :: "flom_resource_numeric \<Rightarrow> bool" where
  "numeric_holders_inv r \<longleftrightarrow> nr_locked_quantity r = held_quantity r
     \<and> nr_locked_quantity r \<le> max 0 (nr_total_quantity r)
     \<and> (\<forall>cl \<in> set (nr_holders r). numeric_ok_cl cl)"

definition numeric_inv :: "flom_resource_numeric \<Rightarrow> bool" where
  "numeric_inv r \<longleftrightarrow> numeric_holders_inv r
     \<and> (\<forall>cl \<in> set (nr_waitings r). numeric_ok_cl cl \<and> cl_quantity cl \<le> nr_total_quantity r)"

lemma numeric_grant_waiting_result:
  "fst (snd (numeric_grant_waiting e s cl)) =
     (if fst (numeric_grant_waiting e s cl) = FLOM_RC_OK
      then (fst s)\<lparr>nr_holders := cl # nr_holders (fst s),
                   nr_locked_quantity := nr_locked_quantity (fst s) + cl_quantity cl\<rparr>
      else fst s)"
  by (auto simp: numeric_grant_waiting_def split: prod.splits)

lemma numeric_holders_inv_Cons:
  assumes "numeric_holders_inv r" "numeric_ok_cl cl" "flom_resource_numeric_can_lock r (cl_quantity cl)"
  shows "numeric_holders_inv (r\<lparr>nr_holders := cl # nr_holders r,
           nr_locked_quantity := nr_locked_quantity r + cl_quantity cl\<rparr>)"
  using assms
  by (auto simp: numeric_holders_inv_def held_quantity_def flom_resource_numeric_can_lock_def numeric_ok_cl_def)

lemma numeric_holders_inv_remove:
  assumes "numeric_holders_inv r" "find (\<lambda>cl. cl_conn cl = c) (nr_holders r) = Some cl"
  shows "numeric_holders_inv (r\<lparr>nr_holders := conn_remove (nr_holders r) c,
           nr_locked_quantity := nr_locked_quantity r - cl_quantity cl\<rparr>)"
proof -
  have "0 \<le> cl_quantity cl"
    using assms find_Some_set [OF assms(2)] by (auto simp: numeric_holders_inv_def numeric_ok_cl_def)
  moreover have "\<forall>x \<in> set (conn_remove (nr_holders r) c). numeric_ok_cl x"
    using assms(1) set_remove_first by (fastforce simp: numeric_holders_inv_def conn_remove_def)
  ultimately show ?thesis
    using assms sum_list_remove_first [OF assms(2), of cl_quantity]
    by (simp add: numeric_holders_inv_def held_quantity_def conn_remove_def)
qed

interpretation numeric_scan: exhaustive_scan
  "numeric_can_waiting e" "numeric_grant_waiting e"
  "\<lambda>s. numeric_holders_inv (fst s)" numeric_ok_cl
  for e
proof
  fix s c
  assume "numeric_holders_inv (fst s)" "numeric_ok_cl c" "numeric_can_waiting e s c"
  then show "numeric_holders_inv (fst (snd (numeric_grant_waiting e s c)))"
    using numeric_holders_inv_Cons by (simp add: numeric_grant_waiting_result numeric_can_waiting_def)
next
  fix s c d
  assume "numeric_ok_cl c" "\<not> numeric_can_waiting e s d"
  then show "\<not> numeric_can_waiting e (snd (numeric_grant_waiting e s c)) d"
    by (auto simp: numeric_can_waiting_def flom_resource_numeric_can_lock_def numeric_ok_cl_def
        numeric_grant_waiting_result)
qed

lemma numeric_scan_total:
  "scan (numeric_can_waiting e) (numeric_grant_waiting e) s q = (rc, s', q') \<Longrightarrow>
   nr_total_quantity (fst s') = nr_total_quantity (fst s)"
proof (induction q arbitrary: s rc s' q')
  case (Cons c q)
  have "nr_total_quantity (fst (snd (numeric_grant_waiting e s c))) = nr_total_quantity (fst s)"
    by (simp add: numeric_grant_waiting_result)
  then show ?case
    using Cons.prems Cons.IH [of "snd (numeric_grant_waiting e s c)"] Cons.IH [of s]
    by (auto split: if_splits prod.splits)
qed simp

lemma numeric_waitings_inv:
  assumes "numeric_inv r"
  shows "numeric_inv (fst (snd (flom_resource_numeric_waitings e r w)))"
proof -
  obtain rc r' w' q where l:
    "waitings_loop (numeric_can_waiting e) (numeric_grant_waiting e) 0 (r, w) (nr_waitings r) = (rc, (r', w'), q)"
    by (metis prod_cases3 surj_pair)
  have "numeric_holders_inv r'"
    using numeric_scan.loop_inv [of "(r, w)" "nr_waitings r" e] assms l by (simp add: numeric_inv_def)
  moreover have "set q \<subseteq> set (nr_waitings r)" "nr_total_quantity r' = nr_total_quantity r"
    using l scan_queue_subset numeric_scan_total by (fastforce simp: waitings_loop_eq_scan)+
  ultimately show ?thesis
    using assms l
    by (auto simp: flom_resource_numeric_waitings_def numeric_inv_def numeric_holders_inv_def held_quantity_def)
qed

lemma numeric_clean_inv:
  assumes "numeric_inv r"
  shows "numeric_inv (fst (snd (flom_resource_numeric_clean e r c w)))"
proof (cases "find (\<lambda>cl. cl_conn cl = c) (nr_holders r)")
  case None
  then show ?thesis
    using assms set_remove_first
    by (fastforce simp: flom_resource_numeric_clean_def numeric_inv_def conn_remove_def
        numeric_holders_inv_def held_quantity_def)
next
  case (Some cl)
  let ?r = "r\<lparr>nr_holders := conn_remove (nr_holders r) c,
              nr_locked_quantity := nr_locked_quantity r - cl_quantity cl\<rparr>"
  have "numeric_inv ?r"
    using assms numeric_holders_inv_remove [OF _ Some] by (simp add: numeric_inv_def)
  then show ?thesis
    using Some numeric_waitings_inv [of ?r e w]
    by (auto simp: flom_resource_numeric_clean_def split: prod.splits)
qed

lemma numeric_lock_inv:
  assumes "numeric_inv r" "numeric_ok_msg m"
  shows "numeric_inv (fst (snd (flom_resource_numeric_lock e r c m w)))"
proof -
  let ?n = "l8_quantity (lock_8 m)"
  have h: "flom_resource_numeric_can_lock r ?n \<Longrightarrow> cl_quantity cl = ?n \<Longrightarrow>
      numeric_inv (r\<lparr>nr_holders := cl # nr_holders r, nr_locked_quantity := nr_locked_quantity r + ?n\<rparr>)" for cl
    using assms numeric_holders_inv_Cons [of r cl]
    by (simp add: numeric_inv_def numeric_ok_msg_def numeric_ok_cl_def)
  have q: "?n \<le> nr_total_quantity r \<Longrightarrow> cl_quantity cl = ?n \<Longrightarrow>
      numeric_inv (r\<lparr>nr_waitings := nr_waitings r @ [cl]\<rparr>)" for cl
    using assms by (auto simp: numeric_inv_def numeric_ok_msg_def numeric_ok_cl_def numeric_holders_inv_def
        held_quantity_def)
  show ?thesis
    using assms(1) h q
    by (auto simp: flom_resource_numeric_lock_def Let_def flom_rsrc_conn_lock_new_def
        split: option.splits prod.splits if_splits)
qed

lemma numeric_inmsg_inv:
  assumes "numeric_inv r" "numeric_ok_msg m"
  shows "numeric_inv (fst (snd (flom_resource_numeric_inmsg e r c m w)))"
  using assms numeric_lock_inv numeric_clean_inv [of r e c w]
  by (auto simp: flom_resource_numeric_inmsg_def split: prod.splits)

interpretation numeric_ops: resource_ops
  flom_resource_numeric_inmsg flom_resource_numeric_clean numeric_inv any_env numeric_ok_msg
  by unfold_locales (simp_all add: numeric_inmsg_inv numeric_clean_inv)

section \<open>No request that could be granted is left waiting\<close>

definition numeric_quiet :: "flom_resource_numeric \<Rightarrow> bool" where
  "numeric_quiet r \<longleftrightarrow> numeric_inv r \<and>
     (\<forall>d \<in> set (nr_waitings r). \<not> flom_resource_numeric_can_lock r (cl_quantity d))"

lemma numeric_grant_waiting_ok: "env_ok e \<Longrightarrow> fst (numeric_grant_waiting e s cl) = FLOM_RC_OK"
  using answer_waiting_ok_None [of e "cl_conn cl" "snd s"]
  by (auto simp: numeric_grant_waiting_def split: prod.splits)

lemma numeric_waitings_ok:
  assumes "env_ok e"
  shows "fst (flom_resource_numeric_waitings e r w) = FLOM_RC_OK"
  using scan_ok [of "numeric_grant_waiting e" "numeric_can_waiting e" "(r, w)" "nr_waitings r",
      OF numeric_grant_waiting_ok [OF assms]]
  by (auto simp: flom_resource_numeric_waitings_def waitings_loop_eq_scan split: prod.splits)

lemma numeric_waitings_quiet:
  assumes "numeric_inv r" "fst (flom_resource_numeric_waitings e r w) = FLOM_RC_OK"
  shows "numeric_quiet (fst (snd (flom_resource_numeric_waitings e r w)))"
proof -
  obtain rc r' w' q where l:
    "waitings_loop (numeric_can_waiting e) (numeric_grant_waiting e) 0 (r, w) (nr_waitings r) = (rc, (r', w'), q)"
    by (metis prod_cases3 surj_pair)
  then have rc: "rc = FLOM_RC_OK" using assms(2) by (simp add: flom_resource_numeric_waitings_def)
  have "\<forall>d \<in> set q. \<not> numeric_can_waiting e (r', w') d"
    using numeric_scan.loop_exhaustive [of "(r, w)" "nr_waitings r" e "(r', w')" q] l rc assms(1)
    by (simp add: numeric_inv_def)
  then show ?thesis
    using numeric_waitings_inv [OF assms(1), of e w] l
    by (simp add: flom_resource_numeric_waitings_def numeric_quiet_def numeric_can_waiting_def
        flom_resource_numeric_can_lock_def)
qed

lemma numeric_clean_quiet:
  assumes "numeric_quiet r" "fst (flom_resource_numeric_clean e r c w) = FLOM_RC_OK"
  shows "numeric_quiet (fst (snd (flom_resource_numeric_clean e r c w)))"
proof (cases "find (\<lambda>cl. cl_conn cl = c) (nr_holders r)")
  case None
  have "numeric_inv (fst (snd (flom_resource_numeric_clean e r c w)))"
    using assms(1) by (simp add: numeric_quiet_def numeric_clean_inv)
  then show ?thesis
    using None assms(1) set_remove_first
    by (fastforce simp: flom_resource_numeric_clean_def numeric_quiet_def conn_remove_def
        flom_resource_numeric_can_lock_def)
next
  case (Some cl)
  let ?r = "r\<lparr>nr_holders := conn_remove (nr_holders r) c,
              nr_locked_quantity := nr_locked_quantity r - cl_quantity cl\<rparr>"
  have "numeric_inv ?r"
    using assms(1) numeric_holders_inv_remove [OF _ Some] by (simp add: numeric_quiet_def numeric_inv_def)
  then show ?thesis
    using Some assms(2) numeric_waitings_quiet [of ?r e w]
    by (auto simp: flom_resource_numeric_clean_def split: prod.splits if_splits)
qed

lemma numeric_clean_ok: "env_ok e \<Longrightarrow> fst (flom_resource_numeric_clean e r c w) = FLOM_RC_OK"
  using numeric_waitings_ok
  by (auto simp: flom_resource_numeric_clean_def split: option.splits prod.splits)
     (metis fst_conv)

lemma numeric_lock_quiet:
  assumes "numeric_quiet r" "numeric_ok_msg m"
  shows "numeric_quiet (fst (snd (flom_resource_numeric_lock e r c m w)))"
proof -
  have "numeric_inv (fst (snd (flom_resource_numeric_lock e r c m w)))"
    using assms by (simp add: numeric_quiet_def numeric_lock_inv)
  then show ?thesis
    using assms
    by (auto simp: flom_resource_numeric_lock_def numeric_quiet_def Let_def flom_rsrc_conn_lock_new_def
        numeric_ok_msg_def flom_resource_numeric_can_lock_def split: prod.splits if_splits)
qed

lemma numeric_inmsg_quiet:
  assumes "numeric_quiet r" "env_ok e" "numeric_ok_msg m"
  shows "numeric_quiet (fst (snd (flom_resource_numeric_inmsg e r c m w)))"
  using assms numeric_lock_quiet [of r m e c w] numeric_clean_quiet [of r e c w] numeric_clean_ok
  by (auto simp: flom_resource_numeric_inmsg_def split: prod.splits if_splits)

interpretation numeric_ops_quiet: resource_ops
  flom_resource_numeric_inmsg flom_resource_numeric_clean numeric_quiet env_ok numeric_ok_msg
  by unfold_locales (simp_all add: numeric_inmsg_quiet numeric_clean_quiet numeric_clean_ok)

section \<open>Properties\<close>

lemma numeric_init_inv: "numeric_inv (snd (flom_resource_numeric_init name))"
  by (auto simp: flom_resource_numeric_init_def numeric_inv_def numeric_holders_inv_def held_quantity_def
      Let_def split: option.splits prod.splits)

lemma numeric_init_quiet: "numeric_quiet (snd (flom_resource_numeric_init name))"
  using numeric_init_inv [of name]
  by (auto simp: flom_resource_numeric_init_def numeric_quiet_def Let_def split: option.splits prod.splits)


text \<open>Two clients share five units, the third one waits for three.\<close>

definition numeric_events :: "rsrc_event list" where
  "numeric_events = [Ev_inmsg sample_env 1 (sample_request ''disk[5]'' 2),
     Ev_inmsg sample_env 2 (sample_request ''disk[5]'' 3),
     Ev_inmsg sample_env 3 (sample_request ''disk[5]'' 3)]"

lemma numeric_events_ok: "list_all (ev_ok env_ok numeric_ok_msg) numeric_events"
  by (simp add: numeric_events_def numeric_ok_msg_def sample_request_def env_ok_def sample_env_def)

lemma numeric_events_any: "list_all (ev_ok any_env numeric_ok_msg) numeric_events"
  by (simp add: numeric_events_def numeric_ok_msg_def sample_request_def)

definition numeric_sample :: flom_resource_numeric where
  "numeric_sample = fst (rsrc_run flom_resource_numeric_inmsg flom_resource_numeric_clean numeric_events
     (snd (flom_resource_numeric_init (Some ''disk[5]'')), sample_world))"

lemma numeric_sample_run:
  "(numeric_sample, snd (rsrc_run flom_resource_numeric_inmsg flom_resource_numeric_clean numeric_events
     (snd (flom_resource_numeric_init (Some ''disk[5]'')), sample_world)))
   = rsrc_run flom_resource_numeric_inmsg flom_resource_numeric_clean numeric_events
     (snd (flom_resource_numeric_init (Some ''disk[5]'')), sample_world)"
  by (simp add: numeric_sample_def)


text \<open>No lost wake-up on a numeric resource: when no call fails, a client waits
  only while the units left are fewer than it asked for, and it never waits for
  more units than the resource has.\<close>

theorem numeric_no_lost_wakeup:
  assumes "list_all (ev_ok env_ok numeric_ok_msg) evs"
    and "(r, w') = rsrc_run flom_resource_numeric_inmsg flom_resource_numeric_clean evs
           (snd (flom_resource_numeric_init name), w)"
    and "d \<in> set (nr_waitings r)"
  shows "nr_total_quantity r - sum_list (map cl_quantity (nr_holders r)) < cl_quantity d \<and>
         cl_quantity d \<le> nr_total_quantity r"
proof -
  have "numeric_quiet r" by (rule numeric_ops_quiet.run_rinv [OF _ assms(1,2)]) (simp add: numeric_init_quiet)
  then show ?thesis
    using assms(3) by (auto simp: numeric_quiet_def numeric_inv_def numeric_holders_inv_def held_quantity_def
        flom_resource_numeric_can_lock_def)
qed

theorem numeric_no_lost_wakeup_witness:
  "nr_waitings numeric_sample \<noteq> [] \<and>
   nr_total_quantity numeric_sample - sum_list (map cl_quantity (nr_holders numeric_sample))
     < cl_quantity (hd (nr_waitings numeric_sample)) \<and>
   cl_quantity (hd (nr_waitings numeric_sample)) \<le> nr_total_quantity numeric_sample"
proof -
  have "nr_waitings numeric_sample \<noteq> []" by code_simp
  then show ?thesis
    using numeric_no_lost_wakeup [OF numeric_events_ok numeric_sample_run, of "hd (nr_waitings numeric_sample)"]
    by simp
qed

text \<open>The answer to a request on a numeric resource: granted exactly when the
  units left suffice; a request for more than the resource has is refused as
  impossible and leaves the resource unchanged even if the client accepts to wait;
  otherwise it is queued or refused as busy.\<close>

theorem numeric_lock_answer:
  assumes "lock_request m" "env_ok e" "w_last_step w c = 8"
    and "n = l8_quantity (lock_8 m)" "left = nr_total_quantity r - nr_locked_quantity r"
  shows "\<exists>rc r' w'. flom_resource_numeric_inmsg e r c m w
             = (FLOM_RC_OK, r', lock_16_msg (e_uid e) rc None, w') \<and>
           (if n \<le> left then rc = FLOM_RC_OK \<and> nr_locked_quantity r' = nr_locked_quantity r + n
                 \<and> map cl_conn (nr_holders r') = c # map cl_conn (nr_holders r) \<and> nr_waitings r' = nr_waitings r
            else if n > nr_total_quantity r then rc = FLOM_RC_LOCK_IMPOSSIBLE \<and> r' = r
            else if l8_wait (lock_8 m) \<noteq> 0 then rc = FLOM_RC_LOCK_ENQUEUED \<and> nr_holders r' = nr_holders r
                 \<and> map cl_conn (nr_waitings r') = map cl_conn (nr_waitings r) @ [c]
            else rc = FLOM_RC_LOCK_BUSY \<and> r' = r)"
proof -
  obtain m1 where "flom_msg_free m = (FLOM_RC_OK, m1)"
    using lock_request_free [OF assms(1)] by (metis prod.collapse)
  then show ?thesis
    using assms
    by (auto simp: flom_resource_numeric_inmsg_def flom_resource_numeric_lock_def lock_request_def env_ok_def
        flom_rsrc_conn_lock_new_def build_lock_answer_16 Let_def flom_resource_numeric_can_lock_def)
qed

theorem numeric_lock_answer_witness:
  "\<exists>r' w'. flom_resource_numeric_inmsg sample_env numeric_sample 4 (sample_request ''disk[5]'' 9) sample_world
     = (FLOM_RC_OK, r', lock_16_msg (Some ''peer'') FLOM_RC_LOCK_IMPOSSIBLE None, w') \<and> r' = numeric_sample"
proof -
  have q: "nr_total_quantity numeric_sample = 5" "nr_locked_quantity numeric_sample = 5" by code_simp+
  have m: "lock_request (sample_request ''disk[5]'' 9)" "w_last_step sample_world 4 = 8"
    "l8_quantity (lock_8 (sample_request ''disk[5]'' 9)) = 9"
    by (simp_all add: lock_request_def sample_request_def sample_world_def)
  have "env_ok sample_env" by (simp add: env_ok_def sample_env_def)
  then show ?thesis
    using numeric_lock_answer [OF m(1) _ m(2) refl refl, of sample_env numeric_sample] q m
    by (auto simp: sample_env_def)
qed

text \<open>The quantity of a request is not checked for its sign: after a request of
  minus ten units a second client is granted twelve units of a resource of five.\<close>

theorem numeric_negative_request_oversubscribes:
  "let r = fst (rsrc_run flom_resource_numeric_inmsg flom_resource_numeric_clean
        [Ev_inmsg sample_env 1 (sample_request ''disk[5]'' (- 10)),
         Ev_inmsg sample_env 2 (sample_request ''disk[5]'' 12)]
        (snd (flom_resource_numeric_init (Some ''disk[5]'')), sample_world)) in
   nr_total_quantity r = 5 \<and> map (\<lambda>cl. (cl_conn cl, cl_quantity cl)) (nr_holders r) = [(2, 12), (1, - 10)]"
  by code_simp

end
