(* ===== verification/Resource_Set.thy ===== *)
theory Resource_Set
  imports Rsrc
begin

text \<open>
  The resource set, \<^verbatim>\<open>src/src/flom_resource_set.c\<close>: interchangeable elements, each
  held by at most one connection, handed out round robin.
\<close>

section \<open>State and operations\<close>

record flom_resource_set =
  st_name :: "string option"
  st_index :: nat
  st_elements :: "flom_rsrc_data_set_element list"
  st_waitings :: "flom_rsrc_conn_lock list"

text \<open>
  The search visits the positions \<open>index\<close>, \<open>index + 1\<close>, \dots\ modulo the number of
  elements and stops at the first one nobody holds.
\<close>

definition set_positions :: "flom_resource_set \<Rightarrow> nat list" where
  "set_positions r = map (\<lambda>i. (i + st_index r) mod length (st_elements r)) [0..<length (st_elements r)]"

definition flom_resource_set_can_lock :: "flom_resource_set \<Rightarrow> nat option" where
  "flom_resource_set_can_lock r = find (\<lambda>j. se_conn (st_elements r ! j) = None) (set_positions r)"

definition flom_resource_set_init :: "string option \<Rightarrow> rc \<times> flom_resource_set" where
  "flom_resource_set_init name =
     (let r = \<lparr> st_name = name, st_index = 0, st_elements = [], st_waitings = [] \<rparr> in
      case name of
        None \<Rightarrow> (FLOM_RC_G_STRDUP_ERROR, r)
      | Some n \<Rightarrow>
          (case flom_rsrc_get_elements n [] of (rc, els) \<Rightarrow> (rc, r\<lparr>st_elements := els\<rparr>)))"

text \<open>The assignment of an element and the step of the round robin index.\<close>

definition set_assign :: "flom_resource_set \<Rightarrow> nat \<Rightarrow> conn \<Rightarrow> flom_resource_set" where
  "set_assign r element c =
     r\<lparr>st_elements := (st_elements r)[element := (st_elements r ! element)\<lparr>se_conn := Some c\<rparr>],
       st_index := (st_index r + 1) mod length (st_elements r)\<rparr>"

definition set_grant_waiting ::
  "env \<Rightarrow> flom_resource_set \<times> world \<Rightarrow> flom_rsrc_conn_lock \<Rightarrow> rc \<times> flom_resource_set \<times> world" where
  "set_grant_waiting e s cl =
     (case s of (r, w) \<Rightarrow>
        case flom_resource_set_can_lock r of
          None \<Rightarrow> (FLOM_RC_INTERNAL_ERROR, r, w)
        | Some element \<Rightarrow>
            (case answer_waiting e (cl_conn cl) (Some (se_name (st_elements r ! element))) w of
               (rc, w') \<Rightarrow>
                 if rc \<noteq> FLOM_RC_OK then (rc, r, w')
                 else (FLOM_RC_OK, set_assign r element (cl_conn cl),
                       vfs_log (Vfs_move_locker_conn (cl_conn cl)) w')))"

definition set_can_waiting :: "env \<Rightarrow> flom_resource_set \<times> world \<Rightarrow> flom_rsrc_conn_lock \<Rightarrow> bool" where
  "set_can_waiting e s cl \<longleftrightarrow> flom_resource_set_can_lock (fst s) \<noteq> None"

definition flom_resource_set_waitings ::
  "env \<Rightarrow> flom_resource_set \<Rightarrow> world \<Rightarrow> rc \<times> flom_resource_set \<times> world" where
  "flom_resource_set_waitings e r w =
     (case waitings_loop (set_can_waiting e) (set_grant_waiting e) 0 (r, w) (st_waitings r) of
        (rc, (r', w'), q) \<Rightarrow> (rc, r'\<lparr>st_waitings := q\<rparr>, w'))"

definition set_find_conn :: "flom_resource_set \<Rightarrow> conn \<Rightarrow> nat option" where
  "set_find_conn r c = find (\<lambda>j. se_conn (st_elements r ! j) = Some c) [0..<length (st_elements r)]"

definition set_release :: "flom_resource_set \<Rightarrow> nat \<Rightarrow> flom_resource_set" where
  "set_release r element =
     r\<lparr>st_elements := (st_elements r)[element := (st_elements r ! element)\<lparr>se_conn := None\<rparr>]\<rparr>"

definition flom_resource_set_clean ::
  "env \<Rightarrow> flom_resource_set \<Rightarrow> conn \<Rightarrow> world \<Rightarrow> rc \<times> flom_resource_set \<times> world" where
  "flom_resource_set_clean e r c w =
     (case set_find_conn r c of
        Some element \<Rightarrow>
          (case flom_resource_set_waitings e (set_release r element) w of
             (rc, r', w') \<Rightarrow>
               if rc \<noteq> FLOM_RC_OK then (rc, r', w')
               else (FLOM_RC_OK, r', vfs_log (Vfs_del_conn c) w'))
      | None \<Rightarrow>
          (FLOM_RC_OK, r\<lparr>st_waitings := conn_remove (st_waitings r) c\<rparr>, vfs_log (Vfs_del_conn c) w))"

definition flom_resource_set_lock ::
  "env \<Rightarrow> flom_resource_set \<Rightarrow> conn \<Rightarrow> flom_msg \<Rightarrow> world \<Rightarrow> rc \<times> flom_resource_set \<times> flom_msg \<times> world" where
  "flom_resource_set_lock e r c m w =
     (let can_lock = flom_resource_set_can_lock r;
          can_wait = (l8_wait (lock_8 m) \<noteq> 0) in
      case flom_msg_free m of
        (rc, m1) \<Rightarrow>
          if rc \<noteq> FLOM_RC_OK then (rc, r, m1, w)
          else case can_lock of
            Some element \<Rightarrow>
              (let r' = set_assign r element c;
                   w' = vfs_log (Vfs_add_locker_conn c True FLOM_LOCK_MODE_INVALID None None None) w in
               case build_lock_answer e w' c flom_msg_init FLOM_RC_OK
                      (Some (se_name (st_elements r ! element))) of
                 (rc, m2) \<Rightarrow> (rc, r', m2, w'))
          | None \<Rightarrow>
              if can_wait then
                (case flom_rsrc_conn_lock_new e c of
                   None \<Rightarrow> (FLOM_RC_G_TRY_MALLOC_ERROR, r, flom_msg_init, w)
                 | Some cl \<Rightarrow>
                     let r' = r\<lparr>st_waitings := st_waitings r @ [cl]\<rparr>;
                         w' = vfs_log (Vfs_add_locker_conn c False FLOM_LOCK_MODE_INVALID None None None) w in
                     case build_lock_answer e w' c flom_msg_init FLOM_RC_LOCK_ENQUEUED None of
                       (rc, m2) \<Rightarrow> (rc, r', m2, w'))
              else
                (case build_lock_answer e w c flom_msg_init FLOM_RC_LOCK_BUSY None of
                   (rc, m2) \<Rightarrow> (rc, r, m2, w)))"

definition flom_resource_set_inmsg ::
  "env \<Rightarrow> flom_resource_set \<Rightarrow> conn \<Rightarrow> flom_msg \<Rightarrow> world \<Rightarrow> rc \<times> flom_resource_set \<times> flom_msg \<times> world" where
  "flom_resource_set_inmsg e r c m w =
     (if msg_verb m = FLOM_MSG_VERB_LOCK then flom_resource_set_lock e r c m w
      else if msg_verb m = FLOM_MSG_VERB_UNLOCK then
        (if st_name r \<noteq> u8_name (unlock_8 m) then (FLOM_RC_INVALID_OPTION, r, m, w)
         else
           (case flom_resource_set_clean e r c w of
              (rc, r', w') \<Rightarrow>
                if rc \<noteq> FLOM_RC_OK then (rc, r', m, w')
                else (case flom_msg_free m of
                        (rc, m') \<Rightarrow>
                          if rc \<noteq> FLOM_RC_OK then (rc, r', m', w')
                          else (FLOM_RC_OK, r', flom_msg_init, w'))))
      else (FLOM_RC_PROTOCOL_ERROR, r, m, w))"

definition flom_resource_set_free :: "flom_resource_set \<Rightarrow> flom_resource_set" where
  "flom_resource_set_free r = r\<lparr>st_elements := [], st_waitings := [], st_index := 0, st_name := None\<rparr>"

section \<open>The search\<close>

lemma set_positions_bound: "j \<in> set (set_positions r) \<Longrightarrow> j < length (st_elements r)"
  by (cases "st_elements r = []") (auto simp: set_positions_def)

lemma mod_covers:
  assumes "j < (n :: nat)"
  shows "\<exists>i < n. (i + k) mod n = j"
proof -
  have n: "0 < n" using assms by simp
  then have k: "k mod n \<le> n" by (simp add: less_imp_le)
  let ?i = "(j + (n - k mod n)) mod n"
  have "(?i + k) mod n = (j + (n - k mod n) + k mod n) mod n" by (metis mod_add_eq mod_add_left_eq)
  also have "j + (n - k mod n) + k mod n = j + n" using k by simp
  also have "(j + n) mod n = j" using assms by simp
  finally show ?thesis using n mod_less_divisor by blast
qed

lemma set_positions_all: "set (set_positions r) = {0..<length (st_elements r)}"
proof
  show "set (set_positions r) \<subseteq> {0..<length (st_elements r)}"
    using set_positions_bound [of _ r] by auto
next
  have "j \<in> set (set_positions r)" if "j < length (st_elements r)" for j
    using mod_covers [OF that, of "st_index r"] by (auto simp: set_positions_def)
  then show "{0..<length (st_elements r)} \<subseteq> set (set_positions r)" by auto
qed

lemma set_can_lock_Some:
  "flom_resource_set_can_lock r = Some j \<Longrightarrow>
   j < length (st_elements r) \<and> se_conn (st_elements r ! j) = None"
  using set_positions_bound by (auto simp: flom_resource_set_can_lock_def dest!: find_Some_set)

lemma set_can_lock_None:
  "flom_resource_set_can_lock r = None \<longleftrightarrow> (\<forall>el \<in> set (st_elements r). se_conn el \<noteq> None)"
  unfolding flom_resource_set_can_lock_def find_None_set set_positions_all
  by (auto simp: all_set_conv_all_nth)

lemma set_find_conn_Some:
  "set_find_conn r c = Some j \<Longrightarrow> j < length (st_elements r) \<and> se_conn (st_elements r ! j) = Some c"
  by (auto simp: set_find_conn_def dest!: find_Some_set)

section \<open>Invariant\<close>

text \<open>
  The elements keep their names, the index stays inside of the array, and the
  connections that hold an element are counted.
\<close>

definition set_held :: "flom_rsrc_data_set_element list \<Rightarrow> conn multiset" where
  "set_held els = mset (concat (map (\<lambda>el. case se_conn el of None \<Rightarrow> [] | Some c \<Rightarrow> [c]) els))"

definition set_inv :: "string list \<Rightarrow> flom_resource_set \<Rightarrow> bool" where
  "set_inv names r \<longleftrightarrow> map se_name (st_elements r) = names \<and> names \<noteq> [] \<and> st_index r < length names"

lemma set_held_assign:
  assumes "j < length els" "se_conn (els ! j) = None"
  shows "set_held (els[j := (els ! j)\<lparr>se_conn := Some c\<rparr>]) = add_mset c (set_held els)"
  using assms
proof (induction els arbitrary: j)
  case (Cons el els)
  then show ?case by (cases j) (auto simp: set_held_def split: option.splits)
qed simp

lemma set_held_release:
  assumes "j < length els" "se_conn (els ! j) = Some c"
  shows "add_mset c (set_held (els[j := (els ! j)\<lparr>se_conn := None\<rparr>])) = set_held els"
  using assms
proof (induction els arbitrary: j)
  case (Cons el els)
  then show ?case by (cases j) (auto simp: set_held_def split: option.splits)
qed simp

lemma map_se_name_update:
  "map se_name (els[j := (els ! j)\<lparr>se_conn := x\<rparr>]) = map se_name els"
  by (cases "j < length els") (simp_all add: map_update list_update_same_conv list_update_beyond)

lemma set_assign_inv: "set_inv names r \<Longrightarrow> set_inv names (set_assign r j c)"
  unfolding set_inv_def set_assign_def
  by (simp add: map_se_name_update) (metis length_map length_0_conv mod_less_divisor neq0_conv)

lemma set_release_inv: "set_inv names r \<Longrightarrow> set_inv names (set_release r j)"
  by (auto simp: set_inv_def set_release_def map_se_name_update)

lemma set_grant_waiting_result:
  assumes "set_can_waiting e s cl"
  shows "\<exists>j. flom_resource_set_can_lock (fst s) = Some j \<and>
    fst (snd (set_grant_waiting e s cl)) =
      (if fst (set_grant_waiting e s cl) = FLOM_RC_OK then set_assign (fst s) j (cl_conn cl) else fst s)"
  using assms by (auto simp: set_can_waiting_def set_grant_waiting_def split: prod.splits)

interpretation set_scan: exhaustive_scan
  "set_can_waiting e" "set_grant_waiting e" "\<lambda>s. set_inv names (fst s)" "\<lambda>cl. True"
  for e names
proof
  fix s c
  assume "set_inv names (fst s)" "set_can_waiting e s c"
  then show "set_inv names (fst (snd (set_grant_waiting e s c)))"
    using set_grant_waiting_result [of e s c] set_assign_inv by auto
next
  fix s and c d :: flom_rsrc_conn_lock
  assume "set_can_waiting e s c" "\<not> set_can_waiting e s d"
  then show "\<not> set_can_waiting e (snd (set_grant_waiting e s c)) d" by (simp add: set_can_waiting_def)
qed

interpretation set_scan_cons: conserving_scan
  "set_can_waiting e" "set_grant_waiting e" "\<lambda>s. set_held (st_elements (fst s))" cl_conn
  for e
proof
  fix s c
  assume *: "set_can_waiting e s c" "fst (set_grant_waiting e s c) = FLOM_RC_OK"
  then obtain j where "flom_resource_set_can_lock (fst s) = Some j"
    "fst (snd (set_grant_waiting e s c)) = set_assign (fst s) j (cl_conn c)"
    using set_grant_waiting_result [of e s c] by auto
  then show "set_held (st_elements (fst (snd (set_grant_waiting e s c))))
      = add_mset (cl_conn c) (set_held (st_elements (fst s)))"
    using set_can_lock_Some [of "fst s" j] by (simp add: set_assign_def set_held_assign)
next
  fix s c
  assume "set_can_waiting e s c" "fst (set_grant_waiting e s c) \<noteq> FLOM_RC_OK"
  then show "set_held (st_elements (fst (snd (set_grant_waiting e s c)))) = set_held (st_elements (fst s))"
    using set_grant_waiting_result [of e s c] by auto
qed

lemma set_waitings_inv:
  assumes "set_inv names r"
  shows "set_inv names (fst (snd (flom_resource_set_waitings e r w)))"
  using assms set_scan.loop_inv [of names "(r, w)" "st_waitings r" e]
  by (auto simp: flom_resource_set_waitings_def set_inv_def split: prod.splits)

lemma set_clean_inv:
  "set_inv names r \<Longrightarrow> set_inv names (fst (snd (flom_resource_set_clean e r c w)))"
  using set_waitings_inv [of names "set_release r (the (set_find_conn r c))" e w] set_release_inv
  by (auto simp: flom_resource_set_clean_def set_inv_def split: option.splits prod.splits)

lemma set_lock_inv:
  "set_inv names r \<Longrightarrow> set_inv names (fst (snd (flom_resource_set_lock e r c m w)))"
  using set_assign_inv [of names r]
  by (auto simp: flom_resource_set_lock_def Let_def set_inv_def split: option.splits prod.splits)

lemma set_inmsg_inv:
  "set_inv names r \<Longrightarrow> set_inv names (fst (snd (flom_resource_set_inmsg e r c m w)))"
  using set_lock_inv [of names r e c m w] set_clean_inv [of names r e c w]
  by (auto simp: flom_resource_set_inmsg_def split: prod.splits)

interpretation set_ops: resource_ops
  flom_resource_set_inmsg flom_resource_set_clean "set_inv names" any_env "\<lambda>m. True" for names
  by unfold_locales (simp_all add: set_inmsg_inv set_clean_inv)

section \<open>No element is free while a client waits\<close>

definition set_quiet :: "string list \<Rightarrow> flom_resource_set \<Rightarrow> bool" where
  "set_quiet names r \<longleftrightarrow> set_inv names r \<and> (\<forall>n \<in> set names. length n \<le> 800)
     \<and> (st_waitings r \<noteq> [] \<longrightarrow> flom_resource_set_can_lock r = None)"

lemma lock_24_text_short: "length n \<le> 800 \<Longrightarrow> length (lock_24_text (Some n)) < 1024"
  by (simp add: lock_24_text_def xml_header_def xml_attr_def xml_empty_def answer_attrs_def string_of_int_small)

lemma set_scan_ok:
  assumes "env_ok e" "set_inv names (fst s)" "\<forall>n \<in> set names. length n \<le> 800"
  shows "fst (scan (set_can_waiting e) (set_grant_waiting e) s q) = FLOM_RC_OK"
  using assms(2)
proof (induction q arbitrary: s)
  case (Cons c q)
  have ok: "fst (set_grant_waiting e s c) = FLOM_RC_OK" if can: "set_can_waiting e s c"
  proof -
    obtain j where j: "flom_resource_set_can_lock (fst s) = Some j"
      using can by (auto simp: set_can_waiting_def)
    then have "se_name (st_elements (fst s) ! j) \<in> set names"
      using set_can_lock_Some [OF j] Cons.prems by (auto simp: set_inv_def)
    then have "fst (answer_waiting e (cl_conn c) (Some (se_name (st_elements (fst s) ! j))) (snd s)) = FLOM_RC_OK"
      using assms(1,3) by (intro answer_waiting_ok lock_24_text_short) auto
    then show ?thesis using j by (cases s) (auto simp: set_grant_waiting_def split: prod.splits)
  qed
  have inv: "set_inv names (fst (snd (set_grant_waiting e s c)))" if "set_can_waiting e s c"
    using set_scan.inv_grant [OF Cons.prems _ that] by simp
  show ?case
  proof (cases "set_can_waiting e s c")
    case True
    then show ?thesis using ok inv Cons.IH [of "snd (set_grant_waiting e s c)"] by (auto split: prod.splits)
  next
    case False
    then show ?thesis using Cons.IH [OF Cons.prems] by (auto split: prod.splits)
  qed
qed simp

lemma set_waitings_quiet:
  assumes "set_inv names r" "\<forall>n \<in> set names. length n \<le> 800"
    and "fst (flom_resource_set_waitings e r w) = FLOM_RC_OK"
  shows "set_quiet names (fst (snd (flom_resource_set_waitings e r w)))"
proof -
  obtain rc r' w' q where l:
    "waitings_loop (set_can_waiting e) (set_grant_waiting e) 0 (r, w) (st_waitings r) = (rc, (r', w'), q)"
    by (metis prod_cases3 surj_pair)
  then have rc: "rc = FLOM_RC_OK" using assms(3) by (simp add: flom_resource_set_waitings_def)
  have "\<forall>d \<in> set q. \<not> set_can_waiting e (r', w') d"
    using set_scan.loop_exhaustive [of names "(r, w)" "st_waitings r" e "(r', w')" q] l rc assms(1) by simp
  then have "q \<noteq> [] \<longrightarrow> flom_resource_set_can_lock r' = None"
    by (cases q) (auto simp: set_can_waiting_def)
  then show ?thesis
    using set_waitings_inv [OF assms(1), of e w] l assms(2)
    by (simp add: flom_resource_set_waitings_def set_quiet_def flom_resource_set_can_lock_def set_positions_def)
qed

lemma set_waitings_ok:
  assumes "env_ok e" "set_inv names r" "\<forall>n \<in> set names. length n \<le> 800"
  shows "fst (flom_resource_set_waitings e r w) = FLOM_RC_OK"
  using set_scan_ok [OF assms(1) _ assms(3), of "(r, w)" "st_waitings r"] assms(2)
  by (auto simp: flom_resource_set_waitings_def waitings_loop_eq_scan split: prod.splits)

lemma set_clean_quiet:
  assumes "set_quiet names r" "env_ok e"
  shows "set_quiet names (fst (snd (flom_resource_set_clean e r c w)))"
proof (cases "set_find_conn r c")
  case None
  then show ?thesis
    using assms(1) by (auto simp: flom_resource_set_clean_def set_quiet_def set_inv_def conn_remove_def
        flom_resource_set_can_lock_def set_positions_def)
next
  case (Some j)
  have "set_inv names (set_release r j)" using assms(1) by (simp add: set_quiet_def set_release_inv)
  then show ?thesis
    using Some assms set_waitings_quiet [of names "set_release r j" e w]
      set_waitings_ok [of e names "set_release r j" w]
    by (auto simp: flom_resource_set_clean_def set_quiet_def split: prod.splits)
qed

lemma set_lock_quiet:
  assumes "set_quiet names r"
  shows "set_quiet names (fst (snd (flom_resource_set_lock e r c m w)))"
proof (cases "flom_resource_set_can_lock r")
  case None
  then show ?thesis
    using assms by (auto simp: flom_resource_set_lock_def Let_def set_quiet_def set_inv_def
        flom_resource_set_can_lock_def set_positions_def split: option.splits prod.splits)
next
  case (Some j)
  have "st_waitings r = []" using assms Some by (auto simp: set_quiet_def)
  then show ?thesis
    using assms Some set_assign_inv [of names r j c]
    by (auto simp: flom_resource_set_lock_def Let_def set_quiet_def set_assign_def split: prod.splits)
qed

lemma set_inmsg_quiet:
  assumes "set_quiet names r" "env_ok e"
  shows "set_quiet names (fst (snd (flom_resource_set_inmsg e r c m w)))"
  using assms set_lock_quiet [of names r e c m w] set_clean_quiet [of names r e c w]
  by (auto simp: flom_resource_set_inmsg_def split: prod.splits if_splits)

interpretation set_ops_quiet: resource_ops
  flom_resource_set_inmsg flom_resource_set_clean "set_quiet names" env_ok "\<lambda>m. True" for names
  by unfold_locales (simp_all add: set_inmsg_quiet set_clean_quiet)

section \<open>Properties\<close>

text \<open>The search for an element: it fails exactly when every element is held;
  otherwise it returns a free element, and every element between the round robin
  index and it, going around, is held.\<close>

theorem set_can_lock_round_robin:
  assumes "len = length (st_elements r)"
  shows "case flom_resource_set_can_lock r of
           None \<Rightarrow> list_all (\<lambda>el. se_conn el \<noteq> None) (st_elements r)
         | Some j \<Rightarrow> j < len \<and> se_conn (st_elements r ! j) = None \<and>
             (\<exists>i < len. j = (i + st_index r) mod len \<and>
                list_all (\<lambda>k. se_conn (st_elements r ! ((k + st_index r) mod len)) \<noteq> None) [0..<i])"
proof (cases "flom_resource_set_can_lock r")
  case None
  then show ?thesis using set_can_lock_None [of r] by (simp add: list_all_iff)
next
  case (Some j)
  then obtain i where "i < len" "j = (i + st_index r) mod len"
    "\<forall>k < i. se_conn (st_elements r ! ((k + st_index r) mod len)) \<noteq> None"
    using assms by (auto simp: flom_resource_set_can_lock_def find_Some_iff set_positions_def)
  then show ?thesis using Some set_can_lock_Some [OF Some] assms by (auto simp: list_all_iff)
qed

definition set_sample :: flom_resource_set where
  "set_sample = \<lparr> st_name = Some ''a.b.c'', st_index = 2,
     st_elements = [\<lparr>se_name = ''a'', se_conn = Some 1\<rparr>, \<lparr>se_name = ''b'', se_conn = None\<rparr>,
                    \<lparr>se_name = ''c'', se_conn = Some 2\<rparr>], st_waitings = [] \<rparr>"

theorem set_can_lock_round_robin_witness:
  "flom_resource_set_can_lock set_sample = Some 1 \<and>
   (\<exists>i < 3. 1 = (i + 2) mod 3 \<and>
      list_all (\<lambda>k. se_conn (st_elements set_sample ! ((k + 2) mod 3)) \<noteq> None) [0..<i])"
proof -
  have c: "flom_resource_set_can_lock set_sample = Some 1" by code_simp
  have l: "3 = length (st_elements set_sample)" "st_index set_sample = 2" by (simp_all add: set_sample_def)
  show ?thesis
    using set_can_lock_round_robin [OF l(1)] c by (auto simp: l(2))
qed

text \<open>A lock request on a resource set: when an element is free the client gets a
  free element, the answer carries its name, the elements other clients hold are
  untouched; otherwise the request is queued or refused.\<close>

theorem set_lock_answer:
  assumes "lock_request m" "env_ok e" "w_last_step w c = 8"
  shows "\<exists>rc el r' w'. flom_resource_set_inmsg e r c m w = (FLOM_RC_OK, r', lock_16_msg (e_uid e) rc el, w') \<and>
    (case flom_resource_set_can_lock r of
       Some j \<Rightarrow> rc = FLOM_RC_OK \<and> el = Some (se_name (st_elements r ! j)) \<and> j < length (st_elements r)
           \<and> se_conn (st_elements r ! j) = None \<and> se_conn (st_elements r' ! j) = Some c
           \<and> list_all (\<lambda>k. k \<noteq> j \<longrightarrow> st_elements r' ! k = st_elements r ! k) [0..<length (st_elements r)]
           \<and> st_waitings r' = st_waitings r
     | None \<Rightarrow> el = None \<and> st_elements r' = st_elements r \<and>
         (if l8_wait (lock_8 m) \<noteq> 0
          then rc = FLOM_RC_LOCK_ENQUEUED \<and> map cl_conn (st_waitings r') = map cl_conn (st_waitings r) @ [c]
          else rc = FLOM_RC_LOCK_BUSY \<and> r' = r))"
proof -
  obtain m1 where m1: "flom_msg_free m = (FLOM_RC_OK, m1)"
    using lock_request_free [OF assms(1)] by (metis prod.collapse)
  show ?thesis
  proof (cases "flom_resource_set_can_lock r")
    case None
    then show ?thesis
      using assms m1
      by (auto simp: flom_resource_set_inmsg_def flom_resource_set_lock_def lock_request_def env_ok_def
          flom_rsrc_conn_lock_new_def build_lock_answer_16 Let_def)
  next
    case (Some j)
    then show ?thesis
      using assms m1 set_can_lock_Some [OF Some]
      by (auto simp: flom_resource_set_inmsg_def flom_resource_set_lock_def lock_request_def env_ok_def
          build_lock_answer_16 Let_def set_assign_def list_all_iff)
  qed
qed

theorem set_lock_answer_witness:
  "\<exists>r' w'. flom_resource_set_inmsg sample_env set_sample 7 (sample_request ''a.b.c'' 0) sample_world
     = (FLOM_RC_OK, r', lock_16_msg (Some ''peer'') FLOM_RC_OK (Some ''b''), w')
     \<and> se_conn (st_elements r' ! 1) = Some 7 \<and> st_elements r' ! 0 = st_elements set_sample ! 0"
proof -
  have m: "lock_request (sample_request ''a.b.c'' 0)" "env_ok sample_env" "w_last_step sample_world 7 = 8"
    by (simp_all add: lock_request_def sample_request_def env_ok_def sample_env_def sample_world_def)
  have c: "flom_resource_set_can_lock set_sample = Some 1" by code_simp
  have "se_name (st_elements set_sample ! 1) = ''b''" "length (st_elements set_sample) = 3"
    by (simp_all add: set_sample_def)
  then show ?thesis
    using set_lock_answer [OF m, of set_sample] c by (auto simp: sample_env_def list_all_iff)
qed

text \<open>A resource set never leaves an element idle while a client waits, keeps its
  elements and keeps its index in range: this holds after every sequence of events
  in which no call fails, for a resource whose element names fit the answer.\<close>

theorem set_no_idle_element:
  assumes "list_all (ev_ok env_ok (\<lambda>m. True)) evs"
    and "(r, w') = rsrc_run flom_resource_set_inmsg flom_resource_set_clean evs (r0, w)"
    and "flom_resource_set_init (Some name) = (FLOM_RC_OK, r0)" "name \<noteq> []" "length name \<le> 800"
  shows "map se_name (st_elements r) = g_strsplit set_separator name \<and>
         st_index r < length (st_elements r) \<and>
         (st_waitings r \<noteq> [] \<longrightarrow> list_all (\<lambda>el. se_conn el \<noteq> None) (st_elements r))"
proof -
  let ?names = "g_strsplit set_separator name"
  have "length n \<le> length name" if "n \<in> set ?names" for n
    using that split_on_length by (auto simp: g_strsplit_def split: if_splits)
  then have "set_quiet ?names r0"
    using assms(3-5)
    by (fastforce simp: flom_resource_set_init_def flom_rsrc_get_elements_def set_quiet_def set_inv_def
        g_strsplit_def comp_def)
  then have q: "set_quiet ?names r"
    using set_ops_quiet.run_rinv [OF _ assms(1,2), of ?names] by simp
  have "length (st_elements r) = length ?names"
    using q by (metis set_quiet_def set_inv_def length_map)
  then show ?thesis
    using q set_can_lock_None [of r] by (auto simp: set_quiet_def set_inv_def list_all_iff)
qed

text \<open>Two elements and three clients: the third one waits.\<close>

definition set_events :: "rsrc_event list" where
  "set_events = map (\<lambda>c. Ev_inmsg sample_env c (sample_request ''red.blue'' 0)) [1, 2, 3]"

theorem set_no_idle_element_witness:
  "let r = fst (rsrc_run flom_resource_set_inmsg flom_resource_set_clean set_events
             (snd (flom_resource_set_init (Some ''red.blue'')), sample_world)) in
   map cl_conn (st_waitings r) = [3] \<and> map se_name (st_elements r) = [''red'', ''blue''] \<and>
   list_all (\<lambda>el. se_conn el \<noteq> None) (st_elements r)"
proof -
  let ?run = "rsrc_run flom_resource_set_inmsg flom_resource_set_clean set_events
             (snd (flom_resource_set_init (Some ''red.blue'')), sample_world)"
  obtain r w' where rw: "(r, w') = ?run" by (metis surj_pair)
  have ok: "list_all (ev_ok env_ok (\<lambda>m. True)) set_events"
    by (simp add: set_events_def env_ok_def sample_env_def)
  have i: "flom_resource_set_init (Some ''red.blue'')
      = (FLOM_RC_OK, snd (flom_resource_set_init (Some ''red.blue'')))"
    by (simp add: flom_resource_set_init_def flom_rsrc_get_elements_def Let_def)
  have q: "map cl_conn (st_waitings (fst ?run)) = [3]" by code_simp
  have "g_strsplit set_separator ''red.blue'' = [''red'', ''blue'']" by code_simp
  moreover have r: "r = fst ?run" using rw by (metis fst_conv)
  moreover have "st_waitings r \<noteq> []" using q r by auto
  ultimately show ?thesis
    using set_no_idle_element [OF ok rw i] q unfolding Let_def by simp
qed

text \<open>The end of a connection loses nobody else: when the clean-up of a resource
  set succeeds, the clients that hold an element together with those that wait are
  the ones of before, without the one occurrence of the connection that ended.\<close>

theorem set_clean_conserves:
  assumes "flom_resource_set_clean e r c w = (FLOM_RC_OK, r', w')"
  shows "set_held (st_elements r') + image_mset cl_conn (mset (st_waitings r'))
         = set_held (st_elements r) + image_mset cl_conn (mset (st_waitings r)) - {#c#}"
proof (cases "set_find_conn r c")
  case None
  then have r': "r' = r\<lparr>st_waitings := conn_remove (st_waitings r) c\<rparr>"
    using assms by (simp add: flom_resource_set_clean_def)
  have nh: "c \<notin># set_held (st_elements r)"
    using None by (auto simp: set_find_conn_def find_None_set set_held_def in_set_conv_nth split: option.splits)
      (metis atLeast0LessThan lessThan_iff nth_mem)
  show ?thesis
  proof (cases "find (\<lambda>cl. cl_conn cl = c) (st_waitings r)")
    case None
    then have "c \<notin># set_held (st_elements r) + image_mset cl_conn (mset (st_waitings r))"
      using nh by (auto simp: find_None_set)
    moreover have "r' = r" using r' None by (simp add: conn_remove_def find_None_set remove_first_none)
    ultimately show ?thesis by (metis diff_single_trivial)
  next
    case (Some cl)
    then have "mset (st_waitings r) = add_mset cl (mset (conn_remove (st_waitings r) c))" "cl_conn cl = c"
      using mset_remove_first [OF Some] find_Some_set [OF Some] by (simp_all add: conn_remove_def)
    then show ?thesis using r' by simp
  qed
next
  case (Some j)
  obtain q r2 w2 where l:
    "waitings_loop (set_can_waiting e) (set_grant_waiting e) 0 (set_release r j, w) (st_waitings r)
       = (FLOM_RC_OK, (r2, w2), q)" "r' = r2\<lparr>st_waitings := q\<rparr>"
    using assms Some
    by (auto simp: flom_resource_set_clean_def flom_resource_set_waitings_def set_release_def
        split: prod.splits if_splits)
  have "add_mset c (set_held (st_elements (set_release r j))) = set_held (st_elements r)"
    using set_find_conn_Some [OF Some] by (simp add: set_release_def set_held_release)
  then have "set_held (st_elements r) + image_mset cl_conn (mset (st_waitings r))
      = add_mset c (set_held (st_elements r2) + image_mset cl_conn (mset q))"
    using set_scan_cons.loop_conserves [OF l(1)] by (metis fst_conv union_mset_add_mset_left)
  then show ?thesis using l(2) by simp
qed

text \<open>The holder of an element leaves and a waiting client takes the element over.\<close>

definition set_full :: flom_resource_set where
  "set_full = set_sample\<lparr>st_elements := [\<lparr>se_name = ''a'', se_conn = Some 1\<rparr>],
     st_waitings := [(the (flom_rsrc_conn_lock_new sample_env 5))]\<rparr>"

theorem set_clean_conserves_witness:
  "let r' = fst (snd (flom_resource_set_clean sample_env set_full 1 sample_world)) in
   set_held (st_elements r') + image_mset cl_conn (mset (st_waitings r'))
     = set_held (st_elements set_full) + image_mset cl_conn (mset (st_waitings set_full)) - {#1#}"
proof -
  have "fst (flom_resource_set_clean sample_env set_full 1 sample_world) = FLOM_RC_OK" by code_simp
  then have "flom_resource_set_clean sample_env set_full 1 sample_world = (FLOM_RC_OK,
      fst (snd (flom_resource_set_clean sample_env set_full 1 sample_world)),
      snd (snd (flom_resource_set_clean sample_env set_full 1 sample_world)))"
    by (metis prod.collapse)
  then show ?thesis unfolding Let_def by (rule set_clean_conserves)
qed

end
