(* ===== verification/Resource_Sequence.thy ===== *)
theory Resource_Sequence
  imports Rsrc
begin

text \<open>
  The sequence resource, \<^verbatim>\<open>src/src/flom_resource_sequence.c\<close>: at most
  \<open>total_quantity\<close> clients hold a lock together, each with a number of its own.
  The numbers come from a counter of type \<^verbatim>\<open>guint\<close>, a 32 bit word here, that skips
  zero when it wraps around; a transactional sequence hands out again the values
  that were rolled back.
\<close>

section \<open>State and operations\<close>

record flom_resource_sequence =
  sq_name :: "string option"
  sq_total_quantity :: int
  sq_locked_quantity :: int
  sq_next_value :: "32 word"
  sq_rolled_back :: "32 word list option"
  sq_holders :: "flom_rsrc_conn_lock list"
  sq_waitings :: "flom_rsrc_conn_lock list"

definition flom_resource_sequence_can_lock :: "flom_resource_sequence \<Rightarrow> bool" where
  "flom_resource_sequence_can_lock r \<longleftrightarrow> sq_total_quantity r - sq_locked_quantity r > 0"

text \<open>A new value of the counter; zero stands for the null pointer in the queue.\<close>

definition sequence_new_value :: "flom_resource_sequence \<Rightarrow> 32 word \<times> flom_resource_sequence" where
  "sequence_new_value r =
     (let ret_val = sq_next_value r; r1 = r\<lparr>sq_next_value := sq_next_value r + 1\<rparr> in
      if ret_val = 0 then (sq_next_value r1, r1\<lparr>sq_next_value := sq_next_value r1 + 1\<rparr>)
      else (ret_val, r1))"

definition flom_resource_sequence_get :: "flom_resource_sequence \<Rightarrow> 32 word \<times> flom_resource_sequence" where
  "flom_resource_sequence_get r =
     (case sq_rolled_back r of
        None \<Rightarrow> sequence_new_value r
      | Some [] \<Rightarrow> sequence_new_value r
      | Some (pop # q) \<Rightarrow>
          if pop = 0 then sequence_new_value (r\<lparr>sq_rolled_back := Some q\<rparr>)
          else (pop, r\<lparr>sq_rolled_back := Some q\<rparr>))"

definition sequence_element :: "32 word \<Rightarrow> string" where
  "sequence_element v = string_of_nat (unat v)"

definition flom_resource_sequence_init :: "string option \<Rightarrow> rc \<times> flom_resource_sequence" where
  "flom_resource_sequence_init name =
     (let r = \<lparr> sq_name = name, sq_total_quantity = 0, sq_locked_quantity = 0, sq_next_value = 0,
                sq_rolled_back = None, sq_holders = [], sq_waitings = [] \<rparr> in
      case name of
        None \<Rightarrow> (FLOM_RC_G_STRDUP_ERROR, r)
      | Some n \<Rightarrow>
          (case flom_rsrc_get_number n FLOM_RSRC_TYPE_SEQUENCE of
             (rc, number) \<Rightarrow>
               (case number of
                  None \<Rightarrow> (rc, r)
                | Some quantity \<Rightarrow>
                    (rc, r\<lparr>sq_total_quantity := quantity, sq_next_value := 1,
                           sq_rolled_back := (if flom_rsrc_get_transactional n then Some [] else None)\<rparr>))))"

definition sequence_grant_waiting ::
  "env \<Rightarrow> flom_resource_sequence \<times> world \<Rightarrow> flom_rsrc_conn_lock \<Rightarrow> rc \<times> flom_resource_sequence \<times> world" where
  "sequence_grant_waiting e s cl0 =
     (case s of (r0, w) \<Rightarrow>
        case flom_resource_sequence_get r0 of
          (value, r) \<Rightarrow>
            let cl = cl0\<lparr>cl_sequence_value := value, cl_rollback := True\<rparr>;
                element = sequence_element value in
            case answer_waiting e (cl_conn cl) (Some element) w of
              (rc, w') \<Rightarrow>
                if rc \<noteq> FLOM_RC_OK then (rc, r, w')
                else (FLOM_RC_OK,
                      r\<lparr>sq_holders := cl # sq_holders r, sq_locked_quantity := sq_locked_quantity r + 1\<rparr>,
                      vfs_log (Vfs_move_locker_conn (cl_conn cl))
                        (vfs_log (Vfs_add_locker_conn_file (cl_conn cl) False ''sequence_value''
                                    (element @ [newline])) w')))"

definition sequence_can_waiting :: "env \<Rightarrow> flom_resource_sequence \<times> world \<Rightarrow> flom_rsrc_conn_lock \<Rightarrow> bool" where
  "sequence_can_waiting e s cl = flom_resource_sequence_can_lock (fst s)"

definition flom_resource_sequence_waitings ::
  "env \<Rightarrow> flom_resource_sequence \<Rightarrow> world \<Rightarrow> rc \<times> flom_resource_sequence \<times> world" where
  "flom_resource_sequence_waitings e r w =
     (case waitings_loop (sequence_can_waiting e) (sequence_grant_waiting e) 0 (r, w) (sq_waitings r) of
        (rc, (r', w'), q) \<Rightarrow> (rc, r'\<lparr>sq_waitings := q\<rparr>, w'))"

text \<open>The holder leaves the list; a transactional sequence keeps its value for re-use.\<close>

definition sequence_release :: "flom_resource_sequence \<Rightarrow> flom_rsrc_conn_lock \<Rightarrow> flom_resource_sequence" where
  "sequence_release r cl =
     r\<lparr>sq_rolled_back := (case sq_rolled_back r of
          None \<Rightarrow> None
        | Some q \<Rightarrow> Some (if cl_rollback cl then q @ [cl_sequence_value cl] else q)),
       sq_holders := conn_remove (sq_holders r) (cl_conn cl),
       sq_locked_quantity := sq_locked_quantity r - 1\<rparr>"

definition flom_resource_sequence_clean ::
  "env \<Rightarrow> flom_resource_sequence \<Rightarrow> conn \<Rightarrow> world \<Rightarrow> rc \<times> flom_resource_sequence \<times> world" where
  "flom_resource_sequence_clean e r c w =
     (case flom_rsrc_conn_find (sq_holders r) c of
        Some cl \<Rightarrow>
          (case flom_resource_sequence_waitings e (sequence_release r cl) w of
             (rc, r', w') \<Rightarrow>
               if rc \<noteq> FLOM_RC_OK then (rc, r', w')
               else (FLOM_RC_OK, r', vfs_log (Vfs_del_conn c) w'))
      | None \<Rightarrow>
          (FLOM_RC_OK, r\<lparr>sq_waitings := conn_remove (sq_waitings r) c\<rparr>, vfs_log (Vfs_del_conn c) w))"

definition flom_resource_sequence_lock ::
  "env \<Rightarrow> flom_resource_sequence \<Rightarrow> conn \<Rightarrow> flom_msg \<Rightarrow> world \<Rightarrow> rc \<times> flom_resource_sequence \<times> flom_msg \<times> world" where
  "flom_resource_sequence_lock e r c m w =
     (let can_lock = flom_resource_sequence_can_lock r;
          can_wait = (l8_wait (lock_8 m) \<noteq> 0) in
      case flom_msg_free m of
        (rc, m1) \<Rightarrow>
          if rc \<noteq> FLOM_RC_OK then (rc, r, m1, w)
          else if can_lock then
            (case flom_rsrc_conn_lock_new e c of
               None \<Rightarrow> (FLOM_RC_G_TRY_MALLOC_ERROR, r, flom_msg_init, w)
             | Some cl0 \<Rightarrow>
                 (case flom_resource_sequence_get r of
                    (value, r1) \<Rightarrow>
                      let cl = cl0\<lparr>cl_sequence_value := value, cl_rollback := True\<rparr>;
                          element = sequence_element value;
                          r' = r1\<lparr>sq_holders := cl # sq_holders r1,
                                  sq_locked_quantity := sq_locked_quantity r1 + 1\<rparr> in
                      case build_lock_answer e w c flom_msg_init FLOM_RC_OK (Some element) of
                        (rc, m2) \<Rightarrow>
                          if rc \<noteq> FLOM_RC_OK then (rc, r', m2, w)
                          else (FLOM_RC_OK, r', m2,
                                vfs_log (Vfs_add_locker_conn c True FLOM_LOCK_MODE_INVALID None
                                           (Some (element @ [newline])) None) w)))
          else if can_wait then
            (case flom_rsrc_conn_lock_new e c of
               None \<Rightarrow> (FLOM_RC_G_TRY_MALLOC_ERROR, r, flom_msg_init, w)
             | Some cl \<Rightarrow>
                 let r' = r\<lparr>sq_waitings := sq_waitings r @ [cl]\<rparr> in
                 case build_lock_answer e w c flom_msg_init FLOM_RC_LOCK_ENQUEUED None of
                   (rc, m2) \<Rightarrow>
                     if rc \<noteq> FLOM_RC_OK then (rc, r', m2, w)
                     else (FLOM_RC_OK, r', m2,
                           vfs_log (Vfs_add_locker_conn c False FLOM_LOCK_MODE_INVALID None None None) w))
          else
            (case build_lock_answer e w c flom_msg_init FLOM_RC_LOCK_BUSY None of
               (rc, m2) \<Rightarrow> (rc, r, m2, w)))"

text \<open>The unlock request writes its rollback flag into the first lock record of the client.\<close>

fun set_rollback :: "conn \<Rightarrow> bool \<Rightarrow> flom_rsrc_conn_lock list \<Rightarrow> flom_rsrc_conn_lock list" where
  "set_rollback c b [] = []"
| "set_rollback c b (cl # cls) =
     (if cl_conn cl = c then cl\<lparr>cl_rollback := b\<rparr> # cls else cl # set_rollback c b cls)"

definition flom_resource_sequence_inmsg ::
  "env \<Rightarrow> flom_resource_sequence \<Rightarrow> conn \<Rightarrow> flom_msg \<Rightarrow> world \<Rightarrow> rc \<times> flom_resource_sequence \<times> flom_msg \<times> world" where
  "flom_resource_sequence_inmsg e r c m w =
     (if msg_verb m = FLOM_MSG_VERB_LOCK then flom_resource_sequence_lock e r c m w
      else if msg_verb m = FLOM_MSG_VERB_UNLOCK then
        (if sq_name r \<noteq> u8_name (unlock_8 m) then (FLOM_RC_INVALID_OPTION, r, m, w)
         else if flom_rsrc_conn_find (sq_holders r) c = None then (FLOM_RC_OBJ_CORRUPTED, r, m, w)
         else
           (case flom_resource_sequence_clean e
                   (r\<lparr>sq_holders := set_rollback c (u8_rollback (unlock_8 m) \<noteq> 0) (sq_holders r)\<rparr>) c w of
              (rc, r', w') \<Rightarrow>
                if rc \<noteq> FLOM_RC_OK then (rc, r', m, w')
                else (case flom_msg_free m of
                        (rc, m') \<Rightarrow>
                          if rc \<noteq> FLOM_RC_OK then (rc, r', m', w')
                          else (FLOM_RC_OK, r', flom_msg_init, w'))))
      else (FLOM_RC_PROTOCOL_ERROR, r, m, w))"

text \<open>The queue of the rolled back values is freed, its pointer is not reset.\<close>

definition flom_resource_sequence_free :: "flom_resource_sequence \<Rightarrow> flom_resource_sequence" where
  "flom_resource_sequence_free r =
     r\<lparr>sq_holders := [], sq_waitings := [], sq_rolled_back := map_option (\<lambda>q. []) (sq_rolled_back r),
       sq_total_quantity := 0, sq_locked_quantity := 0, sq_name := None\<rparr>"

section \<open>Invariant\<close>

text \<open>
  The outstanding values of a sequence: those of the holders and those kept for
  re-use.  As long as the counter has not wrapped around they are distinct, not
  zero, and below the counter.
\<close>

definition rolled_back_values :: "flom_resource_sequence \<Rightarrow> 32 word list" where
  "rolled_back_values r = (case sq_rolled_back r of None \<Rightarrow> [] | Some q \<Rightarrow> q)"

definition sequence_values :: "flom_resource_sequence \<Rightarrow> 32 word list" where
  "sequence_values r = map cl_sequence_value (sq_holders r) @ rolled_back_values r"

definition sequence_core :: "flom_resource_sequence \<Rightarrow> bool" where
  "sequence_core r \<longleftrightarrow> distinct (sequence_values r) \<and> 0 < unat (sq_next_value r)
     \<and> (\<forall>v \<in> set (sequence_values r). v \<noteq> 0 \<and> unat v < unat (sq_next_value r))
     \<and> sq_locked_quantity r = int (length (sq_holders r))
     \<and> sq_locked_quantity r \<le> max 0 (sq_total_quantity r)"

definition sequence_binv :: "nat \<Rightarrow> flom_resource_sequence \<Rightarrow> bool" where
  "sequence_binv n r \<longleftrightarrow> sequence_core r \<and> unat (sq_next_value r) + length (sq_waitings r) \<le> Suc n"

lemma unat_next: "unat v + 1 < 2 ^ 32 \<Longrightarrow> unat (v + 1) = unat (v :: 32 word) + 1"
  by (simp add: unat_word_ariths)

text \<open>What the next value of a sequence is, and what it changes.\<close>

lemma sequence_get_core:
  assumes "sequence_core r" "unat (sq_next_value r) + 1 < 2 ^ 32"
    and "flom_resource_sequence_get r = (v, r1)"
  shows "v \<noteq> 0 \<and> v \<notin> set (sequence_values r1) \<and> unat v < unat (sq_next_value r1)
    \<and> sequence_core r1 \<and> sq_holders r1 = sq_holders r \<and> sq_waitings r1 = sq_waitings r
    \<and> sq_locked_quantity r1 = sq_locked_quantity r \<and> sq_total_quantity r1 = sq_total_quantity r
    \<and> unat (sq_next_value r1) \<le> unat (sq_next_value r) + 1
    \<and> sq_name r1 = sq_name r"
proof (cases "rolled_back_values r")
  case Nil
  have nz: "sq_next_value r \<noteq> 0" using assms(1) by (auto simp: sequence_core_def)
  then have v: "v = sq_next_value r" "r1 = r\<lparr>sq_next_value := sq_next_value r + 1\<rparr>"
    using assms(3) Nil
    by (auto simp: flom_resource_sequence_get_def sequence_new_value_def rolled_back_values_def Let_def
        split: option.splits)
  have vals: "sequence_values r1 = sequence_values r" by (simp add: sequence_values_def rolled_back_values_def v)
  have "v \<notin> set (sequence_values r)" using assms(1) v by (auto simp: sequence_core_def)
  moreover have "sequence_core r1"
    using assms(1) unat_next [OF assms(2)] vals by (auto simp: sequence_core_def v)
  ultimately show ?thesis using nz vals unat_next [OF assms(2)] by (simp add: v)
next
  case (Cons x q)
  have x: "x \<in> set (sequence_values r)" using Cons by (simp add: sequence_values_def)
  then have "x \<noteq> 0" using assms(1) by (auto simp: sequence_core_def)
  then have v: "v = x" "r1 = r\<lparr>sq_rolled_back := Some q\<rparr>"
    using assms(3) Cons
    by (auto simp: flom_resource_sequence_get_def rolled_back_values_def split: option.splits)
  have vals: "sequence_values r = map cl_sequence_value (sq_holders r) @ x # q"
    "sequence_values r1 = map cl_sequence_value (sq_holders r) @ q"
    using Cons by (simp_all add: sequence_values_def rolled_back_values_def v)
  then show ?thesis using assms(1) v by (auto simp: sequence_core_def)
qed

lemma sequence_add_holder:
  assumes "sequence_core r" "v \<noteq> 0" "v \<notin> set (sequence_values r)" "unat v < unat (sq_next_value r)"
    "flom_resource_sequence_can_lock r" "cl_sequence_value cl = v"
  shows "sequence_core (r\<lparr>sq_holders := cl # sq_holders r, sq_locked_quantity := sq_locked_quantity r + 1\<rparr>)"
  using assms
  by (auto simp: sequence_core_def sequence_values_def rolled_back_values_def flom_resource_sequence_can_lock_def)

lemma sequence_grant_waiting_core:
  assumes "sequence_core (fst s)" "unat (sq_next_value (fst s)) + 1 < 2 ^ 32"
    "sequence_can_waiting e s cl" "sequence_grant_waiting e s cl = (rc, s')"
  shows "sequence_core (fst s') \<and> unat (sq_next_value (fst s')) \<le> unat (sq_next_value (fst s)) + 1"
proof -
  obtain v r1 where g: "flom_resource_sequence_get (fst s) = (v, r1)" by force
  note G = sequence_get_core [OF assms(1,2) g]
  have "flom_resource_sequence_can_lock r1"
    using G assms(3) by (simp add: sequence_can_waiting_def flom_resource_sequence_can_lock_def)
  then show ?thesis
    using G assms(4) sequence_add_holder [of r1 v "cl\<lparr>cl_sequence_value := v, cl_rollback := True\<rparr>"] g
    by (auto simp: sequence_grant_waiting_def Let_def split: prod.splits if_splits)
qed

lemma sequence_scan_core:
  assumes "scan (sequence_can_waiting e) (sequence_grant_waiting e) s q = (rc, s', q')"
    and "sequence_core (fst s)" "unat (sq_next_value (fst s)) + length q < 2 ^ 32"
  shows "sequence_core (fst s') \<and>
    unat (sq_next_value (fst s')) + length q' \<le> unat (sq_next_value (fst s)) + length q"
  using assms
proof (induction q arbitrary: s rc s' q')
  case (Cons c q)
  show ?case
  proof (cases "sequence_can_waiting e s c")
    case True
    obtain rc1 s1 where g: "sequence_grant_waiting e s c = (rc1, s1)" by (metis surj_pair)
    have "sequence_core (fst s1) \<and> unat (sq_next_value (fst s1)) \<le> unat (sq_next_value (fst s)) + 1"
      using sequence_grant_waiting_core [OF Cons.prems(2) _ True g] Cons.prems(3) by simp
    then show ?thesis
      using Cons.prems True g Cons.IH [of s1 rc s' q'] by (auto split: if_splits)
  next
    case False
    obtain rc1 s1 q1 where "scan (sequence_can_waiting e) (sequence_grant_waiting e) s q = (rc1, s1, q1)"
      by (metis prod_cases3)
    then show ?thesis using Cons.prems False Cons.IH [of s rc1 s1 q1] by auto
  qed
qed simp

lemma sequence_waitings_binv:
  assumes "sequence_binv n r" "Suc n < 2 ^ 32"
  shows "sequence_binv n (fst (snd (flom_resource_sequence_waitings e r w)))"
proof -
  obtain rc r' w' q where l:
    "scan (sequence_can_waiting e) (sequence_grant_waiting e) (r, w) (sq_waitings r) = (rc, (r', w'), q)"
    by (metis prod_cases3 surj_pair)
  then have "sequence_core r' \<and> unat (sq_next_value r') + length q \<le> unat (sq_next_value r) + length (sq_waitings r)"
    using sequence_scan_core [OF l] assms by (simp add: sequence_binv_def)
  then show ?thesis
    using l assms(1)
    by (simp add: flom_resource_sequence_waitings_def waitings_loop_eq_scan sequence_binv_def sequence_core_def
        sequence_values_def rolled_back_values_def)
qed

lemma sequence_release_binv:
  assumes "sequence_binv n r" "flom_rsrc_conn_find (sq_holders r) c = Some cl"
  shows "sequence_binv n (sequence_release r cl)"
proof -
  have f: "find (\<lambda>x. cl_conn x = cl_conn cl) (sq_holders r) = Some cl"
    using assms(2) find_Some_set [of "\<lambda>x. cl_conn x = c" "sq_holders r" cl] by (simp add: flom_rsrc_conn_find_def)
  have ms: "mset (sq_holders r) = add_mset cl (mset (conn_remove (sq_holders r) (cl_conn cl)))"
    using mset_remove_first [OF f] by (simp add: conn_remove_def)
  then have len: "length (sq_holders r) = Suc (length (conn_remove (sq_holders r) (cl_conn cl)))"
    by (metis size_add_mset size_mset)
  let ?h = "map cl_sequence_value (conn_remove (sq_holders r) (cl_conn cl))"
  let ?b = "rolled_back_values r"
  have old: "mset (sequence_values r) = add_mset (cl_sequence_value cl) (mset (?h @ ?b))"
    using ms by (simp add: sequence_values_def)
  have new: "mset (sequence_values (sequence_release r cl)) \<subseteq># mset (sequence_values r)"
    unfolding old
    by (auto simp: sequence_values_def sequence_release_def rolled_back_values_def split: option.splits)
  have "distinct (sequence_values (sequence_release r cl))"
    using distinct_submset [OF new] assms(1) by (simp add: sequence_binv_def sequence_core_def)
  moreover have "set (sequence_values (sequence_release r cl)) \<subseteq> set (sequence_values r)"
    using set_mset_mono [OF new] by simp
  ultimately show ?thesis
    using assms(1) len by (auto simp: sequence_binv_def sequence_core_def sequence_release_def)
qed

lemma sequence_binv_mono: "sequence_binv n r \<Longrightarrow> n \<le> n' \<Longrightarrow> sequence_binv n' r"
  by (auto simp: sequence_binv_def)

lemma sequence_clean_binv:
  assumes "sequence_binv n r" "Suc n < 2 ^ 32"
  shows "sequence_binv n (fst (snd (flom_resource_sequence_clean e r c w)))"
proof (cases "flom_rsrc_conn_find (sq_holders r) c")
  case None
  have "length (conn_remove (sq_waitings r) c) \<le> length (sq_waitings r)"
    by (simp add: conn_remove_def length_remove_first_le)
  then show ?thesis
    using None assms(1)
    by (auto simp: flom_resource_sequence_clean_def sequence_binv_def sequence_core_def sequence_values_def
        rolled_back_values_def)
next
  case (Some cl)
  then show ?thesis
    using sequence_waitings_binv [OF sequence_release_binv [OF assms(1) Some] assms(2), of e w]
    by (auto simp: flom_resource_sequence_clean_def split: prod.splits)
qed

lemma set_rollback_map:
  "map cl_sequence_value (set_rollback c b cls) = map cl_sequence_value cls"
  "length (set_rollback c b cls) = length cls"
  by (induction cls) auto

lemma sequence_lock_binv:
  assumes "sequence_binv n r" "Suc (Suc n) < 2 ^ 32"
  shows "sequence_binv (Suc n) (fst (snd (flom_resource_sequence_lock e r c m w)))"
proof -
  obtain v r1 where g: "flom_resource_sequence_get r = (v, r1)" by force
  note G = sequence_get_core [OF _ _ g]
  have core: "sequence_core r" "unat (sq_next_value r) + 1 < 2 ^ 32"
    using assms by (simp_all add: sequence_binv_def)
  have grant: "flom_resource_sequence_can_lock r \<Longrightarrow> cl_sequence_value cl = v \<Longrightarrow>
      sequence_binv (Suc n) (r1\<lparr>sq_holders := cl # sq_holders r1,
        sq_locked_quantity := sq_locked_quantity r1 + 1\<rparr>)" for cl
    using G [OF core] assms(1) sequence_add_holder [of r1 v cl]
    by (auto simp: sequence_binv_def flom_resource_sequence_can_lock_def)
  have queue: "sequence_binv (Suc n) (r\<lparr>sq_waitings := sq_waitings r @ [cl]\<rparr>)" for cl
    using assms(1) by (auto simp: sequence_binv_def sequence_core_def sequence_values_def rolled_back_values_def)
  show ?thesis
    using sequence_binv_mono [OF assms(1), of "Suc n"] grant queue g
    by (auto simp: flom_resource_sequence_lock_def Let_def flom_rsrc_conn_lock_new_def split: prod.splits)
qed

lemma sequence_inmsg_binv:
  assumes "sequence_binv n r" "Suc (Suc n) < 2 ^ 32"
  shows "sequence_binv (Suc n) (fst (snd (flom_resource_sequence_inmsg e r c m w)))"
proof -
  let ?r = "r\<lparr>sq_holders := set_rollback c (u8_rollback (unlock_8 m) \<noteq> 0) (sq_holders r)\<rparr>"
  have "sequence_binv n ?r"
    using assms(1) by (simp add: sequence_binv_def sequence_core_def sequence_values_def rolled_back_values_def
        set_rollback_map)
  then have "sequence_binv (Suc n) (fst (snd (flom_resource_sequence_clean e ?r c w)))"
    using sequence_clean_binv [of n ?r e c w] sequence_binv_mono assms(2) by fastforce
  then show ?thesis
    using sequence_lock_binv [OF assms, of e c m w] sequence_binv_mono [OF assms(1), of "Suc n"]
    by (auto simp: flom_resource_sequence_inmsg_def split: prod.splits)
qed

interpretation sequence_ops: bounded_resource_ops
  flom_resource_sequence_inmsg flom_resource_sequence_clean sequence_binv "2 ^ 32 - 3"
proof
  fix n r e c m w
  assume "sequence_binv n r" "n < 2 ^ 32 - 3"
  then show "sequence_binv (Suc n) (fst (snd (flom_resource_sequence_inmsg e r c m w)))"
    by (intro sequence_inmsg_binv) simp_all
next
  fix n r e c w
  assume a: "sequence_binv n r" "n < 2 ^ 32 - 3"
  then have "sequence_binv n (fst (snd (flom_resource_sequence_clean e r c w)))"
    by (intro sequence_clean_binv) simp_all
  then show "sequence_binv (Suc n) (fst (snd (flom_resource_sequence_clean e r c w)))"
    by (rule sequence_binv_mono) simp
qed

section \<open>Properties\<close>

lemma sequence_init_binv:
  assumes "flom_resource_sequence_init (Some name) = (FLOM_RC_OK, r0)"
  shows "sequence_binv 0 r0"
proof -
  obtain q where "flom_rsrc_get_number name FLOM_RSRC_TYPE_SEQUENCE = (FLOM_RC_OK, Some q)"
    using assms by (auto simp: flom_resource_sequence_init_def flom_rsrc_get_number_def Let_def
        split: prod.splits option.splits)
  then have "r0 = \<lparr> sq_name = Some name, sq_total_quantity = q, sq_locked_quantity = 0, sq_next_value = 1,
      sq_rolled_back = (if flom_rsrc_get_transactional name then Some [] else None),
      sq_holders = [], sq_waitings = [] \<rparr>"
    using assms by (simp add: flom_resource_sequence_init_def Let_def)
  then show ?thesis
    by (simp add: sequence_binv_def sequence_core_def sequence_values_def rolled_back_values_def)
qed


text \<open>Two clients of a transactional sequence; the first one disconnects and a third one comes.\<close>

definition sequence_events :: "rsrc_event list" where
  "sequence_events = [Ev_inmsg sample_env 1 (sample_request ''_S_id[2]'' 0),
     Ev_inmsg sample_env 2 (sample_request ''_S_id[2]'' 0), Ev_clean sample_env 1,
     Ev_inmsg sample_env 3 (sample_request ''_S_id[2]'' 0)]"


text \<open>No value of a sequence is zero, whatever the state of the counter: the wrap
  of the counter at $2^{32}$ skips it.\<close>

theorem sequence_get_nonzero: "fst (flom_resource_sequence_get r) \<noteq> 0"
  by (auto simp: flom_resource_sequence_get_def sequence_new_value_def Let_def split: option.splits list.splits)

text \<open>Roll back and commit: when a client of a transactional sequence with no value
  to re-use and no client waiting goes away, its value is the next one handed out if
  the client did not commit, and a value never handed out before if it did.\<close>

theorem sequence_rollback_reuses_value:
  assumes "sequence_core r" "unat (sq_next_value r) + 1 < 2 ^ 32"
    and "sq_rolled_back r = Some []" "sq_waitings r = []"
    and "flom_rsrc_conn_find (sq_holders r) c = Some cl"
    and "flom_resource_sequence_clean e r c w = (rc, r', w')"
  shows "rc = FLOM_RC_OK \<and>
    (if cl_rollback cl then fst (flom_resource_sequence_get r') = cl_sequence_value cl
     else list_all (\<lambda>v. v < fst (flom_resource_sequence_get r')) (sequence_values r))"
proof -
  have "flom_resource_sequence_waitings e (sequence_release r cl) w = (FLOM_RC_OK, sequence_release r cl, w)"
    using assms(4) by (simp add: flom_resource_sequence_waitings_def waitings_loop.simps sequence_release_def)
  then have r': "rc = FLOM_RC_OK" "r' = sequence_release r cl"
    using assms(5,6) by (simp_all add: flom_resource_sequence_clean_def)
  have cl: "cl \<in> set (sq_holders r)"
    using assms(5) by (simp add: flom_rsrc_conn_find_def find_Some_set)
  then have nz: "cl_sequence_value cl \<noteq> 0"
    using assms(1) by (auto simp: sequence_core_def sequence_values_def)
  have "sq_next_value r \<noteq> 0" using assms(1) by (auto simp: sequence_core_def)
  then show ?thesis
    using r' nz assms(1,3)
    by (auto simp: flom_resource_sequence_get_def sequence_new_value_def sequence_release_def Let_def
        sequence_core_def list_all_iff word_less_nat_alt)
qed

definition sequence_sample :: flom_resource_sequence where
  "sequence_sample = fst (rsrc_run flom_resource_sequence_inmsg flom_resource_sequence_clean
     (take 2 sequence_events) (snd (flom_resource_sequence_init (Some ''_S_id[2]'')), sample_world))"

theorem sequence_rollback_reuses_value_witness:
  "fst (flom_resource_sequence_get (fst (snd (flom_resource_sequence_clean sample_env sequence_sample 1 sample_world)))) = 1"
proof -
  let ?c = "flom_resource_sequence_clean sample_env sequence_sample 1 sample_world"
  obtain cl where cl: "flom_rsrc_conn_find (sq_holders sequence_sample) 1 = Some cl"
    "cl_rollback cl" "cl_sequence_value cl = 1"
  proof
    show "flom_rsrc_conn_find (sq_holders sequence_sample) 1 =
        Some ((the (flom_rsrc_conn_lock_new sample_env 1))\<lparr>cl_sequence_value := 1, cl_rollback := True\<rparr>)"
      by code_simp
  qed (simp_all add: flom_rsrc_conn_lock_new_def sample_env_def)
  have "sequence_core sequence_sample" unfolding sequence_core_def by code_simp
  moreover have "sq_next_value sequence_sample = 3" by code_simp
  then have "unat (sq_next_value sequence_sample) + 1 < 2 ^ 32" by simp
  moreover have "sq_rolled_back sequence_sample = Some []" "sq_waitings sequence_sample = []" by code_simp+
  ultimately show ?thesis
    using sequence_rollback_reuses_value [OF _ _ _ _ cl(1), of sample_env sample_world "fst ?c"
        "fst (snd ?c)" "snd (snd ?c)"] cl by simp
qed

text \<open>The answer to a lock request on a sequence names the value of the new lock
  in decimal digits; beyond the allowed number of clients the request is queued or
  refused, and the counter does not move.\<close>

theorem sequence_lock_answer:
  assumes "lock_request m" "env_ok e" "w_last_step w c = 8"
  shows "\<exists>rc el r' w'. flom_resource_sequence_inmsg e r c m w = (FLOM_RC_OK, r', lock_16_msg (e_uid e) rc el, w') \<and>
    (if sq_locked_quantity r < sq_total_quantity r
     then rc = FLOM_RC_OK \<and> el = Some (string_of_nat (unat (cl_sequence_value (hd (sq_holders r')))))
          \<and> cl_conn (hd (sq_holders r')) = c \<and> tl (sq_holders r') = sq_holders r
          \<and> cl_sequence_value (hd (sq_holders r')) = fst (flom_resource_sequence_get r)
     else el = None \<and> sq_holders r' = sq_holders r \<and> sq_next_value r' = sq_next_value r \<and>
          (if l8_wait (lock_8 m) \<noteq> 0
           then rc = FLOM_RC_LOCK_ENQUEUED \<and> map cl_conn (sq_waitings r') = map cl_conn (sq_waitings r) @ [c]
           else rc = FLOM_RC_LOCK_BUSY \<and> r' = r))"
proof -
  obtain m1 where m1: "flom_msg_free m = (FLOM_RC_OK, m1)"
    using lock_request_free [OF assms(1)] by (metis prod.collapse)
  obtain v r1 where g: "flom_resource_sequence_get r = (v, r1)" by force
  have "sq_holders r1 = sq_holders r"
    using g by (auto simp: flom_resource_sequence_get_def sequence_new_value_def Let_def
        split: option.splits list.splits if_splits)
  then show ?thesis
    using assms m1 g
    by (auto simp: flom_resource_sequence_inmsg_def flom_resource_sequence_lock_def lock_request_def env_ok_def
        flom_rsrc_conn_lock_new_def build_lock_answer_16 Let_def flom_resource_sequence_can_lock_def
        sequence_element_def)
qed

theorem sequence_lock_answer_witness:
  "\<exists>r' w'. flom_resource_sequence_inmsg sample_env sequence_sample 5 (sample_request ''_S_id[2]'' 0) sample_world
     = (FLOM_RC_OK, r', lock_16_msg (Some ''peer'') FLOM_RC_LOCK_ENQUEUED None, w')
     \<and> map cl_conn (sq_waitings r') = map cl_conn (sq_waitings sequence_sample) @ [5]"
proof -
  have m: "lock_request (sample_request ''_S_id[2]'' 0)" "env_ok sample_env" "w_last_step sample_world 5 = 8"
    "l8_wait (lock_8 (sample_request ''_S_id[2]'' 0)) \<noteq> 0"
    by (simp_all add: lock_request_def sample_request_def env_ok_def sample_env_def sample_world_def)
  have n: "\<not> sq_locked_quantity sequence_sample < sq_total_quantity sequence_sample" by code_simp
  have u: "e_uid sample_env = Some ''peer''" by (simp add: sample_env_def)
  show ?thesis
    using sequence_lock_answer [OF m(1-3), of sequence_sample, unfolded if_not_P [OF n] if_P [OF m(4)] u]
    by (elim exE conjE) (intro exI conjI, hypsubst, assumption+)
qed

text \<open>A value is lost when the network fails at the wrong moment: a client of a
  transactional sequence disconnects without committing while another one waits; the
  value goes to the waiting client, the message to it cannot be sent, and the value
  is neither held nor kept for re-use.\<close>

theorem sequence_send_failure_loses_value:
  "let bad = sample_env\<lparr>e_send := (\<lambda>n c. FLOM_RC_SEND_ERROR)\<rparr>;
       r = fst (rsrc_run flom_resource_sequence_inmsg flom_resource_sequence_clean
             [Ev_inmsg sample_env 1 (sample_request ''_S_id[1]'' 0),
              Ev_inmsg sample_env 2 (sample_request ''_S_id[1]'' 0), Ev_clean bad 1]
             (snd (flom_resource_sequence_init (Some ''_S_id[1]'')), sample_world)) in
   sq_holders r = [] \<and> sq_waitings r = [] \<and> sq_rolled_back r = Some [] \<and>
   fst (flom_resource_sequence_get r) = 2"
  by code_simp

end
