(* ===== verification/Resource_Hier.thy ===== *)
theory Resource_Hier
  imports Rsrc "HOL-Library.Sublist"
begin

text \<open>
  The hierarchical resource, \<^verbatim>\<open>src/src/flom_resource_hier.c\<close>: a tree of names, a
  list of holders at every node, one queue of waiting clients.  A lock on a path
  has to be compatible with the locks on every prefix of the path and on every
  path that extends it.
\<close>

section \<open>The tree\<close>

datatype hier_element =
  Hier (he_name: string) (he_holders: "flom_rsrc_conn_lock list") (he_leaves: "hier_element list")

record flom_resource_hier =
  hr_name :: "string option"
  hr_root :: hier_element
  hr_waitings :: "flom_rsrc_conn_lock list"

text \<open>
  The path is the list of the level names; the empty list is the \<^verbatim>\<open>NULL\<close> that ends
  the array of strings.  At the end of the path all the leaves are checked.
\<close>

fun flom_resource_hier_can_lock ::
  "env \<Rightarrow> hier_element \<Rightarrow> flom_lock_mode \<Rightarrow> string list \<Rightarrow> bool" where
  "flom_resource_hier_can_lock e (Hier name holders leaves) lock level_name =
     (if level_name \<noteq> [] \<and> hd level_name \<noteq> name then True
      else list_all (\<lambda>cl. lock_table (e_oob e) (cl_lock_mode cl) lock) holders
           \<and> list_all (\<lambda>leaf. flom_resource_hier_can_lock e leaf lock (tl level_name)) leaves)"

text \<open>
  The nodes added for the rest of a path, the last one with the new holder.  When
  the allocation of a node fails the nodes before it stay, without a holder.
\<close>

fun hier_chain ::
  "(nat \<Rightarrow> bool) \<Rightarrow> nat \<Rightarrow> flom_rsrc_conn_lock \<Rightarrow> string list \<Rightarrow> rc \<times> hier_element list" where
  "hier_chain fails i cl [] = (FLOM_RC_OK, [])"
| "hier_chain fails i cl (x # xs) =
     (if fails i then (FLOM_RC_G_TRY_MALLOC_ERROR, [])
      else if xs = [] then (FLOM_RC_OK, [Hier x [cl] []])
      else (case hier_chain fails (Suc i) cl xs of (rc, ls) \<Rightarrow> (rc, [Hier x [] ls])))"

text \<open>
  \<open>hier_add_at\<close> stands at a node whose name matched; the rest of the path is looked
  up among the leaves, the first leaf with the name is taken, and the tree is
  expanded when there is none.
\<close>

function (sequential)
  hier_add_at :: "(nat \<Rightarrow> bool) \<Rightarrow> nat \<Rightarrow> flom_rsrc_conn_lock \<Rightarrow> string list \<Rightarrow> hier_element \<Rightarrow> rc \<times> hier_element"
  and hier_add_leaves :: "(nat \<Rightarrow> bool) \<Rightarrow> nat \<Rightarrow> flom_rsrc_conn_lock \<Rightarrow> string \<Rightarrow> string list
      \<Rightarrow> hier_element list \<Rightarrow> rc \<times> hier_element list"
where
  "hier_add_at fails i cl [] (Hier name holders leaves) = (FLOM_RC_OK, Hier name (cl # holders) leaves)"
| "hier_add_at fails i cl (x # xs) (Hier name holders leaves) =
     (case hier_add_leaves fails (Suc i) cl x xs leaves of
        (rc, leaves') \<Rightarrow> (rc, Hier name holders leaves'))"
| "hier_add_leaves fails i cl x xs [] = hier_chain fails i cl (x # xs)"
| "hier_add_leaves fails i cl x xs (leaf # leaves) =
     (if he_name leaf = x
      then (case hier_add_at fails i cl xs leaf of (rc, leaf') \<Rightarrow> (rc, leaf' # leaves))
      else (case hier_add_leaves fails i cl x xs leaves of (rc, leaves') \<Rightarrow> (rc, leaf # leaves')))"
  by pat_completeness auto
termination
  by (relation "measures
        [\<lambda>s. case s of Inl (fails, i, cl, path, node) \<Rightarrow> 2 * length path
                     | Inr (fails, i, cl, x, xs, leaves) \<Rightarrow> Suc (2 * length xs),
         \<lambda>s. case s of Inl (fails, i, cl, path, node) \<Rightarrow> 0
                     | Inr (fails, i, cl, x, xs, leaves) \<Rightarrow> length leaves]") auto

definition flom_resource_hier_add_locker ::
  "(nat \<Rightarrow> bool) \<Rightarrow> flom_resource_hier \<Rightarrow> flom_rsrc_conn_lock \<Rightarrow> string list \<Rightarrow> rc \<times> flom_resource_hier" where
  "flom_resource_hier_add_locker fails r cl path =
     (case hr_root r of Hier name holders leaves \<Rightarrow>
        if path = [] then (FLOM_RC_OK, r\<lparr>hr_root := Hier name (cl # holders) leaves\<rparr>)
        else if hd path = name then
          (case hier_add_at fails 0 cl (tl path) (hr_root r) of (rc, root) \<Rightarrow> (rc, r\<lparr>hr_root := root\<rparr>))
        else
          (case hier_chain fails 0 cl path of
             (rc, ls) \<Rightarrow> (rc, r\<lparr>hr_root := Hier name holders (leaves @ ls)\<rparr>)))"

text \<open>The levels of a name: the text after the leading separator, split at the separators.\<close>

definition hier_levels :: "string option \<Rightarrow> string list" where
  "hier_levels name = g_strsplit hier_separator (drop 1 (str_or_empty name))"

fun hier_path_nodes :: "string list \<Rightarrow> hier_element list" where
  "hier_path_nodes [] = []"
| "hier_path_nodes (x # xs) = [Hier x [] (hier_path_nodes xs)]"

text \<open>
  The initial tree is the path of the name.  The daemon accepts no name without a
  level below the separator.  When the allocation of a node fails the nodes
  before it are the tree.
\<close>

definition flom_resource_hier_init :: "(nat \<Rightarrow> bool) \<Rightarrow> string option \<Rightarrow> rc \<times> flom_resource_hier" where
  "flom_resource_hier_init fails name =
     (let levels = hier_levels name;
          made = takeWhile (\<lambda>i. \<not> fails i) [0..<length levels];
          r = \<lparr> hr_name = None, hr_root = Hier [] [] [], hr_waitings = [] \<rparr> in
      if take 1 (str_or_empty name) \<noteq> [hier_separator] then (FLOM_RC_INVALID_RESOURCE_NAME, r)
      else
        ((if length made < length levels then FLOM_RC_G_TRY_MALLOC_ERROR else FLOM_RC_OK),
         case hier_path_nodes (take (length made) levels) of
           [] \<Rightarrow> r\<lparr>hr_name := name\<rparr>
         | root # _ \<Rightarrow> r\<lparr>hr_name := name, hr_root := root\<rparr>))"

definition hier_grant_waiting ::
  "env \<Rightarrow> flom_resource_hier \<times> world \<Rightarrow> flom_rsrc_conn_lock \<Rightarrow> rc \<times> flom_resource_hier \<times> world" where
  "hier_grant_waiting e s cl =
     (case s of (r, w) \<Rightarrow>
        case flom_resource_hier_add_locker (e_node_fail e (w_sends w)) r cl (hier_levels (cl_name cl)) of
          (rc, r') \<Rightarrow>
            if rc \<noteq> FLOM_RC_OK then (rc, r', w)
            else (case answer_waiting e (cl_conn cl) None w of
                    (rc, w') \<Rightarrow>
                      if rc \<noteq> FLOM_RC_OK then (rc, r', w')
                      else (FLOM_RC_OK, r', vfs_log (Vfs_move_locker_conn (cl_conn cl)) w')))"

definition hier_can_waiting :: "env \<Rightarrow> flom_resource_hier \<times> world \<Rightarrow> flom_rsrc_conn_lock \<Rightarrow> bool" where
  "hier_can_waiting e s cl =
     flom_resource_hier_can_lock e (hr_root (fst s)) (cl_lock_mode cl) (hier_levels (cl_name cl))"

definition flom_resource_hier_waitings ::
  "env \<Rightarrow> flom_resource_hier \<Rightarrow> world \<Rightarrow> rc \<times> flom_resource_hier \<times> world" where
  "flom_resource_hier_waitings e r w =
     (case waitings_loop (hier_can_waiting e) (hier_grant_waiting e) 0 (r, w) (hr_waitings r) of
        (rc, (r', w'), q) \<Rightarrow> (rc, r'\<lparr>hr_waitings := q\<rparr>, w'))"

text \<open>The garbage collector: leaves without holders go, from the bottom up.\<close>

fun flom_resource_hier_gc :: "hier_element \<Rightarrow> hier_element" where
  "flom_resource_hier_gc (Hier name holders leaves) =
     Hier name holders
       (filter (\<lambda>child. \<not> (he_leaves child = [] \<and> he_holders child = [])) (map flom_resource_hier_gc leaves))"

text \<open>
  The node that the clean-up works on: the loop over the levels of the name of the
  resource.  The result is the path of leaf names below the root.
\<close>

fun hier_search :: "string list \<Rightarrow> hier_element \<Rightarrow> string list" where
  "hier_search [] node = []"
| "hier_search (l # ls) node =
     (if l = he_name node then
        (case ls of
           [] \<Rightarrow> []
         | x # _ \<Rightarrow>
             (case find (\<lambda>leaf. he_name leaf = x) (he_leaves node) of
                Some leaf \<Rightarrow> x # hier_search ls leaf
              | None \<Rightarrow> []))
      else hier_search ls node)"

fun hier_node :: "string list \<Rightarrow> hier_element \<Rightarrow> hier_element" where
  "hier_node [] node = node"
| "hier_node (x # xs) node =
     (case find (\<lambda>leaf. he_name leaf = x) (he_leaves node) of
        Some leaf \<Rightarrow> hier_node xs leaf
      | None \<Rightarrow> node)"

text \<open>The list of the holders at a node replaced, following the first leaf of each name.\<close>

fun update_first :: "('a \<Rightarrow> bool) \<Rightarrow> ('a \<Rightarrow> 'a) \<Rightarrow> 'a list \<Rightarrow> 'a list" where
  "update_first P f [] = []"
| "update_first P f (x # xs) = (if P x then f x # xs else x # update_first P f xs)"

fun hier_set_holders ::
  "string list \<Rightarrow> flom_rsrc_conn_lock list \<Rightarrow> hier_element \<Rightarrow> hier_element" where
  "hier_set_holders [] hs (Hier name holders leaves) = Hier name hs leaves"
| "hier_set_holders (x # xs) hs (Hier name holders leaves) =
     Hier name holders (update_first (\<lambda>leaf. he_name leaf = x) (hier_set_holders xs hs) leaves)"

definition flom_resource_hier_clean ::
  "env \<Rightarrow> flom_resource_hier \<Rightarrow> conn \<Rightarrow> world \<Rightarrow> rc \<times> flom_resource_hier \<times> world" where
  "flom_resource_hier_clean e r c w =
     (let path = hier_search (hier_levels (hr_name r)) (hr_root r);
          holders = he_holders (hier_node path (hr_root r));
          finish = (\<lambda>r w. (FLOM_RC_OK, r\<lparr>hr_root := flom_resource_hier_gc (hr_root r)\<rparr>,
                           vfs_log (Vfs_del_conn c) w)) in
      case find (\<lambda>cl. cl_conn cl = c) holders of
        Some cl \<Rightarrow>
          (case flom_resource_hier_waitings e
                  (r\<lparr>hr_root := hier_set_holders path (conn_remove holders c) (hr_root r)\<rparr>) w of
             (rc, r', w') \<Rightarrow> if rc \<noteq> FLOM_RC_OK then (rc, r', w') else finish r' w')
      | None \<Rightarrow> finish (r\<lparr>hr_waitings := conn_remove (hr_waitings r) c\<rparr>) w)"

text \<open>The result is zero when the first levels are equal.\<close>

definition flom_resource_hier_compare_name :: "flom_resource_hier \<Rightarrow> string option \<Rightarrow> bool" where
  "flom_resource_hier_compare_name r name \<longleftrightarrow>
     take 1 (str_or_empty name) = [hier_separator] \<and> hier_levels name \<noteq> []
     \<and> hd (hier_levels name) = he_name (hr_root r)"

definition flom_resource_hier_change_name :: "flom_resource_hier \<Rightarrow> string option \<Rightarrow> flom_resource_hier" where
  "flom_resource_hier_change_name r name = r\<lparr>hr_name := name\<rparr>"

definition flom_resource_hier_lock ::
  "env \<Rightarrow> flom_resource_hier \<Rightarrow> conn \<Rightarrow> flom_msg \<Rightarrow> world \<Rightarrow> rc \<times> flom_resource_hier \<times> flom_msg \<times> world" where
  "flom_resource_hier_lock e r c m w =
     (let new_lock = l8_mode (lock_8 m);
          can_wait = (l8_wait (lock_8 m) \<noteq> 0);
          resource_name = l8_name (lock_8 m);
          splitted_name = hier_levels resource_name in
      case flom_msg_free m of
        (rc, m1) \<Rightarrow>
          if rc \<noteq> FLOM_RC_OK then (rc, r, m1, w)
          else if flom_resource_hier_can_lock e (hr_root r) new_lock splitted_name then
            (case flom_rsrc_conn_lock_new e c of
               None \<Rightarrow> (FLOM_RC_G_TRY_MALLOC_ERROR, r, flom_msg_init, w)
             | Some cl0 \<Rightarrow>
                 let cl = cl0\<lparr>cl_lock_mode := new_lock\<rparr> in
                 case flom_resource_hier_add_locker (e_node_fail e (w_sends w)) r cl splitted_name of
                   (rc, r') \<Rightarrow>
                     if rc \<noteq> FLOM_RC_OK then (rc, r', flom_msg_init, w)
                     else
                       (let w' = vfs_log (Vfs_add_locker_conn c True new_lock None None None) w in
                        case build_lock_answer e w' c flom_msg_init FLOM_RC_OK None of
                          (rc, m2) \<Rightarrow> (rc, r', m2, w')))
          else if can_wait then
            (case flom_rsrc_conn_lock_new e c of
               None \<Rightarrow> (FLOM_RC_G_TRY_MALLOC_ERROR, r, flom_msg_init, w)
             | Some cl0 \<Rightarrow>
                 let cl = cl0\<lparr>cl_lock_mode := new_lock, cl_name := resource_name\<rparr>;
                     r' = r\<lparr>hr_waitings := hr_waitings r @ [cl]\<rparr>;
                     w' = vfs_log (Vfs_add_locker_conn c False new_lock None None None) w in
                 case build_lock_answer e w' c flom_msg_init FLOM_RC_LOCK_ENQUEUED None of
                   (rc, m2) \<Rightarrow> (rc, r', m2, w'))
          else
            (case build_lock_answer e w c flom_msg_init FLOM_RC_LOCK_BUSY None of
               (rc, m2) \<Rightarrow> (rc, r, m2, w)))"

definition flom_resource_hier_inmsg ::
  "env \<Rightarrow> flom_resource_hier \<Rightarrow> conn \<Rightarrow> flom_msg \<Rightarrow> world \<Rightarrow> rc \<times> flom_resource_hier \<times> flom_msg \<times> world" where
  "flom_resource_hier_inmsg e r c m w =
     (if msg_verb m = FLOM_MSG_VERB_LOCK then flom_resource_hier_lock e r c m w
      else if msg_verb m = FLOM_MSG_VERB_UNLOCK then
        (if \<not> flom_resource_hier_compare_name r (u8_name (unlock_8 m))
         then (FLOM_RC_INVALID_RESOURCE_NAME, r, m, w)
         else
           (case flom_resource_hier_clean e (flom_resource_hier_change_name r (u8_name (unlock_8 m))) c w of
              (rc, r', w') \<Rightarrow>
                if rc \<noteq> FLOM_RC_OK then (rc, r', m, w')
                else (case flom_msg_free m of
                        (rc, m') \<Rightarrow>
                          if rc \<noteq> FLOM_RC_OK then (rc, r', m', w')
                          else (FLOM_RC_OK, r', flom_msg_init, w'))))
      else (FLOM_RC_PROTOCOL_ERROR, r, m, w))"

text \<open>
  The destructor: the lock records in the order they are deleted, the leaves of a
  node before the node itself, and the resource left behind (the pointer to the
  freed root is not reset and not used again).
\<close>

fun flom_resource_hier_free_element :: "hier_element \<Rightarrow> flom_rsrc_conn_lock list" where
  "flom_resource_hier_free_element (Hier name holders leaves) =
     concat (map flom_resource_hier_free_element leaves) @ holders"

definition flom_resource_hier_free ::
  "flom_resource_hier \<Rightarrow> flom_rsrc_conn_lock list \<times> flom_resource_hier" where
  "flom_resource_hier_free r =
     (flom_resource_hier_free_element (hr_root r) @ hr_waitings r,
      r\<lparr>hr_root := Hier [] [] [], hr_waitings := [], hr_name := None\<rparr>)"

section \<open>The locks of a tree\<close>

text \<open>Every lock of a tree with its path, and the multisets the proofs work with.\<close>

fun hier_locks :: "hier_element \<Rightarrow> (string list \<times> flom_rsrc_conn_lock) list" where
  "hier_locks (Hier name holders leaves) =
     map (\<lambda>cl. ([name], cl)) holders @
     map (\<lambda>pc. (name # fst pc, snd pc)) (concat (map hier_locks leaves))"

lemma hier_free_element_locks:
  "mset (flom_resource_hier_free_element t) = image_mset snd (mset (hier_locks t))"
proof (induction t rule: flom_resource_hier_free_element.induct)
  case (1 name holders leaves)
  have "mset (concat (map flom_resource_hier_free_element ls)) =
      image_mset snd (mset (concat (map hier_locks ls)))" if "set ls \<subseteq> set leaves" for ls
    using that by (induction ls) (simp_all add: 1)
  from this [of leaves] show ?case
    by (simp add: multiset.map_comp comp_def)
qed

abbreviation leaves_locks :: "hier_element list \<Rightarrow> (string list \<times> flom_rsrc_conn_lock) list" where
  "leaves_locks leaves \<equiv> concat (map hier_locks leaves)"

definition comparable :: "string list \<Rightarrow> string list \<Rightarrow> bool" where
  "comparable p q \<longleftrightarrow> prefix p q \<or> prefix q p"

lemma comparable_sym: "comparable p q \<longleftrightarrow> comparable q p"
  by (auto simp: comparable_def)

lemma comparable_simps [simp]:
  "comparable [] q" "comparable p []" "comparable (x # p) (y # q) \<longleftrightarrow> x = y \<and> comparable p q"
  by (auto simp: comparable_def)

lemma hier_locks_path: "pc \<in> set (hier_locks t) \<Longrightarrow> fst pc = he_name t # tl (fst pc)"
  by (cases t) auto

lemma hier_can_lock_iff_locks:
  "flom_resource_hier_can_lock e t lock path \<longleftrightarrow>
     (\<forall>pc \<in> set (hier_locks t). comparable (fst pc) path \<longrightarrow>
        lock_table (e_oob e) (cl_lock_mode (snd pc)) lock)"
proof (induction e t lock path rule: flom_resource_hier_can_lock.induct)
  case (1 e name holders leaves lock path)
  show ?case
  proof (cases path)
    case Nil
    then show ?thesis using 1 by (simp add: list_all_iff ball_Un)
  next
    case (Cons x xs)
    show ?thesis
    proof (cases "x = name")
      case True
      then show ?thesis using Cons 1 by (simp add: list_all_iff ball_Un)
    qed (use Cons in auto)
  qed
qed

lemma hier_chain_locks:
  "hier_chain fails i cl path = (rc, ls) \<Longrightarrow> path \<noteq> [] \<Longrightarrow>
   leaves_locks ls = (if rc = FLOM_RC_OK then [(path, cl)] else [])"
  by (induction fails i cl path arbitrary: rc ls rule: hier_chain.induct)
     (auto split: if_splits prod.splits)

lemma mset_hier_locks:
  "mset (hier_locks (Hier n hs ls)) =
     image_mset (\<lambda>cl. ([n], cl)) (mset hs) +
     image_mset (\<lambda>pc. (n # fst pc, snd pc)) (mset (leaves_locks ls))"
  by simp

lemma hier_add_locks:
  "hier_add_at fails i cl path t = (rc, t') \<Longrightarrow>
     he_name t' = he_name t \<and>
     mset (hier_locks t') =
       (if rc = FLOM_RC_OK then add_mset (he_name t # path, cl) (mset (hier_locks t)) else mset (hier_locks t))"
  "hier_add_leaves fails i cl x xs ls = (rc, ls') \<Longrightarrow>
     mset (leaves_locks ls') =
       (if rc = FLOM_RC_OK then add_mset (x # xs, cl) (mset (leaves_locks ls)) else mset (leaves_locks ls))"
proof (induction fails i cl path t and fails i cl x xs ls arbitrary: rc t' and rc ls'
    rule: hier_add_at_hier_add_leaves.induct)
  case (2 fails i cl x xs name holders leaves)
  obtain rc1 l1 where l1: "hier_add_leaves fails (Suc i) cl x xs leaves = (rc1, l1)" by force
  show ?case using "2.IH" [OF l1] "2.prems" l1 by (auto simp: mset_hier_locks simp del: hier_locks.simps)
next
  case (3 fails i cl x xs)
  then show ?case using hier_chain_locks [of fails i cl "x # xs" rc ls'] by simp
next
  case (4 fails i cl x xs leaf leaves)
  show ?case
  proof (cases "he_name leaf = x")
    case True
    obtain rc1 l1 where l1: "hier_add_at fails i cl xs leaf = (rc1, l1)" by force
    show ?thesis using "4.IH"(1) [OF True l1] "4.prems" l1 True by auto
  next
    case False
    obtain rc1 l1 where l1: "hier_add_leaves fails i cl x xs leaves = (rc1, l1)" by force
    show ?thesis using "4.IH"(2) [OF False l1] "4.prems" l1 False by auto
  qed
qed (auto simp: mset_hier_locks)

lemma hier_add_locker_locks:
  assumes "flom_resource_hier_add_locker fails r cl path = (rc, r')"
    and "path \<noteq> []" "hd path = he_name (hr_root r)"
  shows "he_name (hr_root r') = he_name (hr_root r) \<and> hr_waitings r' = hr_waitings r \<and> hr_name r' = hr_name r \<and>
    mset (hier_locks (hr_root r')) =
      (if rc = FLOM_RC_OK then add_mset (path, cl) (mset (hier_locks (hr_root r)))
       else mset (hier_locks (hr_root r)))"
proof -
  obtain rc1 t1 where t1: "hier_add_at fails 0 cl (tl path) (hr_root r) = (rc1, t1)" by force
  have "he_name (hr_root r) # tl path = path" using assms(2,3) by (metis list.collapse)
  then show ?thesis
    using assms t1 hier_add_locks(1) [OF t1]
    by (cases "hr_root r") (auto simp: flom_resource_hier_add_locker_def)
qed

lemma hier_gc_locks: "hier_locks (flom_resource_hier_gc t) = hier_locks t"
proof (induction t rule: flom_resource_hier_gc.induct)
  case (1 name holders leaves)
  let ?keep = "\<lambda>child. \<not> (he_leaves child = [] \<and> he_holders child = [])"
  have empty: "\<not> ?keep c \<Longrightarrow> hier_locks c = []" for c by (cases c) auto
  have "leaves_locks (filter ?keep cs) = leaves_locks cs" for cs
    using empty by (induction cs) auto
  then have "leaves_locks (filter ?keep (map flom_resource_hier_gc leaves)) = leaves_locks (map flom_resource_hier_gc leaves)"
    by blast
  also have "\<dots> = leaves_locks leaves"
  proof -
    have "map hier_locks (map flom_resource_hier_gc leaves) = map hier_locks leaves" using 1 by simp
    then show ?thesis by (rule arg_cong)
  qed
  finally show ?case by simp
qed

lemma hier_gc_name [simp]: "he_name (flom_resource_hier_gc t) = he_name t"
  by (cases t) simp

text \<open>The path the search returns exists in the tree.\<close>

fun hier_valid :: "string list \<Rightarrow> hier_element \<Rightarrow> bool" where
  "hier_valid [] node = True"
| "hier_valid (x # xs) node =
     (case find (\<lambda>leaf. he_name leaf = x) (he_leaves node) of
        Some leaf \<Rightarrow> hier_valid xs leaf
      | None \<Rightarrow> False)"

lemma hier_search_valid: "hier_valid (hier_search ls node) node"
  by (induction ls node rule: hier_search.induct) (auto split: list.splits option.splits)

lemma update_first_locks:
  assumes "find P ls = Some l"
  shows "\<exists>R. mset (leaves_locks ls) = mset (hier_locks l) + R \<and>
             mset (leaves_locks (update_first P f ls)) = mset (hier_locks (f l)) + R"
  using assms
proof (induction ls)
  case (Cons x xs)
  show ?case
  proof (cases "P x")
    case True
    then show ?thesis using Cons.prems by (intro exI [of _ "mset (leaves_locks xs)"]) simp
  next
    case False
    then obtain R where "mset (leaves_locks xs) = mset (hier_locks l) + R"
      "mset (leaves_locks (update_first P f xs)) = mset (hier_locks (f l)) + R"
      using Cons by auto
    then show ?thesis using False by (intro exI [of _ "mset (hier_locks x) + R"]) (simp add: ac_simps)
  qed
qed simp

lemma hier_set_holders_name [simp]: "he_name (hier_set_holders path hs t) = he_name t"
  by (cases path; cases t) auto

lemma hier_remove_holder:
  assumes "hier_valid path t" "find (\<lambda>cl. cl_conn cl = c) (he_holders (hier_node path t)) = Some cl"
  shows "mset (hier_locks t) = add_mset (he_name t # path, cl)
    (mset (hier_locks (hier_set_holders path (conn_remove (he_holders (hier_node path t)) c) t)))"
  using assms
proof (induction path arbitrary: t)
  case Nil
  then show ?case
    using mset_remove_first [of "\<lambda>cl. cl_conn cl = c" "he_holders t" cl]
    by (cases t) (simp add: conn_remove_def)
next
  case (Cons x xs)
  obtain n hs ls where t: "t = Hier n hs ls" by (cases t)
  then obtain leaf where leaf: "find (\<lambda>leaf. he_name leaf = x) ls = Some leaf" "hier_valid xs leaf"
    using Cons.prems(1) by (auto split: option.splits)
  let ?hs = "conn_remove (he_holders (hier_node xs leaf)) c"
  have IH: "mset (hier_locks leaf) = add_mset (he_name leaf # xs, cl) (mset (hier_locks (hier_set_holders xs ?hs leaf)))"
    using Cons.IH [OF leaf(2)] Cons.prems(2) leaf t by simp
  have "he_name leaf = x" using find_Some_set [OF leaf(1)] by simp
  moreover obtain R where "mset (leaves_locks ls) = mset (hier_locks leaf) + R"
    "mset (leaves_locks (update_first (\<lambda>leaf. he_name leaf = x) (hier_set_holders xs ?hs) ls))
      = mset (hier_locks (hier_set_holders xs ?hs leaf)) + R"
    using update_first_locks [OF leaf(1)] by blast
  ultimately show ?case using IH t leaf(1) by (simp add: mset_hier_locks del: hier_locks.simps)
qed

section \<open>Invariant\<close>

definition hier_pair_ok ::
  "string list \<times> flom_rsrc_conn_lock \<Rightarrow> string list \<times> flom_rsrc_conn_lock \<Rightarrow> bool" where
  "hier_pair_ok a b \<longleftrightarrow> (comparable (fst a) (fst b) \<longrightarrow> compat (cl_lock_mode (snd a)) (cl_lock_mode (snd b)))"

definition hier_tree_ok :: "string \<Rightarrow> hier_element \<Rightarrow> bool" where
  "hier_tree_ok n t \<longleftrightarrow> he_name t = n \<and> mutual hier_pair_ok (mset (hier_locks t))
     \<and> (\<forall>pc \<in> set (hier_locks t). valid_mode (cl_lock_mode (snd pc)))"

definition hier_ok_name :: "string \<Rightarrow> string option \<Rightarrow> bool" where
  "hier_ok_name n name \<longleftrightarrow> hier_levels name \<noteq> [] \<and> hd (hier_levels name) = n"

definition hier_ok_cl :: "string \<Rightarrow> flom_rsrc_conn_lock \<Rightarrow> bool" where
  "hier_ok_cl n cl \<longleftrightarrow> valid_mode (cl_lock_mode cl) \<and> hier_ok_name n (cl_name cl)"

definition hier_inv :: "string \<Rightarrow> flom_resource_hier \<Rightarrow> bool" where
  "hier_inv n r \<longleftrightarrow> hier_tree_ok n (hr_root r) \<and> (\<forall>cl \<in> set (hr_waitings r). hier_ok_cl n cl)"

text \<open>
  The requests the resource is for: a mode of the table and a name that starts
  with the name of the root.  The daemon compares the first level before it hands
  a connection to the locker of a hierarchy.
\<close>

definition hier_ok_msg :: "string \<Rightarrow> flom_msg \<Rightarrow> bool" where
  "hier_ok_msg n m \<longleftrightarrow> valid_mode (l8_mode (lock_8 m)) \<and> hier_ok_name n (l8_name (lock_8 m))"

lemma hier_tree_ok_mset:
  assumes "hier_tree_ok n t" "he_name t' = he_name t" "mset (hier_locks t') \<subseteq># mset (hier_locks t)"
  shows "hier_tree_ok n t'"
proof -
  have "set (hier_locks t') \<subseteq> set (hier_locks t)" using set_mset_mono [OF assms(3)] by simp
  then show ?thesis using assms mutual_subset [OF _ assms(3)] by (auto simp: hier_tree_ok_def)
qed

lemma hier_tree_ok_add:
  assumes "hier_tree_ok n t" "he_name t' = n" "valid_mode (cl_lock_mode cl)"
    and "mset (hier_locks t') = add_mset (path, cl) (mset (hier_locks t))"
    and "flom_resource_hier_can_lock e t (cl_lock_mode cl) path"
  shows "hier_tree_ok n t'"
proof -
  have c: "hier_pair_ok (path, cl) b \<and> hier_pair_ok b (path, cl)" if "b \<in># mset (hier_locks t)" for b
    using assms(1,3,5) that compat_sym comparable_sym
    by (auto simp: hier_pair_ok_def hier_can_lock_iff_locks hier_tree_ok_def lock_table_compat)
  have "mutual hier_pair_ok (mset (hier_locks t'))"
    unfolding assms(4) using assms(1) c by (intro mutual_add) (auto simp: hier_tree_ok_def)
  moreover have "set (hier_locks t') = insert (path, cl) (set (hier_locks t))"
    using assms(4) by (metis set_mset_add_mset_insert set_mset_mset)
  ultimately show ?thesis using assms by (auto simp: hier_tree_ok_def)
qed

lemma hier_add_locker_ok:
  assumes "hier_tree_ok n (hr_root r)" "hier_levels name \<noteq> []" "hd (hier_levels name) = n"
    and "valid_mode (cl_lock_mode cl)"
    and "flom_resource_hier_can_lock e (hr_root r) (cl_lock_mode cl) (hier_levels name)"
    and "flom_resource_hier_add_locker fails r cl (hier_levels name) = (rc, r')"
  shows "hier_tree_ok n (hr_root r') \<and> hr_waitings r' = hr_waitings r"
proof -
  have n: "he_name (hr_root r) = n" using assms(1) by (simp add: hier_tree_ok_def)
  note A = hier_add_locker_locks [OF assms(6,2)]
  show ?thesis
  proof (cases "rc = FLOM_RC_OK")
    case True
    then show ?thesis using A n assms hier_tree_ok_add [OF assms(1) _ assms(4) _ assms(5), of "hr_root r'"] by simp
  next
    case False
    then show ?thesis using A n assms hier_tree_ok_mset [OF assms(1), of "hr_root r'"] by simp
  qed
qed

lemma hier_grant_ok:
  assumes "hier_tree_ok n (hr_root (fst s))" "hier_ok_cl n cl" "hier_can_waiting e s cl"
  shows "hier_tree_ok n (hr_root (fst (snd (hier_grant_waiting e s cl))))"
proof -
  obtain r w where s: "s = (r, w)" by force
  obtain rc r' where a: "flom_resource_hier_add_locker (e_node_fail e (w_sends w)) r cl (hier_levels (cl_name cl)) = (rc, r')"
    by force
  have "hier_tree_ok n (hr_root r')"
    using hier_add_locker_ok [OF _ _ _ _ _ a] assms s
    by (simp add: hier_ok_cl_def hier_ok_name_def hier_can_waiting_def)
  then show ?thesis using s a by (auto simp: hier_grant_waiting_def split: prod.splits)
qed

interpretation hier_scan: grant_scan
  "hier_can_waiting e" "hier_grant_waiting e" "\<lambda>s. hier_tree_ok n (hr_root (fst s))" "hier_ok_cl n"
  for e n
  by unfold_locales (rule hier_grant_ok)

lemma hier_waitings_inv:
  assumes "hier_inv n r"
  shows "hier_inv n (fst (snd (flom_resource_hier_waitings e r w)))"
proof -
  obtain rc r' w' q where l:
    "waitings_loop (hier_can_waiting e) (hier_grant_waiting e) 0 (r, w) (hr_waitings r) = (rc, (r', w'), q)"
    by (metis prod_cases3 surj_pair)
  have "hier_tree_ok n (hr_root r')"
    using hier_scan.loop_inv [of n "(r, w)" "hr_waitings r" e] assms l by (simp add: hier_inv_def)
  moreover have "set q \<subseteq> set (hr_waitings r)"
    using l scan_queue_subset by (fastforce simp: waitings_loop_eq_scan)
  ultimately show ?thesis
    using assms l by (auto simp: flom_resource_hier_waitings_def hier_inv_def)
qed

lemma hier_gc_inv: "hier_inv n r \<Longrightarrow> hier_inv n (r\<lparr>hr_root := flom_resource_hier_gc (hr_root r)\<rparr>)"
  by (simp add: hier_inv_def hier_tree_ok_def hier_gc_locks)

lemma hier_clean_inv:
  assumes "hier_inv n r"
  shows "hier_inv n (fst (snd (flom_resource_hier_clean e r c w)))"
proof -
  define path where "path = hier_search (hier_levels (hr_name r)) (hr_root r)"
  define holders where "holders = he_holders (hier_node path (hr_root r))"
  show ?thesis
  proof (cases "find (\<lambda>cl. cl_conn cl = c) holders")
    case None
    have "hier_inv n (r\<lparr>hr_waitings := conn_remove (hr_waitings r) c\<rparr>)"
      using assms set_remove_first by (fastforce simp: hier_inv_def conn_remove_def)
    from hier_gc_inv [OF this] show ?thesis
      using None by (simp add: flom_resource_hier_clean_def Let_def path_def holders_def)
  next
    case (Some cl)
    let ?r = "r\<lparr>hr_root := hier_set_holders path (conn_remove holders c) (hr_root r)\<rparr>"
    have "mset (hier_locks (hr_root ?r)) \<subseteq># mset (hier_locks (hr_root r))"
      using hier_remove_holder [of path "hr_root r" c cl] Some hier_search_valid
      by (simp add: path_def holders_def)
    then have "hier_inv n ?r"
      using assms hier_tree_ok_mset [of n "hr_root r" "hr_root ?r"] by (simp add: hier_inv_def)
    then show ?thesis
      using Some hier_waitings_inv [of n ?r e w] hier_gc_inv
      by (auto simp: flom_resource_hier_clean_def Let_def path_def [symmetric] holders_def [symmetric]
          split: prod.splits)
  qed
qed

lemma hier_lock_inv:
  assumes "hier_inv n r" "hier_ok_msg n m"
  shows "hier_inv n (fst (snd (flom_resource_hier_lock e r c m w)))"
proof -
  let ?name = "l8_name (lock_8 m)" and ?mode = "l8_mode (lock_8 m)"
  have add: "hier_inv n r'"
    if "flom_resource_hier_add_locker fails r cl (hier_levels ?name) = (rc, r')"
      "flom_resource_hier_can_lock e (hr_root r) ?mode (hier_levels ?name)" "cl_lock_mode cl = ?mode"
      for cl rc r' fails
    using hier_add_locker_ok [of n r ?name cl e fails rc r'] assms that
    by (simp add: hier_inv_def hier_ok_msg_def hier_ok_name_def)
  have queue: "hier_inv n (r\<lparr>hr_waitings := hr_waitings r @ [cl]\<rparr>)"
    if "cl_lock_mode cl = ?mode" "cl_name cl = ?name" for cl
    using assms that by (auto simp: hier_inv_def hier_ok_cl_def hier_ok_msg_def)
  show ?thesis
    using assms(1) queue
    by (auto simp: flom_resource_hier_lock_def Let_def flom_rsrc_conn_lock_new_def
        split: prod.splits option.splits if_splits dest: add)
qed

lemma hier_inmsg_inv:
  assumes "hier_inv n r" "hier_ok_msg n m"
  shows "hier_inv n (fst (snd (flom_resource_hier_inmsg e r c m w)))"
proof -
  have "hier_inv n (flom_resource_hier_change_name r (u8_name (unlock_8 m)))"
    using assms(1) by (simp add: hier_inv_def flom_resource_hier_change_name_def)
  from hier_clean_inv [OF this, of e c w] show ?thesis
    using assms hier_lock_inv [OF assms, of e c w]
    by (auto simp: flom_resource_hier_inmsg_def split: prod.splits)
qed

interpretation hier_ops: resource_ops
  flom_resource_hier_inmsg flom_resource_hier_clean "hier_inv n" any_env "hier_ok_msg n" for n
  by unfold_locales (simp_all add: hier_inmsg_inv hier_clean_inv)

section \<open>Properties\<close>

lemma hier_path_nodes_locks: "leaves_locks (hier_path_nodes xs) = []"
  by (induction xs) auto

lemma hier_init_inv:
  assumes "flom_resource_hier_init fails (Some name) = (FLOM_RC_OK, r0)"
  shows "hier_inv (he_name (hr_root r0)) r0"
proof -
  have nodes: "hier_locks root = []" if "hier_path_nodes xs = root # rest" for xs root rest
    using hier_path_nodes_locks [of xs] that by simp
  have "hier_locks (hr_root r0) = [] \<and> hr_waitings r0 = []"
    using assms
    by (auto simp: flom_resource_hier_init_def Let_def nodes split: if_splits list.splits)
  then show ?thesis by (simp add: hier_inv_def hier_tree_ok_def)
qed

text \<open>C36. The recursive check of the tree is the rule of a hierarchy: a lock on a path
  is allowed exactly when it is compatible with every lock held on a prefix of the
  path or on an extension of it.\<close>

theorem hier_can_lock_prefix_rule:
  "flom_resource_hier_can_lock e t lock path =
     list_all (\<lambda>pc. lock_table (e_oob e) (cl_lock_mode (snd pc)) lock)
       (filter (\<lambda>pc. prefix (fst pc) path \<or> prefix path (fst pc)) (hier_locks t))"
  unfolding hier_can_lock_iff_locks comparable_def list_all_iff set_filter by blast


text \<open>Two clients hold paths of one hierarchy, the lock on the directory waits.\<close>

definition hier_request :: "string \<Rightarrow> flom_lock_mode \<Rightarrow> flom_msg" where
  "hier_request name mode = (sample_lock mode)\<lparr>lock_8 := (lock_8 (sample_lock mode))\<lparr>l8_name := Some name\<rparr>\<rparr>"

definition hier_events :: "rsrc_event list" where
  "hier_events = [Ev_inmsg sample_env 1 (hier_request ''/a/x'' FLOM_LOCK_MODE_EX),
     Ev_inmsg sample_env 2 (hier_request ''/a'' FLOM_LOCK_MODE_NL),
     Ev_inmsg sample_env 3 (hier_request ''/a/x/y'' FLOM_LOCK_MODE_PR)]"

definition hier_start :: flom_resource_hier where
  "hier_start = snd (flom_resource_hier_init (\<lambda>i. False) (Some ''/a/x''))"


lemma hier_search_path: "hier_valid xs node \<Longrightarrow> hier_search (he_name node # xs) node = xs"
proof (induction xs arbitrary: node)
  case (Cons x xs)
  then obtain leaf where leaf: "find (\<lambda>leaf. he_name leaf = x) (he_leaves node) = Some leaf" "hier_valid xs leaf"
    by (auto split: option.splits)
  then have "he_name leaf = x" using find_Some_set by fastforce
  then show ?case using Cons.IH [OF leaf(2)] leaf(1) by simp
qed simp

text \<open>An unlock request that names the path of the lock releases exactly that lock:
  with nobody waiting the locks of the tree are the ones of before without it, and
  the garbage collection of empty nodes keeps all the others.\<close>

theorem hier_unlock_releases:
  assumes "unlock_request m" "hier_levels (u8_name (unlock_8 m)) = he_name (hr_root r) # path"
    and "take 1 (str_or_empty (u8_name (unlock_8 m))) = [hier_separator]"
    and "hier_valid path (hr_root r)" "hr_waitings r = []"
    and "flom_rsrc_conn_find (he_holders (hier_node path (hr_root r))) c = Some cl"
  shows "\<exists>r' w'. flom_resource_hier_inmsg e r c m w = (FLOM_RC_OK, r', flom_msg_init, w') \<and>
    mset (hier_locks (hr_root r)) = add_mset (he_name (hr_root r) # path, cl) (mset (hier_locks (hr_root r')))"
proof -
  obtain m1 where m1: "flom_msg_free m = (FLOM_RC_OK, m1)"
    using unlock_request_free [OF assms(1)] by (metis prod.collapse)
  have s: "hier_search (he_name (hr_root r) # path) (hr_root r) = path"
    by (rule hier_search_path [OF assms(4)])
  have f: "find (\<lambda>cl. cl_conn cl = c) (he_holders (hier_node path (hr_root r))) = Some cl"
    using assms(6) by (simp add: flom_rsrc_conn_find_def)
  have "flom_resource_hier_compare_name r (u8_name (unlock_8 m))"
    using assms(2,3) by (simp add: flom_resource_hier_compare_name_def)
  moreover have "flom_resource_hier_waitings e r2 w = (FLOM_RC_OK, r2, w)" if "hr_waitings r2 = []" for r2
    using that by (simp add: flom_resource_hier_waitings_def waitings_loop.simps)
  ultimately show ?thesis
    using assms(1,2,5) m1 s f hier_remove_holder [OF assms(4) f]
    by (simp add: flom_resource_hier_inmsg_def unlock_request_def flom_resource_hier_clean_def
        flom_resource_hier_change_name_def Let_def hier_gc_locks del: hier_search.simps)
qed

definition hier_sample :: flom_resource_hier where
  "hier_sample = fst (rsrc_run flom_resource_hier_inmsg flom_resource_hier_clean (take 2 hier_events)
     (hier_start, sample_world))"

theorem hier_unlock_releases_witness:
  "\<exists>r' w' cl. flom_resource_hier_inmsg sample_env hier_sample 1 (sample_unlock ''/a/x'') sample_world
       = (FLOM_RC_OK, r', flom_msg_init, w') \<and>
     mset (hier_locks (hr_root hier_sample)) = add_mset ([''a'', ''x''], cl) (mset (hier_locks (hr_root r')))"
proof -
  have m: "unlock_request (sample_unlock ''/a/x'')" by (simp add: unlock_request_def sample_unlock_def)
  have n: "he_name (hr_root hier_sample) = ''a''" by code_simp
  have l: "hier_levels (u8_name (unlock_8 (sample_unlock ''/a/x''))) = he_name (hr_root hier_sample) # [''x'']"
    "take 1 (str_or_empty (u8_name (unlock_8 (sample_unlock ''/a/x'')))) = [hier_separator]"
    "hier_valid [''x''] (hr_root hier_sample)" "hr_waitings hier_sample = []"
    by code_simp+
  have "flom_rsrc_conn_find (he_holders (hier_node [''x''] (hr_root hier_sample))) 1 \<noteq> None" by code_simp
  then obtain cl where cl: "flom_rsrc_conn_find (he_holders (hier_node [''x''] (hr_root hier_sample))) 1 = Some cl"
    by blast
  show ?thesis
    using hier_unlock_releases [OF m l cl, of sample_env sample_world] unfolding n by blast
qed


end
