(* ===== verification/Resource_Timestamp.thy ===== *)
theory Resource_Timestamp
  imports Rsrc
begin

text \<open>
  The timestamp resource, \<^verbatim>\<open>src/src/flom_resource_timestamp.c\<close>: every lock comes with
  the current time, printed with a format, and two timestamps are never taken in the
  same interval of the precision of the format.

  The system clock is a parameter, \<open>clock\<close>: the time of the n-th call of
  \<^verbatim>\<open>gettimeofday\<close> and whether it fails, whether \<^verbatim>\<open>localtime_r\<close> fails, and what
  \<^verbatim>\<open>strftime\<close> leaves in its buffer.  The context \<open>ts_ctx\<close> of the operations is the
  resource, the number of the calls of \<^verbatim>\<open>gettimeofday\<close> so far and the deadline the
  locker thread passes by reference; \<open>tc_issued\<close> is a history variable, the times
  produced by \<^verbatim>\<open>flom_resource_timestamp_get\<close>, the last one first.
\<close>

section \<open>State and operations\<close>

record clock =
  ck_time :: "nat \<Rightarrow> timeval"
  ck_fails :: "nat \<Rightarrow> bool"
  ck_localtime_fails :: "int \<Rightarrow> bool"
  ck_strftime :: "string \<Rightarrow> int \<Rightarrow> string"

record flom_resource_timestamp =
  ts_name :: "string option"
  ts_format :: "string option"
  ts_interval :: timeval
  ts_total_quantity :: int
  ts_locked_quantity :: int
  ts_last_timestamp :: timeval
  ts_holders :: "flom_rsrc_conn_lock list"
  ts_waitings :: "flom_rsrc_conn_lock list"

record ts_ctx =
  tc_rsrc :: flom_resource_timestamp
  tc_reads :: nat
  tc_deadline :: timeval
  tc_issued :: "timeval list"

text \<open>The division of C rounds towards zero.\<close>

definition c_div :: "int \<Rightarrow> int \<Rightarrow> int" where
  "c_div a b = sgn a * sgn b * (\<bar>a\<bar> div \<bar>b\<bar>)"

text \<open>The answer of \<^verbatim>\<open>can_lock\<close> at the time \<open>tv\<close>, when a slot is free.\<close>

definition interval_elapsed :: "flom_resource_timestamp \<Rightarrow> timeval \<Rightarrow> bool" where
  "interval_elapsed r tv =
     (let last = ts_last_timestamp r; interval = ts_interval r in
      if 0 < snd interval then
        (if fst tv > fst last then True
         else c_div (snd tv) (snd interval) > c_div (snd last) (snd interval))
      else if 0 < fst interval then
        c_div (fst tv) (fst interval) > c_div (fst last) (fst interval)
      else False)"

text \<open>The clock is read only when a slot is free.\<close>

definition flom_resource_timestamp_can_lock :: "clock \<Rightarrow> ts_ctx \<Rightarrow> bool \<times> ts_ctx" where
  "flom_resource_timestamp_can_lock ck s =
     (let r = tc_rsrc s in
      if ts_total_quantity r - ts_locked_quantity r \<le> 0 then (False, s)
      else (interval_elapsed r (ck_time ck (tc_reads s)), s\<lparr>tc_reads := Suc (tc_reads s)\<rparr>))"

definition flom_resource_timestamp_next_deadline :: "flom_resource_timestamp \<Rightarrow> timeval" where
  "flom_resource_timestamp_next_deadline r =
     (let last = ts_last_timestamp r; interval = ts_interval r;
          sec = (if 0 < fst interval then (c_div (fst last) (fst interval) + 1) * fst interval
                 else fst last);
          usec = (if 0 < snd interval then (c_div (snd last) (snd interval) + 1) * snd interval
                  else 0) in
      if 999999 < usec then (sec + 1, usec - 1000000) else (sec, usec))"

text \<open>
  The formats of the fractions of a second, from \<^verbatim>\<open>#ffffff\<close> down to \<^verbatim>\<open>#f\<close>, are
  replaced in place by a point and the first digits of the microseconds.
\<close>

definition micro_format :: "nat \<Rightarrow> string" where
  "micro_format digits = CHR ''#'' # replicate digits (CHR ''f'')"

text \<open>\<^verbatim>\<open>%06d\<close> in a buffer of seven characters.\<close>

definition micro_seconds :: "int \<Rightarrow> string" where
  "micro_seconds usec =
     (let d = string_of_nat (nat \<bar>usec\<bar>) in
      take 6 (if usec < 0 then CHR ''-'' # replicate (5 - length d) (CHR ''0'') @ d
              else replicate (6 - length d) (CHR ''0'') @ d))"

function subst_fraction :: "string \<Rightarrow> string \<Rightarrow> string \<Rightarrow> string" where
  "subst_fraction pat rep s =
     (case s of
        [] \<Rightarrow> []
      | c # t \<Rightarrow>
          if pat \<noteq> [] \<and> is_prefix_of pat s then rep @ subst_fraction pat rep (drop (length pat) s)
          else c # subst_fraction pat rep t)"
  by pat_completeness auto
termination
  by (relation "measure (\<lambda>(pat, rep, s). length s)") auto

declare subst_fraction.simps [simp del]

definition expand_fractions :: "string \<Rightarrow> int \<Rightarrow> string" where
  "expand_fractions format usec =
     fold (\<lambda>digits s. subst_fraction (micro_format digits) (CHR ''.'' # take digits (micro_seconds usec)) s)
       [6, 5, 4, 3, 2, 1] format"

text \<open>
  The time and its text.  The parameter of the C function for the value of the lock
  record is hidden by a local variable of the same name and never written.
\<close>

definition flom_resource_timestamp_get :: "clock \<Rightarrow> ts_ctx \<Rightarrow> rc \<times> string \<times> ts_ctx" where
  "flom_resource_timestamp_get ck s =
     (let n = tc_reads s; tv = ck_time ck n; s1 = s\<lparr>tc_reads := Suc n\<rparr> in
      if ck_fails ck n then (FLOM_RC_GETTIMEOFDAY_ERROR, [], s1)
      else
        (let s2 = s1\<lparr>tc_rsrc := (tc_rsrc s1)\<lparr>ts_last_timestamp := tv\<rparr>, tc_issued := tv # tc_issued s1\<rparr> in
         case ts_format (tc_rsrc s2) of
           None \<Rightarrow> (FLOM_RC_G_STRDUP_ERROR, [], s2)
         | Some format \<Rightarrow>
             if ck_localtime_fails ck (fst tv) then (FLOM_RC_LOCALTIME_R_ERROR, [], s2)
             else (FLOM_RC_OK, ck_strftime ck (expand_fractions format (snd tv)) (fst tv), s2)))"

text \<open>The interval of a format: that of its finest specifier.\<close>

definition has_specifier :: "string \<Rightarrow> string \<Rightarrow> bool" where
  "has_specifier format specs = list_ex (\<lambda>c. is_substring [CHR ''%'', c] format) specs"

definition format_interval :: "string \<Rightarrow> timeval" where
  "format_interval format =
     (case find (\<lambda>digits. is_substring (micro_format digits) format) [6, 5, 4, 3, 2, 1] of
        Some digits \<Rightarrow> (0, 10 ^ (6 - digits))
      | None \<Rightarrow>
          if has_specifier format ''crsSTX'' then (1, 0)
          else if has_specifier format ''MR'' then (60, 0)
          else if has_specifier format ''HI'' then (3600, 0)
          else (0, 0))"

definition flom_resource_timestamp_init :: "string option \<Rightarrow> rc \<times> flom_resource_timestamp" where
  "flom_resource_timestamp_init name =
     (let r = \<lparr> ts_name = name, ts_format = None, ts_interval = (0, 0), ts_total_quantity = 0,
                ts_locked_quantity = 0, ts_last_timestamp = (0, 0), ts_holders = [], ts_waitings = [] \<rparr> in
      case name of
        None \<Rightarrow> (FLOM_RC_G_STRDUP_ERROR, r)
      | Some n \<Rightarrow>
          (case flom_rsrc_get_infix n FLOM_RSRC_TYPE_TIMESTAMP of
             (rc, fmt) \<Rightarrow>
               (case fmt of
                  None \<Rightarrow> (rc, r)
                | Some format \<Rightarrow>
                    (let r1 = r\<lparr>ts_format := Some format\<rparr> in
                     case flom_rsrc_get_number n FLOM_RSRC_TYPE_TIMESTAMP of
                       (rc, number) \<Rightarrow>
                         (case number of
                            None \<Rightarrow> (rc, r1)
                          | Some quantity \<Rightarrow>
                              (let interval = format_interval format in
                               (if interval = (0, 0) then FLOM_RC_INVALID_TIMESTAMP_FORMAT else FLOM_RC_OK,
                                r1\<lparr>ts_total_quantity := quantity, ts_interval := interval\<rparr>)))))))"

text \<open>
  The loop over the waiting clients reads the clock for each of them as long as a
  slot is free; it has the shape of the loops of the other resources.
\<close>

definition timestamp_grant_waiting ::
  "clock \<Rightarrow> env \<Rightarrow> ts_ctx \<Rightarrow> world \<Rightarrow> flom_rsrc_conn_lock \<Rightarrow> rc \<times> ts_ctx \<times> world" where
  "timestamp_grant_waiting ck e s w cl =
     (case flom_resource_timestamp_get ck s of
        (rc, element, s1) \<Rightarrow>
          if rc \<noteq> FLOM_RC_OK then (rc, s1, w)
          else
            (case answer_waiting e (cl_conn cl) (Some element) w of
               (rc, w') \<Rightarrow>
                 if rc \<noteq> FLOM_RC_OK then (rc, s1, w')
                 else (FLOM_RC_OK,
                       s1\<lparr>tc_rsrc := (tc_rsrc s1)\<lparr>ts_holders := cl # ts_holders (tc_rsrc s1),
                            ts_locked_quantity := ts_locked_quantity (tc_rsrc s1) + 1\<rparr>\<rparr>,
                       vfs_log (Vfs_move_locker_conn (cl_conn cl))
                         (vfs_log (Vfs_add_locker_conn_file (cl_conn cl) False ''timestamp_value''
                                     (element @ [newline])) w'))))"

function timestamp_loop ::
  "clock \<Rightarrow> env \<Rightarrow> nat \<Rightarrow> ts_ctx \<Rightarrow> world \<Rightarrow> flom_rsrc_conn_lock list
     \<Rightarrow> rc \<times> ts_ctx \<times> world \<times> flom_rsrc_conn_lock list" where
  "timestamp_loop ck e i s w q =
     (if length q \<le> i then (FLOM_RC_OK, s, w, q)
      else
        (case flom_resource_timestamp_can_lock ck s of
           (can, s1) \<Rightarrow>
             if can then
               (case timestamp_grant_waiting ck e s1 w (q ! i) of
                  (rc, s2, w2) \<Rightarrow>
                    if rc \<noteq> FLOM_RC_OK then (rc, s2, w2, take i q @ drop (Suc i) q)
                    else timestamp_loop ck e i s2 w2 (take i q @ drop (Suc i) q))
             else timestamp_loop ck e (Suc i) s1 w q))"
  by pat_completeness auto
termination
  by (relation "measure (\<lambda>(ck, e, i, s, w, q). length q - i)") auto

declare timestamp_loop.simps [simp del]

definition flom_resource_timestamp_waitings ::
  "clock \<Rightarrow> env \<Rightarrow> ts_ctx \<Rightarrow> world \<Rightarrow> rc \<times> ts_ctx \<times> world" where
  "flom_resource_timestamp_waitings ck e s w =
     (case timestamp_loop ck e 0 s w (ts_waitings (tc_rsrc s)) of
        (rc, s', w', q) \<Rightarrow> (rc, s'\<lparr>tc_rsrc := (tc_rsrc s')\<lparr>ts_waitings := q\<rparr>\<rparr>, w'))"

definition flom_resource_timestamp_clean ::
  "clock \<Rightarrow> env \<Rightarrow> ts_ctx \<Rightarrow> conn \<Rightarrow> world \<Rightarrow> rc \<times> ts_ctx \<times> world" where
  "flom_resource_timestamp_clean ck e s c w =
     (let r = tc_rsrc s in
      case flom_rsrc_conn_find (ts_holders r) c of
        Some cl \<Rightarrow>
          (case flom_resource_timestamp_waitings ck e
                  (s\<lparr>tc_rsrc := r\<lparr>ts_holders := conn_remove (ts_holders r) c,
                                  ts_locked_quantity := ts_locked_quantity r - 1\<rparr>\<rparr>) w of
             (rc, s', w') \<Rightarrow>
               if rc \<noteq> FLOM_RC_OK then (rc, s', w')
               else (FLOM_RC_OK, s', vfs_log (Vfs_del_conn c) w'))
      | None \<Rightarrow>
          (FLOM_RC_OK, s\<lparr>tc_rsrc := r\<lparr>ts_waitings := conn_remove (ts_waitings r) c\<rparr>\<rparr>,
           vfs_log (Vfs_del_conn c) w))"

definition flom_resource_timestamp_lock ::
  "clock \<Rightarrow> env \<Rightarrow> ts_ctx \<Rightarrow> conn \<Rightarrow> flom_msg \<Rightarrow> world \<Rightarrow> rc \<times> ts_ctx \<times> flom_msg \<times> world" where
  "flom_resource_timestamp_lock ck e s0 c m w =
     (case flom_resource_timestamp_can_lock ck s0 of
        (can_lock, s) \<Rightarrow>
          (let can_wait = (l8_wait (lock_8 m) \<noteq> 0) in
           case flom_msg_free m of
             (rc, m1) \<Rightarrow>
               if rc \<noteq> FLOM_RC_OK then (rc, s, m1, w)
               else if can_lock then
                 (case flom_rsrc_conn_lock_new e c of
                    None \<Rightarrow> (FLOM_RC_G_TRY_MALLOC_ERROR, s, flom_msg_init, w)
                  | Some cl \<Rightarrow>
                      (case flom_resource_timestamp_get ck s of
                         (rc, element, s1) \<Rightarrow>
                           if rc \<noteq> FLOM_RC_OK then (rc, s1, flom_msg_init, w)
                           else
                             (let s2 = s1\<lparr>tc_rsrc := (tc_rsrc s1)\<lparr>
                                    ts_holders := cl # ts_holders (tc_rsrc s1),
                                    ts_locked_quantity := ts_locked_quantity (tc_rsrc s1) + 1\<rparr>\<rparr> in
                              case build_lock_answer e w c flom_msg_init FLOM_RC_OK (Some element) of
                                (rc, m2) \<Rightarrow>
                                  if rc \<noteq> FLOM_RC_OK then (rc, s2, m2, w)
                                  else (FLOM_RC_OK, s2, m2,
                                        vfs_log (Vfs_add_locker_conn c True FLOM_LOCK_MODE_INVALID None None
                                                   (Some (element @ [newline]))) w))))
               else if can_wait then
                 (let s1 = s\<lparr>tc_deadline := flom_resource_timestamp_next_deadline (tc_rsrc s)\<rparr> in
                  case flom_rsrc_conn_lock_new e c of
                    None \<Rightarrow> (FLOM_RC_G_TRY_MALLOC_ERROR, s1, flom_msg_init, w)
                  | Some cl \<Rightarrow>
                      (let s2 = s1\<lparr>tc_rsrc := (tc_rsrc s1)\<lparr>ts_waitings := ts_waitings (tc_rsrc s1) @ [cl]\<rparr>\<rparr>;
                           w' = vfs_log (Vfs_add_locker_conn c False FLOM_LOCK_MODE_INVALID None None None) w in
                       case build_lock_answer e w' c flom_msg_init FLOM_RC_LOCK_ENQUEUED None of
                         (rc, m2) \<Rightarrow> (rc, s2, m2, w')))
               else
                 (case build_lock_answer e w c flom_msg_init FLOM_RC_LOCK_BUSY None of
                    (rc, m2) \<Rightarrow> (rc, s, m2, w))))"

definition flom_resource_timestamp_inmsg ::
  "clock \<Rightarrow> env \<Rightarrow> ts_ctx \<Rightarrow> conn \<Rightarrow> flom_msg \<Rightarrow> world \<Rightarrow> rc \<times> ts_ctx \<times> flom_msg \<times> world" where
  "flom_resource_timestamp_inmsg ck e s c m w =
     (if msg_verb m = FLOM_MSG_VERB_LOCK then flom_resource_timestamp_lock ck e s c m w
      else if msg_verb m = FLOM_MSG_VERB_UNLOCK then
        (if ts_name (tc_rsrc s) \<noteq> u8_name (unlock_8 m) then (FLOM_RC_INVALID_OPTION, s, m, w)
         else
           (case flom_resource_timestamp_clean ck e s c w of
              (rc, s', w') \<Rightarrow>
                if rc \<noteq> FLOM_RC_OK then (rc, s', m, w')
                else (case flom_msg_free m of
                        (rc, m') \<Rightarrow>
                          if rc \<noteq> FLOM_RC_OK then (rc, s', m', w')
                          else (FLOM_RC_OK, s', flom_msg_init, w'))))
      else (FLOM_RC_PROTOCOL_ERROR, s, m, w))"

definition flom_resource_timestamp_timeout ::
  "clock \<Rightarrow> env \<Rightarrow> ts_ctx \<Rightarrow> world \<Rightarrow> rc \<times> ts_ctx \<times> world" where
  "flom_resource_timestamp_timeout ck e s w =
     (if ts_waitings (tc_rsrc s) = [] then (FLOM_RC_OK, s, w)
      else
        (case flom_resource_timestamp_can_lock ck s of
           (can, s1) \<Rightarrow>
             if can then
               (case flom_resource_timestamp_waitings ck e s1 w of
                  (rc, s2, w2) \<Rightarrow>
                    if rc \<noteq> FLOM_RC_OK then (rc, s2, w2)
                    else (FLOM_RC_OK, s2\<lparr>tc_deadline := flom_resource_timestamp_next_deadline (tc_rsrc s2)\<rparr>, w2))
             else (FLOM_RC_OK, s1, w)))"

text \<open>The memory of the format is released, its pointer is not reset.\<close>

definition flom_resource_timestamp_free :: "flom_resource_timestamp \<Rightarrow> flom_resource_timestamp" where
  "flom_resource_timestamp_free r =
     r\<lparr>ts_holders := [], ts_waitings := [], ts_total_quantity := 0, ts_locked_quantity := 0, ts_name := None\<rparr>"

section \<open>Slots of time\<close>

text \<open>
  The interval of a format is a whole part of a second or a number of seconds; it
  cuts the time into numbered slots.
\<close>

definition interval_ok :: "timeval \<Rightarrow> bool" where
  "interval_ok iv \<longleftrightarrow>
     iv \<in> {(0, 1), (0, 10), (0, 100), (0, 1000), (0, 10000), (0, 100000), (1, 0), (60, 0), (3600, 0)}"

definition tv_ok :: "timeval \<Rightarrow> bool" where
  "tv_ok tv \<longleftrightarrow> 0 \<le> fst tv \<and> 0 \<le> snd tv \<and> snd tv < 1000000"

definition micros :: "timeval \<Rightarrow> int" where
  "micros tv = fst tv * 1000000 + snd tv"

definition slot :: "timeval \<Rightarrow> timeval \<Rightarrow> int" where
  "slot iv tv = micros tv div micros iv"

lemma c_div_nonneg: "0 \<le> a \<Longrightarrow> 0 < b \<Longrightarrow> c_div a b = a div b"
  by (simp add: c_div_def sgn_if)

text \<open>An interval of a part of a second, \<open>i\<close> microseconds, of which there are \<open>k\<close> in a second.\<close>

lemma slot_usec:
  assumes "i * k = 1000000" "0 < i"
  shows "slot (0, i) tv = fst tv * k + snd tv div i"
proof -
  have "micros tv = snd tv + (fst tv * k) * i" using assms(1) by (simp add: micros_def mult.commute mult.left_commute)
  then show ?thesis using assms(2) by (simp add: slot_def micros_def [of "(0, i)"])
qed

lemma slot_sec:
  assumes "0 < p" "tv_ok tv"
  shows "slot (p, 0) tv = fst tv div p"
proof -
  have "micros tv div 1000000 = fst tv" using assms(2) by (simp add: micros_def tv_ok_def)
  moreover have "slot (p, 0) tv = micros tv div 1000000 div p"
    using assms(1) zdiv_zmult2_eq [of p "micros tv" 1000000]
    by (simp add: slot_def micros_def [of "(p, 0)"] mult.commute)
  ultimately show ?thesis by simp
qed

lemma div_times_le: "0 < p \<Longrightarrow> (b div p) * p \<le> (b :: int)"
  using pos_mod_sign [of p b] by (simp add: minus_mod_eq_div_mult [symmetric])

lemma usec_div_bound:
  fixes i k u :: int
  assumes "i * k = 1000000" "0 < i" "0 \<le> u" "u < 1000000"
  shows "0 \<le> u div i \<and> u div i < k"
proof -
  have "u < k * i" using assms(1,4) by (simp add: mult.commute)
  moreover have "(u div i) * i \<le> u" using assms(2) by (rule div_times_le)
  moreover have "k * i \<le> (u div i) * i" if "k \<le> u div i" using that assms(2) by (intro mult_right_mono) simp_all
  ultimately have "u div i < k" by linarith
  then show ?thesis using assms(2,3) by (simp add: pos_imp_zdiv_nonneg_iff)
qed

lemma interval_cases:
  assumes "interval_ok iv"
  obtains (usec) i k where "iv = (0, i)" "i * k = 1000000" "0 < i" | (sec) p where "iv = (p, 0)" "0 < p"
proof -
  have u: "\<exists>k. i * k = 1000000" if "i \<in> {1, 10, 100, 1000, 10000, 100000}" for i :: int
    using that by (auto intro: exI [of _ "1000000 div i"])
  show thesis
    using assms usec sec u unfolding interval_ok_def by (auto split: prod.splits)
qed

lemma micros_less_sec: "tv_ok a \<Longrightarrow> tv_ok b \<Longrightarrow> micros a \<le> micros b \<Longrightarrow> fst a \<le> fst b"
  by (simp add: tv_ok_def micros_def)

lemma elapsed_iff_slot:
  assumes "interval_ok (ts_interval r)" "tv_ok (ts_last_timestamp r)" "tv_ok tv"
    "micros (ts_last_timestamp r) \<le> micros tv"
  shows "interval_elapsed r tv \<longleftrightarrow> slot (ts_interval r) (ts_last_timestamp r) < slot (ts_interval r) tv"
  using assms(1)
proof (cases rule: interval_cases)
  case (usec i k)
  let ?l = "ts_last_timestamp r"
  have b: "0 \<le> snd tv div i" "snd tv div i < k" "0 \<le> snd ?l div i" "snd ?l div i < k"
    using usec_div_bound [OF usec(2,3)] assms(2,3) by (simp_all add: tv_ok_def)
  have le: "fst ?l \<le> fst tv" using micros_less_sec [OF assms(2,3,4)] .
  have "fst ?l * k + snd ?l div i < fst tv * k + snd tv div i" if "fst ?l < fst tv"
  proof -
    have "(fst ?l + 1) * k \<le> fst tv * k" using that b by (intro mult_right_mono) simp_all
    then show ?thesis using b by (simp add: algebra_simps)
  qed
  then show ?thesis
    using usec le assms(2,3)
    by (cases "fst ?l = fst tv") (simp_all add: interval_elapsed_def Let_def c_div_nonneg slot_usec tv_ok_def)
next
  case (sec p)
  then show ?thesis
    using assms(2,3) by (simp add: interval_elapsed_def Let_def c_div_nonneg slot_sec tv_ok_def)
qed

lemma less_div_iff:
  fixes a b p :: int
  assumes "0 < p"
  shows "a < b div p \<longleftrightarrow> (a + 1) * p \<le> b"
proof
  assume "a < b div p"
  then have "(a + 1) * p \<le> (b div p) * p" using assms by (intro mult_right_mono) simp_all
  then show "(a + 1) * p \<le> b" using div_times_le [OF assms, of b] by linarith
next
  assume "(a + 1) * p \<le> b"
  from zdiv_mono1 [OF this assms] show "a < b div p" using assms by simp
qed

text \<open>The next deadline is the first instant of the next slot.\<close>

lemma next_deadline_slot:
  assumes "interval_ok (ts_interval r)" "tv_ok (ts_last_timestamp r)"
  shows "micros (flom_resource_timestamp_next_deadline r) =
    (slot (ts_interval r) (ts_last_timestamp r) + 1) * micros (ts_interval r)"
  using assms(1)
proof (cases rule: interval_cases)
  case (usec i k)
  let ?l = "ts_last_timestamp r"
  have "micros (flom_resource_timestamp_next_deadline r) = fst ?l * 1000000 + (snd ?l div i + 1) * i"
    using usec assms(2)
    by (simp add: flom_resource_timestamp_next_deadline_def Let_def c_div_nonneg tv_ok_def micros_def)
  also have "\<dots> = (fst ?l * k + snd ?l div i + 1) * i"
    unfolding usec(2) [symmetric] by (simp add: algebra_simps)
  finally show ?thesis using usec by (simp add: slot_usec micros_def [of "(0, i)"])
next
  case (sec p)
  then show ?thesis
    using assms(2)
    by (simp add: flom_resource_timestamp_next_deadline_def Let_def c_div_nonneg tv_ok_def slot_sec micros_def)
qed

lemma interval_micros_pos: "interval_ok iv \<Longrightarrow> 0 < micros iv"
  by (auto simp: interval_ok_def micros_def)

lemma slot_mono: "interval_ok iv \<Longrightarrow> micros a \<le> micros b \<Longrightarrow> slot iv a \<le> slot iv b"
  using interval_micros_pos by (simp add: slot_def zdiv_mono1)

text \<open>The deadline is exact: with a slot free, a lock is granted at a time after the last
  timestamp exactly when the deadline computed for the waiting clients has come, so that
  a locker that sleeps until the deadline neither misses an interval nor wakes up for
  nothing.\<close>

theorem timestamp_deadline_exact:
  assumes "r = tc_rsrc s" "tv = ck_time ck (tc_reads s)"
    and "interval_ok (ts_interval r)" "tv_ok (ts_last_timestamp r)" "tv_ok tv"
    and "micros (ts_last_timestamp r) \<le> micros tv" "ts_locked_quantity r < ts_total_quantity r"
  shows "fst (flom_resource_timestamp_can_lock ck s) \<longleftrightarrow>
    micros (flom_resource_timestamp_next_deadline r) \<le> micros tv"
proof -
  let ?p = "micros (ts_interval r)"
  have "slot (ts_interval r) (ts_last_timestamp r) < slot (ts_interval r) tv \<longleftrightarrow>
      (slot (ts_interval r) (ts_last_timestamp r) + 1) * ?p \<le> micros tv"
    unfolding slot_def [of _ tv] by (rule less_div_iff [OF interval_micros_pos [OF assms(3)]])
  then show ?thesis
    using assms elapsed_iff_slot [OF assms(3-6)] next_deadline_slot [OF assms(3,4)]
    by (simp add: flom_resource_timestamp_can_lock_def Let_def)
qed

text \<open>A resource with the precision of a minute.\<close>

definition ts_name_minutes :: string where "ts_name_minutes = ''_t_%H:%M[1]''"

definition sample_clock :: "(nat \<Rightarrow> timeval) \<Rightarrow> clock" where
  "sample_clock t = \<lparr> ck_time = t, ck_fails = (\<lambda>n. False), ck_localtime_fails = (\<lambda>n. False),
     ck_strftime = (\<lambda>f s. f) \<rparr>"

definition ts_start :: "string \<Rightarrow> ts_ctx" where
  "ts_start name = \<lparr> tc_rsrc = snd (flom_resource_timestamp_init (Some name)), tc_reads = 0,
     tc_deadline = (0, 0), tc_issued = [] \<rparr>"

theorem timestamp_deadline_exact_witness:
  "\<not> fst (flom_resource_timestamp_can_lock (sample_clock (\<lambda>n. (59, 999999))) (ts_start ts_name_minutes)) \<and>
   micros (flom_resource_timestamp_next_deadline (tc_rsrc (ts_start ts_name_minutes))) = 60000000"
proof -
  let ?s = "ts_start ts_name_minutes" and ?ck = "sample_clock (\<lambda>n. (59, 999999))"
  have r: "interval_ok (ts_interval (tc_rsrc ?s))" "tv_ok (ts_last_timestamp (tc_rsrc ?s))"
    "tv_ok (ck_time ?ck (tc_reads ?s))"
    "micros (ts_last_timestamp (tc_rsrc ?s)) \<le> micros (ck_time ?ck (tc_reads ?s))"
    "ts_locked_quantity (tc_rsrc ?s) < ts_total_quantity (tc_rsrc ?s)" by code_simp+
  have d: "micros (flom_resource_timestamp_next_deadline (tc_rsrc ?s)) = 60000000" by code_simp
  have t: "micros (ck_time ?ck (tc_reads ?s)) = 59999999" by code_simp
  show ?thesis using timestamp_deadline_exact [OF refl refl r] unfolding d t by simp
qed

section \<open>Invariant\<close>

text \<open>A clock that does not go back.\<close>

definition clock_ok :: "clock \<Rightarrow> bool" where
  "clock_ok ck \<longleftrightarrow> (\<forall>n. tv_ok (ck_time ck n) \<and> micros (ck_time ck n) \<le> micros (ck_time ck (Suc n)))"

definition ts_inv :: "clock \<Rightarrow> ts_ctx \<Rightarrow> bool" where
  "ts_inv ck s \<longleftrightarrow>
     (let r = tc_rsrc s; last = ts_last_timestamp r; number = slot (ts_interval r) in
      interval_ok (ts_interval r) \<and> tv_ok last \<and> micros last \<le> micros (ck_time ck (tc_reads s)) \<and>
      sorted_wrt (\<lambda>a b. number b < number a) (tc_issued s) \<and>
      (\<forall>tv \<in> set (tc_issued s). number tv \<le> number last) \<and>
      ts_locked_quantity r = int (length (ts_holders r)) \<and>
      ts_locked_quantity r \<le> max 0 (ts_total_quantity r))"

lemma ts_inv_updates [simp]:
  "ts_inv ck (s\<lparr>tc_deadline := t\<rparr>) = ts_inv ck s"
  "ts_inv ck (s\<lparr>tc_rsrc := (tc_rsrc s)\<lparr>ts_waitings := q\<rparr>\<rparr>) = ts_inv ck s"
  "ts_inv ck (s\<lparr>tc_rsrc := (tc_rsrc s)\<lparr>ts_waitings := q\<rparr>, tc_deadline := t\<rparr>) = ts_inv ck s"
  "ts_inv ck (s\<lparr>tc_deadline := t, tc_rsrc := (tc_rsrc s)\<lparr>ts_waitings := q\<rparr>\<rparr>) = ts_inv ck s"
  by (simp_all add: ts_inv_def Let_def)

text \<open>The state in which a lock may be granted.\<close>

definition ts_can :: "clock \<Rightarrow> ts_ctx \<Rightarrow> bool" where
  "ts_can ck s \<longleftrightarrow>
     slot (ts_interval (tc_rsrc s)) (ts_last_timestamp (tc_rsrc s))
       < slot (ts_interval (tc_rsrc s)) (ck_time ck (tc_reads s)) \<and>
     ts_locked_quantity (tc_rsrc s) < ts_total_quantity (tc_rsrc s)"

lemma can_lock_inv:
  assumes "clock_ok ck" "ts_inv ck s" "flom_resource_timestamp_can_lock ck s = (can, s1)"
  shows "ts_inv ck s1 \<and> tc_rsrc s1 = tc_rsrc s \<and> (can \<longrightarrow> ts_can ck s1)"
proof -
  let ?r = "tc_rsrc s" and ?t = "ck_time ck (tc_reads s)" and ?u = "ck_time ck (Suc (tc_reads s))"
  have c: "tv_ok ?t" "micros ?t \<le> micros ?u" using assms(1) by (simp_all add: clock_ok_def)
  have i: "interval_ok (ts_interval ?r)" "tv_ok (ts_last_timestamp ?r)" "micros (ts_last_timestamp ?r) \<le> micros ?t"
    using assms(2) by (simp_all add: ts_inv_def Let_def)
  have "slot (ts_interval ?r) ?t \<le> slot (ts_interval ?r) ?u" using slot_mono [OF i(1) c(2)] .
  then show ?thesis
    using assms(2,3) c i elapsed_iff_slot [OF i(1,2) c(1) i(3)]
    by (auto simp: flom_resource_timestamp_can_lock_def Let_def ts_inv_def ts_can_def split: if_splits)
qed

lemma get_inv:
  assumes "clock_ok ck" "ts_inv ck s" "ts_can ck s" "flom_resource_timestamp_get ck s = (rc, el, s1)"
  shows "ts_inv ck s1 \<and> ts_locked_quantity (tc_rsrc s1) < ts_total_quantity (tc_rsrc s1)"
proof -
  have c: "tv_ok (ck_time ck n)" "micros (ck_time ck n) \<le> micros (ck_time ck (Suc n))" for n
    using assms(1) by (simp_all add: clock_ok_def)
  have "ts_inv ck (s\<lparr>tc_reads := Suc (tc_reads s)\<rparr>)"
    using assms(2) c [of "tc_reads s"] by (auto simp: ts_inv_def Let_def)
  moreover have "ts_inv ck (s\<lparr>tc_reads := Suc (tc_reads s),
      tc_rsrc := (tc_rsrc s)\<lparr>ts_last_timestamp := ck_time ck (tc_reads s)\<rparr>,
      tc_issued := ck_time ck (tc_reads s) # tc_issued s\<rparr>)"
    using assms(2,3) c by (fastforce simp: ts_inv_def ts_can_def Let_def)
  ultimately show ?thesis
    using assms(3,4)
    by (auto simp: flom_resource_timestamp_get_def Let_def ts_can_def split: if_splits option.splits)
qed

lemma add_holder_inv:
  assumes "ts_inv ck s" "ts_locked_quantity (tc_rsrc s) < ts_total_quantity (tc_rsrc s)"
  shows "ts_inv ck (s\<lparr>tc_rsrc := (tc_rsrc s)\<lparr>ts_holders := cl # ts_holders (tc_rsrc s),
           ts_locked_quantity := ts_locked_quantity (tc_rsrc s) + 1\<rparr>\<rparr>)"
  using assms by (auto simp: ts_inv_def Let_def)

lemma grant_waiting_inv:
  assumes "clock_ok ck" "ts_inv ck s" "ts_can ck s" "timestamp_grant_waiting ck e s w cl = (rc, s1, w1)"
  shows "ts_inv ck s1"
proof -
  obtain rc' el s' where g: "flom_resource_timestamp_get ck s = (rc', el, s')" by (metis prod_cases3)
  from get_inv [OF assms(1-3) g] show ?thesis
    using assms(4) g add_holder_inv [of ck s' cl]
    by (auto simp: timestamp_grant_waiting_def split: if_splits prod.splits)
qed

lemma timestamp_loop_inv:
  assumes "clock_ok ck" "ts_inv ck s" "timestamp_loop ck e i s w q = (rc, s', w', q')"
  shows "ts_inv ck s'"
  using assms
proof (induction ck e i s w q arbitrary: rc s' w' q' rule: timestamp_loop.induct)
  case (1 ck e i s w q)
  obtain can s1 where c: "flom_resource_timestamp_can_lock ck s = (can, s1)" by fastforce
  note inv1 = can_lock_inv [OF "1.prems"(1,2) c]
  show ?case
  proof (cases "length q \<le> i")
    case True
    with "1.prems" show ?thesis by (simp add: timestamp_loop.simps [of ck e i])
  next
    case len: False
    show ?thesis
    proof (cases can)
      case True
      obtain rc2 s2 w2 where g: "timestamp_grant_waiting ck e s1 w (q ! i) = (rc2, s2, w2)" by (metis prod_cases3)
      have inv2: "ts_inv ck s2" using grant_waiting_inv [OF "1.prems"(1) _ _ g] inv1 True by simp
      show ?thesis
      proof (cases "rc2 = FLOM_RC_OK")
        case True
        then show ?thesis
          using "1.IH"(1) [OF len c [symmetric] \<open>can\<close> g [symmetric] refl _ "1.prems"(1) inv2] "1.prems"(3) len c g \<open>can\<close>
          by (simp add: timestamp_loop.simps [of ck e i])
      next
        case False
        then show ?thesis using inv2 "1.prems"(3) len c g \<open>can\<close> by (simp add: timestamp_loop.simps [of ck e i])
      qed
    next
      case False
      then show ?thesis
        using "1.IH"(2) [OF len c [symmetric] False "1.prems"(1)] inv1 "1.prems"(3) len c
        by (simp add: timestamp_loop.simps [of ck e i])
    qed
  qed
qed

lemma timestamp_waitings_inv:
  assumes "clock_ok ck" "ts_inv ck s"
  shows "ts_inv ck (fst (snd (flom_resource_timestamp_waitings ck e s w)))"
proof -
  obtain rc s' w' q where l: "timestamp_loop ck e 0 s w (ts_waitings (tc_rsrc s)) = (rc, s', w', q)"
    by (metis prod_cases4)
  from timestamp_loop_inv [OF assms l] show ?thesis
    using l by (simp add: flom_resource_timestamp_waitings_def ts_inv_def Let_def)
qed

lemma timestamp_clean_inv:
  assumes "clock_ok ck" "ts_inv ck s"
  shows "ts_inv ck (fst (snd (flom_resource_timestamp_clean ck e s c w)))"
proof (cases "flom_rsrc_conn_find (ts_holders (tc_rsrc s)) c")
  case None
  with assms(2) show ?thesis by (simp add: flom_resource_timestamp_clean_def ts_inv_def Let_def)
next
  case (Some cl)
  let ?r = "tc_rsrc s"
  let ?s = "s\<lparr>tc_rsrc := ?r\<lparr>ts_holders := conn_remove (ts_holders ?r) c,
                             ts_locked_quantity := ts_locked_quantity ?r - 1\<rparr>\<rparr>"
  have "length (ts_holders ?r) = Suc (length (conn_remove (ts_holders ?r) c))"
    using length_remove_first [of "\<lambda>cl. cl_conn cl = c" "ts_holders ?r" cl] Some
    by (simp add: conn_remove_def flom_rsrc_conn_find_def)
  then have "ts_inv ck ?s" using assms(2) by (simp add: ts_inv_def Let_def)
  from timestamp_waitings_inv [OF assms(1) this, of e w] show ?thesis
    using Some by (auto simp: flom_resource_timestamp_clean_def Let_def split: prod.splits)
qed

lemma timestamp_lock_inv:
  assumes "clock_ok ck" "ts_inv ck s"
  shows "ts_inv ck (fst (snd (flom_resource_timestamp_lock ck e s c m w)))"
proof -
  obtain can s1 where can: "flom_resource_timestamp_can_lock ck s = (can, s1)" by fastforce
  have inv1: "ts_inv ck s1" "can \<Longrightarrow> ts_can ck s1" using can_lock_inv [OF assms can] by simp_all
  obtain rc el s2 where g: "flom_resource_timestamp_get ck s1 = (rc, el, s2)" by (metis prod_cases3)
  have grant: "ts_inv ck s2 \<and> ts_inv ck (s2\<lparr>tc_rsrc := (tc_rsrc s2)\<lparr>ts_holders := cl # ts_holders (tc_rsrc s2),
       ts_locked_quantity := ts_locked_quantity (tc_rsrc s2) + 1\<rparr>\<rparr>)" if can for cl
    using get_inv [OF assms(1) _ _ g] inv1 that add_holder_inv by blast
  show ?thesis
    using inv1 grant can g
    by (auto simp: flom_resource_timestamp_lock_def Let_def flom_rsrc_conn_lock_new_def split: prod.splits)
qed

lemma timestamp_inmsg_inv:
  assumes "clock_ok ck" "ts_inv ck s"
  shows "ts_inv ck (fst (snd (flom_resource_timestamp_inmsg ck e s c m w)))"
  using assms(2) timestamp_lock_inv [OF assms, of e c m w] timestamp_clean_inv [OF assms, of e c w]
  by (auto simp: flom_resource_timestamp_inmsg_def split: prod.splits)

lemma timestamp_timeout_inv:
  assumes "clock_ok ck" "ts_inv ck s"
  shows "ts_inv ck (fst (snd (flom_resource_timestamp_timeout ck e s w)))"
proof -
  obtain can s1 where can: "flom_resource_timestamp_can_lock ck s = (can, s1)" by fastforce
  note inv1 = can_lock_inv [OF assms can]
  show ?thesis
    using assms(2) inv1 can timestamp_waitings_inv [OF assms(1), of s1 e w]
    by (auto simp: flom_resource_timestamp_timeout_def split: prod.splits)
qed

interpretation timestamp_ops: timed_resource_ops
  "flom_resource_timestamp_inmsg ck" "flom_resource_timestamp_clean ck" "\<lambda>s. clock_ok ck \<and> ts_inv ck s"
  any_env "\<lambda>m. True" "flom_resource_timestamp_timeout ck" for ck
  by unfold_locales (simp_all add: timestamp_inmsg_inv timestamp_clean_inv timestamp_timeout_inv)

section \<open>Properties\<close>

lemma format_interval_ok: "format_interval format = (0, 0) \<or> interval_ok (format_interval format)"
  by (auto simp: format_interval_def interval_ok_def split: option.splits)

lemma timestamp_init_inv:
  assumes "fst (flom_resource_timestamp_init (Some name)) = FLOM_RC_OK" "clock_ok ck"
  shows "ts_inv ck (ts_start name)"
proof -
  obtain format quantity where r: "flom_resource_timestamp_init (Some name) =
      (FLOM_RC_OK, \<lparr> ts_name = Some name, ts_format = Some format, ts_interval = format_interval format,
         ts_total_quantity = quantity, ts_locked_quantity = 0, ts_last_timestamp = (0, 0), ts_holders = [],
         ts_waitings = [] \<rparr>)" and i: "format_interval format \<noteq> (0, 0)"
    using assms(1)
    by (auto simp: flom_resource_timestamp_init_def flom_rsrc_get_infix_def flom_rsrc_get_number_def Let_def
        split: option.splits prod.splits if_splits)
  have "tv_ok (ck_time ck 0)" using assms(2) by (simp add: clock_ok_def)
  with i format_interval_ok [of format] show ?thesis
    by (simp add: ts_start_def r ts_inv_def Let_def tv_ok_def micros_def)
qed

text \<open>C21. No two timestamps of the same interval: whatever requests, disconnections and
  time outs a timestamp resource sees and whatever fails, the times it takes from a
  clock that does not go back fall into different intervals of the precision of its
  format, in increasing order, and no more clients hold the resource than its quantity
  allows.\<close>

theorem timestamp_one_per_interval:
  assumes "fst (flom_resource_timestamp_init (Some name)) = FLOM_RC_OK" "clock_ok ck"
    and "s = fst (timed_run (flom_resource_timestamp_inmsg ck) (flom_resource_timestamp_clean ck)
                    (flom_resource_timestamp_timeout ck) evs (ts_start name, w))"
  shows "sorted_wrt (\<lambda>a b. slot (ts_interval (tc_rsrc s)) b < slot (ts_interval (tc_rsrc s)) a) (tc_issued s) \<and>
    int (length (ts_holders (tc_rsrc s))) \<le> max 0 (ts_total_quantity (tc_rsrc s))"
proof -
  have "timed_ok any_env (\<lambda>m. True) ev" for ev
    by (cases ev) (simp_all split: rsrc_event.splits, metis ev_ok.simps rsrc_event.exhaust)
  then have "list_all (timed_ok any_env (\<lambda>m. True)) evs" by (simp add: list_all_iff)
  then have "ts_inv ck s"
    using timestamp_ops.timed_run_rinv [of ck "(ts_start name, w)" evs] timestamp_init_inv [OF assms(1,2)] assms(2,3)
    by simp
  then show ?thesis by (auto simp: ts_inv_def Let_def)
qed

text \<open>Two clients in the same microsecond: the second one waits until the time out.\<close>

definition ts_name_micros :: string where "ts_name_micros = ''_t_%S#ffffff[2]''"

definition ts_events :: "timed_event list" where
  "ts_events = [Ev_rsrc (Ev_inmsg sample_env 1 (sample_request ts_name_micros 0)),
     Ev_rsrc (Ev_inmsg sample_env 2 (sample_request ts_name_micros 0)), Ev_timeout sample_env,
     Ev_rsrc (Ev_clean sample_env 1)]"

definition ts_ticks :: clock where
  "ts_ticks = sample_clock (\<lambda>n. (1, if n < 9 then (int n + 1) div 2 else 5))"

definition ts_sample :: ts_ctx where
  "ts_sample = fst (timed_run (flom_resource_timestamp_inmsg ts_ticks) (flom_resource_timestamp_clean ts_ticks)
                    (flom_resource_timestamp_timeout ts_ticks) ts_events (ts_start ts_name_micros, sample_world))"

theorem timestamp_one_per_interval_witness:
  "sorted_wrt (\<lambda>a b. slot (ts_interval (tc_rsrc ts_sample)) b < slot (ts_interval (tc_rsrc ts_sample)) a) (tc_issued ts_sample) \<and>
   tc_issued ts_sample = [(1, 3), (1, 1)] \<and> map cl_conn (ts_holders (tc_rsrc ts_sample)) = [2]"
proof -
  have i: "fst (flom_resource_timestamp_init (Some ts_name_micros)) = FLOM_RC_OK" by code_simp
  have c: "clock_ok ts_ticks"
    by (auto simp: clock_ok_def ts_ticks_def sample_clock_def tv_ok_def micros_def)
  have v: "tc_issued ts_sample = [(1, 3), (1, 1)]" "map cl_conn (ts_holders (tc_rsrc ts_sample)) = [2]" by code_simp+
  show ?thesis using timestamp_one_per_interval [OF i c ts_sample_def] v by simp
qed

section \<open>The fractions of a second\<close>

lemma subst_fraction_Nil [simp]: "subst_fraction pat rep [] = []"
  by (simp add: subst_fraction.simps)

lemma subst_fraction_Cons:
  "pat \<noteq> [] \<Longrightarrow> subst_fraction pat rep (c # t) =
     (if is_prefix_of pat (c # t) then rep @ subst_fraction pat rep (drop (length pat) (c # t))
      else c # subst_fraction pat rep t)"
  by (subst subst_fraction.simps) simp

lemma is_prefix_of_length: "is_prefix_of pat s \<Longrightarrow> length pat \<le> length s"
  by (induction pat s rule: is_prefix_of.induct) auto

lemma length_subst_fraction:
  assumes "length rep = length pat" "pat \<noteq> []"
  shows "length (subst_fraction pat rep s) = length s"
proof (induction s rule: length_induct)
  case (1 s)
  show ?case
  proof (cases s)
    case (Cons c t)
    have "length (subst_fraction pat rep (drop (length pat) s)) = length s - length pat"
      using 1 Cons assms(2) by simp
    then show ?thesis
      using 1 Cons assms is_prefix_of_length [of pat s] by (simp add: subst_fraction_Cons)
  qed simp
qed

text \<open>After the last pass no fraction format is left.\<close>

lemma is_substring_hash_append:
  "CHR ''#'' \<notin> set a \<Longrightarrow> is_substring ''#f'' (a @ b) = is_substring ''#f'' b"
  by (induction a) auto

lemma is_prefix_hash: "is_prefix_of ''#f'' s \<longleftrightarrow> take 2 s = ''#f''"
  by (cases s; cases "tl s") auto

lemma subst_no_fraction:
  assumes "CHR ''#'' \<notin> set rep" "rep = CHR ''.'' # rep'"
  shows "\<not> is_substring ''#f'' (subst_fraction ''#f'' rep s)"
proof (induction s rule: length_induct)
  case (1 s)
  let ?sub = "subst_fraction ''#f'' rep"
  show ?case
  proof (cases s)
    case (Cons c t)
    have "\<not> is_prefix_of ''#f'' (c # ?sub t)" if "\<not> is_prefix_of ''#f'' s"
      using that Cons assms(2)
      by (cases t) (auto simp: subst_fraction_Cons)
    then show ?thesis
      using 1 Cons assms(1) by (auto simp: subst_fraction_Cons is_substring_hash_append)
  qed simp
qed

lemma length_micro_seconds: "length (micro_seconds u) = 6"
  by (simp add: micro_seconds_def Let_def)

lemma string_of_nat_no_hash: "CHR ''#'' \<notin> set (string_of_nat n)"
proof
  assume "CHR ''#'' \<in> set (string_of_nat n)"
  then have "is_digit (CHR ''#'')" using string_of_nat_digits [of n] by blast
  then show False by (simp add: is_digit_def)
qed

lemma micro_seconds_no_hash: "CHR ''#'' \<notin> set (micro_seconds u)"
  using string_of_nat_no_hash [of "nat \<bar>u\<bar>"]
  by (auto simp: micro_seconds_def Let_def dest!: in_set_takeD split: if_splits)

text \<open>The fractions of a second are written into the format in place: the text keeps
  its length whatever the format and the time, so the writes stay inside of the copy of
  the format, and no fraction format is left for strftime, which does not know them.\<close>

theorem fractions_expanded_in_place:
  "length (expand_fractions format usec) = length format \<and>
   \<not> is_substring (micro_format 1) (expand_fractions format usec)"
proof
  have len: "length (subst_fraction (micro_format d) (CHR ''.'' # take d (micro_seconds usec)) s) = length s"
    if "d \<le> 6" for d s
    using that by (intro length_subst_fraction) (simp_all add: micro_format_def length_micro_seconds)
  show "length (expand_fractions format usec) = length format"
    by (simp add: expand_fractions_def len)
  have "CHR ''#'' \<notin> set (CHR ''.'' # take 1 (micro_seconds usec))"
    using micro_seconds_no_hash [of usec] by (auto dest: in_set_takeD)
  from subst_no_fraction [OF this refl]
  show "\<not> is_substring (micro_format 1) (expand_fractions format usec)"
    by (simp add: expand_fractions_def micro_format_def)
qed

end
