(* ===== verification/Resource.thy ===== *)
theory Resource
  imports Resource_Simple Resource_Numeric Resource_Set Resource_Sequence Resource_Hier
    Resource_Timestamp
begin

text \<open>
  The resource object of the second half of \<^verbatim>\<open>src/src/flom_rsrc.c\<close>: the union of the
  six kinds of resources and its table of methods.  The C code stores the pointers of
  the methods in the object when it is initialized; here the constructor selects them.
\<close>

section \<open>Methods\<close>

datatype flom_resource =
    Simple flom_resource_simple
  | Numeric flom_resource_numeric
  | Set flom_resource_set
  | Hierarchical flom_resource_hier
  | Sequence flom_resource_sequence
  | Timestamp ts_ctx

fun flom_resource_get_type :: "flom_resource \<Rightarrow> flom_rsrc_type" where
  "flom_resource_get_type (Simple r) = FLOM_RSRC_TYPE_SIMPLE"
| "flom_resource_get_type (Numeric r) = FLOM_RSRC_TYPE_NUMERIC"
| "flom_resource_get_type (Set r) = FLOM_RSRC_TYPE_SET"
| "flom_resource_get_type (Hierarchical r) = FLOM_RSRC_TYPE_HIER"
| "flom_resource_get_type (Sequence r) = FLOM_RSRC_TYPE_SEQUENCE"
| "flom_resource_get_type (Timestamp s) = FLOM_RSRC_TYPE_TIMESTAMP"

fun flom_resource_get_name :: "flom_resource \<Rightarrow> string option" where
  "flom_resource_get_name (Simple r) = sr_name r"
| "flom_resource_get_name (Numeric r) = nr_name r"
| "flom_resource_get_name (Set r) = st_name r"
| "flom_resource_get_name (Hierarchical r) = hr_name r"
| "flom_resource_get_name (Sequence r) = sq_name r"
| "flom_resource_get_name (Timestamp s) = ts_name (tc_rsrc s)"

text \<open>
  The parameter \<open>fails\<close> tells which allocations of the nodes of a tree fail; a
  timestamp resource starts with no reading of the clock and no deadline.
\<close>

fun flom_resource_init ::
  "(nat \<Rightarrow> bool) \<Rightarrow> flom_rsrc_type \<Rightarrow> string option \<Rightarrow> rc \<times> flom_resource option" where
  "flom_resource_init fails FLOM_RSRC_TYPE_NULL name = (FLOM_RC_OUT_OF_RANGE, None)"
| "flom_resource_init fails FLOM_RSRC_TYPE_SIMPLE name =
     map_prod id (Some \<circ> Simple) (flom_resource_simple_init name)"
| "flom_resource_init fails FLOM_RSRC_TYPE_NUMERIC name =
     map_prod id (Some \<circ> Numeric) (flom_resource_numeric_init name)"
| "flom_resource_init fails FLOM_RSRC_TYPE_SET name =
     map_prod id (Some \<circ> Set) (flom_resource_set_init name)"
| "flom_resource_init fails FLOM_RSRC_TYPE_HIER name =
     map_prod id (Some \<circ> Hierarchical) (flom_resource_hier_init fails name)"
| "flom_resource_init fails FLOM_RSRC_TYPE_SEQUENCE name =
     map_prod id (Some \<circ> Sequence) (flom_resource_sequence_init name)"
| "flom_resource_init fails FLOM_RSRC_TYPE_TIMESTAMP name =
     map_prod id (\<lambda>r. Some (Timestamp \<lparr> tc_rsrc = r, tc_reads = 0, tc_deadline = (0, 0), tc_issued = [] \<rparr>))
       (flom_resource_timestamp_init name)"

definition on_inmsg ::
  "('r \<Rightarrow> flom_resource) \<Rightarrow> rc \<times> 'r \<times> flom_msg \<times> world \<Rightarrow> rc \<times> flom_resource \<times> flom_msg \<times> world" where
  "on_inmsg K x = (case x of (rc, r, m, w) \<Rightarrow> (rc, K r, m, w))"

definition on_clean :: "('r \<Rightarrow> flom_resource) \<Rightarrow> rc \<times> 'r \<times> world \<Rightarrow> rc \<times> flom_resource \<times> world" where
  "on_clean K x = (case x of (rc, r, w) \<Rightarrow> (rc, K r, w))"

fun flom_resource_inmsg :: "clock \<Rightarrow> flom_resource inmsg_op" where
  "flom_resource_inmsg ck e (Simple r) c m w = on_inmsg Simple (flom_resource_simple_inmsg e r c m w)"
| "flom_resource_inmsg ck e (Numeric r) c m w = on_inmsg Numeric (flom_resource_numeric_inmsg e r c m w)"
| "flom_resource_inmsg ck e (Set r) c m w = on_inmsg Set (flom_resource_set_inmsg e r c m w)"
| "flom_resource_inmsg ck e (Hierarchical r) c m w = on_inmsg Hierarchical (flom_resource_hier_inmsg e r c m w)"
| "flom_resource_inmsg ck e (Sequence r) c m w = on_inmsg Sequence (flom_resource_sequence_inmsg e r c m w)"
| "flom_resource_inmsg ck e (Timestamp s) c m w = on_inmsg Timestamp (flom_resource_timestamp_inmsg ck e s c m w)"

fun flom_resource_clean :: "clock \<Rightarrow> flom_resource clean_op" where
  "flom_resource_clean ck e (Simple r) c w = on_clean Simple (flom_resource_simple_clean e r c w)"
| "flom_resource_clean ck e (Numeric r) c w = on_clean Numeric (flom_resource_numeric_clean e r c w)"
| "flom_resource_clean ck e (Set r) c w = on_clean Set (flom_resource_set_clean e r c w)"
| "flom_resource_clean ck e (Hierarchical r) c w = on_clean Hierarchical (flom_resource_hier_clean e r c w)"
| "flom_resource_clean ck e (Sequence r) c w = on_clean Sequence (flom_resource_sequence_clean e r c w)"
| "flom_resource_clean ck e (Timestamp s) c w = on_clean Timestamp (flom_resource_timestamp_clean ck e s c w)"

text \<open>Only the timestamp resource has a method of its own for the time out.\<close>

fun flom_resource_timeout :: "clock \<Rightarrow> flom_resource timeout_op" where
  "flom_resource_timeout ck e (Timestamp s) w = on_clean Timestamp (flom_resource_timestamp_timeout ck e s w)"
| "flom_resource_timeout ck e r w = (FLOM_RC_OK, r, w)"

text \<open>Whether a name is one of the resource: a hierarchy compares the first level only.\<close>

fun flom_resource_compare_name :: "flom_resource \<Rightarrow> string option \<Rightarrow> bool" where
  "flom_resource_compare_name (Hierarchical r) name = flom_resource_hier_compare_name r name"
| "flom_resource_compare_name r name = (flom_resource_get_name r = name)"

fun flom_resource_free :: "flom_resource \<Rightarrow> flom_resource" where
  "flom_resource_free (Simple r) = Simple (flom_resource_simple_free r)"
| "flom_resource_free (Numeric r) = Numeric (flom_resource_numeric_free r)"
| "flom_resource_free (Set r) = Set (flom_resource_set_free r)"
| "flom_resource_free (Hierarchical r) = Hierarchical (snd (flom_resource_hier_free r))"
| "flom_resource_free (Sequence r) = Sequence (flom_resource_sequence_free r)"
| "flom_resource_free (Timestamp s) = Timestamp (s\<lparr>tc_rsrc := flom_resource_timestamp_free (tc_rsrc s)\<rparr>)"

section \<open>Properties\<close>

lemma get_type_regexec:
  assumes "flom_rsrc_get_type name = t" "t \<noteq> FLOM_RSRC_TYPE_NULL"
  shows "res_name_regexec t name \<noteq> None"
  using assms
  by (auto simp: flom_rsrc_get_type_def rsrc_types_def split: option.splits if_splits)

text \<open>The groups of the names with a number.\<close>

lemma number_groups_Some: "number_groups x = Some g \<Longrightarrow> \<exists>p d. g = (Some p, Some d)"
  by (auto simp: number_groups_def)

lemma regexec_groups:
  assumes "res_name_regexec t name = Some g"
    "t \<in> {FLOM_RSRC_TYPE_NUMERIC, FLOM_RSRC_TYPE_SEQUENCE, FLOM_RSRC_TYPE_TIMESTAMP}"
  shows "\<exists>p d. g = (Some p, Some d)"
proof -
  have "\<exists>p d. h = (Some p, Some d)" if "line_match t l = Some h" for l h
    using that assms(2) by (auto split: if_splits dest: number_groups_Some)
  moreover have "\<exists>l. line_match t l = Some g" if "first_line_match t ls = Some g" for ls
    using that by (induction ls) (auto split: option.splits)
  ultimately show ?thesis using assms(1) unfolding res_name_regexec_def by blast
qed

lemma hier_name_cases:
  assumes "newline \<notin> set name" "res_name_regexec FLOM_RSRC_TYPE_HIER name \<noteq> None"
  obtains c r where "name = hier_separator # c # r"
proof -
  have m: "line_match FLOM_RSRC_TYPE_HIER name \<noteq> None"
    using assms by (simp add: res_name_regexec_line)
  then obtain s where s: "name = hier_separator # s" "s \<noteq> []"
    by (cases name; cases "tl name") (auto simp: Let_def split: if_splits)
  then show thesis using that by (cases s) auto
qed

text \<open>Every name the daemon accepts makes a resource: for a one line name whose type is
  found, and memory for the nodes of a tree, the initialization of a resource of that
  type succeeds, the resource has the type and answers to the name; the only failure
  left is a timestamp format that has no specifier finer than a day.\<close>

theorem valid_name_initialises:
  assumes "newline \<notin> set name" "flom_rsrc_get_type name = t" "t \<noteq> FLOM_RSRC_TYPE_NULL" "\<forall>i. \<not> fails i"
  shows "\<exists>rc r. flom_resource_init fails t (Some name) = (rc, Some r) \<and> flom_resource_get_type r = t \<and>
    flom_resource_compare_name r (Some name) \<and>
    (if t = FLOM_RSRC_TYPE_TIMESTAMP then rc \<in> {FLOM_RC_OK, FLOM_RC_INVALID_TIMESTAMP_FORMAT} else rc = FLOM_RC_OK)"
proof -
  have re: "res_name_regexec t name \<noteq> None" by (rule get_type_regexec [OF assms(2,3)])
  have num: "\<exists>p d. res_name_regexec t name = Some (Some p, Some d)"
    if "t \<in> {FLOM_RSRC_TYPE_NUMERIC, FLOM_RSRC_TYPE_SEQUENCE, FLOM_RSRC_TYPE_TIMESTAMP}"
    using re regexec_groups [OF _ that] by blast
  show ?thesis
  proof (cases t)
    case FLOM_RSRC_TYPE_HIER
    obtain c r where name: "name = hier_separator # c # r"
      using hier_name_cases assms(1) re FLOM_RSRC_TYPE_HIER by blast
    obtain x xs where "split_on hier_separator (c # r) = x # xs"
      using split_on_nonempty [of hier_separator "c # r"] by (metis neq_Nil_conv)
    with name FLOM_RSRC_TYPE_HIER assms(4) show ?thesis
      by (simp add: flom_resource_hier_init_def flom_resource_hier_compare_name_def hier_levels_def
          g_strsplit_def str_or_empty_def Let_def del: split_on.simps)
  qed (use num assms(3) in \<open>auto simp: flom_resource_simple_init_def flom_resource_numeric_init_def
      flom_resource_set_init_def flom_resource_sequence_init_def flom_resource_timestamp_init_def
      flom_rsrc_get_number_def flom_rsrc_get_infix_def flom_rsrc_get_elements_def Let_def\<close>)
qed

theorem valid_name_initialises_witness:
  "\<exists>r. flom_resource_init (\<lambda>i. False) FLOM_RSRC_TYPE_NUMERIC (Some ''disk[3]'') = (FLOM_RC_OK, Some r) \<and>
     flom_resource_compare_name r (Some ''disk[3]'')"
proof -
  have n: "newline \<notin> set ''disk[3]''" by code_simp
  have t: "flom_rsrc_get_type ''disk[3]'' = FLOM_RSRC_TYPE_NUMERIC" by code_simp
  show ?thesis using valid_name_initialises [OF n t, of "\<lambda>i. False"] by auto
qed

text \<open>A request that is not for the resource is refused and changes nothing: an unlock
  for another name and a verb that is neither lock nor unlock, for every type of
  resource.\<close>

theorem foreign_request_refused:
  assumes "msg_verb m \<noteq> FLOM_MSG_VERB_LOCK"
    and "msg_verb m = FLOM_MSG_VERB_UNLOCK \<Longrightarrow> \<not> flom_resource_compare_name r (u8_name (unlock_8 m))"
  shows "\<exists>rc. flom_resource_inmsg ck e r c m w = (rc, r, m, w) \<and>
    rc \<in> {FLOM_RC_INVALID_OPTION, FLOM_RC_INVALID_RESOURCE_NAME, FLOM_RC_PROTOCOL_ERROR}"
  using assms
  by (cases r) (auto simp: on_inmsg_def flom_resource_simple_inmsg_def flom_resource_numeric_inmsg_def
      flom_resource_set_inmsg_def flom_resource_hier_inmsg_def flom_resource_sequence_inmsg_def
      flom_resource_timestamp_inmsg_def)

theorem foreign_request_refused_witness:
  "\<exists>rc. flom_resource_inmsg (sample_clock (\<lambda>n. (0, 0))) sample_env (Simple sample_simple) 1 (sample_unlock ''other'') sample_world
     = (rc, Simple sample_simple, sample_unlock ''other'', sample_world) \<and>
     rc \<in> {FLOM_RC_INVALID_OPTION, FLOM_RC_INVALID_RESOURCE_NAME, FLOM_RC_PROTOCOL_ERROR}"
proof (rule foreign_request_refused)
  show "msg_verb (sample_unlock ''other'') \<noteq> FLOM_MSG_VERB_LOCK" by (simp add: sample_unlock_def)
  show "\<not> flom_resource_compare_name (Simple sample_simple) (u8_name (unlock_8 (sample_unlock ''other'')))" by code_simp
qed

end
