(* ===== verification/Clients.thy ===== *)
theory Clients
  imports Resource
begin

text \<open>
  The clients of a resource: the connections that hold a lock or wait for one, each as
  often as it has a lock record.  The locker thread relies on what this theory proves of
  the methods of a resource: a lock request adds at most one record, of the connection
  that sent it, an unlock request and the time out add none, and the clean-up for a
  connection that ends takes a record of the connection away.  The contract is the locale
  \<open>client_ops\<close>; every resource except the hierarchical one, whose clean-up looks for the
  lock in the wrong place, fulfils it.
\<close>

section \<open>The records of a resource\<close>

abbreviation conns_of :: "flom_rsrc_conn_lock list \<Rightarrow> conn multiset" where
  "conns_of cls \<equiv> image_mset cl_conn (mset cls)"

fun rsrc_clients :: "flom_resource \<Rightarrow> conn multiset" where
  "rsrc_clients (Simple r) = conns_of (sr_holders r) + conns_of (sr_waitings r)"
| "rsrc_clients (Numeric r) = conns_of (nr_holders r) + conns_of (nr_waitings r)"
| "rsrc_clients (Set r) = set_held (st_elements r) + conns_of (st_waitings r)"
| "rsrc_clients (Hierarchical r) = conns_of (map snd (hier_locks (hr_root r))) + conns_of (hr_waitings r)"
| "rsrc_clients (Sequence r) = conns_of (sq_holders r) + conns_of (sq_waitings r)"
| "rsrc_clients (Timestamp s) = conns_of (ts_holders (tc_rsrc s)) + conns_of (ts_waitings (tc_rsrc s))"

fun flat_rsrc :: "flom_resource \<Rightarrow> bool" where
  "flat_rsrc (Hierarchical r) = False"
| "flat_rsrc r = True"

section \<open>The contract\<close>

locale client_ops =
  fixes inmsg :: "'r inmsg_op"
    and clean :: "'r clean_op"
    and timeout :: "'r timeout_op"
    and clients :: "'r \<Rightarrow> conn multiset"
    and ok :: "'r \<Rightarrow> bool"
  assumes inmsg_ok: "ok r \<Longrightarrow> ok (fst (snd (inmsg e r c m w)))"
    and clean_ok: "ok r \<Longrightarrow> ok (fst (snd (clean e r c w)))"
    and timeout_ok: "ok r \<Longrightarrow> ok (fst (snd (timeout e r w)))"
    and lock_clients: "ok r \<Longrightarrow> clients (fst (snd (inmsg e r c m w))) \<subseteq># add_mset c (clients r)"
    and other_clients:
      "ok r \<Longrightarrow> msg_verb m \<noteq> FLOM_MSG_VERB_LOCK \<Longrightarrow> clients (fst (snd (inmsg e r c m w))) \<subseteq># clients r"
    and clean_clients: "ok r \<Longrightarrow> clients (fst (snd (clean e r c w))) \<subseteq># clients r - {#c#}"
    and timeout_clients: "ok r \<Longrightarrow> clients (fst (snd (timeout e r w))) \<subseteq># clients r"
    and lock_answered:
      "ok r \<Longrightarrow> msg_verb m = FLOM_MSG_VERB_LOCK \<Longrightarrow> inmsg e r c m w = (FLOM_RC_OK, r', m', w') \<Longrightarrow>
       msg_state m' = FLOM_MSG_STATE_READY"
    and lock_sends:
      "ok r \<Longrightarrow> msg_verb m = FLOM_MSG_VERB_LOCK \<Longrightarrow> inmsg e r c m w = (rc, r', m', w') \<Longrightarrow> w_sends w' = w_sends w"
    and unlock_clients:
      "ok r \<Longrightarrow> msg_verb m \<noteq> FLOM_MSG_VERB_LOCK \<Longrightarrow> inmsg e r c m w = (FLOM_RC_OK, r', m', w') \<Longrightarrow>
       clients r' \<subseteq># clients r - {#c#}"
begin

text \<open>No connection has more than one record, and the connections with one are in a set.\<close>

definition served :: "conn set \<Rightarrow> 'r \<Rightarrow> bool" where
  "served C r \<longleftrightarrow> ok r \<and> (\<forall>c. count (clients r) c \<le> 1) \<and> set_mset (clients r) \<subseteq> C"

lemma served_mono: "served C r \<Longrightarrow> C \<subseteq> D \<Longrightarrow> served D r"
  by (auto simp: served_def)

lemma served_sub:
  assumes "served C r" "ok r'" "clients r' \<subseteq># clients r"
  shows "served C r'"
  using assms mset_subset_eq_count [OF assms(3)] set_mset_mono [OF assms(3)]
  unfolding served_def by (meson order_trans)

lemma served_inmsg:
  assumes "served C r" "msg_verb m = FLOM_MSG_VERB_LOCK \<Longrightarrow> c \<notin># clients r" "c \<in> C"
  shows "served C (fst (snd (inmsg e r c m w)))"
proof (cases "msg_verb m = FLOM_MSG_VERB_LOCK")
  case True
  let ?r = "fst (snd (inmsg e r c m w))"
  have ok: "ok r" using assms(1) by (simp add: served_def)
  have sub: "clients ?r \<subseteq># add_mset c (clients r)" by (rule lock_clients [OF ok])
  have "count (clients ?r) d \<le> 1" for d
  proof -
    have "count (clients ?r) d \<le> count (add_mset c (clients r)) d" by (rule mset_subset_eq_count [OF sub])
    also have "\<dots> \<le> 1" using assms True by (auto simp: served_def count_eq_zero_iff)
    finally show ?thesis .
  qed
  moreover have "set_mset (clients ?r) \<subseteq> C"
    using set_mset_mono [OF sub] assms(1,3) by (auto simp: served_def)
  ultimately show ?thesis using inmsg_ok [OF ok] by (simp add: served_def)
next
  case False
  then show ?thesis
    using served_sub [OF assms(1)] inmsg_ok other_clients assms(1) by (simp add: served_def)
qed

lemma served_timeout:
  assumes "served C r"
  shows "served C (fst (snd (timeout e r w)))"
  using assms by (intro served_sub [OF assms] timeout_ok timeout_clients) (simp_all add: served_def)

text \<open>After the clean-up for a connection, and after its unlock request, nothing of it is left.\<close>

lemma served_less:
  assumes "served C r" "ok r'" "clients r' \<subseteq># clients r - {#c#}"
  shows "served (C - {c}) r'"
proof -
  have "clients r' \<subseteq># clients r" using assms(3) by (meson diff_subset_eq_self subset_mset.order_trans)
  from served_sub [OF assms(1,2) this] have s: "served C r'" .
  have "count (clients r') c \<le> count (clients r - {#c#}) c" by (rule mset_subset_eq_count [OF assms(3)])
  also have "\<dots> = 0" using assms(1) by (simp add: served_def)
  finally have "c \<notin># clients r'" by (simp add: count_eq_zero_iff)
  then show ?thesis using s by (auto simp: served_def)
qed

lemma served_clean:
  assumes "served C r"
  shows "served (C - {c}) (fst (snd (clean e r c w)))"
  using assms by (intro served_less [OF assms] clean_ok clean_clients) (simp_all add: served_def)

lemma served_unlock:
  assumes "served C r" "msg_verb m \<noteq> FLOM_MSG_VERB_LOCK" "inmsg e r c m w = (FLOM_RC_OK, r', m', w')"
  shows "served (C - {c}) r'"
proof -
  have ok: "ok r" using assms(1) by (simp add: served_def)
  then have "ok r'" using inmsg_ok [of r e c m w] assms(3) by simp
  from served_less [OF assms(1) this unlock_clients [OF ok assms(2,3)]] show ?thesis .
qed

end

section \<open>Scans\<close>

lemma conn_remove_conns: "conns_of (conn_remove cls c) = conns_of cls - {#c#}"
  by (induction cls) (auto simp: conn_remove_def)

lemma scan_clients:
  assumes "\<And>s c. can s c \<Longrightarrow> held (snd (grant s c)) \<subseteq># add_mset (key c) (held s)"
    and "scan can grant s q = (rc, s', q')"
  shows "held s' + image_mset key (mset q') \<subseteq># held s + image_mset key (mset q)"
  using assms(2)
proof (induction q arbitrary: s rc s' q')
  case (Cons c q)
  show ?case
  proof (cases "can s c")
    case True
    obtain rc1 s1 where g: "grant s c = (rc1, s1)" by force
    have h: "held s1 \<subseteq># add_mset (key c) (held s)" using assms(1) [OF True] g by simp
    have "held s' + image_mset key (mset q') \<subseteq># held s1 + image_mset key (mset q)"
      using Cons.prems True g Cons.IH by (cases "rc1 = FLOM_RC_OK") auto
    also have "\<dots> \<subseteq># add_mset (key c) (held s) + image_mset key (mset q)"
      using h by (rule subset_mset.add_right_mono)
    finally show ?thesis by simp
  next
    case False
    obtain rc1 s1 q1 where "scan can grant s q = (rc1, s1, q1)" by (metis prod_cases3)
    then show ?thesis using False Cons.prems Cons.IH [of s rc1 s1 q1] by auto
  qed
qed simp

lemma loop_clients:
  assumes "\<And>s c. can s c \<Longrightarrow> held (snd (grant s c)) \<subseteq># add_mset (key c) (held s)"
    and "waitings_loop can grant 0 s q = (rc, s', q')"
  shows "held s' + image_mset key (mset q') \<subseteq># held s + image_mset key (mset q)"
  using scan_clients [of can held grant key, OF assms(1)] assms(2) by (simp add: waitings_loop_eq_scan)

text \<open>A record leaves the holders, then the queue is scanned; or it leaves the queue.\<close>

lemma clean_queue_clients:
  assumes "c \<notin># H"
  shows "H + conns_of (conn_remove q c) \<subseteq># H + conns_of q - {#c#}"
proof (cases "c \<in># conns_of q")
  case True
  then show ?thesis by (simp only: conn_remove_conns diff_union_single_conv subset_mset.order_refl)
next
  case False
  then have "c \<notin># H + conns_of q" using assms by simp
  then have "H + conns_of q - {#c#} = H + conns_of q" "conns_of q - {#c#} = conns_of q"
    using False by (simp_all add: diff_single_trivial)
  then show ?thesis by (simp add: conn_remove_conns)
qed

lemma clean_holder_clients:
  assumes "C \<subseteq># (H - {#c#}) + Q" "c \<in># H"
  shows "C \<subseteq># H + Q - {#c#}"
  using assms by (metis diff_union_single_conv union_commute)

lemma find_holder: "find (\<lambda>cl. cl_conn cl = c) cls = None \<longleftrightarrow> c \<notin># conns_of cls"
  by (auto simp: find_None_set)

lemma find_holder_Some: "find (\<lambda>cl. cl_conn cl = c) cls = Some cl \<Longrightarrow> c \<in># conns_of cls \<and> cl_conn cl = c"
  by (auto dest: find_Some_set)

section \<open>The resources\<close>

subsection \<open>Simple\<close>

lemma simple_waitings_clients:
  "rsrc_clients (Simple (fst (snd (flom_resource_simple_waitings e r w)))) \<subseteq># rsrc_clients (Simple r)"
proof -
  obtain rc r' w' q where l:
    "waitings_loop (simple_can_waiting e) (simple_grant_waiting e) 0 (r, w) (sr_waitings r) = (rc, (r', w'), q)"
    by (metis prod_cases3 surj_pair)
  from loop_clients [of _ "\<lambda>s. conns_of (sr_holders (fst s))" _ cl_conn, OF _ l] show ?thesis
    using l by (simp add: flom_resource_simple_waitings_def simple_grant_waiting_result)
qed

lemma simple_clean_clients:
  "rsrc_clients (Simple (fst (snd (flom_resource_simple_clean e r c w)))) \<subseteq># rsrc_clients (Simple r) - {#c#}"
proof (cases "find (\<lambda>cl. cl_conn cl = c) (sr_holders r)")
  case None
  then have "c \<notin># conns_of (sr_holders r)" by (rule find_holder [THEN iffD1])
  from clean_queue_clients [OF this, of "sr_waitings r"] show ?thesis
    by (simp add: flom_resource_simple_clean_def flom_rsrc_conn_find_def None)
next
  case (Some cl)
  note h = find_holder_Some [OF Some]
  have "rsrc_clients (Simple (fst (snd (flom_resource_simple_clean e r c w))))
      \<subseteq># conns_of (sr_holders r) - {#c#} + conns_of (sr_waitings r)"
    using simple_waitings_clients [of e "r\<lparr>sr_holders := conn_remove (sr_holders r) c\<rparr>" w] h
    by (auto simp: flom_resource_simple_clean_def flom_rsrc_conn_find_def Some conn_remove_conns  split: prod.splits)
  then show ?thesis using clean_holder_clients h by simp
qed

lemma simple_lock_clients:
  "rsrc_clients (Simple (fst (snd (flom_resource_simple_lock e r c m w)))) \<subseteq># add_mset c (rsrc_clients (Simple r))"
  by (auto simp: flom_resource_simple_lock_def flom_rsrc_conn_lock_new_def Let_def  split: prod.splits)

subsection \<open>Numeric\<close>

lemma numeric_grant_held:
  "conns_of (nr_holders (fst (snd (numeric_grant_waiting e s cl)))) \<subseteq># add_mset (cl_conn cl) (conns_of (nr_holders (fst s)))"
  by (auto simp: numeric_grant_waiting_def split: prod.splits)

lemma numeric_waitings_clients:
  "rsrc_clients (Numeric (fst (snd (flom_resource_numeric_waitings e r w)))) \<subseteq># rsrc_clients (Numeric r)"
proof -
  obtain rc r' w' q where l:
    "waitings_loop (numeric_can_waiting e) (numeric_grant_waiting e) 0 (r, w) (nr_waitings r) = (rc, (r', w'), q)"
    by (metis prod_cases3 surj_pair)
  from loop_clients [of _ "\<lambda>s. conns_of (nr_holders (fst s))" _ cl_conn, OF _ l] show ?thesis
    using l by (simp add: flom_resource_numeric_waitings_def numeric_grant_held)
qed

lemma numeric_clean_clients:
  "rsrc_clients (Numeric (fst (snd (flom_resource_numeric_clean e r c w)))) \<subseteq># rsrc_clients (Numeric r) - {#c#}"
proof (cases "find (\<lambda>cl. cl_conn cl = c) (nr_holders r)")
  case None
  then have "c \<notin># conns_of (nr_holders r)" by (rule find_holder [THEN iffD1])
  from clean_queue_clients [OF this, of "nr_waitings r"] show ?thesis
    by (simp add: flom_resource_numeric_clean_def flom_rsrc_conn_find_def None)
next
  case (Some cl)
  note h = find_holder_Some [OF Some]
  have "rsrc_clients (Numeric (fst (snd (flom_resource_numeric_clean e r c w))))
      \<subseteq># conns_of (nr_holders r) - {#c#} + conns_of (nr_waitings r)"
    using numeric_waitings_clients [of e "r\<lparr>nr_holders := conn_remove (nr_holders r) c, nr_locked_quantity := nr_locked_quantity r - cl_quantity cl\<rparr>" w] h
    by (auto simp: flom_resource_numeric_clean_def flom_rsrc_conn_find_def Some conn_remove_conns  split: prod.splits)
  then show ?thesis using clean_holder_clients h by simp
qed

lemma numeric_lock_clients:
  "rsrc_clients (Numeric (fst (snd (flom_resource_numeric_lock e r c m w)))) \<subseteq># add_mset c (rsrc_clients (Numeric r))"
  by (auto simp: flom_resource_numeric_lock_def flom_rsrc_conn_lock_new_def Let_def  split: prod.splits)

subsection \<open>Sequence\<close>

lemma sequence_get_lists:
  "sq_holders (snd (flom_resource_sequence_get r)) = sq_holders r"
  "sq_waitings (snd (flom_resource_sequence_get r)) = sq_waitings r"
  by (auto simp: flom_resource_sequence_get_def sequence_new_value_def Let_def split: option.splits list.splits)

lemma sequence_grant_held:
  "conns_of (sq_holders (fst (snd (sequence_grant_waiting e s cl)))) \<subseteq># add_mset (cl_conn cl) (conns_of (sq_holders (fst s)))"
  using sequence_get_lists [of "fst s"]
  by (auto simp: sequence_grant_waiting_def Let_def split: prod.splits)

lemma sequence_waitings_clients:
  "rsrc_clients (Sequence (fst (snd (flom_resource_sequence_waitings e r w)))) \<subseteq># rsrc_clients (Sequence r)"
proof -
  obtain rc r' w' q where l:
    "waitings_loop (sequence_can_waiting e) (sequence_grant_waiting e) 0 (r, w) (sq_waitings r) = (rc, (r', w'), q)"
    by (metis prod_cases3 surj_pair)
  from loop_clients [of _ "\<lambda>s. conns_of (sq_holders (fst s))" _ cl_conn, OF _ l] show ?thesis
    using l by (simp add: flom_resource_sequence_waitings_def sequence_grant_held)
qed

lemma sequence_clean_clients:
  "rsrc_clients (Sequence (fst (snd (flom_resource_sequence_clean e r c w)))) \<subseteq># rsrc_clients (Sequence r) - {#c#}"
proof (cases "find (\<lambda>cl. cl_conn cl = c) (sq_holders r)")
  case None
  then have "c \<notin># conns_of (sq_holders r)" by (rule find_holder [THEN iffD1])
  from clean_queue_clients [OF this, of "sq_waitings r"] show ?thesis
    by (simp add: flom_resource_sequence_clean_def flom_rsrc_conn_find_def None)
next
  case (Some cl)
  note h = find_holder_Some [OF Some]
  have "rsrc_clients (Sequence (fst (snd (flom_resource_sequence_clean e r c w))))
      \<subseteq># conns_of (sq_holders r) - {#c#} + conns_of (sq_waitings r)"
    using sequence_waitings_clients [of e "sequence_release r cl" w] h
    by (auto simp: flom_resource_sequence_clean_def flom_rsrc_conn_find_def Some conn_remove_conns sequence_release_def split: prod.splits)
  then show ?thesis using clean_holder_clients h by simp
qed

lemma sequence_lock_clients:
  "rsrc_clients (Sequence (fst (snd (flom_resource_sequence_lock e r c m w)))) \<subseteq># add_mset c (rsrc_clients (Sequence r))"
  using sequence_get_lists [of r]
  by (auto simp: flom_resource_sequence_lock_def flom_rsrc_conn_lock_new_def Let_def  split: prod.splits)

subsection \<open>Set\<close>

lemma set_grant_held:
  assumes "set_can_waiting e s cl"
  shows "set_held (st_elements (fst (snd (set_grant_waiting e s cl)))) \<subseteq># add_mset (cl_conn cl) (set_held (st_elements (fst s)))"
proof -
  obtain j where "flom_resource_set_can_lock (fst s) = Some j" "fst (snd (set_grant_waiting e s cl)) =
      (if fst (set_grant_waiting e s cl) = FLOM_RC_OK then set_assign (fst s) j (cl_conn cl) else fst s)"
    using set_grant_waiting_result [OF assms] by blast
  then show ?thesis using set_can_lock_Some by (simp add: set_assign_def set_held_assign)
qed

lemma set_waitings_clients:
  "rsrc_clients (Set (fst (snd (flom_resource_set_waitings e r w)))) \<subseteq># rsrc_clients (Set r)"
proof -
  obtain rc r' w' q where l:
    "waitings_loop (set_can_waiting e) (set_grant_waiting e) 0 (r, w) (st_waitings r) = (rc, (r', w'), q)"
    by (metis prod_cases3 surj_pair)
  from loop_clients [of _ "\<lambda>s. set_held (st_elements (fst s))" _ cl_conn, OF set_grant_held l] show ?thesis
    using l by (simp add: flom_resource_set_waitings_def)
qed

lemma set_find_None_held: "set_find_conn r c = None \<Longrightarrow> c \<notin># set_held (st_elements r)"
  by (auto simp: set_find_conn_def find_None_set set_held_def in_set_conv_nth split: option.splits)
    (metis atLeast0LessThan lessThan_iff nth_mem)

lemma set_clean_clients:
  "rsrc_clients (Set (fst (snd (flom_resource_set_clean e r c w)))) \<subseteq># rsrc_clients (Set r) - {#c#}"
proof (cases "set_find_conn r c")
  case None
  from clean_queue_clients [OF set_find_None_held [OF None], of "st_waitings r"] show ?thesis
    by (simp add: flom_resource_set_clean_def None)
next
  case (Some j)
  have h: "add_mset c (set_held (st_elements (set_release r j))) = set_held (st_elements r)"
    using set_find_conn_Some [OF Some] by (simp add: set_release_def set_held_release)
  have "rsrc_clients (Set (fst (snd (flom_resource_set_clean e r c w))))
      \<subseteq># set_held (st_elements r) - {#c#} + conns_of (st_waitings r)"
    using set_waitings_clients [of e "set_release r j" w] h [symmetric]
    by (auto simp: flom_resource_set_clean_def Some set_release_def split: prod.splits)
  moreover have "c \<in># set_held (st_elements r)" unfolding h [symmetric] by simp
  ultimately show ?thesis using clean_holder_clients by simp
qed

lemma set_lock_clients:
  "rsrc_clients (Set (fst (snd (flom_resource_set_lock e r c m w)))) \<subseteq># add_mset c (rsrc_clients (Set r))"
  using set_can_lock_Some [of r]
  by (auto simp: flom_resource_set_lock_def flom_rsrc_conn_lock_new_def Let_def set_assign_def set_held_assign
      split: prod.splits option.splits)

subsection \<open>Timestamp\<close>

lemma timestamp_can_lock_rsrc: "tc_rsrc (snd (flom_resource_timestamp_can_lock ck s)) = tc_rsrc s"
  by (auto simp: flom_resource_timestamp_can_lock_def Let_def)

lemma timestamp_get_lists:
  "ts_holders (tc_rsrc (snd (snd (flom_resource_timestamp_get ck s)))) = ts_holders (tc_rsrc s)"
  "ts_waitings (tc_rsrc (snd (snd (flom_resource_timestamp_get ck s)))) = ts_waitings (tc_rsrc s)"
  by (auto simp: flom_resource_timestamp_get_def Let_def split: prod.splits option.splits)

lemma timestamp_grant_held:
  "conns_of (ts_holders (tc_rsrc (fst (snd (timestamp_grant_waiting ck e s w cl)))))
     \<subseteq># add_mset (cl_conn cl) (conns_of (ts_holders (tc_rsrc s)))"
  using timestamp_get_lists [of ck s]
  by (auto simp: timestamp_grant_waiting_def split: prod.splits)

lemma timestamp_loop_clients:
  assumes "timestamp_loop ck e i s w q = (rc, s', w', q')"
  shows "conns_of (ts_holders (tc_rsrc s')) + conns_of q' \<subseteq># conns_of (ts_holders (tc_rsrc s)) + conns_of q"
  using assms
proof (induction ck e i s w q arbitrary: rc s' w' q' rule: timestamp_loop.induct)
  case (1 ck e i s w q)
  show ?case
  proof (cases "length q \<le> i")
    case True
    then show ?thesis using 1(3) by (simp add: timestamp_loop.simps [of ck e i])
  next
    case False
    let ?H = "\<lambda>s. conns_of (ts_holders (tc_rsrc s))"
    obtain can s1 where c: "flom_resource_timestamp_can_lock ck s = (can, s1)" by force
    have h1: "?H s1 = ?H s" using timestamp_can_lock_rsrc [of ck s] c by simp
    show ?thesis
    proof (cases can)
      case True
      let ?q = "take i q @ drop (Suc i) q"
      obtain rc1 s2 w2 where g: "timestamp_grant_waiting ck e s1 w (q ! i) = (rc1, s2, w2)"
        by (metis prod_cases3)
      have q: "conns_of q = add_mset (cl_conn (q ! i)) (conns_of ?q)"
        using False by (subst id_take_nth_drop [of i q]) simp_all
      have h2: "?H s2 + conns_of ?q \<subseteq># ?H s + conns_of q"
        using timestamp_grant_held [of ck e s1 w "q ! i"] g h1 unfolding q
        by (metis fst_conv mset_subset_eq_mono_add_right_cancel snd_conv union_mset_add_mset_left union_mset_add_mset_right)
      show ?thesis
      proof (cases "rc1 = FLOM_RC_OK")
        case rc: True
        have "timestamp_loop ck e i s2 w2 ?q = (rc, s', w', q')"
          using 1(3) False c True g rc by (simp add: timestamp_loop.simps [of ck e i s])
        from 1(1) [OF False c [symmetric] True g [symmetric] refl _ this] rc
        have "?H s' + conns_of q' \<subseteq># ?H s2 + conns_of ?q" by simp
        then show ?thesis using h2 by (rule subset_mset.order_trans)
      next
        case rc: False
        then show ?thesis using 1(3) False c True g h2 by (simp add: timestamp_loop.simps [of ck e i s])
      qed
    next
      case can: False
      have "timestamp_loop ck e (Suc i) s1 w q = (rc, s', w', q')"
        using 1(3) False c can by (simp add: timestamp_loop.simps [of ck e i s])
      from 1(2) [OF False c [symmetric] can this] show ?thesis using h1 by simp
    qed
  qed
qed

lemma timestamp_waitings_clients:
  "rsrc_clients (Timestamp (fst (snd (flom_resource_timestamp_waitings ck e s w)))) \<subseteq># rsrc_clients (Timestamp s)"
proof -
  obtain rc s' w' q where "timestamp_loop ck e 0 s w (ts_waitings (tc_rsrc s)) = (rc, s', w', q)"
    by (metis prod_cases4)
  from timestamp_loop_clients [OF this] this show ?thesis by (simp add: flom_resource_timestamp_waitings_def)
qed

lemma timestamp_clean_clients:
  "rsrc_clients (Timestamp (fst (snd (flom_resource_timestamp_clean ck e s c w)))) \<subseteq># rsrc_clients (Timestamp s) - {#c#}"
proof (cases "find (\<lambda>cl. cl_conn cl = c) (ts_holders (tc_rsrc s))")
  case None
  then have "c \<notin># conns_of (ts_holders (tc_rsrc s))" by (rule find_holder [THEN iffD1])
  from clean_queue_clients [OF this, of "ts_waitings (tc_rsrc s)"] show ?thesis
    by (simp add: flom_resource_timestamp_clean_def flom_rsrc_conn_find_def None Let_def)
next
  case (Some cl)
  note h = find_holder_Some [OF Some]
  have "rsrc_clients (Timestamp (fst (snd (flom_resource_timestamp_clean ck e s c w))))
      \<subseteq># conns_of (ts_holders (tc_rsrc s)) - {#c#} + conns_of (ts_waitings (tc_rsrc s))"
    using timestamp_waitings_clients [of ck e "s\<lparr>tc_rsrc := (tc_rsrc s)\<lparr>ts_holders := conn_remove (ts_holders (tc_rsrc s)) c,
        ts_locked_quantity := ts_locked_quantity (tc_rsrc s) - 1\<rparr>\<rparr>" w]
    by (auto simp: flom_resource_timestamp_clean_def flom_rsrc_conn_find_def Some conn_remove_conns Let_def split: prod.splits)
  then show ?thesis using clean_holder_clients h by simp
qed

lemma timestamp_lock_clients:
  "rsrc_clients (Timestamp (fst (snd (flom_resource_timestamp_lock ck e s c m w)))) \<subseteq># add_mset c (rsrc_clients (Timestamp s))"
  using timestamp_can_lock_rsrc [of ck s] timestamp_get_lists [of ck "snd (flom_resource_timestamp_can_lock ck s)"]
  by (auto simp: flom_resource_timestamp_lock_def flom_rsrc_conn_lock_new_def Let_def split: prod.splits)

lemma timestamp_timeout_clients:
  "rsrc_clients (Timestamp (fst (snd (flom_resource_timestamp_timeout ck e s w)))) \<subseteq># rsrc_clients (Timestamp s)"
  using timestamp_can_lock_rsrc [of ck s]
    timestamp_waitings_clients [of ck e "snd (flom_resource_timestamp_can_lock ck s)" w]
  by (auto simp: flom_resource_timestamp_timeout_def split: prod.splits)

section \<open>All flat resources\<close>

lemma set_rollback_conns: "conns_of (set_rollback c b cls) = conns_of cls"
  by (induction cls) auto

lemma sequence_unlock_clients:
  "rsrc_clients (Sequence (fst (snd (flom_resource_sequence_clean e (r\<lparr>sq_holders := set_rollback c b (sq_holders r)\<rparr>) c w))))
     \<subseteq># rsrc_clients (Sequence r) - {#c#}"
  using sequence_clean_clients [of e "r\<lparr>sq_holders := set_rollback c b (sq_holders r)\<rparr>" c w]
  by (simp add: set_rollback_conns)

lemmas rsrc_lock_clients = simple_lock_clients numeric_lock_clients set_lock_clients sequence_lock_clients
  timestamp_lock_clients

lemmas rsrc_clean_clients = simple_clean_clients numeric_clean_clients set_clean_clients sequence_clean_clients
  timestamp_clean_clients sequence_unlock_clients

lemma flat_inmsg: "flat_rsrc r \<Longrightarrow> flat_rsrc (fst (snd (flom_resource_inmsg ck e r c m w)))"
  by (cases r) (auto simp: on_inmsg_def split: prod.splits)

lemma flat_clean: "flat_rsrc r \<Longrightarrow> flat_rsrc (fst (snd (flom_resource_clean ck e r c w)))"
  by (cases r) (auto simp: on_clean_def split: prod.splits)

lemma flat_timeout: "flat_rsrc r \<Longrightarrow> flat_rsrc (fst (snd (flom_resource_timeout ck e r w)))"
  by (cases r) (auto simp: on_clean_def split: prod.splits)

lemma on_inmsg_rsrc: "fst (snd (on_inmsg K x)) = K (fst (snd x))"
  by (simp add: on_inmsg_def split: prod.splits)

lemma on_clean_rsrc: "fst (snd (on_clean K x)) = K (fst (snd x))"
  by (simp add: on_clean_def split: prod.splits)

lemma clean_records:
  "flat_rsrc r \<Longrightarrow> rsrc_clients (fst (snd (flom_resource_clean ck e r c w))) \<subseteq># rsrc_clients r - {#c#}"
  using rsrc_clean_clients by (cases r) (simp_all only: flom_resource_clean.simps on_clean_rsrc flat_rsrc.simps)

lemma timeout_records:
  "flat_rsrc r \<Longrightarrow> rsrc_clients (fst (snd (flom_resource_timeout ck e r w))) \<subseteq># rsrc_clients r"
  using timestamp_timeout_clients
  by (cases r) (simp_all only: flom_resource_timeout.simps on_clean_rsrc flat_rsrc.simps fst_conv snd_conv
      subset_mset.order_refl)

text \<open>A request other than a lock: refused, or the clean-up for the connection.\<close>

lemma other_simple: "msg_verb m \<noteq> FLOM_MSG_VERB_LOCK \<Longrightarrow>
  fst (snd (flom_resource_simple_inmsg e r c m w)) \<in> {r, fst (snd (flom_resource_simple_clean e r c w))}"
  by (auto simp: flom_resource_simple_inmsg_def split: prod.splits)

lemma other_numeric: "msg_verb m \<noteq> FLOM_MSG_VERB_LOCK \<Longrightarrow>
  fst (snd (flom_resource_numeric_inmsg e r c m w)) \<in> {r, fst (snd (flom_resource_numeric_clean e r c w))}"
  by (auto simp: flom_resource_numeric_inmsg_def split: prod.splits)

lemma other_set: "msg_verb m \<noteq> FLOM_MSG_VERB_LOCK \<Longrightarrow>
  fst (snd (flom_resource_set_inmsg e r c m w)) \<in> {r, fst (snd (flom_resource_set_clean e r c w))}"
  by (auto simp: flom_resource_set_inmsg_def split: prod.splits)

lemma other_sequence: "msg_verb m \<noteq> FLOM_MSG_VERB_LOCK \<Longrightarrow>
  fst (snd (flom_resource_sequence_inmsg e r c m w)) \<in> {r, fst (snd (flom_resource_sequence_clean e
     (r\<lparr>sq_holders := set_rollback c (u8_rollback (unlock_8 m) \<noteq> 0) (sq_holders r)\<rparr>) c w))}"
  by (auto simp: flom_resource_sequence_inmsg_def split: prod.splits)

lemma other_timestamp: "msg_verb m \<noteq> FLOM_MSG_VERB_LOCK \<Longrightarrow>
  fst (snd (flom_resource_timestamp_inmsg ck e s c m w)) \<in> {s, fst (snd (flom_resource_timestamp_clean ck e s c w))}"
  by (auto simp: flom_resource_timestamp_inmsg_def split: prod.splits)

lemma fewer_of:
  fixes f :: "'r \<Rightarrow> conn multiset"
  assumes "x \<in> {r, r'}" "f r' \<subseteq># f r - {#c#}"
  shows "f x \<subseteq># f r"
  using assms diff_subset_eq_self subset_mset.order_trans by (metis insertE singletonD subset_mset.order_refl)

lemma other_records:
  assumes "flat_rsrc r" "msg_verb m \<noteq> FLOM_MSG_VERB_LOCK"
  shows "rsrc_clients (fst (snd (flom_resource_inmsg ck e r c m w))) \<subseteq># rsrc_clients r"
proof (cases r)
  case (Simple r1)
  show ?thesis unfolding Simple flom_resource_inmsg.simps on_inmsg_rsrc
    by (rule fewer_of [of _ r1 _ "\<lambda>r. rsrc_clients (Simple r)" c, OF other_simple [OF assms(2)] simple_clean_clients])
next
  case (Numeric r1)
  show ?thesis unfolding Numeric flom_resource_inmsg.simps on_inmsg_rsrc
    by (rule fewer_of [of _ r1 _ "\<lambda>r. rsrc_clients (Numeric r)" c, OF other_numeric [OF assms(2)] numeric_clean_clients])
next
  case (Set r1)
  show ?thesis unfolding Set flom_resource_inmsg.simps on_inmsg_rsrc
    by (rule fewer_of [of _ r1 _ "\<lambda>r. rsrc_clients (Set r)" c, OF other_set [OF assms(2)] set_clean_clients])
next
  case (Sequence r1)
  show ?thesis unfolding Sequence flom_resource_inmsg.simps on_inmsg_rsrc
    by (rule fewer_of [of _ r1 _ "\<lambda>r. rsrc_clients (Sequence r)" c, OF other_sequence [OF assms(2)] sequence_unlock_clients])
next
  case (Timestamp s1)
  show ?thesis unfolding Timestamp flom_resource_inmsg.simps on_inmsg_rsrc
    by (rule fewer_of [of _ s1 _ "\<lambda>r. rsrc_clients (Timestamp r)" c, OF other_timestamp [OF assms(2)] timestamp_clean_clients])
qed (use assms(1) in simp)

lemma lock_records:
  assumes "flat_rsrc r"
  shows "rsrc_clients (fst (snd (flom_resource_inmsg ck e r c m w))) \<subseteq># add_mset c (rsrc_clients r)"
proof (cases "msg_verb m = FLOM_MSG_VERB_LOCK")
  case True
  then show ?thesis
    using assms rsrc_lock_clients
    by (cases r) (simp_all only: flom_resource_inmsg.simps on_inmsg_rsrc flat_rsrc.simps
        flom_resource_simple_inmsg_def flom_resource_numeric_inmsg_def flom_resource_set_inmsg_def
        flom_resource_sequence_inmsg_def flom_resource_timestamp_inmsg_def if_True refl)
next
  case False
  from other_records [OF assms False] show ?thesis
    by (metis add_mset_add_single mset_subset_eq_add_left subset_mset.order_trans)
qed

lemma build_answer_ready:
  "build_lock_answer e w c m rc element = (FLOM_RC_OK, m') \<Longrightarrow> msg_state m' = FLOM_MSG_STATE_READY"
  by (auto simp: build_lock_answer_def flom_msg_build_answer_def Let_def split: if_splits)

lemma lock_ready:
  assumes "flat_rsrc r" "msg_verb m = FLOM_MSG_VERB_LOCK"
    and "flom_resource_inmsg ck e r c m w = (FLOM_RC_OK, r', m', w')"
  shows "msg_state m' = FLOM_MSG_STATE_READY"
  using assms
  by (cases r)
    (auto simp: on_inmsg_def flom_resource_simple_inmsg_def flom_resource_numeric_inmsg_def
      flom_resource_set_inmsg_def flom_resource_sequence_inmsg_def flom_resource_timestamp_inmsg_def
      flom_resource_simple_lock_def flom_resource_numeric_lock_def flom_resource_set_lock_def
      flom_resource_sequence_lock_def flom_resource_timestamp_lock_def Let_def
      split: prod.splits if_splits option.splits dest: build_answer_ready)

text \<open>A lock request sends nothing by itself.\<close>

lemma lock_sends_nothing:
  assumes "flat_rsrc r" "msg_verb m = FLOM_MSG_VERB_LOCK"
    and "flom_resource_inmsg ck e r c m w = (rc, r', m', w')"
  shows "w_sends w' = w_sends w"
  using assms
  by (cases r)
    (auto simp: on_inmsg_def flom_resource_simple_inmsg_def flom_resource_numeric_inmsg_def
      flom_resource_set_inmsg_def flom_resource_sequence_inmsg_def flom_resource_timestamp_inmsg_def
      flom_resource_simple_lock_def flom_resource_numeric_lock_def flom_resource_set_lock_def
      flom_resource_sequence_lock_def flom_resource_timestamp_lock_def Let_def
      split: prod.splits if_splits option.splits)

text \<open>An unlock request that succeeds is the clean-up for the connection.\<close>

lemma unlock_records:
  assumes "flat_rsrc r" "msg_verb m \<noteq> FLOM_MSG_VERB_LOCK"
    and "flom_resource_inmsg ck e r c m w = (FLOM_RC_OK, r', m', w')"
  shows "rsrc_clients r' \<subseteq># rsrc_clients r - {#c#}"
proof (cases r)
  case (Simple r1)
  then have "r' = Simple (fst (snd (flom_resource_simple_clean e r1 c w)))"
    using assms(2,3) by (auto simp: on_inmsg_def flom_resource_simple_inmsg_def split: prod.splits if_splits)
  then show ?thesis unfolding Simple by (simp only: simple_clean_clients)
next
  case (Numeric r1)
  then have "r' = Numeric (fst (snd (flom_resource_numeric_clean e r1 c w)))"
    using assms(2,3) by (auto simp: on_inmsg_def flom_resource_numeric_inmsg_def split: prod.splits if_splits)
  then show ?thesis unfolding Numeric by (simp only: numeric_clean_clients)
next
  case (Set r1)
  then have "r' = Set (fst (snd (flom_resource_set_clean e r1 c w)))"
    using assms(2,3) by (auto simp: on_inmsg_def flom_resource_set_inmsg_def split: prod.splits if_splits)
  then show ?thesis unfolding Set by (simp only: set_clean_clients)
next
  case (Sequence r1)
  then have "r' = Sequence (fst (snd (flom_resource_sequence_clean e
      (r1\<lparr>sq_holders := set_rollback c (u8_rollback (unlock_8 m) \<noteq> 0) (sq_holders r1)\<rparr>) c w)))"
    using assms(2,3) by (auto simp: on_inmsg_def flom_resource_sequence_inmsg_def split: prod.splits if_splits)
  then show ?thesis unfolding Sequence by (simp only: sequence_unlock_clients)
next
  case (Timestamp s1)
  then have "r' = Timestamp (fst (snd (flom_resource_timestamp_clean ck e s1 c w)))"
    using assms(2,3) by (auto simp: on_inmsg_def flom_resource_timestamp_inmsg_def split: prod.splits if_splits)
  then show ?thesis unfolding Timestamp by (simp only: timestamp_clean_clients)
qed (use assms(1) in simp)

interpretation rsrc: client_ops
  "flom_resource_inmsg ck" "flom_resource_clean ck" "flom_resource_timeout ck" rsrc_clients flat_rsrc for ck
  by unfold_locales (simp_all add: flat_inmsg flat_clean flat_timeout lock_records other_records clean_records
      timeout_records lock_ready lock_sends_nothing unlock_records)

end
