(* ===== verification/Tcp.thy ===== *)
theory Tcp
  imports Msg_Xml
begin

text \<open>
  The framing of the messages on a stream: \<^verbatim>\<open>flom_tcp_recv_msg\<close> of
  \<^verbatim>\<open>src/src/flom_tcp.c\<close> and its copy \<^verbatim>\<open>flom_tls_recv_msg\<close> of \<^verbatim>\<open>src/src/flom_tls.c\<close>.
  There is no length in the protocol: the receiver reads until the bytes end with the
  closing tag, and it must not read the first bytes of the next message.

  The stream is the list of the bytes still to come.  How the bytes are cut into
  pieces is a parameter: \<open>chunks n\<close> is the largest number of bytes the n-th call of
  \<^verbatim>\<open>recv\<close> or \<^verbatim>\<open>SSL_read\<close> delivers, zero when it fails.  At the end of the stream the call
  returns no byte (the peer has closed the connection).
\<close>

section \<open>The receiver\<close>

abbreviation (input) FLOM_RC_SSL_READ_ERROR :: int where "FLOM_RC_SSL_READ_ERROR \<equiv> - 409"

definition closing_tag :: string where "closing_tag = ''</msg>''"

text \<open>
  The loop over the closing tag, from its last character to the first; \<open>j\<close> is the
  number of characters found at the end of the buffer.
\<close>

definition tag_step :: "string \<Rightarrow> nat \<Rightarrow> nat \<Rightarrow> nat" where
  "tag_step buf i j =
     (if buf ! (length buf - j - 1) = closing_tag ! (length closing_tag - i - 1) then j + 1 else 0)"

definition tag_found :: "string \<Rightarrow> nat" where
  "tag_found buf = fold (tag_step buf) [0..<length closing_tag] 0"

text \<open>
  The result: the reason code, the bytes in the buffer and the rest of the stream.
\<close>

function recv_loop ::
  "rc \<Rightarrow> (nat \<Rightarrow> nat) \<Rightarrow> nat \<Rightarrow> nat \<Rightarrow> string \<Rightarrow> nat \<Rightarrow> string \<Rightarrow> rc \<times> string \<times> string" where
  "recv_loop err chunks len n buf to_be_read stream =
     (let read_bytes = take (min (chunks n) to_be_read) stream;
          buf' = buf @ read_bytes;
          stream' = drop (min (chunks n) to_be_read) stream in
      if read_bytes = [] then (err, buf, stream)
      else if length buf' < length closing_tag then
        recv_loop err chunks len (Suc n) buf' to_be_read stream'
      else
        (let j = tag_found buf' in
         if j = length closing_tag then (FLOM_RC_OK, buf', stream')
         else if length buf' + (length closing_tag - j) \<ge> len then (FLOM_RC_BUFFER_OVERFLOW, buf', stream')
         else recv_loop err chunks len (Suc n) buf' (length closing_tag - j) stream'))"
  by pat_completeness auto
termination
  by (relation "measure (\<lambda>(err, chunks, len, n, buf, to_be_read, stream). length stream)") auto

declare recv_loop.simps [simp del]

definition stream_recv_msg :: "rc \<Rightarrow> (nat \<Rightarrow> nat) \<Rightarrow> nat \<Rightarrow> string \<Rightarrow> rc \<times> string \<times> string" where
  "stream_recv_msg err chunks len stream =
     (if len < length closing_tag then (FLOM_RC_OUT_OF_RANGE, [], stream)
      else recv_loop err chunks len 0 [] (length closing_tag) stream)"

definition flom_tcp_recv_msg :: "(nat \<Rightarrow> nat) \<Rightarrow> nat \<Rightarrow> string \<Rightarrow> rc \<times> string \<times> string" where
  "flom_tcp_recv_msg = stream_recv_msg FLOM_RC_RECV_ERROR"

definition flom_tls_recv_msg :: "(nat \<Rightarrow> nat) \<Rightarrow> nat \<Rightarrow> string \<Rightarrow> rc \<times> string \<times> string" where
  "flom_tls_recv_msg = stream_recv_msg FLOM_RC_SSL_READ_ERROR"

section \<open>The closing tag at the end of the buffer\<close>

lemma closing_tag_length [simp]: "length closing_tag = 6"
  by (simp add: closing_tag_def)

text \<open>The scan reads the buffer backwards.\<close>

lemma tag_step_rev:
  "j < length buf \<Longrightarrow> i < 6 \<Longrightarrow>
     tag_step buf i j = (if rev buf ! j = rev closing_tag ! i then j + 1 else 0)"
  using rev_nth [of j buf] rev_nth [of i closing_tag] by (simp add: tag_step_def)

lemma tag_found_rev:
  assumes "rev buf = c1 # c2 # c3 # c4 # c5 # c6 # zs"
  shows "tag_found buf =
    fold (\<lambda>i j. if (c1 # c2 # c3 # c4 # c5 # c6 # zs) ! j = rev closing_tag ! i then j + 1 else 0) [0..<6] 0"
proof -
  have "6 \<le> length (rev buf)" unfolding assms by simp
  then have len: "6 \<le> length buf" by simp
  have "n \<le> 6 \<Longrightarrow> fold (tag_step buf) [0..<n] 0 = fold (\<lambda>i j. if rev buf ! j = rev closing_tag ! i then j + 1 else 0) [0..<n] 0
      \<and> fold (tag_step buf) [0..<n] 0 \<le> n" for n
    by (induction n) (use len in \<open>auto simp: tag_step_rev\<close>)
  from this [of 6] show ?thesis unfolding tag_found_def assms by simp
qed

lemma six_cases:
  assumes "6 \<le> length xs"
  obtains c1 c2 c3 c4 c5 c6 zs where "xs = c1 # c2 # c3 # c4 # c5 # c6 # zs"
  using assms by (auto simp: Suc_le_length_iff numeral_eq_Suc)

lemma tag_found_le: "6 \<le> length buf \<Longrightarrow> tag_found buf \<le> 6"
  by (rule six_cases [of "rev buf"]) (simp, simp add: tag_found_rev numeral_eq_Suc closing_tag_def)

lemma tag_found_all:
  assumes "6 \<le> length buf"
  shows "tag_found buf = 6 \<longleftrightarrow> suffix closing_tag buf"
proof -
  have "6 \<le> length (rev buf)" using assms by simp
  then obtain c1 c2 c3 c4 c5 c6 zs where c: "rev buf = c1 # c2 # c3 # c4 # c5 # c6 # zs" by (rule six_cases)
  have "suffix closing_tag buf \<longleftrightarrow> prefix (rev closing_tag) (rev buf)" by (simp add: suffix_to_prefix)
  also have "\<dots> \<longleftrightarrow> [c1, c2, c3, c4, c5, c6] = rev closing_tag" unfolding c by (auto simp: closing_tag_def)
  finally show ?thesis unfolding tag_found_rev [OF c] by (simp add: closing_tag_def numeral_eq_Suc)
qed

lemma tag_found_partial:
  assumes "6 \<le> length buf" "suffix (take k closing_tag) buf" "0 < k" "k < 6"
  shows "tag_found buf = k"
proof -
  have "6 \<le> length (rev buf)" using assms(1) by simp
  then obtain c1 c2 c3 c4 c5 c6 zs where c: "rev buf = c1 # c2 # c3 # c4 # c5 # c6 # zs" by (rule six_cases)
  have "prefix (rev (take k closing_tag)) (c1 # c2 # c3 # c4 # c5 # c6 # zs)"
    using assms(2) unfolding c [symmetric] by (simp add: suffix_to_prefix)
  moreover have "k = 1 \<or> k = 2 \<or> k = 3 \<or> k = 4 \<or> k = 5" using assms(3,4) by auto
  ultimately consider "k = 1" "c1 = CHR ''<''" | "k = 2" "c1 = CHR ''/''" "c2 = CHR ''<''"
    | "k = 3" "c1 = CHR ''m''" "c2 = CHR ''/''" "c3 = CHR ''<''"
    | "k = 4" "c1 = CHR ''s''" "c2 = CHR ''m''" "c3 = CHR ''/''" "c4 = CHR ''<''"
    | "k = 5" "c1 = CHR ''g''" "c2 = CHR ''s''" "c3 = CHR ''m''" "c4 = CHR ''/''" "c5 = CHR ''<''"
    by (elim disjE) (simp_all add: closing_tag_def)
  then show ?thesis
    unfolding tag_found_rev [OF c]
    by cases (simp_all add: closing_tag_def numeral_eq_Suc)
qed

section \<open>Framing\<close>

text \<open>A complete message: its closing tag is at the end and nowhere before.\<close>

definition framed :: "string \<Rightarrow> bool" where
  "framed m \<longleftrightarrow> suffix closing_tag m \<and> \<not> is_substring closing_tag (butlast m) \<and> 12 \<le> length m"

lemma is_prefix_of_append: "is_prefix_of p (p @ s)"
  by (induction p) auto

lemma is_substring_infix: "is_substring p (a @ p @ b)"
proof (induction a)
  case Nil
  then show ?case using is_prefix_of_append [of p b] by (cases "p @ b") auto
qed auto

text \<open>Inside of a message the tag is not complete, and never closer than the scan says.\<close>

lemma framed_inside:
  assumes "framed m" "m = buf @ x" "x \<noteq> []" "6 \<le> length buf"
  shows "tag_found buf < 6 \<and> 6 - tag_found buf \<le> length x"
proof
  have "\<not> suffix closing_tag buf"
  proof
    assume "suffix closing_tag buf"
    then obtain a where "buf = a @ closing_tag" by (auto simp: suffix_def)
    then have "butlast m = a @ closing_tag @ butlast x" using assms(2,3) by (simp add: butlast_append)
    then show False using assms(1) is_substring_infix [of closing_tag a] by (simp add: framed_def)
  qed
  then show "tag_found buf < 6" using tag_found_all tag_found_le assms(4) by (metis le_neq_implies_less)
  show "6 - tag_found buf \<le> length x"
  proof (cases "length x < 6")
    case True
    obtain a where a: "buf @ x = a @ closing_tag" using assms(1,2) by (auto simp: framed_def suffix_def)
    let ?k = "6 - length x"
    have "length buf + length x = length a + 6"
      using arg_cong [OF a, of length] by (simp only: length_append closing_tag_length)
    then have la: "length buf - length a = ?k" "take (length buf) a = a" using assms(4) True by simp_all
    have "take (length buf) (buf @ x) = take (length buf) (a @ closing_tag)" using a by (rule arg_cong)
    then have "buf = a @ take ?k closing_tag" by (simp only: take_append la) simp
    then have "suffix (take ?k closing_tag) buf" by (metis suffix_def)
    then have "tag_found buf = ?k"
      using tag_found_partial [OF assms(4), of ?k] True assms(3) by simp
    then show ?thesis by simp
  qed simp
qed

text \<open>The invariant of the loop: the bytes asked for do not go beyond the message.\<close>

lemma recv_loop_framed:
  assumes "framed m" "\<forall>n. 0 < chunks n" "buf @ x = m" "x \<noteq> []"
    and "if length buf < 6 then to_be_read = 6
         else to_be_read = 6 - tag_found buf \<and> length buf + to_be_read < len"
    and "12 \<le> len" "recv_loop err chunks len n buf to_be_read (x @ rest) = (rc, buf', rest')"
  shows "buf' @ rest' = m @ rest \<and> length buf' < len \<and>
    (if length m < len then rc = FLOM_RC_OK \<and> buf' = m else rc = FLOM_RC_BUFFER_OVERFLOW)"
  using assms
proof (induction "length x" arbitrary: n buf x to_be_read rule: less_induct)
  case less
  let ?k = "min (chunks n) to_be_read"
  have ask: "0 < to_be_read" "length buf + to_be_read \<le> length m" "length buf + to_be_read < len"
    using less.prems(5,6) framed_inside [OF less.prems(1) less.prems(3) [symmetric] less.prems(4)] less.prems(1,3)
    by (auto simp: framed_def split: if_splits)
  have kx: "0 < ?k" "?k \<le> length x" using ask less.prems(2,3) by auto
  define b y where "b = buf @ take ?k x" and "y = drop ?k x"
  have by1: "b @ y = m" "length y < length x" "take ?k (x @ rest) = take ?k x"
    "drop ?k (x @ rest) = y @ rest" "take ?k x \<noteq> []"
    using less.prems(3) kx by (auto simp: b_def y_def)
  have blen: "length b < len" using ask kx by (simp add: b_def)
  have step: "recv_loop err chunks len n buf to_be_read (x @ rest) =
     (if length b < 6 then recv_loop err chunks len (Suc n) b to_be_read (y @ rest)
      else if tag_found b = 6 then (FLOM_RC_OK, b, y @ rest)
      else if length b + (6 - tag_found b) \<ge> len then (FLOM_RC_BUFFER_OVERFLOW, b, y @ rest)
      else recv_loop err chunks len (Suc n) b (6 - tag_found b) (y @ rest))"
    by (subst recv_loop.simps) (simp only: Let_def by1(3,4,5) b_def [symmetric] closing_tag_length if_False)
  note run = less.prems(7) [unfolded step]
  show ?case
  proof (cases "length b < 6")
    case True
    then have y: "y \<noteq> []" using by1(1) less.prems(1) by (auto simp: framed_def)
    have "recv_loop err chunks len (Suc n) b to_be_read (y @ rest) = (rc, buf', rest')"
      using run True by simp
    moreover have "to_be_read = 6" using less.prems(5) True by (auto simp: b_def split: if_splits)
    ultimately show ?thesis
      using less.hyps [OF by1(2) less.prems(1,2) by1(1) y _ less.prems(6)] True by simp
  next
    case False
    show ?thesis
    proof (cases "y = []")
      case True
      then have "tag_found b = 6" using tag_found_all [of b] False by1(1) less.prems(1) by (simp add: framed_def)
      then have "(rc, buf', rest') = (FLOM_RC_OK, m, rest)"
        using run False by1(1) True by simp
      then show ?thesis using blen by1(1) True by simp
    next
      case y: False
      have t: "tag_found b < 6" "6 - tag_found b \<le> length y"
        using framed_inside [OF less.prems(1) by1(1) [symmetric] y] False by simp_all
      show ?thesis
      proof (cases "length b + (6 - tag_found b) \<ge> len")
        case True
        then have "(rc, buf', rest') = (FLOM_RC_BUFFER_OVERFLOW, b, y @ rest)"
          using run False t by simp
        moreover have "len \<le> length m" using True t(2) arg_cong [OF by1(1), of length] by simp
        ultimately show ?thesis using blen by1(1) by auto
      next
        case no: False
        then have "recv_loop err chunks len (Suc n) b (6 - tag_found b) (y @ rest) = (rc, buf', rest')"
          using run False t by simp
        then show ?thesis
          using less.hyps [OF by1(2) less.prems(1,2) by1(1) y _ less.prems(6)] False no by simp
      qed
    qed
  qed
qed

section \<open>Properties\<close>

text \<open>C8. The receiver cuts the stream exactly behind the message: however the network
  cuts the bytes into pieces, a message that fits the buffer with its terminator is
  received whole and the bytes of the next message stay on the stream; a longer one is
  refused, and in both cases nothing is written beyond the buffer.\<close>

theorem recv_msg_framing:
  assumes "framed m" "\<forall>n. 0 < chunks n" "12 \<le> len"
    and "recv_msg \<in> {flom_tcp_recv_msg, flom_tls_recv_msg}" "recv_msg chunks len (m @ rest) = (rc, buf, rest')"
  shows "buf @ rest' = m @ rest \<and> length buf < len \<and>
    (if length m < len then rc = FLOM_RC_OK \<and> buf = m else rc = FLOM_RC_BUFFER_OVERFLOW)"
proof -
  have "m \<noteq> []" using assms(1) by (auto simp: framed_def)
  then show ?thesis
    using recv_loop_framed [OF assms(1,2), of "[]" m 6 len _ 0 rest rc buf rest'] assms(3-5)
    by (auto simp: flom_tcp_recv_msg_def flom_tls_recv_msg_def stream_recv_msg_def)
qed

text \<open>Two short messages, received three bytes at a time.\<close>

theorem recv_msg_framing_witness:
  "flom_tcp_recv_msg (\<lambda>n. 3) 100 (''<msg step=8></msg>'' @ ''<msg step=16></msg>'')
     = (FLOM_RC_OK, ''<msg step=8></msg>'', ''<msg step=16></msg>'')"
proof -
  let ?m = "''<msg step=8></msg>''" and ?r = "''<msg step=16></msg>''"
  have f: "framed ?m" unfolding framed_def
    by (simp add: closing_tag_def suffix_def)
  obtain rc buf rest' where r: "flom_tcp_recv_msg (\<lambda>n. 3) 100 (?m @ ?r) = (rc, buf, rest')" by (metis prod_cases3)
  have "buf @ rest' = ?m @ ?r \<and> length buf < 100 \<and>
      (if length ?m < 100 then rc = FLOM_RC_OK \<and> buf = ?m else rc = FLOM_RC_BUFFER_OVERFLOW)"
    by (rule recv_msg_framing [of ?m "\<lambda>n. 3" 100 flom_tcp_recv_msg, OF f _ _ _ r]) simp_all
  then show ?thesis unfolding r by auto
qed

end
