(* ===== verification/Conns.thy ===== *)
theory Conns
  imports Msg
begin

text \<open>
  The connection object of \<^verbatim>\<open>src/src/flom_conn.c\<close> and the array of connections of
  \<^verbatim>\<open>src/src/flom_conns.c\<close> that the main thread and every locker thread poll.

  An array owns its connection objects: a connection is in one array at a time and is
  handed over by \<^verbatim>\<open>flom_conns_trns_fd\<close>.  The last step of a connection, which the resources
  read and write, is part of the state \<open>world\<close> of the resources; addresses, TLS data and
  parser contexts are not modelled.  The \<^verbatim>\<open>GPtrArray\<close> is a list.
\<close>

section \<open>Connections\<close>

abbreviation (input) FLOM_RC_CLOSE_ERROR :: int where "FLOM_RC_CLOSE_ERROR \<equiv> - 103"
abbreviation (input) FLOM_NULL_FD :: int where "FLOM_NULL_FD \<equiv> - 1"

datatype flom_conn_state = FLOM_CONN_STATE_DAEMON | FLOM_CONN_STATE_LOCKER | FLOM_CONN_STATE_REMOVE

record flom_conn =
  cn_uid :: conn
  cn_state :: flom_conn_state
  cn_wait :: bool
  cn_sockfd :: int
  cn_msg :: flom_msg

definition flom_conn_init :: "conn \<Rightarrow> int \<Rightarrow> bool \<Rightarrow> flom_conn" where
  "flom_conn_init uid sockfd main_thread =
     \<lparr> cn_uid = uid,
       cn_state = (if main_thread then FLOM_CONN_STATE_DAEMON else FLOM_CONN_STATE_LOCKER),
       cn_wait = False, cn_sockfd = sockfd, cn_msg = flom_msg_init \<rparr>"

text \<open>\<open>close_fails\<close> is the result of \<^verbatim>\<open>close\<close>.\<close>

definition flom_tcp_close :: "bool \<Rightarrow> flom_conn \<Rightarrow> rc \<times> flom_conn" where
  "flom_tcp_close close_fails c =
     (if cn_sockfd c = FLOM_NULL_FD then (FLOM_RC_OK, c)
      else if close_fails then (FLOM_RC_CLOSE_ERROR, c)
      else (FLOM_RC_OK, c\<lparr>cn_sockfd := FLOM_NULL_FD\<rparr>))"

definition flom_conn_terminate :: "bool \<Rightarrow> flom_conn \<Rightarrow> rc \<times> flom_conn" where
  "flom_conn_terminate close_fails c =
     (if cn_state c \<noteq> FLOM_CONN_STATE_REMOVE then
        (let c1 = c\<lparr>cn_state := FLOM_CONN_STATE_REMOVE\<rparr> in
         if cn_sockfd c1 = FLOM_NULL_FD then (FLOM_RC_OK, c1) else flom_tcp_close close_fails c1)
      else (FLOM_RC_OK, c))"

section \<open>The array\<close>

record pollfd =
  pf_fd :: int
  pf_events :: int

record flom_conns =
  cs_poll_array :: "pollfd list option"
  cs_domain :: int
  cs_array :: "flom_conn list"
  cs_last_uid :: nat

definition flom_conns_init :: "int \<Rightarrow> flom_conns" where
  "flom_conns_init domain = \<lparr> cs_poll_array = None, cs_domain = domain, cs_array = [], cs_last_uid = 0 \<rparr>"

definition flom_conns_add_conn :: "flom_conns \<Rightarrow> flom_conn \<Rightarrow> flom_conns" where
  "flom_conns_add_conn cs c = cs\<lparr>cs_array := cs_array cs @ [c]\<rparr>"

definition flom_conns_import :: "flom_conns \<Rightarrow> flom_conn \<Rightarrow> flom_conns" where
  "flom_conns_import cs c = cs\<lparr>cs_array := cs_array cs @ [c]\<rparr>"

definition flom_conns_get_conn :: "flom_conns \<Rightarrow> nat \<Rightarrow> flom_conn option" where
  "flom_conns_get_conn cs i = (if i < length (cs_array cs) then Some (cs_array cs ! i) else None)"

text \<open>\<open>alloc\<close> tells whether \<^verbatim>\<open>realloc\<close> returns memory.\<close>

definition flom_conns_get_fds :: "bool \<Rightarrow> flom_conns \<Rightarrow> pollfd list option \<times> flom_conns" where
  "flom_conns_get_fds alloc cs =
     (if \<not> alloc then (None, cs\<lparr>cs_poll_array := None\<rparr>)
      else (let fds = map (\<lambda>c. \<lparr> pf_fd = cn_sockfd c, pf_events = 0 \<rparr>) (cs_array cs) in
            (Some fds, cs\<lparr>cs_poll_array := Some fds\<rparr>)))"

text \<open>The events are set one by one, up to the first connection without a file descriptor.\<close>

fun set_events_loop :: "int \<Rightarrow> flom_conn list \<Rightarrow> pollfd list \<Rightarrow> rc \<times> pollfd list" where
  "set_events_loop events (c # cs) (p # ps) =
     (if cn_sockfd c \<noteq> FLOM_NULL_FD then
        (case set_events_loop events cs ps of (rc, ps') \<Rightarrow> (rc, p\<lparr>pf_events := events\<rparr> # ps'))
      else (FLOM_RC_OBJ_CORRUPTED, p # ps))"
| "set_events_loop events _ ps = (FLOM_RC_OK, ps)"

definition flom_conns_set_events :: "int \<Rightarrow> flom_conns \<Rightarrow> rc \<times> flom_conns" where
  "flom_conns_set_events events cs =
     (case cs_poll_array cs of
        None \<Rightarrow> (FLOM_RC_OK, cs)
      | Some ps \<Rightarrow>
          (case set_events_loop events (cs_array cs) ps of
             (rc, ps') \<Rightarrow> (rc, cs\<lparr>cs_poll_array := Some ps'\<rparr>)))"

definition flom_conns_close_fd :: "bool \<Rightarrow> flom_conns \<Rightarrow> nat \<Rightarrow> rc \<times> flom_conns" where
  "flom_conns_close_fd close_fails cs i =
     (if i \<ge> length (cs_array cs) then (FLOM_RC_OUT_OF_RANGE, cs)
      else (case flom_conn_terminate close_fails (cs_array cs ! i) of
              (rc, c) \<Rightarrow> (rc, cs\<lparr>cs_array := (cs_array cs)[i := c]\<rparr>)))"

text \<open>\<^verbatim>\<open>g_ptr_array_remove_index_fast\<close>: the last element takes the place of the removed one.\<close>

definition remove_index_fast :: "'a list \<Rightarrow> nat \<Rightarrow> 'a list" where
  "remove_index_fast xs i = butlast (xs[i := last xs])"

definition flom_conns_trns_fd :: "flom_conns \<Rightarrow> nat \<Rightarrow> rc \<times> flom_conn option \<times> flom_conns" where
  "flom_conns_trns_fd cs i =
     (if i \<ge> length (cs_array cs) then (FLOM_RC_OUT_OF_RANGE, None, cs)
      else (FLOM_RC_OK, Some ((cs_array cs ! i)\<lparr>cn_state := FLOM_CONN_STATE_LOCKER\<rparr>),
            cs\<lparr>cs_array := remove_index_fast (cs_array cs) i\<rparr>))"

text \<open>The connections deleted, in order, and the ones left.\<close>

function clean_loop :: "nat \<Rightarrow> flom_conn list \<Rightarrow> flom_conn list \<times> flom_conn list" where
  "clean_loop i cs =
     (if i < length cs then
        (if cn_state (cs ! i) = FLOM_CONN_STATE_REMOVE
         then (case clean_loop i (remove_index_fast cs i) of (del, rest) \<Rightarrow> (cs ! i # del, rest))
         else clean_loop (Suc i) cs)
      else ([], cs))"
  by pat_completeness auto
termination
  by (relation "measure (\<lambda>(i, cs). length cs - i)") (auto simp: remove_index_fast_def)

declare clean_loop.simps [simp del]

definition flom_conns_clean :: "flom_conns \<Rightarrow> rc \<times> flom_conn list \<times> flom_conns" where
  "flom_conns_clean cs =
     (case clean_loop 0 (cs_array cs) of (del, rest) \<Rightarrow> (FLOM_RC_OK, del, cs\<lparr>cs_array := rest\<rparr>))"

definition flom_conns_free :: "(nat \<Rightarrow> bool) \<Rightarrow> flom_conns \<Rightarrow> flom_conns" where
  "flom_conns_free close_fails cs =
     (let closed = fold (\<lambda>i cs. snd (flom_conns_close_fd (close_fails i) cs i)) [0..<length (cs_array cs)] cs in
      case flom_conns_clean closed of (rc, del, cs') \<Rightarrow> cs'\<lparr>cs_poll_array := None, cs_array := []\<rparr>)"

section \<open>Cleaning\<close>

lemma mset_remove_index_fast:
  assumes "i < length xs"
  shows "mset xs = add_mset (xs ! i) (mset (remove_index_fast xs i))"
proof (cases xs rule: rev_cases)
  case (snoc ys l)
  show ?thesis
  proof (cases "i < length ys")
    case True
    then show ?thesis
      using snoc by (simp add: remove_index_fast_def list_update_append1 nth_append mset_update)
  next
    case False
    then have "i = length ys" using assms snoc by simp
    then show ?thesis using snoc by (simp add: remove_index_fast_def)
  qed
qed (use assms in simp)

lemma take_remove_index_fast: "i < length xs \<Longrightarrow> take i (remove_index_fast xs i) = take i xs"
  by (simp add: remove_index_fast_def take_butlast)

lemma length_remove_index_fast [simp]: "length (remove_index_fast xs i) = length xs - 1"
  by (simp add: remove_index_fast_def)

lemma clean_loop_spec:
  assumes "clean_loop i cs = (del, rest)" "i \<le> length cs"
    and "list_all (\<lambda>c. cn_state c \<noteq> FLOM_CONN_STATE_REMOVE) (take i cs)"
  shows "mset cs = mset del + mset rest \<and> list_all (\<lambda>c. cn_state c = FLOM_CONN_STATE_REMOVE) del \<and>
    list_all (\<lambda>c. cn_state c \<noteq> FLOM_CONN_STATE_REMOVE) rest \<and> take i rest = take i cs"
  using assms
proof (induction i cs arbitrary: del rest rule: clean_loop.induct)
  case (1 i cs)
  show ?case
  proof (cases "i < length cs")
    case False
    with 1 show ?thesis by (simp add: clean_loop.simps [of i cs])
  next
    case len: True
    show ?thesis
    proof (cases "cn_state (cs ! i) = FLOM_CONN_STATE_REMOVE")
      case True
      obtain del' where d: "clean_loop i (remove_index_fast cs i) = (del', rest)" "del = cs ! i # del'"
        using 1(3) len True by (auto simp: clean_loop.simps [of i cs] split: prod.splits)
      have "i \<le> length (remove_index_fast cs i)" using len by simp
      from 1(1) [OF len True d(1) this] 1(5) show ?thesis
        using len d(2) True mset_remove_index_fast [OF len] by (simp add: take_remove_index_fast)
    next
      case False
      have "clean_loop (Suc i) cs = (del, rest)" using 1(3) len False by (simp add: clean_loop.simps [of i cs])
      moreover have t: "take (Suc i) cs = take i cs @ [cs ! i]" using len by (simp add: take_Suc_conv_app_nth)
      ultimately have *: "mset cs = mset del + mset rest \<and> list_all (\<lambda>c. cn_state c = FLOM_CONN_STATE_REMOVE) del \<and>
          list_all (\<lambda>c. cn_state c \<noteq> FLOM_CONN_STATE_REMOVE) rest \<and> take (Suc i) rest = take (Suc i) cs"
        using 1(2) [OF len False] 1(5) len False by simp
      then have "take (Suc i) rest = take (Suc i) cs" by simp
      from arg_cong [OF this, of "take i"] have "take i rest = take i cs" by simp
      with * show ?thesis by simp
    qed
  qed
qed

section \<open>Properties\<close>

text \<open>The cleaning of the array deletes exactly the connections that are marked for
  removal and keeps all the others, and a first connection that is not marked keeps its
  place: for a locker thread this is the pipe of the main thread, which it knows by the
  index zero.\<close>

theorem conns_clean_removes_marked:
  assumes "flom_conns_clean cs = (rc, del, cs')"
  shows "rc = FLOM_RC_OK \<and>
    mset del = filter_mset (\<lambda>c. cn_state c = FLOM_CONN_STATE_REMOVE) (mset (cs_array cs)) \<and>
    mset (cs_array cs') = filter_mset (\<lambda>c. cn_state c \<noteq> FLOM_CONN_STATE_REMOVE) (mset (cs_array cs)) \<and>
    (if cs_array cs \<noteq> [] \<and> cn_state (hd (cs_array cs)) \<noteq> FLOM_CONN_STATE_REMOVE
     then cs_array cs' \<noteq> [] \<and> hd (cs_array cs') = hd (cs_array cs) else True)"
proof -
  let ?rm = "\<lambda>c. cn_state c = FLOM_CONN_STATE_REMOVE"
  have l: "clean_loop 0 (cs_array cs) = (del, cs_array cs')" and rc: "rc = FLOM_RC_OK"
    using assms by (auto simp: flom_conns_clean_def split: prod.splits)
  have s: "mset (cs_array cs) = mset del + mset (cs_array cs')" "list_all ?rm del"
    "list_all (\<lambda>c. \<not> ?rm c) (cs_array cs')"
    using clean_loop_spec [OF l] by simp_all
  have d: "filter ?rm del = del" "filter (\<lambda>c. \<not> ?rm c) del = []"
    "filter ?rm (cs_array cs') = []" "filter (\<lambda>c. \<not> ?rm c) (cs_array cs') = cs_array cs'"
    using s(2,3) by (auto simp: filter_empty_conv list_all_iff filter_id_conv)
  have m: "filter_mset ?rm (mset (cs_array cs)) = mset del"
    "filter_mset (\<lambda>c. \<not> ?rm c) (mset (cs_array cs)) = mset (cs_array cs')"
    unfolding s(1) by (simp_all only: filter_union_mset mset_filter [symmetric] d) simp_all
  have "cs_array cs' \<noteq> [] \<and> hd (cs_array cs') = hd (cs_array cs)"
    if ne: "cs_array cs \<noteq> []" and keep: "\<not> ?rm (hd (cs_array cs))"
  proof -
    obtain c r where c: "cs_array cs = c # r" using ne by (cases "cs_array cs") auto
    then have "clean_loop 1 (cs_array cs) = (del, cs_array cs')"
      using l keep by (simp add: clean_loop.simps [of 0 "c # r"])
    from clean_loop_spec [OF this] c keep have "take 1 (cs_array cs') = [c]" by simp
    then show ?thesis using c by (cases "cs_array cs'") auto
  qed
  then show ?thesis using m rc by auto
qed

text \<open>The pipe and three connections, two of them marked.\<close>

definition sample_conns :: flom_conns where
  "sample_conns = (flom_conns_init 1)\<lparr>cs_array :=
     [flom_conn_init 0 5 False, (flom_conn_init 1 6 False)\<lparr>cn_state := FLOM_CONN_STATE_REMOVE\<rparr>,
      flom_conn_init 2 7 False, (flom_conn_init 3 8 False)\<lparr>cn_state := FLOM_CONN_STATE_REMOVE\<rparr>]\<rparr>"

theorem conns_clean_removes_marked_witness:
  "\<exists>del cs'. flom_conns_clean sample_conns = (FLOM_RC_OK, del, cs') \<and> map cn_uid (cs_array cs') = [0, 2] \<and>
     mset (cs_array cs') = filter_mset (\<lambda>c. cn_state c \<noteq> FLOM_CONN_STATE_REMOVE) (mset (cs_array sample_conns))"
proof -
  obtain rc del cs' where c: "flom_conns_clean sample_conns = (rc, del, cs')" by (metis prod_cases3)
  have "map cn_uid (cs_array (snd (snd (flom_conns_clean sample_conns)))) = [0, 2]" by code_simp
  then show ?thesis using conns_clean_removes_marked [OF c] c by auto
qed

text \<open>A connection in use has a file descriptor.\<close>

definition conns_inv :: "flom_conns \<Rightarrow> bool" where
  "conns_inv cs \<longleftrightarrow> (\<forall>c \<in> set (cs_array cs). cn_state c = FLOM_CONN_STATE_REMOVE \<or> cn_sockfd c \<noteq> FLOM_NULL_FD)"

lemma conns_inv_add: "conns_inv cs \<Longrightarrow> cn_sockfd c \<noteq> FLOM_NULL_FD \<Longrightarrow> conns_inv (flom_conns_add_conn cs c)"
  by (auto simp: conns_inv_def flom_conns_add_conn_def)

lemma terminate_state: "flom_conn_terminate f c = (rc, c') \<Longrightarrow> cn_state c' = FLOM_CONN_STATE_REMOVE"
  by (auto simp: flom_conn_terminate_def flom_tcp_close_def Let_def split: if_splits)

lemma conns_inv_close: "conns_inv cs \<Longrightarrow> conns_inv (snd (flom_conns_close_fd f cs i))"
  using terminate_state [of f "cs_array cs ! i"]
  by (auto simp: conns_inv_def flom_conns_close_fd_def split: prod.splits dest!: set_update_subset_insert [THEN subsetD])

lemma set_remove_index_fast: "i < length xs \<Longrightarrow> set (remove_index_fast xs i) \<subseteq> set xs"
  using mset_remove_index_fast [of i xs] by (metis set_mset_mset set_mset_add_mset_insert subset_insertI)

lemma conns_inv_trns: "conns_inv cs \<Longrightarrow> conns_inv (snd (snd (flom_conns_trns_fd cs i)))"
  using set_remove_index_fast [of i "cs_array cs"]
  by (cases "i < length (cs_array cs)") (auto simp: conns_inv_def flom_conns_trns_fd_def dest: subsetD)

lemma set_events_all:
  "list_all (\<lambda>c. cn_sockfd c \<noteq> FLOM_NULL_FD) cs \<Longrightarrow>
   set_events_loop ev cs (map (\<lambda>c. \<lparr> pf_fd = cn_sockfd c, pf_events = 0 \<rparr>) cs) =
     (FLOM_RC_OK, map (\<lambda>c. \<lparr> pf_fd = cn_sockfd c, pf_events = ev \<rparr>) cs)"
  by (induction cs) auto

text \<open>The beginning of a turn of a polling loop never meets a closed connection: with any
  sequence of additions, closings, failed closings and hand overs before it, the cleaning
  of the array, the construction of the poll array and the setting of the events succeed,
  and the poll array has exactly the open file descriptors of the array, in its order.\<close>

theorem poll_setup_succeeds:
  assumes "cs = fold (\<lambda>op cs. case op of
        Inl c \<Rightarrow> flom_conns_add_conn cs c
      | Inr (close, f, i) \<Rightarrow> if close then snd (flom_conns_close_fd f cs i)
                            else snd (snd (flom_conns_trns_fd cs i))) ops (flom_conns_init domain)"
    and "list_all (\<lambda>op. case op of Inl c \<Rightarrow> cn_sockfd c \<noteq> FLOM_NULL_FD | Inr _ \<Rightarrow> True) ops"
    and "flom_conns_clean cs = (rc1, del, cs1)" "flom_conns_get_fds True cs1 = (fds, cs2)"
    and "flom_conns_set_events POLLIN cs2 = (rc3, cs3)"
  shows "rc1 = FLOM_RC_OK \<and> rc3 = FLOM_RC_OK \<and>
    cs_poll_array cs3 = Some (map (\<lambda>c. \<lparr> pf_fd = cn_sockfd c, pf_events = POLLIN \<rparr>) (cs_array cs3)) \<and>
    list_all (\<lambda>p. pf_fd p \<noteq> FLOM_NULL_FD) (the (cs_poll_array cs3))"
proof -
  have "conns_inv (fold (\<lambda>op cs. case op of
        Inl c \<Rightarrow> flom_conns_add_conn cs c
      | Inr (close, f, i) \<Rightarrow> if close then snd (flom_conns_close_fd f cs i)
                            else snd (snd (flom_conns_trns_fd cs i))) ops cs0)" if "conns_inv cs0" for cs0
    using assms(2) that
    by (induction ops arbitrary: cs0)
       (auto simp: conns_inv_add conns_inv_close conns_inv_trns split: sum.splits prod.splits)
  moreover have "conns_inv (flom_conns_init domain)" by (simp add: conns_inv_def flom_conns_init_def)
  ultimately have inv: "conns_inv cs" unfolding assms(1) by blast
  have l: "clean_loop 0 (cs_array cs) = (del, cs_array cs1)" "rc1 = FLOM_RC_OK"
    using assms(3) by (auto simp: flom_conns_clean_def split: prod.splits)
  have sp: "mset (cs_array cs) = mset del + mset (cs_array cs1)"
    "list_all (\<lambda>c. cn_state c \<noteq> FLOM_CONN_STATE_REMOVE) (cs_array cs1)"
    using clean_loop_spec [OF l(1)] by simp_all
  have "set (cs_array cs1) \<subseteq> set (cs_array cs)"
    using arg_cong [OF sp(1), of set_mset] by auto
  then have open1: "list_all (\<lambda>c. cn_sockfd c \<noteq> FLOM_NULL_FD) (cs_array cs1)"
    using inv sp(2) by (auto simp: conns_inv_def list_all_iff)
  then show ?thesis
    using assms(4,5) l(2) set_events_all [OF open1, of POLLIN]
    by (auto simp: flom_conns_get_fds_def flom_conns_set_events_def Let_def list_all_iff)
qed

theorem poll_setup_succeeds_witness:
  "let ops = [Inl (flom_conn_init 0 5 False), Inl (flom_conn_init 1 6 False), Inl (flom_conn_init 2 7 False),
              Inr (True, True, 1)];
       cs = fold (\<lambda>op cs. case op of
          Inl c \<Rightarrow> flom_conns_add_conn cs c
        | Inr (close, f, i) \<Rightarrow> if close then snd (flom_conns_close_fd f cs i)
                              else snd (snd (flom_conns_trns_fd cs i))) ops (flom_conns_init 1);
       cs1 = snd (snd (flom_conns_clean cs)); cs2 = snd (flom_conns_get_fds True cs1) in
   fst (flom_conns_set_events 1 cs2) = FLOM_RC_OK \<and> map cn_uid (cs_array cs2) = [0, 2]"
proof -
  let ?ops = "[Inl (flom_conn_init 0 5 False), Inl (flom_conn_init 1 6 False), Inl (flom_conn_init 2 7 False),
              Inr (True, True, 1)] :: (flom_conn + bool \<times> bool \<times> nat) list"
  let ?cs = "fold (\<lambda>op cs. case op of
          Inl c \<Rightarrow> flom_conns_add_conn cs c
        | Inr (close, f, i) \<Rightarrow> if close then snd (flom_conns_close_fd f cs i)
                              else snd (snd (flom_conns_trns_fd cs i))) ?ops (flom_conns_init 1)"
  let ?c = "flom_conns_clean ?cs" let ?g = "flom_conns_get_fds True (snd (snd ?c))"
  let ?e = "flom_conns_set_events 1 (snd ?g)"
  have o: "list_all (\<lambda>op. case op of Inl c \<Rightarrow> cn_sockfd c \<noteq> FLOM_NULL_FD | Inr _ \<Rightarrow> True) ?ops"
    by (simp add: flom_conn_init_def)
  have u: "map cn_uid (cs_array (snd ?g)) = [0, 2]" by code_simp
  have "fst ?c = FLOM_RC_OK \<and> fst ?e = FLOM_RC_OK \<and>
      cs_poll_array (snd ?e) = Some (map (\<lambda>c. \<lparr> pf_fd = cn_sockfd c, pf_events = 1 \<rparr>) (cs_array (snd ?e))) \<and>
      list_all (\<lambda>p. pf_fd p \<noteq> FLOM_NULL_FD) (the (cs_poll_array (snd ?e)))"
    by (rule poll_setup_succeeds [OF refl o, of _ _ "fst (snd ?c)" "snd (snd ?c)" "fst ?g" "snd ?g"])
       (simp_all only: prod.collapse)
  then show ?thesis using u unfolding Let_def by blast
qed

end
