(* ===== verification/Net.thy ===== *)
theory Net
  imports Tcp Conns
begin

text \<open>
  Sending and receiving on a connection: \<^verbatim>\<open>flom_tcp_send\<close>, \<^verbatim>\<open>flom_tcp_recv\<close>
  (\<^verbatim>\<open>src/src/flom_tcp.c\<close>), \<^verbatim>\<open>flom_tls_send\<close> (\<^verbatim>\<open>src/src/flom_tls.c\<close>) and the two operations
  of a connection that choose between them, \<^verbatim>\<open>flom_conn_send\<close> and \<^verbatim>\<open>flom_conn_recv\<close>
  (\<^verbatim>\<open>src/src/flom_conn.c\<close>).  What the system calls return is a parameter.
\<close>

abbreviation (input) FLOM_RC_GETSOCKOPT_ERROR :: int where "FLOM_RC_GETSOCKOPT_ERROR \<equiv> - 114"
abbreviation (input) FLOM_RC_POLL_ERROR :: int where "FLOM_RC_POLL_ERROR \<equiv> - 123"
abbreviation (input) FLOM_RC_SSL_WRITE_ERROR :: int where "FLOM_RC_SSL_WRITE_ERROR \<equiv> - 412"

datatype socket_type = SOCK_STREAM | SOCK_DGRAM | SOCK_OTHER

section \<open>Sending\<close>

text \<open>
  The results of \<^verbatim>\<open>getsockopt\<close> (whether it fails, whether the pending error is \<^verbatim>\<open>EPIPE\<close> or
  \<^verbatim>\<open>ECONNRESET\<close>) and of \<^verbatim>\<open>send\<close> or \<^verbatim>\<open>SSL_write\<close> (the bytes written).
\<close>

record send_calls =
  sc_getsockopt_fails :: bool
  sc_peer_closed :: bool
  sc_written :: int

definition flom_tcp_send :: "send_calls \<Rightarrow> nat \<Rightarrow> rc" where
  "flom_tcp_send k len =
     (if sc_getsockopt_fails k then FLOM_RC_GETSOCKOPT_ERROR
      else if sc_peer_closed k then FLOM_RC_CONNECTION_CLOSED
      else if int len \<noteq> sc_written k then FLOM_RC_SEND_ERROR
      else FLOM_RC_OK)"

definition flom_tls_send :: "send_calls \<Rightarrow> nat \<Rightarrow> rc" where
  "flom_tls_send k len =
     (if 0 \<ge> sc_written k then FLOM_RC_SSL_WRITE_ERROR
      else if sc_written k \<noteq> int len then FLOM_RC_SEND_ERROR
      else FLOM_RC_OK)"

definition conn_send :: "bool \<Rightarrow> send_calls \<Rightarrow> nat \<Rightarrow> rc" where
  "conn_send tls k len = (if tls then flom_tls_send k len else flom_tcp_send k len)"

section \<open>Receiving\<close>

text \<open>
  The results of \<^verbatim>\<open>poll\<close>, of \<^verbatim>\<open>recvfrom\<close> (\<open>None\<close> for an error) and the bytes that a stream still
  delivers, with the sizes of the pieces.
\<close>

record recv_calls =
  rv_poll :: int
  rv_tls :: bool
  rv_type :: socket_type
  rv_datagram :: "string option"
  rv_chunks :: "nat \<Rightarrow> nat"
  rv_stream :: string

text \<open>
  The reason code, the number of bytes, the bytes and the rest of the stream.  The error of
  \<^verbatim>\<open>recvfrom\<close> is compared as an unsigned number: it is not noticed, and the number of bytes
  is the largest one.
\<close>

definition size_t_max :: int where "size_t_max = 18446744073709551615"

definition flom_tcp_recv :: "recv_calls \<Rightarrow> nat \<Rightarrow> rc \<times> int \<times> string \<times> string" where
  "flom_tcp_recv k len =
     (case rv_type k of
        SOCK_STREAM \<Rightarrow>
          (case flom_tcp_recv_msg (rv_chunks k) len (rv_stream k) of
             (rc, buf, rest) \<Rightarrow> (rc, int (length buf), buf, rest))
      | SOCK_DGRAM \<Rightarrow>
          (case rv_datagram k of
             None \<Rightarrow> (FLOM_RC_OK, size_t_max, [], rv_stream k)
           | Some d \<Rightarrow> (FLOM_RC_OK, int (length (take len d)), take len d, rv_stream k))
      | SOCK_OTHER \<Rightarrow> (FLOM_RC_INVALID_OPTION, 0, [], rv_stream k))"

definition flom_conn_recv :: "int \<Rightarrow> recv_calls \<Rightarrow> nat \<Rightarrow> rc \<times> int \<times> string \<times> string" where
  "flom_conn_recv timeout k len =
     (if timeout > 0 \<and> rv_poll k = - 1 then (FLOM_RC_POLL_ERROR, 0, [], rv_stream k)
      else if timeout > 0 \<and> rv_poll k = 0 then (FLOM_RC_NETWORK_TIMEOUT, 0, [], rv_stream k)
      else if timeout > 0 \<and> rv_poll k \<noteq> 1 then (FLOM_RC_INTERNAL_ERROR, 0, [], rv_stream k)
      else if rv_tls k then
        (case flom_tls_recv_msg (rv_chunks k) len (rv_stream k) of
           (rc, buf, rest) \<Rightarrow> (rc, int (length buf), buf, rest))
      else flom_tcp_recv k len)"

section \<open>Properties\<close>

text \<open>A message that is sent completely is received as one message, whatever the pieces.\<close>

lemma conn_recv_one_message:
  assumes "framed m" "rv_stream k = m @ rest" "\<forall>n. 0 < rv_chunks k n" "length m < len" "12 \<le> len"
    and "timeout > 0 \<Longrightarrow> rv_poll k = 1" "rv_tls k \<or> rv_type k = SOCK_STREAM"
  shows "flom_conn_recv timeout k len = (FLOM_RC_OK, int (length m), m, rest)"
proof -
  have ne: "m \<noteq> []" using assms(1) by (auto simp: framed_def)
  have "stream_recv_msg err (rv_chunks k) len (m @ rest) = (FLOM_RC_OK, m, rest)" for err
  proof -
    obtain rc buf rest' where r: "recv_loop err (rv_chunks k) len 0 [] 6 (m @ rest) = (rc, buf, rest')"
      by (metis prod_cases3)
    from recv_loop_framed [OF assms(1,3) _ ne _ assms(5) r] assms(4) have
      "rest' = rest" "rc = FLOM_RC_OK" "buf = m" by auto
    then show ?thesis using r assms(5) by (simp add: stream_recv_msg_def)
  qed
  then show ?thesis
    using assms(2,6,7) by (auto simp: flom_conn_recv_def flom_tcp_recv_def flom_tls_recv_msg_def flom_tcp_recv_msg_def)
qed

end
