(* ===== verification/Locker.thy ===== *)
theory Locker
  imports Clients Net
begin

text \<open>
  The locker thread, \<^verbatim>\<open>src/src/flom_locker.c\<close> and \<^verbatim>\<open>src/src/flom_locker.h\<close>: one thread for
  each resource.  It owns an array of connections whose first one is the pipe of the main
  thread (a new client arrives there as a token and a pointer), polls them, hands the
  requests to the resource, sends the answers, and cleans up for the clients that go.

  The state \<open>locker_st\<close> is the locker object, the array of connections, the state of the
  connections the resources see (\<open>world\<close>) and the variable \<^verbatim>\<open>next_deadline\<close>.  What one turn
  of the loop gets from outside (the clock, the results of \<^verbatim>\<open>poll\<close>, the token read from the
  pipe, the bytes received and the events of the XML parser for them, the failures of
  \<^verbatim>\<open>close\<close>, of the allocator and of the network) is the record \<open>locker_input\<close>.
\<close>

section \<open>The locker object\<close>

abbreviation (input) FLOM_RC_READ_ERROR :: int where "FLOM_RC_READ_ERROR \<equiv> - 124"
abbreviation (input) FLOM_RC_G_MARKUP_PARSE_CONTEXT_PARSE_ERROR :: int where
  "FLOM_RC_G_MARKUP_PARSE_CONTEXT_PARSE_ERROR \<equiv> - 206"

abbreviation (input) FLOM_RC_NEW_OBJ :: int where "FLOM_RC_NEW_OBJ \<equiv> - 21"
abbreviation (input) FLOM_NETWORK_WAIT_TIMEOUT :: int where "FLOM_NETWORK_WAIT_TIMEOUT \<equiv> - 1"
abbreviation (input) POLLIN :: int where "POLLIN \<equiv> 1"
abbreviation (input) AF_UNIX :: int where "AF_UNIX \<equiv> 1"

definition FLOM_LOCKER_POLL_TIMEOUT :: int where "FLOM_LOCKER_POLL_TIMEOUT = 1000"
definition FLOM_LOCKER_MAX_IDLE_PERIODS :: int where "FLOM_LOCKER_MAX_IDLE_PERIODS = 1"
definition FLOM_MSG_BUFFER_SIZE :: nat where "FLOM_MSG_BUFFER_SIZE = 512"

text \<open>\<^verbatim>\<open>struct flom_locker_s\<close>; the resource is absent until it has been initialized.\<close>

record flom_locker =
  lk_thread :: "nat option"
  lk_uid :: nat
  lk_write_pipe :: int
  lk_read_pipe :: int
  lk_write_sequence :: int
  lk_read_sequence :: int
  lk_idle_periods :: int
  lk_idle_lifespan :: int
  lk_resource :: "flom_resource option"

text \<open>The field \<^verbatim>\<open>idle_lifespan\<close> is not initialized here: its value is the parameter.\<close>

definition flom_locker_init :: "int \<Rightarrow> flom_locker" where
  "flom_locker_init lifespan =
     \<lparr> lk_thread = None, lk_uid = 0, lk_write_pipe = FLOM_NULL_FD, lk_read_pipe = FLOM_NULL_FD,
       lk_write_sequence = 0, lk_read_sequence = 0, lk_idle_periods = 0, lk_idle_lifespan = lifespan,
       lk_resource = None \<rparr>"

text \<open>\<^verbatim>\<open>struct flom_locker_token_s\<close>: what announces a new client on the pipe.\<close>

record flom_locker_token =
  tk_domain :: int
  tk_client_fd :: int
  tk_sequence :: int

record locker_st =
  ls_locker :: flom_locker
  ls_conns :: flom_conns
  ls_world :: world
  ls_deadline :: timeval

record revents =
  re_in :: bool
  re_err :: bool
  re_hup :: bool

record locker_input =
  li_alloc :: bool
  li_now :: timeval
  li_ready :: int
  li_revents :: "nat \<Rightarrow> revents"
  li_env :: "nat \<Rightarrow> env"
  li_close_fails :: "nat \<Rightarrow> bool"
  li_token :: "flom_locker_token option"
  li_new_conn :: "flom_conn option"
  li_recv :: "nat \<Rightarrow> recv_calls"
  li_markup :: "nat \<Rightarrow> string \<Rightarrow> markup_event list \<times> bool"
  li_unb64 :: "string \<Rightarrow> string option"

section \<open>The methods of the resource\<close>

text \<open>
  The three methods on the state of the thread.  The variable \<^verbatim>\<open>next_deadline\<close> is passed by
  reference; the timestamp resource, the only one that writes it, has it in its context.
\<close>

fun put_deadline :: "timeval \<Rightarrow> flom_resource \<Rightarrow> flom_resource" where
  "put_deadline d (Timestamp s) = Timestamp (s\<lparr>tc_deadline := d\<rparr>)"
| "put_deadline d r = r"

fun get_deadline :: "timeval \<Rightarrow> flom_resource \<Rightarrow> timeval" where
  "get_deadline d (Timestamp s) = tc_deadline s"
| "get_deadline d r = d"

definition ls_resource :: "locker_st \<Rightarrow> flom_resource" where
  "ls_resource s = the (lk_resource (ls_locker s))"

definition set_resource :: "flom_resource \<Rightarrow> world \<Rightarrow> locker_st \<Rightarrow> locker_st" where
  "set_resource r w s =
     s\<lparr>ls_locker := (ls_locker s)\<lparr>lk_resource := Some r\<rparr>, ls_world := w,
       ls_deadline := get_deadline (ls_deadline s) r\<rparr>"

definition locker_inmsg :: "clock \<Rightarrow> env \<Rightarrow> conn \<Rightarrow> flom_msg \<Rightarrow> locker_st \<Rightarrow> rc \<times> flom_msg \<times> locker_st" where
  "locker_inmsg ck e c m s =
     (case flom_resource_inmsg ck e (put_deadline (ls_deadline s) (ls_resource s)) c m (ls_world s) of
        (rc, r, m', w) \<Rightarrow> (rc, m', set_resource r w s))"

definition locker_clean :: "clock \<Rightarrow> env \<Rightarrow> conn \<Rightarrow> locker_st \<Rightarrow> rc \<times> locker_st" where
  "locker_clean ck e c s =
     (case flom_resource_clean ck e (put_deadline (ls_deadline s) (ls_resource s)) c (ls_world s) of
        (rc, r, w) \<Rightarrow> (rc, set_resource r w s))"

definition locker_timeout :: "clock \<Rightarrow> env \<Rightarrow> locker_st \<Rightarrow> rc \<times> locker_st" where
  "locker_timeout ck e s =
     (case flom_resource_timeout ck e (put_deadline (ls_deadline s) (ls_resource s)) (ls_world s) of
        (rc, r, w) \<Rightarrow> (rc, set_resource r w s))"

section \<open>Connections of the thread\<close>

definition put_msg :: "nat \<Rightarrow> flom_msg \<Rightarrow> locker_st \<Rightarrow> locker_st" where
  "put_msg i m s =
     s\<lparr>ls_conns := (ls_conns s)\<lparr>cs_array := (cs_array (ls_conns s))[i := (cs_array (ls_conns s) ! i)\<lparr>cn_msg := m\<rparr>]\<rparr>\<rparr>"

definition set_last_step :: "conn \<Rightarrow> int \<Rightarrow> locker_st \<Rightarrow> locker_st" where
  "set_last_step c step s = s\<lparr>ls_world := (ls_world s)\<lparr>w_last_step := (w_last_step (ls_world s))(c := step)\<rparr>\<rparr>"

definition locker_close :: "locker_input \<Rightarrow> nat \<Rightarrow> locker_st \<Rightarrow> rc \<times> locker_st" where
  "locker_close inp i s =
     (case flom_conns_close_fd (li_close_fails inp i) (ls_conns s) i of (rc, cs) \<Rightarrow> (rc, s\<lparr>ls_conns := cs\<rparr>))"

text \<open>A connection is closed and its locks and queued requests are cleaned.\<close>

definition locker_drop :: "clock \<Rightarrow> locker_input \<Rightarrow> nat \<Rightarrow> locker_st \<Rightarrow> rc \<times> locker_st" where
  "locker_drop ck inp i s =
     (case locker_close inp i s of
        (rc, s1) \<Rightarrow>
          if rc \<noteq> FLOM_RC_OK then (rc, s1)
          else locker_clean ck (li_env inp i) (cn_uid (cs_array (ls_conns s1) ! i)) s1)"

section \<open>A message\<close>

text \<open>
  The second half of \<^verbatim>\<open>flom_locker_loop_pollin\<close>: the message of the connection with index \<open>j\<close>
  is handed to the resource, the answer is sent, and the message is reset.  A failing
  serialization is not in the list of the exceptions and gives the internal error; a failing
  \<^verbatim>\<open>send\<close> is tolerated.
\<close>

definition locker_process :: "clock \<Rightarrow> env \<Rightarrow> nat \<Rightarrow> locker_st \<Rightarrow> rc \<times> locker_st" where
  "locker_process ck e j s =
     (let c = cn_uid (cs_array (ls_conns s) ! j);
          m = cn_msg (cs_array (ls_conns s) ! j);
          finish = (\<lambda>m s. case flom_msg_free m of
                            (rc, m') \<Rightarrow> if rc \<noteq> FLOM_RC_OK then (rc, put_msg j m' s)
                                       else (FLOM_RC_OK, put_msg j flom_msg_init s)) in
      if msg_verb m = FLOM_MSG_VERB_LOCK \<or> msg_verb m = FLOM_MSG_VERB_UNLOCK then
        (case locker_inmsg ck e c m s of
           (rc, m1, s1) \<Rightarrow>
             if rc \<noteq> FLOM_RC_OK then (rc, put_msg j m1 s1)
             else if msg_state m1 = FLOM_MSG_STATE_READY then
               (case flom_msg_serialize (e_b64 e) (e_old e) m1 FLOM_MSG_BUFFER_SIZE of
                  Inl rc \<Rightarrow> (FLOM_RC_INTERNAL_ERROR, put_msg j m1 s1)
                | Inr text \<Rightarrow>
                    (case flom_conn_send e c m1 (ls_world s1) of
                       (rc, w) \<Rightarrow>
                         (let s2 = s1\<lparr>ls_world := w\<rparr> in
                          if rc \<noteq> FLOM_RC_SEND_ERROR \<and> rc \<noteq> FLOM_RC_OK then (rc, put_msg j m1 s2)
                          else finish m1 (set_last_step c (msg_step m1) s2))))
             else finish m1 s1)
      else (FLOM_RC_PROTOCOL_ERROR, s))"

text \<open>
  \<^verbatim>\<open>flom_locker_loop_pollin\<close>: the reason code, whether the array of connections has to be
  refreshed, the state.  The index zero is the pipe of the main thread.
\<close>

definition locker_new_client :: "clock \<Rightarrow> locker_input \<Rightarrow> locker_st \<Rightarrow> rc \<times> bool \<times> locker_st" where
  "locker_new_client ck inp s =
     (case li_token inp of
        None \<Rightarrow> (FLOM_RC_READ_ERROR, False, s)
      | Some flt \<Rightarrow>
          (let s1 = s\<lparr>ls_conns := (ls_conns s)\<lparr>cs_domain := tk_domain flt\<rparr>\<rparr> in
           case li_new_conn inp of
             None \<Rightarrow> (FLOM_RC_READ_ERROR, False, s1)
           | Some new_conn \<Rightarrow>
               (let j = length (cs_array (ls_conns s1));
                    s2 = s1\<lparr>ls_conns := flom_conns_import (ls_conns s1) new_conn,
                            ls_locker := (ls_locker s1)\<lparr>lk_read_sequence := tk_sequence flt\<rparr>\<rparr> in
                case locker_process ck (li_env inp 0) j s2 of (rc, s3) \<Rightarrow> (rc, False, s3))))"

definition locker_data :: "clock \<Rightarrow> locker_input \<Rightarrow> nat \<Rightarrow> locker_st \<Rightarrow> rc \<times> bool \<times> locker_st" where
  "locker_data ck inp i s =
     (let curr_conn = cs_array (ls_conns s) ! i in
      case flom_conn_recv FLOM_NETWORK_WAIT_TIMEOUT (li_recv inp i) FLOM_MSG_BUFFER_SIZE of
        (rc, read_bytes, buffer, rest) \<Rightarrow>
          if rc \<noteq> FLOM_RC_OK then (rc, False, s)
          else if read_bytes = 0 then
            (case locker_close inp i s of
               (rc, s1) \<Rightarrow>
                 if rc \<noteq> FLOM_RC_OK then (rc, False, s1)
                 else (case locker_clean ck (li_env inp i) (cn_uid curr_conn) s1 of (rc, s2) \<Rightarrow> (rc, True, s2)))
          else
            (case li_markup inp i buffer of
               (events, parsed) \<Rightarrow>
                 (let msg = flom_msg_deserialize (li_unb64 inp) events (cn_msg curr_conn);
                      s1 = put_msg i msg s in
                  if \<not> parsed then (FLOM_RC_G_MARKUP_PARSE_CONTEXT_PARSE_ERROR, False, s1)
                  else
                    (let s2 = set_last_step (cn_uid curr_conn) (msg_step msg) s1 in
                     case (if msg_state msg = FLOM_MSG_STATE_INVALID then locker_close inp i s2
                           else (FLOM_RC_OK, s2)) of
                       (rc, s3) \<Rightarrow>
                         if rc \<noteq> FLOM_RC_OK then (rc, False, s3)
                         else (case locker_process ck (li_env inp i) i s3 of (rc, s4) \<Rightarrow> (rc, False, s4))))))"

definition flom_locker_loop_pollin :: "clock \<Rightarrow> locker_input \<Rightarrow> nat \<Rightarrow> locker_st \<Rightarrow> rc \<times> bool \<times> locker_st" where
  "flom_locker_loop_pollin ck inp i s =
     (case flom_conns_get_conn (ls_conns s) i of
        None \<Rightarrow> (FLOM_RC_NULL_OBJECT, False, s)
      | Some curr_conn \<Rightarrow>
          (let s1 = s\<lparr>ls_locker := (ls_locker s)\<lparr>lk_idle_periods := 0\<rparr>\<rparr> in
           if i = 0 then locker_new_client ck inp s1 else locker_data ck inp i s1))"

section \<open>The loop\<close>

text \<open>
  The milliseconds to the deadline, rounded up: \<^verbatim>\<open>/\<close> rounds towards zero and the sum of
  \<^verbatim>\<open>long\<close> numbers is converted to \<^verbatim>\<open>int\<close>.
\<close>

definition flom_locker_loop_get_timeout :: "timeval \<Rightarrow> timeval \<Rightarrow> int" where
  "flom_locker_loop_get_timeout next_deadline now =
     to_gint ((fst next_deadline - fst now) * 1000 + c_div (snd next_deadline - snd now) 1000 + 1)"

definition locker_poll_timeout :: "locker_st \<Rightarrow> timeval \<Rightarrow> int" where
  "locker_poll_timeout s now =
     (let timeout = flom_locker_loop_get_timeout (ls_deadline s) now; lk = ls_locker s in
      if 0 \<le> timeout then timeout
      else if lk_idle_periods lk > FLOM_LOCKER_MAX_IDLE_PERIODS then - 1
      else if lk_idle_periods lk > 0 then FLOM_LOCKER_POLL_TIMEOUT
      else if lk_idle_periods lk = 0 \<and> lk_idle_lifespan lk > 0 then lk_idle_lifespan lk
      else FLOM_LOCKER_POLL_TIMEOUT)"

text \<open>
  The scan of the file descriptors: what is done for one of them, with \<open>True\<close> when the array of
  connections has changed and the scan ends; \<open>Inl\<close> ends the thread.
\<close>

definition scan_break :: "rc \<times> locker_st \<Rightarrow> rc \<times> locker_st + bool \<times> locker_st" where
  "scan_break x = (case x of (rc, s) \<Rightarrow> if rc \<noteq> FLOM_RC_OK then Inl (rc, s) else Inr (True, s))"

definition locker_scan_fd :: "clock \<Rightarrow> locker_input \<Rightarrow> nat \<Rightarrow> locker_st \<Rightarrow> rc \<times> locker_st + bool \<times> locker_st" where
  "locker_scan_fd ck inp i s =
     (let re = li_revents inp i in
      if re_err re then scan_break (locker_drop ck inp i s)
      else
        (case (if re_in re then flom_locker_loop_pollin ck inp i s else (FLOM_RC_OK, False, s)) of
           (rc, refresh_conns, s1) \<Rightarrow>
             if rc \<noteq> FLOM_RC_OK then scan_break (locker_drop ck inp i s1)
             else if refresh_conns then Inr (True, s1)
             else if re_hup re then
               (if i \<noteq> 0 then scan_break (locker_drop ck inp i s1)
                else scan_break
                  (case locker_close inp i s1 of
                     (rc, s2) \<Rightarrow> (rc, if rc \<noteq> FLOM_RC_OK then s2
                                     else s2\<lparr>ls_locker := (ls_locker s2)\<lparr>lk_read_pipe := FLOM_NULL_FD\<rparr>\<rparr>)))
             else Inr (False, s1)))"

fun locker_scan :: "clock \<Rightarrow> locker_input \<Rightarrow> nat list \<Rightarrow> locker_st \<Rightarrow> rc \<times> locker_st + locker_st" where
  "locker_scan ck inp [] s = Inr s"
| "locker_scan ck inp (i # is) s =
     (case locker_scan_fd ck inp i s of
        Inl x \<Rightarrow> Inl x
      | Inr (stop, s1) \<Rightarrow> if stop then Inr s1 else locker_scan ck inp is s1)"

definition locker_idle :: "clock \<Rightarrow> locker_input \<Rightarrow> locker_st \<Rightarrow> rc \<times> locker_st + locker_st" where
  "locker_idle ck inp s =
     (case locker_timeout ck (li_env inp 0) s of
        (rc, s1) \<Rightarrow>
          if rc \<noteq> FLOM_RC_OK then Inl (rc, s1)
          else if length (cs_array (ls_conns s1)) = 1
               then Inr (s1\<lparr>ls_locker := (ls_locker s1)\<lparr>lk_idle_periods := lk_idle_periods (ls_locker s1) + 1\<rparr>\<rparr>)
          else Inr s1)"

text \<open>The beginning of a turn: the array is cleaned and the poll array is filled.\<close>

definition locker_setup :: "locker_input \<Rightarrow> locker_st \<Rightarrow> rc \<times> locker_st + locker_st" where
  "locker_setup inp s =
     (case flom_conns_clean (ls_conns s) of
        (rc, del, cs1) \<Rightarrow>
          if rc \<noteq> FLOM_RC_OK then Inl (rc, s\<lparr>ls_conns := cs1\<rparr>)
          else if cs_array cs1 = [] then Inl (FLOM_RC_OK, s\<lparr>ls_conns := cs1\<rparr>)
          else
            (case flom_conns_get_fds (li_alloc inp) cs1 of
               (None, cs2) \<Rightarrow> Inl (FLOM_RC_NULL_OBJECT, s\<lparr>ls_conns := cs2\<rparr>)
             | (Some fds, cs2) \<Rightarrow>
                 (case flom_conns_set_events POLLIN cs2 of
                    (rc, cs3) \<Rightarrow>
                      if rc \<noteq> FLOM_RC_OK then Inl (rc, s\<lparr>ls_conns := cs3\<rparr>) else Inr (s\<lparr>ls_conns := cs3\<rparr>))))"

text \<open>One turn of the loop: \<open>Inl\<close> with the reason code when the thread leaves it.\<close>

definition locker_turn :: "clock \<Rightarrow> locker_input \<Rightarrow> locker_st \<Rightarrow> rc \<times> locker_st + locker_st" where
  "locker_turn ck inp s =
     (case locker_setup inp s of
        Inl x \<Rightarrow> Inl x
      | Inr s1 \<Rightarrow>
          if li_ready inp < 0 then Inl (FLOM_RC_OK, s1)
          else if li_ready inp = 0 then locker_idle ck inp s1
          else locker_scan ck inp [0..<length (cs_array (ls_conns s1))] s1)"

text \<open>The state in which the loop starts; the deadline is one second in the past.\<close>

definition locker_start :: "nat \<Rightarrow> flom_locker \<Rightarrow> timeval \<Rightarrow> world \<Rightarrow> locker_st" where
  "locker_start thread lk now w =
     \<lparr> ls_locker = lk\<lparr>lk_thread := Some thread\<rparr>,
       ls_conns = flom_conns_add_conn (flom_conns_init AF_UNIX) (flom_conn_init 0 (lk_read_pipe lk) False),
       ls_world = w, ls_deadline = (fst now - 1, snd now) \<rparr>"

fun locker_run :: "clock \<Rightarrow> locker_input list \<Rightarrow> locker_st \<Rightarrow> rc \<times> locker_st + locker_st" where
  "locker_run ck [] s = Inr s"
| "locker_run ck (inp # inps) s =
     (case locker_turn ck inp s of Inl x \<Rightarrow> Inl x | Inr s' \<Rightarrow> locker_run ck inps s')"

text \<open>
  The thread: the object for the pipe is allocated and initialized (\<open>new_ok\<close> and \<open>init_rc\<close> are the
  results), then the loop runs; at its end the connections that are left are closed and deleted.
  The result is \<open>None\<close> while the loop runs.
\<close>

definition flom_locker_loop ::
  "clock \<Rightarrow> nat \<Rightarrow> timeval \<Rightarrow> bool \<Rightarrow> rc \<Rightarrow> (nat \<Rightarrow> bool) \<Rightarrow> locker_input list \<Rightarrow> flom_locker \<Rightarrow> world
     \<Rightarrow> (rc \<times> locker_st) option" where
  "flom_locker_loop ck thread now new_ok init_rc close_fails inps lk w =
     (let s0 = locker_start thread lk now w;
          free = (\<lambda>s. s\<lparr>ls_conns := flom_conns_free close_fails (ls_conns s)\<rparr>);
          empty = s0\<lparr>ls_conns := flom_conns_init AF_UNIX\<rparr> in
      if \<not> new_ok then Some (FLOM_RC_NEW_OBJ, free empty)
      else if init_rc \<noteq> FLOM_RC_OK then Some (init_rc, free empty)
      else (case locker_run ck inps s0 of
              Inr s \<Rightarrow> None
            | Inl (rc, s) \<Rightarrow> Some (rc, free s)))"

section \<open>Locks of connections\<close>

text \<open>
  The connections in use, without the pipe (its identifier is zero), and the invariant: every
  lock record of the resource is of a connection in use, no connection has two, and the
  identifiers are different.
\<close>

definition uids :: "locker_st \<Rightarrow> conn list" where
  "uids s = map cn_uid (cs_array (ls_conns s))"

definition live :: "locker_st \<Rightarrow> conn set" where
  "live s = cn_uid ` {c \<in> set (cs_array (ls_conns s)). cn_state c \<noteq> FLOM_CONN_STATE_REMOVE \<and> cn_uid c \<noteq> 0}"

definition served_by :: "conn set \<Rightarrow> locker_st \<Rightarrow> bool" where
  "served_by C s \<longleftrightarrow> rsrc.served C (ls_resource s) \<and> distinct (uids s)"

text \<open>
  The clients that the theorems speak of send a lock request only when they have no lock and do
  not wait for one; an identifier is not used twice; nothing can be sent on a connection that
  has been closed because of an invalid message; and the pipe is the first connection: once it has
  gone, the loop takes another connection for it.
\<close>

definition pollin_msg :: "locker_input \<Rightarrow> nat \<Rightarrow> locker_st \<Rightarrow> flom_msg" where
  "pollin_msg inp i s =
     (if i = 0 then (case li_new_conn inp of None \<Rightarrow> flom_msg_init | Some c \<Rightarrow> cn_msg c)
      else
        (case flom_conn_recv FLOM_NETWORK_WAIT_TIMEOUT (li_recv inp i) FLOM_MSG_BUFFER_SIZE of
           (rc, read_bytes, buffer, rest) \<Rightarrow>
             flom_msg_deserialize (li_unb64 inp) (fst (li_markup inp i buffer)) (cn_msg (cs_array (ls_conns s) ! i))))"

definition pollin_conforms :: "locker_input \<Rightarrow> nat \<Rightarrow> locker_st \<Rightarrow> bool" where
  "pollin_conforms inp i s \<longleftrightarrow>
     (if i = 0 then
        (case li_new_conn inp of
           None \<Rightarrow> True
         | Some c \<Rightarrow> cn_uid c \<notin> set (uids s) \<and> cn_state c \<noteq> FLOM_CONN_STATE_REMOVE)
      else
        (let c = cs_array (ls_conns s) ! i; m = pollin_msg inp i s in
         (if msg_verb m = FLOM_MSG_VERB_LOCK then cn_uid c \<notin># rsrc_clients (ls_resource s) else True) \<and>
         (if msg_state m = FLOM_MSG_STATE_INVALID
          then e_send (li_env inp i) (w_sends (ls_world s)) (cn_uid c) \<notin> {FLOM_RC_OK, FLOM_RC_SEND_ERROR} else True)))"

definition client_conforms :: "locker_input \<Rightarrow> nat \<Rightarrow> locker_st \<Rightarrow> bool" where
  "client_conforms inp i s \<longleftrightarrow>
     uids s ! 0 = 0 \<and> (if re_in (li_revents inp i) then pollin_conforms inp i s else True)"

text \<open>A condition on every file descriptor that is looked at in the turns of a run.\<close>

fun scan_all ::
  "(locker_input \<Rightarrow> nat \<Rightarrow> locker_st \<Rightarrow> bool) \<Rightarrow> clock \<Rightarrow> locker_input \<Rightarrow> nat list \<Rightarrow> locker_st \<Rightarrow> bool" where
  "scan_all Q ck inp [] s = True"
| "scan_all Q ck inp (i # is) s =
     (Q inp i s \<and>
      (case locker_scan_fd ck inp i s of
         Inl x \<Rightarrow> True
       | Inr (stop, s1) \<Rightarrow> if stop then True else scan_all Q ck inp is s1))"

fun run_all ::
  "(locker_input \<Rightarrow> nat \<Rightarrow> locker_st \<Rightarrow> bool) \<Rightarrow> clock \<Rightarrow> locker_input list \<Rightarrow> locker_st \<Rightarrow> bool" where
  "run_all Q ck [] s = True"
| "run_all Q ck (inp # inps) s =
     ((case locker_setup inp s of
         Inl x \<Rightarrow> True
       | Inr s1 \<Rightarrow> if li_ready inp > 0 then scan_all Q ck inp [0..<length (cs_array (ls_conns s1))] s1 else True) \<and>
      (case locker_turn ck inp s of Inl x \<Rightarrow> True | Inr s' \<Rightarrow> run_all Q ck inps s'))"

subsection \<open>What the operations change\<close>

text \<open>Identifiers and states of the connections decide both.\<close>

definition keys :: "locker_st \<Rightarrow> (conn \<times> flom_conn_state) list" where
  "keys s = map (\<lambda>c. (cn_uid c, cn_state c)) (cs_array (ls_conns s))"

lemma live_keys: "live s = fst ` {p \<in> set (keys s). snd p \<noteq> FLOM_CONN_STATE_REMOVE \<and> fst p \<noteq> 0}"
  by (force simp: live_def keys_def)

lemma uids_keys: "uids s = map fst (keys s)"
  by (simp add: uids_def keys_def)

lemma length_keys: "length (cs_array (ls_conns s)) = length (keys s)"
  by (simp add: keys_def)

lemma keys_nth: "i < length (keys s) \<Longrightarrow> keys s ! i = (cn_uid (cs_array (ls_conns s) ! i), cn_state (cs_array (ls_conns s) ! i))"
  by (simp add: keys_def)

lemma deadline_simps [simp]:
  "rsrc_clients (put_deadline d r) = rsrc_clients r" "flat_rsrc (put_deadline d r) = flat_rsrc r"
  "rsrc.served C (put_deadline d r) = rsrc.served C r"
  by (cases r; simp add: rsrc.served_def)+

lemma set_resource_simps [simp]:
  "ls_resource (set_resource r w s) = r" "keys (set_resource r w s) = keys s"
  "ls_conns (set_resource r w s) = ls_conns s" "ls_world (set_resource r w s) = w"
  by (simp_all add: set_resource_def ls_resource_def keys_def)

lemma set_last_step_simps [simp]:
  "ls_resource (set_last_step c n s) = ls_resource s" "keys (set_last_step c n s) = keys s"
  "ls_conns (set_last_step c n s) = ls_conns s"
  by (simp_all add: set_last_step_def ls_resource_def keys_def)

lemma world_simps [simp]:
  "ls_resource (s\<lparr>ls_world := w\<rparr>) = ls_resource s" "keys (s\<lparr>ls_world := w\<rparr>) = keys s"
  by (simp_all add: ls_resource_def keys_def)

lemma locker_simps [simp]:
  "keys (s\<lparr>ls_locker := lk\<rparr>) = keys s"
  "lk_resource lk = lk_resource (ls_locker s) \<Longrightarrow> ls_resource (s\<lparr>ls_locker := lk\<rparr>) = ls_resource s"
  by (simp_all add: ls_resource_def keys_def)

lemma put_msg_simps [simp]:
  "ls_resource (put_msg i m s) = ls_resource s"
  by (simp add: put_msg_def ls_resource_def)

lemma put_msg_keys [simp]: "keys (put_msg i m s) = keys s"
  by (cases "i < length (cs_array (ls_conns s))")
    (simp_all add: put_msg_def keys_def map_update list_update_same_conv list_update_beyond)

text \<open>Closing marks the connection; a failing \<^verbatim>\<open>close\<close> does not change that.\<close>

lemma terminate_uid: "flom_conn_terminate f c = (rc, c') \<Longrightarrow> cn_uid c' = cn_uid c"
  by (auto simp: flom_conn_terminate_def flom_tcp_close_def Let_def split: if_splits)

lemma locker_close_keys:
  assumes "locker_close inp i s = (rc, s')" "i < length (keys s)"
  shows "keys s' = (keys s)[i := (fst (keys s ! i), FLOM_CONN_STATE_REMOVE)]" "ls_resource s' = ls_resource s"
proof -
  obtain c' where t: "flom_conn_terminate (li_close_fails inp i) (cs_array (ls_conns s) ! i) = (rc, c')"
    "s' = s\<lparr>ls_conns := (ls_conns s)\<lparr>cs_array := (cs_array (ls_conns s))[i := c']\<rparr>\<rparr>"
    using assms by (auto simp: locker_close_def flom_conns_close_fd_def length_keys split: prod.splits if_splits)
  then show "keys s' = (keys s)[i := (fst (keys s ! i), FLOM_CONN_STATE_REMOVE)]"
    using assms(2) terminate_uid [OF t(1)] terminate_state [OF t(1)] by (simp add: keys_def map_update)
  show "ls_resource s' = ls_resource s" by (simp add: t(2) ls_resource_def)
qed

lemma live_closed:
  assumes "keys s' = (keys s)[i := (fst (keys s ! i), FLOM_CONN_STATE_REMOVE)]" "i < length (keys s)" "distinct (uids s)"
  shows "live s' = live s - {fst (keys s ! i)}" "uids s' = uids s"
proof -
  show u: "uids s' = uids s"
    using assms(2) by (simp add: uids_keys assms(1) map_update list_update_same_conv)
  have d: "fst p = fst q \<Longrightarrow> p = q" if "p \<in> set (keys t)" "q \<in> set (keys t)" "distinct (uids t)" for p q t
    using that by (metis uids_keys distinct_map inj_onD)
  have "p \<in> set (keys s') \<longleftrightarrow> (if fst p = fst (keys s ! i) then snd p = FLOM_CONN_STATE_REMOVE else p \<in> set (keys s))" for p
  proof -
    have m: "(fst (keys s ! i), FLOM_CONN_STATE_REMOVE) \<in> set (keys s')"
      using assms(1,2) by (metis set_update_memI)
    show ?thesis
    proof (cases "fst p = fst (keys s ! i)")
      case True
      then have "p \<in> set (keys s') \<longleftrightarrow> p = (fst (keys s ! i), FLOM_CONN_STATE_REMOVE)"
        using m d [of p s'] assms(3) u by (metis fst_conv)
      then show ?thesis using True by (metis fst_conv prod.collapse snd_conv)
    next
      case False
      have "p \<in> set (keys s') \<longleftrightarrow> p \<in> set (keys s)"
        unfolding assms(1) using False assms(2)
        by (metis fst_conv in_set_conv_nth length_list_update nth_list_update_eq nth_list_update_neq)
      then show ?thesis using False by simp
    qed
  qed
  then show "live s' = live s - {fst (keys s ! i)}"
    unfolding live_keys by (auto simp: image_iff)
qed

subsection \<open>The methods\<close>

lemma locker_clean_served:
  assumes "locker_clean ck e c s = (rc, s')" "rsrc.served C (ls_resource s)"
  shows "rsrc.served (C - {c}) (ls_resource s')" "keys s' = keys s"
  using assms rsrc.served_clean [of C "put_deadline (ls_deadline s) (ls_resource s)" c ck e "ls_world s"]
  by (auto simp: locker_clean_def split: prod.splits)

lemma locker_timeout_served:
  assumes "locker_timeout ck e s = (rc, s')" "rsrc.served C (ls_resource s)"
  shows "rsrc.served C (ls_resource s')" "keys s' = keys s"
  using assms rsrc.served_timeout [of C "put_deadline (ls_deadline s) (ls_resource s)" ck e "ls_world s"]
  by (auto simp: locker_timeout_def split: prod.splits)

lemma locker_inmsg_served:
  assumes "locker_inmsg ck e c m s = (rc, m', s')" "rsrc.served C (ls_resource s)" "c \<in> C"
    and "msg_verb m = FLOM_MSG_VERB_LOCK \<Longrightarrow> c \<notin># rsrc_clients (ls_resource s)"
  shows "rsrc.served C (ls_resource s')" "keys s' = keys s"
    and "rc = FLOM_RC_OK \<Longrightarrow> msg_verb m \<noteq> FLOM_MSG_VERB_LOCK \<Longrightarrow> rsrc.served (C - {c}) (ls_resource s')"
    and "rc = FLOM_RC_OK \<Longrightarrow> msg_verb m = FLOM_MSG_VERB_LOCK \<Longrightarrow> msg_state m' = FLOM_MSG_STATE_READY"
    and "msg_verb m = FLOM_MSG_VERB_LOCK \<Longrightarrow> w_sends (ls_world s') = w_sends (ls_world s)"
proof -
  let ?r = "put_deadline (ls_deadline s) (ls_resource s)"
  obtain r w where i: "flom_resource_inmsg ck e ?r c m (ls_world s) = (rc, r, m', w)" "s' = set_resource r w s"
    using assms(1) by (auto simp: locker_inmsg_def split: prod.splits)
  have sv: "rsrc.served C ?r" using assms(2) by simp
  then have ok: "flat_rsrc ?r" by (simp add: rsrc.served_def)
  show "rsrc.served C (ls_resource s')" "keys s' = keys s"
    using rsrc.served_inmsg [OF sv, of m c ck e "ls_world s"] assms(3,4) i by auto
  show "rsrc.served (C - {c}) (ls_resource s')" if "rc = FLOM_RC_OK" "msg_verb m \<noteq> FLOM_MSG_VERB_LOCK"
    using rsrc.served_unlock [OF sv that(2) i(1) [unfolded that(1)]] i(2) by simp
  show "msg_state m' = FLOM_MSG_STATE_READY" if "rc = FLOM_RC_OK" "msg_verb m = FLOM_MSG_VERB_LOCK"
    using rsrc.lock_answered [OF ok that(2) i(1) [unfolded that(1)]] .
  show "w_sends (ls_world s') = w_sends (ls_world s)" if "msg_verb m = FLOM_MSG_VERB_LOCK"
    using rsrc.lock_sends [OF ok that i(1)] i(2) by simp
qed

text \<open>
  The processing of a message keeps the records within the connections and the one that sent
  it; when it succeeds although nothing can be sent to that connection, none of its records is left.
\<close>

lemma locker_process_served:
  assumes "locker_process ck e j s = (rc, s')" "rsrc.served C (ls_resource s)" "j < length (keys s)"
    and "c = fst (keys s ! j)" "c \<in> C"
    and "msg_verb (cn_msg (cs_array (ls_conns s) ! j)) = FLOM_MSG_VERB_LOCK \<Longrightarrow> c \<notin># rsrc_clients (ls_resource s)"
  shows "rsrc.served C (ls_resource s')" "keys s' = keys s"
    and "rc = FLOM_RC_OK \<Longrightarrow> e_send e (w_sends (ls_world s)) c \<notin> {FLOM_RC_OK, FLOM_RC_SEND_ERROR} \<Longrightarrow>
         rsrc.served (C - {c}) (ls_resource s')"
proof -
  let ?m = "cn_msg (cs_array (ls_conns s) ! j)"
  have c: "cn_uid (cs_array (ls_conns s) ! j) = c" using assms(3,4) by (simp add: keys_nth)
  show "rsrc.served C (ls_resource s')" "keys s' = keys s"
    using assms(1,2) locker_inmsg_served(1,2) [of ck e c ?m s _ _ _ C, OF _ assms(2,5,6)]
    by (auto simp: locker_process_def c Let_def split: prod.splits if_splits sum.splits)
  assume ok: "rc = FLOM_RC_OK" and closed: "e_send e (w_sends (ls_world s)) c \<notin> {FLOM_RC_OK, FLOM_RC_SEND_ERROR}"
  obtain rc1 m1 s1 where i: "locker_inmsg ck e c ?m s = (rc1, m1, s1)" by (metis prod_cases3)
  note q = locker_inmsg_served(3-5) [OF i assms(2,5,6)]
  have v: "rc1 = FLOM_RC_OK" "ls_resource s' = ls_resource s1"
    using assms(1) ok i
    by (auto simp: locker_process_def c Let_def flom_conn_send_def split: prod.splits if_splits sum.splits)
  have "msg_verb ?m \<noteq> FLOM_MSG_VERB_LOCK"
  proof
    assume lock: "msg_verb ?m = FLOM_MSG_VERB_LOCK"
    then have "msg_state m1 = FLOM_MSG_STATE_READY" "w_sends (ls_world s1) = w_sends (ls_world s)"
      using q(2,3) v(1) by simp_all
    then show False
      using assms(1) ok i closed lock
      by (auto simp: locker_process_def c Let_def flom_conn_send_def split: prod.splits if_splits sum.splits)
  qed
  then show "rsrc.served (C - {c}) (ls_resource s')" using q(1) v by simp
qed

lemma locker_drop_served:
  assumes "locker_drop ck inp i s = (FLOM_RC_OK, s')" "i < length (keys s)" "distinct (uids s)"
    and "rsrc.served (insert (fst (keys s ! i)) (live s)) (ls_resource s)"
  shows "served_by (live s') s'" "length (keys s') = length (keys s)"
proof -
  let ?c = "fst (keys s ! i)"
  obtain s1 where c: "locker_close inp i s = (FLOM_RC_OK, s1)"
    "locker_clean ck (li_env inp i) (cn_uid (cs_array (ls_conns s1) ! i)) s1 = (FLOM_RC_OK, s')"
    using assms(1) by (auto simp: locker_drop_def split: prod.splits if_splits)
  note k = locker_close_keys [OF c(1) assms(2)] and l = live_closed [OF locker_close_keys(1) [OF c(1) assms(2)] assms(2,3)]
  have i: "cn_uid (cs_array (ls_conns s1) ! i) = ?c" using keys_nth [of i s1] k(1) assms(2) by simp
  have "rsrc.served (insert ?c (live s)) (ls_resource s1)" using assms(4) k(2) by simp
  note cl = locker_clean_served [OF c(2) this, unfolded i]
  have "live s' = live s1" "uids s' = uids s1" using cl(2) by (simp_all add: live_keys uids_keys)
  then show "served_by (live s') s'" using cl(1) l assms(3) by (simp add: served_by_def insert_Diff_if)
  show "length (keys s') = length (keys s)" using cl(2) k(1) by simp
qed

subsection \<open>A turn\<close>

text \<open>
  What the handling of one file descriptor guarantees: the others are as before, and a record
  without a connection in use can only be of the one that is dropped next.
\<close>

definition pollin_post :: "nat \<Rightarrow> locker_st \<Rightarrow> rc \<Rightarrow> locker_st \<Rightarrow> bool" where
  "pollin_post i s rc s' \<longleftrightarrow>
     length (keys s) \<le> length (keys s') \<and> fst (keys s' ! i) = fst (keys s ! i) \<and> distinct (uids s') \<and>
     (\<forall>k < length (keys s). k \<noteq> i \<longrightarrow> keys s' ! k = keys s ! k) \<and>
     rsrc.served (insert (fst (keys s ! i)) (live s')) (ls_resource s') \<and>
     (rc = FLOM_RC_OK \<longrightarrow> rsrc.served (live s') (ls_resource s'))"

lemma pollin_post_same:
  assumes "keys s' = keys s" "rsrc.served (live s) (ls_resource s')" "distinct (uids s)"
  shows "pollin_post i s rc s'"
proof -
  have l: "live s' = live s" "uids s' = uids s" using assms(1) by (simp_all add: live_keys uids_keys)
  have "rsrc.served (insert (fst (keys s ! i)) (live s)) (ls_resource s')"
    using assms(2) by (rule rsrc.served_mono) auto
  then show ?thesis using assms l by (simp add: pollin_post_def)
qed

lemma pollin_post_closed:
  assumes "keys s' = (keys s)[i := (fst (keys s ! i), FLOM_CONN_STATE_REMOVE)]" "i < length (keys s)" "distinct (uids s)"
    and "rsrc.served (live s) (ls_resource s')"
    and "rc = FLOM_RC_OK \<Longrightarrow> rsrc.served (live s - {fst (keys s ! i)}) (ls_resource s')"
  shows "pollin_post i s rc s'"
proof -
  note l = live_closed [OF assms(1-3)]
  have "rsrc.served (insert (fst (keys s ! i)) (live s')) (ls_resource s')"
    using assms(4) by (rule rsrc.served_mono) (auto simp: l)
  then show ?thesis using assms l by (auto simp: pollin_post_def)
qed

lemma new_client_post:
  assumes "locker_new_client ck inp s = (rc, refresh, s')" "served_by (live s) s" "0 < length (keys s)"
    and "pollin_conforms inp 0 s" "uids s ! 0 = 0"
  shows "pollin_post 0 s rc s'"
proof -
  have same: ?thesis if "keys s' = keys s" "ls_resource s' = ls_resource s"
    using that assms(2) by (intro pollin_post_same) (simp_all add: served_by_def)
  show ?thesis
  proof (cases "li_token inp = None \<or> li_new_conn inp = None")
    case True
    then show ?thesis
      using assms(1) by (intro same) (auto simp: locker_new_client_def keys_def ls_resource_def Let_def split: option.splits)
  next
    case False
    then obtain flt new where t: "li_token inp = Some flt" "li_new_conn inp = Some new" by auto
    define s2 where "s2 = s\<lparr>ls_conns := flom_conns_import ((ls_conns s)\<lparr>cs_domain := tk_domain flt\<rparr>) new,
        ls_locker := (ls_locker s)\<lparr>lk_read_sequence := tk_sequence flt\<rparr>\<rparr>"
    have k2: "keys s2 = keys s @ [(cn_uid new, cn_state new)]" "ls_resource s2 = ls_resource s"
      by (simp_all add: s2_def keys_def ls_resource_def flom_conns_import_def)
    have fresh: "cn_uid new \<notin> set (uids s)" "cn_state new \<noteq> FLOM_CONN_STATE_REMOVE"
      using assms(4) t by (auto simp: pollin_conforms_def)
    have nz: "cn_uid new \<noteq> 0" using fresh(1) assms(3,5) by (metis length_map nth_mem uids_keys)
    have l2: "live s2 = insert (cn_uid new) (live s)" "distinct (uids s2)"
      using fresh nz assms(2) by (force simp: live_keys uids_keys k2 served_by_def)+
    have p: "locker_process ck (li_env inp 0) (length (keys s)) s2 = (rc, s')"
      using assms(1) t unfolding locker_new_client_def s2_def by (simp add: Let_def keys_def split: prod.splits)
    have sv: "rsrc.served (live s2) (ls_resource s2)"
      using assms(2) k2(2) l2(1) by (auto simp: served_by_def intro: rsrc.served_mono)
    have j: "length (keys s) < length (keys s2)" "cn_uid new = fst (keys s2 ! length (keys s))" "cn_uid new \<in> live s2"
      using k2(1) l2(1) by simp_all
    have nc: "cn_uid new \<notin># rsrc_clients (ls_resource s2)"
      using fresh(1) assms(2) k2(2) by (auto simp: served_by_def rsrc.served_def live_keys uids_keys)
    note r = locker_process_served(1,2) [OF p sv j nc]
    have l': "live s' = live s2" "uids s' = uids s2" using r(2) by (simp_all add: live_keys uids_keys)
    have "rsrc.served (insert (fst (keys s ! 0)) (live s')) (ls_resource s')"
      using r(1) l'(1) by (auto intro: rsrc.served_mono)
    then show ?thesis
      using r l' l2(2) k2(1) assms(3) by (auto simp: pollin_post_def nth_append)
  qed
qed

lemma data_post:
  assumes "locker_data ck inp i s = (rc, refresh, s')" "served_by (live s) s" "i < length (keys s)" "i \<noteq> 0"
    and "pollin_conforms inp i s" "snd (keys s ! i) \<noteq> FLOM_CONN_STATE_REMOVE" "uids s ! 0 = 0"
  shows "pollin_post i s rc s'"
proof -
  let ?c = "fst (keys s ! i)" and ?conn = "cs_array (ls_conns s) ! i"
  have c: "cn_uid ?conn = ?c" using keys_nth [OF assms(3)] by simp
  have "uids s ! i \<noteq> uids s ! 0"
    using assms(2-4) by (metis length_map nth_eq_iff_index_eq uids_keys served_by_def gr_zeroI less_trans)
  then have "?c \<noteq> 0" using assms(3,7) by (simp add: uids_keys)
  then have in_live: "?c \<in> live s" using assms(3,6) by (force simp: live_keys)
  have sv: "rsrc.served (live s) (ls_resource s)" and d: "distinct (uids s)"
    using assms(2) by (simp_all add: served_by_def)
  have same: ?thesis if "keys s' = keys s" "ls_resource s' = ls_resource s"
    using that sv d by (intro pollin_post_same) simp_all
  obtain rc0 n buffer rest where rv: "flom_conn_recv FLOM_NETWORK_WAIT_TIMEOUT (li_recv inp i) FLOM_MSG_BUFFER_SIZE = (rc0, n, buffer, rest)"
    by (metis prod_cases4)
  obtain events parsed where mk: "li_markup inp i buffer = (events, parsed)" by force
  define m where "m = flom_msg_deserialize (li_unb64 inp) events (cn_msg ?conn)"
  define s2 where "s2 = set_last_step ?c (msg_step m) (put_msg i m s)"
  have k2: "keys s2 = keys s" "ls_resource s2 = ls_resource s" by (simp_all add: s2_def)
  have msg2: "cn_msg (cs_array (ls_conns s2) ! i) = m"
    using assms(3) by (simp add: s2_def put_msg_def length_keys)
  have cf: "msg_verb m = FLOM_MSG_VERB_LOCK \<Longrightarrow> ?c \<notin># rsrc_clients (ls_resource s)"
    "msg_state m = FLOM_MSG_STATE_INVALID \<Longrightarrow>
     e_send (li_env inp i) (w_sends (ls_world s)) ?c \<notin> {FLOM_RC_OK, FLOM_RC_SEND_ERROR}"
    using assms(4,5) by (auto simp: pollin_conforms_def pollin_msg_def rv mk c m_def Let_def split: if_splits)
  consider (fail) "rc0 \<noteq> FLOM_RC_OK" | (closed) "rc0 = FLOM_RC_OK" "n = 0" | (bad) "rc0 = FLOM_RC_OK" "n \<noteq> 0" "\<not> parsed"
    | (invalid) "rc0 = FLOM_RC_OK" "n \<noteq> 0" parsed "msg_state m = FLOM_MSG_STATE_INVALID"
    | (valid) "rc0 = FLOM_RC_OK" "n \<noteq> 0" parsed "msg_state m \<noteq> FLOM_MSG_STATE_INVALID" by blast
  then show ?thesis
  proof cases
    case fail
    then show ?thesis using assms(1) rv by (intro same) (auto simp: locker_data_def Let_def)
  next
    case closed
    obtain rc1 s1 where cl: "locker_close inp i s = (rc1, s1)" by force
    note k = locker_close_keys [OF cl assms(3)]
    show ?thesis
    proof (cases "rc1 = FLOM_RC_OK")
      case False
      then have "s' = s1" "rc \<noteq> FLOM_RC_OK" using assms(1) closed rv cl by (auto simp: locker_data_def Let_def)
      then show ?thesis using k sv d assms(3) by (intro pollin_post_closed) auto
    next
      case True
      then obtain rc2 where r: "locker_clean ck (li_env inp i) ?c s1 = (rc2, s')"
        using assms(1) closed rv cl c by (auto simp: locker_data_def Let_def split: prod.splits)
      have "rsrc.served (live s) (ls_resource s1)" using sv k(2) by simp
      note q = locker_clean_served [OF r this]
      show ?thesis
        using q k(1) d assms(3) by (intro pollin_post_closed) (auto intro: rsrc.served_mono)
    qed
  next
    case bad
    then show ?thesis using assms(1) rv mk c by (intro same) (auto simp: locker_data_def Let_def)
  next
    case invalid
    obtain rc1 s3 where cl: "locker_close inp i s2 = (rc1, s3)" by force
    have i2: "i < length (keys s2)" using assms(3) k2 by simp
    note k = locker_close_keys [OF cl i2, unfolded k2]
    show ?thesis
    proof (cases "rc1 = FLOM_RC_OK")
      case False
      then have "s' = s3" "rc \<noteq> FLOM_RC_OK"
        using assms(1) invalid rv mk cl c by (auto simp: locker_data_def Let_def m_def s2_def)
      then show ?thesis using k sv d assms(3) by (intro pollin_post_closed) auto
    next
      case True
      have p: "locker_process ck (li_env inp i) i s3 = (rc, s')"
        using assms(1) invalid rv mk cl c True by (auto simp: locker_data_def Let_def m_def s2_def split: prod.splits)
      have msg3: "cn_msg (cs_array (ls_conns s3) ! i) = m"
      proof -
        obtain c' where "flom_conn_terminate (li_close_fails inp i) (cs_array (ls_conns s2) ! i) = (rc1, c')"
          "cs_array (ls_conns s3) = (cs_array (ls_conns s2))[i := c']"
          using cl i2 by (auto simp: locker_close_def flom_conns_close_fd_def length_keys split: prod.splits if_splits)
        moreover have "cn_msg c' = cn_msg x" if "flom_conn_terminate f x = (r, c')" for f x r
          using that by (auto simp: flom_conn_terminate_def flom_tcp_close_def Let_def split: if_splits)
        ultimately show ?thesis using i2 msg2 by (simp add: length_keys)
      qed
      have i3: "i < length (keys s3)" "?c = fst (keys s3 ! i)" using k(1) assms(3) by simp_all
      have sv3: "rsrc.served (live s) (ls_resource s3)" using sv k(2) by simp
      have "msg_verb (cn_msg (cs_array (ls_conns s3) ! i)) = FLOM_MSG_VERB_LOCK \<Longrightarrow> ?c \<notin># rsrc_clients (ls_resource s3)"
        using cf(1) msg3 k(2) by simp
      note r = locker_process_served [OF p sv3 i3 in_live this]
      have w3: "w_sends (ls_world s3) = w_sends (ls_world s)"
        using cl by (auto simp: locker_close_def s2_def set_last_step_def put_msg_def split: prod.splits)
      show ?thesis
        using r k(1) d assms(3) cf(2) w3 invalid by (intro pollin_post_closed) auto
    qed
  next
    case valid
    have p: "locker_process ck (li_env inp i) i s2 = (rc, s')"
      using assms(1) valid rv mk c by (auto simp: locker_data_def Let_def m_def s2_def split: prod.splits)
    have i2: "i < length (keys s2)" "?c = fst (keys s2 ! i)" using k2 assms(3) by simp_all
    have "msg_verb (cn_msg (cs_array (ls_conns s2) ! i)) = FLOM_MSG_VERB_LOCK \<Longrightarrow> ?c \<notin># rsrc_clients (ls_resource s2)"
      using cf(1) msg2 k2(2) by simp
    note r = locker_process_served(1,2) [OF p sv [folded k2(2)] i2 in_live this]
    show ?thesis using r k2 d by (intro pollin_post_same) simp_all
  qed
qed

lemma pollin_posts:
  assumes "flom_locker_loop_pollin ck inp i s = (rc, refresh, s')" "served_by (live s) s" "i < length (keys s)"
    and "pollin_conforms inp i s" "snd (keys s ! i) \<noteq> FLOM_CONN_STATE_REMOVE" "uids s ! 0 = 0"
  shows "pollin_post i s rc s'"
proof -
  define s1 where "s1 = s\<lparr>ls_locker := (ls_locker s)\<lparr>lk_idle_periods := 0\<rparr>\<rparr>"
  have k: "keys s1 = keys s" "ls_resource s1 = ls_resource s" "ls_conns s1 = ls_conns s" "ls_world s1 = ls_world s"
    by (simp_all add: s1_def)
  then have l: "live s1 = live s" "uids s1 = uids s" by (simp_all add: live_keys uids_keys)
  have sv: "served_by (live s1) s1" using assms(2) by (simp add: served_by_def k l)
  have cf: "pollin_conforms inp i s1" using assms(4) unfolding pollin_conforms_def pollin_msg_def k l by assumption
  have "pollin_post i s1 rc s'"
  proof (cases "i = 0")
    case True
    then have "locker_new_client ck inp s1 = (rc, refresh, s')"
      using assms(1,3) by (simp add: flom_locker_loop_pollin_def flom_conns_get_conn_def length_keys s1_def)
    then show ?thesis using new_client_post [OF _ sv] cf assms(3,6) k l True by simp
  next
    case False
    then have "locker_data ck inp i s1 = (rc, refresh, s')"
      using assms(1,3) by (simp add: flom_locker_loop_pollin_def flom_conns_get_conn_def length_keys s1_def)
    then show ?thesis using data_post [OF _ sv _ False cf] assms(3,5,6) k l by simp
  qed
  then show ?thesis by (simp add: pollin_post_def k)
qed

lemma pipe_hup_served:
  assumes "locker_close inp 0 s = (rc, s')" "rsrc.served (live s) (ls_resource s)" "distinct (uids s)"
    and "0 < length (keys s)" "uids s ! 0 = 0"
  shows "served_by (live s') s'"
proof -
  note k = locker_close_keys [OF assms(1,4)]
  note l = live_closed [OF k(1) assms(4,3)]
  have "fst (keys s ! 0) = 0" using assms(4,5) by (simp add: uids_keys)
  then have "live s' = live s" using l(1) by (auto simp: live_keys)
  then show ?thesis using assms(2,3) k(2) l(2) by (simp add: served_by_def)
qed

lemma locker_scan_fd_cases:
  assumes "locker_scan_fd ck inp i s = Inr (stop, s')"
  obtains rc refresh s1 where
    "rc = FLOM_RC_OK \<and> s1 = s \<or> flom_locker_loop_pollin ck inp i s = (rc, refresh, s1) \<and> re_in (li_revents inp i)"
    "locker_drop ck inp i s1 = (FLOM_RC_OK, s') \<and> stop \<or> rc = FLOM_RC_OK \<and> s' = s1 \<or>
     (rc = FLOM_RC_OK \<and> i = 0 \<and> stop \<and> (\<exists>s2. locker_close inp 0 s1 = (FLOM_RC_OK, s2) \<and>
        s' = s2\<lparr>ls_locker := (ls_locker s2)\<lparr>lk_read_pipe := FLOM_NULL_FD\<rparr>\<rparr>))"
proof (cases "re_err (li_revents inp i)")
  case True
  then show ?thesis
    using assms that [of FLOM_RC_OK s] by (auto simp: locker_scan_fd_def scan_break_def split: prod.splits if_splits)
next
  case False
  obtain rc refresh s1 where p: "(if re_in (li_revents inp i) then flom_locker_loop_pollin ck inp i s else (FLOM_RC_OK, False, s))
      = (rc, refresh, s1)" by (metis prod_cases3)
  show ?thesis
  proof (rule that)
    show "rc = FLOM_RC_OK \<and> s1 = s \<or> flom_locker_loop_pollin ck inp i s = (rc, refresh, s1) \<and> re_in (li_revents inp i)"
      using p by (auto split: if_splits)
    show "locker_drop ck inp i s1 = (FLOM_RC_OK, s') \<and> stop \<or> rc = FLOM_RC_OK \<and> s' = s1 \<or>
     (rc = FLOM_RC_OK \<and> i = 0 \<and> stop \<and> (\<exists>s2. locker_close inp 0 s1 = (FLOM_RC_OK, s2) \<and>
        s' = s2\<lparr>ls_locker := (ls_locker s2)\<lparr>lk_read_pipe := FLOM_NULL_FD\<rparr>\<rparr>))"
      using assms False unfolding locker_scan_fd_def Let_def p
      by (auto simp: scan_break_def split: prod.splits if_splits)
  qed
qed

lemma scan_fd_served:
  assumes "locker_scan_fd ck inp i s = Inr (stop, s')" "served_by (live s) s" "i < length (keys s)"
    and "re_in (li_revents inp i) \<longrightarrow> pollin_conforms inp i s"
    and "snd (keys s ! i) \<noteq> FLOM_CONN_STATE_REMOVE" "uids s ! 0 = 0"
  shows "served_by (live s') s'"
    and "\<not> stop \<Longrightarrow> length (keys s) \<le> length (keys s') \<and> (\<forall>k < length (keys s). k \<noteq> i \<longrightarrow> keys s' ! k = keys s ! k)"
proof -
  obtain rc refresh s1 where c:
    "rc = FLOM_RC_OK \<and> s1 = s \<or> flom_locker_loop_pollin ck inp i s = (rc, refresh, s1) \<and> re_in (li_revents inp i)"
    "locker_drop ck inp i s1 = (FLOM_RC_OK, s') \<and> stop \<or> rc = FLOM_RC_OK \<and> s' = s1 \<or>
     (rc = FLOM_RC_OK \<and> i = 0 \<and> stop \<and> (\<exists>s2. locker_close inp 0 s1 = (FLOM_RC_OK, s2) \<and>
        s' = s2\<lparr>ls_locker := (ls_locker s2)\<lparr>lk_read_pipe := FLOM_NULL_FD\<rparr>\<rparr>))"
    by (rule locker_scan_fd_cases [OF assms(1)])
  have p: "pollin_post i s rc s1"
    using c(1) pollin_post_same [of s s i rc] pollin_posts [OF _ assms(2,3) _ assms(5,6)] assms(2,4)
    by (auto simp: served_by_def)
  then have p': "i < length (keys s1)" "distinct (uids s1)" "fst (keys s1 ! i) = fst (keys s ! i)"
    "rsrc.served (insert (fst (keys s1 ! i)) (live s1)) (ls_resource s1)"
    "rc = FLOM_RC_OK \<Longrightarrow> rsrc.served (live s1) (ls_resource s1)"
    using assms(3) by (auto simp: pollin_post_def)
  have z: "uids s1 ! 0 = 0" "0 < length (keys s1)"
    using p assms(3,6) by (auto simp: pollin_post_def uids_keys) (metis gr0I length_greater_0_conv list.size(3) not_less_zero nth_map order_less_le_trans)+
  show "served_by (live s') s'"
    using c(2)
  proof (elim disjE conjE exE)
    assume "locker_drop ck inp i s1 = (FLOM_RC_OK, s')"
    from locker_drop_served(1) [OF this p'(1,2,4)] show ?thesis .
  next
    assume "rc = FLOM_RC_OK" "s' = s1"
    then show ?thesis using p' by (simp add: served_by_def)
  next
    fix s2 assume "rc = FLOM_RC_OK" and cl: "locker_close inp 0 s1 = (FLOM_RC_OK, s2)"
      and s': "s' = s2\<lparr>ls_locker := (ls_locker s2)\<lparr>lk_read_pipe := FLOM_NULL_FD\<rparr>\<rparr>"
    from pipe_hup_served [OF cl p'(5) p'(2) z(2,1)] \<open>rc = FLOM_RC_OK\<close> show ?thesis
      by (simp add: s' served_by_def live_keys uids_keys)
  qed
  show "\<not> stop \<Longrightarrow> length (keys s) \<le> length (keys s') \<and> (\<forall>k < length (keys s). k \<noteq> i \<longrightarrow> keys s' ! k = keys s ! k)"
    using c(2) p z by (auto simp: pollin_post_def)
qed

lemma scan_served:
  assumes "locker_scan ck inp is s = Inr s'" "served_by (live s) s" "scan_all client_conforms ck inp is s" "distinct is"
    and "\<forall>i \<in> set is. i < length (keys s) \<and> snd (keys s ! i) \<noteq> FLOM_CONN_STATE_REMOVE"
  shows "served_by (live s') s'"
  using assms
proof (induction "is" arbitrary: s)
  case (Cons i "is")
  obtain stop s1 where f: "locker_scan_fd ck inp i s = Inr (stop, s1)" "if stop then s' = s1 else locker_scan ck inp is s1 = Inr s'"
    using Cons.prems(1) by (auto split: sum.splits if_splits)
  have cf: "re_in (li_revents inp i) \<longrightarrow> pollin_conforms inp i s" "uids s ! 0 = 0"
    using Cons.prems(3) by (simp_all add: client_conforms_def)
  have i: "i < length (keys s)" "snd (keys s ! i) \<noteq> FLOM_CONN_STATE_REMOVE" using Cons.prems(5) by simp_all
  note r = scan_fd_served [OF f(1) Cons.prems(2) i(1) cf(1) i(2) cf(2)]
  show ?case
  proof (cases stop)
    case True
    then show ?thesis using f(2) r(1) by simp
  next
    case False
    have "\<forall>k \<in> set is. k < length (keys s1) \<and> snd (keys s1 ! k) \<noteq> FLOM_CONN_STATE_REMOVE"
      using Cons.prems(4,5) r(2) [OF False] by (metis distinct.simps(2) list.set_intros(2) order_less_le_trans)
    with Cons.IH [of s1] f r(1) False Cons.prems(3,4) show ?thesis by simp
  qed
qed simp

lemma setup_served:
  assumes "locker_setup inp s = Inr s'" "served_by (live s) s"
  shows "served_by (live s') s'" "\<forall>p \<in> set (keys s'). snd p \<noteq> FLOM_CONN_STATE_REMOVE"
proof -
  obtain del cs1 where c: "flom_conns_clean (ls_conns s) = (FLOM_RC_OK, del, cs1)"
    "cs_array (ls_conns s') = cs_array cs1" "ls_locker s' = ls_locker s"
    using assms(1)
    by (auto simp: locker_setup_def flom_conns_clean_def flom_conns_get_fds_def flom_conns_set_events_def Let_def
        split: prod.splits option.splits if_splits)
  have l: "clean_loop 0 (cs_array (ls_conns s)) = (del, cs_array (ls_conns s'))"
    using c(1,2) by (auto simp: flom_conns_clean_def split: prod.splits)
  have sp: "mset (cs_array (ls_conns s)) = mset del + mset (cs_array (ls_conns s'))"
    "list_all (\<lambda>c. cn_state c = FLOM_CONN_STATE_REMOVE) del"
    "list_all (\<lambda>c. cn_state c \<noteq> FLOM_CONN_STATE_REMOVE) (cs_array (ls_conns s'))"
    using clean_loop_spec [OF l] by simp_all
  have "set (cs_array (ls_conns s)) = set del \<union> set (cs_array (ls_conns s'))"
    using arg_cong [OF sp(1), of set_mset] by simp
  then have "live s' = live s" using sp(2,3) by (auto simp: live_def list_all_iff)
  moreover have "distinct (uids s')"
  proof (rule distinct_submset)
    show "mset (uids s') \<subseteq># mset (uids s)"
      using arg_cong [OF sp(1), of "image_mset cn_uid"] by (simp add: uids_def)
    show "distinct (uids s)" using assms(2) by (simp add: served_by_def)
  qed
  ultimately show "served_by (live s') s'" using assms(2) c(3) by (simp add: served_by_def ls_resource_def)
  show "\<forall>p \<in> set (keys s'). snd p \<noteq> FLOM_CONN_STATE_REMOVE"
    using sp(3) by (auto simp: keys_def list_all_iff)
qed

lemma idle_served:
  assumes "locker_idle ck inp s = Inr s'" "served_by (live s) s"
  shows "served_by (live s') s'"
proof -
  obtain rc s1 where t: "locker_timeout ck (li_env inp 0) s = (rc, s1)" by force
  have "keys s' = keys s1" "ls_resource s' = ls_resource s1"
    using assms(1) t by (auto simp: locker_idle_def split: if_splits)
  moreover have "rsrc.served (live s) (ls_resource s)" using assms(2) by (simp add: served_by_def)
  ultimately show ?thesis
    using locker_timeout_served [OF t] assms(2) by (simp add: served_by_def live_keys uids_keys)
qed

lemma run_served:
  assumes "locker_run ck inps s = Inr s'" "served_by (live s) s" "run_all client_conforms ck inps s"
  shows "served_by (live s') s'"
  using assms
proof (induction inps arbitrary: s)
  case (Cons inp inps)
  obtain s1 where t: "locker_turn ck inp s = Inr s1" "locker_run ck inps s1 = Inr s'"
    using Cons.prems(1) by (auto split: sum.splits)
  obtain s2 where st: "locker_setup inp s = Inr s2"
    "if li_ready inp = 0 then locker_idle ck inp s2 = Inr s1
     else li_ready inp > 0 \<and> locker_scan ck inp [0..<length (cs_array (ls_conns s2))] s2 = Inr s1"
    using t(1) by (auto simp: locker_turn_def split: sum.splits if_splits)
  note sv = setup_served [OF st(1) Cons.prems(2)]
  have "served_by (live s1) s1"
  proof (cases "li_ready inp = 0")
    case True
    then show ?thesis using idle_served st(2) sv(1) by auto
  next
    case False
    have "\<forall>i \<in> set [0..<length (keys s2)]. i < length (keys s2) \<and> snd (keys s2 ! i) \<noteq> FLOM_CONN_STATE_REMOVE"
      using sv(2) by simp
    then show ?thesis
      using scan_served [OF _ sv(1)] st False Cons.prems(3) by (auto simp: length_keys)
  qed
  then show ?case using Cons.IH t Cons.prems(3) by simp
qed simp

section \<open>Invariants of a resource under a locker\<close>

text \<open>
  The locker touches a resource only through its methods: what they keep, for messages of a
  kind, the turns of the loop keep.
\<close>

definition messages_ok :: "(flom_msg \<Rightarrow> bool) \<Rightarrow> locker_input \<Rightarrow> nat \<Rightarrow> locker_st \<Rightarrow> bool" where
  "messages_ok okm inp i s \<longleftrightarrow> (if re_in (li_revents inp i) then okm (pollin_msg inp i s) else True)"

lemma locker_close_resource: "locker_close inp i s = (rc, s') \<Longrightarrow> ls_resource s' = ls_resource s"
  by (auto simp: locker_close_def ls_resource_def split: prod.splits)

lemma locker_close_msg:
  assumes "locker_close inp i s = (rc, s')"
  shows "cn_msg (cs_array (ls_conns s') ! i) = cn_msg (cs_array (ls_conns s) ! i)"
proof -
  have "cn_msg c' = cn_msg x" if "flom_conn_terminate f x = (r, c')" for f x r c'
    using that by (auto simp: flom_conn_terminate_def flom_tcp_close_def Let_def split: if_splits)
  then show ?thesis
    using assms by (auto simp: locker_close_def flom_conns_close_fd_def split: prod.splits if_splits)
qed

locale locker_resource =
  fixes P :: "flom_resource \<Rightarrow> bool"
    and okm :: "flom_msg \<Rightarrow> bool"
  assumes P_inmsg: "P r \<Longrightarrow> okm m \<Longrightarrow> P (fst (snd (flom_resource_inmsg ck e r c m w)))"
    and P_clean: "P r \<Longrightarrow> P (fst (snd (flom_resource_clean ck e r c w)))"
    and P_timeout: "P r \<Longrightarrow> P (fst (snd (flom_resource_timeout ck e r w)))"
    and P_deadline: "P (put_deadline d r) = P r"
begin

lemma inmsg_P: "locker_inmsg ck e c m s = (rc, m', s') \<Longrightarrow> P (ls_resource s) \<Longrightarrow> okm m \<Longrightarrow> P (ls_resource s')"
  using P_inmsg [of "put_deadline (ls_deadline s) (ls_resource s)" m ck e c "ls_world s"]
  by (auto simp: locker_inmsg_def P_deadline split: prod.splits)

lemma clean_P: "locker_clean ck e c s = (rc, s') \<Longrightarrow> P (ls_resource s) \<Longrightarrow> P (ls_resource s')"
  using P_clean [of "put_deadline (ls_deadline s) (ls_resource s)" ck e c "ls_world s"]
  by (auto simp: locker_clean_def P_deadline split: prod.splits)

lemma drop_P: "locker_drop ck inp i s = (rc, s') \<Longrightarrow> P (ls_resource s) \<Longrightarrow> P (ls_resource s')"
  using clean_P locker_close_resource
  by (fastforce simp: locker_drop_def split: prod.splits if_splits)

lemma process_P:
  assumes "locker_process ck e j s = (rc, s')" "P (ls_resource s)" "okm (cn_msg (cs_array (ls_conns s) ! j))"
  shows "P (ls_resource s')"
  using assms(1,2) inmsg_P [of ck e _ "cn_msg (cs_array (ls_conns s) ! j)" s _ _ _, OF _ assms(2,3)]
  by (auto simp: locker_process_def Let_def split: prod.splits if_splits sum.splits)

lemma new_client_P:
  assumes "locker_new_client ck inp s = (rc, refresh, s')" "P (ls_resource s)" "okm (pollin_msg inp 0 s)"
  shows "P (ls_resource s')"
proof (cases "li_token inp = None \<or> li_new_conn inp = None")
  case True
  then show ?thesis
    using assms(1,2) by (auto simp: locker_new_client_def ls_resource_def Let_def split: option.splits)
next
  case False
  then obtain flt new where t: "li_token inp = Some flt" "li_new_conn inp = Some new" by auto
  define s2 where "s2 = s\<lparr>ls_conns := flom_conns_import ((ls_conns s)\<lparr>cs_domain := tk_domain flt\<rparr>) new,
      ls_locker := (ls_locker s)\<lparr>lk_read_sequence := tk_sequence flt\<rparr>\<rparr>"
  have "ls_resource s2 = ls_resource s" "cn_msg (cs_array (ls_conns s2) ! length (cs_array (ls_conns s))) = pollin_msg inp 0 s"
    using t by (simp_all add: s2_def ls_resource_def flom_conns_import_def pollin_msg_def)
  moreover have "locker_process ck (li_env inp 0) (length (cs_array (ls_conns s))) s2 = (rc, s')"
    using assms(1) t unfolding locker_new_client_def s2_def by (simp add: Let_def split: prod.splits)
  ultimately show ?thesis using process_P assms(2,3) by metis
qed

lemma data_P:
  assumes "locker_data ck inp i s = (rc, refresh, s')" "P (ls_resource s)" "okm (pollin_msg inp i s)" "i \<noteq> 0"
    and "i < length (cs_array (ls_conns s))"
  shows "P (ls_resource s')"
proof -
  obtain rc0 n buffer rest where rv: "flom_conn_recv FLOM_NETWORK_WAIT_TIMEOUT (li_recv inp i) FLOM_MSG_BUFFER_SIZE = (rc0, n, buffer, rest)"
    by (metis prod_cases4)
  obtain events parsed where mk: "li_markup inp i buffer = (events, parsed)" by force
  define m where "m = pollin_msg inp i s"
  define s2 where "s2 = set_last_step (cn_uid (cs_array (ls_conns s) ! i)) (msg_step m) (put_msg i m s)"
  have md: "m = flom_msg_deserialize (li_unb64 inp) events (cn_msg (cs_array (ls_conns s) ! i))"
    using assms(4) by (simp add: m_def pollin_msg_def rv mk)
  have s2: "ls_resource s2 = ls_resource s" "cn_msg (cs_array (ls_conns s2) ! i) = m"
    using assms(5) by (simp add: s2_def) (simp add: s2_def put_msg_def assms(5))
  have proc: "P (ls_resource s4)" if "locker_process ck e i s3 = (rc', s4)" "ls_resource s3 = ls_resource s"
    "cn_msg (cs_array (ls_conns s3) ! i) = m" for e s3 s4 rc'
    using process_P [OF that(1)] that(2,3) assms(2,3) by (simp add: m_def)
  show ?thesis
    using assms(1,2) locker_close_resource [of inp i s] locker_close_resource [of inp i s2] locker_close_msg [of inp i s2]
      clean_P proc s2
    unfolding locker_data_def Let_def rv mk prod.case md [symmetric] s2_def [symmetric]
    by (auto split: prod.splits if_splits)
qed

lemma scan_fd_P:
  assumes "locker_scan_fd ck inp i s = Inr (stop, s')" "P (ls_resource s)" "messages_ok okm inp i s"
  shows "P (ls_resource s')"
proof -
  obtain rc refresh s1 where c:
    "rc = FLOM_RC_OK \<and> s1 = s \<or> flom_locker_loop_pollin ck inp i s = (rc, refresh, s1) \<and> re_in (li_revents inp i)"
    "locker_drop ck inp i s1 = (FLOM_RC_OK, s') \<and> stop \<or> rc = FLOM_RC_OK \<and> s' = s1 \<or>
     (rc = FLOM_RC_OK \<and> i = 0 \<and> stop \<and> (\<exists>s2. locker_close inp 0 s1 = (FLOM_RC_OK, s2) \<and>
        s' = s2\<lparr>ls_locker := (ls_locker s2)\<lparr>lk_read_pipe := FLOM_NULL_FD\<rparr>\<rparr>))"
    by (rule locker_scan_fd_cases [OF assms(1)])
  have "P (ls_resource s1)" using c(1)
  proof (elim disjE conjE)
    assume p: "flom_locker_loop_pollin ck inp i s = (rc, refresh, s1)" "re_in (li_revents inp i)"
    define s0 where "s0 = s\<lparr>ls_locker := (ls_locker s)\<lparr>lk_idle_periods := 0\<rparr>\<rparr>"
    have k: "ls_resource s0 = ls_resource s" "pollin_msg inp i s0 = pollin_msg inp i s" "ls_conns s0 = ls_conns s"
      by (simp_all add: s0_def pollin_msg_def)
    have ok: "okm (pollin_msg inp i s0)" using assms(3) p(2) k by (simp add: messages_ok_def)
    show ?thesis
      using p(1) new_client_P [of ck inp s0] data_P [of ck inp i s0] ok assms(2) k
      unfolding flom_locker_loop_pollin_def s0_def [symmetric] Let_def
      by (auto simp: flom_conns_get_conn_def split: if_splits)
  qed (use assms(2) in simp)
  then show ?thesis using c(2) drop_P locker_close_resource by (fastforce simp: ls_resource_def)
qed

lemma scan_P:
  assumes "locker_scan ck inp is s = Inr s'" "P (ls_resource s)" "scan_all (messages_ok okm) ck inp is s"
  shows "P (ls_resource s')"
  using assms
proof (induction "is" arbitrary: s)
  case (Cons i "is")
  then show ?case using scan_fd_P [of ck inp i s] by (auto split: sum.splits if_splits)
qed simp

lemma run_P:
  assumes "locker_run ck inps s = Inr s'" "P (ls_resource s)" "run_all (messages_ok okm) ck inps s"
  shows "P (ls_resource s')"
  using assms
proof (induction inps arbitrary: s)
  case (Cons inp inps)
  obtain s1 s2 where t: "locker_turn ck inp s = Inr s1" "locker_run ck inps s1 = Inr s'" "locker_setup inp s = Inr s2"
    using Cons.prems(1) by (auto simp: locker_turn_def split: sum.splits)
  have "ls_resource s2 = ls_resource s"
    using t(3) by (auto simp: locker_setup_def ls_resource_def split: prod.splits option.splits if_splits)
  then have P2: "P (ls_resource s2)" using Cons.prems(2) by simp
  have idle: "P (ls_resource s4)" if "locker_idle ck inp s2 = Inr s4" for s4
  proof -
    obtain rc s3 where "locker_timeout ck (li_env inp 0) s2 = (rc, s3)" by force
    then show ?thesis
      using that P2 P_timeout [of "put_deadline (ls_deadline s2) (ls_resource s2)" ck "li_env inp 0" "ls_world s2"]
      by (auto simp: locker_idle_def locker_timeout_def P_deadline split: prod.splits if_splits)
  qed
  have "P (ls_resource s1)"
    using t(1,3) idle scan_P [OF _ P2] Cons.prems(3) by (auto simp: locker_turn_def split: if_splits)
  then show ?case using Cons.IH t Cons.prems(3) by simp
qed simp

end

text \<open>The invariants of the simple and of the numeric resource.\<close>

fun simple_rsrc_inv :: "flom_resource \<Rightarrow> bool" where
  "simple_rsrc_inv (Simple r) = simple_inv r"
| "simple_rsrc_inv r = False"

interpretation locker_simple: locker_resource simple_rsrc_inv simple_ok_msg
proof
  fix r m ck e c w assume "simple_rsrc_inv r" "simple_ok_msg m"
  then show "simple_rsrc_inv (fst (snd (flom_resource_inmsg ck e r c m w)))"
    by (cases r) (simp_all add: on_inmsg_rsrc simple_inmsg_inv)
next
  fix r ck e c w assume "simple_rsrc_inv r"
  then show "simple_rsrc_inv (fst (snd (flom_resource_clean ck e r c w)))"
    by (cases r) (simp_all add: on_clean_rsrc simple_clean_inv)
next
  fix r ck e w assume "simple_rsrc_inv r"
  then show "simple_rsrc_inv (fst (snd (flom_resource_timeout ck e r w)))" by (cases r) simp_all
next
  fix d r show "simple_rsrc_inv (put_deadline d r) = simple_rsrc_inv r" by (cases r) simp_all
qed

section \<open>Properties\<close>


text \<open>Three clients of a simple resource: one with the lock, two that wait; the first one hangs up.\<close>

definition sample_fd :: "nat \<Rightarrow> revents \<Rightarrow> locker_input" where
  "sample_fd i re = \<lparr> li_alloc = True, li_now = (0, 0), li_ready = 1,
     li_revents = (\<lambda>j. if j = i then re else \<lparr>re_in = False, re_err = False, re_hup = False\<rparr>),
     li_env = (\<lambda>j. sample_env), li_close_fails = (\<lambda>j. False), li_token = None, li_new_conn = None,
     li_recv = (\<lambda>j. \<lparr>rv_poll = 1, rv_tls = False, rv_type = SOCK_STREAM, rv_datagram = None, rv_chunks = (\<lambda>n. 1), rv_stream = []\<rparr>),
     li_markup = (\<lambda>j s. ([], True)), li_unb64 = Some \<rparr>"

definition sample_arrival :: "conn \<Rightarrow> flom_msg \<Rightarrow> locker_input" where
  "sample_arrival c m = (sample_fd 0 \<lparr>re_in = True, re_err = False, re_hup = False\<rparr>)\<lparr>
     li_token := Some \<lparr>tk_domain = 1, tk_client_fd = int c + 10, tk_sequence = int c\<rparr>,
     li_new_conn := Some ((flom_conn_init c (int c + 10) False)\<lparr>cn_msg := m\<rparr>)\<rparr>"

definition sample_hangup :: "nat \<Rightarrow> locker_input" where
  "sample_hangup i = sample_fd i \<lparr>re_in = False, re_err = False, re_hup = True\<rparr>"

definition sample_locker :: flom_locker where
  "sample_locker = (flom_locker_init 0)\<lparr>lk_read_pipe := 5,
     lk_resource := Some (Simple (snd (flom_resource_simple_init (Some ''res''))))\<rparr>"

definition sample_thread :: "locker_st" where
  "sample_thread = locker_start 1 sample_locker (100, 0) sample_world"

definition sample_turns :: "locker_input list" where
  "sample_turns = [sample_arrival 1 (sample_lock FLOM_LOCK_MODE_EX), sample_arrival 2 (sample_lock FLOM_LOCK_MODE_PR),
     sample_arrival 3 (sample_lock FLOM_LOCK_MODE_PR), sample_hangup 1]"

definition sample_tick :: clock where "sample_tick = sample_clock (\<lambda>n. (0, 0))"


text \<open>Under a locker thread the locks of a simple resource exclude each other: whatever the clients
  send (with one of the six lock modes), fail or hang up, in every turn of the loop the modes of
  two locks that are held are compatible.\<close>

theorem locker_mutual_exclusion:
  assumes "lk_resource lk = Some (Simple (snd (flom_resource_simple_init name)))"
    and "run_all (messages_ok simple_ok_msg) ck inps (locker_start thread lk now w)"
    and "locker_run ck inps (locker_start thread lk now w) = Inr s" "ls_resource s = Simple r"
    and "i < length (sr_holders r)" "j < length (sr_holders r)" "i \<noteq> j"
  shows "compat (cl_lock_mode (sr_holders r ! i)) (cl_lock_mode (sr_holders r ! j))"
proof -
  have "simple_rsrc_inv (ls_resource (locker_start thread lk now w))"
    using assms(1) by (simp add: locker_start_def ls_resource_def flom_resource_simple_init_def simple_inv_def simple_holders_ok_def)
  from locker_simple.run_P [OF assms(3) this assms(2)] assms(4)
  have "sorted_wrt (\<lambda>a b. compat (cl_lock_mode a) (cl_lock_mode b)) (sr_holders r)"
    by (simp add: simple_inv_def simple_holders_ok_def)
  then show ?thesis using assms(5-7) compat_sym by (metis linorder_neqE_nat sorted_wrt_nth_less)
qed

theorem locker_mutual_exclusion_witness:
  "\<exists>s r. locker_run sample_tick sample_turns sample_thread = Inr s \<and> ls_resource s = Simple r \<and>
     length (sr_holders r) = 2 \<and> compat (cl_lock_mode (sr_holders r ! 0)) (cl_lock_mode (sr_holders r ! 1))"
proof -
  have ok: "run_all (messages_ok simple_ok_msg) sample_tick sample_turns sample_thread" by code_simp
  have "case locker_run sample_tick sample_turns sample_thread of Inl x \<Rightarrow> False
      | Inr s \<Rightarrow> (case ls_resource s of Simple r \<Rightarrow> length (sr_holders r) = 2 | _ \<Rightarrow> False)" by code_simp
  then obtain s r where s: "locker_run sample_tick sample_turns sample_thread = Inr s" "ls_resource s = Simple r"
    "length (sr_holders r) = 2" by (auto split: sum.splits flom_resource.splits)
  have l: "lk_resource sample_locker = Some (Simple (snd (flom_resource_simple_init (Some ''res''))))"
    by (simp add: sample_locker_def)
  from locker_mutual_exclusion [OF l ok [unfolded sample_thread_def] s(1) [unfolded sample_thread_def] s(2), of 0 1] s
  show ?thesis by auto
qed

text \<open>The poll of a locker ends for the deadline of its resource: for two moments less than
  twenty days apart, a poll that starts now and lasts the computed milliseconds ends after the
  deadline and at most two milliseconds late, and a deadline two milliseconds in the past or
  more asks for no time out at all (the other rules for the time out then apply).\<close>

theorem locker_deadline_wakeup:
  assumes "tv_ok now" "tv_ok deadline" "\<bar>fst deadline - fst now\<bar> \<le> 1728000"
    and "t = flom_locker_loop_get_timeout deadline now"
  shows "micros deadline < micros now + 1000 * t \<and> micros now + 1000 * t < micros deadline + 2000 \<and>
    (if micros deadline \<le> micros now - 2000 then t < 0 else if micros now \<le> micros deadline then 0 < t else True)"
proof -
  let ?u = "snd deadline - snd now" and ?s = "fst deadline - fst now"
  have u: "\<bar>?u\<bar> < 1000000" using assms(1,2) by (auto simp: tv_ok_def)
  have d: "?u - 1000 < 1000 * c_div ?u 1000" "1000 * c_div ?u 1000 < ?u + 1000"
    unfolding c_div_def by (cases "?u < 0"; simp add: sgn_if; linarith?)+
  have "gint_range (a * 1000 + b + 1)" if "\<bar>a\<bar> \<le> 1728000" "- 1001000 < 1000 * b" "1000 * b < 1001000" for a b :: int
    unfolding gint_range_def using that by linarith
  moreover have "- 1001000 < 1000 * c_div ?u 1000" "1000 * c_div ?u 1000 < 1001000" using d u by linarith+
  ultimately have "gint_range (?s * 1000 + c_div ?u 1000 + 1)" using assms(3) by blast
  then have t: "t = ?s * 1000 + c_div ?u 1000 + 1"
    using assms(4) by (simp add: flom_locker_loop_get_timeout_def to_gint_id)
  then show ?thesis using d by (auto simp: micros_def)
qed

theorem locker_deadline_wakeup_witness:
  "flom_locker_loop_get_timeout (10, 500) (9, 999000) = 3 \<and>
   micros (10, 500) < micros (9, 999000) + 1000 * 3 \<and> micros (9, 999000) + 1000 * 3 < micros (10, 500) + 2000"
proof -
  have t: "3 = flom_locker_loop_get_timeout (10, 500) (9, 999000)" by code_simp
  have "tv_ok (9, 999000)" "tv_ok (10, 500)" by (simp_all add: tv_ok_def)
  from locker_deadline_wakeup [OF this _ t] t show ?thesis by simp
qed

section \<open>The end of a thread\<close>

text \<open>The connections in use of the array; each turn in which the first one goes away takes one.\<close>

definition in_use :: "locker_st \<Rightarrow> nat" where
  "in_use s = length (filter (\<lambda>c. cn_state c \<noteq> FLOM_CONN_STATE_REMOVE) (cs_array (ls_conns s)))"

definition first_leaves :: "locker_input \<Rightarrow> bool" where
  "first_leaves inp \<longleftrightarrow> li_ready inp > 0 \<and>
     (re_err (li_revents inp 0) \<or> \<not> re_in (li_revents inp 0) \<and> re_hup (li_revents inp 0))"

lemma locker_clean_conns: "ls_conns (snd (locker_clean ck e c s)) = ls_conns s"
  by (simp add: locker_clean_def split: prod.splits)

lemma setup_in_use:
  assumes "locker_setup inp s = Inr s'"
  shows "in_use s' = in_use s" "length (cs_array (ls_conns s')) = in_use s'" "0 < in_use s'"
    "list_all (\<lambda>c. cn_state c \<noteq> FLOM_CONN_STATE_REMOVE) (cs_array (ls_conns s'))"
proof -
  obtain del cs1 where c: "flom_conns_clean (ls_conns s) = (FLOM_RC_OK, del, cs1)"
    "cs_array (ls_conns s') = cs_array cs1" "cs_array cs1 \<noteq> []"
    using assms
    by (auto simp: locker_setup_def flom_conns_clean_def flom_conns_get_fds_def flom_conns_set_events_def Let_def
        split: prod.splits option.splits if_splits)
  have "clean_loop 0 (cs_array (ls_conns s)) = (del, cs_array (ls_conns s'))"
    using c(1,2) by (auto simp: flom_conns_clean_def split: prod.splits)
  from clean_loop_spec [OF this] have sp: "mset (cs_array (ls_conns s)) = mset del + mset (cs_array (ls_conns s'))"
    "list_all (\<lambda>c. cn_state c = FLOM_CONN_STATE_REMOVE) del"
    "list_all (\<lambda>c. cn_state c \<noteq> FLOM_CONN_STATE_REMOVE) (cs_array (ls_conns s'))" by simp_all
  have "size (filter_mset (\<lambda>c. cn_state c \<noteq> FLOM_CONN_STATE_REMOVE) (mset (cs_array (ls_conns t)))) = in_use t" for t
    by (simp add: in_use_def flip: mset_filter size_mset)
  moreover have "filter (\<lambda>c. cn_state c \<noteq> FLOM_CONN_STATE_REMOVE) del = []"
    using sp(2) by (auto simp: filter_empty_conv list_all_iff)
  ultimately show "in_use s' = in_use s"
    using arg_cong [OF sp(1), of "\<lambda>M. size (filter_mset (\<lambda>c. cn_state c \<noteq> FLOM_CONN_STATE_REMOVE) M)"]
    by (simp flip: mset_filter)
  show l: "length (cs_array (ls_conns s')) = in_use s'"
    using sp(3) by (simp add: in_use_def list_all_iff filter_id_conv [THEN iffD2])
  show "0 < in_use s'" using c(2,3) l by (metis length_greater_0_conv)
  show "list_all (\<lambda>c. cn_state c \<noteq> FLOM_CONN_STATE_REMOVE) (cs_array (ls_conns s'))" by (rule sp(3))
qed

lemma close_in_use:
  assumes "locker_close inp 0 s = (rc, s')" "cs_array (ls_conns s) = c # cs" "cn_state c \<noteq> FLOM_CONN_STATE_REMOVE"
  shows "Suc (in_use s') = in_use s"
proof -
  obtain c' where t: "flom_conn_terminate (li_close_fails inp 0) c = (rc, c')" "cs_array (ls_conns s') = c' # cs"
    using assms(1,2) by (auto simp: locker_close_def flom_conns_close_fd_def split: prod.splits)
  show ?thesis using terminate_state [OF t(1)] t(2) assms(2,3) by (simp add: in_use_def)
qed

lemma turn_in_use:
  assumes "locker_turn ck inp s = Inr s'" "first_leaves inp"
  shows "in_use s' < in_use s"
proof -
  obtain s1 where st: "locker_setup inp s = Inr s1" "locker_scan ck inp [0..<length (cs_array (ls_conns s1))] s1 = Inr s'"
    using assms by (auto simp: locker_turn_def first_leaves_def split: sum.splits)
  note u = setup_in_use [OF st(1)]
  obtain c cs where a: "cs_array (ls_conns s1) = c # cs" using u(2,3) by (metis length_greater_0_conv neq_Nil_conv)
  have c: "cn_state c \<noteq> FLOM_CONN_STATE_REMOVE" using u(4) a by simp
  have n: "0 < length (cs_array (ls_conns s1))" using a by simp
  from upt_conv_Cons [OF n] have "locker_scan_fd ck inp 0 s1 = Inr (True, s')"
    using st(2) assms(2)
    by (auto simp: locker_scan_fd_def scan_break_def first_leaves_def Let_def split: sum.splits prod.splits if_splits)
  moreover have "in_use t = in_use s2" if "locker_clean ck e x s2 = (r, t)" for e x s2 r t
    using that by (auto simp: locker_clean_def in_use_def split: prod.splits)
  moreover have "in_use (t\<lparr>ls_locker := lk\<rparr>) = in_use t" for t lk by (simp add: in_use_def)
  ultimately have "Suc (in_use s') = in_use s1"
    using close_in_use [OF _ a c] assms(2)
    by (auto simp: locker_scan_fd_def scan_break_def locker_drop_def first_leaves_def Let_def split: prod.splits if_splits)
  then show ?thesis using u(1) by simp
qed

text \<open>C23. A locker thread ends when its connections have gone: if in every turn of the loop the first
  connection of the array hangs up or fails (the main thread has closed the pipe and the clients
  leave), then after more turns than the array had connections the thread has left the loop, also
  when closing, cleaning up or the allocation fails.\<close>

theorem locker_terminates:
  assumes "list_all first_leaves inps" "length (cs_array (ls_conns s)) < length inps"
  shows "\<exists>rc s'. locker_run ck inps s = Inl (rc, s')"
proof -
  have "in_use s < length inps"
    using assms(2) by (simp add: in_use_def) (meson le_less_trans length_filter_le)
  with assms(1) have "\<exists>x. locker_run ck inps s = Inl x"
  proof (induction inps arbitrary: s)
    case (Cons inp inps)
    show ?case
    proof (cases "locker_turn ck inp s")
      case (Inr s')
      then show ?thesis using Cons turn_in_use [OF Inr] by auto
    qed simp
  qed simp
  then show ?thesis by auto
qed

theorem locker_terminates_witness:
  "\<exists>rc s'. locker_run sample_tick [sample_hangup 0, sample_hangup 0] sample_thread = Inl (rc, s')"
proof (rule locker_terminates)
  show "list_all first_leaves [sample_hangup 0, sample_hangup 0]" by code_simp
  show "length (cs_array (ls_conns sample_thread)) < length [sample_hangup 0, sample_hangup 0]" by code_simp
qed

section \<open>What a failure costs\<close>

text \<open>A failure on behalf of a new client closes the pipe: when the first message of a client
  cannot be processed (for instance because its connection was reset and the answer cannot be
  sent), the connection that the loop closes is the one with the index zero, which is the pipe of
  the main thread; the new client stays in the array and no other one can arrive.\<close>

theorem new_client_failure_closes_pipe:
  assumes "re_in (li_revents inp 0)" "\<not> re_err (li_revents inp 0)" "cs_array (ls_conns s) \<noteq> []"
    and "locker_new_client ck inp (s\<lparr>ls_locker := (ls_locker s)\<lparr>lk_idle_periods := 0\<rparr>\<rparr>) = (rc, refresh, s1)"
    and "rc \<noteq> FLOM_RC_OK" "cs_array (ls_conns s1) = pipe # clients" "locker_scan_fd ck inp 0 s = Inr (stop, s')"
  shows "cn_state (cs_array (ls_conns s') ! 0) = FLOM_CONN_STATE_REMOVE \<and> tl (cs_array (ls_conns s')) = clients"
proof -
  have "flom_locker_loop_pollin ck inp 0 s = (rc, refresh, s1)"
    using assms(3,4) by (simp add: flom_locker_loop_pollin_def flom_conns_get_conn_def)
  then obtain s2 where d: "locker_close inp 0 s1 = (FLOM_RC_OK, s2)"
    "\<exists>c. locker_clean ck (li_env inp 0) c s2 = (FLOM_RC_OK, s')"
    using assms(1,2,5,7) by (auto simp: locker_scan_fd_def locker_drop_def scan_break_def Let_def split: prod.splits if_splits)
  obtain c' where t: "flom_conn_terminate (li_close_fails inp 0) pipe = (FLOM_RC_OK, c')" "cs_array (ls_conns s2) = c' # clients"
    using d(1) assms(6) by (auto simp: locker_close_def flom_conns_close_fd_def split: prod.splits)
  moreover have "ls_conns s' = ls_conns s2" using d(2) locker_clean_conns by (metis snd_conv)
  ultimately show ?thesis using terminate_state [OF t(1)] by simp
qed

definition reset_env :: env where
  "reset_env = sample_env\<lparr>e_send := (\<lambda>n c. FLOM_RC_CONNECTION_CLOSED)\<rparr>"

definition reset_arrival :: locker_input where
  "reset_arrival = (sample_arrival 1 (sample_lock FLOM_LOCK_MODE_EX))\<lparr>li_env := (\<lambda>i. reset_env)\<rparr>"

theorem new_client_failure_closes_pipe_witness:
  "\<exists>s'. locker_scan_fd sample_tick reset_arrival 0 sample_thread = Inr (True, s') \<and>
     cn_state (cs_array (ls_conns s') ! 0) = FLOM_CONN_STATE_REMOVE \<and> map cn_uid (tl (cs_array (ls_conns s'))) = [1]"
proof -
  let ?n = "locker_new_client sample_tick reset_arrival
      (sample_thread\<lparr>ls_locker := (ls_locker sample_thread)\<lparr>lk_idle_periods := 0\<rparr>\<rparr>)"
  obtain rc refresh s1 where n: "?n = (rc, refresh, s1)" by (metis prod_cases3)
  have "fst ?n = FLOM_RC_CONNECTION_CLOSED" by code_simp
  then have rc: "rc \<noteq> FLOM_RC_OK" using n by simp
  have "map cn_uid (cs_array (ls_conns (snd (snd ?n)))) = [0, 1]" by code_simp
  then obtain p cl where a: "cs_array (ls_conns s1) = p # cl" "map cn_uid cl = [1]" using n by auto
  have "case locker_scan_fd sample_tick reset_arrival 0 sample_thread of Inl x \<Rightarrow> False | Inr (stop, s) \<Rightarrow> stop" by code_simp
  then obtain s' where s': "locker_scan_fd sample_tick reset_arrival 0 sample_thread = Inr (True, s')"
    by (auto split: sum.splits)
  have r: "re_in (li_revents reset_arrival 0)" "\<not> re_err (li_revents reset_arrival 0)" "cs_array (ls_conns sample_thread) \<noteq> []"
    by code_simp+
  from new_client_failure_closes_pipe [OF r n rc a(1) s'] a(2) s' show ?thesis by auto
qed

text \<open>A waiting client that is gone ends the whole locker: when the lock of a client that hangs up
  is passed to the next one and the answer cannot be sent, the error of the clean-up leaves the
  loop, so that the thread ends with all its connections and the locks that other clients hold.\<close>

theorem waiter_gone_ends_locker:
  "let s = projr (locker_run sample_tick (butlast sample_turns) sample_thread);
       gone = (sample_hangup 1)\<lparr>li_env := (\<lambda>i. sample_env\<lparr>e_send := (\<lambda>n c. FLOM_RC_SEND_ERROR)\<rparr>)\<rparr> in
   isl (locker_turn sample_tick gone s) \<and> fst (projl (locker_turn sample_tick gone s)) = FLOM_RC_SEND_ERROR"
  by code_simp

end
