(* ===== verification/Config.thy ===== *)
theory Config
  imports Msg Rsrc_Name
begin

text \<open>
  The configuration object, \<^verbatim>\<open>src/src/flom_config.c\<close> and \<^verbatim>\<open>flom_config.h\<close>: the defaults,
  the loading of the configuration files, the setters, the final check, the
  copy made for every handle and the release.

  The eleven strings of \<^verbatim>\<open>flom_config_t\<close> are pointers into an explicit heap, since
  the copy shares some of them and every setter releases what it replaces; a
  release of a string that is not allocated is recorded in the heap.  The key
  files (GLib), the directories, the network interfaces and the user's home are
  parameters.  The argument \<^verbatim>\<open>config == NULL\<close> selects \<^verbatim>\<open>global_config\<close>: every
  function works on the object that is passed to it.
\<close>

section \<open>The heap of strings\<close>

type_synonym addr = nat

text \<open>
  \<^verbatim>\<open>h_bad\<close> records that a pointer that is not allocated was released or read.
  Addresses are never used twice, so that a dangling pointer stays one.
\<close>

record sheap =
  h_map :: "addr \<Rightarrow> string option"
  h_next :: addr
  h_bad :: bool

definition g_free :: "addr option \<Rightarrow> sheap \<Rightarrow> sheap" where
  "g_free p h = (case p of
       None \<Rightarrow> h
     | Some a \<Rightarrow> (case h_map h a of
          None \<Rightarrow> h\<lparr>h_bad := True\<rparr>
        | Some _ \<Rightarrow> h\<lparr>h_map := (h_map h)(a := None)\<rparr>))"

definition g_strdup :: "string option \<Rightarrow> sheap \<Rightarrow> addr option \<times> sheap" where
  "g_strdup v h = (case v of
       None \<Rightarrow> (None, h)
     | Some t \<Rightarrow> (Some (h_next h), h\<lparr>h_map := (h_map h)(h_next h := Some t), h_next := Suc (h_next h)\<rparr>))"

definition str_of :: "sheap \<Rightarrow> addr option \<Rightarrow> string option" where
  "str_of h p = (case p of None \<Rightarrow> None | Some a \<Rightarrow> h_map h a)"

section \<open>The configuration object\<close>

text \<open>
  \<^verbatim>\<open>struct flom_config_s\<close>.  The type of the string members is a parameter: an
  address in the objects of the program, the string itself in the value of a
  configuration.
\<close>

record 'p flom_config =
  cf_socket_name :: "'p option"
  cf_daemon_trace_file :: "'p option"
  cf_command_trace_file :: "'p option"
  cf_append_trace_file :: bool
  cf_verbose :: bool
  cf_daemon_lifespan :: int
  cf_resource_name :: "'p option"
  cf_resource_transactional :: bool
  cf_resource_create :: bool
  cf_resource_idle_lifespan :: int
  cf_resource_timeout :: int
  cf_resource_quantity :: int
  cf_lock_mode :: flom_lock_mode
  cf_unicast_address :: "'p option"
  cf_unicast_port :: int
  cf_multicast_address :: "'p option"
  cf_multicast_port :: int
  cf_mount_point_vfs :: "'p option"
  cf_network_interface :: "'p option"
  cf_sin6_scope_id :: nat
  cf_discovery_attempts :: int
  cf_discovery_timeout :: int
  cf_discovery_ttl :: int
  cf_tcp_keepalive_time :: int
  cf_tcp_keepalive_intvl :: int
  cf_tcp_keepalive_probes :: int
  cf_tls_certificate :: "'p option"
  cf_tls_private_key :: "'p option"
  cf_tls_ca_certificate :: "'p option"
  cf_tls_check_peer_id :: bool
  cf_ignored_signals :: "nat set"

type_synonym config = "addr flom_config"
type_synonym config_value = "string flom_config"

record cfg_state =
  heap :: sheap
  cfg :: config

datatype flom_bool_value = FLOM_BOOL_NO | FLOM_BOOL_YES | FLOM_BOOL_INVALID

definition flom_bool_value_retrieve :: "string \<Rightarrow> flom_bool_value" where
  "flom_bool_value_retrieve text =
     (if strcasestr text ''no'' then FLOM_BOOL_NO
      else if strcasestr text ''yes'' then FLOM_BOOL_YES
      else if strcasestr text ''n'' then FLOM_BOOL_NO
      else if strcasestr text ''y'' then FLOM_BOOL_YES
      else FLOM_BOOL_INVALID)"

definition DEFAULT_RESOURCE_NAME :: string where "DEFAULT_RESOURCE_NAME = ''_RESOURCE''"

text \<open>\<^verbatim>\<open>sizeof(sun_path)\<close> of the platform.\<close>

definition LOCAL_SOCKET_SIZE :: nat where "LOCAL_SOCKET_SIZE = 108"

abbreviation (input) FLOM_RC_INVALID_IPV6_NETWORK_INTERFACE :: int
  where "FLOM_RC_INVALID_IPV6_NETWORK_INTERFACE \<equiv> - 20"
abbreviation (input) FLOM_RC_CLOSEDIR_ERROR :: int where "FLOM_RC_CLOSEDIR_ERROR \<equiv> - 104"
abbreviation (input) FLOM_RC_GETIFADDRS_ERROR :: int where "FLOM_RC_GETIFADDRS_ERROR \<equiv> - 111"
abbreviation (input) FLOM_RC_OPENDIR_ERROR :: int where "FLOM_RC_OPENDIR_ERROR \<equiv> - 121"
abbreviation (input) FLOM_RC_REALPATH_ERROR :: int where "FLOM_RC_REALPATH_ERROR \<equiv> - 125"
abbreviation (input) FLOM_RC_G_KEY_FILE_LOAD_FROM_FILE_ERROR :: int
  where "FLOM_RC_G_KEY_FILE_LOAD_FROM_FILE_ERROR \<equiv> - 203"
abbreviation (input) FLOM_RC_G_KEY_FILE_NEW_ERROR :: int
  where "FLOM_RC_G_KEY_FILE_NEW_ERROR \<equiv> - 204"

text \<open>
  The defaults are the values of \<^verbatim>\<open>configure.ac\<close>.  The pointers are overwritten, not
  released: the function is called once on an object that holds no strings.
\<close>

definition flom_config_reset :: "sheap \<Rightarrow> cfg_state" where
  "flom_config_reset h =
     (let (p, h') = g_strdup (Some DEFAULT_RESOURCE_NAME) h in
      \<lparr>heap = h', cfg =
        \<lparr>cf_socket_name = None, cf_daemon_trace_file = None, cf_command_trace_file = None,
         cf_append_trace_file = False, cf_verbose = False, cf_daemon_lifespan = 5000,
         cf_resource_name = p, cf_resource_transactional = False, cf_resource_create = True,
         cf_resource_idle_lifespan = 0, cf_resource_timeout = - 1, cf_resource_quantity = 1,
         cf_lock_mode = FLOM_LOCK_MODE_EX, cf_unicast_address = None, cf_unicast_port = 28015,
         cf_multicast_address = None, cf_multicast_port = 28015, cf_mount_point_vfs = None,
         cf_network_interface = None, cf_sin6_scope_id = 0, cf_discovery_attempts = 2,
         cf_discovery_timeout = 500, cf_discovery_ttl = 1, cf_tcp_keepalive_time = 60,
         cf_tcp_keepalive_intvl = 10, cf_tcp_keepalive_probes = 6, cf_tls_certificate = None,
         cf_tls_private_key = None, cf_tls_ca_certificate = None, cf_tls_check_peer_id = False,
         cf_ignored_signals = {}\<rparr>\<rparr>)"

text \<open>\<^verbatim>\<open>flom_config_free\<close>: the strings are released in this order and the pointers cleared.\<close>

definition flom_config_free :: "cfg_state \<Rightarrow> cfg_state" where
  "flom_config_free s =
     (let c = cfg s;
          h = fold g_free
            [cf_daemon_trace_file c, cf_command_trace_file c, cf_resource_name c, cf_socket_name c,
             cf_unicast_address c, cf_multicast_address c, cf_mount_point_vfs c,
             cf_network_interface c, cf_tls_certificate c, cf_tls_private_key c,
             cf_tls_ca_certificate c] (heap s)
      in \<lparr>heap = h, cfg = c\<lparr>cf_daemon_trace_file := None, cf_command_trace_file := None,
           cf_resource_name := None, cf_socket_name := None, cf_unicast_address := None,
           cf_multicast_address := None, cf_mount_point_vfs := None, cf_network_interface := None,
           cf_tls_certificate := None, cf_tls_private_key := None,
           cf_tls_ca_certificate := None\<rparr>\<rparr>)"

text \<open>
  \<^verbatim>\<open>flom_config_clone\<close>: the structure is copied and eight of the eleven strings are
  duplicated; the result is the new object with the heap that holds both.  The
  three TLS names are not among them.
\<close>

definition flom_config_clone :: "sheap \<Rightarrow> config \<Rightarrow> sheap \<times> config" where
  "flom_config_clone h0 g =
     (let (p1, h1) = g_strdup (str_of h0 (cf_daemon_trace_file g)) h0;
          (p2, h2) = g_strdup (str_of h1 (cf_command_trace_file g)) h1;
          (p3, h3) = g_strdup (str_of h2 (cf_resource_name g)) h2;
          (p4, h4) = g_strdup (str_of h3 (cf_socket_name g)) h3;
          (p5, h5) = g_strdup (str_of h4 (cf_unicast_address g)) h4;
          (p6, h6) = g_strdup (str_of h5 (cf_multicast_address g)) h5;
          (p7, h7) = g_strdup (str_of h6 (cf_mount_point_vfs g)) h6;
          (p8, h8) = g_strdup (str_of h7 (cf_network_interface g)) h7
      in (h8, g\<lparr>cf_daemon_trace_file := p1, cf_command_trace_file := p2, cf_resource_name := p3,
               cf_socket_name := p4, cf_unicast_address := p5, cf_multicast_address := p6,
               cf_mount_point_vfs := p7, cf_network_interface := p8\<rparr>))"

section \<open>The setters\<close>

text \<open>\<^verbatim>\<open>g_free(config->x); config->x = g_strdup(v)\<close>, the step all string setters share.\<close>

definition set_string ::
  "(config \<Rightarrow> addr option) \<Rightarrow> ((addr option \<Rightarrow> addr option) \<Rightarrow> config \<Rightarrow> config)
     \<Rightarrow> string option \<Rightarrow> cfg_state \<Rightarrow> cfg_state" where
  "set_string get upd v s =
     (let (p, h) = g_strdup v (g_free (get (cfg s)) (heap s))
      in \<lparr>heap = h, cfg = upd (\<lambda>_. p) (cfg s)\<rparr>)"

definition set_plain :: "(config \<Rightarrow> config) \<Rightarrow> cfg_state \<Rightarrow> cfg_state" where
  "set_plain f s = s\<lparr>cfg := f (cfg s)\<rparr>"

text \<open>\<^verbatim>\<open>if (0 > value) value = -value;\<close> on a \<^verbatim>\<open>gint\<close>: the smallest one is its own negation.\<close>

definition gint_abs :: "int \<Rightarrow> int" where
  "gint_abs v = (if v < 0 then to_gint (- v) else v)"

definition flom_config_set_socket_name :: "string option \<Rightarrow> cfg_state \<Rightarrow> rc \<times> cfg_state" where
  "flom_config_set_socket_name v s =
     (if (case v of None \<Rightarrow> False | Some t \<Rightarrow> LOCAL_SOCKET_SIZE \<le> length t)
      then (FLOM_RC_BUFFER_OVERFLOW, s)
      else (FLOM_RC_OK, set_string cf_socket_name cf_socket_name_update v s))"

definition flom_config_set_daemon_trace_file :: "string option \<Rightarrow> cfg_state \<Rightarrow> cfg_state" where
  "flom_config_set_daemon_trace_file = set_string cf_daemon_trace_file cf_daemon_trace_file_update"

definition flom_config_set_command_trace_file :: "string option \<Rightarrow> cfg_state \<Rightarrow> cfg_state" where
  "flom_config_set_command_trace_file =
     set_string cf_command_trace_file cf_command_trace_file_update"

text \<open>
  The reserved name and the invalid ones are refused, but the transactional mark
  is overwritten from the refused name all the same.
\<close>

definition flom_config_set_resource_name :: "string \<Rightarrow> cfg_state \<Rightarrow> rc \<times> cfg_state" where
  "flom_config_set_resource_name v s =
     (let (ret_cod, s') =
        (if v = DEFAULT_RESOURCE_NAME then (FLOM_RC_INVALID_RESOURCE_NAME, s)
         else if flom_rsrc_get_type v = FLOM_RSRC_TYPE_NULL then (FLOM_RC_INVALID_RESOURCE_NAME, s)
         else (FLOM_RC_OK, set_string cf_resource_name cf_resource_name_update (Some v) s))
      in (ret_cod, set_plain (cf_resource_transactional_update
            (\<lambda>_. flom_rsrc_get_transactional v)) s'))"

definition flom_config_set_append_trace_file :: "bool \<Rightarrow> cfg_state \<Rightarrow> cfg_state" where
  "flom_config_set_append_trace_file v = set_plain (cf_append_trace_file_update (\<lambda>_. v))"

definition flom_config_set_verbose :: "bool \<Rightarrow> cfg_state \<Rightarrow> cfg_state" where
  "flom_config_set_verbose v = set_plain (cf_verbose_update (\<lambda>_. v))"

definition flom_config_set_lifespan :: "int \<Rightarrow> cfg_state \<Rightarrow> cfg_state" where
  "flom_config_set_lifespan v = set_plain (cf_daemon_lifespan_update (\<lambda>_. v))"

definition flom_config_set_resource_create :: "bool \<Rightarrow> cfg_state \<Rightarrow> cfg_state" where
  "flom_config_set_resource_create v = set_plain (cf_resource_create_update (\<lambda>_. v))"

definition flom_config_set_resource_timeout :: "int \<Rightarrow> cfg_state \<Rightarrow> cfg_state" where
  "flom_config_set_resource_timeout v = set_plain (cf_resource_timeout_update (\<lambda>_. v))"

definition flom_config_set_resource_quantity :: "int \<Rightarrow> cfg_state \<Rightarrow> cfg_state" where
  "flom_config_set_resource_quantity v s =
     (let v' = gint_abs v in
      if v' \<noteq> 0 then set_plain (cf_resource_quantity_update (\<lambda>_. v')) s else s)"

definition flom_config_set_lock_mode :: "flom_lock_mode \<Rightarrow> cfg_state \<Rightarrow> cfg_state" where
  "flom_config_set_lock_mode v = set_plain (cf_lock_mode_update (\<lambda>_. v))"

definition flom_config_set_resource_idle_lifespan :: "int \<Rightarrow> cfg_state \<Rightarrow> cfg_state" where
  "flom_config_set_resource_idle_lifespan v s =
     (let v' = gint_abs v in
      if v' \<noteq> 0 then set_plain (cf_resource_idle_lifespan_update (\<lambda>_. v')) s else s)"

definition flom_config_set_unicast_address :: "string option \<Rightarrow> cfg_state \<Rightarrow> cfg_state" where
  "flom_config_set_unicast_address = set_string cf_unicast_address cf_unicast_address_update"

definition flom_config_set_unicast_port :: "int \<Rightarrow> cfg_state \<Rightarrow> cfg_state" where
  "flom_config_set_unicast_port v = set_plain (cf_unicast_port_update (\<lambda>_. gint_abs v))"

definition flom_config_set_multicast_address :: "string option \<Rightarrow> cfg_state \<Rightarrow> cfg_state" where
  "flom_config_set_multicast_address = set_string cf_multicast_address cf_multicast_address_update"

definition flom_config_set_multicast_port :: "int \<Rightarrow> cfg_state \<Rightarrow> cfg_state" where
  "flom_config_set_multicast_port v = set_plain (cf_multicast_port_update (\<lambda>_. gint_abs v))"

definition flom_config_set_discovery_attempts :: "int \<Rightarrow> cfg_state \<Rightarrow> cfg_state" where
  "flom_config_set_discovery_attempts v =
     set_plain (cf_discovery_attempts_update (\<lambda>_. let v' = gint_abs v in if v' = 0 then 1 else v'))"

definition flom_config_set_discovery_timeout :: "int \<Rightarrow> cfg_state \<Rightarrow> cfg_state" where
  "flom_config_set_discovery_timeout v = set_plain (cf_discovery_timeout_update (\<lambda>_. gint_abs v))"

definition flom_config_set_discovery_ttl :: "int \<Rightarrow> cfg_state \<Rightarrow> cfg_state" where
  "flom_config_set_discovery_ttl v =
     set_plain (cf_discovery_ttl_update (\<lambda>_. let v' = gint_abs v in if v' = 0 then 1 else v'))"

definition flom_config_set_tcp_keepalive_time :: "int \<Rightarrow> cfg_state \<Rightarrow> cfg_state" where
  "flom_config_set_tcp_keepalive_time v =
     set_plain (cf_tcp_keepalive_time_update (\<lambda>_. gint_abs v))"

definition flom_config_set_tcp_keepalive_intvl :: "int \<Rightarrow> cfg_state \<Rightarrow> cfg_state" where
  "flom_config_set_tcp_keepalive_intvl v =
     set_plain (cf_tcp_keepalive_intvl_update (\<lambda>_. gint_abs v))"

definition flom_config_set_tcp_keepalive_probes :: "int \<Rightarrow> cfg_state \<Rightarrow> cfg_state" where
  "flom_config_set_tcp_keepalive_probes v =
     set_plain (cf_tcp_keepalive_probes_update (\<lambda>_. gint_abs v))"

definition flom_config_set_tls_check_peer_id :: "bool \<Rightarrow> cfg_state \<Rightarrow> cfg_state" where
  "flom_config_set_tls_check_peer_id v = set_plain (cf_tls_check_peer_id_update (\<lambda>_. v))"

section \<open>The system around the configuration\<close>

text \<open>
  A loaded key file answers the three kinds of query the code makes; an integer
  that cannot be had comes with the error code of GLib.  An interface has a name
  and, if its address is an IPv6 one, a scope.
\<close>

datatype gkf_error = G_KEY_FILE_ERROR_KEY_NOT_FOUND | G_KEY_FILE_ERROR_GROUP_NOT_FOUND
  | G_KEY_FILE_ERROR_INVALID_VALUE | G_KEY_FILE_ERROR_OTHER

record key_file =
  gkf_string :: "string \<Rightarrow> string \<Rightarrow> string option"
  gkf_integer :: "string \<Rightarrow> string \<Rightarrow> gkf_error + int"
  gkf_string_list :: "string \<Rightarrow> string \<Rightarrow> string list option"

record cfg_env =
  e_key_file_new :: bool
  e_load :: "string \<Rightarrow> key_file option"
  e_opendir :: "string \<Rightarrow> bool"
  e_closedir :: "string \<Rightarrow> bool"
  e_realpath :: "string \<Rightarrow> string option"
  e_ifaddrs :: "(string \<times> nat option) list option"
  e_sysconfdir :: string
  e_home :: "string option"
  e_home_dir :: string
  e_login :: "string option"

definition flom_config_set_mount_point_vfs ::
  "cfg_env \<Rightarrow> string \<Rightarrow> cfg_state \<Rightarrow> rc \<times> cfg_state" where
  "flom_config_set_mount_point_vfs e v s =
     (if \<not> e_opendir e v then (FLOM_RC_OPENDIR_ERROR, s)
      else if \<not> e_closedir e v then (FLOM_RC_CLOSEDIR_ERROR, s)
      else (FLOM_RC_OK, set_string cf_mount_point_vfs cf_mount_point_vfs_update (Some v) s))"

fun if_scope :: "string \<Rightarrow> (string \<times> nat option) list \<Rightarrow> nat option" where
  "if_scope v [] = None"
| "if_scope v ((name, addr6) # ifs) =
     (case addr6 of
        None \<Rightarrow> if_scope v ifs
      | Some sc \<Rightarrow> if v = name then Some sc else if_scope v ifs)"

definition flom_config_set_network_interface ::
  "cfg_env \<Rightarrow> string \<Rightarrow> cfg_state \<Rightarrow> rc \<times> cfg_state" where
  "flom_config_set_network_interface e v s =
     (case e_ifaddrs e of
        None \<Rightarrow> (FLOM_RC_GETIFADDRS_ERROR, s)
      | Some ifs \<Rightarrow> (case if_scope v ifs of
           None \<Rightarrow> (FLOM_RC_INVALID_IPV6_NETWORK_INTERFACE, s)
         | Some sc \<Rightarrow> (FLOM_RC_OK,
              set_string cf_network_interface cf_network_interface_update (Some v)
                (set_plain (cf_sin6_scope_id_update (\<lambda>_. sc)) s))))"

fun if_name :: "nat \<Rightarrow> (string \<times> nat option) list \<Rightarrow> string option" where
  "if_name v [] = None"
| "if_name v ((name, addr6) # ifs) =
     (case addr6 of
        None \<Rightarrow> if_name v ifs
      | Some sc \<Rightarrow> if v = sc then Some name else if_name v ifs)"

definition flom_config_set_sin6_scope_id ::
  "cfg_env \<Rightarrow> nat \<Rightarrow> cfg_state \<Rightarrow> rc \<times> cfg_state" where
  "flom_config_set_sin6_scope_id e v s =
     (case e_ifaddrs e of
        None \<Rightarrow> (FLOM_RC_GETIFADDRS_ERROR, s)
      | Some ifs \<Rightarrow> (case if_name v ifs of
           None \<Rightarrow> (FLOM_RC_INVALID_IPV6_NETWORK_INTERFACE, s)
         | Some name \<Rightarrow> (FLOM_RC_OK,
              set_string cf_network_interface cf_network_interface_update (Some name)
                (set_plain (cf_sin6_scope_id_update (\<lambda>_. v)) s))))"

definition flom_config_set_tls_certificate ::
  "cfg_env \<Rightarrow> string \<Rightarrow> cfg_state \<Rightarrow> rc \<times> cfg_state" where
  "flom_config_set_tls_certificate e v s =
     (case e_realpath e v of
        None \<Rightarrow> (FLOM_RC_REALPATH_ERROR, s)
      | Some r \<Rightarrow> (FLOM_RC_OK, set_string cf_tls_certificate cf_tls_certificate_update (Some r) s))"

definition flom_config_set_tls_private_key ::
  "cfg_env \<Rightarrow> string \<Rightarrow> cfg_state \<Rightarrow> rc \<times> cfg_state" where
  "flom_config_set_tls_private_key e v s =
     (case e_realpath e v of
        None \<Rightarrow> (FLOM_RC_REALPATH_ERROR, s)
      | Some r \<Rightarrow> (FLOM_RC_OK, set_string cf_tls_private_key cf_tls_private_key_update (Some r) s))"

definition flom_config_set_tls_ca_certificate ::
  "cfg_env \<Rightarrow> string \<Rightarrow> cfg_state \<Rightarrow> rc \<times> cfg_state" where
  "flom_config_set_tls_ca_certificate e v s =
     (case e_realpath e v of
        None \<Rightarrow> (FLOM_RC_REALPATH_ERROR, s)
      | Some r \<Rightarrow> (FLOM_RC_OK,
           set_string cf_tls_ca_certificate cf_tls_ca_certificate_update (Some r) s))"

section \<open>Ignored signals\<close>

definition SIGNAL_STRING_ARRAY :: "string list" where
  "SIGNAL_STRING_ARRAY =
     ['''', ''SIGHUP'', ''SIGINT'', ''SIGQUIT'', ''SIGILL'', ''SIGTRAP'', ''SIGABRT'', ''SIGBUS'',
      ''SIGFPE'', ''SIGKILL'', ''SIGUSR1'', ''SIGSEGV'', ''SIGUSR2'', ''SIGPIPE'', ''SIGALRM'',
      ''SIGTERM'', ''SIGSTKFLT'', ''SIGCHLD'', ''SIGCONT'', ''SIGSTOP'', ''SIGTSTP'', ''SIGTTIN'',
      ''SIGTTOU'', ''SIGURG'', ''SIGXCPU'', ''SIGXFSZ'', ''SIGVTALRM'', ''SIGPROF'', ''SIGWINCH'',
      ''SIGIO'', ''SIGPWR'', ''SIGSYS'']"

abbreviation (input) SIGNAL_STRING_ARRAY_SIZE :: nat
  where "SIGNAL_STRING_ARRAY_SIZE \<equiv> length SIGNAL_STRING_ARRAY"

definition signal_number_of :: "string \<Rightarrow> int" where
  "signal_number_of t =
     (let n = to_gint (strtol t) in
      if n \<le> 0 \<or> int SIGNAL_STRING_ARRAY_SIZE \<le> n
      then (case find (\<lambda>j. SIGNAL_STRING_ARRAY ! j = t) [1..<SIGNAL_STRING_ARRAY_SIZE] of
              Some j \<Rightarrow> int j
            | None \<Rightarrow> n)
      else n)"

definition add_signal :: "string \<Rightarrow> nat set \<Rightarrow> nat set" where
  "add_signal t sigs =
     (let n = signal_number_of t in
      if 0 < n \<and> n < int SIGNAL_STRING_ARRAY_SIZE then insert (nat n) sigs else sigs)"

definition flom_config_set_ignored_signals :: "string list option \<Rightarrow> cfg_state \<Rightarrow> cfg_state" where
  "flom_config_set_ignored_signals list s =
     (case list of
        None \<Rightarrow> s
      | Some ts \<Rightarrow> set_plain (cf_ignored_signals_update (\<lambda>_. fold add_signal ts {})) s)"

fun signals_str :: "nat set \<Rightarrow> bool \<Rightarrow> nat list \<Rightarrow> string" where
  "signals_str sigs first [] = []"
| "signals_str sigs first (j # js) =
     (if j \<in> sigs
      then (if first then [] else '';'') @ SIGNAL_STRING_ARRAY ! j @ signals_str sigs False js
      else signals_str sigs first js)"

definition flom_config_get_ignored_signals_str :: "config \<Rightarrow> string" where
  "flom_config_get_ignored_signals_str c =
     signals_str (cf_ignored_signals c) True [1..<SIGNAL_STRING_ARRAY_SIZE]"


section \<open>Check of the complete configuration\<close>

text \<open>
  Built with \<^verbatim>\<open>getifaddrs\<close>.  The default socket name is cut to the buffer of the
  socket address.  The resource name is read through its pointer, so that a name
  that is missing or released is recorded as an invalid access.
\<close>

definition default_socket_name :: "cfg_env \<Rightarrow> string" where
  "default_socket_name e =
     take (LOCAL_SOCKET_SIZE - 1)
       (''/tmp/flom-'' @ (case e_login e of None \<Rightarrow> ''nobody'' | Some l \<Rightarrow> l))"

definition check_socket :: "cfg_env \<Rightarrow> cfg_state \<Rightarrow> cfg_state" where
  "check_socket e s =
     (if cf_socket_name (cfg s) = None \<and> cf_unicast_address (cfg s) = None \<and>
         cf_multicast_address (cfg s) = None
      then (let (p, h) = g_strdup (Some (default_socket_name e)) (heap s)
            in \<lparr>heap = h, cfg = (cfg s)\<lparr>cf_socket_name := p\<rparr>\<rparr>)
      else s)"

definition check_lock_mode :: "flom_rsrc_type \<Rightarrow> cfg_state \<Rightarrow> cfg_state" where
  "check_lock_mode frt s =
     (if cf_lock_mode (cfg s) \<noteq> FLOM_LOCK_MODE_EX \<and> frt \<noteq> FLOM_RSRC_TYPE_SIMPLE \<and>
         frt \<noteq> FLOM_RSRC_TYPE_HIER
      then flom_config_set_lock_mode FLOM_LOCK_MODE_EX s else s)"

definition check_quantity :: "flom_rsrc_type \<Rightarrow> cfg_state \<Rightarrow> cfg_state" where
  "check_quantity frt s =
     (if cf_resource_quantity (cfg s) \<noteq> 1 \<and> frt \<noteq> FLOM_RSRC_TYPE_NUMERIC
      then flom_config_set_resource_quantity 1 s else s)"

definition flom_config_check :: "cfg_env \<Rightarrow> cfg_state \<Rightarrow> rc \<times> cfg_state" where
  "flom_config_check e s =
     (if cf_socket_name (cfg s) \<noteq> None \<and>
         (cf_unicast_address (cfg s) \<noteq> None \<or> cf_multicast_address (cfg s) \<noteq> None)
      then (FLOM_RC_INVALID_OPTION, s)
      else
        let s1 = check_socket e s in
        case str_of (heap s1) (cf_resource_name (cfg s1)) of
          None \<Rightarrow> (FLOM_RC_INTERNAL_ERROR, s1\<lparr>heap := (heap s1)\<lparr>h_bad := True\<rparr>\<rparr>)
        | Some name \<Rightarrow>
            (let frt = flom_rsrc_get_type name;
                 s2 = check_quantity frt (check_lock_mode frt s1)
             in if cf_tls_check_peer_id (cfg s2) \<and>
                   (cf_tls_certificate (cfg s2) = None \<or> cf_tls_private_key (cfg s2) = None \<or>
                    cf_tls_ca_certificate (cfg s2) = None)
                then (FLOM_RC_INVALID_OPTION, s2)
                else (FLOM_RC_OK, s2)))"

section \<open>Loading the files\<close>

datatype load_excp =
    G_KEY_FILE_NEW_ERROR | G_KEY_FILE_LOAD_FROM_FILE_ERROR | CONFIG_SET_APPENDTRACEFILE_ERROR
  | CONFIG_SET_VERBOSE_ERROR | CONFIG_SET_RESOURCE_NAME_ERROR | CONFIG_SET_RESOURCE_WAIT_ERROR
  | CONFIG_SET_RESOURCE_TIMEOUT_ERROR | CONFIG_SET_RESOURCE_QUANTITY_ERROR
  | CONFIG_SET_RESOURCE_LOCK_MODE_ERROR | CONFIG_SET_RESOURCE_CREATE_ERROR
  | CONFIG_SET_RESOURCE_IDLE_LIFESPAN_ERROR | CONFIG_SET_SOCKET_NAME_ERROR
  | CONFIG_SET_DAEMON_LIFESPAN_ERROR | CONFIG_SET_DAEMON_UNICAST_PORT_ERROR
  | CONFIG_SET_DAEMON_MULTICAST_PORT_ERROR | CONFIG_SET_MOUNT_POINT_VFS_ERROR
  | CONFIG_SET_DAEMON_DISCOVERY_ATTEMPTS_ERROR | CONFIG_SET_DAEMON_DISCOVERY_TIMEOUT_ERROR
  | CONFIG_SET_DAEMON_DISCOVERY_TTL_ERROR | CONFIG_SET_MONITOR_IGNORED_SIGNALS_ERROR
  | CONFIG_SET_NETWORK_TCP_KEEPALIVE_TIME_ERROR | CONFIG_SET_NETWORK_TCP_KEEPALIVE_INTVL_ERROR
  | CONFIG_SET_NETWORK_TCP_KEEPALIVE_PROBES_ERROR | CONFIG_SET_TLS_CERTIFICATE_ERROR
  | CONFIG_SET_TLS_PRIVATE_KEY_ERROR | CONFIG_SET_TLS_CA_CERTIFICATE_ERROR
  | CONFIG_SET_TLS_CHECK_PEER_ID_ERROR | NO_EXCP

text \<open>
  The \<^verbatim>\<open>switch\<close> at the end of the loading.  The error of the multicast port is not
  among its cases; the TLS names keep the code of their setter, \<^verbatim>\<open>ret_cod\<close>.
\<close>

definition load_ret_cod :: "load_excp \<Rightarrow> rc \<Rightarrow> rc" where
  "load_ret_cod x ret_cod =
     (case x of
        G_KEY_FILE_NEW_ERROR \<Rightarrow> FLOM_RC_G_KEY_FILE_NEW_ERROR
      | G_KEY_FILE_LOAD_FROM_FILE_ERROR \<Rightarrow> FLOM_RC_G_KEY_FILE_LOAD_FROM_FILE_ERROR
      | CONFIG_SET_TLS_CERTIFICATE_ERROR \<Rightarrow> ret_cod
      | CONFIG_SET_TLS_PRIVATE_KEY_ERROR \<Rightarrow> ret_cod
      | CONFIG_SET_TLS_CA_CERTIFICATE_ERROR \<Rightarrow> ret_cod
      | CONFIG_SET_DAEMON_MULTICAST_PORT_ERROR \<Rightarrow> FLOM_RC_INTERNAL_ERROR
      | NO_EXCP \<Rightarrow> FLOM_RC_OK
      | _ \<Rightarrow> FLOM_RC_INVALID_OPTION)"

text \<open>
  One step per key: the exception it throws (or none), the return code its
  setter left in \<^verbatim>\<open>ret_cod\<close>, and the state.
\<close>

type_synonym load_step = "cfg_state \<Rightarrow> load_excp \<times> rc \<times> cfg_state"

text \<open>A string key handed to a setter that cannot fail, or whose result is ignored.\<close>

definition load_string :: "string option \<Rightarrow> (string \<Rightarrow> cfg_state \<Rightarrow> cfg_state) \<Rightarrow> load_step" where
  "load_string v setter s =
     (case v of None \<Rightarrow> (NO_EXCP, FLOM_RC_OK, s) | Some t \<Rightarrow> (NO_EXCP, FLOM_RC_OK, setter t s))"

text \<open>A string key handed to a setter whose failure is an exception.\<close>

definition load_checked ::
  "string option \<Rightarrow> load_excp \<Rightarrow> (string \<Rightarrow> cfg_state \<Rightarrow> rc \<times> cfg_state) \<Rightarrow> load_step" where
  "load_checked v x setter s =
     (case v of
        None \<Rightarrow> (NO_EXCP, FLOM_RC_OK, s)
      | Some t \<Rightarrow> (case setter t s of (ret_cod, s') \<Rightarrow>
           if ret_cod = FLOM_RC_OK then (NO_EXCP, ret_cod, s') else (x, ret_cod, s')))"

definition load_bool ::
  "string option \<Rightarrow> load_excp \<Rightarrow> (bool \<Rightarrow> cfg_state \<Rightarrow> cfg_state) \<Rightarrow> load_step" where
  "load_bool v x setter s =
     (case v of
        None \<Rightarrow> (NO_EXCP, FLOM_RC_OK, s)
      | Some t \<Rightarrow> (case flom_bool_value_retrieve t of
           FLOM_BOOL_INVALID \<Rightarrow> (x, FLOM_RC_OK, s)
         | fbv \<Rightarrow> (NO_EXCP, FLOM_RC_OK, setter (fbv = FLOM_BOOL_YES) s)))"

definition load_integer ::
  "gkf_error + int \<Rightarrow> load_excp \<Rightarrow> (int \<Rightarrow> cfg_state \<Rightarrow> cfg_state) \<Rightarrow> load_step" where
  "load_integer v x setter s =
     (case v of
        Inl err \<Rightarrow>
          if err \<noteq> G_KEY_FILE_ERROR_KEY_NOT_FOUND then (x, FLOM_RC_OK, s)
          else (NO_EXCP, FLOM_RC_OK, s)
      | Inr i \<Rightarrow> (NO_EXCP, FLOM_RC_OK, setter i s))"

definition load_lock_mode :: "string option \<Rightarrow> load_step" where
  "load_lock_mode v s =
     (case v of
        None \<Rightarrow> (NO_EXCP, FLOM_RC_OK, s)
      | Some t \<Rightarrow>
          (let flm = flom_lock_mode_retrieve t in
           if flm = FLOM_LOCK_MODE_INVALID
           then (CONFIG_SET_RESOURCE_LOCK_MODE_ERROR, FLOM_RC_OK, s)
           else (NO_EXCP, FLOM_RC_OK, flom_config_set_lock_mode flm s)))"

definition load_ignored_signals :: "string list option \<Rightarrow> load_step" where
  "load_ignored_signals v s =
     (case v of
        None \<Rightarrow> (NO_EXCP, FLOM_RC_OK, s)
      | Some ts \<Rightarrow> (NO_EXCP, FLOM_RC_OK, flom_config_set_ignored_signals (Some ts) s))"

fun run_steps :: "load_step list \<Rightarrow> load_step" where
  "run_steps [] s = (NO_EXCP, FLOM_RC_OK, s)"
| "run_steps (f # fs) s =
     (case f s of (x, ret_cod, s') \<Rightarrow>
        if x = NO_EXCP then run_steps fs s' else (x, ret_cod, s'))"

definition trace_steps :: "key_file \<Rightarrow> load_step list" where
  "trace_steps k =
     [load_string (gkf_string k ''Trace'' ''DaemonTraceFile'')
        (\<lambda>t. flom_config_set_daemon_trace_file (Some t)),
      load_string (gkf_string k ''Trace'' ''CommandTraceFile'')
        (\<lambda>t. flom_config_set_command_trace_file (Some t)),
      load_bool (gkf_string k ''Trace'' ''AppendTraceFile'')
        CONFIG_SET_APPENDTRACEFILE_ERROR flom_config_set_append_trace_file,
      load_bool (gkf_string k ''Trace'' ''Verbose'')
        CONFIG_SET_VERBOSE_ERROR flom_config_set_verbose]"

definition resource_steps :: "key_file \<Rightarrow> load_step list" where
  "resource_steps k =
     [load_checked (gkf_string k ''Resource'' ''Name'')
        CONFIG_SET_RESOURCE_NAME_ERROR flom_config_set_resource_name,
      load_integer (gkf_integer k ''Resource'' ''Timeout'')
        CONFIG_SET_RESOURCE_TIMEOUT_ERROR flom_config_set_resource_timeout,
      load_integer (gkf_integer k ''Resource'' ''Quantity'')
        CONFIG_SET_RESOURCE_QUANTITY_ERROR flom_config_set_resource_quantity,
      load_lock_mode (gkf_string k ''Resource'' ''LockMode''),
      load_bool (gkf_string k ''Resource'' ''Create'')
        CONFIG_SET_RESOURCE_CREATE_ERROR flom_config_set_resource_create,
      load_integer (gkf_integer k ''Resource'' ''IdleLifespan'')
        CONFIG_SET_RESOURCE_IDLE_LIFESPAN_ERROR flom_config_set_resource_idle_lifespan]"

definition daemon_steps :: "cfg_env \<Rightarrow> key_file \<Rightarrow> load_step list" where
  "daemon_steps e k =
     [load_checked (gkf_string k ''Daemon'' ''SocketName'')
        CONFIG_SET_SOCKET_NAME_ERROR (\<lambda>t. flom_config_set_socket_name (Some t)),
      load_integer (gkf_integer k ''Daemon'' ''Lifespan'')
        CONFIG_SET_DAEMON_LIFESPAN_ERROR flom_config_set_lifespan,
      load_string (gkf_string k ''Daemon'' ''UnicastAddress'')
        (\<lambda>t. flom_config_set_unicast_address (Some t)),
      load_integer (gkf_integer k ''Daemon'' ''UnicastPort'')
        CONFIG_SET_DAEMON_UNICAST_PORT_ERROR flom_config_set_unicast_port,
      load_string (gkf_string k ''Daemon'' ''MulticastAddress'')
        (\<lambda>t. flom_config_set_multicast_address (Some t)),
      load_integer (gkf_integer k ''Daemon'' ''MulticastPort'')
        CONFIG_SET_DAEMON_MULTICAST_PORT_ERROR flom_config_set_multicast_port,
      load_checked (gkf_string k ''Daemon'' ''MountPointVFS'')
        CONFIG_SET_MOUNT_POINT_VFS_ERROR (flom_config_set_mount_point_vfs e)]"

definition monitor_network_steps :: "cfg_env \<Rightarrow> key_file \<Rightarrow> load_step list" where
  "monitor_network_steps e k =
     [load_ignored_signals (gkf_string_list k ''Monitor'' ''IgnoredSignals''),
      load_string (gkf_string k ''Network'' ''NetworkInterface'')
        (\<lambda>t s. snd (flom_config_set_network_interface e t s)),
      load_integer (gkf_integer k ''Network'' ''DiscoveryAttempts'')
        CONFIG_SET_DAEMON_DISCOVERY_ATTEMPTS_ERROR flom_config_set_discovery_attempts,
      load_integer (gkf_integer k ''Network'' ''DiscoveryTimeout'')
        CONFIG_SET_DAEMON_DISCOVERY_TIMEOUT_ERROR flom_config_set_discovery_timeout,
      load_integer (gkf_integer k ''Network'' ''DiscoveryTTL'')
        CONFIG_SET_DAEMON_DISCOVERY_TTL_ERROR flom_config_set_discovery_ttl]"

definition keepalive_steps :: "key_file \<Rightarrow> load_step list" where
  "keepalive_steps k =
     [load_integer (gkf_integer k ''Network'' ''TcpKeepaliveTime'')
        CONFIG_SET_NETWORK_TCP_KEEPALIVE_TIME_ERROR flom_config_set_tcp_keepalive_time,
      load_integer (gkf_integer k ''Network'' ''TcpKeepaliveIntvl'')
        CONFIG_SET_NETWORK_TCP_KEEPALIVE_INTVL_ERROR flom_config_set_tcp_keepalive_intvl,
      load_integer (gkf_integer k ''Network'' ''TcpKeepaliveProbes'')
        CONFIG_SET_NETWORK_TCP_KEEPALIVE_PROBES_ERROR flom_config_set_tcp_keepalive_probes]"

definition tls_steps :: "cfg_env \<Rightarrow> key_file \<Rightarrow> load_step list" where
  "tls_steps e k =
     [load_checked (gkf_string k ''TLS'' ''TlsCertificate'')
        CONFIG_SET_TLS_CERTIFICATE_ERROR (flom_config_set_tls_certificate e),
      load_checked (gkf_string k ''TLS'' ''TlsPrivateKey'')
        CONFIG_SET_TLS_PRIVATE_KEY_ERROR (flom_config_set_tls_private_key e),
      load_checked (gkf_string k ''TLS'' ''TlsCaCertificate'')
        CONFIG_SET_TLS_CA_CERTIFICATE_ERROR (flom_config_set_tls_ca_certificate e),
      load_bool (gkf_string k ''TLS'' ''TlsCheckPeerId'')
        CONFIG_SET_TLS_CHECK_PEER_ID_ERROR flom_config_set_tls_check_peer_id]"

definition file_steps :: "cfg_env \<Rightarrow> key_file \<Rightarrow> load_step list" where
  "file_steps e k = trace_steps k @ resource_steps k @ daemon_steps e k @
     monitor_network_steps e k @ keepalive_steps k @ tls_steps e k"

definition flom_config_init_load :: "cfg_env \<Rightarrow> string \<Rightarrow> cfg_state \<Rightarrow> rc \<times> cfg_state" where
  "flom_config_init_load e file_name s =
     (let (x, ret_cod, s') =
        (if \<not> e_key_file_new e then (G_KEY_FILE_NEW_ERROR, FLOM_RC_INTERNAL_ERROR, s)
         else case e_load e file_name of
           None \<Rightarrow> (G_KEY_FILE_LOAD_FROM_FILE_ERROR, FLOM_RC_INTERNAL_ERROR, s)
         | Some k \<Rightarrow> run_steps (file_steps e k) s)
      in (load_ret_cod x ret_cod, s'))"

definition system_config_filename :: "cfg_env \<Rightarrow> string" where
  "system_config_filename e = e_sysconfdir e @ ''/'' @ ''flom.conf''"

definition user_config_filename :: "cfg_env \<Rightarrow> string" where
  "user_config_filename e =
     (case e_home e of None \<Rightarrow> e_home_dir e | Some d \<Rightarrow> d) @ ''/'' @ ''.flom''"

definition flom_config_init :: "cfg_env \<Rightarrow> string option \<Rightarrow> cfg_state \<Rightarrow> rc \<times> cfg_state" where
  "flom_config_init e custom s =
     (case flom_config_init_load e (system_config_filename e) s of (r1, s1) \<Rightarrow>
      if r1 \<noteq> FLOM_RC_OK \<and> r1 \<noteq> FLOM_RC_G_KEY_FILE_LOAD_FROM_FILE_ERROR then (r1, s1)
      else case flom_config_init_load e (user_config_filename e) s1 of (r2, s2) \<Rightarrow>
      if r2 \<noteq> FLOM_RC_OK \<and> r2 \<noteq> FLOM_RC_G_KEY_FILE_LOAD_FROM_FILE_ERROR then (r2, s2)
      else case custom of
        None \<Rightarrow> (FLOM_RC_OK, s2)
      | Some name \<Rightarrow>
          (case flom_config_init_load e name s2 of (r3, s3) \<Rightarrow>
           if r3 \<noteq> FLOM_RC_OK then (r3, s3) else (FLOM_RC_OK, s3)))"


section \<open>Ownership of the strings\<close>

text \<open>
  The strings of an object in a fixed order; an object owns its strings over a
  frame \<^term>\<open>F\<close> when they are allocated, pairwise different, outside the frame, and
  nothing else is allocated beside the frame; the resource name (the third
  string) is always there.
\<close>

definition ptrs :: "'p flom_config \<Rightarrow> 'p option list" where
  "ptrs c = [cf_daemon_trace_file c, cf_command_trace_file c, cf_resource_name c, cf_socket_name c,
     cf_unicast_address c, cf_multicast_address c, cf_mount_point_vfs c, cf_network_interface c,
     cf_tls_certificate c, cf_tls_private_key c, cf_tls_ca_certificate c]"

definition apart :: "'p option list \<Rightarrow> bool" where
  "apart ps \<longleftrightarrow> (\<forall>i j. i < length ps \<longrightarrow> j < length ps \<longrightarrow> i \<noteq> j \<longrightarrow> ps ! i \<noteq> None \<longrightarrow> ps ! i \<noteq> ps ! j)"

definition owns_list :: "(addr \<Rightarrow> string option) \<Rightarrow> sheap \<Rightarrow> addr option list \<Rightarrow> bool" where
  "owns_list F h ps \<longleftrightarrow> \<not> h_bad h \<and> apart ps \<and>
     (\<forall>a. Some a \<in> set ps \<longrightarrow> F a = None \<and> h_map h a \<noteq> None) \<and>
     (\<forall>a. Some a \<notin> set ps \<longrightarrow> h_map h a = F a) \<and>
     (\<forall>a. h_next h \<le> a \<longrightarrow> h_map h a = None)"

definition owns :: "(addr \<Rightarrow> string option) \<Rightarrow> cfg_state \<Rightarrow> bool" where
  "owns F s \<longleftrightarrow> owns_list F (heap s) (ptrs (cfg s)) \<and> ptrs (cfg s) ! 2 \<noteq> None"

text \<open>The value of an object: every pointer replaced by what it points to.\<close>

definition view :: "sheap \<Rightarrow> config \<Rightarrow> config_value" where
  "view h c =
     \<lparr>cf_socket_name = str_of h (cf_socket_name c),
      cf_daemon_trace_file = str_of h (cf_daemon_trace_file c),
      cf_command_trace_file = str_of h (cf_command_trace_file c),
      cf_append_trace_file = cf_append_trace_file c, cf_verbose = cf_verbose c,
      cf_daemon_lifespan = cf_daemon_lifespan c,
      cf_resource_name = str_of h (cf_resource_name c),
      cf_resource_transactional = cf_resource_transactional c,
      cf_resource_create = cf_resource_create c,
      cf_resource_idle_lifespan = cf_resource_idle_lifespan c,
      cf_resource_timeout = cf_resource_timeout c,
      cf_resource_quantity = cf_resource_quantity c, cf_lock_mode = cf_lock_mode c,
      cf_unicast_address = str_of h (cf_unicast_address c), cf_unicast_port = cf_unicast_port c,
      cf_multicast_address = str_of h (cf_multicast_address c),
      cf_multicast_port = cf_multicast_port c,
      cf_mount_point_vfs = str_of h (cf_mount_point_vfs c),
      cf_network_interface = str_of h (cf_network_interface c),
      cf_sin6_scope_id = cf_sin6_scope_id c, cf_discovery_attempts = cf_discovery_attempts c,
      cf_discovery_timeout = cf_discovery_timeout c, cf_discovery_ttl = cf_discovery_ttl c,
      cf_tcp_keepalive_time = cf_tcp_keepalive_time c,
      cf_tcp_keepalive_intvl = cf_tcp_keepalive_intvl c,
      cf_tcp_keepalive_probes = cf_tcp_keepalive_probes c,
      cf_tls_certificate = str_of h (cf_tls_certificate c),
      cf_tls_private_key = str_of h (cf_tls_private_key c),
      cf_tls_ca_certificate = str_of h (cf_tls_ca_certificate c),
      cf_tls_check_peer_id = cf_tls_check_peer_id c, cf_ignored_signals = cf_ignored_signals c\<rparr>"

definition value_of :: "cfg_state \<Rightarrow> config_value" where
  "value_of s = view (heap s) (cfg s)"

lemma apart_update_None: "apart ps \<Longrightarrow> apart (ps[i := None])"
  by (cases "i < length ps")
    (auto simp: apart_def nth_list_update split: if_splits)

lemma apart_update_fresh: "apart ps \<Longrightarrow> Some a \<notin> set ps \<Longrightarrow> apart (ps[i := Some a])"
  by (cases "i < length ps")
    (auto simp: apart_def nth_list_update in_set_conv_nth split: if_splits)

lemma set_update_apart:
  assumes "apart ps" "i < length ps" "ps ! i = Some b"
  shows "Some a \<in> set (ps[i := None]) \<longleftrightarrow> Some a \<in> set ps \<and> a \<noteq> b"
proof
  assume "Some a \<in> set (ps[i := None])"
  then obtain j where "j < length ps" "ps[i := None] ! j = Some a" by (metis in_set_conv_nth length_list_update)
  then have "j \<noteq> i" "ps ! j = Some a" using assms(2) by (auto simp: nth_list_update split: if_splits)
  then show "Some a \<in> set ps \<and> a \<noteq> b"
    using assms \<open>j < length ps\<close> unfolding apart_def by (metis nth_mem option.distinct(1))
next
  assume "Some a \<in> set ps \<and> a \<noteq> b"
  then obtain j where "j < length ps" "ps ! j = Some a" "j \<noteq> i"
    using assms(3) by (metis in_set_conv_nth option.inject)
  then show "Some a \<in> set (ps[i := None])"
    by (metis length_list_update nth_list_update_neq nth_mem)
qed

lemma set_update_None_None:
  "i < length ps \<Longrightarrow> ps ! i = None \<Longrightarrow> ps[i := None] = ps"
  using list_update_id [of ps i] by simp

lemma set_update_fill:
  assumes "i < length ps" "ps ! i = None"
  shows "Some a \<in> set (ps[i := Some n]) \<longleftrightarrow> Some a \<in> set ps \<or> a = n"
proof
  assume "Some a \<in> set (ps[i := Some n])"
  then show "Some a \<in> set ps \<or> a = n" using set_update_subset_insert [of ps i "Some n"] by auto
next
  assume *: "Some a \<in> set ps \<or> a = n"
  show "Some a \<in> set (ps[i := Some n])"
  proof (cases "a = n")
    case False
    then obtain j where "j < length ps" "ps ! j = Some a" using * by (auto simp: in_set_conv_nth)
    then have "ps[i := Some n] ! j = Some a" using assms(2) by (cases "j = i") auto
    then show ?thesis using \<open>j < length ps\<close> by (metis length_list_update nth_mem)
  qed (use assms(1) in \<open>simp add: set_update_memI\<close>)
qed

text \<open>Release of one string, and a new one in its place.\<close>

lemma owns_list_free:
  assumes "owns_list F h ps" "i < length ps"
  shows "owns_list F (g_free (ps ! i) h) (ps[i := None])"
proof (cases "ps ! i")
  case None
  then show ?thesis using assms set_update_None_None [OF assms(2) None] by (simp add: g_free_def)
next
  case (Some b)
  then have b: "Some b \<in> set ps" using assms(2) by (metis nth_mem)
  then obtain t where t: "h_map h b = Some t" and F: "F b = None"
    using assms(1) unfolding owns_list_def by blast
  show ?thesis
    using assms(1) t F set_update_apart [OF _ assms(2) Some] apart_update_None [of ps i]
    unfolding owns_list_def by (auto simp: g_free_def Some)
qed

lemma owns_list_dup:
  assumes "owns_list F h ps" "i < length ps" "ps ! i = None" "g_strdup v h = (p, h')"
  shows "owns_list F h' (ps[i := p])"
proof (cases v)
  case None
  then show ?thesis using assms set_update_None_None [OF assms(2,3)] by (simp add: g_strdup_def)
next
  case (Some t)
  let ?n = "h_next h"
  have p: "p = Some ?n" and h': "h' = h\<lparr>h_map := (h_map h)(?n := Some t), h_next := Suc ?n\<rparr>"
    using assms(4) Some by (auto simp: g_strdup_def)
  have free: "h_map h ?n = None" using assms(1) unfolding owns_list_def by blast
  then have n: "Some ?n \<notin> set ps" "F ?n = None"
    using assms(1) unfolding owns_list_def by (blast, metis)
  have "Some a \<in> set (ps[i := p]) \<longleftrightarrow> Some a \<in> set ps \<or> a = ?n" for a
    unfolding p by (rule set_update_fill [OF assms(2,3)])
  then show ?thesis
    using assms(1) n free apart_update_fresh [of ps ?n i]
    unfolding owns_list_def p h' by auto
qed


lemma str_of_dup: "g_strdup v h = (p, h') \<Longrightarrow> str_of h' p = v"
  by (auto simp: g_strdup_def str_of_def split: option.splits)

lemma str_of_replace_other:
  assumes "owns_list F h ps" "i < length ps" "j < length ps" "j \<noteq> i"
    "g_strdup v (g_free (ps ! i) h) = (p, h')"
  shows "str_of h (ps ! j) = str_of h' (ps ! j)"
proof (cases "ps ! j")
  case (Some a)
  then have "Some a \<in> set ps" using assms(3) by (metis nth_mem)
  then have "h_map h a \<noteq> None" "ps ! i \<noteq> Some a" "a < h_next h"
    using assms(1-4) Some unfolding owns_list_def apart_def by (blast, metis option.distinct(1), metis leI)
  then show ?thesis
    using assms(5) Some by (auto simp: str_of_def g_strdup_def g_free_def split: option.splits)
qed (simp add: str_of_def)

text \<open>A string member of the structure: its accessors agree with its place in \<^const>\<open>ptrs\<close>.\<close>

locale string_field =
  fixes get :: "config \<Rightarrow> addr option"
    and upd :: "(addr option \<Rightarrow> addr option) \<Rightarrow> config \<Rightarrow> config"
    and vupd :: "(string option \<Rightarrow> string option) \<Rightarrow> config_value \<Rightarrow> config_value"
    and i :: nat
  assumes idx: "i < 11"
    and get_ptr: "get c = ptrs c ! i"
    and upd_ptrs: "ptrs (upd (\<lambda>_. p) c) = (ptrs c)[i := p]"
    and view_upd: "(map (str_of h) (ptrs c))[i := None] = (map (str_of h') (ptrs c))[i := None] \<Longrightarrow>
       view h' (upd (\<lambda>_. p) c) = vupd (\<lambda>_. str_of h' p) (view h c)"
begin

lemma set_string_owns:
  assumes "owns F s" "i = 2 \<longrightarrow> v \<noteq> None"
  shows "owns F (set_string get upd v s)"
proof -
  have n: "i < length (ptrs (cfg s))" using idx by (simp add: ptrs_def)
  obtain p h where d: "g_strdup v (g_free (get (cfg s)) (heap s)) = (p, h)" by (cases "g_strdup v (g_free (get (cfg s)) (heap s))")
  have "owns_list F (g_free (ptrs (cfg s) ! i) (heap s)) ((ptrs (cfg s))[i := None])"
    using owns_list_free [OF _ n] assms(1) by (simp add: owns_def)
  then have "owns_list F h ((ptrs (cfg s))[i := None, i := p])"
    using n d owns_list_dup [of F "g_free (get (cfg s)) (heap s)" "(ptrs (cfg s))[i := None]" i v p h] by (simp add: get_ptr)
  moreover have "i = 2 \<longrightarrow> p \<noteq> None" using d assms(2) by (auto simp: g_strdup_def split: option.splits)
  ultimately show ?thesis
    using assms(1) n by (auto simp: owns_def set_string_def d upd_ptrs nth_list_update)
qed

lemma set_string_value:
  assumes "owns F s"
  shows "value_of (set_string get upd v s) = vupd (\<lambda>_. v) (value_of s)"
proof -
  have n: "length (ptrs (cfg s)) = 11" by (simp add: ptrs_def)
  obtain p h where d: "g_strdup v (g_free (get (cfg s)) (heap s)) = (p, h)" by (cases "g_strdup v (g_free (get (cfg s)) (heap s))")
  have "str_of (heap s) (ptrs (cfg s) ! j) = str_of h (ptrs (cfg s) ! j)" if "j < 11" "j \<noteq> i" for j
    using str_of_replace_other [of F "heap s" "ptrs (cfg s)" i j v p h] assms that d n idx by (simp add: owns_def get_ptr)
  then have "(map (str_of (heap s)) (ptrs (cfg s)))[i := None] = (map (str_of h) (ptrs (cfg s)))[i := None]"
    using n idx by (intro nth_equalityI) (simp_all add: nth_list_update)
  then show ?thesis
    using view_upd [of "heap s" "cfg s" h p] d by (simp add: value_of_def set_string_def str_of_dup)
qed

end

interpretation socket_name:
  string_field cf_socket_name cf_socket_name_update cf_socket_name_update 3
  by unfold_locales (simp_all add: ptrs_def view_def)

interpretation daemon_trace_file:
  string_field cf_daemon_trace_file cf_daemon_trace_file_update cf_daemon_trace_file_update 0
  by unfold_locales (simp_all add: ptrs_def view_def)

interpretation command_trace_file:
  string_field cf_command_trace_file cf_command_trace_file_update cf_command_trace_file_update 1
  by unfold_locales (simp_all add: ptrs_def view_def)

interpretation resource_name:
  string_field cf_resource_name cf_resource_name_update cf_resource_name_update 2
  by unfold_locales (simp_all add: ptrs_def view_def)

interpretation unicast_address:
  string_field cf_unicast_address cf_unicast_address_update cf_unicast_address_update 4
  by unfold_locales (simp_all add: ptrs_def view_def)

interpretation multicast_address:
  string_field cf_multicast_address cf_multicast_address_update cf_multicast_address_update 5
  by unfold_locales (simp_all add: ptrs_def view_def)

interpretation mount_point_vfs:
  string_field cf_mount_point_vfs cf_mount_point_vfs_update cf_mount_point_vfs_update 6
  by unfold_locales (simp_all add: ptrs_def view_def)

interpretation network_interface:
  string_field cf_network_interface cf_network_interface_update cf_network_interface_update 7
  by unfold_locales (simp_all add: ptrs_def view_def)

interpretation tls_certificate:
  string_field cf_tls_certificate cf_tls_certificate_update cf_tls_certificate_update 8
  by unfold_locales (simp_all add: ptrs_def view_def)

interpretation tls_private_key:
  string_field cf_tls_private_key cf_tls_private_key_update cf_tls_private_key_update 9
  by unfold_locales (simp_all add: ptrs_def view_def)

interpretation tls_ca_certificate:
  string_field cf_tls_ca_certificate cf_tls_ca_certificate_update cf_tls_ca_certificate_update 10
  by unfold_locales (simp_all add: ptrs_def view_def)

lemma gint_abs_eq: "gint_range v \<Longrightarrow> gint_abs v = (if v = - 2147483648 then v else \<bar>v\<bar>)"
  using to_gint_id [of "- v"] by (auto simp: gint_abs_def gint_range_def to_gint_def)

section \<open>What the setters do to ownership and to the value\<close>

lemma owns_set_plain: "ptrs (f (cfg s)) = ptrs (cfg s) \<Longrightarrow> owns F (set_plain f s) = owns F s"
  by (simp add: owns_def set_plain_def)

lemmas string_setters_own =
  socket_name.set_string_owns daemon_trace_file.set_string_owns command_trace_file.set_string_owns
  resource_name.set_string_owns unicast_address.set_string_owns multicast_address.set_string_owns
  mount_point_vfs.set_string_owns network_interface.set_string_owns
  tls_certificate.set_string_owns tls_private_key.set_string_owns tls_ca_certificate.set_string_owns

lemmas string_setters_value =
  socket_name.set_string_value daemon_trace_file.set_string_value
  command_trace_file.set_string_value resource_name.set_string_value
  unicast_address.set_string_value multicast_address.set_string_value
  mount_point_vfs.set_string_value network_interface.set_string_value
  tls_certificate.set_string_value tls_private_key.set_string_value
  tls_ca_certificate.set_string_value

lemma setters_own:
  assumes "owns F s"
  shows "owns F (flom_config_set_daemon_trace_file v s)"
    "owns F (flom_config_set_command_trace_file v s)"
    "owns F (flom_config_set_unicast_address v s)"
    "owns F (flom_config_set_multicast_address v s)"
    "owns F (snd (flom_config_set_socket_name v s))"
    "owns F (snd (flom_config_set_resource_name t s))"
    "owns F (snd (flom_config_set_mount_point_vfs e t s))"
    "owns F (snd (flom_config_set_network_interface e t s))"
    "owns F (snd (flom_config_set_sin6_scope_id e sc s))"
    "owns F (snd (flom_config_set_tls_certificate e t s))"
    "owns F (snd (flom_config_set_tls_private_key e t s))"
    "owns F (snd (flom_config_set_tls_ca_certificate e t s))"
  using assms
  by (simp_all add: flom_config_set_daemon_trace_file_def flom_config_set_command_trace_file_def
      flom_config_set_unicast_address_def flom_config_set_multicast_address_def
      flom_config_set_socket_name_def flom_config_set_resource_name_def
      flom_config_set_mount_point_vfs_def flom_config_set_network_interface_def
      flom_config_set_sin6_scope_id_def flom_config_set_tls_certificate_def
      flom_config_set_tls_private_key_def flom_config_set_tls_ca_certificate_def
      string_setters_own owns_set_plain ptrs_def split: option.split)

lemma plain_setters_own:
  assumes "owns F s"
  shows "owns F (flom_config_set_append_trace_file b s)" "owns F (flom_config_set_verbose b s)"
    "owns F (flom_config_set_lifespan n s)" "owns F (flom_config_set_resource_create b s)"
    "owns F (flom_config_set_resource_timeout n s)" "owns F (flom_config_set_resource_quantity n s)"
    "owns F (flom_config_set_lock_mode m s)" "owns F (flom_config_set_resource_idle_lifespan n s)"
    "owns F (flom_config_set_unicast_port n s)" "owns F (flom_config_set_multicast_port n s)"
    "owns F (flom_config_set_discovery_attempts n s)"
    "owns F (flom_config_set_discovery_timeout n s)" "owns F (flom_config_set_discovery_ttl n s)"
    "owns F (flom_config_set_tcp_keepalive_time n s)"
    "owns F (flom_config_set_tcp_keepalive_intvl n s)"
    "owns F (flom_config_set_tcp_keepalive_probes n s)"
    "owns F (flom_config_set_tls_check_peer_id b s)"
    "owns F (flom_config_set_ignored_signals l s)"
  using assms
  by (simp_all add: flom_config_set_append_trace_file_def flom_config_set_verbose_def
      flom_config_set_lifespan_def flom_config_set_resource_create_def
      flom_config_set_resource_timeout_def flom_config_set_resource_quantity_def
      flom_config_set_lock_mode_def flom_config_set_resource_idle_lifespan_def
      flom_config_set_unicast_port_def flom_config_set_multicast_port_def
      flom_config_set_discovery_attempts_def flom_config_set_discovery_timeout_def
      flom_config_set_discovery_ttl_def flom_config_set_tcp_keepalive_time_def
      flom_config_set_tcp_keepalive_intvl_def flom_config_set_tcp_keepalive_probes_def
      flom_config_set_tls_check_peer_id_def flom_config_set_ignored_signals_def
      Let_def owns_set_plain ptrs_def split: option.split)

lemma setters_value:
  assumes "owns F s"
  shows "value_of (flom_config_set_daemon_trace_file v s) = (value_of s)\<lparr>cf_daemon_trace_file := v\<rparr>"
    "value_of (flom_config_set_command_trace_file v s) = (value_of s)\<lparr>cf_command_trace_file := v\<rparr>"
    "value_of (flom_config_set_unicast_address v s) = (value_of s)\<lparr>cf_unicast_address := v\<rparr>"
    "value_of (flom_config_set_multicast_address v s) = (value_of s)\<lparr>cf_multicast_address := v\<rparr>"
  using assms
  by (simp_all add: flom_config_set_daemon_trace_file_def flom_config_set_command_trace_file_def
      flom_config_set_unicast_address_def flom_config_set_multicast_address_def string_setters_value)

lemma plain_setters_value:
  "value_of (flom_config_set_append_trace_file b s) = (value_of s)\<lparr>cf_append_trace_file := b\<rparr>"
  "value_of (flom_config_set_verbose b s) = (value_of s)\<lparr>cf_verbose := b\<rparr>"
  "value_of (flom_config_set_lifespan n s) = (value_of s)\<lparr>cf_daemon_lifespan := n\<rparr>"
  "value_of (flom_config_set_resource_create b s) = (value_of s)\<lparr>cf_resource_create := b\<rparr>"
  "value_of (flom_config_set_resource_timeout n s) = (value_of s)\<lparr>cf_resource_timeout := n\<rparr>"
  "value_of (flom_config_set_resource_quantity n s) =
     (value_of s)\<lparr>cf_resource_quantity := if gint_abs n = 0 then cf_resource_quantity (value_of s) else gint_abs n\<rparr>"
  "value_of (flom_config_set_lock_mode m s) = (value_of s)\<lparr>cf_lock_mode := m\<rparr>"
  "value_of (flom_config_set_resource_idle_lifespan n s) =
     (value_of s)\<lparr>cf_resource_idle_lifespan := if gint_abs n = 0 then cf_resource_idle_lifespan (value_of s) else gint_abs n\<rparr>"
  "value_of (flom_config_set_unicast_port n s) = (value_of s)\<lparr>cf_unicast_port := gint_abs n\<rparr>"
  "value_of (flom_config_set_multicast_port n s) = (value_of s)\<lparr>cf_multicast_port := gint_abs n\<rparr>"
  "value_of (flom_config_set_discovery_attempts n s) =
     (value_of s)\<lparr>cf_discovery_attempts := if gint_abs n = 0 then 1 else gint_abs n\<rparr>"
  "value_of (flom_config_set_discovery_timeout n s) = (value_of s)\<lparr>cf_discovery_timeout := gint_abs n\<rparr>"
  "value_of (flom_config_set_discovery_ttl n s) =
     (value_of s)\<lparr>cf_discovery_ttl := if gint_abs n = 0 then 1 else gint_abs n\<rparr>"
  "value_of (flom_config_set_tcp_keepalive_time n s) = (value_of s)\<lparr>cf_tcp_keepalive_time := gint_abs n\<rparr>"
  "value_of (flom_config_set_tcp_keepalive_intvl n s) = (value_of s)\<lparr>cf_tcp_keepalive_intvl := gint_abs n\<rparr>"
  "value_of (flom_config_set_tcp_keepalive_probes n s) = (value_of s)\<lparr>cf_tcp_keepalive_probes := gint_abs n\<rparr>"
  "value_of (flom_config_set_tls_check_peer_id b s) = (value_of s)\<lparr>cf_tls_check_peer_id := b\<rparr>"
  by (simp_all add: flom_config_set_append_trace_file_def flom_config_set_verbose_def
      flom_config_set_lifespan_def flom_config_set_resource_create_def
      flom_config_set_resource_timeout_def flom_config_set_resource_quantity_def
      flom_config_set_lock_mode_def flom_config_set_resource_idle_lifespan_def
      flom_config_set_unicast_port_def flom_config_set_multicast_port_def
      flom_config_set_discovery_attempts_def flom_config_set_discovery_timeout_def
      flom_config_set_discovery_ttl_def flom_config_set_tcp_keepalive_time_def
      flom_config_set_tcp_keepalive_intvl_def flom_config_set_tcp_keepalive_probes_def
      flom_config_set_tls_check_peer_id_def
      Let_def set_plain_def value_of_def view_def)

section \<open>The effect of a configuration file\<close>

text \<open>
  The abstract specification of the loading: when a file is accepted, and the
  value it turns a configuration into.  A key that is missing leaves the old
  value; a missing integer key is told from other failures by its error code.
\<close>

definition opt_ok :: "('a \<Rightarrow> bool) \<Rightarrow> 'a option \<Rightarrow> bool" where
  "opt_ok P v = (case v of None \<Rightarrow> True | Some t \<Rightarrow> P t)"

definition bool_ok :: "string option \<Rightarrow> bool" where
  "bool_ok = opt_ok (\<lambda>t. flom_bool_value_retrieve t \<noteq> FLOM_BOOL_INVALID)"

definition int_ok :: "gkf_error + int \<Rightarrow> bool" where
  "int_ok v = (case v of Inl err \<Rightarrow> err = G_KEY_FILE_ERROR_KEY_NOT_FOUND | Inr _ \<Rightarrow> True)"

definition name_ok :: "string \<Rightarrow> bool" where
  "name_ok t \<longleftrightarrow> t \<noteq> DEFAULT_RESOURCE_NAME \<and> flom_rsrc_get_type t \<noteq> FLOM_RSRC_TYPE_NULL"

definition file_accepted :: "cfg_env \<Rightarrow> key_file \<Rightarrow> bool" where
  "file_accepted e k \<longleftrightarrow>
     list_all bool_ok (map (\<lambda>(g, n). gkf_string k g n)
       [(''Trace'', ''AppendTraceFile''), (''Trace'', ''Verbose''), (''Resource'', ''Create''),
        (''TLS'', ''TlsCheckPeerId'')]) \<and>
     list_all int_ok (map (\<lambda>(g, n). gkf_integer k g n)
       [(''Resource'', ''Timeout''), (''Resource'', ''Quantity''), (''Resource'', ''IdleLifespan''),
        (''Daemon'', ''Lifespan''), (''Daemon'', ''UnicastPort''), (''Daemon'', ''MulticastPort''),
        (''Network'', ''DiscoveryAttempts''), (''Network'', ''DiscoveryTimeout''),
        (''Network'', ''DiscoveryTTL''), (''Network'', ''TcpKeepaliveTime''),
        (''Network'', ''TcpKeepaliveIntvl''), (''Network'', ''TcpKeepaliveProbes'')]) \<and>
     opt_ok name_ok (gkf_string k ''Resource'' ''Name'') \<and>
     opt_ok (\<lambda>t. flom_lock_mode_retrieve t \<noteq> FLOM_LOCK_MODE_INVALID)
       (gkf_string k ''Resource'' ''LockMode'') \<and>
     opt_ok (\<lambda>t. length t < LOCAL_SOCKET_SIZE) (gkf_string k ''Daemon'' ''SocketName'') \<and>
     opt_ok (\<lambda>t. e_opendir e t \<and> e_closedir e t) (gkf_string k ''Daemon'' ''MountPointVFS'') \<and>
     list_all (opt_ok (\<lambda>t. e_realpath e t \<noteq> None)) (map (gkf_string k ''TLS'')
       [''TlsCertificate'', ''TlsPrivateKey'', ''TlsCaCertificate''])"

definition str_over :: "string option \<Rightarrow> string option \<Rightarrow> string option" where
  "str_over v old = (case v of None \<Rightarrow> old | Some t \<Rightarrow> Some t)"

definition bool_over :: "string option \<Rightarrow> bool \<Rightarrow> bool" where
  "bool_over v old = (case v of None \<Rightarrow> old | Some t \<Rightarrow> flom_bool_value_retrieve t = FLOM_BOOL_YES)"

definition int_over :: "gkf_error + int \<Rightarrow> (int \<Rightarrow> int) \<Rightarrow> int \<Rightarrow> int" where
  "int_over v f old = (case v of Inl _ \<Rightarrow> old | Inr i \<Rightarrow> f i)"

definition or_old :: "int \<Rightarrow> int \<Rightarrow> int" where
  "or_old old i = (if gint_abs i = 0 then old else gint_abs i)"

definition path_over :: "cfg_env \<Rightarrow> string option \<Rightarrow> string option \<Rightarrow> string option" where
  "path_over e v old = (case v of None \<Rightarrow> old | Some t \<Rightarrow> e_realpath e t)"

definition mode_over :: "string option \<Rightarrow> flom_lock_mode \<Rightarrow> flom_lock_mode" where
  "mode_over v old = (case v of None \<Rightarrow> old | Some t \<Rightarrow> flom_lock_mode_retrieve t)"

definition signals_over :: "string list option \<Rightarrow> nat set \<Rightarrow> nat set" where
  "signals_over v old = (case v of None \<Rightarrow> old | Some ts \<Rightarrow> fold add_signal ts {})"

definition transactional_over :: "string option \<Rightarrow> bool \<Rightarrow> bool" where
  "transactional_over v old = (case v of None \<Rightarrow> old | Some t \<Rightarrow> flom_rsrc_get_transactional t)"

definition name_over :: "string option \<Rightarrow> config_value \<Rightarrow> config_value" where
  "name_over v c = c\<lparr>cf_resource_name := str_over v (cf_resource_name c),
     cf_resource_transactional := transactional_over v (cf_resource_transactional c)\<rparr>"

definition scope_over :: "nat option \<Rightarrow> nat \<Rightarrow> nat" where
  "scope_over sc old = (case sc of None \<Rightarrow> old | Some n \<Rightarrow> n)"

definition found_scope :: "cfg_env \<Rightarrow> string option \<Rightarrow> nat option" where
  "found_scope e v = (case v of
       None \<Rightarrow> None
     | Some t \<Rightarrow> (case e_ifaddrs e of None \<Rightarrow> None | Some ifs \<Rightarrow> if_scope t ifs))"

definition interface_over :: "cfg_env \<Rightarrow> string option \<Rightarrow> config_value \<Rightarrow> config_value" where
  "interface_over e v c =
     (let sc = found_scope e v in
      c\<lparr>cf_sin6_scope_id := scope_over sc (cf_sin6_scope_id c),
        cf_network_interface := (if sc = None then cf_network_interface c else v)\<rparr>)"

definition trace_resource_value :: "key_file \<Rightarrow> config_value \<Rightarrow> config_value" where
  "trace_resource_value k c =
     (let tr = gkf_string k ''Trace''; rs = gkf_string k ''Resource''; ri = gkf_integer k ''Resource'' in
      c\<lparr>cf_daemon_trace_file := str_over (tr ''DaemonTraceFile'') (cf_daemon_trace_file c),
        cf_command_trace_file := str_over (tr ''CommandTraceFile'') (cf_command_trace_file c),
        cf_append_trace_file := bool_over (tr ''AppendTraceFile'') (cf_append_trace_file c),
        cf_verbose := bool_over (tr ''Verbose'') (cf_verbose c),
        cf_resource_name := str_over (rs ''Name'') (cf_resource_name c),
        cf_resource_transactional := transactional_over (rs ''Name'') (cf_resource_transactional c),
        cf_resource_timeout := int_over (ri ''Timeout'') id (cf_resource_timeout c),
        cf_resource_quantity :=
          int_over (ri ''Quantity'') (or_old (cf_resource_quantity c)) (cf_resource_quantity c),
        cf_lock_mode := mode_over (rs ''LockMode'') (cf_lock_mode c),
        cf_resource_create := bool_over (rs ''Create'') (cf_resource_create c),
        cf_resource_idle_lifespan := int_over (ri ''IdleLifespan'')
          (or_old (cf_resource_idle_lifespan c)) (cf_resource_idle_lifespan c)\<rparr>)"

definition daemon_value :: "key_file \<Rightarrow> config_value \<Rightarrow> config_value" where
  "daemon_value k c =
     (let ds = gkf_string k ''Daemon''; di = gkf_integer k ''Daemon'' in
      c\<lparr>cf_socket_name := str_over (ds ''SocketName'') (cf_socket_name c),
        cf_daemon_lifespan := int_over (di ''Lifespan'') id (cf_daemon_lifespan c),
        cf_unicast_address := str_over (ds ''UnicastAddress'') (cf_unicast_address c),
        cf_unicast_port := int_over (di ''UnicastPort'') gint_abs (cf_unicast_port c),
        cf_multicast_address := str_over (ds ''MulticastAddress'') (cf_multicast_address c),
        cf_multicast_port := int_over (di ''MulticastPort'') gint_abs (cf_multicast_port c),
        cf_mount_point_vfs := str_over (ds ''MountPointVFS'') (cf_mount_point_vfs c),
        cf_ignored_signals := signals_over (gkf_string_list k ''Monitor'' ''IgnoredSignals'')
          (cf_ignored_signals c)\<rparr>)"

definition network_value :: "cfg_env \<Rightarrow> key_file \<Rightarrow> config_value \<Rightarrow> config_value" where
  "network_value e k c =
     (let ni = gkf_integer k ''Network''; tls = gkf_string k ''TLS'' in
      (interface_over e (gkf_string k ''Network'' ''NetworkInterface'') c)\<lparr>
        cf_discovery_attempts :=
          int_over (ni ''DiscoveryAttempts'') (or_old 1) (cf_discovery_attempts c),
        cf_discovery_timeout := int_over (ni ''DiscoveryTimeout'') gint_abs (cf_discovery_timeout c),
        cf_discovery_ttl := int_over (ni ''DiscoveryTTL'') (or_old 1) (cf_discovery_ttl c),
        cf_tcp_keepalive_time := int_over (ni ''TcpKeepaliveTime'') gint_abs (cf_tcp_keepalive_time c),
        cf_tcp_keepalive_intvl :=
          int_over (ni ''TcpKeepaliveIntvl'') gint_abs (cf_tcp_keepalive_intvl c),
        cf_tcp_keepalive_probes :=
          int_over (ni ''TcpKeepaliveProbes'') gint_abs (cf_tcp_keepalive_probes c),
        cf_tls_certificate := path_over e (tls ''TlsCertificate'') (cf_tls_certificate c),
        cf_tls_private_key := path_over e (tls ''TlsPrivateKey'') (cf_tls_private_key c),
        cf_tls_ca_certificate := path_over e (tls ''TlsCaCertificate'') (cf_tls_ca_certificate c),
        cf_tls_check_peer_id := bool_over (tls ''TlsCheckPeerId'') (cf_tls_check_peer_id c)\<rparr>)"

definition file_value :: "cfg_env \<Rightarrow> key_file \<Rightarrow> config_value \<Rightarrow> config_value" where
  "file_value e k c = network_value e k (daemon_value k (trace_resource_value k c))"

text \<open>
  A step keeps the ownership, throws exactly when its key is not acceptable, and
  otherwise changes the value as specified.
\<close>

definition hard_error :: "rc \<Rightarrow> bool" where
  "hard_error r \<longleftrightarrow> r \<noteq> FLOM_RC_OK \<and> r \<noteq> FLOM_RC_G_KEY_FILE_LOAD_FROM_FILE_ERROR"

definition step_spec :: "load_step \<Rightarrow> bool \<Rightarrow> (config_value \<Rightarrow> config_value) \<Rightarrow> bool" where
  "step_spec f ok g \<longleftrightarrow>
     (\<forall>F s. owns F s \<longrightarrow> owns F (snd (snd (f s))) \<and> (fst (f s) = NO_EXCP \<longleftrightarrow> ok) \<and>
       (ok \<longrightarrow> value_of (snd (snd (f s))) = g (value_of s)) \<and>
       (\<not> ok \<longrightarrow> hard_error (load_ret_cod (fst (f s)) (fst (snd (f s))))))"

lemma run_steps_spec:
  assumes "list_all2 (\<lambda>f sp. step_spec f (fst sp) (snd sp)) fs sps" "owns F s"
  shows "owns F (snd (snd (run_steps fs s))) \<and>
    (fst (run_steps fs s) = NO_EXCP \<longleftrightarrow> list_all fst sps) \<and>
    (list_all fst sps \<longrightarrow> value_of (snd (snd (run_steps fs s))) = fold snd sps (value_of s)) \<and>
    (\<not> list_all fst sps \<longrightarrow>
       hard_error (load_ret_cod (fst (run_steps fs s)) (fst (snd (run_steps fs s)))))"
  using assms
proof (induction fs sps arbitrary: s rule: list_all2_induct)
  case (Cons f fs sp sps)
  obtain x r s' where f: "f s = (x, r, s')" by (cases "f s")
  have "owns F s' \<and> (x = NO_EXCP \<longleftrightarrow> fst sp) \<and> (fst sp \<longrightarrow> value_of s' = snd sp (value_of s)) \<and>
      (\<not> fst sp \<longrightarrow> hard_error (load_ret_cod x r))"
    using Cons.hyps(1) Cons.prems f unfolding step_spec_def by (metis fst_conv snd_conv)
  then show ?case using Cons.IH [of s'] f by simp
qed simp

lemma load_string_spec:
  assumes "\<And>F t s. owns F s \<Longrightarrow> owns F (setter t s) \<and> value_of (setter t s) = upd (\<lambda>_. Some t) (value_of s)"
    "\<And>c. upd (\<lambda>old. old) c = c"
  shows "step_spec (load_string v setter) True (upd (str_over v))"
  using assms by (auto simp: step_spec_def load_string_def str_over_def [abs_def] split: option.split)

lemma load_checked_spec:
  assumes "x \<noteq> NO_EXCP"
    "\<And>F t s. owns F s \<Longrightarrow> owns F (snd (setter t s)) \<and> (fst (setter t s) = 0 \<longleftrightarrow> ok t) \<and>
       (ok t \<longrightarrow> value_of (snd (setter t s)) = g (Some t) (value_of s)) \<and>
       (\<not> ok t \<longrightarrow> hard_error (load_ret_cod x (fst (setter t s))))"
    "\<And>c. g None c = c"
  shows "step_spec (load_checked v x setter) (opt_ok ok v) (g v)"
  using assms
  by (auto simp: step_spec_def load_checked_def opt_ok_def case_prod_beta split: option.split)

lemma load_bool_spec:
  assumes "x \<noteq> NO_EXCP" "hard_error (load_ret_cod x 0)"
    "\<And>F b s. owns F s \<Longrightarrow> owns F (setter b s) \<and> value_of (setter b s) = upd (\<lambda>_. b) (value_of s)"
    "\<And>c. upd (\<lambda>old. old) c = c"
  shows "step_spec (load_bool v x setter) (bool_ok v) (upd (bool_over v))"
  using assms
  by (auto simp: step_spec_def load_bool_def bool_ok_def opt_ok_def bool_over_def [abs_def]
      split: option.split flom_bool_value.split)

lemma load_integer_spec:
  assumes "x \<noteq> NO_EXCP" "hard_error (load_ret_cod x 0)"
    "\<And>F i s. owns F s \<Longrightarrow> owns F (setter i s) \<and> value_of (setter i s) = upd (\<lambda>old. f old i) (value_of s)"
    "\<And>c. upd (\<lambda>old. old) c = c"
  shows "step_spec (load_integer v x setter) (int_ok v) (upd (\<lambda>old. int_over v (f old) old))"
  using assms by (auto simp: step_spec_def load_integer_def int_ok_def int_over_def [abs_def] split: sum.split)

lemma update_old [simp]:
  "cf_daemon_trace_file_update (\<lambda>x. x) c = c"
  "cf_command_trace_file_update (\<lambda>x. x) c = c"
  "cf_append_trace_file_update (\<lambda>x. x) c = c"
  "cf_verbose_update (\<lambda>x. x) c = c"
  "cf_resource_timeout_update (\<lambda>x. x) c = c"
  "cf_resource_quantity_update (\<lambda>x. x) c = c"
  "cf_lock_mode_update (\<lambda>x. x) c = c"
  "cf_resource_create_update (\<lambda>x. x) c = c"
  "cf_resource_idle_lifespan_update (\<lambda>x. x) c = c"
  "cf_socket_name_update (\<lambda>x. x) c = c"
  "cf_daemon_lifespan_update (\<lambda>x. x) c = c"
  "cf_unicast_address_update (\<lambda>x. x) c = c"
  "cf_unicast_port_update (\<lambda>x. x) c = c"
  "cf_multicast_address_update (\<lambda>x. x) c = c"
  "cf_multicast_port_update (\<lambda>x. x) c = c"
  "cf_mount_point_vfs_update (\<lambda>x. x) c = c"
  "cf_ignored_signals_update (\<lambda>x. x) c = c"
  "cf_discovery_attempts_update (\<lambda>x. x) c = c"
  "cf_discovery_timeout_update (\<lambda>x. x) c = c"
  "cf_discovery_ttl_update (\<lambda>x. x) c = c"
  "cf_tcp_keepalive_time_update (\<lambda>x. x) c = c"
  "cf_tcp_keepalive_intvl_update (\<lambda>x. x) c = c"
  "cf_tcp_keepalive_probes_update (\<lambda>x. x) c = c"
  "cf_tls_certificate_update (\<lambda>x. x) c = c"
  "cf_tls_private_key_update (\<lambda>x. x) c = c"
  "cf_tls_ca_certificate_update (\<lambda>x. x) c = c"
  "cf_tls_check_peer_id_update (\<lambda>x. x) c = c"
  by (cases c; simp)+

lemma load_lock_mode_spec:
  "step_spec (load_lock_mode v) (opt_ok (\<lambda>t. flom_lock_mode_retrieve t \<noteq> FLOM_LOCK_MODE_INVALID) v)
     (cf_lock_mode_update (mode_over v))"
  by (auto simp: step_spec_def load_lock_mode_def opt_ok_def Let_def plain_setters_own
      plain_setters_value mode_over_def [abs_def] hard_error_def load_ret_cod_def split: option.split)

lemma value_of_plain:
  "value_of (set_plain (cf_ignored_signals_update (\<lambda>_. g)) s) = (value_of s)\<lparr>cf_ignored_signals := g\<rparr>"
  "value_of (set_plain (cf_resource_transactional_update (\<lambda>_. b)) s) =
     (value_of s)\<lparr>cf_resource_transactional := b\<rparr>"
  "value_of (set_plain (cf_sin6_scope_id_update (\<lambda>_. n)) s) = (value_of s)\<lparr>cf_sin6_scope_id := n\<rparr>"
  by (simp_all add: set_plain_def value_of_def view_def)

lemma load_ignored_signals_spec:
  "step_spec (load_ignored_signals v) True
     (cf_ignored_signals_update (signals_over v))"
  using plain_setters_own
  by (auto simp: signals_over_def [abs_def] step_spec_def load_ignored_signals_def flom_config_set_ignored_signals_def
      value_of_plain owns_set_plain ptrs_def split: option.split)

text \<open>The specifications of the steps of a file, in their order.\<close>

definition file_spec :: "cfg_env \<Rightarrow> key_file \<Rightarrow> (bool \<times> (config_value \<Rightarrow> config_value)) list" where
  "file_spec e k =
    (let str = (\<lambda>g n upd. (True, upd (str_over (gkf_string k g n))));
         chk = (\<lambda>g n ok f. (opt_ok ok (gkf_string k g n), f (gkf_string k g n)));
         bol = (\<lambda>g n upd. (bool_ok (gkf_string k g n), upd (bool_over (gkf_string k g n))));
         num = (\<lambda>g n upd f. (int_ok (gkf_integer k g n),
                  upd (\<lambda>old. int_over (gkf_integer k g n) (f old) old)));
         path = (\<lambda>n upd. (opt_ok (\<lambda>t. e_realpath e t \<noteq> None) (gkf_string k ''TLS'' n),
                  upd (path_over e (gkf_string k ''TLS'' n))))
     in [str ''Trace'' ''DaemonTraceFile'' cf_daemon_trace_file_update,
         str ''Trace'' ''CommandTraceFile'' cf_command_trace_file_update,
         bol ''Trace'' ''AppendTraceFile'' cf_append_trace_file_update,
         bol ''Trace'' ''Verbose'' cf_verbose_update,
         chk ''Resource'' ''Name'' name_ok name_over,
         num ''Resource'' ''Timeout'' cf_resource_timeout_update (\<lambda>old i. i),
         num ''Resource'' ''Quantity'' cf_resource_quantity_update (\<lambda>old i. or_old old i),
         chk ''Resource'' ''LockMode'' (\<lambda>t. flom_lock_mode_retrieve t \<noteq> FLOM_LOCK_MODE_INVALID)
           (\<lambda>v. cf_lock_mode_update (mode_over v)),
         bol ''Resource'' ''Create'' cf_resource_create_update,
         num ''Resource'' ''IdleLifespan'' cf_resource_idle_lifespan_update (\<lambda>old i. or_old old i),
         chk ''Daemon'' ''SocketName'' (\<lambda>t. length t < LOCAL_SOCKET_SIZE)
           (\<lambda>v. cf_socket_name_update (str_over v)),
         num ''Daemon'' ''Lifespan'' cf_daemon_lifespan_update (\<lambda>old i. i),
         str ''Daemon'' ''UnicastAddress'' cf_unicast_address_update,
         num ''Daemon'' ''UnicastPort'' cf_unicast_port_update (\<lambda>old i. gint_abs i),
         str ''Daemon'' ''MulticastAddress'' cf_multicast_address_update,
         num ''Daemon'' ''MulticastPort'' cf_multicast_port_update (\<lambda>old i. gint_abs i),
         chk ''Daemon'' ''MountPointVFS'' (\<lambda>t. e_opendir e t \<and> e_closedir e t)
           (\<lambda>v. cf_mount_point_vfs_update (str_over v)),
         (True, cf_ignored_signals_update (signals_over (gkf_string_list k ''Monitor'' ''IgnoredSignals''))),
         (True, interface_over e (gkf_string k ''Network'' ''NetworkInterface'')),
         num ''Network'' ''DiscoveryAttempts'' cf_discovery_attempts_update (\<lambda>old i. or_old 1 i),
         num ''Network'' ''DiscoveryTimeout'' cf_discovery_timeout_update (\<lambda>old i. gint_abs i),
         num ''Network'' ''DiscoveryTTL'' cf_discovery_ttl_update (\<lambda>old i. or_old 1 i),
         num ''Network'' ''TcpKeepaliveTime'' cf_tcp_keepalive_time_update (\<lambda>old i. gint_abs i),
         num ''Network'' ''TcpKeepaliveIntvl'' cf_tcp_keepalive_intvl_update (\<lambda>old i. gint_abs i),
         num ''Network'' ''TcpKeepaliveProbes'' cf_tcp_keepalive_probes_update (\<lambda>old i. gint_abs i),
         path ''TlsCertificate'' cf_tls_certificate_update,
         path ''TlsPrivateKey'' cf_tls_private_key_update,
         path ''TlsCaCertificate'' cf_tls_ca_certificate_update,
         bol ''TLS'' ''TlsCheckPeerId'' cf_tls_check_peer_id_update])"

lemma checked_setters:
  assumes "owns F s"
  shows "fst (flom_config_set_resource_name t s) = 0 \<longleftrightarrow> name_ok t"
    "name_ok t \<longrightarrow> value_of (snd (flom_config_set_resource_name t s)) =
       (value_of s)\<lparr>cf_resource_name := Some t, cf_resource_transactional := flom_rsrc_get_transactional t\<rparr>"
    "fst (flom_config_set_socket_name (Some t) s) = 0 \<longleftrightarrow> length t < LOCAL_SOCKET_SIZE"
    "length t < LOCAL_SOCKET_SIZE \<longrightarrow>
       value_of (snd (flom_config_set_socket_name (Some t) s)) = (value_of s)\<lparr>cf_socket_name := Some t\<rparr>"
    "fst (flom_config_set_mount_point_vfs e t s) = 0 \<longleftrightarrow> e_opendir e t \<and> e_closedir e t"
    "e_opendir e t \<and> e_closedir e t \<longrightarrow>
       value_of (snd (flom_config_set_mount_point_vfs e t s)) = (value_of s)\<lparr>cf_mount_point_vfs := Some t\<rparr>"
  using assms
  by (auto simp: flom_config_set_resource_name_def flom_config_set_socket_name_def
      flom_config_set_mount_point_vfs_def name_ok_def string_setters_value value_of_plain)

lemma path_setters:
  assumes "owns F s"
  shows "fst (flom_config_set_tls_certificate e t s) = 0 \<longleftrightarrow> e_realpath e t \<noteq> None"
    "e_realpath e t \<noteq> None \<longrightarrow>
       value_of (snd (flom_config_set_tls_certificate e t s)) = (value_of s)\<lparr>cf_tls_certificate := e_realpath e t\<rparr>"
    "fst (flom_config_set_tls_private_key e t s) = 0 \<longleftrightarrow> e_realpath e t \<noteq> None"
    "e_realpath e t \<noteq> None \<longrightarrow>
       value_of (snd (flom_config_set_tls_private_key e t s)) = (value_of s)\<lparr>cf_tls_private_key := e_realpath e t\<rparr>"
    "fst (flom_config_set_tls_ca_certificate e t s) = 0 \<longleftrightarrow> e_realpath e t \<noteq> None"
    "e_realpath e t \<noteq> None \<longrightarrow>
       value_of (snd (flom_config_set_tls_ca_certificate e t s)) = (value_of s)\<lparr>cf_tls_ca_certificate := e_realpath e t\<rparr>"
    "e_realpath e t = None \<longrightarrow> fst (flom_config_set_tls_certificate e t s) = - 125"
    "e_realpath e t = None \<longrightarrow> fst (flom_config_set_tls_private_key e t s) = - 125"
    "e_realpath e t = None \<longrightarrow> fst (flom_config_set_tls_ca_certificate e t s) = - 125"
  using assms
  by (auto simp: flom_config_set_tls_certificate_def flom_config_set_tls_private_key_def
      flom_config_set_tls_ca_certificate_def string_setters_value split: option.splits)

lemma interface_value:
  "owns F s \<Longrightarrow> value_of (snd (flom_config_set_network_interface e t s)) = interface_over e (Some t) (value_of s)"
  by (simp add: flom_config_set_network_interface_def interface_over_def found_scope_def scope_over_def network_interface.set_string_value
      [of F] owns_set_plain ptrs_def value_of_plain split: option.split)

lemma load_interface_spec:
  "step_spec (load_string v (\<lambda>t s. snd (flom_config_set_network_interface e t s))) True (interface_over e v)"
proof -
  have "interface_over e None c = c" for c by (simp add: interface_over_def found_scope_def scope_over_def)
  then show ?thesis
    by (simp add: step_spec_def load_string_def setters_own interface_value split: option.split)
qed

lemma file_steps_spec:
  "list_all2 (\<lambda>f sp. step_spec f (fst sp) (snd sp)) (file_steps e k) (file_spec e k)"
  unfolding file_steps_def file_spec_def trace_steps_def resource_steps_def daemon_steps_def
    monitor_network_steps_def keepalive_steps_def tls_steps_def Let_def append.simps
  apply (simp only: list_all2_Cons list_all2_Nil fst_conv snd_conv simp_thms)
  apply (intro conjI)
  apply (rule load_string_spec load_checked_spec load_bool_spec load_integer_spec load_lock_mode_spec
      load_ignored_signals_spec load_interface_spec; simp add: setters_own plain_setters_own setters_value checked_setters path_setters
      interface_value plain_setters_value or_old_def name_over_def transactional_over_def str_over_def [abs_def] path_over_def [abs_def] hard_error_def load_ret_cod_def)+
  done


lemma file_spec_accepted: "list_all fst (file_spec e k) \<longleftrightarrow> file_accepted e k"
  unfolding file_spec_def file_accepted_def Let_def by (simp; blast)

lemma file_spec_value: "fold snd (file_spec e k) c = file_value e k c"
  unfolding file_spec_def file_value_def trace_resource_value_def daemon_value_def network_value_def Let_def
  by (cases c) (simp add: name_over_def interface_over_def Let_def id_def)

lemma init_load_spec:
  assumes "owns F s" "e_key_file_new e"
  shows "owns F (snd (flom_config_init_load e n s))"
    "e_load e n = None \<Longrightarrow> flom_config_init_load e n s = (- 203, s)"
    "e_load e n = Some k \<Longrightarrow> file_accepted e k \<Longrightarrow>
       fst (flom_config_init_load e n s) = 0 \<and>
       value_of (snd (flom_config_init_load e n s)) = file_value e k (value_of s)"
    "e_load e n = Some k \<Longrightarrow> \<not> file_accepted e k \<Longrightarrow> hard_error (fst (flom_config_init_load e n s))"
proof -
  have r: "owns F (snd (snd (run_steps (file_steps e k) s)))"
    "file_accepted e k \<Longrightarrow> fst (run_steps (file_steps e k) s) = NO_EXCP \<and>
       value_of (snd (snd (run_steps (file_steps e k) s))) = file_value e k (value_of s)"
    "\<not> file_accepted e k \<Longrightarrow> hard_error (load_ret_cod (fst (run_steps (file_steps e k) s))
       (fst (snd (run_steps (file_steps e k) s))))" for k
    using run_steps_spec [OF file_steps_spec assms(1)] by (simp_all add: file_spec_accepted file_spec_value)
  have c: "load_ret_cod NO_EXCP q = 0" "load_ret_cod G_KEY_FILE_LOAD_FROM_FILE_ERROR q = - 203" for q
    by (simp_all add: load_ret_cod_def)
  show "owns F (snd (flom_config_init_load e n s))"
    "e_load e n = None \<Longrightarrow> flom_config_init_load e n s = (- 203, s)"
    "e_load e n = Some k \<Longrightarrow> file_accepted e k \<Longrightarrow>
       fst (flom_config_init_load e n s) = 0 \<and>
       value_of (snd (flom_config_init_load e n s)) = file_value e k (value_of s)"
    "e_load e n = Some k \<Longrightarrow> \<not> file_accepted e k \<Longrightarrow> hard_error (fst (flom_config_init_load e n s))"
    using assms r by (simp_all add: flom_config_init_load_def case_prod_beta c split: option.split)
qed

text \<open>
  The three files in their order; the first two may be missing, the custom one
  may not.
\<close>

definition init_files :: "cfg_env \<Rightarrow> string option \<Rightarrow> (string \<times> bool) list" where
  "init_files e custom = [(system_config_filename e, False), (user_config_filename e, False)] @
     (case custom of None \<Rightarrow> [] | Some n \<Rightarrow> [(n, True)])"

fun init_value :: "cfg_env \<Rightarrow> (string \<times> bool) list \<Rightarrow> config_value \<Rightarrow> config_value option" where
  "init_value e [] c = Some c"
| "init_value e ((n, mandatory) # fs) c =
     (case e_load e n of
        None \<Rightarrow> if mandatory then None else init_value e fs c
      | Some k \<Rightarrow> if file_accepted e k then init_value e fs (file_value e k c) else None)"

lemma init_load_cases:
  assumes "owns F s" "e_key_file_new e"
  obtains
    (missing) "e_load e n = None" "flom_config_init_load e n s = (- 203, s)"
  | (accepted) k s' where "e_load e n = Some k" "file_accepted e k"
      "flom_config_init_load e n s = (0, s')" "owns F s'" "value_of s' = file_value e k (value_of s)"
  | (refused) k r s' where "e_load e n = Some k" "\<not> file_accepted e k"
      "flom_config_init_load e n s = (r, s')" "owns F s'" "hard_error r"
proof -
  obtain r s' where l: "flom_config_init_load e n s = (r, s')" by (cases "flom_config_init_load e n s")
  show thesis
  proof (cases "e_load e n")
    case None
    then show thesis using missing init_load_spec(2) [OF assms None] by simp
  next
    case (Some k)
    then show thesis
      using accepted [of k s'] refused [of k r s'] init_load_spec [OF assms, of n] l by (cases "file_accepted e k") auto
  qed
qed

fun init_chain :: "cfg_env \<Rightarrow> (string \<times> bool) list \<Rightarrow> cfg_state \<Rightarrow> rc \<times> cfg_state" where
  "init_chain e [] s = (0, s)"
| "init_chain e ((n, mandatory) # fs) s =
     (case flom_config_init_load e n s of (r, s') \<Rightarrow>
        if r \<noteq> 0 \<and> (mandatory \<or> r \<noteq> - 203) then (r, s') else init_chain e fs s')"

lemma init_is_chain: "flom_config_init e custom s = init_chain e (init_files e custom) s"
  by (auto simp: flom_config_init_def init_files_def split: prod.split option.split)

lemma init_chain_refines:
  assumes "e_key_file_new e"
  shows "owns F s \<Longrightarrow> owns F (snd (init_chain e fs s)) \<and>
    (fst (init_chain e fs s) = 0 \<longleftrightarrow> init_value e fs (value_of s) \<noteq> None) \<and>
    (fst (init_chain e fs s) = 0 \<longrightarrow>
       init_value e fs (value_of s) = Some (value_of (snd (init_chain e fs s))))"
proof (induction fs arbitrary: s)
  case (Cons f fs)
  obtain n m where f: "f = (n, m)" by (cases f)
  from Cons.prems assms show ?case
  proof (cases rule: init_load_cases [where n = n])
    case missing
    then show ?thesis using Cons.IH [OF Cons.prems] Cons.prems by (cases m) (simp_all add: f)
  next
    case (accepted k s')
    then show ?thesis using Cons.IH [OF accepted(4)] by (auto simp: f)
  next
    case refused
    then show ?thesis by (simp add: f hard_error_def)
  qed
qed simp

lemma init_without_key_file:
  "\<not> e_key_file_new e \<Longrightarrow> flom_config_init e custom s = (- 204, s)"
  by (simp add: flom_config_init_def flom_config_init_load_def load_ret_cod_def)

lemma init_owns: "owns F s \<Longrightarrow> owns F (snd (flom_config_init e custom s))"
  using init_chain_refines [of e F s] init_without_key_file [of e custom s]
  by (cases "e_key_file_new e") (metis init_is_chain, simp)


section \<open>Check, release and copy\<close>

lemma check_socket_owns:
  assumes "owns F s"
  shows "owns F (check_socket e s)"
proof (cases "cf_socket_name (cfg s) = None \<and> cf_unicast_address (cfg s) = None \<and>
     cf_multicast_address (cfg s) = None")
  case True
  obtain p h where d: "g_strdup (Some (default_socket_name e)) (heap s) = (p, h)"
    by (cases "g_strdup (Some (default_socket_name e)) (heap s)")
  have "owns_list F h ((ptrs (cfg s))[3 := p])"
    using owns_list_dup [OF _ _ _ d, of F "ptrs (cfg s)" 3] assms True by (simp add: owns_def ptrs_def)
  then show ?thesis using True assms by (simp add: check_socket_def owns_def d socket_name.upd_ptrs)
qed (auto simp: check_socket_def assms)

lemma check_mode_quantity_owns:
  "owns F s \<Longrightarrow> owns F (check_quantity frt (check_lock_mode frt s))"
  by (simp add: check_quantity_def check_lock_mode_def plain_setters_own)

lemma owned_name:
  assumes "owns F s"
  shows "\<exists>name. str_of (heap s) (cf_resource_name (cfg s)) = Some name"
proof -
  have "ptrs (cfg s) ! 2 = cf_resource_name (cfg s)" "2 < length (ptrs (cfg s))" by (simp_all add: ptrs_def)
  then obtain a where "cf_resource_name (cfg s) = Some a" "Some a \<in> set (ptrs (cfg s))"
    using assms nth_mem [of 2 "ptrs (cfg s)"] by (auto simp: owns_def)
  then show ?thesis using assms by (auto simp: owns_def owns_list_def str_of_def)
qed

lemma check_owns:
  assumes "owns F s"
  shows "owns F (snd (flom_config_check e s))"
  using owned_name [OF check_socket_owns [OF assms, of e]] check_socket_owns [OF assms, of e] assms
  by (auto simp: flom_config_check_def Let_def check_mode_quantity_owns)

text \<open>Release of a list of owned strings.\<close>

lemma free_part:
  assumes "owns_list F h (ps @ qs @ rs)"
  shows "owns_list F (fold g_free qs h) (ps @ replicate (length qs) None @ rs)"
  using assms
proof (induction qs arbitrary: ps h)
  case (Cons q qs)
  have "owns_list F (g_free q h) (ps @ None # qs @ rs)"
    using owns_list_free [OF Cons.prems, of "length ps"] by simp
  then show ?case using Cons.IH [of "g_free q h" "ps @ [None]"] by simp
qed simp

lemma owns_list_valid: "owns_list F h ps \<Longrightarrow> \<not> h_bad h"
  by (simp add: owns_list_def)

lemma owns_nothing: "owns_list F h (replicate n None) \<Longrightarrow> \<not> h_bad h \<and> h_map h = F"
  unfolding owns_list_def by (metis ext in_set_replicate option.distinct(1))

lemma free_all: "owns_list F h ps \<Longrightarrow> \<not> h_bad (fold g_free ps h) \<and> h_map (fold g_free ps h) = F"
  using free_part [of F h "[]" ps "[]"] owns_nothing by simp

lemma free_owned:
  assumes "owns F s"
  shows "\<not> h_bad (heap (flom_config_free s))" "h_map (heap (flom_config_free s)) = F"
  using free_all [of F "heap s" "ptrs (cfg s)"] assms
  unfolding owns_def flom_config_free_def Let_def by (simp_all add: ptrs_def)

lemma fold_free_unallocated:
  assumes "\<forall>a. Some a \<in> set ps \<longrightarrow> h_map h a = None"
  shows "h_bad (fold g_free ps h) \<longleftrightarrow> h_bad h \<or> (\<exists>p \<in> set ps. p \<noteq> None)"
  using assms
proof (induction ps arbitrary: h)
  case (Cons p ps)
  have "\<forall>a. Some a \<in> set ps \<longrightarrow> h_map (g_free p h) a = None"
    using Cons.prems by (auto simp: g_free_def split: option.split)
  moreover have "h_bad (g_free p h) \<longleftrightarrow> h_bad h \<or> p \<noteq> None"
    using Cons.prems by (auto simp: g_free_def split: option.split)
  ultimately show ?case using Cons.IH [of "g_free p h"] by simp
qed simp

text \<open>The copy: the eight strings it duplicates belong to it, over what was allocated before.\<close>

definition extends :: "sheap \<Rightarrow> sheap \<Rightarrow> bool" where
  "extends h h' \<longleftrightarrow> (\<forall>a. h_map h a \<noteq> None \<longrightarrow> h_map h' a = h_map h a)"

lemma dup_step:
  assumes "owns_list F h ps" "i < length ps" "ps ! i = None" "extends h0 h"
    "g_strdup v h = (p, h')"
  shows "owns_list F h' (ps[i := p])" "extends h0 h'" "str_of h' p = v"
    "p = None \<or> str_of h' p \<noteq> None"
proof -
  have "h_map h (h_next h) = None" using assms(1) unfolding owns_list_def by blast
  then show "extends h0 h'"
    using assms(4,5) by (auto simp: extends_def g_strdup_def split: option.splits)
qed (use assms in \<open>auto simp: owns_list_dup str_of_dup g_strdup_def str_of_def split: option.splits\<close>)

lemma heap_extends_str_of: "extends h h' \<Longrightarrow> p = None \<or> str_of h p \<noteq> None \<Longrightarrow> str_of h' p = str_of h p"
  by (auto simp: extends_def str_of_def split: option.splits)

lemma owns_alone:
  assumes "owns F s"
  shows "owns_list (h_map (heap s)) (heap s) (replicate 11 None)"
  using assms by (auto simp: owns_def owns_list_def apart_def)

lemma owned_str:
  assumes "owns F s" "p \<in> set (ptrs (cfg s))"
  shows "p = None \<or> str_of (heap s) p \<noteq> None"
  using assms by (cases p) (auto simp: owns_def owns_list_def str_of_def)

lemma heap_extends_refl: "extends h h"
  by (simp add: extends_def)

lemma heap_extends_trans: "extends h h' \<Longrightarrow> extends h' h'' \<Longrightarrow> extends h h''"
  by (simp add: extends_def)

fun dup_all :: "addr option list \<Rightarrow> sheap \<Rightarrow> addr option list \<times> sheap" where
  "dup_all [] h = ([], h)"
| "dup_all (x # xs) h =
     (let (p, h1) = g_strdup (str_of h x) h; (ps, h2) = dup_all xs h1 in (p # ps, h2))"

lemma dup_all_owns:
  assumes "owns_list F h (qs @ replicate (length xs + m) None)"
    "\<forall>x \<in> set xs. x = None \<or> str_of h x \<noteq> None" "dup_all xs h = (ps, h')"
  shows "owns_list F h' (qs @ ps @ replicate m None) \<and> extends h h' \<and> length ps = length xs \<and>
    map (str_of h') ps = map (str_of h) xs \<and> (\<forall>p \<in> set ps. p = None \<or> str_of h' p \<noteq> None)"
  using assms
proof (induction xs arbitrary: h qs ps)
  case (Cons x xs)
  obtain p h1 where d: "g_strdup (str_of h x) h = (p, h1)" by (cases "g_strdup (str_of h x) h")
  obtain ps' where r: "dup_all xs h1 = (ps', h')" and ps: "ps = p # ps'"
    using Cons.prems(3) d by (auto split: prod.splits)
  note s = dup_step [OF Cons.prems(1) _ _ heap_extends_refl d, of "length qs"]
  have o: "owns_list F h1 ((qs @ [p]) @ replicate (length xs + m) None)"
    and e: "extends h h1" and v: "str_of h1 p = str_of h x" "p = None \<or> str_of h1 p \<noteq> None"
    using s by simp_all
  have old: "str_of h1 y = str_of h y" if "y \<in> set xs" for y
    using heap_extends_str_of [OF e] Cons.prems(2) that by simp
  have IH: "owns_list F h' ((qs @ [p]) @ ps' @ replicate m None) \<and> extends h1 h' \<and>
      length ps' = length xs \<and> map (str_of h') ps' = map (str_of h1) xs \<and>
      (\<forall>p \<in> set ps'. p = None \<or> str_of h' p \<noteq> None)"
    using Cons.IH [OF o _ r] Cons.prems(2) old by simp
  moreover have "str_of h' p = str_of h1 p" using IH v(2) by (blast intro: heap_extends_str_of)
  ultimately show ?case using v old heap_extends_trans [OF e] ps by auto
qed (simp add: heap_extends_refl)

lemma clone_dup_all:
  assumes "flom_config_clone h g = (h', c)"
  shows "dup_all (take 8 (ptrs g)) h = (take 8 (ptrs c), h')" "drop 8 (ptrs c) = drop 8 (ptrs g)"
  using assms by (auto simp: flom_config_clone_def ptrs_def split: prod.splits)

lemma view_ptrs: "map (str_of h) (ptrs c) = ptrs (view h c)"
  by (simp add: ptrs_def view_def)

lemma clone_owns:
  assumes o: "owns F \<lparr>heap = h, cfg = g\<rparr>" and c: "flom_config_clone h g = (h', c)"
  shows "owns_list (h_map h) h' (take 8 (ptrs c) @ replicate 3 None)" "extends h h'"
    "ptrs (view h' c) = ptrs (view h g)"
proof -
  have len: "length (ptrs g) = 11" by (simp add: ptrs_def)
  have old: "\<forall>x \<in> set (take 8 (ptrs g)). x = None \<or> str_of h x \<noteq> None"
    using owned_str [OF o] by (auto dest: in_set_takeD)
  have o': "owns_list (h_map h) h ([] @ replicate (length (take 8 (ptrs g)) + 3) None)"
    using owns_alone [OF o] len by simp
  note d = dup_all_owns [OF o' old clone_dup_all(1) [OF c]]
  from d show "owns_list (h_map h) h' (take 8 (ptrs c) @ replicate 3 None)" "extends h h'" by simp_all
  then have tls: "map (str_of h') (drop 8 (ptrs g)) = map (str_of h) (drop 8 (ptrs g))"
    using owned_str [OF o] heap_extends_str_of by (auto dest: in_set_dropD)
  have "map (str_of h') (ptrs c) = map (str_of h') (take 8 (ptrs c)) @ map (str_of h') (drop 8 (ptrs c))"
    by (metis append_take_drop_id map_append)
  also have "\<dots> = map (str_of h) (ptrs g)"
    using d tls clone_dup_all(2) [OF c] by (metis append_take_drop_id map_append)
  finally show "ptrs (view h' c) = ptrs (view h g)" by (simp add: view_ptrs)
qed

lemma clone_value:
  assumes "owns F \<lparr>heap = h, cfg = g\<rparr>" "flom_config_clone h g = (h', c)"
  shows "view h' c = view h g"
  using clone_owns(3) [OF assms] assms(2)
  by (auto simp: ptrs_def view_def flom_config_clone_def split: prod.splits)

lemma owns_list_same:
  assumes "owns_list F h ps" "h_map h' = h_map h" "\<not> h_bad h'" "\<forall>a. h_next h' \<le> a \<longrightarrow> h_map h' a = None"
  shows "owns_list F h' ps"
  using assms by (simp add: owns_list_def)

lemma fold_free_Nones: "fold g_free (ps @ replicate n None) h = fold g_free ps h"
  by (induction n) (simp_all add: g_free_def replicate_app_Cons_same [symmetric] del: replicate_app_Cons_same)

text \<open>Release of the last strings of an object first, and then of all of them.\<close>

lemma free_suffix_twice:
  assumes "owns_list F h (ps @ qs)"
  shows "h_bad (fold g_free (ps @ qs) (fold g_free qs h)) \<longleftrightarrow> (\<exists>q \<in> set qs. q \<noteq> None)"
proof -
  have "owns_list F (fold g_free qs h) (ps @ replicate (length qs) None)"
    using free_part [of F h ps qs "[]"] assms by simp
  then have "\<not> h_bad (fold g_free ps (fold g_free qs h)) \<and> h_map (fold g_free ps (fold g_free qs h)) = F"
    using free_all by (metis fold_free_Nones)
  moreover have "\<forall>a. Some a \<in> set qs \<longrightarrow> F a = None" using assms unfolding owns_list_def by auto
  ultimately show ?thesis
    using fold_free_unallocated [of qs "fold g_free ps (fold g_free qs h)"] by simp
qed

lemma free_heap: "heap (flom_config_free s) = fold g_free (ptrs (cfg s)) (heap s)"
  by (simp add: flom_config_free_def ptrs_def Let_def)

lemma clone_freed_prefix:
  assumes o: "owns F \<lparr>heap = h, cfg = g\<rparr>" and c: "flom_config_clone h g = (h', c)"
  obtains H where "heap (flom_config_free \<lparr>heap = h', cfg = c\<rparr>) = fold g_free (drop 8 (ptrs g)) H"
    "h_map H = h_map h" "owns_list F H (take 8 (ptrs g) @ drop 8 (ptrs g))"
proof
  let ?H = "fold g_free (take 8 (ptrs c)) h'"
  have "fold g_free (ptrs c) h' = fold g_free (drop 8 (ptrs c)) ?H"
    by (metis append_take_drop_id fold_append comp_apply)
  then show "heap (flom_config_free \<lparr>heap = h', cfg = c\<rparr>) = fold g_free (drop 8 (ptrs g)) ?H"
    by (simp add: free_heap clone_dup_all(2) [OF c])
  have w: "owns_list (h_map h) ?H (replicate (length (take 8 (ptrs c)) + 3) None)"
    using free_part [of "h_map h" h' "[]" "take 8 (ptrs c)" "replicate 3 None"] clone_owns(1) [OF o c]
    by (simp add: replicate_add)
  show m: "h_map ?H = h_map h" using owns_nothing [OF w] by simp
  show "owns_list F ?H (take 8 (ptrs g) @ drop 8 (ptrs g))"
    using owns_list_same [of F h "ptrs g" ?H] o m w by (simp add: owns_def owns_list_def)
qed

definition tls_names :: "config \<Rightarrow> addr option list" where
  "tls_names c = [cf_tls_certificate c, cf_tls_private_key c, cf_tls_ca_certificate c]"

text \<open>A configuration is copied for every handle and both copies are released
  in the end.  The copy has the same values as the original.  Releasing the
  copy is always a valid operation, and without TLS names it leaves the strings
  of the original as they were; but with any TLS name set the three pointers are
  shared, and the second release, that of the original, releases a string that
  is no longer allocated.
\<close>

theorem clone_release_shares_tls:
  assumes o: "owns F \<lparr>heap = h, cfg = g\<rparr>" and c: "flom_config_clone h g = (h', c)"
    and s1: "s1 = flom_config_free \<lparr>heap = h', cfg = c\<rparr>"
    and s2: "s2 = flom_config_free \<lparr>heap = heap s1, cfg = g\<rparr>"
  shows "view h' c = view h g \<and> \<not> h_bad (heap s1) \<and>
    (list_all (\<lambda>p. p = None) (tls_names g) \<longrightarrow> h_map (heap s1) = h_map h) \<and>
    (h_bad (heap s2) \<longleftrightarrow> \<not> list_all (\<lambda>p. p = None) (tls_names g))"
proof (intro conjI)
  obtain H where H: "heap s1 = fold g_free (drop 8 (ptrs g)) H" "h_map H = h_map h"
    "owns_list F H (take 8 (ptrs g) @ drop 8 (ptrs g))"
    unfolding s1 by (rule clone_freed_prefix [OF o c])
  have tls: "drop 8 (ptrs g) = tls_names g" by (simp add: ptrs_def tls_names_def)
  show "view h' c = view h g" by (rule clone_value [OF o c])
  show "\<not> h_bad (heap s1)"
    unfolding H(1) by (rule owns_list_valid [OF free_part [where rs = "[]", unfolded append_Nil2, OF H(3)]])
  show "list_all (\<lambda>p. p = None) (tls_names g) \<longrightarrow> h_map (heap s1) = h_map h"
    using H(1,2) tls by (simp add: tls_names_def g_free_def)
  show "h_bad (heap s2) \<longleftrightarrow> \<not> list_all (\<lambda>p. p = None) (tls_names g)"
    using free_suffix_twice [OF H(3), unfolded append_take_drop_id] H(1)
    by (simp add: s2 free_heap tls list_all_iff)
qed

definition sample_heap :: sheap where "sample_heap = \<lparr>h_map = \<lambda>_. None, h_next = 0, h_bad = False\<rparr>"

lemma reset_owns:
  assumes "\<forall>a. h_next h \<le> a \<longrightarrow> h_map h a = None" "\<not> h_bad h"
  shows "owns (h_map h) (flom_config_reset h)"
proof -
  have "owns_list (h_map h) h (replicate 11 None)" using assms by (simp add: owns_list_def apart_def)
  then have "owns_list (h_map h) (heap (flom_config_reset h)) ((replicate 11 None)[2 := Some (h_next h)])"
    by (rule owns_list_dup [where v = "Some DEFAULT_RESOURCE_NAME"])
      (simp_all add: flom_config_reset_def g_strdup_def)
  moreover have "ptrs (cfg (flom_config_reset h)) = (replicate 11 None)[2 := Some (h_next h)]"
    by (simp add: flom_config_reset_def g_strdup_def ptrs_def numeral_eq_Suc)
  ultimately show ?thesis by (simp add: owns_def)
qed


text \<open>A copy with a TLS certificate, evaluated: the pointer of the original dangles.\<close>

definition sample_env :: cfg_env where
  "sample_env =
     \<lparr>e_key_file_new = True,
      e_load = (\<lambda>n. if n = ''f'' then Some
         \<lparr>gkf_string = (\<lambda>g k. if g = ''TLS'' \<and> k = ''TlsCertificate'' then Some ''c'' else None),
          gkf_integer = (\<lambda>g k. if k = ''Timeout'' then Inr 7 else Inl G_KEY_FILE_ERROR_KEY_NOT_FOUND),
          gkf_string_list = (\<lambda>_ _. None)\<rparr> else None),
      e_opendir = (\<lambda>_. True), e_closedir = (\<lambda>_. True), e_realpath = (\<lambda>t. Some (''/'' @ t)),
      e_ifaddrs = Some [], e_sysconfdir = ''/etc'', e_home = None, e_home_dir = ''/root'',
      e_login = None\<rparr>"

definition sample_state :: cfg_state where
  "sample_state = snd (flom_config_set_tls_certificate sample_env ''c'' (flom_config_reset sample_heap))"

lemma sample_owns: "owns (\<lambda>_. None) sample_state"
proof -
  have "owns (h_map sample_heap) (flom_config_reset sample_heap)"
    by (rule reset_owns) (simp_all add: sample_heap_def)
  then show ?thesis using setters_own(10) by (simp add: sample_state_def sample_heap_def)
qed

theorem clone_release_shares_tls_witness:
  "h_bad (heap (flom_config_free \<lparr>heap = heap (flom_config_free
     \<lparr>heap = fst (flom_config_clone (heap sample_state) (cfg sample_state)),
      cfg = snd (flom_config_clone (heap sample_state) (cfg sample_state))\<rparr>), cfg = cfg sample_state\<rparr>))"
proof -
  have "cf_tls_certificate (cfg sample_state) \<noteq> None"
    by (simp add: sample_state_def flom_config_set_tls_certificate_def sample_env_def set_string_def
        g_strdup_def case_prod_beta)
  moreover have "owns (\<lambda>_. None) \<lparr>heap = heap sample_state, cfg = cfg sample_state\<rparr>"
    using sample_owns by (simp add: owns_def)
  ultimately show ?thesis
    using clone_release_shares_tls [OF _ prod.collapse [symmetric] refl refl] by (simp add: tls_names_def)
qed

section \<open>Every sequence of calls\<close>

text \<open>The calls a client makes on a configuration between its reset and its release.\<close>

datatype cfg_op =
    Op_init "string option"
  | Op_check
  | Op_socket_name "string option"
  | Op_daemon_trace_file "string option"
  | Op_command_trace_file "string option"
  | Op_append_trace_file bool
  | Op_verbose bool
  | Op_lifespan int
  | Op_resource_name string
  | Op_resource_create bool
  | Op_resource_timeout int
  | Op_resource_quantity int
  | Op_lock_mode flom_lock_mode
  | Op_resource_idle_lifespan int
  | Op_unicast_address "string option"
  | Op_unicast_port int
  | Op_multicast_address "string option"
  | Op_multicast_port int
  | Op_mount_point_vfs string
  | Op_ignored_signals "string list option"
  | Op_network_interface string
  | Op_sin6_scope_id nat
  | Op_discovery_attempts int
  | Op_discovery_timeout int
  | Op_discovery_ttl int
  | Op_tcp_keepalive_time int
  | Op_tcp_keepalive_intvl int
  | Op_tcp_keepalive_probes int
  | Op_tls_certificate string
  | Op_tls_private_key string
  | Op_tls_ca_certificate string
  | Op_tls_check_peer_id bool

fun cfg_step :: "cfg_env \<Rightarrow> cfg_op \<Rightarrow> cfg_state \<Rightarrow> cfg_state" where
  "cfg_step e (Op_init v) s = snd (flom_config_init e v s)"
| "cfg_step e Op_check s = snd (flom_config_check e s)"
| "cfg_step e (Op_socket_name v) s = snd (flom_config_set_socket_name v s)"
| "cfg_step e (Op_daemon_trace_file v) s = flom_config_set_daemon_trace_file v s"
| "cfg_step e (Op_command_trace_file v) s = flom_config_set_command_trace_file v s"
| "cfg_step e (Op_append_trace_file v) s = flom_config_set_append_trace_file v s"
| "cfg_step e (Op_verbose v) s = flom_config_set_verbose v s"
| "cfg_step e (Op_lifespan v) s = flom_config_set_lifespan v s"
| "cfg_step e (Op_resource_name v) s = snd (flom_config_set_resource_name v s)"
| "cfg_step e (Op_resource_create v) s = flom_config_set_resource_create v s"
| "cfg_step e (Op_resource_timeout v) s = flom_config_set_resource_timeout v s"
| "cfg_step e (Op_resource_quantity v) s = flom_config_set_resource_quantity v s"
| "cfg_step e (Op_lock_mode v) s = flom_config_set_lock_mode v s"
| "cfg_step e (Op_resource_idle_lifespan v) s = flom_config_set_resource_idle_lifespan v s"
| "cfg_step e (Op_unicast_address v) s = flom_config_set_unicast_address v s"
| "cfg_step e (Op_unicast_port v) s = flom_config_set_unicast_port v s"
| "cfg_step e (Op_multicast_address v) s = flom_config_set_multicast_address v s"
| "cfg_step e (Op_multicast_port v) s = flom_config_set_multicast_port v s"
| "cfg_step e (Op_mount_point_vfs v) s = snd (flom_config_set_mount_point_vfs e v s)"
| "cfg_step e (Op_ignored_signals v) s = flom_config_set_ignored_signals v s"
| "cfg_step e (Op_network_interface v) s = snd (flom_config_set_network_interface e v s)"
| "cfg_step e (Op_sin6_scope_id v) s = snd (flom_config_set_sin6_scope_id e v s)"
| "cfg_step e (Op_discovery_attempts v) s = flom_config_set_discovery_attempts v s"
| "cfg_step e (Op_discovery_timeout v) s = flom_config_set_discovery_timeout v s"
| "cfg_step e (Op_discovery_ttl v) s = flom_config_set_discovery_ttl v s"
| "cfg_step e (Op_tcp_keepalive_time v) s = flom_config_set_tcp_keepalive_time v s"
| "cfg_step e (Op_tcp_keepalive_intvl v) s = flom_config_set_tcp_keepalive_intvl v s"
| "cfg_step e (Op_tcp_keepalive_probes v) s = flom_config_set_tcp_keepalive_probes v s"
| "cfg_step e (Op_tls_certificate v) s = snd (flom_config_set_tls_certificate e v s)"
| "cfg_step e (Op_tls_private_key v) s = snd (flom_config_set_tls_private_key e v s)"
| "cfg_step e (Op_tls_ca_certificate v) s = snd (flom_config_set_tls_ca_certificate e v s)"
| "cfg_step e (Op_tls_check_peer_id v) s = flom_config_set_tls_check_peer_id v s"

lemma cfg_step_owns: "owns F s \<Longrightarrow> owns F (cfg_step e a s)"
  by (cases a) (simp_all add: setters_own plain_setters_own init_owns check_owns)

lemma cfg_steps_own: "owns F s \<Longrightarrow> owns F (fold (cfg_step e) ops s)"
  by (induction ops arbitrary: s) (simp_all add: cfg_step_owns)

definition heap_fresh :: "sheap \<Rightarrow> bool" where
  "heap_fresh h \<longleftrightarrow> (\<forall>a. h_next h \<le> a \<longrightarrow> h_map h a = None) \<and> \<not> h_bad h"

text \<open>C32. Memory safety of the life of a configuration: after a reset, whatever
  calls are made on it in whatever order, with whatever files, directories and
  interfaces and whichever of them fail, no string is released twice or read
  after its release, and the final release gives back exactly the strings that
  were allocated since the reset.
\<close>

theorem config_lifecycle_balanced:
  assumes "heap_fresh h" "s = fold (cfg_step e) ops (flom_config_reset h)"
  shows "\<not> h_bad (heap s) \<and> \<not> h_bad (heap (flom_config_free s)) \<and>
    h_map (heap (flom_config_free s)) = h_map h"
proof -
  have "owns (h_map h) s"
    using assms reset_owns cfg_steps_own unfolding heap_fresh_def by blast
  then show ?thesis using free_owned [of "h_map h" s] by (simp add: owns_def owns_list_def)
qed

theorem config_lifecycle_balanced_witness:
  "h_map (heap (flom_config_free (fold (cfg_step sample_env)
     [Op_init (Some ''f''), Op_resource_name ''r'', Op_check, Op_socket_name (Some ''s'')]
     (flom_config_reset sample_heap)))) 1 = None"
proof -
  have "heap_fresh sample_heap" by (simp add: heap_fresh_def sample_heap_def)
  from config_lifecycle_balanced [OF this refl, of sample_env "[Op_init (Some ''f''),
      Op_resource_name ''r'', Op_check, Op_socket_name (Some ''s'')]"]
  show ?thesis by (metis (no_types) sample_heap_def sheap.select_convs(1))
qed

section \<open>Loading refines its specification\<close>

text \<open>C31. Loading the configuration files implements the specification on values:
  the files are taken in the order system, user, custom, the first two may be
  missing; the call succeeds exactly when every file it loads is accepted and
  the custom one can be loaded, and then every setting has the value of the last
  file that gives it, normalised as its setter does.
\<close>

theorem config_init_refines:
  assumes "owns F s" "e_key_file_new e"
  shows "case init_value e (init_files e custom) (value_of s) of
      None \<Rightarrow> fst (flom_config_init e custom s) \<noteq> FLOM_RC_OK
    | Some c \<Rightarrow> fst (flom_config_init e custom s) = FLOM_RC_OK \<and>
        value_of (snd (flom_config_init e custom s)) = c"
  using init_chain_refines [OF assms(2,1), of "init_files e custom"]
  by (auto simp: init_is_chain split: option.split)

theorem config_init_refines_witness:
  "cf_resource_timeout (value_of (snd (flom_config_init sample_env (Some ''f'') sample_state))) = 7"
proof -
  have "e_key_file_new sample_env" by (simp add: sample_env_def)
  moreover have "map_option cf_resource_timeout
      (init_value sample_env (init_files sample_env (Some ''f'')) (value_of sample_state)) = Some 7"
    by code_simp
  ultimately show ?thesis
    using config_init_refines [OF sample_owns, of sample_env "Some ''f''"] by (auto split: option.splits)
qed

section \<open>The check of a configuration\<close>

lemma owned_none:
  "owns F s \<Longrightarrow> p \<in> set (ptrs (cfg s)) \<Longrightarrow> str_of (heap s) p = None \<longleftrightarrow> p = None"
  using owned_str [of F s p] by (auto simp: str_of_def)

lemma value_none:
  assumes "owns F s"
  shows "cf_socket_name (value_of s) = None \<longleftrightarrow> cf_socket_name (cfg s) = None"
    "cf_unicast_address (value_of s) = None \<longleftrightarrow> cf_unicast_address (cfg s) = None"
    "cf_multicast_address (value_of s) = None \<longleftrightarrow> cf_multicast_address (cfg s) = None"
    "cf_tls_certificate (value_of s) = None \<longleftrightarrow> cf_tls_certificate (cfg s) = None"
    "cf_tls_private_key (value_of s) = None \<longleftrightarrow> cf_tls_private_key (cfg s) = None"
    "cf_tls_ca_certificate (value_of s) = None \<longleftrightarrow> cf_tls_ca_certificate (cfg s) = None"
  using owned_none [OF assms] by (simp_all add: value_of_def view_def ptrs_def)

definition is_local :: "config_value \<Rightarrow> bool" where
  "is_local c \<longleftrightarrow> cf_socket_name c \<noteq> None"

definition is_network :: "config_value \<Rightarrow> bool" where
  "is_network c \<longleftrightarrow> cf_unicast_address c \<noteq> None \<or> cf_multicast_address c \<noteq> None"

definition lacks_tls :: "config_value \<Rightarrow> bool" where
  "lacks_tls c \<longleftrightarrow> cf_tls_certificate c = None \<or> cf_tls_private_key c = None \<or> cf_tls_ca_certificate c = None"

definition checked_value :: "cfg_env \<Rightarrow> config_value \<Rightarrow> config_value" where
  "checked_value e c =
     (let frt = flom_rsrc_get_type (the (cf_resource_name c)) in
      c\<lparr>cf_socket_name := if is_local c \<or> is_network c then cf_socket_name c else Some (default_socket_name e),
        cf_lock_mode := if frt \<in> {FLOM_RSRC_TYPE_SIMPLE, FLOM_RSRC_TYPE_HIER}
          then cf_lock_mode c else FLOM_LOCK_MODE_EX,
        cf_resource_quantity := if frt = FLOM_RSRC_TYPE_NUMERIC then cf_resource_quantity c else 1\<rparr>)"

lemma check_socket_value:
  assumes "owns F s"
  shows "value_of (check_socket e s) = (value_of s)\<lparr>cf_socket_name :=
    if is_local (value_of s) \<or> is_network (value_of s) then cf_socket_name (value_of s)
    else Some (default_socket_name e)\<rparr>"
proof (cases "is_local (value_of s) \<or> is_network (value_of s)")
  case False
  then have n: "cf_socket_name (cfg s) = None \<and> cf_unicast_address (cfg s) = None \<and>
      cf_multicast_address (cfg s) = None"
    using value_none [OF assms] by (simp add: is_local_def is_network_def)
  then have "check_socket e s = set_string cf_socket_name cf_socket_name_update (Some (default_socket_name e)) s"
    by (simp add: check_socket_def set_string_def g_free_def)
  then show ?thesis using False by (simp add: string_setters_value [OF assms])
next
  case True
  then have "check_socket e s = s"
    using value_none [OF assms] unfolding check_socket_def is_local_def is_network_def by presburger
  then show ?thesis using True by simp
qed

lemma check_mode_quantity_value:
  "value_of (check_quantity frt (check_lock_mode frt s)) = (value_of s)\<lparr>
     cf_lock_mode := if frt \<in> {FLOM_RSRC_TYPE_SIMPLE, FLOM_RSRC_TYPE_HIER}
       then cf_lock_mode (value_of s) else FLOM_LOCK_MODE_EX,
     cf_resource_quantity := if frt = FLOM_RSRC_TYPE_NUMERIC then cf_resource_quantity (value_of s) else 1\<rparr>"
  by (auto simp: check_quantity_def check_lock_mode_def flom_config_set_lock_mode_def
      flom_config_set_resource_quantity_def set_plain_def value_of_def view_def gint_abs_def)

text \<open>The check of a configuration: it is refused exactly when it names both a
  local socket and a network address, or when the check of the peer is asked for
  without the three TLS files; otherwise the only changes are that a
  configuration with no address gets the default local socket, that the lock mode
  is exclusive unless the resource is simple or hierarchical, and that the
  quantity is one unless the resource is numeric.
\<close>

theorem config_check_consistent:
  assumes "owns F s"
  shows "if is_local (value_of s) \<and> is_network (value_of s) \<or>
       cf_tls_check_peer_id (value_of s) \<and> lacks_tls (value_of s)
    then fst (flom_config_check e s) = FLOM_RC_INVALID_OPTION
    else fst (flom_config_check e s) = FLOM_RC_OK \<and>
       value_of (snd (flom_config_check e s)) = checked_value e (value_of s)"
proof -
  let ?c = "value_of s"
  define s1 where "s1 = check_socket e s"
  have o1: "owns F s1" unfolding s1_def by (rule check_socket_owns [OF assms])
  obtain name where name: "str_of (heap s1) (cf_resource_name (cfg s1)) = Some name"
    using owned_name [OF o1] by blast
  define s2 where "s2 = check_quantity (flom_rsrc_get_type name) (check_lock_mode (flom_rsrc_get_type name) s1)"
  have o2: "owns F s2" unfolding s2_def by (rule check_mode_quantity_owns [OF o1])
  have v1: "cf_resource_name ?c = Some name"
    using name check_socket_value [OF assms, of e] s1_def by (simp add: value_of_def view_def)
  have v2: "value_of s2 = checked_value e ?c"
    unfolding s2_def s1_def check_mode_quantity_value check_socket_value [OF assms]
    by (simp add: checked_value_def v1 Let_def)
  have peer: "cf_tls_check_peer_id (cfg s2) = cf_tls_check_peer_id ?c"
    using v2 by (simp add: value_of_def view_def checked_value_def Let_def)
  have tls: "(cf_tls_certificate (cfg s2) = None \<or> cf_tls_private_key (cfg s2) = None \<or>
      cf_tls_ca_certificate (cfg s2) = None) = lacks_tls ?c"
    using value_none(4-6) [OF o2] v2 by (simp add: lacks_tls_def checked_value_def Let_def)
  have both: "(cf_socket_name (cfg s) \<noteq> None \<and>
      (cf_unicast_address (cfg s) \<noteq> None \<or> cf_multicast_address (cfg s) \<noteq> None)) =
      (is_local ?c \<and> is_network ?c)"
    using value_none [OF assms] by (simp add: is_local_def is_network_def)
  have "flom_config_check e s = (if is_local ?c \<and> is_network ?c then (- 5, s)
      else if cf_tls_check_peer_id ?c \<and> lacks_tls ?c then (- 5, s2) else (0, s2))"
    unfolding flom_config_check_def both Let_def s1_def [symmetric] name option.case
      s2_def [symmetric] peer tls ..
  then show ?thesis using v2 by simp
qed

theorem config_check_consistent_witness:
  "cf_socket_name (value_of (snd (flom_config_check sample_env sample_state))) = Some ''/tmp/flom-nobody''"
proof -
  have "\<not> (is_local (value_of sample_state) \<and> is_network (value_of sample_state) \<or>
      cf_tls_check_peer_id (value_of sample_state) \<and> lacks_tls (value_of sample_state))"
    by code_simp
  moreover have "cf_socket_name (checked_value sample_env (value_of sample_state)) = Some ''/tmp/flom-nobody''"
    by code_simp
  ultimately show ?thesis using config_check_consistent [OF sample_owns, of sample_env] by simp
qed

section \<open>Bounds of the numeric settings\<close>

definition in_bounds :: "config_value \<Rightarrow> bool" where
  "in_bounds c \<longleftrightarrow> 1 \<le> cf_resource_quantity c \<and> 0 \<le> cf_resource_idle_lifespan c \<and>
     0 \<le> cf_unicast_port c \<and> 0 \<le> cf_multicast_port c \<and> 1 \<le> cf_discovery_attempts c \<and>
     0 \<le> cf_discovery_timeout c \<and> 1 \<le> cf_discovery_ttl c \<and> 0 \<le> cf_tcp_keepalive_time c \<and>
     0 \<le> cf_tcp_keepalive_intvl c \<and> 0 \<le> cf_tcp_keepalive_probes c"

definition INT_MIN :: int where "INT_MIN = - 2147483648"

definition no_int_min :: "key_file \<Rightarrow> bool" where
  "no_int_min k \<longleftrightarrow> (\<forall>g n i. gkf_integer k g n = Inr i \<longrightarrow> gint_range i \<and> i \<noteq> INT_MIN)"

lemma int_over_bounds:
  assumes "no_int_min k"
  shows "0 \<le> old \<Longrightarrow> 0 \<le> int_over (gkf_integer k g n) gint_abs old"
    "1 \<le> d \<Longrightarrow> 1 \<le> old \<Longrightarrow> 1 \<le> int_over (gkf_integer k g n) (or_old d) old"
    "0 \<le> old \<Longrightarrow> 0 \<le> int_over (gkf_integer k g n) (or_old old) old"
  using assms by (auto simp: int_over_def or_old_def no_int_min_def INT_MIN_def gint_abs_eq split: sum.split)

lemma file_value_bounds: "no_int_min k \<Longrightarrow> in_bounds c \<Longrightarrow> in_bounds (file_value e k c)"
  by (simp add: in_bounds_def file_value_def trace_resource_value_def daemon_value_def
      network_value_def interface_over_def Let_def int_over_bounds)

lemma init_value_bounds:
  "\<forall>n k. e_load e n = Some k \<longrightarrow> no_int_min k \<Longrightarrow> in_bounds c \<Longrightarrow>
     init_value e fs c = Some c' \<Longrightarrow> in_bounds c'"
  by (induction fs arbitrary: c)
    (auto split: option.splits if_splits, blast intro: file_value_bounds)

text \<open>Numeric settings stay in their ranges: from the defaults, loading files
  none of which holds the smallest 32 bit integer leaves the quantity, the
  discovery attempts and the hop limit at one or more and the ports, the
  lifespan, the timeout and the keepalive settings non negative, whatever signs
  the files give.  The exception is real: the sign change of the smallest integer
  wraps, and a quantity set to it stays negative.
\<close>

theorem config_numbers_bounded:
  assumes "heap_fresh h" "e_key_file_new e" "\<forall>n k. e_load e n = Some k \<longrightarrow> no_int_min k"
    "fst (flom_config_init e custom (flom_config_reset h)) = FLOM_RC_OK"
  shows "in_bounds (value_of (snd (flom_config_init e custom (flom_config_reset h)))) \<and>
    cf_resource_quantity (value_of (flom_config_set_resource_quantity INT_MIN s)) = INT_MIN"
proof
  have o: "owns (h_map h) (flom_config_reset h)"
    using assms(1) by (auto simp: heap_fresh_def intro: reset_owns)
  have "in_bounds (value_of (flom_config_reset h))"
    by (simp add: in_bounds_def value_of_def view_def flom_config_reset_def g_strdup_def)
  moreover have "init_value e (init_files e custom) (value_of (flom_config_reset h)) =
      Some (value_of (snd (flom_config_init e custom (flom_config_reset h))))"
    using init_chain_refines [OF assms(2) o, of "init_files e custom"] assms(4) by (simp add: init_is_chain)
  ultimately show "in_bounds (value_of (snd (flom_config_init e custom (flom_config_reset h))))"
    using init_value_bounds [OF assms(3)] by blast
  show "cf_resource_quantity (value_of (flom_config_set_resource_quantity INT_MIN s)) = INT_MIN"
    by (simp add: plain_setters_value gint_abs_def INT_MIN_def to_gint_def)
qed

theorem config_numbers_bounded_witness:
  "in_bounds (value_of (snd (flom_config_init sample_env (Some ''f'') (flom_config_reset sample_heap))))"
proof -
  have "heap_fresh sample_heap" by (simp add: heap_fresh_def sample_heap_def)
  moreover have "e_key_file_new sample_env" by (simp add: sample_env_def)
  moreover have "\<forall>n k. e_load sample_env n = Some k \<longrightarrow> no_int_min k"
    by (auto simp: sample_env_def no_int_min_def gint_range_def INT_MIN_def split: if_splits)
  moreover have "fst (flom_config_init sample_env (Some ''f'') (flom_config_reset sample_heap)) = 0"
    by code_simp
  ultimately show ?thesis by (rule config_numbers_bounded [THEN conjunct1])
qed

section \<open>Signals\<close>

definition signal_names :: "nat list \<Rightarrow> string list" where
  "signal_names js = map (\<lambda>j. SIGNAL_STRING_ARRAY ! j) js"

lemma signals_str_join:
  "signals_str S first js = (let ns = filter (\<lambda>j. j \<in> S) js in
     (if first \<or> ns = [] then [] else '';'') @ join_on (CHR '';'') (signal_names ns))"
proof (induction js arbitrary: first)
  case (Cons j js)
  then show ?case
    by (cases "filter (\<lambda>j. j \<in> S) js") (auto simp: signal_names_def Let_def)
qed (simp add: signal_names_def)

lemma signal_names_table:
  "list_all (\<lambda>j. signal_number_of (SIGNAL_STRING_ARRAY ! j) = int j \<and>
     CHR '';'' \<notin> set (SIGNAL_STRING_ARRAY ! j)) [1..<32]"
  by code_simp

lemma signal_array_size: "length SIGNAL_STRING_ARRAY = 32"
  by (simp add: SIGNAL_STRING_ARRAY_def)

lemma add_signal_names:
  assumes "\<forall>j \<in> set js. 1 \<le> j \<and> j < 32"
  shows "fold add_signal (signal_names js) S = S \<union> set js"
  using assms
proof (induction js arbitrary: S)
  case (Cons j js)
  have "signal_number_of (SIGNAL_STRING_ARRAY ! j) = int j"
    using signal_names_table Cons.prems by (auto simp: list_all_iff)
  then have "add_signal (SIGNAL_STRING_ARRAY ! j) S = insert j S"
    using Cons.prems by (simp add: add_signal_def signal_array_size)
  then show ?case using Cons by (simp add: signal_names_def)
qed (simp add: signal_names_def)

text \<open>The list of ignored signals survives printing: split at the semicolons,
  the text that the configuration prints is read back by the setter
  as the same set of signals, whatever set the
  receiving configuration had before.
\<close>

theorem ignored_signals_roundtrip:
  assumes "cf_ignored_signals c \<subseteq> {1..<32}"
  shows "cf_ignored_signals (cfg (flom_config_set_ignored_signals
    (Some (split_on (CHR '';'') (flom_config_get_ignored_signals_str c))) s)) = cf_ignored_signals c"
proof -
  let ?ns = "filter (\<lambda>j. j \<in> cf_ignored_signals c) [1..<32]"
  have str: "flom_config_get_ignored_signals_str c = join_on (CHR '';'') (signal_names ?ns)"
    by (simp add: flom_config_get_ignored_signals_str_def signals_str_join signal_array_size)
  have "\<forall>x \<in> set (signal_names ?ns). CHR '';'' \<notin> set x"
    using signal_names_table by (auto simp: signal_names_def list_all_iff)
  then have split: "?ns \<noteq> [] \<Longrightarrow> split_on (CHR '';'') (join_on (CHR '';'') (signal_names ?ns)) = signal_names ?ns"
    by (intro split_on_join_on) (simp_all add: signal_names_def)
  have set: "set ?ns = cf_ignored_signals c" using assms by auto
  have empty_name: "add_signal [] {} = {}" by code_simp
  have "fold add_signal (split_on (CHR '';'') (join_on (CHR '';'') (signal_names ?ns))) {} = set ?ns"
  proof (cases "?ns = []")
    case True
    then show ?thesis using empty_name by (simp only: signal_names_def) simp
  next
    case False
    then show ?thesis unfolding split [OF False] by (subst add_signal_names) auto
  qed
  then show ?thesis
    using set by (simp add: flom_config_set_ignored_signals_def set_plain_def str)
qed

theorem ignored_signals_roundtrip_witness:
  "cf_ignored_signals (cfg (flom_config_set_ignored_signals
     (Some (split_on (CHR '';'') (flom_config_get_ignored_signals_str
        ((cfg sample_state)\<lparr>cf_ignored_signals := {2, 15}\<rparr>)))) sample_state)) = {2, 15}"
  using ignored_signals_roundtrip [of "(cfg sample_state)\<lparr>cf_ignored_signals := {2, 15}\<rparr>" sample_state] by simp

end
