(* ===== verification/Daemon.thy ===== *)
theory Daemon
  imports Locker Vfs Config
begin

text \<open>
  The main thread of the daemon: the accept loop of \<^verbatim>\<open>src/src/flom_daemon.c\<close>, the management
  messages of \<^verbatim>\<open>src/src/flom_daemon_mngmnt.c\<close> and the array of lockers of
  \<^verbatim>\<open>src/src/flom_locker.c\<close>.

  The thread polls the listening socket (the first connection), the socket for the discovery
  (the second one, for a network) and the clients that have not been handed to a locker.  The
  first message of a client decides: it goes to the locker of its resource, through the pipe
  of that locker, to a locker started for it, or it waits in the \<^emph>\<open>incubator\<close>, the connections
  with the flag \<^verbatim>\<open>wait\<close>, until somebody starts that locker.

  The state \<open>daemon_st\<close> has the connections, the lockers, what has been written to the pipe of
  every locker and not been read, and the logs of the calls that leave the thread.  What one
  turn of the loop gets from outside is the record \<open>daemon_input\<close>.
\<close>

section \<open>State and inputs\<close>

abbreviation (input) FLOM_RC_NETWORK_EVENT_ERROR :: int where "FLOM_RC_NETWORK_EVENT_ERROR \<equiv> - 3"
abbreviation (input) FLOM_RC_NO_TLS_CONNECTION :: int where "FLOM_RC_NO_TLS_CONNECTION \<equiv> - 24"
abbreviation (input) FLOM_RC_RESOURCE_INIT_ERROR :: int where "FLOM_RC_RESOURCE_INIT_ERROR \<equiv> - 26"
abbreviation (input) FLOM_RC_ACCEPT_ERROR :: int where "FLOM_RC_ACCEPT_ERROR \<equiv> - 100"
abbreviation (input) FLOM_RC_GETNAMEINFO_ERROR :: int where "FLOM_RC_GETNAMEINFO_ERROR \<equiv> - 112"
abbreviation (input) FLOM_RC_PIPE_ERROR :: int where "FLOM_RC_PIPE_ERROR \<equiv> - 122"
abbreviation (input) FLOM_RC_SENDTO_ERROR :: int where "FLOM_RC_SENDTO_ERROR \<equiv> - 131"
abbreviation (input) FLOM_RC_SETSOCKOPT_ERROR :: int where "FLOM_RC_SETSOCKOPT_ERROR \<equiv> - 133"
abbreviation (input) FLOM_RC_WRITE_ERROR :: int where "FLOM_RC_WRITE_ERROR \<equiv> - 143"
abbreviation (input) FLOM_RC_G_THREAD_NEW_ERROR :: int where "FLOM_RC_G_THREAD_NEW_ERROR \<equiv> - 215"
abbreviation (input) AF_INET :: int where "AF_INET \<equiv> 2"

definition FLOM_SHUTDOWN_QUIESCE_GRACE_TIME :: int where "FLOM_SHUTDOWN_QUIESCE_GRACE_TIME = 100"

text \<open>What is in a pipe: a token announces the pointer of a connection.\<close>

datatype pipe_item = Token flom_locker_token | Client flom_conn

text \<open>
  Type and TLS object of a connection are kept by its identifier; the pipes by the identifier of
  the locker.  \<open>dm_config\<close> is the argument \<^verbatim>\<open>config\<close>, with \<open>None\<close> for \<^verbatim>\<open>NULL\<close>, which selects the global
  configuration.  The calls of the virtual file system have their results ignored.
\<close>

record daemon_st =
  dm_conns :: flom_conns
  dm_types :: "conn \<Rightarrow> socket_type"
  dm_tls :: "conn \<Rightarrow> bool"
  dm_lockers :: "flom_locker list"
  dm_pipes :: "nat \<Rightarrow> pipe_item list"
  dm_world :: world
  dm_shut :: "conn list"
  dm_datagrams :: "flom_msg list"
  dm_vfs :: "vfs_op list"
  dm_config :: "config_value option"
  dm_global :: config_value

text \<open>A call may also end the process: by \<^verbatim>\<open>exit\<close> or by reading through a \<^verbatim>\<open>NULL\<close> pointer.\<close>

datatype 'a call = Ret 'a | Exited | Crashed

record daemon_input =
  di_alloc :: bool
  di_ready :: int
  di_revents :: "nat \<Rightarrow> revents"
  di_accept :: "int option"
  di_nodelay_fails :: bool
  di_keepalive :: rc
  di_conn_new :: bool
  di_conn_init :: rc
  di_tls_context :: rc
  di_tls_set_cert :: rc
  di_tls_accept :: rc
  di_close_fails :: "nat \<Rightarrow> bool"
  di_recv :: "nat \<Rightarrow> recv_calls"
  di_markup :: "nat \<Rightarrow> string \<Rightarrow> markup_event list \<times> bool"
  di_unb64 :: "string \<Rightarrow> string option"
  di_env :: "nat \<Rightarrow> env"
  di_peer_name :: "nat \<Rightarrow> string option"
  di_cert_check :: "nat \<Rightarrow> rc"
  di_getnameinfo :: int
  di_sendto :: "nat \<Rightarrow> int"
  di_pipe :: "(int \<times> int) option"
  di_thread :: "nat option"
  di_node_fail :: "nat \<Rightarrow> bool"
  di_write_fails :: "conn \<Rightarrow> bool \<times> bool"
  di_pipe_close_fails :: "nat \<Rightarrow> bool"

definition the_config :: "daemon_st \<Rightarrow> config_value" where
  "the_config s = (case dm_config s of None \<Rightarrow> dm_global s | Some c \<Rightarrow> c)"

definition dm_array :: "daemon_st \<Rightarrow> flom_conn list" where
  "dm_array s = cs_array (dm_conns s)"

definition upd_conn :: "nat \<Rightarrow> (flom_conn \<Rightarrow> flom_conn) \<Rightarrow> daemon_st \<Rightarrow> daemon_st" where
  "upd_conn i f s = s\<lparr>dm_conns := (dm_conns s)\<lparr>cs_array := (dm_array s)[i := f (dm_array s ! i)]\<rparr>\<rparr>"

definition dm_set_last_step :: "conn \<Rightarrow> int \<Rightarrow> daemon_st \<Rightarrow> daemon_st" where
  "dm_set_last_step c step s = s\<lparr>dm_world := (dm_world s)\<lparr>w_last_step := (w_last_step (dm_world s))(c := step)\<rparr>\<rparr>"

definition dm_close :: "daemon_input \<Rightarrow> nat \<Rightarrow> daemon_st \<Rightarrow> rc \<times> daemon_st" where
  "dm_close inp i s =
     (case flom_conns_close_fd (di_close_fails inp i) (dm_conns s) i of (rc, cs) \<Rightarrow> (rc, s\<lparr>dm_conns := cs\<rparr>))"

text \<open>One counter gives the identifiers of connections and of lockers.\<close>

definition flom_conns_get_new_uid :: "flom_conns \<Rightarrow> nat \<times> flom_conns" where
  "flom_conns_get_new_uid cs = (Suc (cs_last_uid cs), cs\<lparr>cs_last_uid := Suc (cs_last_uid cs)\<rparr>)"

section \<open>The array of lockers\<close>

definition flom_locker_array_add :: "flom_locker \<Rightarrow> daemon_st \<Rightarrow> daemon_st" where
  "flom_locker_array_add lk s =
     (let r = the (lk_resource lk) in
      s\<lparr>dm_lockers := dm_lockers s @ [lk],
        dm_vfs := dm_vfs s @ [Add_locker (lk_uid lk) (str_or_empty (flom_resource_get_name r))
                                (flom_rsrc_get_type_human_readable (flom_resource_get_type r))]\<rparr>)"

text \<open>The locker with the index \<open>k\<close> leaves the array, which calls \<^verbatim>\<open>flom_locker_destroy\<close>; the others keep
  their order.\<close>

definition flom_locker_array_del :: "nat \<Rightarrow> daemon_st \<Rightarrow> daemon_st" where
  "flom_locker_array_del k s =
     s\<lparr>dm_lockers := take k (dm_lockers s) @ drop (Suc k) (dm_lockers s),
       dm_vfs := dm_vfs s @ [Del_locker (lk_uid (dm_lockers s ! k))]\<rparr>"

section \<open>Answers\<close>

definition flom_accept_loop_reply :: "env \<Rightarrow> conn \<Rightarrow> rc \<Rightarrow> world \<Rightarrow> rc \<times> world" where
  "flom_accept_loop_reply e c rc w =
     (case flom_msg_build_answer (e_uid e) flom_msg_init FLOM_MSG_VERB_LOCK (2 * FLOM_MSG_STEP_INCR) rc None of
        (rc1, m) \<Rightarrow>
          if rc1 \<noteq> FLOM_RC_OK then (rc1, w)
          else case flom_msg_serialize (e_b64 e) (e_old e) m network_buffer_size of
            Inl rc2 \<Rightarrow> (rc2, w)
          | Inr text \<Rightarrow>
              (case flom_conn_send e c m w of
                 (rc3, w1) \<Rightarrow>
                   if rc3 \<noteq> FLOM_RC_OK then (rc3, w1)
                   else (fst (flom_msg_free m), w1\<lparr>w_last_step := (w_last_step w1)(c := msg_step m)\<rparr>)))"

text \<open>The address is left out when the daemon listens on all of them.\<close>

definition discover_msg :: "config_value \<Rightarrow> flom_msg" where
  "discover_msg c =
     flom_msg_init\<lparr>msg_level := FLOM_MSG_LEVEL, msg_verb := FLOM_MSG_VERB_DISCOVER, msg_step := 2 * FLOM_MSG_STEP_INCR,
       discover_16 := \<lparr> d16_address = (if cf_unicast_address c \<noteq> None \<and> cf_unicast_address c \<noteq> Some ''0.0.0.0'' \<and>
                                         cf_unicast_address c \<noteq> Some ''::'' then cf_unicast_address c else None),
                        d16_port = cf_unicast_port c mod 65536 \<rparr>\<rparr>"

definition flom_accept_discover_reply :: "daemon_input \<Rightarrow> nat \<Rightarrow> daemon_st \<Rightarrow> rc \<times> daemon_st" where
  "flom_accept_discover_reply inp i s =
     (let m = discover_msg (the_config s) in
      case flom_msg_serialize (e_b64 (di_env inp i)) (e_old (di_env inp i)) m network_buffer_size of
        Inl rc \<Rightarrow> (rc, s)
      | Inr text \<Rightarrow>
          if int (length text) \<noteq> di_sendto inp (length text) then (FLOM_RC_SENDTO_ERROR, s)
          else (FLOM_RC_OK, s\<lparr>dm_datagrams := dm_datagrams s @ [m]\<rparr>))"

section \<open>Management\<close>

text \<open>An orderly shutdown shortens the life span in the global configuration.\<close>

definition flom_daemon_mngmnt_shutdown :: "nat \<Rightarrow> daemon_st \<Rightarrow> (rc \<times> daemon_st) call" where
  "flom_daemon_mngmnt_shutdown i s =
     (if m8_immediate (mngmnt_8 (cn_msg (dm_array s ! i))) \<noteq> 0 then Exited
      else Ret (FLOM_RC_OK, s\<lparr>dm_global := (dm_global s)\<lparr>cf_daemon_lifespan := FLOM_SHUTDOWN_QUIESCE_GRACE_TIME\<rparr>\<rparr>))"

definition flom_daemon_mngmnt :: "nat \<Rightarrow> daemon_st \<Rightarrow> (rc \<times> daemon_st) call" where
  "flom_daemon_mngmnt i s =
     (let m = cn_msg (dm_array s ! i) in
      if msg_verb m \<noteq> FLOM_MSG_VERB_MNGMNT then Ret (FLOM_RC_INTERNAL_ERROR, s)
      else if m8_action (mngmnt_8 m) = FLOM_MSG_MNGMNT_ACTION_SHUTDOWN then flom_daemon_mngmnt_shutdown i s
      else Ret (FLOM_RC_INVALID_OPTION, s))"

section \<open>Handing a connection to a locker\<close>

text \<open>
  The locker with the index \<open>k\<close> gets the connection with the index \<open>i\<close>.  The sequence numbers are
  \<^verbatim>\<open>int\<close>.  A failing write of the pointer leaves the connection with nobody.
\<close>

definition pipe_write :: "nat \<Rightarrow> pipe_item \<Rightarrow> daemon_st \<Rightarrow> daemon_st" where
  "pipe_write u x s = s\<lparr>dm_pipes := (dm_pipes s)(u := dm_pipes s u @ [x])\<rparr>"

definition flom_accept_loop_transfer_conn :: "daemon_input \<Rightarrow> nat \<Rightarrow> nat \<Rightarrow> daemon_st \<Rightarrow> rc \<times> daemon_st" where
  "flom_accept_loop_transfer_conn inp i k s =
     (let c = dm_array s ! i;
          lk = (dm_lockers s ! k)\<lparr>lk_write_sequence := to_gint (lk_write_sequence (dm_lockers s ! k) + 1)\<rparr>;
          s1 = s\<lparr>dm_lockers := (dm_lockers s)[k := lk]\<rparr>;
          flt = \<lparr> tk_domain = cs_domain (dm_conns s), tk_client_fd = cn_sockfd c, tk_sequence = lk_write_sequence lk \<rparr> in
      if fst (di_write_fails inp (cn_uid c)) then (FLOM_RC_WRITE_ERROR, s1)
      else
        (let s2 = pipe_write (lk_uid lk) (Token flt) s1 in
         case flom_conns_trns_fd (dm_conns s2) i of
           (rc, None, cs) \<Rightarrow> (rc, s2)
         | (rc, Some c1, cs) \<Rightarrow>
             (let s3 = s2\<lparr>dm_conns := cs\<rparr> in
              if snd (di_write_fails inp (cn_uid c)) then (FLOM_RC_WRITE_ERROR, s3)
              else (FLOM_RC_OK, pipe_write (lk_uid lk) (Client c1) s3))))"

text \<open>
  The new locker is the last one of the array.  The field \<^verbatim>\<open>idle_lifespan\<close> of the allocated memory
  is zero until the request gives its value.
\<close>

definition flom_accept_loop_start_locker ::
  "daemon_input \<Rightarrow> flom_msg \<Rightarrow> flom_rsrc_type \<Rightarrow> nat \<Rightarrow> daemon_st \<Rightarrow> rc \<times> daemon_st" where
  "flom_accept_loop_start_locker inp m flrt uid s =
     (case flom_resource_init (di_node_fail inp) flrt (l8_name (lock_8 m)) of
        (rc, r) \<Rightarrow>
          if rc \<noteq> FLOM_RC_OK then (FLOM_RC_RESOURCE_INIT_ERROR, s)
          else
            (case di_pipe inp of
               None \<Rightarrow> (FLOM_RC_PIPE_ERROR, s)
             | Some (fd0, fd1) \<Rightarrow>
                 (let lk = (flom_locker_init 0)\<lparr>lk_resource := r, lk_uid := uid, lk_read_pipe := fd0,
                             lk_write_pipe := fd1, lk_idle_lifespan := l8_lifespan (lock_8 m)\<rparr> in
                  case di_thread inp of
                    None \<Rightarrow> (FLOM_RC_G_THREAD_NEW_ERROR, s)
                  | Some t \<Rightarrow> (FLOM_RC_OK, flom_locker_array_add (lk\<lparr>lk_thread := Some t\<rparr>) s))))"

text \<open>A locker that is not terminating and has the name.\<close>

definition locker_open :: "flom_locker \<Rightarrow> bool" where
  "locker_open lk \<longleftrightarrow> lk_write_pipe lk \<noteq> FLOM_NULL_FD \<and> lk_read_pipe lk \<noteq> FLOM_NULL_FD"

definition locker_manages :: "string option \<Rightarrow> flom_locker \<Rightarrow> bool" where
  "locker_manages name lk \<longleftrightarrow> flom_resource_compare_name (the (lk_resource lk)) name"

fun find_locker :: "string option \<Rightarrow> nat \<Rightarrow> flom_locker list \<Rightarrow> nat option" where
  "find_locker name i [] = None"
| "find_locker name i (lk # lks) =
     (if \<not> locker_open lk then find_locker name (Suc i) lks
      else if locker_manages name lk then Some i
      else find_locker name (Suc i) lks)"

lemma transfer_conn_length:
  assumes "flom_accept_loop_transfer_conn inp i k s = (rc, s')" "rc = FLOM_RC_OK" "i < length (dm_array s)"
  shows "length (dm_array s') = length (dm_array s) - 1"
  using assms
  by (auto simp: flom_accept_loop_transfer_conn_def flom_conns_trns_fd_def pipe_write_def dm_array_def Let_def
      split: if_splits prod.splits)

text \<open>
  The scan of the incubator for the locker with the index \<open>k\<close>: a connection that is handed over leaves
  the array and another one takes its index.
\<close>

function incubator_scan :: "daemon_input \<Rightarrow> nat \<Rightarrow> nat \<Rightarrow> daemon_st \<Rightarrow> rc \<times> daemon_st" where
  "incubator_scan inp k i s =
     (if i < length (dm_array s) then
        (if \<not> cn_wait (dm_array s ! i) then incubator_scan inp k (Suc i) s
         else if locker_manages (l8_name (lock_8 (cn_msg (dm_array s ! i)))) (dm_lockers s ! k) then
           (case flom_accept_loop_transfer_conn inp i k s of
              (rc, s1) \<Rightarrow>
                if rc \<noteq> FLOM_RC_OK then (rc, s1)
                else incubator_scan inp k i
                       (s1\<lparr>dm_vfs := dm_vfs s1 @ [Del_conn (cn_uid (dm_array s ! i)) True]\<rparr>))
         else incubator_scan inp k (Suc i) s)
      else (FLOM_RC_OK, s))"
  by pat_completeness auto

termination
  by (relation "measure (\<lambda>(inp, k, i, s). length (dm_array s) - i)")
    (auto dest!: transfer_conn_length [OF sym] simp: dm_array_def)

declare incubator_scan.simps [simp del]

definition dm_shutdown :: "conn \<Rightarrow> daemon_st \<Rightarrow> daemon_st" where
  "dm_shutdown c s = s\<lparr>dm_shut := dm_shut s @ [c]\<rparr>"

definition dm_reply :: "daemon_input \<Rightarrow> nat \<Rightarrow> rc \<Rightarrow> daemon_st \<Rightarrow> rc \<times> daemon_st" where
  "dm_reply inp i rc s =
     (case flom_accept_loop_reply (di_env inp i) (cn_uid (dm_array s ! i)) rc (dm_world s) of
        (rc1, w) \<Rightarrow> (rc1, s\<lparr>dm_world := w\<rparr>))"

text \<open>The request cannot start a locker: it is refused or put in the incubator.\<close>

definition transfer_no_create :: "daemon_input \<Rightarrow> nat \<Rightarrow> flom_msg \<Rightarrow> flom_rsrc_type \<Rightarrow> daemon_st \<Rightarrow> rc \<times> daemon_st" where
  "transfer_no_create inp i m flrt s =
     (let c = cn_uid (dm_array s ! i) in
      if l8_wait (lock_8 m) = 0 then
        (case dm_reply inp i FLOM_RC_LOCK_CANT_WAIT s of
           (rc, s1) \<Rightarrow> if rc \<noteq> FLOM_RC_OK then (rc, s1) else (FLOM_RC_OK, dm_shutdown c s1))
      else
        (case dm_reply inp i FLOM_RC_LOCK_WAIT_RESOURCE s of
           (rc, s1) \<Rightarrow>
             if rc \<noteq> FLOM_RC_OK then (rc, s1)
             else
               (let s2 = upd_conn i (\<lambda>x. x\<lparr>cn_wait := True\<rparr>) s1 in
                (FLOM_RC_OK, s2\<lparr>dm_vfs := dm_vfs s2 @
                   [Add_incubator_conn c (str_or_empty (di_peer_name inp i)) (str_or_empty (l8_name (lock_8 m)))
                      (flom_rsrc_get_type_human_readable flrt)]\<rparr>))))"

definition transfer_create :: "daemon_input \<Rightarrow> nat \<Rightarrow> flom_msg \<Rightarrow> flom_rsrc_type \<Rightarrow> daemon_st \<Rightarrow> rc \<times> daemon_st" where
  "transfer_create inp i m flrt s =
     (case flom_conns_get_new_uid (dm_conns s) of
        (uid, cs) \<Rightarrow>
          (case flom_accept_loop_start_locker inp m flrt uid (s\<lparr>dm_conns := cs\<rparr>) of
             (rc, s1) \<Rightarrow>
               if rc = FLOM_RC_RESOURCE_INIT_ERROR then (FLOM_RC_OK, dm_shutdown (cn_uid (dm_array s ! i)) s1)
               else if rc \<noteq> FLOM_RC_OK then (rc, s1)
               else
                 (let k = length (dm_lockers s1) - 1 in
                  case flom_accept_loop_transfer_conn inp i k s1 of
                    (rc, s2) \<Rightarrow> if rc \<noteq> FLOM_RC_OK then (rc, s2) else incubator_scan inp k 1 s2)))"

text \<open>
  \<^verbatim>\<open>flom_accept_loop_transfer\<close>.  A request without a name hands a \<^verbatim>\<open>NULL\<close> pointer to \<^verbatim>\<open>regexec\<close>.
\<close>

definition flom_accept_loop_transfer :: "daemon_input \<Rightarrow> nat \<Rightarrow> daemon_st \<Rightarrow> (rc \<times> daemon_st) call" where
  "flom_accept_loop_transfer inp i s =
     (if i \<ge> length (dm_array s) then Ret (FLOM_RC_OBJ_CORRUPTED, s)
      else
        (let c = dm_array s ! i; m = cn_msg c in
         if msg_verb m \<noteq> FLOM_MSG_VERB_LOCK \<or> msg_step m \<noteq> FLOM_MSG_STEP_INCR then Ret (FLOM_RC_PROTOCOL_ERROR, s)
         else
           (case l8_name (lock_8 m) of
              None \<Rightarrow> Crashed
            | Some name \<Rightarrow>
                (let flrt = flom_rsrc_get_type name in
                 if flrt = FLOM_RSRC_TYPE_NULL then
                   (case dm_reply inp i FLOM_RC_INVALID_RESOURCE_NAME s of
                      (rc, s1) \<Rightarrow> Ret (if rc \<noteq> FLOM_RC_OK then (rc, s1) else (FLOM_RC_OK, dm_shutdown (cn_uid c) s1)))
                 else
                   (case find_locker (Some name) 0 (dm_lockers s) of
                      Some k \<Rightarrow> Ret (flom_accept_loop_transfer_conn inp i k s)
                    | None \<Rightarrow>
                        Ret (if l8_create (lock_8 m) = 0 then transfer_no_create inp i m flrt s
                             else transfer_create inp i m flrt s))))))"

section \<open>A descriptor is ready\<close>

definition tls_configured :: "config_value \<Rightarrow> bool" where
  "tls_configured c \<longleftrightarrow> cf_tls_certificate c \<noteq> None \<and> cf_tls_private_key c \<noteq> None \<and> cf_tls_ca_certificate c \<noteq> None"

definition flom_accept_loop_pollin_tls :: "daemon_input \<Rightarrow> conn \<Rightarrow> daemon_st \<Rightarrow> rc \<times> daemon_st" where
  "flom_accept_loop_pollin_tls inp c s =
     (if \<not> tls_configured (the_config s) then (FLOM_RC_OK, s)
      else
        (let s1 = s\<lparr>dm_tls := (dm_tls s)(c := True)\<rparr> in
         if di_tls_context inp \<noteq> FLOM_RC_OK then (di_tls_context inp, s1)
         else if di_tls_set_cert inp \<noteq> FLOM_RC_OK then (di_tls_set_cert inp, s1)
         else (di_tls_accept inp, s1)))"

text \<open>A new connection.  A connection whose negotiation fails is added closed, to be cleaned later.\<close>

definition pollin_accept :: "daemon_input \<Rightarrow> daemon_st \<Rightarrow> rc \<times> daemon_st" where
  "pollin_accept inp s =
     (case di_accept inp of
        None \<Rightarrow> (FLOM_RC_ACCEPT_ERROR, s)
      | Some fd \<Rightarrow>
          if cs_domain (dm_conns s) = AF_INET \<and> di_nodelay_fails inp then (FLOM_RC_SETSOCKOPT_ERROR, s)
          else if cs_domain (dm_conns s) = AF_INET \<and> di_keepalive inp \<noteq> FLOM_RC_OK then (di_keepalive inp, s)
          else if \<not> di_conn_new inp then (FLOM_RC_NEW_OBJ, s)
          else
            (case flom_conns_get_new_uid (dm_conns s) of
               (uid, cs) \<Rightarrow>
                 (let c = flom_conn_init uid fd True;
                      s1 = s\<lparr>dm_conns := cs, dm_types := (dm_types s)(uid := SOCK_STREAM), dm_tls := (dm_tls s)(uid := False)\<rparr> in
                  if di_conn_init inp \<noteq> FLOM_RC_OK then (di_conn_init inp, s1)
                  else
                    (case flom_accept_loop_pollin_tls inp uid s1 of
                       (rc, s2) \<Rightarrow>
                         (case (if rc \<noteq> FLOM_RC_OK then flom_conn_terminate (di_close_fails inp 0) c
                                else (FLOM_RC_OK, c)) of
                            (rc1, c1) \<Rightarrow>
                              if rc1 \<noteq> FLOM_RC_OK then (rc1, s2)
                              else (FLOM_RC_OK, s2\<lparr>dm_conns := flom_conns_add_conn (dm_conns s2) c1\<rparr>))))))"

text \<open>The identity of the peer: \<open>Some rc\<close> when the message is not processed.\<close>

definition pollin_check_peer :: "daemon_input \<Rightarrow> nat \<Rightarrow> daemon_st \<Rightarrow> rc option \<times> daemon_st" where
  "pollin_check_peer inp i s =
     (let c = dm_array s ! i in
      if msg_verb (cn_msg c) = FLOM_MSG_VERB_DISCOVER \<or> \<not> cf_tls_check_peer_id (the_config s) then (None, s)
      else if \<not> dm_tls s (cn_uid c) then (Some FLOM_RC_NO_TLS_CONNECTION, s)
      else if di_peer_name inp i = None then (Some FLOM_RC_NULL_OBJECT, s)
      else if di_cert_check inp i \<noteq> FLOM_RC_OK then
        (case dm_close inp i s of
           (rc, s1) \<Rightarrow> (Some (if rc \<noteq> FLOM_RC_OK then rc else FLOM_RC_CONNECTION_CLOSED), s1))
      else (None, s))"

text \<open>A complete message: the reason code, whether the connection has been transferred, the state.\<close>

definition pollin_message :: "daemon_input \<Rightarrow> nat \<Rightarrow> daemon_st \<Rightarrow> (rc \<times> bool \<times> daemon_st) call" where
  "pollin_message inp i s =
     (let m = cn_msg (dm_array s ! i) in
      if \<not> flom_msg_check_protocol m True then Ret (FLOM_RC_PROTOCOL_ERROR, False, s)
      else
        (case pollin_check_peer inp i s of
           (Some rc, s1) \<Rightarrow> Ret (rc, False, s1)
         | (None, s1) \<Rightarrow>
             if msg_verb m = FLOM_MSG_VERB_DISCOVER then
               Ret (if di_getnameinfo inp = - 1 then (FLOM_RC_GETNAMEINFO_ERROR, False, s1)
                    else (case flom_accept_discover_reply inp i s1 of (rc, s2) \<Rightarrow> (rc, False, s2)))
             else if msg_verb m = FLOM_MSG_VERB_MNGMNT then
               (case flom_daemon_mngmnt i s1 of
                  Ret (rc, s2) \<Rightarrow> Ret (rc, False, s2) | Exited \<Rightarrow> Exited | Crashed \<Rightarrow> Crashed)
             else
               (case flom_accept_loop_transfer inp i s1 of
                  Ret (rc, s2) \<Rightarrow> Ret (rc, rc = FLOM_RC_OK, s2) | Exited \<Rightarrow> Exited | Crashed \<Rightarrow> Crashed)))"

definition pollin_data :: "daemon_input \<Rightarrow> nat \<Rightarrow> daemon_st \<Rightarrow> (rc \<times> bool \<times> daemon_st) call" where
  "pollin_data inp i s =
     (let c = dm_array s ! i in
      case flom_conn_recv FLOM_NETWORK_WAIT_TIMEOUT
             ((di_recv inp i)\<lparr>rv_type := dm_types s (cn_uid c), rv_tls := dm_tls s (cn_uid c)\<rparr>) FLOM_MSG_BUFFER_SIZE of
        (rc, read_bytes, buffer, rest) \<Rightarrow>
          if rc \<noteq> FLOM_RC_OK \<or> read_bytes = 0 then Ret (FLOM_RC_CONNECTION_CLOSED, False, s)
          else
            (case di_markup inp i buffer of
               (events, parsed) \<Rightarrow>
                 (let msg = flom_msg_deserialize (di_unb64 inp) events (cn_msg c);
                      s1 = upd_conn i (\<lambda>x. x\<lparr>cn_msg := msg\<rparr>) s in
                  if \<not> parsed then Ret (FLOM_RC_G_MARKUP_PARSE_CONTEXT_PARSE_ERROR, False, s1)
                  else
                    (let s2 = dm_set_last_step (cn_uid c) (msg_step msg) s1 in
                     case msg_state msg of
                       FLOM_MSG_STATE_INVALID \<Rightarrow>
                         (case dm_close inp i s2 of (rc, s3) \<Rightarrow> Ret (rc, False, s3))
                     | FLOM_MSG_STATE_READY \<Rightarrow> pollin_message inp i s2
                     | _ \<Rightarrow> Ret (FLOM_RC_OK, False, s2)))))"

definition flom_accept_loop_pollin :: "daemon_input \<Rightarrow> nat \<Rightarrow> daemon_st \<Rightarrow> (rc \<times> bool \<times> daemon_st) call" where
  "flom_accept_loop_pollin inp i s =
     (if i \<ge> length (dm_array s) then Ret (FLOM_RC_NULL_OBJECT, False, s)
      else if i = 0 then (case pollin_accept inp s of (rc, s1) \<Rightarrow> Ret (rc, False, s1))
      else pollin_data inp i s)"

section \<open>Lockers to be terminated\<close>

fun chklockers_loop :: "daemon_input \<Rightarrow> nat list \<Rightarrow> daemon_st \<Rightarrow> rc \<times> bool \<times> daemon_st" where
  "chklockers_loop inp [] s = (FLOM_RC_OK, False, s)"
| "chklockers_loop inp (i # is) s =
     (let fl = dm_lockers s ! i in
      if lk_write_sequence fl = lk_read_sequence fl \<and> lk_idle_periods fl > FLOM_LOCKER_MAX_IDLE_PERIODS then
        (if lk_write_pipe fl \<noteq> FLOM_NULL_FD then
           (if di_pipe_close_fails inp (lk_uid fl) then (FLOM_RC_CLOSE_ERROR, False, s)
            else chklockers_loop inp is (s\<lparr>dm_lockers := (dm_lockers s)[i := fl\<lparr>lk_write_pipe := FLOM_NULL_FD\<rparr>]\<rparr>))
         else if lk_read_pipe fl = FLOM_NULL_FD then (FLOM_RC_OK, True, flom_locker_array_del i s)
         else chklockers_loop inp is s)
      else chklockers_loop inp is s)"

definition flom_accept_loop_chklockers :: "daemon_input \<Rightarrow> daemon_st \<Rightarrow> rc \<times> bool \<times> daemon_st" where
  "flom_accept_loop_chklockers inp s = chklockers_loop inp [0..<length (dm_lockers s)] s"

section \<open>The loop\<close>

text \<open>How a piece of the loop ends: it goes on, leaves the loop with a reason code, or the process ends.\<close>

datatype 'a loop = Next 'a | Leave rc daemon_st | Exit | Crash

text \<open>One descriptor; \<open>True\<close> stops the scan because a connection has been transferred.\<close>

definition accept_scan_fd :: "daemon_input \<Rightarrow> nat \<Rightarrow> daemon_st \<Rightarrow> (bool \<times> daemon_st) loop" where
  "accept_scan_fd inp i s =
     (let re = di_revents inp i;
          close = (\<lambda>s. case dm_close inp i s of (rc, s1) \<Rightarrow> if rc \<noteq> FLOM_RC_OK then Leave rc s1 else Next (False, s1)) in
      if re_hup re \<and> i \<noteq> 0 then close s
      else
        (case (if re_in re then flom_accept_loop_pollin inp i s else Ret (FLOM_RC_OK, False, s)) of
           Exited \<Rightarrow> Exit
         | Crashed \<Rightarrow> Crash
         | Ret (rc, moved, s1) \<Rightarrow>
             if rc = FLOM_RC_CONNECTION_CLOSED then close s1
             else if rc \<noteq> FLOM_RC_OK then Leave rc s1
             else if moved then Next (True, s1)
             else if re_err re \<or> re_hup re then Leave FLOM_RC_NETWORK_EVENT_ERROR s1
             else Next (False, s1)))"

fun accept_scan :: "daemon_input \<Rightarrow> nat list \<Rightarrow> daemon_st \<Rightarrow> daemon_st loop" where
  "accept_scan inp [] s = Next s"
| "accept_scan inp (i # is) s =
     (case accept_scan_fd inp i s of
        Next (stop, s1) \<Rightarrow> if stop then Next s1 else accept_scan inp is s1
      | Leave rc s1 \<Rightarrow> Leave rc s1
      | Exit \<Rightarrow> Exit
      | Crash \<Rightarrow> Crash)"

definition accept_poll_timeout :: "bool \<Rightarrow> daemon_st \<Rightarrow> int" where
  "accept_poll_timeout again s =
     (let t = cf_daemon_lifespan (the_config s) in if again then 0 else if 3 < t then t div 3 else t)"

definition accept_setup :: "daemon_input \<Rightarrow> daemon_st \<Rightarrow> daemon_st loop" where
  "accept_setup inp s =
     (case flom_conns_clean (dm_conns s) of
        (rc, del, cs1) \<Rightarrow>
          if rc \<noteq> FLOM_RC_OK then Leave rc (s\<lparr>dm_conns := cs1\<rparr>)
          else
            (case flom_conns_get_fds (di_alloc inp) cs1 of
               (None, cs2) \<Rightarrow> Leave FLOM_RC_NULL_OBJECT (s\<lparr>dm_conns := cs2\<rparr>)
             | (Some fds, cs2) \<Rightarrow>
                 (case flom_conns_set_events POLLIN cs2 of
                    (rc, cs3) \<Rightarrow>
                      if rc \<noteq> FLOM_RC_OK then Leave rc (s\<lparr>dm_conns := cs3\<rparr>) else Next (s\<lparr>dm_conns := cs3\<rparr>))))"

definition accept_chklockers :: "daemon_input \<Rightarrow> bool \<Rightarrow> daemon_st \<Rightarrow> (bool \<times> daemon_st) loop" where
  "accept_chklockers inp again s =
     (if dm_lockers s = [] then Next (again, s)
      else (case flom_accept_loop_chklockers inp s of
              (rc, again', s1) \<Rightarrow> if rc \<noteq> FLOM_RC_OK then Leave rc s1 else Next (again', s1)))"

text \<open>The time is over: the daemon ends when nothing but its own sockets is left.\<close>

definition only_listeners :: "daemon_st \<Rightarrow> bool" where
  "only_listeners s \<longleftrightarrow> length (dm_array s) = 1 \<or>
     (length (dm_array s) = 2 \<and> dm_types s (cn_uid (dm_array s ! 1)) = SOCK_DGRAM)"

definition accept_idle :: "daemon_input \<Rightarrow> bool \<Rightarrow> daemon_st \<Rightarrow> (bool \<times> daemon_st) loop" where
  "accept_idle inp again s =
     (if dm_lockers s = [] \<and> 0 < accept_poll_timeout again s then
        (if only_listeners s then Leave FLOM_RC_OK s else Next (False, s))
      else accept_chklockers inp False s)"

definition accept_turn :: "daemon_input \<Rightarrow> bool \<Rightarrow> daemon_st \<Rightarrow> (bool \<times> daemon_st) loop" where
  "accept_turn inp again s =
     (case accept_setup inp s of
        Leave rc s1 \<Rightarrow> Leave rc s1 | Exit \<Rightarrow> Exit | Crash \<Rightarrow> Crash
      | Next s1 \<Rightarrow>
          if di_ready inp < 0 then Leave FLOM_RC_POLL_ERROR s1
          else if di_ready inp = 0 then accept_idle inp again s1
          else
            (case accept_scan inp [0..<length (dm_array s1)] s1 of
               Leave rc s2 \<Rightarrow> Leave rc s2 | Exit \<Rightarrow> Exit | Crash \<Rightarrow> Crash
             | Next s2 \<Rightarrow> accept_chklockers inp again s2))"

fun accept_run :: "daemon_input list \<Rightarrow> bool \<Rightarrow> daemon_st \<Rightarrow> (bool \<times> daemon_st) loop" where
  "accept_run [] again s = Next (again, s)"
| "accept_run (inp # inps) again s =
     (case accept_turn inp again s of Next (again', s1) \<Rightarrow> accept_run inps again' s1 | x \<Rightarrow> x)"

section \<open>What the main thread may do\<close>

text \<open>
  The specification of the main thread for the lockers: five kinds of steps.  It may work on its
  own connections, with new identifiers for new ones; hand a connection to a locker that is not
  terminating and manages the name that the client asks for or has just been started for it; start a locker for a name that no
  locker manages; close the pipe of a locker that has been idle and has read everything; and drop
  a locker whose pipe is closed at both ends.
\<close>

definition dm_uids :: "daemon_st \<Rightarrow> conn list" where
  "dm_uids s = map cn_uid (dm_array s)"

abbreviation dm_last_uid :: "daemon_st \<Rightarrow> nat" where
  "dm_last_uid s \<equiv> cs_last_uid (dm_conns s)"

definition idle_locker :: "flom_locker \<Rightarrow> bool" where
  "idle_locker lk \<longleftrightarrow> lk_write_sequence lk = lk_read_sequence lk \<and> lk_idle_periods lk > FLOM_LOCKER_MAX_IDLE_PERIODS"

text \<open>A locker as it is started for a name.\<close>

definition new_locker :: "string \<Rightarrow> nat \<Rightarrow> flom_locker \<Rightarrow> bool" where
  "new_locker name uid lk \<longleftrightarrow> lk_uid lk = uid \<and> locker_open lk \<and> lk_write_sequence lk = 0 \<and> lk_read_sequence lk = 0 \<and>
     lk_idle_periods lk = 0 \<and> flom_rsrc_get_type name \<noteq> FLOM_RSRC_TYPE_NULL \<and>
     (\<exists>fails. flom_resource_init fails (flom_rsrc_get_type name) (Some name) = (FLOM_RC_OK, lk_resource lk))"

definition serves_name :: "string option \<Rightarrow> flom_locker \<Rightarrow> bool" where
  "serves_name name lk \<longleftrightarrow> locker_manages name lk \<or> (\<exists>n. name = Some n \<and> new_locker n (lk_uid lk) lk)"

inductive main_step :: "daemon_st \<Rightarrow> daemon_st \<Rightarrow> bool" where
  Own:
    "dm_lockers s' = dm_lockers s \<Longrightarrow> dm_pipes s' = dm_pipes s \<Longrightarrow> dm_last_uid s \<le> dm_last_uid s' \<Longrightarrow>
     mset (dm_uids s') \<subseteq># mset (dm_uids s @ new) \<Longrightarrow> distinct new \<Longrightarrow>
     (\<forall>u \<in> set new. dm_last_uid s < u \<and> u \<le> dm_last_uid s') \<Longrightarrow> main_step s s'"
| Hand_over:
    "k < length (dm_lockers s) \<Longrightarrow> lk = dm_lockers s ! k \<Longrightarrow> locker_open lk \<Longrightarrow>
     serves_name (l8_name (lock_8 (cn_msg c))) lk \<Longrightarrow> cn_state c = FLOM_CONN_STATE_LOCKER \<Longrightarrow>
     tk_sequence t = to_gint (lk_write_sequence lk + 1) \<Longrightarrow>
     dm_lockers s' = (dm_lockers s)[k := lk\<lparr>lk_write_sequence := to_gint (lk_write_sequence lk + 1)\<rparr>] \<Longrightarrow>
     dm_pipes s' = (dm_pipes s)(lk_uid lk := dm_pipes s (lk_uid lk) @ [Token t, Client c]) \<Longrightarrow>
     mset (dm_uids s) = add_mset (cn_uid c) (mset (dm_uids s')) \<Longrightarrow> dm_last_uid s' = dm_last_uid s \<Longrightarrow> main_step s s'"
| Start:
    "(\<forall>lk \<in> set (dm_lockers s). locker_open lk \<longrightarrow> \<not> locker_manages (Some name) lk) \<Longrightarrow>
     new_locker name (Suc (dm_last_uid s)) lk \<Longrightarrow> dm_last_uid s' = Suc (dm_last_uid s) \<Longrightarrow>
     dm_lockers s' = dm_lockers s @ [lk] \<Longrightarrow> dm_pipes s' = dm_pipes s \<Longrightarrow> dm_uids s' = dm_uids s \<Longrightarrow> main_step s s'"
| Close_pipe:
    "k < length (dm_lockers s) \<Longrightarrow> idle_locker (dm_lockers s ! k) \<Longrightarrow>
     dm_lockers s' = (dm_lockers s)[k := (dm_lockers s ! k)\<lparr>lk_write_pipe := FLOM_NULL_FD\<rparr>] \<Longrightarrow>
     dm_pipes s' = dm_pipes s \<Longrightarrow> dm_uids s' = dm_uids s \<Longrightarrow> dm_last_uid s' = dm_last_uid s \<Longrightarrow> main_step s s'"
| Drop:
    "k < length (dm_lockers s) \<Longrightarrow> lk_write_pipe (dm_lockers s ! k) = FLOM_NULL_FD \<Longrightarrow>
     lk_read_pipe (dm_lockers s ! k) = FLOM_NULL_FD \<Longrightarrow> idle_locker (dm_lockers s ! k) \<Longrightarrow>
     dm_lockers s' = take k (dm_lockers s) @ drop (Suc k) (dm_lockers s) \<Longrightarrow>
     dm_pipes s' = dm_pipes s \<Longrightarrow> dm_uids s' = dm_uids s \<Longrightarrow> dm_last_uid s' = dm_last_uid s \<Longrightarrow> main_step s s'"

subsection \<open>Steps on the own connections\<close>

lemma Own_same:
  assumes "dm_lockers s' = dm_lockers s" "dm_pipes s' = dm_pipes s" "dm_last_uid s' = dm_last_uid s" "dm_uids s' = dm_uids s"
  shows "main_step s s'"
  by (rule Own [where new = "[]"]) (simp_all add: assms)

text \<open>What is not seen by the lockers.\<close>

definition seen :: "daemon_st \<Rightarrow> flom_locker list \<times> (nat \<Rightarrow> pipe_item list) \<times> nat \<times> conn list" where
  "seen s = (dm_lockers s, dm_pipes s, dm_last_uid s, dm_uids s)"

lemma seen_step: "seen s' = seen s \<Longrightarrow> main_step s s'"
  by (auto simp: seen_def intro: Own_same)

lemma seen_simps [simp]:
  "seen (s\<lparr>dm_world := w\<rparr>) = seen s" "seen (s\<lparr>dm_shut := cs\<rparr>) = seen s" "seen (s\<lparr>dm_datagrams := x\<rparr>) = seen s"
  "seen (s\<lparr>dm_vfs := v\<rparr>) = seen s" "seen (s\<lparr>dm_global := g\<rparr>) = seen s" "seen (s\<lparr>dm_tls := t\<rparr>) = seen s"
  "seen (s\<lparr>dm_types := y\<rparr>) = seen s" "seen (dm_shutdown c s) = seen s" "seen (dm_set_last_step c n s) = seen s"
  by (simp_all add: seen_def dm_uids_def dm_array_def dm_shutdown_def dm_set_last_step_def)

lemma seen_upd_conn: "(\<And>x. cn_uid (f x) = cn_uid x) \<Longrightarrow> seen (upd_conn i f s) = seen s"
  by (cases "i < length (dm_array s)")
    (simp_all add: seen_def upd_conn_def dm_uids_def dm_array_def map_update list_update_same_conv list_update_beyond)

lemma seen_close: "dm_close inp i s = (rc, s') \<Longrightarrow> seen s' = seen s"
proof -
  have "map cn_uid (cs_array cs') = map cn_uid (cs_array cs) \<and> cs_last_uid cs' = cs_last_uid cs"
    if "flom_conns_close_fd f cs i = (r, cs')" for f cs r cs'
    using that terminate_uid [of f "cs_array cs ! i"]
    by (auto simp: flom_conns_close_fd_def map_update list_update_same_conv split: prod.splits if_splits)
  then show "dm_close inp i s = (rc, s') \<Longrightarrow> seen s' = seen s"
    by (force simp: dm_close_def seen_def dm_uids_def dm_array_def split: prod.splits)
qed

lemma seen_reply: "dm_reply inp i r s = (rc, s') \<Longrightarrow> seen s' = seen s"
  by (auto simp: dm_reply_def split: prod.splits)

lemma seen_discover: "flom_accept_discover_reply inp i s = (rc, s') \<Longrightarrow> seen s' = seen s"
  by (auto simp: flom_accept_discover_reply_def Let_def split: sum.splits if_splits)

lemma seen_mngmnt: "flom_daemon_mngmnt i s = Ret (rc, s') \<Longrightarrow> seen s' = seen s"
  by (auto simp: flom_daemon_mngmnt_def flom_daemon_mngmnt_shutdown_def Let_def split: if_splits)

lemma seen_check_peer: "pollin_check_peer inp i s = (r, s') \<Longrightarrow> seen s' = seen s"
  using seen_close by (auto simp: pollin_check_peer_def Let_def split: prod.splits if_splits)

lemma pollin_accept_step:
  assumes "pollin_accept inp s = (rc, s')"
  shows "main_step s s'"
proof -
  have add: "main_step s t" if "dm_lockers t = dm_lockers s" "dm_pipes t = dm_pipes s" "dm_last_uid t = Suc (dm_last_uid s)"
    "dm_uids t = dm_uids s \<or> dm_uids t = dm_uids s @ [Suc (dm_last_uid s)]" for t
    using that by (intro Own [where new = "[Suc (dm_last_uid s)]"]) auto
  have tls: "dm_lockers t' = dm_lockers t \<and> dm_pipes t' = dm_pipes t \<and> dm_conns t' = dm_conns t"
    if "flom_accept_loop_pollin_tls inp c t = (r, t')" for c t r t'
    using that by (auto simp: flom_accept_loop_pollin_tls_def Let_def split: if_splits)
  let ?u = "Suc (dm_last_uid s)"
  have uid: "cn_uid c1 = ?u" if "flom_conn_terminate f (flom_conn_init ?u fd True) = (r, c1)" for f fd r c1
    using terminate_uid [OF that] by (simp add: flom_conn_init_def)
  show ?thesis
    using assms tls uid
    by (fastforce simp: pollin_accept_def flom_conns_get_new_uid_def flom_conns_add_conn_def flom_conn_init_def
        dm_uids_def dm_array_def Let_def split: option.splits if_splits prod.splits intro: add Own_same)
qed

lemma accept_setup_step:
  assumes "accept_setup inp s = Next s'"
  shows "main_step s s'"
proof -
  obtain del cs1 where c: "flom_conns_clean (dm_conns s) = (FLOM_RC_OK, del, cs1)" "cs_array (dm_conns s') = cs_array cs1"
    "cs_last_uid (dm_conns s') = cs_last_uid cs1" "dm_lockers s' = dm_lockers s" "dm_pipes s' = dm_pipes s"
    using assms
    by (auto simp: accept_setup_def flom_conns_clean_def flom_conns_get_fds_def flom_conns_set_events_def Let_def
        split: prod.splits option.splits if_splits)
  have l: "clean_loop 0 (cs_array (dm_conns s)) = (del, cs_array cs1)" "cs_last_uid cs1 = dm_last_uid s"
    using c(1) by (auto simp: flom_conns_clean_def split: prod.splits)
  have "mset (dm_uids s) = mset (map cn_uid del) + mset (dm_uids s')"
    using clean_loop_spec [OF l(1)] c(2) by (simp add: dm_uids_def dm_array_def)
  then show ?thesis using c(3-5) l(2) by (intro Own [where new = "[]"]) simp_all
qed

subsection \<open>Steps on the lockers\<close>

lemma find_locker_Some:
  "find_locker name i lks = Some k \<Longrightarrow>
   i \<le> k \<and> k - i < length lks \<and> locker_open (lks ! (k - i)) \<and> locker_manages name (lks ! (k - i))"
proof (induction lks arbitrary: i)
  case (Cons lk lks)
  show ?case
  proof (cases "locker_open lk \<and> locker_manages name lk")
    case False
    then have "find_locker name (Suc i) lks = Some k" using Cons.prems by (auto split: if_splits)
    from Cons.IH [OF this] show ?thesis using Suc_diff_Suc [of i k] by auto
  qed (use Cons.prems in auto)
qed simp

lemma find_locker_None: "find_locker name i lks = None \<Longrightarrow> lk \<in> set lks \<Longrightarrow> locker_open lk \<Longrightarrow> \<not> locker_manages name lk"
  by (induction name i lks rule: find_locker.induct) (auto split: if_splits)

lemma transfer_conn_step:
  assumes "flom_accept_loop_transfer_conn inp i k s = (FLOM_RC_OK, s')" "i < length (dm_array s)"
    and "k < length (dm_lockers s)" "locker_open (dm_lockers s ! k)"
    and "serves_name (l8_name (lock_8 (cn_msg (dm_array s ! i)))) (dm_lockers s ! k)"
  shows "main_step s s'"
proof -
  let ?lk = "dm_lockers s ! k"
  let ?c = "(dm_array s ! i)\<lparr>cn_state := FLOM_CONN_STATE_LOCKER\<rparr>"
  have u: "mset (dm_uids s) = add_mset (cn_uid ?c) (mset (map cn_uid (remove_index_fast (dm_array s) i)))"
    using arg_cong [OF mset_remove_index_fast [OF assms(2)], of "image_mset cn_uid"] by (simp add: dm_uids_def)
  show ?thesis
    by (rule Hand_over [of k s ?lk ?c
          "\<lparr> tk_domain = cs_domain (dm_conns s), tk_client_fd = cn_sockfd (dm_array s ! i),
             tk_sequence = to_gint (lk_write_sequence ?lk + 1) \<rparr>"])
      (use assms u in \<open>auto simp: flom_accept_loop_transfer_conn_def flom_conns_trns_fd_def pipe_write_def dm_array_def
        dm_uids_def Let_def fun_eq_iff split: if_splits\<close>)
qed

lemma transfer_conn_lockers:
  assumes "flom_accept_loop_transfer_conn inp i k s = (FLOM_RC_OK, s')"
  shows "dm_lockers s' = (dm_lockers s)[k := (dm_lockers s ! k)\<lparr>lk_write_sequence := to_gint (lk_write_sequence (dm_lockers s ! k) + 1)\<rparr>]"
  using assms
  by (auto simp: flom_accept_loop_transfer_conn_def pipe_write_def Let_def split: if_splits prod.splits option.splits)

lemma incubator_scan_steps:
  assumes "incubator_scan inp k i s = (FLOM_RC_OK, s')" "k < length (dm_lockers s)" "locker_open (dm_lockers s ! k)"
  shows "main_step\<^sup>*\<^sup>* s s'"
  using assms
proof (induction inp k i s rule: incubator_scan.induct)
  case (1 inp k i s)
  let ?m = "locker_manages (l8_name (lock_8 (cn_msg (dm_array s ! i)))) (dm_lockers s ! k)"
  consider (none) "\<not> i < length (dm_array s)" | (skip) "i < length (dm_array s)" "cn_wait (dm_array s ! i) \<longrightarrow> \<not> ?m"
    | (take) "i < length (dm_array s)" "cn_wait (dm_array s ! i)" ?m by blast
  then show ?case
  proof cases
    case none
    then show ?thesis using "1.prems"(1) by (simp add: incubator_scan.simps [of inp k i s])
  next
    case skip
    then have "incubator_scan inp k (Suc i) s = (FLOM_RC_OK, s')"
      using "1.prems"(1) by (auto simp: incubator_scan.simps [of inp k i s] split: if_splits)
    then show ?thesis using "1.IH"(1,3) skip "1.prems"(2,3) by blast
  next
    case take
    obtain rc s1 where t: "flom_accept_loop_transfer_conn inp i k s = (rc, s1)" by force
    let ?s2 = "s1\<lparr>dm_vfs := dm_vfs s1 @ [Del_conn (cn_uid (dm_array s ! i)) True]\<rparr>"
    have rc: "rc = FLOM_RC_OK" and r: "incubator_scan inp k i ?s2 = (FLOM_RC_OK, s')"
      using "1.prems"(1) take t by (auto simp: incubator_scan.simps [of inp k i s] split: if_splits)
    have lks: "k < length (dm_lockers ?s2)" "locker_open (dm_lockers ?s2 ! k)"
      using transfer_conn_lockers [OF t [unfolded rc]] "1.prems"(2,3) by (simp_all add: locker_open_def)
    have "serves_name (l8_name (lock_8 (cn_msg (dm_array s ! i)))) (dm_lockers s ! k)" using take(3) by (simp add: serves_name_def)
    note st = transfer_conn_step [OF t [unfolded rc] take(1) "1.prems"(2,3) this]
    have "main_step s1 ?s2" by (rule seen_step) simp
    moreover have "main_step\<^sup>*\<^sup>* ?s2 s'" using "1.IH"(2) [OF take(1)] take t rc r lks by simp
    ultimately show ?thesis using st by (meson converse_rtranclp_into_rtranclp)
  qed
qed

text \<open>The file descriptors of a pipe are not \<open>- 1\<close>.\<close>

definition pipe_ok :: "daemon_input \<Rightarrow> bool" where
  "pipe_ok inp \<longleftrightarrow> (case di_pipe inp of None \<Rightarrow> True | Some (a, b) \<Rightarrow> 0 \<le> a \<and> 0 \<le> b)"

lemma start_locker_cases:
  assumes "flom_accept_loop_start_locker inp m (flom_rsrc_get_type name) uid s = (FLOM_RC_OK, s')" "l8_name (lock_8 m) = Some name"
    and "pipe_ok inp" "flom_rsrc_get_type name \<noteq> FLOM_RSRC_TYPE_NULL"
  obtains lk where "new_locker name uid lk" "dm_lockers s' = dm_lockers s @ [lk]" "dm_pipes s' = dm_pipes s" "dm_conns s' = dm_conns s"
proof -
  obtain r where r: "flom_resource_init (di_node_fail inp) (flom_rsrc_get_type name) (Some name) = (FLOM_RC_OK, r)"
    using assms(1,2) by (auto simp: flom_accept_loop_start_locker_def split: prod.splits if_splits)
  obtain a b t where p: "di_pipe inp = Some (a, b)" "di_thread inp = Some t"
    using assms(1,2) r by (auto simp: flom_accept_loop_start_locker_def Let_def split: option.splits)
  show thesis
    by (rule that [of "(flom_locker_init 0)\<lparr>lk_resource := r, lk_uid := uid, lk_read_pipe := a, lk_write_pipe := b,
          lk_idle_lifespan := l8_lifespan (lock_8 m), lk_thread := Some t\<rparr>"])
      (use assms r p in \<open>auto simp: flom_accept_loop_start_locker_def flom_locker_array_add_def new_locker_def
        locker_open_def flom_locker_init_def pipe_ok_def Let_def\<close>)
qed

lemma transfer_no_create_step: "transfer_no_create inp i m t s = (rc, s') \<Longrightarrow> main_step s s'"
  using seen_reply seen_upd_conn
  by (intro seen_step) (auto simp: transfer_no_create_def Let_def split: prod.splits if_splits)

lemma transfer_create_steps:
  assumes "transfer_create inp i m (flom_rsrc_get_type name) s = (FLOM_RC_OK, s')" "i < length (dm_array s)"
    and "m = cn_msg (dm_array s ! i)" "l8_name (lock_8 m) = Some name" "flom_rsrc_get_type name \<noteq> FLOM_RSRC_TYPE_NULL"
    and "pipe_ok inp" "find_locker (Some name) 0 (dm_lockers s) = None"
  shows "main_step\<^sup>*\<^sup>* s s'"
proof -
  let ?u = "Suc (dm_last_uid s)"
  let ?s0 = "s\<lparr>dm_conns := (dm_conns s)\<lparr>cs_last_uid := ?u\<rparr>\<rparr>"
  obtain rc s1 where st: "flom_accept_loop_start_locker inp m (flom_rsrc_get_type name) ?u ?s0 = (rc, s1)" by force
  show ?thesis
  proof (cases "rc = FLOM_RC_OK")
    case False
    then have "rc = FLOM_RC_RESOURCE_INIT_ERROR" "s' = dm_shutdown (cn_uid (dm_array s ! i)) s1"
      using assms(1) st by (auto simp: transfer_create_def flom_conns_get_new_uid_def split: if_splits)
    moreover from this have "s1 = ?s0"
      using st by (auto simp: flom_accept_loop_start_locker_def Let_def split: prod.splits if_splits option.splits)
    ultimately have "dm_lockers s' = dm_lockers s" "dm_pipes s' = dm_pipes s" "dm_last_uid s' = ?u" "dm_uids s' = dm_uids s"
      by (simp_all add: dm_shutdown_def dm_uids_def dm_array_def)
    then have "main_step s s'" by (intro Own [where new = "[]"]) simp_all
    then show ?thesis by simp
  next
    case True
    then obtain lk where lk: "new_locker name ?u lk" "dm_lockers s1 = dm_lockers s @ [lk]" "dm_pipes s1 = dm_pipes s"
      "dm_conns s1 = (dm_conns s)\<lparr>cs_last_uid := ?u\<rparr>"
      using start_locker_cases [OF st [unfolded True] assms(4,6,5)] by auto
    obtain rc2 s2 where t: "flom_accept_loop_transfer_conn inp i (length (dm_lockers s)) s1 = (rc2, s2)" by force
    have ok: "rc2 = FLOM_RC_OK" "incubator_scan inp (length (dm_lockers s)) 1 s2 = (FLOM_RC_OK, s')"
      using assms(1) st True lk(2) t by (auto simp: transfer_create_def flom_conns_get_new_uid_def Let_def split: if_splits)
    have arr: "dm_array s1 = dm_array s" using lk(4) by (simp add: dm_array_def)
    have "main_step s s1"
      by (rule Start [of s name lk]) (use lk arr find_locker_None [OF assms(7)] in \<open>auto simp: dm_uids_def\<close>)
    moreover have "main_step s1 s2"
      by (rule transfer_conn_step [OF t [unfolded ok(1)]])
        (use lk arr assms(2-4) in \<open>auto simp: serves_name_def new_locker_def\<close>)
    moreover have "main_step\<^sup>*\<^sup>* s2 s'"
      by (rule incubator_scan_steps [OF ok(2)])
        (use transfer_conn_lockers [OF t [unfolded ok(1)]] lk in \<open>auto simp: new_locker_def locker_open_def\<close>)
    ultimately show ?thesis by (meson converse_rtranclp_into_rtranclp)
  qed
qed

lemma transfer_cases:
  assumes "flom_accept_loop_transfer inp i s = Ret (FLOM_RC_OK, s')"
  obtains (no_locker) "seen s' = seen s"
  | (found) k where "i < length (dm_array s)" "flom_accept_loop_transfer_conn inp i k s = (FLOM_RC_OK, s')"
      "find_locker (l8_name (lock_8 (cn_msg (dm_array s ! i)))) 0 (dm_lockers s) = Some k"
  | (create) name where "i < length (dm_array s)" "l8_name (lock_8 (cn_msg (dm_array s ! i))) = Some name"
      "flom_rsrc_get_type name \<noteq> FLOM_RSRC_TYPE_NULL" "find_locker (Some name) 0 (dm_lockers s) = None"
      "transfer_create inp i (cn_msg (dm_array s ! i)) (flom_rsrc_get_type name) s = (FLOM_RC_OK, s')"
proof -
  let ?m = "cn_msg (dm_array s ! i)"
  have i: "i < length (dm_array s)" using assms(1) by (auto simp: flom_accept_loop_transfer_def split: if_splits)
  obtain name where n: "l8_name (lock_8 ?m) = Some name"
    using assms(1) by (auto simp: flom_accept_loop_transfer_def Let_def split: if_splits option.splits)
  note d = assms(1) [unfolded flom_accept_loop_transfer_def Let_def n, simplified]
  have nc: "seen s' = seen s" if "transfer_no_create inp i ?m (flom_rsrc_get_type name) s = (FLOM_RC_OK, s')"
    using that seen_reply seen_upd_conn by (auto simp: transfer_no_create_def Let_def split: prod.splits if_splits)
  show thesis
  proof (cases "flom_rsrc_get_type name = FLOM_RSRC_TYPE_NULL")
    case True
    then have "seen s' = seen s" using d seen_reply by (auto split: if_splits prod.splits)
    then show thesis by (rule no_locker)
  next
    case valid: False
    show thesis
    proof (cases "find_locker (Some name) 0 (dm_lockers s)")
      case (Some k)
      then have "flom_accept_loop_transfer_conn inp i k s = (FLOM_RC_OK, s')"
        using d valid by (auto split: if_splits prod.splits)
      then show thesis using found [OF i] Some n by simp
    next
      case None
      then have "transfer_no_create inp i ?m (flom_rsrc_get_type name) s = (FLOM_RC_OK, s') \<or>
          transfer_create inp i ?m (flom_rsrc_get_type name) s = (FLOM_RC_OK, s')"
        using d valid by (auto split: if_splits prod.splits)
      then show thesis using no_locker nc create [OF i n valid None] by blast
    qed
  qed
qed

lemma transfer_steps:
  assumes "flom_accept_loop_transfer inp i s = Ret (FLOM_RC_OK, s')" "pipe_ok inp"
  shows "main_step\<^sup>*\<^sup>* s s'"
  using assms(1)
proof (cases rule: transfer_cases)
  case no_locker
  then show ?thesis using seen_step by blast
next
  case (found k)
  from transfer_conn_step [OF found(2,1)] find_locker_Some [OF found(3)] show ?thesis
    by (auto simp: serves_name_def)
next
  case (create name)
  from transfer_create_steps [OF create(5,1) refl create(2,3) assms(2) create(4)] show ?thesis .
qed

text \<open>A peer that has closed its side is noticed only when it is answered: nothing has been moved then.\<close>

lemma transfer_conn_rc: "fst (flom_accept_loop_transfer_conn inp i k s) \<in> {FLOM_RC_OK, FLOM_RC_WRITE_ERROR, FLOM_RC_OUT_OF_RANGE}"
  by (auto simp: flom_accept_loop_transfer_conn_def flom_conns_trns_fd_def Let_def)

lemma incubator_scan_rc: "fst (incubator_scan inp k i s) \<in> {FLOM_RC_OK, FLOM_RC_WRITE_ERROR, FLOM_RC_OUT_OF_RANGE}"
proof (induction inp k i s rule: incubator_scan.induct)
  case (1 inp k i s)
  obtain rc s1 where t: "flom_accept_loop_transfer_conn inp i k s = (rc, s1)" by force
  then show ?case
    using 1 transfer_conn_rc [of inp i k s] by (auto simp: incubator_scan.simps [of inp k i s] split: if_splits)
qed

lemma start_locker_rc:
  "fst (flom_accept_loop_start_locker inp m t u s) \<in> {FLOM_RC_OK, FLOM_RC_RESOURCE_INIT_ERROR, FLOM_RC_PIPE_ERROR, FLOM_RC_G_THREAD_NEW_ERROR}"
  by (auto simp: flom_accept_loop_start_locker_def Let_def split: prod.splits option.splits)

lemma transfer_create_rc: "fst (transfer_create inp i m t s) \<noteq> FLOM_RC_CONNECTION_CLOSED"
proof -
  obtain u cs where u: "flom_conns_get_new_uid (dm_conns s) = (u, cs)" by force
  obtain rc s1 where st: "flom_accept_loop_start_locker inp m t u (s\<lparr>dm_conns := cs\<rparr>) = (rc, s1)" by force
  define k where "k = length (dm_lockers s1) - 1"
  obtain rc2 s2 where t: "flom_accept_loop_transfer_conn inp i k s1 = (rc2, s2)" by force
  show ?thesis
    using start_locker_rc [of inp m t u "s\<lparr>dm_conns := cs\<rparr>"] transfer_conn_rc [of inp i k s1] incubator_scan_rc [of inp k 1 s2]
    unfolding transfer_create_def u prod.case st Let_def k_def [symmetric] t by (auto simp: st t)
qed

lemma transfer_closed_step:
  assumes "flom_accept_loop_transfer inp i s = Ret (FLOM_RC_CONNECTION_CLOSED, s')"
  shows "main_step s s'"
proof -
  let ?m = "cn_msg (dm_array s ! i)"
  obtain name where n: "l8_name (lock_8 ?m) = Some name"
    using assms(1) by (auto simp: flom_accept_loop_transfer_def Let_def split: if_splits option.splits)
  note d = assms(1) [unfolded flom_accept_loop_transfer_def Let_def n, simplified]
  have c: "transfer_create inp i m t s \<noteq> (FLOM_RC_CONNECTION_CLOSED, s')" for m t
    using transfer_create_rc [of inp i m t s] by auto
  have k: "flom_accept_loop_transfer_conn inp i k s \<noteq> (FLOM_RC_CONNECTION_CLOSED, s')" for k
    using transfer_conn_rc [of inp i k s] by auto
  show ?thesis
    using d c k transfer_no_create_step [of inp i ?m "flom_rsrc_get_type name" s FLOM_RC_CONNECTION_CLOSED s'] seen_reply
    by (auto intro: seen_step split: if_splits prod.splits option.splits)
qed

subsection \<open>Steps of a turn\<close>

lemma pollin_message_steps:
  assumes "pollin_message inp i s = Ret (rc, moved, s')" "rc = FLOM_RC_OK \<or> rc = FLOM_RC_CONNECTION_CLOSED" "pipe_ok inp"
  shows "main_step\<^sup>*\<^sup>* s s'"
proof -
  obtain r s1 where p: "pollin_check_peer inp i s = (r, s1)" by force
  have 1: "main_step s s1" by (rule seen_step [OF seen_check_peer [OF p]])
  show ?thesis
  proof (cases "\<not> flom_msg_check_protocol (cn_msg (dm_array s ! i)) True \<or> r \<noteq> None")
    case True
    then have "s' = s \<or> s' = s1" using assms(1) p by (auto simp: pollin_message_def Let_def split: if_splits)
    then show ?thesis using 1 by auto
  next
    case False
    let ?v = "msg_verb (cn_msg (dm_array s ! i))"
    have m: "pollin_message inp i s =
        (if ?v = FLOM_MSG_VERB_DISCOVER then
           Ret (if di_getnameinfo inp = - 1 then (FLOM_RC_GETNAMEINFO_ERROR, False, s1)
                else (case flom_accept_discover_reply inp i s1 of (rc, s2) \<Rightarrow> (rc, False, s2)))
         else if ?v = FLOM_MSG_VERB_MNGMNT then
           (case flom_daemon_mngmnt i s1 of Ret (rc, s2) \<Rightarrow> Ret (rc, False, s2) | Exited \<Rightarrow> Exited | Crashed \<Rightarrow> Crashed)
         else
           (case flom_accept_loop_transfer inp i s1 of
              Ret (rc, s2) \<Rightarrow> Ret (rc, rc = FLOM_RC_OK, s2) | Exited \<Rightarrow> Exited | Crashed \<Rightarrow> Crashed))"
      using False p by (auto simp: pollin_message_def Let_def)
    consider "seen s' = seen s1" | "flom_accept_loop_transfer inp i s1 = Ret (rc, s')"
      using assms(1,2) unfolding m
      by (auto split: if_splits prod.splits call.splits dest: seen_discover seen_mngmnt)
    then have "main_step\<^sup>*\<^sup>* s1 s'"
    proof cases
      case 1
      then show ?thesis by (blast intro: seen_step)
    next
      case 2
      then show ?thesis using assms(2,3) transfer_steps transfer_closed_step by blast
    qed
    with 1 show ?thesis by (meson converse_rtranclp_into_rtranclp)
  qed
qed

lemma pollin_data_steps:
  assumes "pollin_data inp i s = Ret (rc, moved, s')" "rc = FLOM_RC_OK \<or> rc = FLOM_RC_CONNECTION_CLOSED" "pipe_ok inp"
  shows "main_step\<^sup>*\<^sup>* s s'"
proof -
  let ?c = "dm_array s ! i"
  obtain rc0 n buffer rest where rv: "flom_conn_recv FLOM_NETWORK_WAIT_TIMEOUT
      ((di_recv inp i)\<lparr>rv_type := dm_types s (cn_uid ?c), rv_tls := dm_tls s (cn_uid ?c)\<rparr>) FLOM_MSG_BUFFER_SIZE = (rc0, n, buffer, rest)"
    by (metis prod_cases4)
  obtain events parsed where mk: "di_markup inp i buffer = (events, parsed)" by force
  define m where "m = flom_msg_deserialize (di_unb64 inp) events (cn_msg ?c)"
  define s1 where "s1 = upd_conn i (\<lambda>x. x\<lparr>cn_msg := m\<rparr>) s"
  define s2 where "s2 = dm_set_last_step (cn_uid ?c) (msg_step m) s1"
  have sn: "seen s1 = seen s" "seen s2 = seen s" by (simp_all add: s1_def s2_def seen_upd_conn)
  have "seen s' = seen s \<or> pollin_message inp i s2 = Ret (rc, moved, s')"
    using assms(1) seen_close [of inp i s2] sn
    unfolding pollin_data_def Let_def rv mk prod.case m_def [symmetric] s1_def [symmetric] s2_def [symmetric]
    by (auto split: if_splits flom_msg_state.splits prod.splits)
  then show ?thesis
    using pollin_message_steps [OF _ assms(2,3), of i s2 moved s'] seen_step [OF sn(2)] seen_step [of s' s]
    by (meson converse_rtranclp_into_rtranclp r_into_rtranclp)
qed

lemma scan_fd_steps:
  assumes "accept_scan_fd inp i s = Next (stop, s')" "pipe_ok inp"
  shows "main_step\<^sup>*\<^sup>* s s'"
proof -
  have close: "main_step t t'" if "dm_close inp i t = (r, t')" for t r t'
    by (rule seen_step [OF seen_close [OF that]])
  have pollin: "main_step\<^sup>*\<^sup>* s t"
    if "flom_accept_loop_pollin inp i s = Ret (rc, moved, t)" "rc = FLOM_RC_OK \<or> rc = FLOM_RC_CONNECTION_CLOSED" for rc moved t
    using that pollin_data_steps [OF _ that(2) assms(2), of i s moved t] pollin_accept_step [of inp s rc t]
    by (auto simp: flom_accept_loop_pollin_def split: if_splits prod.splits)
  show ?thesis
  proof (cases "re_hup (di_revents inp i) \<and> i \<noteq> 0")
    case True
    then show ?thesis using assms(1) close [of s] by (auto simp: accept_scan_fd_def Let_def split: prod.splits if_splits)
  next
    case False
    obtain rc moved s1 where p: "(if re_in (di_revents inp i) then flom_accept_loop_pollin inp i s else Ret (FLOM_RC_OK, False, s))
        = Ret (rc, moved, s1)"
      using assms(1) False by (cases "if re_in (di_revents inp i) then flom_accept_loop_pollin inp i s else Ret (FLOM_RC_OK, False, s)")
        (auto simp: accept_scan_fd_def Let_def)
    have "s' = s1 \<and> rc = FLOM_RC_OK \<or> rc = FLOM_RC_CONNECTION_CLOSED \<and> (\<exists>r. dm_close inp i s1 = (r, s'))"
      using assms(1) False unfolding accept_scan_fd_def Let_def p by (auto split: prod.splits if_splits)
    then show ?thesis
      using p pollin [of rc moved s1] close [of s1 _ s'] by (auto split: if_splits intro: rtranclp.rtrancl_into_rtrancl)
  qed
qed

lemma accept_scan_steps: "accept_scan inp is s = Next s' \<Longrightarrow> pipe_ok inp \<Longrightarrow> main_step\<^sup>*\<^sup>* s s'"
proof (induction "is" arbitrary: s)
  case (Cons i "is")
  then obtain stop s1 where f: "accept_scan_fd inp i s = Next (stop, s1)" "s' = s1 \<or> accept_scan inp is s1 = Next s'"
    by (auto split: loop.splits if_splits)
  from scan_fd_steps [OF f(1) Cons.prems(2)] f(2) Cons.IH [of s1] Cons.prems(2) show ?case
    by (auto intro: rtranclp_trans)
qed simp

lemma chklockers_steps:
  assumes "chklockers_loop inp is s = (FLOM_RC_OK, again, s')" "\<forall>i \<in> set is. i < length (dm_lockers s)"
  shows "main_step\<^sup>*\<^sup>* s s'"
  using assms
proof (induction "is" arbitrary: s)
  case (Cons i "is")
  let ?fl = "dm_lockers s ! i"
  let ?s1 = "s\<lparr>dm_lockers := (dm_lockers s)[i := ?fl\<lparr>lk_write_pipe := FLOM_NULL_FD\<rparr>]\<rparr>"
  have i: "i < length (dm_lockers s)" using Cons.prems(2) by simp
  consider (skip) "chklockers_loop inp is s = (FLOM_RC_OK, again, s')"
    | (close) "idle_locker ?fl" "chklockers_loop inp is ?s1 = (FLOM_RC_OK, again, s')"
    | (del) "idle_locker ?fl" "lk_write_pipe ?fl = FLOM_NULL_FD" "lk_read_pipe ?fl = FLOM_NULL_FD" "s' = flom_locker_array_del i s"
    using Cons.prems(1) by (auto simp: Let_def idle_locker_def split: if_splits)
  then show ?case
  proof cases
    case skip
    then show ?thesis using Cons.IH Cons.prems(2) by simp
  next
    case close
    have "main_step s ?s1"
      by (rule Close_pipe [of i]) (use i close(1) in \<open>simp_all add: dm_uids_def dm_array_def\<close>)
    then show ?thesis using Cons.IH [OF close(2)] Cons.prems(2) by (auto intro: converse_rtranclp_into_rtranclp)
  next
    case del
    have "main_step s s'"
      by (rule Drop [of i]) (use i del in \<open>simp_all add: dm_uids_def dm_array_def flom_locker_array_del_def\<close>)
    then show ?thesis by simp
  qed
qed simp

lemma accept_chklockers_steps: "accept_chklockers inp again s = Next (again', s') \<Longrightarrow> main_step\<^sup>*\<^sup>* s s'"
  using chklockers_steps [of inp "[0..<length (dm_lockers s)]" s again' s']
  by (auto simp: accept_chklockers_def flom_accept_loop_chklockers_def split: if_splits prod.splits)

lemma accept_idle_steps: "accept_idle inp again s = Next (again', s') \<Longrightarrow> main_step\<^sup>*\<^sup>* s s'"
  using accept_chklockers_steps by (auto simp: accept_idle_def split: if_splits)

lemma accept_turn_steps:
  assumes "accept_turn inp again s = Next (again', s')" "pipe_ok inp"
  shows "main_step\<^sup>*\<^sup>* s s'"
proof -
  obtain s1 where s1: "accept_setup inp s = Next s1"
    using assms(1) by (auto simp: accept_turn_def split: loop.splits)
  obtain s2 where s2: "main_step\<^sup>*\<^sup>* s1 s2" "accept_chklockers inp again s2 = Next (again', s') \<or> s' = s2"
    using assms s1 accept_idle_steps [of inp again s1 again' s'] accept_scan_steps [of inp _ s1]
    by (auto simp: accept_turn_def split: loop.splits if_splits)
  with accept_setup_step [OF s1] accept_chklockers_steps show ?thesis
    by (meson converse_rtranclp_into_rtranclp rtranclp_trans)
qed

section \<open>The incubator\<close>

fun clients_of :: "pipe_item list \<Rightarrow> flom_conn list" where
  "clients_of [] = []"
| "clients_of (Client c # xs) = c # clients_of xs"
| "clients_of (Token t # xs) = clients_of xs"

lemma clients_of_append [simp]: "clients_of (xs @ ys) = clients_of xs @ clients_of ys"
  by (induction xs rule: clients_of.induct) simp_all

text \<open>A connection that waits for a locker of its name; it may have been closed.\<close>

definition waits_for :: "flom_locker \<Rightarrow> flom_conn \<Rightarrow> bool" where
  "waits_for lk c \<longleftrightarrow> cn_wait c \<and> locker_manages (l8_name (lock_8 (cn_msg c))) lk"

lemma waits_for_simps [simp]:
  "waits_for (lk\<lparr>lk_write_sequence := n\<rparr>) c = waits_for lk c" "waits_for lk (c\<lparr>cn_state := st\<rparr>) = waits_for lk c"
  by (simp_all add: waits_for_def locker_manages_def)

lemma transfer_conn_ok:
  assumes "flom_accept_loop_transfer_conn inp i k s = (FLOM_RC_OK, s')" "i < length (dm_array s)"
  shows "dm_array s' = remove_index_fast (dm_array s) i"
    and "clients_of (dm_pipes s' u) = clients_of (dm_pipes s u) @
      (if u = lk_uid (dm_lockers s ! k) then [(dm_array s ! i)\<lparr>cn_state := FLOM_CONN_STATE_LOCKER\<rparr>] else [])"
    and "dm_last_uid s' = dm_last_uid s"
  using assms
  by (auto simp: flom_accept_loop_transfer_conn_def flom_conns_trns_fd_def pipe_write_def dm_array_def Let_def split: if_splits)

lemma uids_transfer:
  "i < length (dm_array s) \<Longrightarrow> dm_array s' = remove_index_fast (dm_array s) i \<Longrightarrow>
   mset (dm_uids s) = add_mset (cn_uid (dm_array s ! i)) (mset (dm_uids s'))"
  using arg_cong [OF mset_remove_index_fast [of i "dm_array s"], of "image_mset cn_uid"] by (simp add: dm_uids_def)

text \<open>The connections \<open>cs\<close> have gone to the pipe of the locker, and from the index \<open>i\<close> on nobody is left
  who waits for it.\<close>

definition incubator_taken :: "nat \<Rightarrow> nat \<Rightarrow> daemon_st \<Rightarrow> flom_conn list \<Rightarrow> daemon_st \<Rightarrow> bool" where
  "incubator_taken k i s cs s' \<longleftrightarrow>
     (let lk = dm_lockers s ! k in
      clients_of (dm_pipes s' (lk_uid lk)) = clients_of (dm_pipes s (lk_uid lk)) @ cs \<and>
      mset (dm_uids s) = mset (map cn_uid cs) + mset (dm_uids s') \<and> list_all (waits_for lk) cs \<and>
      list_all (\<lambda>c. \<not> waits_for lk c) (drop i (dm_array s')) \<and> take i (dm_array s') = take i (dm_array s) \<and>
      length (dm_lockers s') = length (dm_lockers s) \<and> lk_uid (dm_lockers s' ! k) = lk_uid lk \<and>
      lk_resource (dm_lockers s' ! k) = lk_resource lk)"

lemma incubator_taken_none: "i = length (dm_array s) \<Longrightarrow> incubator_taken k i s [] s"
  by (simp add: incubator_taken_def Let_def)

lemma incubator_taken_skip:
  assumes "incubator_taken k (Suc i) s cs s'" "i < length (dm_array s)" "\<not> waits_for (dm_lockers s ! k) (dm_array s ! i)"
  shows "incubator_taken k i s cs s'"
proof -
  have t: "take (Suc i) (dm_array s') = take (Suc i) (dm_array s)" using assms(1) by (simp add: incubator_taken_def Let_def)
  have "length (take (Suc i) (dm_array s')) = Suc i" using t assms(2) by simp
  then have i: "i < length (dm_array s')" by simp
  have "dm_array s' ! i = dm_array s ! i" using arg_cong [OF t, of "\<lambda>xs. xs ! i"] by simp
  then have "drop i (dm_array s') = dm_array s ! i # drop (Suc i) (dm_array s')" using i by (metis Cons_nth_drop_Suc)
  moreover have "take i (dm_array s') = take i (dm_array s)" using arg_cong [OF t, of "take i"] by simp
  ultimately show ?thesis using assms(1,3) by (simp add: incubator_taken_def Let_def)
qed

lemma incubator_taken_take:
  assumes "flom_accept_loop_transfer_conn inp i k s = (FLOM_RC_OK, s1)" "i < length (dm_array s)" "k < length (dm_lockers s)"
    and "waits_for (dm_lockers s ! k) (dm_array s ! i)" "s2 = s1\<lparr>dm_vfs := v\<rparr>" "incubator_taken k i s2 cs s'"
  shows "incubator_taken k i s ((dm_array s ! i)\<lparr>cn_state := FLOM_CONN_STATE_LOCKER\<rparr> # cs) s'"
proof -
  have arr: "dm_array s2 = remove_index_fast (dm_array s) i"
    and p: "clients_of (dm_pipes s2 (lk_uid (dm_lockers s ! k))) =
      clients_of (dm_pipes s (lk_uid (dm_lockers s ! k))) @ [(dm_array s ! i)\<lparr>cn_state := FLOM_CONN_STATE_LOCKER\<rparr>]"
    using transfer_conn_ok [OF assms(1,2)] assms(5) by (simp_all add: dm_array_def)
  have lk: "dm_lockers s2 ! k = (dm_lockers s ! k)\<lparr>lk_write_sequence := to_gint (lk_write_sequence (dm_lockers s ! k) + 1)\<rparr>"
    "length (dm_lockers s2) = length (dm_lockers s)"
    using transfer_conn_lockers [OF assms(1)] assms(3,5) by simp_all
  have "waits_for (dm_lockers s2 ! k) = waits_for (dm_lockers s ! k)" by (simp add: lk fun_eq_iff)
  then show ?thesis
    using assms(4,6) p lk uids_transfer [OF assms(2) arr] arr assms(2)
    by (simp add: incubator_taken_def Let_def take_remove_index_fast)
qed

lemma incubator_scan_takes:
  assumes "incubator_scan inp k i s = (FLOM_RC_OK, s')" "k < length (dm_lockers s)" "i \<le> length (dm_array s)"
  shows "\<exists>cs. incubator_taken k i s cs s'"
  using assms
proof (induction inp k i s rule: incubator_scan.induct)
  case (1 inp k i s)
  let ?lk = "dm_lockers s ! k" and ?c = "dm_array s ! i"
  consider (none) "i = length (dm_array s)" | (skip) "i < length (dm_array s)" "\<not> waits_for ?lk ?c"
    | (take) "i < length (dm_array s)" "waits_for ?lk ?c" using "1.prems"(3) by force
  then show ?case
  proof cases
    case none
    then have "s' = s" using "1.prems"(1) by (simp add: incubator_scan.simps [of inp k "length (dm_array s)" s])
    then show ?thesis using incubator_taken_none [OF none, of k] by blast
  next
    case skip
    then have "incubator_scan inp k (Suc i) s = (FLOM_RC_OK, s')"
      using "1.prems"(1) by (auto simp: incubator_scan.simps [of inp k i s] waits_for_def split: if_splits)
    then have "\<exists>cs. incubator_taken k (Suc i) s cs s'"
      using "1.IH"(1,3) [OF skip(1)] skip "1.prems"(2) by (auto simp: waits_for_def)
    then show ?thesis using incubator_taken_skip skip by blast
  next
    case take
    obtain rc s1 where t: "flom_accept_loop_transfer_conn inp i k s = (rc, s1)" by force
    define s2 where "s2 = s1\<lparr>dm_vfs := dm_vfs s1 @ [Del_conn (cn_uid ?c) True]\<rparr>"
    have rc: "rc = FLOM_RC_OK" and r: "incubator_scan inp k i s2 = (FLOM_RC_OK, s')"
      using "1.prems"(1) take t by (auto simp: incubator_scan.simps [of inp k i s] waits_for_def s2_def split: if_splits)
    have "length (dm_lockers s2) = length (dm_lockers s)" "length (dm_array s2) = length (dm_array s) - 1"
      using transfer_conn_lockers [OF t [unfolded rc]] transfer_conn_ok(1) [OF t [unfolded rc] take(1)]
      by (simp_all add: s2_def dm_array_def)
    then have "\<exists>cs. incubator_taken k i s2 cs s'"
      using "1.IH"(2) [OF take(1) _ _ t [symmetric]] take rc r "1.prems"(2) by (simp add: waits_for_def s2_def)
    then show ?thesis using incubator_taken_take [OF t [unfolded rc] take(1) "1.prems"(2) take(2) s2_def] by blast
  qed
qed

lemma transfer_create_taken:
  assumes "transfer_create inp i m t s = (FLOM_RC_OK, s')" "0 < i" "i < length (dm_array s)"
    and "length (dm_lockers s) < length (dm_lockers s')"
  obtains lk cs where "length (dm_lockers s') = Suc (length (dm_lockers s))" "lk = last (dm_lockers s')"
    "lk_uid lk = Suc (dm_last_uid s)"
    "clients_of (dm_pipes s' (lk_uid lk)) = clients_of (dm_pipes s (lk_uid lk)) @ (dm_array s ! i)\<lparr>cn_state := FLOM_CONN_STATE_LOCKER\<rparr> # cs"
    "mset (dm_uids s) = add_mset (cn_uid (dm_array s ! i)) (mset (map cn_uid cs)) + mset (dm_uids s')"
    "list_all (waits_for lk) cs" "list_all (\<lambda>c. \<not> waits_for lk c) (tl (dm_array s'))"
proof -
  let ?u = "Suc (dm_last_uid s)"
  let ?s0 = "s\<lparr>dm_conns := (dm_conns s)\<lparr>cs_last_uid := ?u\<rparr>\<rparr>"
  obtain rc s1 where st: "flom_accept_loop_start_locker inp m t ?u ?s0 = (rc, s1)" by force
  have "rc = FLOM_RC_OK"
  proof (rule ccontr)
    assume "rc \<noteq> FLOM_RC_OK"
    then have "s' = dm_shutdown (cn_uid (dm_array s ! i)) s1" "s1 = ?s0"
      using assms(1) st
      by (auto simp: transfer_create_def flom_conns_get_new_uid_def flom_accept_loop_start_locker_def Let_def
          split: if_splits prod.splits option.splits)
    then show False using assms(4) by (simp add: dm_shutdown_def)
  qed
  then obtain lk1 where lk1: "dm_lockers s1 = dm_lockers s @ [lk1]" "lk_uid lk1 = ?u" "dm_pipes s1 = dm_pipes s" "dm_array s1 = dm_array s"
    using st
    by (auto simp: flom_accept_loop_start_locker_def flom_locker_array_add_def dm_array_def Let_def
        split: if_splits prod.splits option.splits)
  define k where "k = length (dm_lockers s)"
  obtain rc2 s2 where tr: "flom_accept_loop_transfer_conn inp i k s1 = (rc2, s2)" by force
  have ok: "rc2 = FLOM_RC_OK" "incubator_scan inp k 1 s2 = (FLOM_RC_OK, s')"
    using assms(1) st \<open>rc = FLOM_RC_OK\<close> lk1(1) tr
    by (auto simp: transfer_create_def flom_conns_get_new_uid_def Let_def k_def split: if_splits)
  have i1: "i < length (dm_array s1)" using assms(3) lk1(4) by simp
  note tc = transfer_conn_ok [OF tr [unfolded ok(1)] i1]
  have l2: "dm_lockers s2 ! k = lk1\<lparr>lk_write_sequence := to_gint (lk_write_sequence lk1 + 1)\<rparr>" "length (dm_lockers s2) = Suc k"
    using transfer_conn_lockers [OF tr [unfolded ok(1)]] lk1(1) by (simp_all add: k_def)
  have k1: "dm_lockers s1 ! k = lk1" using lk1(1) by (simp add: k_def)
  have "1 \<le> length (dm_array s2)" using tc(1) i1 assms(2) by simp
  then obtain cs where cs: "incubator_taken k 1 s2 cs s'"
    using incubator_scan_takes [OF ok(2)] l2(2) by auto
  define lk where "lk = last (dm_lockers s')"
  have "length (dm_lockers s') = Suc k" using cs l2(2) by (simp add: incubator_taken_def Let_def)
  then have "dm_lockers s' ! k = lk" by (metis lk_def last_conv_nth diff_Suc_1 length_0_conv nat.distinct(1))
  then have lk: "lk_uid lk = ?u" "lk_resource lk = lk_resource lk1"
    using cs lk1(2) l2(1) by (simp_all add: incubator_taken_def Let_def)
  have w: "waits_for lk = waits_for lk1" "waits_for (dm_lockers s2 ! k) = waits_for lk1"
    using lk(2) by (simp_all add: waits_for_def locker_manages_def l2(1) fun_eq_iff)
  show thesis
  proof (rule that [of lk cs])
    show "clients_of (dm_pipes s' (lk_uid lk)) = clients_of (dm_pipes s (lk_uid lk)) @ (dm_array s ! i)\<lparr>cn_state := FLOM_CONN_STATE_LOCKER\<rparr> # cs"
      using cs tc(2) [of ?u] lk lk1 l2(1) k1 by (simp add: incubator_taken_def Let_def)
    show "mset (dm_uids s) = add_mset (cn_uid (dm_array s ! i)) (mset (map cn_uid cs)) + mset (dm_uids s')"
      using cs uids_transfer [OF i1 tc(1)] lk1(4) by (simp add: incubator_taken_def Let_def dm_uids_def)
    show "list_all (waits_for lk) cs" "list_all (\<lambda>c. \<not> waits_for lk c) (tl (dm_array s'))"
      using cs w by (simp_all add: incubator_taken_def Let_def drop_Suc)
  qed (use \<open>length (dm_lockers s') = Suc k\<close> lk in \<open>simp_all add: k_def lk_def\<close>)
qed

section \<open>Samples\<close>

text \<open>A daemon on a local socket, with the default configuration and some connections, and the input of a
  turn in which nothing happens.\<close>

definition sample_daemon :: "flom_conn list \<Rightarrow> flom_locker list \<Rightarrow> daemon_st" where
  "sample_daemon cs lks = \<lparr> dm_conns = (flom_conns_init AF_UNIX)\<lparr>cs_array := flom_conn_init 1 3 True # cs,
       cs_last_uid := 1 + length cs + length lks\<rparr>,
     dm_types = (\<lambda>c. SOCK_STREAM), dm_tls = (\<lambda>c. False), dm_lockers = lks, dm_pipes = (\<lambda>u. []),
     dm_world = sample_world, dm_shut = [], dm_datagrams = [], dm_vfs = [], dm_config = None,
     dm_global = value_of (flom_config_reset sample_heap) \<rparr>"

definition sample_input :: daemon_input where
  "sample_input = \<lparr> di_alloc = True, di_ready = 0,
     di_revents = (\<lambda>i. \<lparr>re_in = False, re_err = False, re_hup = False\<rparr>), di_accept = Some 9, di_nodelay_fails = False,
     di_keepalive = FLOM_RC_OK, di_conn_new = True, di_conn_init = FLOM_RC_OK, di_tls_context = FLOM_RC_OK,
     di_tls_set_cert = FLOM_RC_OK, di_tls_accept = FLOM_RC_OK, di_close_fails = (\<lambda>i. False),
     di_recv = (\<lambda>i. \<lparr>rv_poll = 1, rv_tls = False, rv_type = SOCK_STREAM, rv_datagram = None, rv_chunks = (\<lambda>n. 8), rv_stream = ''<x></msg>''\<rparr>),
     di_markup = (\<lambda>i s. ([], True)), di_unb64 = Some, di_env = (\<lambda>i. Rsrc.sample_env), di_peer_name = (\<lambda>i. Some ''peer''),
     di_cert_check = (\<lambda>i. FLOM_RC_OK), di_getnameinfo = 0, di_sendto = int, di_pipe = Some (7, 8), di_thread = Some 1,
     di_node_fail = (\<lambda>i. False), di_write_fails = (\<lambda>c. (False, False)), di_pipe_close_fails = (\<lambda>u. False) \<rparr>"

definition on_fd :: "nat \<Rightarrow> revents \<Rightarrow> daemon_input" where
  "on_fd i re = sample_input\<lparr>di_ready := 1,
     di_revents := (\<lambda>j. if j = i then re else \<lparr>re_in = False, re_err = False, re_hup = False\<rparr>)\<rparr>"

text \<open>The client with the index \<open>i\<close> sends a lock request for a name.\<close>

definition sample_request_events :: "string \<Rightarrow> string \<Rightarrow> markup_event list" where
  "sample_request_events name create =
     [Start_element ''msg'' [(''level'', ''3''), (''verb'', ''1''), (''step'', ''8'')],
      Start_element ''resource'' [(''name'', name), (''mode'', ''5''), (''wait'', ''1''), (''create'', create)],
      End_element ''resource'', End_element ''msg'']"

definition sends :: "nat \<Rightarrow> markup_event list \<Rightarrow> daemon_input" where
  "sends i evs = (on_fd i \<lparr>re_in = True, re_err = False, re_hup = False\<rparr>)\<lparr>di_markup := (\<lambda>j s. (evs, True))\<rparr>"

definition sample_daemon_turns :: "daemon_input list" where
  "sample_daemon_turns =
     [on_fd 0 \<lparr>re_in = True, re_err = False, re_hup = False\<rparr>, on_fd 0 \<lparr>re_in = True, re_err = False, re_hup = False\<rparr>,
      sends 1 (sample_request_events ''res'' ''0''), sends 2 (sample_request_events ''res'' ''1'')]"

section \<open>Properties\<close>

text \<open>C2. The main thread keeps to its specification: every run of the accept loop, with any clients,
  any messages, any failures of system calls, is a sequence of the steps of the specification.  So a
  connection is handed only to a locker that is not terminating and that manages the name the
  client asks for (or has just been started for that name), a locker is started only for a name that
  no running locker manages, a pipe is closed only when the locker has read everything and has
  been idle, and the identifiers of connections and lockers are never used twice.\<close>

theorem accept_loop_refines:
  assumes "accept_run inps again s = Next (again', s')" "list_all pipe_ok inps"
  shows "main_step\<^sup>*\<^sup>* s s'"
  using assms
proof (induction inps arbitrary: again s)
  case (Cons inp inps)
  obtain a1 s1 where t: "accept_turn inp again s = Next (a1, s1)" "accept_run inps a1 s1 = Next (again', s')"
    using Cons.prems(1) by (auto split: loop.splits)
  have "main_step\<^sup>*\<^sup>* s s1" using accept_turn_steps [OF t(1)] Cons.prems(2) by simp
  with Cons.IH [OF t(2)] Cons.prems(2) show ?case by auto
qed simp

text \<open>Two clients connect; the first one waits for the resource, the second one creates it.\<close>

theorem accept_loop_refines_witness:
  "\<exists>again s. accept_run sample_daemon_turns False (sample_daemon [] []) = Next (again, s) \<and> main_step\<^sup>*\<^sup>* (sample_daemon [] []) s \<and>
     dm_uids s = [1] \<and> map cn_uid (clients_of (dm_pipes s 4)) = [3, 2]"
proof -
  let ?r = "accept_run sample_daemon_turns False (sample_daemon [] [])"
  have "case ?r of Next (again, s) \<Rightarrow> dm_uids s = [1] \<and> map cn_uid (clients_of (dm_pipes s 4)) = [3, 2] | _ \<Rightarrow> False"
    by code_simp
  then obtain again s where r: "?r = Next (again, s)" "dm_uids s = [1]" "map cn_uid (clients_of (dm_pipes s 4)) = [3, 2]"
    by (cases ?r) auto
  have "list_all pipe_ok sample_daemon_turns" by code_simp
  from accept_loop_refines [OF r(1) this] r show ?thesis by (intro exI conjI)
qed

text \<open>C24. The incubator loses nobody: a request that starts a new locker takes with it every client that
  waits for a locker of that name.  The client that asked is the first in the pipe of the new
  locker, behind it are the waiting ones, and no connection is lost or doubled.  (The scan does not
  look whether a waiting connection has been closed in the same turn: a closed one is handed over
  too.)\<close>

theorem new_locker_takes_incubator:
  assumes "flom_accept_loop_transfer inp i s = Ret (FLOM_RC_OK, s')" "0 < i"
    and "length (dm_lockers s) < length (dm_lockers s')" "dm_pipes s (Suc (dm_last_uid s)) = []"
  shows "\<exists>cs. clients_of (dm_pipes s' (lk_uid (last (dm_lockers s')))) = (dm_array s ! i)\<lparr>cn_state := FLOM_CONN_STATE_LOCKER\<rparr> # cs \<and>
    list_all (waits_for (last (dm_lockers s'))) cs \<and>
    list_all (\<lambda>c. \<not> waits_for (last (dm_lockers s')) c) (tl (dm_array s')) \<and>
    mset (dm_uids s) = add_mset (cn_uid (dm_array s ! i)) (mset (map cn_uid cs)) + mset (dm_uids s')"
proof -
  show ?thesis
    using assms(1)
  proof (cases rule: transfer_cases)
    case (create name)
    from transfer_create_taken [OF create(5) assms(2) create(1) assms(3)] assms(4) show ?thesis
      by (metis append_Nil clients_of.simps(1))
  qed (use assms(3) transfer_conn_lockers [of inp i _ s s'] in \<open>auto simp: seen_def\<close>)
qed

text \<open>Three connections: the second and the third one wait for the resource, the first one creates it.\<close>

definition sample_incubator :: daemon_st where
  "sample_incubator = sample_daemon
     [(flom_conn_init 2 11 True)\<lparr>cn_msg := (sample_request ''res'' 0)\<lparr>lock_8 := (lock_8 (sample_request ''res'' 0))\<lparr>l8_create := 1\<rparr>\<rparr>\<rparr>,
      (flom_conn_init 3 12 True)\<lparr>cn_wait := True, cn_msg := sample_request ''res'' 0\<rparr>,
      (flom_conn_init 4 13 True)\<lparr>cn_wait := True, cn_msg := sample_request ''res'' 0\<rparr>] []"

theorem new_locker_takes_incubator_witness:
  "\<exists>s'. flom_accept_loop_transfer sample_input 1 sample_incubator = Ret (FLOM_RC_OK, s') \<and>
     map cn_uid (clients_of (dm_pipes s' 5)) = [2, 4, 3] \<and> list_all (\<lambda>c. \<not> waits_for (last (dm_lockers s')) c) (tl (dm_array s'))"
proof -
  let ?r = "flom_accept_loop_transfer sample_input 1 sample_incubator"
  have "case ?r of Ret (rc, s) \<Rightarrow> rc = FLOM_RC_OK \<and> length (dm_lockers s) = 1 \<and> lk_uid (last (dm_lockers s)) = 5 \<and>
      map cn_uid (clients_of (dm_pipes s 5)) = [2, 4, 3] | _ \<Rightarrow> False" by code_simp
  then obtain s' where r: "?r = Ret (FLOM_RC_OK, s')" "length (dm_lockers s') = 1" "map cn_uid (clients_of (dm_pipes s' 5)) = [2, 4, 3]"
    by (cases ?r) auto
  have "length (dm_lockers sample_incubator) < length (dm_lockers s')" "dm_pipes sample_incubator (Suc (dm_last_uid sample_incubator)) = []"
    using r(2) by (simp_all add: sample_incubator_def sample_daemon_def)
  from new_locker_takes_incubator [OF r(1) _ this] have "list_all (\<lambda>c. \<not> waits_for (last (dm_lockers s')) c) (tl (dm_array s'))" by auto
  with r(1,3) show ?thesis by (intro exI conjI)
qed

lemma turn_leaves_iff:
  "accept_turn inp again s = Leave FLOM_RC_OK s' \<longleftrightarrow>
   accept_setup inp s = Next s' \<and> di_ready inp = 0 \<and> \<not> again \<and> 0 < cf_daemon_lifespan (the_config s) \<and>
   dm_lockers s = [] \<and> only_listeners s'"
proof -
  have fd: "accept_scan_fd inp i t \<noteq> Leave FLOM_RC_OK t'" for i t t'
    by (auto simp: accept_scan_fd_def Let_def split: if_splits prod.splits call.splits)
  have scan: "accept_scan inp is t \<noteq> Leave FLOM_RC_OK t'" for "is" t t'
    using fd by (induction "is" arbitrary: t) (auto split: loop.splits)
  have chk: "accept_chklockers inp b t \<noteq> Leave FLOM_RC_OK t'" for b t t'
    by (auto simp: accept_chklockers_def split: prod.splits)
  have same: "dm_lockers t' = dm_lockers s \<and> the_config t' = the_config s" if "accept_setup inp s = Next t'" for t'
    using that by (auto simp: accept_setup_def the_config_def split: prod.splits option.splits if_splits)
  have "accept_setup inp t \<noteq> Leave FLOM_RC_OK t'" for t t'
    by (auto simp: accept_setup_def split: prod.splits option.splits)
  moreover have "accept_idle inp again t = Leave FLOM_RC_OK s' \<longleftrightarrow>
      t = s' \<and> \<not> again \<and> 0 < cf_daemon_lifespan (the_config t) \<and> dm_lockers t = [] \<and> only_listeners t" for t
    using chk by (auto simp: accept_idle_def accept_poll_timeout_def Let_def)
  ultimately show ?thesis
    using scan chk same by (auto simp: accept_turn_def split: loop.splits)
qed

lemma turn_leaves_idle:
  assumes "accept_turn inp again s = Leave FLOM_RC_OK s'"
  shows "dm_lockers s' = [] \<and> only_listeners s'"
  using assms unfolding turn_leaves_iff
  by (auto simp: accept_setup_def split: prod.splits option.splits if_splits)

text \<open>The daemon ends by itself exactly when it is idle: a turn of the accept loop leaves it with
  success if and only if the poll timed out in a turn that is not a quick check of the lockers, the
  life span is positive, there is no locker and, after closed connections have been removed, only the
  sockets of the daemon itself are left.  A negative life span makes it run forever.\<close>

theorem accept_loop_ends_idle:
  "accept_turn inp again s = Leave FLOM_RC_OK s' \<longleftrightarrow>
   accept_setup inp s = Next s' \<and> di_ready inp = 0 \<and> \<not> again \<and> 0 < cf_daemon_lifespan (the_config s) \<and>
   dm_lockers s = [] \<and> only_listeners s'"
  by (rule turn_leaves_iff)

subsection \<open>The end of the daemon\<close>

text \<open>A turn in which no descriptor is ready; a locker whose thread has ended after an idle time; the
  connections are the sockets of the daemon.\<close>

definition quiet :: "daemon_input \<Rightarrow> bool" where
  "quiet inp \<longleftrightarrow> di_alloc inp \<and> di_ready inp = 0"

definition finished :: "flom_locker \<Rightarrow> bool" where
  "finished lk \<longleftrightarrow> idle_locker lk \<and> lk_write_pipe lk = FLOM_NULL_FD \<and> lk_read_pipe lk = FLOM_NULL_FD"

definition listening :: "daemon_st \<Rightarrow> bool" where
  "listening s \<longleftrightarrow> only_listeners s \<and> list_all (\<lambda>c. cn_state c \<noteq> FLOM_CONN_STATE_REMOVE \<and> cn_sockfd c \<noteq> FLOM_NULL_FD) (dm_array s)"

lemma the_config_simps [simp]:
  "the_config (s\<lparr>dm_conns := c\<rparr>) = the_config s" "the_config (s\<lparr>dm_lockers := l\<rparr>) = the_config s"
  "the_config (s\<lparr>dm_vfs := v\<rparr>) = the_config s"
  by (simp_all add: the_config_def split: option.split)

lemma clean_loop_keeps: "list_all (\<lambda>c. cn_state c \<noteq> FLOM_CONN_STATE_REMOVE) cs \<Longrightarrow> clean_loop i cs = ([], cs)"
  by (induction i cs rule: clean_loop.induct) (auto simp: clean_loop.simps list_all_length)

lemma setup_listening:
  assumes "listening s" "di_alloc inp"
  obtains s' where "accept_setup inp s = Next s'" "listening s'" "dm_lockers s' = dm_lockers s" "the_config s' = the_config s"
proof -
  let ?cs = "dm_conns s"
  have open_fds: "list_all (\<lambda>c. cn_sockfd c \<noteq> FLOM_NULL_FD) (cs_array ?cs)"
    and keep: "list_all (\<lambda>c. cn_state c \<noteq> FLOM_CONN_STATE_REMOVE) (cs_array ?cs)"
    using assms(1) by (auto simp: listening_def dm_array_def list_all_iff)
  have "flom_conns_clean ?cs = (FLOM_RC_OK, [], ?cs)"
    using clean_loop_keeps [OF keep, of 0] by (simp add: flom_conns_clean_def)
  then have "\<exists>p. accept_setup inp s = Next (s\<lparr>dm_conns := ?cs\<lparr>cs_poll_array := p\<rparr>\<rparr>)"
    using assms(2) set_events_all [OF open_fds, of POLLIN]
    by (auto simp: accept_setup_def flom_conns_get_fds_def flom_conns_set_events_def Let_def)
  then show thesis
    using that assms(1) by (auto simp: listening_def only_listeners_def dm_array_def)
qed

lemma chklockers_finished:
  assumes "dm_lockers s = lk # lks" "finished lk"
  shows "accept_chklockers inp again s = Next (True, flom_locker_array_del 0 s)"
proof -
  have "[0..<length (dm_lockers s)] = 0 # [1..<length (dm_lockers s)]" using assms(1) by (simp add: upt_rec)
  then show ?thesis
    using assms by (simp add: accept_chklockers_def flom_accept_loop_chklockers_def finished_def idle_locker_def Let_def)
qed

lemma quiet_turn:
  assumes "quiet inp" "listening s" "list_all finished (dm_lockers s)" "0 < cf_daemon_lifespan (the_config s)"
  shows "(\<exists>s'. accept_turn inp again s = Leave FLOM_RC_OK s' \<and> dm_lockers s = [] \<and> \<not> again) \<or>
    (\<exists>again' s'. accept_turn inp again s = Next (again', s') \<and> listening s' \<and> dm_lockers s' = tl (dm_lockers s) \<and>
       the_config s' = the_config s \<and> (if dm_lockers s = [] then again \<and> \<not> again' else again'))"
proof -
  obtain s1 where s1: "accept_setup inp s = Next s1" "listening s1" "dm_lockers s1 = dm_lockers s" "the_config s1 = the_config s"
    using setup_listening assms(1,2) by (metis quiet_def)
  have t: "accept_turn inp again s = accept_idle inp again s1"
    using assms(1) s1(1) by (simp add: accept_turn_def quiet_def)
  show ?thesis
  proof (cases "dm_lockers s")
    case Nil
    then show ?thesis
      using t s1 assms(4) by (cases again) (auto simp: accept_idle_def accept_poll_timeout_def accept_chklockers_def listening_def Let_def)
  next
    case (Cons lk lks)
    then have "accept_turn inp again s = Next (True, flom_locker_array_del 0 s1)"
      using t s1(3) chklockers_finished [of s1 lk lks] assms(3) by (simp add: accept_idle_def)
    then show ?thesis
      using s1 Cons by (auto simp: flom_locker_array_del_def listening_def only_listeners_def dm_array_def)
  qed
qed

text \<open>C25. An idle daemon ends: with a positive life span, when all its clients have gone and the threads of all
  its lockers have ended, the accept loop returns with success after at most two turns more than there are
  lockers to collect, if nobody connects in the meantime.\<close>

theorem idle_daemon_ends:
  assumes "list_all quiet inps" "length (dm_lockers s) + 2 \<le> length inps" "listening s" "list_all finished (dm_lockers s)"
    and "0 < cf_daemon_lifespan (the_config s)"
  shows "\<exists>s'. accept_run inps again s = Leave FLOM_RC_OK s' \<and> dm_lockers s' = [] \<and> only_listeners s'"
proof -
  have "\<exists>s'. accept_run inps again s = Leave FLOM_RC_OK s'"
    if "length (dm_lockers s) + (if dm_lockers s = [] \<and> \<not> again then 1 else 2) \<le> length inps"
    using that assms(1,3-5)
  proof (induction inps arbitrary: again s)
    case (Cons inp inps)
    have q: "quiet inp" "list_all quiet inps" using Cons.prems(2) by simp_all
    show ?case
      using quiet_turn [OF q(1) Cons.prems(3-5), of again]
    proof (elim disjE exE conjE)
      fix again' s' assume n: "accept_turn inp again s = Next (again', s')" "listening s'" "dm_lockers s' = tl (dm_lockers s)"
        "the_config s' = the_config s" "if dm_lockers s = [] then again \<and> \<not> again' else again'"
      have "list_all finished (dm_lockers s')" using Cons.prems(4) n(3) by (cases "dm_lockers s") simp_all
      moreover have "length (dm_lockers s') + (if dm_lockers s' = [] \<and> \<not> again' then 1 else 2) \<le> length inps"
        using Cons.prems(1) n(3,5) by (cases "dm_lockers s") auto
      ultimately show ?thesis using Cons.IH [of s' again'] n q(2) Cons.prems(5) by simp
    qed simp
  qed (simp split: if_splits)
  moreover have "length (dm_lockers s) + (if dm_lockers s = [] \<and> \<not> again then 1 else 2) \<le> length inps" using assms(2) by simp
  ultimately obtain s' where r: "accept_run inps again s = Leave FLOM_RC_OK s'" by blast
  have "dm_lockers s' = [] \<and> only_listeners s'" if "accept_run inps again s = Leave FLOM_RC_OK s'" for inps again s
    using that
  proof (induction inps arbitrary: again s)
    case (Cons inp inps)
    show ?case
    proof (cases "accept_turn inp again s")
      case (Leave rc t)
      then show ?thesis using Cons.prems turn_leaves_idle by auto
    qed (use Cons in \<open>auto split: prod.splits\<close>)
  qed simp
  with r show ?thesis by blast
qed

theorem idle_daemon_ends_witness:
  "\<exists>s'. accept_run (replicate 4 sample_input) False
     (sample_daemon [] (replicate 2 (sample_locker\<lparr>lk_read_pipe := FLOM_NULL_FD, lk_idle_periods := 2\<rparr>))) = Leave FLOM_RC_OK s' \<and>
     dm_lockers s' = []"
proof -
  let ?s = "sample_daemon [] (replicate 2 (sample_locker\<lparr>lk_read_pipe := FLOM_NULL_FD, lk_idle_periods := 2\<rparr>))"
  have "list_all quiet (replicate 4 sample_input)" "length (dm_lockers ?s) + 2 \<le> length (replicate 4 sample_input)"
    "listening ?s" "list_all finished (dm_lockers ?s)" "0 < cf_daemon_lifespan (the_config ?s)" by code_simp+
  from idle_daemon_ends [OF this, of False] show ?thesis by auto
qed

subsection \<open>Messages that stop the daemon\<close>

text \<open>C26. One client can stop the daemon for all: the reason code of the message of a client is the reason
  code of the loop.  A text that is not well formed and a message that is not a request end the accept loop
  with an error, and a lock request without the name of a resource makes the process read through a null
  pointer.  None of this needs a lock or an authentication.\<close>

theorem message_stops_daemon:
  assumes "0 < i" "i < length (dm_array s)" "di_revents inp i = \<lparr>re_in = True, re_err = False, re_hup = False\<rparr>"
    and "flom_conn_recv FLOM_NETWORK_WAIT_TIMEOUT
       ((di_recv inp i)\<lparr>rv_type := dm_types s (cn_uid (dm_array s ! i)), rv_tls := dm_tls s (cn_uid (dm_array s ! i))\<rparr>)
       FLOM_MSG_BUFFER_SIZE = (FLOM_RC_OK, n, buffer, rest)" "n \<noteq> 0"
    and "di_markup inp i buffer = (events, parsed)" "m = flom_msg_deserialize (di_unb64 inp) events (cn_msg (dm_array s ! i))"
  shows "(\<not> parsed \<longrightarrow> (\<exists>s'. accept_scan_fd inp i s = Leave FLOM_RC_G_MARKUP_PARSE_CONTEXT_PARSE_ERROR s')) \<and>
    (parsed \<and> msg_state m = FLOM_MSG_STATE_READY \<and> \<not> flom_msg_check_protocol m True \<longrightarrow>
       (\<exists>s'. accept_scan_fd inp i s = Leave FLOM_RC_PROTOCOL_ERROR s')) \<and>
    (parsed \<and> msg_state m = FLOM_MSG_STATE_READY \<and> msg_verb m = FLOM_MSG_VERB_LOCK \<and> msg_step m = FLOM_MSG_STEP_INCR \<and>
     l8_name (lock_8 m) = None \<and> \<not> cf_tls_check_peer_id (the_config s) \<longrightarrow> accept_scan_fd inp i s = Crash)"
proof -
  let ?c = "dm_array s ! i"
  define s1 where "s1 = upd_conn i (\<lambda>x. x\<lparr>cn_msg := m\<rparr>) s"
  define s2 where "s2 = dm_set_last_step (cn_uid ?c) (msg_step m) s1"
  have s2: "length (dm_array s2) = length (dm_array s)" "cn_msg (dm_array s2 ! i) = m" "the_config s2 = the_config s"
    using assms(2) by (simp_all add: s2_def s1_def dm_set_last_step_def upd_conn_def dm_array_def the_config_def split: option.split)
  have d: "flom_accept_loop_pollin inp i s =
      (if \<not> parsed then Ret (FLOM_RC_G_MARKUP_PARSE_CONTEXT_PARSE_ERROR, False, s1)
       else (case msg_state m of
               FLOM_MSG_STATE_INVALID \<Rightarrow> (case dm_close inp i s2 of (rc, s3) \<Rightarrow> Ret (rc, False, s3))
             | FLOM_MSG_STATE_READY \<Rightarrow> pollin_message inp i s2
             | _ \<Rightarrow> Ret (FLOM_RC_OK, False, s2)))"
    using assms(1,2,5) unfolding flom_accept_loop_pollin_def pollin_data_def Let_def assms(4,6) prod.case
      assms(7) [symmetric] s1_def [symmetric] s2_def [symmetric] by simp
  have protocol: "pollin_message inp i s2 = Ret (FLOM_RC_PROTOCOL_ERROR, False, s2)" if "\<not> flom_msg_check_protocol m True"
    using that s2(2) by (simp add: pollin_message_def Let_def)
  have crash: "pollin_message inp i s2 = Crashed"
    if "msg_verb m = FLOM_MSG_VERB_LOCK" "msg_step m = FLOM_MSG_STEP_INCR" "l8_name (lock_8 m) = None"
      "\<not> cf_tls_check_peer_id (the_config s)"
    using that s2 assms(2)
    by (simp add: pollin_message_def pollin_check_peer_def flom_accept_loop_transfer_def flom_msg_check_protocol_def Let_def)
  show ?thesis
    using assms(1,3) d protocol crash by (auto simp: accept_scan_fd_def Let_def)
qed

text \<open>A lock request that has no element for the resource.\<close>

definition nameless_request :: "markup_event list" where
  "nameless_request = [Start_element ''msg'' [(''level'', ''3''), (''verb'', ''1''), (''step'', ''8'')], End_element ''msg'']"

theorem message_stops_daemon_witness:
  "accept_scan_fd (sends 1 nameless_request) 1 (sample_daemon [flom_conn_init 2 11 True] []) = Crash"
proof -
  let ?s = "sample_daemon [flom_conn_init 2 11 True] []" and ?inp = "sends 1 nameless_request"
  let ?m = "flom_msg_deserialize (di_unb64 ?inp) nameless_request (cn_msg (dm_array ?s ! 1))"
  have h: "(0::nat) < 1" "1 < length (dm_array ?s)" "di_revents ?inp 1 = \<lparr>re_in = True, re_err = False, re_hup = False\<rparr>"
    "flom_conn_recv FLOM_NETWORK_WAIT_TIMEOUT
       ((di_recv ?inp 1)\<lparr>rv_type := dm_types ?s (cn_uid (dm_array ?s ! 1)), rv_tls := dm_tls ?s (cn_uid (dm_array ?s ! 1))\<rparr>)
       FLOM_MSG_BUFFER_SIZE = (FLOM_RC_OK, 9, ''<x></msg>'', [])" "(9::int) \<noteq> 0"
    "di_markup ?inp 1 ''<x></msg>'' = (nameless_request, True)"
    by code_simp+
  have "msg_state ?m = FLOM_MSG_STATE_READY" "msg_verb ?m = FLOM_MSG_VERB_LOCK" "msg_step ?m = FLOM_MSG_STEP_INCR"
    "l8_name (lock_8 ?m) = None" "\<not> cf_tls_check_peer_id (the_config ?s)" by code_simp+
  with message_stops_daemon [OF h refl] show ?thesis by blast
qed

end
