(* ===== verification/Locker_Turn.thy ===== *)
theory Locker_Turn
  imports Locker
begin

text \<open>
  What a turn of a locker thread (\<open>Locker\<close>) changes in the locker object, which the main thread reads,
  and in the set of its connections: the facts the composition of the threads rests on.
\<close>

section \<open>Operations that leave connections and locker object alone\<close>

text \<open>The connections keep their identifiers and places; of the locker object only the resource changes.\<close>

definition calm :: "locker_st \<Rightarrow> locker_st \<Rightarrow> bool" where
  "calm s s' \<longleftrightarrow> uids s' = uids s \<and>
     (\<exists>r. ls_locker s' = (ls_locker s)\<lparr>lk_resource := r\<rparr> \<and> (lk_resource (ls_locker s) \<noteq> None \<longrightarrow> r \<noteq> None))"

lemma calm_refl [simp, intro]: "calm s s"
  unfolding calm_def by (intro conjI exI [of _ "lk_resource (ls_locker s)"]) simp_all

lemma calm_trans [trans]: "calm s s1 \<Longrightarrow> calm s1 s2 \<Longrightarrow> calm s s2"
  by (auto simp: calm_def)

lemma calm_simps [simp]:
  "calm s (set_resource r w s)" "calm s (put_msg i m s)" "calm s (set_last_step c n s)" "calm s (s\<lparr>ls_world := w\<rparr>)"
  "calm s (s\<lparr>ls_deadline := d\<rparr>)"
proof -
  show "calm s (set_resource r w s)" by (auto simp: calm_def set_resource_def uids_def)
  show "calm s (put_msg i m s)"
    unfolding calm_def uids_keys put_msg_keys
    by (intro conjI exI [of _ "lk_resource (ls_locker s)"]) (simp_all add: put_msg_def)
  show "calm s (set_last_step c n s)" "calm s (s\<lparr>ls_world := w\<rparr>)" "calm s (s\<lparr>ls_deadline := d\<rparr>)"
    unfolding calm_def
    by (intro conjI exI [of _ "lk_resource (ls_locker s)"]; simp add: set_last_step_def uids_def)+
qed

lemma calm_close:
  assumes "locker_close inp i s = (rc, s')"
  shows "calm s s'"
proof -
  have "map cn_uid (cs_array cs') = map cn_uid (cs_array cs)" if "flom_conns_close_fd f cs i = (r, cs')" for f cs r cs'
    using that terminate_uid [of f "cs_array cs ! i"]
    by (auto simp: flom_conns_close_fd_def map_update list_update_same_conv split: prod.splits if_splits)
  then have u: "uids s' = uids s" and l: "ls_locker s' = ls_locker s"
    using assms by (auto simp: locker_close_def uids_def split: prod.splits)
  show ?thesis unfolding calm_def u l by (intro conjI exI [of _ "lk_resource (ls_locker s)"]) simp_all
qed

lemma calm_clean: "locker_clean ck e c s = (rc, s') \<Longrightarrow> calm s s'"
  by (auto simp: locker_clean_def split: prod.splits)

lemma calm_timeout: "locker_timeout ck e s = (rc, s') \<Longrightarrow> calm s s'"
  by (auto simp: locker_timeout_def split: prod.splits)

lemma calm_inmsg: "locker_inmsg ck e c m s = (rc, m', s') \<Longrightarrow> calm s s'"
  by (auto simp: locker_inmsg_def split: prod.splits)

lemma calm_drop:
  assumes "locker_drop ck inp i s = (rc, s')"
  shows "calm s s'"
proof -
  obtain rc1 s1 where c: "locker_close inp i s = (rc1, s1)" by force
  then have "s' = s1 \<or> (\<exists>e c r. locker_clean ck e c s1 = (r, s'))"
    using assms by (auto simp: locker_drop_def split: if_splits)
  then show ?thesis using calm_trans [OF calm_close [OF c]] calm_close [OF c] calm_clean by blast
qed

lemma calm_process:
  assumes "locker_process ck e j s = (rc, s')"
  shows "calm s s'"
proof -
  let ?m = "cn_msg (cs_array (ls_conns s) ! j)" and ?c = "cn_uid (cs_array (ls_conns s) ! j)"
  obtain rc1 m1 s1 where i: "locker_inmsg ck e ?c ?m s = (rc1, m1, s1)" by (metis prod_cases3)
  obtain rc2 w where sd: "flom_conn_send e ?c m1 (ls_world s1) = (rc2, w)" by force
  let ?s2 = "set_last_step ?c (msg_step m1) (s1\<lparr>ls_world := w\<rparr>)"
  have "calm s1 s' \<or> s' = s"
    using assms i sd calm_trans [of s1 "s1\<lparr>ls_world := w\<rparr>" s'] calm_trans [OF calm_trans [of s1 "s1\<lparr>ls_world := w\<rparr>" ?s2], of s']
    unfolding locker_process_def Let_def
    by (auto split: if_splits sum.splits prod.splits)
  then show ?thesis using calm_inmsg [OF i] calm_trans by blast
qed

lemma calm_data:
  assumes "locker_data ck inp i s = (rc, refresh, s')"
  shows "calm s s'"
proof -
  let ?conn = "cs_array (ls_conns s) ! i"
  obtain rc0 n buffer rest where rv: "flom_conn_recv FLOM_NETWORK_WAIT_TIMEOUT (li_recv inp i) FLOM_MSG_BUFFER_SIZE = (rc0, n, buffer, rest)"
    by (metis prod_cases4)
  obtain events parsed where mk: "li_markup inp i buffer = (events, parsed)" by force
  define m where "m = flom_msg_deserialize (li_unb64 inp) events (cn_msg ?conn)"
  define s2 where "s2 = set_last_step (cn_uid ?conn) (msg_step m) (put_msg i m s)"
  have c2: "calm s s2" unfolding s2_def by (rule calm_trans [of _ "put_msg i m s"]) simp_all
  have p1: "calm s t" if "locker_process ck e i s2 = (r, t)" for e r t
    using calm_trans [OF c2 calm_process [OF that]] .
  have p2: "calm s t" if "locker_close inp i s2 = (r, t)" for r t
    using calm_trans [OF c2 calm_close [OF that]] .
  have p3: "calm s t'" if "locker_close inp i s2 = (r, t)" "locker_process ck e i t = (r', t')" for e r t r' t'
    using calm_trans [OF p2 [OF that(1)] calm_process [OF that(2)]] .
  have p4: "calm s t'" if "locker_close inp i s = (r, t)" "locker_clean ck e c t = (r', t')" for e c r t r' t'
    using calm_trans [OF calm_close [OF that(1)] calm_clean [OF that(2)]] .
  show ?thesis
    using assms
    unfolding locker_data_def Let_def rv mk prod.case m_def [symmetric] s2_def [symmetric]
    by (auto split: if_splits prod.splits intro: p1 p2 p3 p4 calm_close)
qed

section \<open>A turn\<close>

text \<open>A new client: its connection is the last one, and the sequence number of its token is noted.\<close>

lemma new_client_effect:
  assumes "locker_new_client ck inp s = (rc, refresh, s')"
  shows "(li_token inp = None \<or> li_new_conn inp = None) \<and> calm s s' \<or>
    (\<exists>t c r. li_token inp = Some t \<and> li_new_conn inp = Some c \<and> uids s' = uids s @ [cn_uid c] \<and>
       ls_locker s' = (ls_locker s)\<lparr>lk_read_sequence := tk_sequence t, lk_resource := r\<rparr> \<and>
       (lk_resource (ls_locker s) \<noteq> None \<longrightarrow> r \<noteq> None))"
proof (cases "li_token inp = None \<or> li_new_conn inp = None")
  case True
  have "calm s (s\<lparr>ls_conns := (ls_conns s)\<lparr>cs_domain := d\<rparr>\<rparr>)" for d
    unfolding calm_def by (intro conjI exI [of _ "lk_resource (ls_locker s)"]) (simp_all add: uids_def)
  then show ?thesis
    using assms True by (auto simp: locker_new_client_def Let_def split: option.splits)
next
  case False
  then obtain t c where t: "li_token inp = Some t" "li_new_conn inp = Some c" by auto
  define s2 where "s2 = s\<lparr>ls_conns := flom_conns_import ((ls_conns s)\<lparr>cs_domain := tk_domain t\<rparr>) c,
      ls_locker := (ls_locker s)\<lparr>lk_read_sequence := tk_sequence t\<rparr>\<rparr>"
  have "locker_process ck (li_env inp 0) (length (cs_array (ls_conns s))) s2 = (rc, s')"
    using assms t unfolding locker_new_client_def s2_def by (simp add: Let_def split: prod.splits)
  from calm_process [OF this] show ?thesis
    using t by (auto simp: calm_def s2_def uids_def flom_conns_import_def)
qed

text \<open>
  What a descriptor, and then a turn, may do to the locker object and to the identifiers of the
  connections.  \<open>reads\<close> tells that the pipe is read, which is the first thing in a scan.
\<close>

definition reads :: "locker_input \<Rightarrow> bool" where
  "reads inp \<longleftrightarrow> li_ready inp > 0 \<and> re_in (li_revents inp 0) \<and> \<not> re_err (li_revents inp 0) \<and>
     li_token inp \<noteq> None \<and> li_new_conn inp \<noteq> None"

definition kept_fields :: "flom_locker \<Rightarrow> flom_locker \<Rightarrow> bool" where
  "kept_fields lk lk' \<longleftrightarrow> lk_uid lk' = lk_uid lk \<and> lk_write_pipe lk' = lk_write_pipe lk \<and>
     lk_write_sequence lk' = lk_write_sequence lk \<and> (lk_resource lk \<noteq> None \<longrightarrow> lk_resource lk' \<noteq> None)"

text \<open>Everything but the pipe.\<close>

definition scan_calm :: "locker_input \<Rightarrow> locker_st \<Rightarrow> locker_st \<Rightarrow> bool" where
  "scan_calm inp s s' \<longleftrightarrow> uids s' = uids s \<and> kept_fields (ls_locker s) (ls_locker s') \<and>
     lk_read_sequence (ls_locker s') = lk_read_sequence (ls_locker s) \<and>
     lk_idle_periods (ls_locker s') \<in> {0, lk_idle_periods (ls_locker s)} \<and>
     (lk_read_pipe (ls_locker s') = lk_read_pipe (ls_locker s) \<or>
      lk_read_pipe (ls_locker s') = FLOM_NULL_FD \<and> re_hup (li_revents inp 0))"

lemma scan_calm_trans: "scan_calm inp s s1 \<Longrightarrow> scan_calm inp s1 s2 \<Longrightarrow> scan_calm inp s s2"
  by (auto simp: scan_calm_def kept_fields_def)

lemma calm_scan_calm: "calm s s' \<Longrightarrow> scan_calm inp s s'"
  by (auto simp: calm_def scan_calm_def kept_fields_def)

text \<open>A new client has been taken.\<close>

definition took_client :: "locker_input \<Rightarrow> locker_st \<Rightarrow> locker_st \<Rightarrow> bool" where
  "took_client inp s s' \<longleftrightarrow> (\<exists>t c. li_token inp = Some t \<and> li_new_conn inp = Some c \<and> uids s' = uids s @ [cn_uid c] \<and>
     kept_fields (ls_locker s) (ls_locker s') \<and> lk_read_sequence (ls_locker s') = tk_sequence t \<and>
     lk_idle_periods (ls_locker s') = 0 \<and>
     (lk_read_pipe (ls_locker s') = lk_read_pipe (ls_locker s) \<or>
      lk_read_pipe (ls_locker s') = FLOM_NULL_FD \<and> re_hup (li_revents inp 0)))"

lemma took_client_trans: "took_client inp s s1 \<Longrightarrow> scan_calm inp s1 s2 \<Longrightarrow> took_client inp s s2"
  by (fastforce simp: took_client_def scan_calm_def kept_fields_def)

lemma pollin_effect:
  assumes "flom_locker_loop_pollin ck inp i s = (rc, refresh, s')"
  shows "scan_calm inp s s' \<and> (i = 0 \<longrightarrow> i < length (cs_array (ls_conns s)) \<longrightarrow> li_token inp = None \<or> li_new_conn inp = None) \<or>
    i = 0 \<and> cs_array (ls_conns s) \<noteq> [] \<and> took_client inp s s'"
proof (cases "i < length (cs_array (ls_conns s))")
  case False
  then show ?thesis
    using assms calm_scan_calm by (auto simp: flom_locker_loop_pollin_def flom_conns_get_conn_def)
next
  case True
  define s1 where "s1 = s\<lparr>ls_locker := (ls_locker s)\<lparr>lk_idle_periods := 0\<rparr>\<rparr>"
  have s1: "scan_calm inp s s1" "lk_idle_periods (ls_locker s1) = 0" "uids s1 = uids s"
    by (simp_all add: s1_def scan_calm_def kept_fields_def uids_def)
  have p: "(if i = 0 then locker_new_client ck inp s1 else locker_data ck inp i s1) = (rc, refresh, s')"
    using assms True by (cases "i = 0") (simp_all add: flom_locker_loop_pollin_def flom_conns_get_conn_def s1_def Let_def)
  show ?thesis
  proof (cases "i = 0")
    case False
    then have "calm s1 s'" using p calm_data [of ck inp i s1] by simp
    from scan_calm_trans [OF s1(1) calm_scan_calm [OF this]] show ?thesis using False by simp
  next
    case zero: True
    then have "locker_new_client ck inp s1 = (rc, refresh, s')" using p by simp
    from new_client_effect [OF this] show ?thesis
    proof (elim disjE)
      assume n: "(li_token inp = None \<or> li_new_conn inp = None) \<and> calm s1 s'"
      from scan_calm_trans [OF s1(1) calm_scan_calm [OF conjunct2 [OF n]]] n show ?thesis by simp
    next
      assume "\<exists>t c r. li_token inp = Some t \<and> li_new_conn inp = Some c \<and> uids s' = uids s1 @ [cn_uid c] \<and>
        ls_locker s' = (ls_locker s1)\<lparr>lk_read_sequence := tk_sequence t, lk_resource := r\<rparr> \<and>
        (lk_resource (ls_locker s1) \<noteq> None \<longrightarrow> r \<noteq> None)"
      then have "took_client inp s s'" by (auto simp: took_client_def kept_fields_def s1_def uids_def)
      then show ?thesis using zero True by auto
    qed
  qed
qed

text \<open>A descriptor: \<open>Inl\<close> ends the thread.\<close>

definition fd_effect :: "locker_input \<Rightarrow> nat \<Rightarrow> locker_st \<Rightarrow> locker_st \<Rightarrow> bool" where
  "fd_effect inp i s s' \<longleftrightarrow>
     (if i = 0 \<and> re_in (li_revents inp 0) \<and> \<not> re_err (li_revents inp 0) \<and> li_token inp \<noteq> None \<and> li_new_conn inp \<noteq> None \<and>
         cs_array (ls_conns s) \<noteq> []
      then took_client inp s s' else scan_calm inp s s')"

definition end_state :: "rc \<times> locker_st + bool \<times> locker_st \<Rightarrow> locker_st" where
  "end_state x = (case x of Inl y \<Rightarrow> snd y | Inr y \<Rightarrow> snd y)"

lemma end_state_simps [simp]: "end_state (Inl y) = snd y" "end_state (Inr z) = snd z"
  by (simp_all add: end_state_def)

lemma end_state_break [simp]: "end_state (scan_break x) = snd x"
  by (auto simp: end_state_def scan_break_def split: prod.splits)

lemma scan_fd_effect: "fd_effect inp i s (end_state (locker_scan_fd ck inp i s))"
proof (cases "re_err (li_revents inp i)")
  case True
  have "scan_calm inp s (snd (locker_drop ck inp i s))"
    by (rule calm_scan_calm, rule calm_drop) (rule prod.collapse [symmetric])
  then show ?thesis using True by (auto simp: fd_effect_def locker_scan_fd_def Let_def)
next
  case False
  obtain rc refresh s1 where p: "(if re_in (li_revents inp i) then flom_locker_loop_pollin ck inp i s else (FLOM_RC_OK, False, s))
      = (rc, refresh, s1)" by (metis prod_cases3)
  have e1: "fd_effect inp i s s1"
    using p pollin_effect [of ck inp i s rc refresh s1] calm_scan_calm [OF calm_refl] False
    by (auto simp: fd_effect_def took_client_def split: if_splits)
  have comp: "fd_effect inp i s t" if "scan_calm inp s1 t" for t
    using e1 that scan_calm_trans took_client_trans by (auto simp: fd_effect_def split: if_splits)
  have drop: "scan_calm inp s1 (snd (locker_drop ck inp i s1))"
    by (rule calm_scan_calm, rule calm_drop) (rule prod.collapse [symmetric])
  have hup: "scan_calm inp s1 (t\<lparr>ls_locker := (ls_locker t)\<lparr>lk_read_pipe := FLOM_NULL_FD\<rparr>\<rparr>)" "scan_calm inp s1 t"
    if "locker_close inp i s1 = (r, t)" "re_hup (li_revents inp i)" "i = 0" for r t
    using calm_scan_calm [OF calm_close [OF that(1)], of inp] that(2,3)
    by (auto simp: scan_calm_def kept_fields_def uids_def)
  show ?thesis
    using False comp [OF drop] comp [OF hup(1)] comp [OF hup(2)] e1
    unfolding locker_scan_fd_def Let_def p prod.case
    by (auto split: prod.splits)
qed

definition scan_end :: "rc \<times> locker_st + locker_st \<Rightarrow> locker_st" where
  "scan_end x = (case x of Inl y \<Rightarrow> snd y | Inr y \<Rightarrow> y)"

lemma scan_tail_effect: "0 \<notin> set is \<Longrightarrow> scan_calm inp s (scan_end (locker_scan ck inp is s))"
proof (induction "is" arbitrary: s)
  case Nil
  then show ?case using calm_scan_calm [OF calm_refl] by (simp add: scan_end_def)
next
  case (Cons i "is")
  define x where "x = locker_scan_fd ck inp i s"
  have fd: "scan_calm inp s (end_state x)"
    using scan_fd_effect [of inp i s ck] Cons.prems by (auto simp: fd_effect_def x_def)
  show ?case
  proof (cases x)
    case (Inr y)
    obtain stop s1 where y: "y = (stop, s1)" by force
    have "scan_calm inp s s1" using fd Inr y by (simp add: end_state_def)
    moreover have "scan_calm inp s1 (scan_end (locker_scan ck inp is s1))" using Cons.IH Cons.prems by simp
    ultimately have "scan_calm inp s (scan_end (locker_scan ck inp is s1))" by (rule scan_calm_trans)
    then show ?thesis using Inr y \<open>scan_calm inp s s1\<close> by (simp add: x_def scan_end_def)
  qed (use fd in \<open>simp add: x_def end_state_def scan_end_def\<close>)
qed

lemma scan_effect:
  assumes "cs_array (ls_conns s) \<noteq> []"
  shows "fd_effect inp 0 s (scan_end (locker_scan ck inp [0..<length (cs_array (ls_conns s))] s))"
proof -
  define x where "x = locker_scan_fd ck inp 0 s"
  have u: "[0..<length (cs_array (ls_conns s))] = 0 # [1..<length (cs_array (ls_conns s))]" using assms by (simp add: upt_rec)
  have fd: "fd_effect inp 0 s (end_state x)" using scan_fd_effect [of inp 0 s ck] by (simp add: x_def)
  show ?thesis
  proof (cases x)
    case (Inr y)
    obtain stop s1 where y: "y = (stop, s1)" by force
    let ?t = "scan_end (locker_scan ck inp [1..<length (cs_array (ls_conns s))] s1)"
    have e: "fd_effect inp 0 s s1" using fd Inr y by (simp add: end_state_def)
    have "scan_calm inp s1 ?t" by (rule scan_tail_effect) simp
    then have "fd_effect inp 0 s ?t" using e scan_calm_trans took_client_trans by (auto simp: fd_effect_def split: if_splits)
    then show ?thesis using Inr y e by (simp add: u x_def scan_end_def)
  qed (use fd in \<open>simp add: u x_def end_state_def scan_end_def\<close>)
qed

text \<open>The beginning of a turn drops connections; a turn without a ready descriptor counts idle periods.\<close>

lemma setup_effect:
  assumes "locker_setup inp s = x" "s' = scan_end x"
  shows "ls_locker s' = ls_locker s \<and> mset (uids s') \<subseteq># mset (uids s)"
proof -
  obtain del cs1 where c: "flom_conns_clean (ls_conns s) = (FLOM_RC_OK, del, cs1)"
    by (cases "clean_loop 0 (cs_array (ls_conns s))") (simp add: flom_conns_clean_def)
  then have l: "clean_loop 0 (cs_array (ls_conns s)) = (del, cs_array cs1)"
    by (auto simp: flom_conns_clean_def split: prod.splits)
  have "mset (map cn_uid (cs_array cs1)) \<subseteq># mset (uids s)"
    using arg_cong [OF clean_loop_spec [OF l, THEN conjunct1], of "image_mset cn_uid"] by (simp add: uids_def)
  moreover have "ls_locker s' = ls_locker s \<and> cs_array (ls_conns s') = cs_array cs1"
    using assms c
    by (auto simp: locker_setup_def scan_end_def flom_conns_get_fds_def flom_conns_set_events_def Let_def
        split: prod.splits option.splits if_splits)
  ultimately show ?thesis by (simp add: uids_def)
qed

lemma idle_effect:
  assumes "locker_idle ck inp s = x" "s' = scan_end x"
  shows "uids s' = uids s \<and> kept_fields (ls_locker s) (ls_locker s') \<and> lk_read_sequence (ls_locker s') = lk_read_sequence (ls_locker s) \<and>
    lk_read_pipe (ls_locker s') = lk_read_pipe (ls_locker s) \<and>
    (lk_idle_periods (ls_locker s') = lk_idle_periods (ls_locker s) \<or> length (uids s) = 1)"
proof -
  obtain rc s1 where t: "locker_timeout ck (li_env inp 0) s = (rc, s1)" by force
  have "calm s s1" by (rule calm_timeout [OF t])
  then show ?thesis
    using assms t
    by (auto simp: locker_idle_def scan_end_def calm_def kept_fields_def uids_def split: if_splits dest: map_eq_imp_length_eq)
qed

text \<open>A whole turn, however it ends.\<close>

lemma turn_fields:
  assumes "locker_turn ck inp s = x" "s' = scan_end x"
  shows "kept_fields (ls_locker s) (ls_locker s')"
proof (cases "locker_setup inp s")
  case (Inl y)
  then have "ls_locker s' = ls_locker s" using assms setup_effect [OF Inl refl] by (auto simp: locker_turn_def scan_end_def)
  then show ?thesis by (simp add: kept_fields_def)
next
  case (Inr s1)
  have l: "ls_locker s1 = ls_locker s" using setup_effect [OF Inr refl] by (simp add: scan_end_def)
  have ne: "cs_array (ls_conns s1) \<noteq> []"
    using Inr by (auto simp: locker_setup_def flom_conns_get_fds_def flom_conns_set_events_def Let_def
        split: prod.splits option.splits if_splits)
  have "kept_fields (ls_locker s1) (ls_locker s')"
    using assms Inr scan_effect [OF ne, of inp ck] idle_effect [of ck inp s1 x s']
    by (auto simp: locker_turn_def fd_effect_def took_client_def scan_calm_def kept_fields_def scan_end_def split: if_splits)
  then show ?thesis using l by simp
qed

section \<open>The name and the kind of the resource\<close>

interpretation simple_scan_name: grant_scan
  "simple_can_waiting e" "simple_grant_waiting e" "\<lambda>s. sr_name (fst s) = n" "\<lambda>c. True"
  for e n
  by unfold_locales (simp add: simple_grant_waiting_result)

lemma simple_waitings_name: "sr_name (fst (snd (flom_resource_simple_waitings e r w))) = sr_name r"
  using simple_scan_name.loop_inv [of "(r, w)" "sr_name r" "sr_waitings r" e]
  by (auto simp: flom_resource_simple_waitings_def split: prod.splits)

lemma simple_clean_name: "sr_name (fst (snd (flom_resource_simple_clean e r c w))) = sr_name r"
  using simple_waitings_name [of e "r\<lparr>sr_holders := conn_remove (sr_holders r) c\<rparr>" w]
  by (auto simp: flom_resource_simple_clean_def split: option.splits prod.splits)

lemma simple_inmsg_name: "sr_name (fst (snd (flom_resource_simple_inmsg e r c m w))) = sr_name r"
  using simple_clean_name [of e r c w]
  by (auto simp: flom_resource_simple_inmsg_def flom_resource_simple_lock_def Let_def split: option.splits prod.splits)

fun simple_named :: "string option \<Rightarrow> flom_resource \<Rightarrow> bool" where
  "simple_named n (Simple r) = (sr_name r = n)"
| "simple_named n r = False"

fun is_simple :: "flom_resource \<Rightarrow> bool" where
  "is_simple (Simple r) = True"
| "is_simple r = False"

interpretation locker_named: locker_resource "simple_named n" "\<lambda>m. True" for n
proof
  show "simple_named n (fst (snd (flom_resource_inmsg ck e r c m w)))" if "simple_named n r" for r ck e c m w
    using that by (cases r) (simp_all add: on_inmsg_rsrc simple_inmsg_name)
  show "simple_named n (fst (snd (flom_resource_clean ck e r c w)))" if "simple_named n r" for r ck e c w
    using that by (cases r) (simp_all add: on_clean_rsrc simple_clean_name)
  show "simple_named n (fst (snd (flom_resource_timeout ck e r w)))" if "simple_named n r" for r ck e w
    using that by (cases r) simp_all
  show "simple_named n (put_deadline d r) = simple_named n r" for d r by (cases r) simp_all
qed

interpretation locker_other: locker_resource "\<lambda>r. \<not> is_simple r" "\<lambda>m. True"
proof
  show "\<not> is_simple (fst (snd (flom_resource_inmsg ck e r c m w)))" if "\<not> is_simple r" for r ck e c m w
    using that by (cases r) (simp_all add: on_inmsg_rsrc)
  show "\<not> is_simple (fst (snd (flom_resource_clean ck e r c w)))" if "\<not> is_simple r" for r ck e c w
    using that by (cases r) (simp_all add: on_clean_rsrc)
  show "\<not> is_simple (fst (snd (flom_resource_timeout ck e r w)))" if "\<not> is_simple r" for r ck e w
    using that by (cases r) (simp_all add: on_clean_rsrc)
  show "(\<not> is_simple (put_deadline d r)) = (\<not> is_simple r)" for d r by (cases r) simp_all
qed

lemma run_single: "locker_turn ck inp s = Inr s' \<Longrightarrow> locker_run ck [inp] s = Inr s'"
  by simp

lemma run_all_True: "run_all (messages_ok (\<lambda>m. True)) ck inps s"
proof -
  have "scan_all (messages_ok (\<lambda>m. True)) ck inp is t" for inp "is" t
    by (induction "is" arbitrary: t) (auto simp: messages_ok_def split: sum.splits)
  then show ?thesis by (induction inps arbitrary: s) (auto split: sum.splits)
qed

lemma turn_named: "locker_turn ck inp s = Inr s' \<Longrightarrow> simple_named n (ls_resource s) \<Longrightarrow> simple_named n (ls_resource s')"
  by (rule locker_named.run_P [OF run_single _ run_all_True])

lemma turn_other: "locker_turn ck inp s = Inr s' \<Longrightarrow> \<not> is_simple (ls_resource s) \<Longrightarrow> \<not> is_simple (ls_resource s')"
  by (rule locker_other.run_P [OF run_single _ run_all_True])

section \<open>Clients that ask for one lock at a time\<close>

text \<open>The condition on the clients of a thread, without the pipe: what comes from the pipe is the business of the
  main thread.\<close>

definition client_asks :: "locker_input \<Rightarrow> nat \<Rightarrow> locker_st \<Rightarrow> bool" where
  "client_asks inp i s \<longleftrightarrow> (if i \<noteq> 0 \<and> re_in (li_revents inp i) then pollin_conforms inp i s else True)"

lemma tail_conforms:
  assumes "scan_all client_asks ck inp is s" "0 \<notin> set is" "uids s ! 0 = 0"
  shows "scan_all client_conforms ck inp is s"
  using assms
proof (induction "is" arbitrary: s)
  case (Cons i "is")
  have "client_conforms inp i s" using Cons.prems by (simp add: client_asks_def client_conforms_def split: if_splits)
  moreover have "scan_all client_conforms ck inp is s1" if "locker_scan_fd ck inp i s = Inr (False, s1)" for s1
  proof -
    have "scan_calm inp s s1" using scan_fd_effect [of inp i s ck] that Cons.prems(2) by (auto simp: fd_effect_def)
    then have "uids s1 ! 0 = 0" using Cons.prems(3) by (simp add: scan_calm_def)
    then show ?thesis using Cons.IH Cons.prems(1,2) that by simp
  qed
  ultimately show ?case by (auto split: sum.splits)
qed simp

lemma scan_conforms:
  assumes "scan_all client_asks ck inp [0..<n] s" "n = length (uids s)" "uids s \<noteq> []" "uids s ! 0 = 0"
    and "\<forall>c. li_new_conn inp = Some c \<longrightarrow> cn_uid c \<notin> set (uids s) \<and> cn_state c \<noteq> FLOM_CONN_STATE_REMOVE"
  shows "scan_all client_conforms ck inp [0..<n] s"
proof -
  have u: "[0..<n] = 0 # [1..<n]" using assms(2,3) by (simp add: upt_rec)
  have "client_conforms inp 0 s"
    using assms(4,5) by (simp add: client_conforms_def pollin_conforms_def split: option.splits)
  moreover have "scan_all client_conforms ck inp [1..<n] s1" if "locker_scan_fd ck inp 0 s = Inr (False, s1)" for s1
  proof (rule tail_conforms)
    show "scan_all client_asks ck inp [1..<n] s1" using assms(1) that by (simp add: u)
    have "uids s1 = uids s \<or> (\<exists>c. uids s1 = uids s @ [c])"
      using scan_fd_effect [of inp 0 s ck] that by (auto simp: fd_effect_def scan_calm_def took_client_def split: if_splits)
    then show "uids s1 ! 0 = 0" using assms(3,4) by (auto simp: nth_append)
  qed simp
  ultimately show ?thesis by (auto simp: u split: sum.splits)
qed

text \<open>The pipe is the first connection when the descriptors are polled.\<close>

definition pipe_kept :: "locker_input \<Rightarrow> locker_st \<Rightarrow> bool" where
  "pipe_kept inp s \<longleftrightarrow> (case locker_setup inp s of Inl x \<Rightarrow> True | Inr s1 \<Rightarrow> uids s1 ! 0 = 0)"

lemma setup_nonempty: "locker_setup inp s = Inr s1 \<Longrightarrow> cs_array (ls_conns s1) \<noteq> []"
  by (auto simp: locker_setup_def flom_conns_get_fds_def flom_conns_set_events_def Let_def
      split: prod.splits option.splits if_splits)

lemma turn_conforms:
  assumes "run_all client_asks ck [inp] s" "pipe_kept inp s"
    and "\<forall>c. li_new_conn inp = Some c \<longrightarrow> cn_uid c \<notin> set (uids s) \<and> cn_state c \<noteq> FLOM_CONN_STATE_REMOVE"
  shows "run_all client_conforms ck [inp] s"
proof (cases "locker_setup inp s")
  case (Inr s1)
  have "mset (uids s1) \<subseteq># mset (uids s)" using setup_effect [OF Inr refl] by (simp add: scan_end_def)
  then have sub: "set (uids s1) \<subseteq> set (uids s)" by (metis set_mset_mono set_mset_mset)
  have "uids s1 \<noteq> []" "length (cs_array (ls_conns s1)) = length (uids s1)"
    using setup_nonempty [OF Inr] by (simp_all add: uids_def)
  moreover have "uids s1 ! 0 = 0" using assms(2) Inr by (simp add: pipe_kept_def)
  moreover have "\<forall>c. li_new_conn inp = Some c \<longrightarrow> cn_uid c \<notin> set (uids s1) \<and> cn_state c \<noteq> FLOM_CONN_STATE_REMOVE"
    using assms(3) sub by blast
  ultimately show ?thesis
    using assms(1) Inr scan_conforms [of ck inp "length (cs_array (ls_conns s1))" s1] by (auto split: sum.splits)
qed (simp split: sum.splits add: locker_turn_def)

lemma turn_served: "locker_turn ck inp s = Inr s' \<Longrightarrow> served_by (live s) s \<Longrightarrow> run_all client_conforms ck [inp] s \<Longrightarrow> served_by (live s') s'"
  by (rule run_served [OF run_single])

text \<open>The effect of a turn that does not end the thread.\<close>

lemma turn_effect:
  assumes "locker_turn ck inp s = Inr s'" "pipe_kept inp s"
  shows "(if reads inp then
       (\<exists>t c. li_token inp = Some t \<and> li_new_conn inp = Some c \<and> lk_read_sequence (ls_locker s') = tk_sequence t \<and>
          mset (uids s') \<subseteq># add_mset (cn_uid c) (mset (uids s)) \<and> lk_idle_periods (ls_locker s') = 0)
     else lk_read_sequence (ls_locker s') = lk_read_sequence (ls_locker s) \<and> mset (uids s') \<subseteq># mset (uids s) \<and>
          (lk_idle_periods (ls_locker s') \<in> {0, lk_idle_periods (ls_locker s)} \<or> uids s' = [0])) \<and>
    (lk_read_pipe (ls_locker s') = lk_read_pipe (ls_locker s) \<or>
     lk_read_pipe (ls_locker s') = FLOM_NULL_FD \<and> re_hup (li_revents inp 0) \<and> li_ready inp > 0)"
proof -
  obtain s1 where s1: "locker_setup inp s = Inr s1" using assms(1) by (auto simp: locker_turn_def split: sum.splits)
  have e1: "ls_locker s1 = ls_locker s" "mset (uids s1) \<subseteq># mset (uids s)"
    using setup_effect [OF s1 refl] by (simp_all add: scan_end_def)
  have z: "uids s1 ! 0 = 0" using assms(2) s1 by (simp add: pipe_kept_def)
  note ne = setup_nonempty [OF s1]
  show ?thesis
  proof (cases "li_ready inp = 0")
    case True
    then have i: "locker_idle ck inp s1 = Inr s'" using assms(1) s1 by (simp add: locker_turn_def)
    have "uids s' = [0]" if "length (uids s1) = 1"
      using that z idle_effect [OF i refl] by (cases "uids s1") (auto simp: scan_end_def)
    then show ?thesis
      using idle_effect [OF i refl] True e1 by (auto simp: scan_end_def reads_def)
  next
    case False
    then have sc: "locker_scan ck inp [0..<length (cs_array (ls_conns s1))] s1 = Inr s'" "li_ready inp > 0"
      using assms(1) s1 by (auto simp: locker_turn_def split: if_splits)
    have "fd_effect inp 0 s1 s'" using scan_effect [OF ne, of inp ck] sc by (simp add: scan_end_def)
    then show ?thesis
      using e1 sc(2) ne by (auto simp: fd_effect_def reads_def scan_calm_def took_client_def split: if_splits)
  qed
qed

end
