(* ===== verification/System.thy ===== *)
theory System
  imports Daemon Locker_Turn
begin

text \<open>
  The daemon as a whole: the main thread of \<open>Daemon\<close> and the locker threads of \<open>Locker\<close>, which share the
  locker objects and are connected by the pipes.  A run is a list of events: a turn of the accept
  loop, the start of a locker thread, a turn of the loop of one locker.  Turns are atomic: a locker
  object is read and written by two threads without a lock, and the order of the accesses within
  two turns is not modelled.
\<close>

section \<open>The composition\<close>

text \<open>A thread has its own connections and deadline; the locker object is in the array of the main thread.\<close>

datatype thread = Waiting | Running flom_conns timeval | Ended

record system =
  sy_daemon :: daemon_st
  sy_again :: bool
  sy_threads :: "nat \<Rightarrow> thread"

datatype event =
    Main daemon_input
  | Start_thread nat timeval
  | Turn nat clock locker_input

text \<open>What a locker reads from its pipe is what the main thread has written.\<close>

definition with_pipe :: "pipe_item list \<Rightarrow> locker_input \<Rightarrow> locker_input" where
  "with_pipe p inp = inp\<lparr>
     li_token := (case p of Token t # _ \<Rightarrow> Some t | _ \<Rightarrow> None),
     li_new_conn := (case p of Token t # Client c # _ \<Rightarrow> Some c | _ \<Rightarrow> None)\<rparr>"

definition pipe_left :: "pipe_item list \<Rightarrow> locker_input \<Rightarrow> pipe_item list" where
  "pipe_left p inp = (if reads (with_pipe p inp) then drop 2 p else p)"

definition thread_st :: "daemon_st \<Rightarrow> nat \<Rightarrow> flom_conns \<Rightarrow> timeval \<Rightarrow> locker_st" where
  "thread_st d k cs dl = \<lparr> ls_locker = dm_lockers d ! k, ls_conns = cs, ls_world = dm_world d, ls_deadline = dl \<rparr>"

definition put_locker :: "nat \<Rightarrow> locker_st \<Rightarrow> daemon_st \<Rightarrow> daemon_st" where
  "put_locker k st d = d\<lparr>dm_lockers := (dm_lockers d)[k := ls_locker st], dm_world := ls_world st\<rparr>"

definition locker_id :: "daemon_st \<Rightarrow> nat \<Rightarrow> nat" where
  "locker_id d k = lk_uid (dm_lockers d ! k)"

fun sys_step :: "event \<Rightarrow> system \<Rightarrow> system option" where
  "sys_step (Main inp) s =
     (case accept_turn inp (sy_again s) (sy_daemon s) of
        Next (again, d) \<Rightarrow> Some (s\<lparr>sy_daemon := d, sy_again := again\<rparr>)
      | _ \<Rightarrow> None)"
| "sys_step (Start_thread k now) s =
     (let d = sy_daemon s; u = locker_id d k in
      if k < length (dm_lockers d) \<and> sy_threads s u = Waiting then
        (let st = locker_start k (dm_lockers d ! k) now (dm_world d) in
         Some (s\<lparr>sy_daemon := put_locker k st d, sy_threads := (sy_threads s)(u := Running (ls_conns st) (ls_deadline st))\<rparr>))
      else None)"
| "sys_step (Turn k ck inp) s =
     (let d = sy_daemon s; u = locker_id d k; p = dm_pipes d u in
      if k < length (dm_lockers d) then
        (case sy_threads s u of
           Running cs dl \<Rightarrow>
             (case locker_turn ck (with_pipe p inp) (thread_st d k cs dl) of
                Inr st \<Rightarrow>
                  Some (s\<lparr>sy_daemon := (put_locker k st d)\<lparr>dm_pipes := (dm_pipes d)(u := pipe_left p inp)\<rparr>,
                          sy_threads := (sy_threads s)(u := Running (ls_conns st) (ls_deadline st))\<rparr>)
              | Inl (rc, st) \<Rightarrow> Some (s\<lparr>sy_daemon := put_locker k st d, sy_threads := (sy_threads s)(u := Ended)\<rparr>))
         | _ \<Rightarrow> None)
      else None)"

fun sys_run :: "event list \<Rightarrow> system \<Rightarrow> system option" where
  "sys_run [] s = Some s"
| "sys_run (ev # evs) s = (case sys_step ev s of None \<Rightarrow> None | Some s' \<Rightarrow> sys_run evs s')"

definition sys_start :: "daemon_st \<Rightarrow> system" where
  "sys_start d = \<lparr> sy_daemon = d, sy_again = False, sy_threads = (\<lambda>u. Waiting) \<rparr>"

text \<open>The locks that are held under a name of a simple resource, by all threads that run.\<close>

definition thread_holders :: "string \<Rightarrow> thread \<Rightarrow> flom_locker \<Rightarrow> flom_rsrc_conn_lock list" where
  "thread_holders n t lk =
     (case (t, lk_resource lk) of
        (Running cs dl, Some (Simple r)) \<Rightarrow> if sr_name r = Some n then sr_holders r else []
      | _ \<Rightarrow> [])"

definition sys_holders :: "string \<Rightarrow> system \<Rightarrow> flom_rsrc_conn_lock list" where
  "sys_holders n s = concat (map (\<lambda>lk. thread_holders n (sy_threads s (lk_uid lk)) lk) (dm_lockers (sy_daemon s)))"

section \<open>The environment and the clients\<close>

text \<open>
  What the kernel guarantees: a pipe has file descriptors and a capacity, \<^verbatim>\<open>poll\<close> reports data only when there are
  some and a hang up only when the other end is closed.
\<close>

definition PIPE_CAPACITY :: int where "PIPE_CAPACITY = 65536"

definition pipes_fit :: "daemon_st \<Rightarrow> bool" where
  "pipes_fit d \<longleftrightarrow> list_all (\<lambda>u. int (length (dm_pipes d u)) \<le> PIPE_CAPACITY) [0..<Suc (dm_last_uid d)]"

definition poll_true :: "pipe_item list \<Rightarrow> locker_input \<Rightarrow> locker_st \<Rightarrow> bool" where
  "poll_true p inp st \<longleftrightarrow>
     (case locker_setup inp st of
        Inl x \<Rightarrow> True
      | Inr s1 \<Rightarrow>
          if uids s1 ! 0 = 0 then
            \<not> re_err (li_revents inp 0) \<and> (if re_in (li_revents inp 0) then p \<noteq> [] else True) \<and>
            (if re_hup (li_revents inp 0) then lk_write_pipe (ls_locker st) = FLOM_NULL_FD else True)
          else True)"

text \<open>A condition on the turns of the threads that run.\<close>

fun on_turn :: "(pipe_item list \<Rightarrow> clock \<Rightarrow> locker_input \<Rightarrow> locker_st \<Rightarrow> bool) \<Rightarrow> event \<Rightarrow> system \<Rightarrow> bool" where
  "on_turn Q (Turn k ck inp) s =
     (let d = sy_daemon s; u = locker_id d k; p = dm_pipes d u in
      case sy_threads s u of
        Running cs dl \<Rightarrow> Q p ck (with_pipe p inp) (thread_st d k cs dl)
      | _ \<Rightarrow> True)"
| "on_turn Q _ s = True"

fun kernel_ok :: "event \<Rightarrow> system \<Rightarrow> system \<Rightarrow> bool" where
  "kernel_ok (Main inp) s s' = (pipe_ok inp \<and> pipes_fit (sy_daemon s'))"
| "kernel_ok ev s s' = on_turn (\<lambda>p ck inp st. poll_true p inp st) ev s"

text \<open>
  What is asked of the clients: one lock at a time in one of the six modes (\<open>client_asks\<close>,
  \<open>simple_ok_msg\<close>); and of the handling of new ones: that no failure makes a locker lose the pipe
  of the main thread.
\<close>

definition clients_ok :: "event \<Rightarrow> system \<Rightarrow> system \<Rightarrow> bool" where
  "clients_ok ev s s' = on_turn (\<lambda>p ck inp st. run_all client_asks ck [inp] st \<and> run_all (messages_ok simple_ok_msg) ck [inp] st) ev s"

definition pipes_kept :: "event \<Rightarrow> system \<Rightarrow> system \<Rightarrow> bool" where
  "pipes_kept ev s s' = on_turn (\<lambda>p ck inp st. pipe_kept inp st) ev s"

fun run_ok :: "(event \<Rightarrow> system \<Rightarrow> system \<Rightarrow> bool) \<Rightarrow> event list \<Rightarrow> system \<Rightarrow> bool" where
  "run_ok Q [] s = True"
| "run_ok Q (ev # evs) s = (case sys_step ev s of None \<Rightarrow> True | Some s' \<Rightarrow> Q ev s s' \<and> run_ok Q evs s')"

section \<open>The invariant\<close>

text \<open>The sequence numbers of the tokens that have not been read continue the last one read.\<close>

fun seq_chain :: "int \<Rightarrow> int list \<Rightarrow> int \<Rightarrow> bool" where
  "seq_chain r [] w = (r = w)"
| "seq_chain r (t # ts) w = (t = to_gint (r + 1) \<and> seq_chain t ts w)"

fun tokens :: "pipe_item list \<Rightarrow> int list" where
  "tokens [] = []"
| "tokens (Token t # xs) = tk_sequence t # tokens xs"
| "tokens (Client c # xs) = tokens xs"

fun paired :: "pipe_item list \<Rightarrow> bool" where
  "paired [] = True"
| "paired (Token t # Client c # xs) = (cn_uid c \<noteq> 0 \<and> cn_state c = FLOM_CONN_STATE_LOCKER \<and> paired xs)"
| "paired _ = False"

definition pipe_uids :: "pipe_item list \<Rightarrow> conn list" where
  "pipe_uids p = map cn_uid (clients_of p)"

definition thread_uids :: "thread \<Rightarrow> conn list" where
  "thread_uids t = (case t of Running cs dl \<Rightarrow> map cn_uid (cs_array cs) | _ \<Rightarrow> [])"

lemma tokens_append [simp]: "tokens (xs @ ys) = tokens xs @ tokens ys"
  by (induction xs rule: tokens.induct) simp_all

lemma pipe_uids_append [simp]: "pipe_uids (xs @ ys) = pipe_uids xs @ pipe_uids ys"
  by (simp add: pipe_uids_def)

lemma paired_append [simp]: "paired xs \<Longrightarrow> paired (xs @ ys) = paired ys"
  by (induction xs rule: paired.induct) simp_all

lemma paired_length: "paired xs \<Longrightarrow> length xs = 2 * length (tokens xs)"
  by (induction xs rule: paired.induct) simp_all

lemma seq_chain_append: "seq_chain r ts w \<Longrightarrow> seq_chain r (ts @ [to_gint (w + 1)]) (to_gint (w + 1))"
  by (induction ts arbitrary: r) simp_all

lemma to_gint_add: "to_gint (to_gint a + b) = to_gint (a + b)"
proof -
  have "(to_gint a + b + 2147483648) mod 4294967296 = ((a + 2147483648) mod 4294967296 + b) mod 4294967296"
    by (simp add: to_gint_def)
  also have "\<dots> = (a + b + 2147483648) mod 4294967296" by (simp add: mod_simps algebra_simps)
  finally show ?thesis by (simp add: to_gint_def)
qed

lemma seq_chain_end: "seq_chain r ts w \<Longrightarrow> ts \<noteq> [] \<Longrightarrow> w = to_gint (r + int (length ts))"
proof (induction ts arbitrary: r)
  case (Cons t ts)
  then have t: "t = to_gint (r + 1)" "seq_chain t ts w" by auto
  show ?case
  proof (cases "ts = []")
    case False
    from Cons.IH [OF t(2) this] t(1) show ?thesis
      using to_gint_add [of "r + 1" "int (length ts)"] by (simp add: algebra_simps)
  qed (use t in simp)
qed simp

text \<open>When the numbers agree and the pipe is not overfull, everything has been read.\<close>

lemma seq_chain_read:
  assumes "seq_chain r ts r" "int (length ts) \<le> PIPE_CAPACITY"
  shows "ts = []"
proof (rule ccontr)
  assume ne: "ts \<noteq> []"
  let ?n = "int (length ts)"
  have n: "0 < ?n" "?n < 4294967296" using ne assms(2) by (simp_all add: PIPE_CAPACITY_def)
  have r: "r = (r + ?n + 2147483648) mod 4294967296 - 2147483648"
    using seq_chain_end [OF assms(1) ne] by (simp add: to_gint_def)
  then have "(r + 2147483648) mod 4294967296 = (r + ?n + 2147483648) mod 4294967296" 
    by (metis diff_add_cancel mod_mod_trivial)
  then have "4294967296 dvd ?n" by (simp add: mod_eq_dvd_iff algebra_simps)
  then show False using n by (meson zdvd_not_zless)
qed

definition thread_live :: "thread \<Rightarrow> conn set" where
  "thread_live t = (case t of
       Running cs dl \<Rightarrow> cn_uid ` {c \<in> set (cs_array cs). cn_state c \<noteq> FLOM_CONN_STATE_REMOVE \<and> cn_uid c \<noteq> 0}
     | _ \<Rightarrow> {})"

text \<open>
  A locker of a simple resource and its thread: the pipe holds pairs of a token and a client, numbered in order; a client
  is in one place; a locker that is terminating or idle has no clients; the lock records are of clients of the
  thread, and the locks that are held are compatible.
\<close>

definition lk_inv :: "thread \<Rightarrow> daemon_st \<Rightarrow> flom_locker \<Rightarrow> flom_resource_simple \<Rightarrow> bool" where
  "lk_inv t d lk r \<longleftrightarrow>
     paired (dm_pipes d (lk_uid lk)) \<and>
     seq_chain (lk_read_sequence lk) (tokens (dm_pipes d (lk_uid lk))) (lk_write_sequence lk) \<and>
     distinct (thread_uids t @ pipe_uids (dm_pipes d (lk_uid lk))) \<and>
     (\<forall>c \<in> set (thread_uids t @ pipe_uids (dm_pipes d (lk_uid lk))). c \<le> dm_last_uid d \<and> c \<notin> set (dm_uids d)) \<and>
     (lk_read_pipe lk = FLOM_NULL_FD \<longrightarrow> lk_write_pipe lk = FLOM_NULL_FD) \<and>
     (lk_write_pipe lk = FLOM_NULL_FD \<longrightarrow> dm_pipes d (lk_uid lk) = [] \<and> set (thread_uids t) \<subseteq> {0}) \<and>
     (0 < lk_idle_periods lk \<longrightarrow> set (thread_uids t) \<subseteq> {0}) \<and>
     simple_inv r \<and> rsrc.served (thread_live t) (Simple r)"

definition serving :: "(nat \<Rightarrow> thread) \<Rightarrow> string option \<Rightarrow> flom_locker \<Rightarrow> bool" where
  "serving T n lk \<longleftrightarrow> T (lk_uid lk) \<noteq> Ended \<and> locker_open lk \<and> (\<exists>r. lk_resource lk = Some (Simple r) \<and> sr_name r = n)"

definition lockers_inv :: "(nat \<Rightarrow> thread) \<Rightarrow> daemon_st \<Rightarrow> bool" where
  "lockers_inv T d \<longleftrightarrow>
     distinct (map lk_uid (dm_lockers d)) \<and>
     (\<forall>lk \<in> set (dm_lockers d). lk_uid lk \<le> dm_last_uid d \<and> lk_resource lk \<noteq> None \<and>
        (T (lk_uid lk) \<noteq> Ended \<longrightarrow> (\<forall>r. lk_resource lk = Some (Simple r) \<longrightarrow> lk_inv (T (lk_uid lk)) d lk r)))"

definition unique_inv :: "(nat \<Rightarrow> thread) \<Rightarrow> daemon_st \<Rightarrow> bool" where
  "unique_inv T d \<longleftrightarrow> (\<forall>n. \<forall>lk \<in> set (dm_lockers d). \<forall>lk' \<in> set (dm_lockers d).
     serving T n lk \<longrightarrow> serving T n lk' \<longrightarrow> lk_uid lk = lk_uid lk')"

definition ids_inv :: "(nat \<Rightarrow> thread) \<Rightarrow> daemon_st \<Rightarrow> bool" where
  "ids_inv T d \<longleftrightarrow> (\<forall>u > dm_last_uid d. dm_pipes d u = [] \<and> T u = Waiting) \<and>
     distinct (dm_uids d) \<and> (\<forall>c \<in> set (dm_uids d). 0 < c \<and> c \<le> dm_last_uid d)"

definition sys_inv :: "(nat \<Rightarrow> thread) \<Rightarrow> daemon_st \<Rightarrow> bool" where
  "sys_inv T d \<longleftrightarrow> lockers_inv T d \<and> unique_inv T d \<and> ids_inv T d"

lemma sys_invD:
  assumes "sys_inv T d" "lk \<in> set (dm_lockers d)"
  shows "lk_uid lk \<le> dm_last_uid d" "lk_resource lk \<noteq> None"
    and "T (lk_uid lk) \<noteq> Ended \<Longrightarrow> lk_resource lk = Some (Simple r) \<Longrightarrow> lk_inv (T (lk_uid lk)) d lk r"
  using assms by (auto simp: sys_inv_def lockers_inv_def)

text \<open>The invariant of a locker does not see what happens to other lockers and to connections that are not its own.\<close>

lemma lk_inv_mono:
  assumes "lk_inv t d lk r" "dm_pipes d' (lk_uid lk) = dm_pipes d (lk_uid lk)" "dm_last_uid d \<le> dm_last_uid d'"
    and "\<forall>c \<in> set (dm_uids d'). c \<in> set (dm_uids d) \<or> dm_last_uid d < c"
  shows "lk_inv t d' lk r"
  using assms unfolding lk_inv_def by (auto dest!: bspec)

lemma serving_mono:
  assumes "serving T n lk'" "T' (lk_uid lk) = T (lk_uid lk')" "locker_open lk' \<Longrightarrow> locker_open lk" "lk_resource lk' = lk_resource lk"
  shows "serving T' n lk"
  using assms by (auto simp: serving_def)

lemma unique_inv_sub: "unique_inv T d \<Longrightarrow> set (dm_lockers d') \<subseteq> set (dm_lockers d) \<Longrightarrow> unique_inv T d'"
  unfolding unique_inv_def by blast

subsection \<open>Steps of the main thread\<close>

lemma inv_Own:
  assumes "sys_inv T d" "dm_lockers d' = dm_lockers d" "dm_pipes d' = dm_pipes d" "dm_last_uid d \<le> dm_last_uid d'"
    and "mset (dm_uids d') \<subseteq># mset (dm_uids d @ new)" "distinct new" "\<forall>u \<in> set new. dm_last_uid d < u \<and> u \<le> dm_last_uid d'"
  shows "sys_inv T d'"
proof -
  have sub: "set (dm_uids d') \<subseteq> set (dm_uids d) \<union> set new" using assms(5) by (metis set_append set_mset_mono set_mset_mset)
  have dist: "distinct (dm_uids d @ new)" "\<forall>c \<in> set (dm_uids d). 0 < c \<and> c \<le> dm_last_uid d"
    using assms(1,6,7) by (force simp: sys_inv_def ids_inv_def)+
  then have "distinct (dm_uids d')" using assms(5) distinct_submset by blast
  moreover have "0 < c \<and> c \<le> dm_last_uid d'" if "c \<in> set (dm_uids d')" for c
  proof (cases "c \<in> set new")
    case True
    then show ?thesis using assms(7) by fastforce
  next
    case False
    then have "c \<in> set (dm_uids d)" using that sub by blast
    then show ?thesis using dist(2) assms(4) by fastforce
  qed
  ultimately have "ids_inv T d'" using assms(1,3,4) by (simp add: sys_inv_def ids_inv_def)
  moreover have "lk_uid lk \<le> dm_last_uid d' \<and> lk_resource lk \<noteq> None \<and>
      (T (lk_uid lk) \<noteq> Ended \<longrightarrow> (\<forall>r. lk_resource lk = Some (Simple r) \<longrightarrow> lk_inv (T (lk_uid lk)) d' lk r))"
    if "lk \<in> set (dm_lockers d)" for lk
  proof -
    have fr: "\<forall>c \<in> set (dm_uids d'). c \<in> set (dm_uids d) \<or> dm_last_uid d < c" using sub assms(7) by blast
    have "lk_inv t d' lk r" if "lk_inv t d lk r" for t r
      by (rule lk_inv_mono [OF that _ assms(4) fr]) (simp add: assms(3))
    then show ?thesis using sys_invD [OF assms(1) that] assms(4) by auto
  qed
  then have "lockers_inv T d'" using assms(1,2) by (simp add: sys_inv_def lockers_inv_def)
  moreover have "unique_inv T d'" by (rule unique_inv_sub [of _ d]) (use assms(1,2) in \<open>simp_all add: sys_inv_def\<close>)
  ultimately show ?thesis by (simp add: sys_inv_def)
qed

text \<open>A step on one locker, its pipe and its thread.\<close>

lemma inv_update:
  assumes "sys_inv T d" "k < length (dm_lockers d)" "u = lk_uid (dm_lockers d ! k)" "lk_uid lk' = u"
    and "dm_lockers d' = (dm_lockers d)[k := lk']" "lk_resource lk' \<noteq> None"
    and "\<forall>v. v \<noteq> u \<longrightarrow> T' v = T v \<and> dm_pipes d' v = dm_pipes d v"
    and "dm_last_uid d' = dm_last_uid d" "mset (dm_uids d') \<subseteq># mset (dm_uids d)"
    and "\<forall>r. T' u \<noteq> Ended \<longrightarrow> lk_resource lk' = Some (Simple r) \<longrightarrow> lk_inv (T' u) d' lk' r"
    and "\<forall>n. serving T' n lk' \<longrightarrow> serving T n (dm_lockers d ! k)"
  shows "sys_inv T' d'"
proof -
  have map_uid: "map lk_uid (dm_lockers d') = map lk_uid (dm_lockers d)"
    using assms(2-5) by (simp add: map_update list_update_same_conv)
  have dist: "distinct (map lk_uid (dm_lockers d))" using assms(1) by (simp add: sys_inv_def lockers_inv_def)
  have other: "lk_uid (dm_lockers d ! i) \<noteq> u" if "i < length (dm_lockers d)" "i \<noteq> k" for i
    using nth_eq_iff_index_eq [OF dist, of i k] that assms(2,3) by simp
  have sub: "set (dm_uids d') \<subseteq> set (dm_uids d)" using assms(9) by (metis set_mset_mono set_mset_mset)
  have dist': "distinct (dm_uids d')" using assms(1,9) distinct_submset by (auto simp: sys_inv_def ids_inv_def)
  have u: "u \<le> dm_last_uid d" using sys_invD(1) [OF assms(1) nth_mem [OF assms(2)]] assms(3) by simp
  have ids: "ids_inv T' d'" using assms(1,7,8) u sub dist' by (auto simp: sys_inv_def ids_inv_def)
  have lks: "lk_uid lk \<le> dm_last_uid d' \<and> lk_resource lk \<noteq> None \<and>
      (T' (lk_uid lk) \<noteq> Ended \<longrightarrow> (\<forall>r. lk_resource lk = Some (Simple r) \<longrightarrow> lk_inv (T' (lk_uid lk)) d' lk r))"
    if "lk = dm_lockers d' ! i" "i < length (dm_lockers d)" for i lk
  proof (cases "i = k")
    case True
    then show ?thesis using assms(2,4-6,8,10) that u by auto
  next
    case False
    then have lk: "lk = dm_lockers d ! i" "lk_uid lk \<noteq> u" using that assms(5) other by auto
    have p: "dm_pipes d' (lk_uid lk) = dm_pipes d (lk_uid lk)" "T' (lk_uid lk) = T (lk_uid lk)" using assms(7) lk(2) by simp_all
    have "lk_inv t d' lk r" if "lk_inv t d lk r" for t r
      by (rule lk_inv_mono [OF that p(1)]) (use assms(8) sub in auto)
    then show ?thesis using sys_invD [OF assms(1), of lk] lk(1) p(2) that(2) assms(8) by auto
  qed
  have len: "length (dm_lockers d') = length (dm_lockers d)" by (simp add: assms(5))
  have "lockers_inv T' d'"
    unfolding lockers_inv_def map_uid using dist lks by (metis in_set_conv_nth len)
  moreover have "\<exists>lk0 \<in> set (dm_lockers d). lk_uid lk0 = lk_uid lk \<and> serving T n lk0"
    if "serving T' n lk" and lk: "lk \<in> set (dm_lockers d')" for n lk
  proof -
    obtain i where i: "lk = dm_lockers d' ! i" "i < length (dm_lockers d)" using lk len by (metis in_set_conv_nth)
    have "lk_uid (dm_lockers d ! i) = lk_uid lk" using map_uid i len by (metis nth_map)
    moreover have "serving T n (dm_lockers d ! i)"
    proof (cases "i = k")
      case True
      then show ?thesis using that(1) i assms(2,5,11) by simp
    next
      case False
      then show ?thesis using that(1) i assms(5,7) other by (simp add: serving_def)
    qed
    ultimately show ?thesis using i(2) by auto
  qed
  then have "unique_inv T' d'" using assms(1) unfolding sys_inv_def unique_inv_def by metis
  ultimately show ?thesis using ids by (simp add: sys_inv_def)
qed

lemma inv_Hand_over:
  assumes "sys_inv T d" "k < length (dm_lockers d)" "lk = dm_lockers d ! k" "locker_open lk"
    and "cn_state c = FLOM_CONN_STATE_LOCKER" "tk_sequence t = to_gint (lk_write_sequence lk + 1)"
    and "dm_lockers d' = (dm_lockers d)[k := lk\<lparr>lk_write_sequence := to_gint (lk_write_sequence lk + 1)\<rparr>]"
    and "dm_pipes d' = (dm_pipes d)(lk_uid lk := dm_pipes d (lk_uid lk) @ [Token t, Client c])"
    and "mset (dm_uids d) = add_mset (cn_uid c) (mset (dm_uids d'))" "dm_last_uid d' = dm_last_uid d"
  shows "sys_inv T d'"
proof (rule inv_update [OF assms(1,2) _ _ assms(7)])
  let ?lk = "lk\<lparr>lk_write_sequence := to_gint (lk_write_sequence lk + 1)\<rparr>" and ?p = "dm_pipes d (lk_uid lk)"
  have dist: "distinct (dm_uids d)" "\<forall>c \<in> set (dm_uids d). 0 < c \<and> c \<le> dm_last_uid d"
    using assms(1) by (auto simp: sys_inv_def ids_inv_def)
  have set: "set (dm_uids d) = insert (cn_uid c) (set (dm_uids d'))" using assms(9) by (metis set_mset_add_mset_insert set_mset_mset)
  have "distinct (cn_uid c # dm_uids d')" using dist(1) assms(9) by (metis mset.simps(2) mset_eq_imp_distinct_iff)
  then have c: "cn_uid c \<notin> set (dm_uids d')" "0 < cn_uid c" "cn_uid c \<le> dm_last_uid d" using dist(2) set by simp_all
  show "\<forall>r. T (lk_uid lk) \<noteq> Ended \<longrightarrow> lk_resource ?lk = Some (Simple r) \<longrightarrow> lk_inv (T (lk_uid lk)) d' ?lk r"
  proof (intro allI impI)
    fix r assume "T (lk_uid lk) \<noteq> Ended" "lk_resource ?lk = Some (Simple r)"
    then have i: "lk_inv (T (lk_uid lk)) d lk r" using sys_invD(3) [OF assms(1) nth_mem [OF assms(2)]] assms(3) by simp
    have q: "paired ?p" "seq_chain (lk_read_sequence lk) (tokens ?p) (lk_write_sequence lk)"
      "distinct (thread_uids (T (lk_uid lk)) @ pipe_uids ?p)"
      "\<forall>c \<in> set (thread_uids (T (lk_uid lk)) @ pipe_uids ?p). c \<le> dm_last_uid d \<and> c \<notin> set (dm_uids d)"
      using i unfolding lk_inv_def by simp_all
    have "seq_chain (lk_read_sequence lk) (tokens ?p @ [tk_sequence t]) (to_gint (lk_write_sequence lk + 1))"
      unfolding assms(6) by (rule seq_chain_append [OF q(2)])
    moreover have "cn_uid c \<notin> set (thread_uids (T (lk_uid lk)) @ pipe_uids ?p)" using q(4) set by blast
    moreover have "pipe_uids [Token t, Client c] = [cn_uid c]" by (simp add: pipe_uids_def)
    ultimately show "lk_inv (T (lk_uid lk)) d' ?lk r"
      using i q c set assms(4,5,8,10) unfolding lk_inv_def locker_open_def by simp
  qed
qed (use assms sys_invD(2) [OF assms(1) nth_mem [OF assms(2)]] in \<open>auto simp: serving_def locker_open_def\<close>)

lemma init_simple:
  assumes "flom_resource_init fails t name = (FLOM_RC_OK, Some (Simple r))"
  shows "r = \<lparr> sr_name = name, sr_holders = [], sr_waitings = [] \<rparr>"
  using assms by (cases t) (auto simp: flom_resource_simple_init_def map_prod_def split: if_splits prod.splits)

lemma inv_Start:
  assumes "sys_inv T d" "\<forall>lk \<in> set (dm_lockers d). locker_open lk \<longrightarrow> \<not> locker_manages (Some name) lk"
    and "new_locker name (Suc (dm_last_uid d)) lk" "dm_last_uid d' = Suc (dm_last_uid d)"
    and "dm_lockers d' = dm_lockers d @ [lk]" "dm_pipes d' = dm_pipes d" "dm_uids d' = dm_uids d"
  shows "sys_inv T d'"
proof -
  let ?u = "Suc (dm_last_uid d)"
  have u: "lk_uid lk = ?u" "T ?u = Waiting" "dm_pipes d ?u = []"
    using assms(1,3) by (simp_all add: new_locker_def sys_inv_def ids_inv_def)
  obtain fails where r: "flom_resource_init fails (flom_rsrc_get_type name) (Some name) = (FLOM_RC_OK, lk_resource lk)"
    "flom_rsrc_get_type name \<noteq> FLOM_RSRC_TYPE_NULL"
    using assms(3) by (auto simp: new_locker_def)
  then have some: "lk_resource lk \<noteq> None" by (cases "flom_rsrc_get_type name") (auto simp: map_prod_def split: prod.splits dest: sym)
  have new: "lk_inv Waiting d' lk r'" "sr_name r' = Some name" if "lk_resource lk = Some (Simple r')" for r'
    using init_simple [of fails "flom_rsrc_get_type name" "Some name" r'] r that u assms(3,6)
    by (simp_all add: lk_inv_def new_locker_def locker_open_def thread_uids_def thread_live_def pipe_uids_def
        simple_inv_def simple_holders_ok_def rsrc.served_def)
  have old: "lk_inv t d' lk0 r0" if "lk_inv t d lk0 r0" for t lk0 r0
    by (rule lk_inv_mono [OF that]) (simp_all add: assms)
  have dist: "\<forall>lk0 \<in> set (dm_lockers d). lk_uid lk0 \<noteq> ?u" using sys_invD(1) [OF assms(1)] by force
  have lks: "lockers_inv T d'"
    using assms(1,4,5) dist old new(1) some u unfolding sys_inv_def lockers_inv_def by auto
  have "\<not> serving T n lk0" if "lk0 \<in> set (dm_lockers d)" "serving T n lk" for n lk0
  proof -
    have "n = Some name" using that(2) new(2) by (auto simp: serving_def)
    then show ?thesis using assms(2) that(1) by (auto simp: serving_def locker_manages_def)
  qed
  moreover have "unique_inv T d" "set (dm_lockers d') = insert lk (set (dm_lockers d))" using assms(1,5) by (simp_all add: sys_inv_def)
  ultimately have "unique_inv T d'" unfolding unique_inv_def by (metis insert_iff)
  moreover have "ids_inv T d'" using assms(1,4,6,7) by (auto simp: sys_inv_def ids_inv_def)
  ultimately show ?thesis using lks by (simp add: sys_inv_def)
qed

lemma inv_Close_pipe:
  assumes "sys_inv T d" "pipes_fit d" "k < length (dm_lockers d)" "idle_locker (dm_lockers d ! k)"
    and "dm_lockers d' = (dm_lockers d)[k := (dm_lockers d ! k)\<lparr>lk_write_pipe := FLOM_NULL_FD\<rparr>]"
    and "dm_pipes d' = dm_pipes d" "dm_uids d' = dm_uids d" "dm_last_uid d' = dm_last_uid d"
  shows "sys_inv T d'"
proof (rule inv_update [OF assms(1,3) refl _ assms(5)])
  let ?lk = "dm_lockers d ! k"
  let ?u = "lk_uid ?lk"
  note mem = nth_mem [OF assms(3)]
  show "\<forall>r. T ?u \<noteq> Ended \<longrightarrow> lk_resource (?lk\<lparr>lk_write_pipe := FLOM_NULL_FD\<rparr>) = Some (Simple r) \<longrightarrow>
      lk_inv (T ?u) d' (?lk\<lparr>lk_write_pipe := FLOM_NULL_FD\<rparr>) r"
  proof (intro allI impI)
    fix r assume "T ?u \<noteq> Ended" "lk_resource (?lk\<lparr>lk_write_pipe := FLOM_NULL_FD\<rparr>) = Some (Simple r)"
    then have i: "lk_inv (T ?u) d ?lk r" using sys_invD(3) [OF assms(1) mem] by simp
    have q: "paired (dm_pipes d ?u)" "seq_chain (lk_read_sequence ?lk) (tokens (dm_pipes d ?u)) (lk_read_sequence ?lk)"
      "set (thread_uids (T ?u)) \<subseteq> {0}"
      using i assms(4) by (simp_all add: lk_inv_def idle_locker_def FLOM_LOCKER_MAX_IDLE_PERIODS_def)
    have "int (length (dm_pipes d ?u)) \<le> PIPE_CAPACITY"
      using assms(2) sys_invD(1) [OF assms(1) mem] by (auto simp: pipes_fit_def list_all_iff)
    then have "int (length (tokens (dm_pipes d ?u))) \<le> PIPE_CAPACITY" using paired_length [OF q(1)] by simp
    then have "tokens (dm_pipes d ?u) = []" by (rule seq_chain_read [OF q(2)])
    then have "dm_pipes d ?u = []" using paired_length [OF q(1)] by simp
    then show "lk_inv (T ?u) d' (?lk\<lparr>lk_write_pipe := FLOM_NULL_FD\<rparr>) r"
      using i q(3) assms(6-8) by (simp add: lk_inv_def)
  qed
qed (use assms sys_invD(2) [OF assms(1) nth_mem [OF assms(3)]] in \<open>auto simp: serving_def locker_open_def\<close>)

lemma inv_Drop:
  assumes "sys_inv T d" "dm_lockers d' = take k (dm_lockers d) @ drop (Suc k) (dm_lockers d)"
    and "dm_pipes d' = dm_pipes d" "dm_uids d' = dm_uids d" "dm_last_uid d' = dm_last_uid d"
  shows "sys_inv T d'"
proof -
  have sub: "set (dm_lockers d') \<subseteq> set (dm_lockers d)"
    unfolding assms(2) using set_take_subset set_drop_subset by fastforce
  have "distinct (map lk_uid (dm_lockers d))" using assms(1) by (simp add: sys_inv_def lockers_inv_def)
  then have "distinct (map lk_uid (take k (dm_lockers d) @ drop k (dm_lockers d)))" by simp
  then have dist: "distinct (map lk_uid (dm_lockers d'))"
    unfolding assms(2) by (cases "drop k (dm_lockers d)") (auto simp: drop_Suc tl_drop [symmetric])
  have "lk_inv t d' lk r" if "lk_inv t d lk r" for t lk r
    by (rule lk_inv_mono [OF that]) (simp_all add: assms)
  then have "lockers_inv T d'" "ids_inv T d'"
    using assms(1,3-5) sub dist unfolding sys_inv_def lockers_inv_def ids_inv_def by (auto simp: subset_iff)
  moreover have "unique_inv T d'" by (rule unique_inv_sub [OF _ sub]) (use assms(1) in \<open>simp add: sys_inv_def\<close>)
  ultimately show ?thesis by (simp add: sys_inv_def)
qed

lemma main_step_grows: "main_step d d' \<Longrightarrow> dm_last_uid d \<le> dm_last_uid d' \<and> (\<forall>u. length (dm_pipes d u) \<le> length (dm_pipes d' u))"
  by (erule main_step.cases) auto

lemma pipes_fit_iff: "pipes_fit d \<longleftrightarrow> (\<forall>u \<le> dm_last_uid d. int (length (dm_pipes d u)) \<le> PIPE_CAPACITY)"
  by (simp only: pipes_fit_def list_all_iff set_upt atLeast0LessThan lessThan_Suc_atMost) auto

lemma main_step_fit: "main_step d d' \<Longrightarrow> pipes_fit d' \<Longrightarrow> pipes_fit d"
  unfolding pipes_fit_iff using main_step_grows by (meson of_nat_le_iff order_trans)

lemma inv_main_step:
  assumes "main_step d d'" "sys_inv T d" "pipes_fit d"
  shows "sys_inv T d'"
  using assms(1)
proof cases
  case (Own new)
  then show ?thesis using inv_Own [OF assms(2)] by blast
next
  case (Hand_over k lk c t)
  then show ?thesis using inv_Hand_over [OF assms(2)] by blast
next
  case (Start name lk)
  then show ?thesis using inv_Start [OF assms(2)] by blast
next
  case (Close_pipe k)
  then show ?thesis using inv_Close_pipe [OF assms(2,3)] by blast
next
  case (Drop k)
  then show ?thesis using inv_Drop [OF assms(2)] by blast
qed

lemma inv_main:
  assumes "main_step\<^sup>*\<^sup>* d d'" "sys_inv T d" "pipes_fit d'"
  shows "sys_inv T d'"
proof -
  from assms(1) have "pipes_fit d' \<longrightarrow> sys_inv T d'"
    by (induction rule: rtranclp_induct) (use assms(2) main_step_fit inv_main_step in blast)+
  then show ?thesis using assms(3) by simp
qed

subsection \<open>Steps of the locker threads\<close>

lemma pipe_uids_pos: "paired p \<Longrightarrow> 0 \<notin> set (pipe_uids p)"
  by (induction p rule: paired.induct) (simp_all add: pipe_uids_def)

lemma pipe_read:
  assumes "paired p" "li_new_conn (with_pipe p inp) = Some c"
  obtains t rest where "p = Token t # Client c # rest" "li_token (with_pipe p inp) = Some t"
  using assms that by (cases p rule: paired.cases) (auto simp: with_pipe_def)

lemma with_pipe_simps [simp]: "li_revents (with_pipe p inp) = li_revents inp" "li_ready (with_pipe p inp) = li_ready inp"
  by (simp_all add: with_pipe_def)

lemma thread_st_simps [simp]: "ls_locker (thread_st d k cs dl) = dm_lockers d ! k" "ls_conns (thread_st d k cs dl) = cs"
  by (simp_all add: thread_st_def)

lemma thread_of: "thread_uids (Running (ls_conns st) dl) = uids st" "thread_live (Running (ls_conns st) dl) = live st"
  by (simp_all add: thread_uids_def thread_live_def uids_def live_def)

lemma turn_resource:
  assumes "locker_turn ck inp st0 = Inr st" "lk_resource (ls_locker st0) \<noteq> None" "lk_resource (ls_locker st) = Some (Simple r')"
  obtains r where "lk_resource (ls_locker st0) = Some (Simple r)" "sr_name r' = sr_name r"
proof -
  have "is_simple (ls_resource st0)" using turn_other [OF assms(1)] assms(3) by (auto simp: ls_resource_def)
  then obtain r where r: "lk_resource (ls_locker st0) = Some (Simple r)"
    using assms(2) by (auto simp: ls_resource_def elim: is_simple.elims)
  then have "simple_named (sr_name r) (ls_resource st)" by (intro turn_named [OF assms(1)]) (simp add: ls_resource_def)
  then show thesis using r assms(3) that by (simp add: ls_resource_def)
qed

definition turn_ok :: "clock \<Rightarrow> locker_input \<Rightarrow> locker_st \<Rightarrow> bool" where
  "turn_ok ck inp st \<longleftrightarrow> run_all client_asks ck [inp] st \<and> run_all (messages_ok simple_ok_msg) ck [inp] st \<and> pipe_kept inp st"

text \<open>The resource and the clients after a turn.\<close>

lemma turn_simple:
  assumes "locker_turn ck inp st0 = Inr st" "turn_ok ck inp st0"
    and "lk_resource (ls_locker st0) = Some (Simple r)" "lk_resource (ls_locker st) = Some (Simple r')"
    and "simple_inv r" "rsrc.served (live st0) (Simple r)" "distinct (uids st0)"
    and "\<forall>c. li_new_conn inp = Some c \<longrightarrow> cn_uid c \<notin> set (uids st0) \<and> cn_state c \<noteq> FLOM_CONN_STATE_REMOVE"
  shows "simple_inv r'" "rsrc.served (live st) (Simple r')" "distinct (uids st)"
proof -
  have ok: "run_all client_asks ck [inp] st0" "run_all (messages_ok simple_ok_msg) ck [inp] st0" "pipe_kept inp st0"
    using assms(2) by (auto simp: turn_ok_def)
  have "served_by (live st0) st0" using assms(3,6,7) by (simp add: served_by_def ls_resource_def)
  then have "served_by (live st) st" by (rule turn_served [OF assms(1) _ turn_conforms [OF ok(1,3) assms(8)]])
  then show "rsrc.served (live st) (Simple r')" "distinct (uids st)" using assms(4) by (simp_all add: served_by_def ls_resource_def)
  have "simple_rsrc_inv (ls_resource st)"
    by (rule locker_simple.run_P [OF run_single [OF assms(1)] _ ok(2)]) (simp add: ls_resource_def assms(3,5))
  then show "simple_inv r'" using assms(4) by (simp add: ls_resource_def)
qed

lemma poll_hup:
  assumes "poll_true p inp st0" "locker_turn ck inp st0 = Inr st" "pipe_kept inp st0" "re_hup (li_revents inp 0)"
  shows "lk_write_pipe (ls_locker st0) = FLOM_NULL_FD"
proof -
  obtain s1 where "locker_setup inp st0 = Inr s1" using assms(2) by (auto simp: locker_turn_def split: sum.splits)
  then show ?thesis using assms(1,3,4) by (simp add: poll_true_def pipe_kept_def)
qed

lemma turn_lk_inv:
  assumes "lk_inv (Running cs dl) d lk r" "lk = dm_lockers d ! k" "p = dm_pipes d (lk_uid lk)" "st0 = thread_st d k cs dl"
    and "lk_resource lk = Some (Simple r)" "turn_ok ck (with_pipe p inp) st0" "poll_true p (with_pipe p inp) st0"
    and "locker_turn ck (with_pipe p inp) st0 = Inr st" "lk_resource (ls_locker st) = Some (Simple r')"
    and "dm_pipes d' (lk_uid lk) = pipe_left p inp" "dm_last_uid d' = dm_last_uid d" "dm_uids d' = dm_uids d"
  shows "lk_inv (Running (ls_conns st) (ls_deadline st)) d' (ls_locker st) r'"
proof -
  let ?inp = "with_pipe p inp" and ?lk = "ls_locker st"
  have c0: "cs = ls_conns st0" "ls_locker st0 = lk" using assms(2,4) by simp_all
  have i: "paired p" "seq_chain (lk_read_sequence lk) (tokens p) (lk_write_sequence lk)" "distinct (uids st0 @ pipe_uids p)"
    "\<forall>c \<in> set (uids st0 @ pipe_uids p). c \<le> dm_last_uid d \<and> c \<notin> set (dm_uids d)"
    "lk_read_pipe lk = FLOM_NULL_FD \<longrightarrow> lk_write_pipe lk = FLOM_NULL_FD"
    "lk_write_pipe lk = FLOM_NULL_FD \<longrightarrow> p = [] \<and> set (uids st0) \<subseteq> {0}"
    "0 < lk_idle_periods lk \<longrightarrow> set (uids st0) \<subseteq> {0}" "simple_inv r" "rsrc.served (live st0) (Simple r)"
    using assms(1,3) unfolding lk_inv_def c0(1) thread_of by blast+
  have kept: "lk_uid ?lk = lk_uid lk" "lk_write_pipe ?lk = lk_write_pipe lk" "lk_write_sequence ?lk = lk_write_sequence lk"
    using turn_fields [OF assms(8) refl] c0(2) by (simp_all add: kept_fields_def scan_end_def)
  have "\<forall>c. li_new_conn ?inp = Some c \<longrightarrow> cn_uid c \<notin> set (uids st0) \<and> cn_state c \<noteq> FLOM_CONN_STATE_REMOVE"
  proof (intro allI impI)
    fix c assume "li_new_conn ?inp = Some c"
    then obtain t rest where "p = Token t # Client c # rest" by (rule pipe_read [OF i(1)])
    then show "cn_uid c \<notin> set (uids st0) \<and> cn_state c \<noteq> FLOM_CONN_STATE_REMOVE" using i(1,3) by (simp add: pipe_uids_def)
  qed
  note new = turn_simple [OF assms(8,6) _ assms(9) i(8,9) _ this]
  have new: "simple_inv r'" "rsrc.served (live st) (Simple r')" "distinct (uids st)"
    using new assms(5) c0(2) i(3) by simp_all
  have pk: "pipe_kept ?inp st0" using assms(6) by (simp add: turn_ok_def)
  note eff = turn_effect [OF assms(8) pk, unfolded c0(2)]
  have rp: "lk_read_pipe ?lk = FLOM_NULL_FD \<longrightarrow> lk_write_pipe ?lk = FLOM_NULL_FD"
    using eff poll_hup [OF assms(7,8) pk] i(5) kept(2) c0(2) by auto
  show ?thesis
  proof (cases "reads ?inp")
    case True
    then obtain t c where e: "li_token ?inp = Some t" "li_new_conn ?inp = Some c" "lk_read_sequence ?lk = tk_sequence t"
      "mset (uids st) \<subseteq># add_mset (cn_uid c) (mset (uids st0))" "lk_idle_periods ?lk = 0"
      using eff by auto
    obtain rest where p: "p = Token t # Client c # rest" using pipe_read [OF i(1) e(2)] e(1) by force
    have sub: "set (uids st) \<subseteq> insert (cn_uid c) (set (uids st0))"
      using e(4) by (metis set_mset_add_mset_insert set_mset_mono set_mset_mset)
    have pr: "dm_pipes d' (lk_uid ?lk) = rest" using assms(10) True p kept(1) by (simp add: pipe_left_def)
    have pu: "pipe_uids p = cn_uid c # pipe_uids rest" using p by (simp add: pipe_uids_def)
    have "lk_write_pipe lk \<noteq> FLOM_NULL_FD" using i(6) p by auto
    moreover have "seq_chain (tk_sequence t) (tokens rest) (lk_write_sequence lk)" "paired rest" using i(1,2) p by auto
    moreover have "distinct (uids st @ pipe_uids rest)" using new(3) i(3) sub pu by auto
    moreover have "\<forall>c \<in> set (uids st @ pipe_uids rest). c \<le> dm_last_uid d \<and> c \<notin> set (dm_uids d)" using i(4) sub pu by auto
    ultimately show ?thesis unfolding lk_inv_def thread_of pr using kept e(3,5) rp new(1,2) assms(11,12) by simp
  next
    case False
    then have e: "lk_read_sequence ?lk = lk_read_sequence lk" "mset (uids st) \<subseteq># mset (uids st0)"
      "lk_idle_periods ?lk \<in> {0, lk_idle_periods lk} \<or> uids st = [0]"
      using eff by auto
    have sub: "set (uids st) \<subseteq> set (uids st0)" using e(2) by (metis set_mset_mono set_mset_mset)
    have pr: "dm_pipes d' (lk_uid ?lk) = p" using assms(10) False kept(1) by (simp add: pipe_left_def)
    have "distinct (uids st @ pipe_uids p)" using new(3) i(3) sub by auto
    moreover have "\<forall>c \<in> set (uids st @ pipe_uids p). c \<le> dm_last_uid d \<and> c \<notin> set (dm_uids d)" using i(4) sub by auto
    moreover have "0 < lk_idle_periods ?lk \<longrightarrow> set (uids st) \<subseteq> {0}" using e(3) i(7) sub by auto
    moreover have "lk_write_pipe lk = FLOM_NULL_FD \<longrightarrow> p = [] \<and> set (uids st) \<subseteq> {0}" using i(6) sub by blast
    ultimately show ?thesis unfolding lk_inv_def thread_of pr using kept e(1) i(1,2) rp new(1,2) assms(11,12) by simp
  qed
qed

lemma put_locker_simps [simp]:
  "dm_lockers (put_locker k st d) = (dm_lockers d)[k := ls_locker st]" "dm_pipes (put_locker k st d) = dm_pipes d"
  "dm_conns (put_locker k st d) = dm_conns d" "dm_uids (put_locker k st d) = dm_uids d"
  by (simp_all add: put_locker_def dm_uids_def dm_array_def)

lemma inv_thread:
  assumes "sys_inv T d" "k < length (dm_lockers d)" "u = locker_id d k" "T u = Waiting"
    and "st = locker_start n (dm_lockers d ! k) now (dm_world d)"
  shows "sys_inv (T(u := Running (ls_conns st) (ls_deadline st))) (put_locker k st d)"
proof (rule inv_update [OF assms(1,2), where u = u])
  let ?lk = "dm_lockers d ! k"
  have st: "ls_locker st = ?lk\<lparr>lk_thread := Some n\<rparr>" "thread_uids (Running (ls_conns st) (ls_deadline st)) = [0]"
    "thread_live (Running (ls_conns st) (ls_deadline st)) = {}"
    by (simp_all add: assms(5) locker_start_def thread_uids_def thread_live_def flom_conns_add_conn_def flom_conns_init_def
        flom_conn_init_def)
  show "\<forall>r. (T(u := Running (ls_conns st) (ls_deadline st))) u \<noteq> Ended \<longrightarrow> lk_resource (ls_locker st) = Some (Simple r) \<longrightarrow>
     lk_inv ((T(u := Running (ls_conns st) (ls_deadline st))) u) (put_locker k st d) (ls_locker st) r"
  proof (intro allI impI)
    fix r assume "lk_resource (ls_locker st) = Some (Simple r)"
    then have i: "lk_inv Waiting d ?lk r"
      using sys_invD(3) [OF assms(1) nth_mem [OF assms(2)], of r] assms(3,4) st(1) by (simp add: locker_id_def)
    moreover have "0 \<notin> set (dm_uids d)" using assms(1) by (auto simp: sys_inv_def ids_inv_def)
    moreover have "0 \<notin> set (pipe_uids (dm_pipes d (lk_uid ?lk)))" using i by (simp add: lk_inv_def pipe_uids_pos)
    ultimately show "lk_inv ((T(u := Running (ls_conns st) (ls_deadline st))) u) (put_locker k st d) (ls_locker st) r"
      by (simp add: lk_inv_def st) (simp add: thread_uids_def thread_live_def)
  qed
  show "\<forall>n. serving (T(u := Running (ls_conns st) (ls_deadline st))) n (ls_locker st) \<longrightarrow> serving T n ?lk"
    using assms(3,4) by (auto simp: serving_def locker_open_def locker_id_def st(1))
qed (use assms sys_invD(2) [OF assms(1) nth_mem [OF assms(2)]] in \<open>auto simp: locker_id_def locker_start_def\<close>)

lemma inv_turn:
  assumes "sys_inv T d" "k < length (dm_lockers d)" "u = locker_id d k" "T u = Running cs dl" "p = dm_pipes d u"
    and "locker_turn ck (with_pipe p inp) (thread_st d k cs dl) = Inr st"
    and "turn_ok ck (with_pipe p inp) (thread_st d k cs dl)" "poll_true p (with_pipe p inp) (thread_st d k cs dl)"
  shows "sys_inv (T(u := Running (ls_conns st) (ls_deadline st))) ((put_locker k st d)\<lparr>dm_pipes := (dm_pipes d)(u := pipe_left p inp)\<rparr>)"
    (is "sys_inv ?T ?d")
proof (rule inv_update [OF assms(1,2), where u = u])
  let ?lk = "dm_lockers d ! k"
  have some: "lk_resource ?lk \<noteq> None" by (rule sys_invD(2) [OF assms(1) nth_mem [OF assms(2)]])
  have kept: "kept_fields ?lk (ls_locker st)" using turn_fields [OF assms(6) refl] by (simp add: scan_end_def)
  have pk: "pipe_kept (with_pipe p inp) (thread_st d k cs dl)" using assms(7) by (simp add: turn_ok_def)
  have d': "dm_pipes ?d (lk_uid ?lk) = pipe_left p inp" "dm_uids ?d = dm_uids d" "dm_last_uid ?d = dm_last_uid d"
    using assms(3) by (simp_all add: locker_id_def dm_uids_def dm_array_def)
  show "\<forall>r. ?T u \<noteq> Ended \<longrightarrow> lk_resource (ls_locker st) = Some (Simple r) \<longrightarrow> lk_inv (?T u) ?d (ls_locker st) r"
  proof (intro allI impI)
    fix r' assume r': "lk_resource (ls_locker st) = Some (Simple r')"
    obtain r where r: "lk_resource ?lk = Some (Simple r)"
      using turn_resource [OF assms(6) _ r'] some by auto
    have i: "lk_inv (Running cs dl) d ?lk r"
      using sys_invD(3) [OF assms(1) nth_mem [OF assms(2)] _ r] assms(3,4) by (simp add: locker_id_def)
    have "lk_inv (Running (ls_conns st) (ls_deadline st)) ?d (ls_locker st) r'"
      by (rule turn_lk_inv [OF i refl _ refl r assms(7,8,6) r' d'(1,3,2)]) (simp add: assms(3,5) locker_id_def)
    then show "lk_inv (?T u) ?d (ls_locker st) r'" by simp
  qed
  have open_kept: "locker_open (ls_locker st) \<longrightarrow> locker_open ?lk"
    using turn_effect [OF assms(6) pk] kept by (auto simp: locker_open_def kept_fields_def)
  show "\<forall>n. serving ?T n (ls_locker st) \<longrightarrow> serving T n ?lk"
  proof (intro allI impI)
    fix n assume s: "serving ?T n (ls_locker st)"
    then obtain r' where r': "lk_resource (ls_locker st) = Some (Simple r')" "sr_name r' = n" by (auto simp: serving_def)
    obtain r where r: "lk_resource ?lk = Some (Simple r)" "sr_name r = n"
      by (rule turn_resource [OF assms(6) _ r'(1)]) (use some r'(2) in auto)
    have "locker_open ?lk" using s open_kept by (simp add: serving_def)
    moreover have "T (lk_uid ?lk) \<noteq> Ended" using assms(3,4) by (simp add: locker_id_def)
    ultimately show "serving T n ?lk" using r by (simp add: serving_def)
  qed
  show "lk_resource (ls_locker st) \<noteq> None" "lk_uid (ls_locker st) = u"
    using kept some assms(3) by (auto simp: kept_fields_def locker_id_def)
qed (use assms in \<open>auto simp: locker_id_def dm_uids_def dm_array_def\<close>)

lemma inv_end:
  assumes "sys_inv T d" "k < length (dm_lockers d)" "u = locker_id d k"
    and "locker_turn ck inp (thread_st d k cs dl) = Inl (rc, st)"
  shows "sys_inv (T(u := Ended)) (put_locker k st d)"
proof (rule inv_update [OF assms(1,2), where u = u])
  have "kept_fields (dm_lockers d ! k) (ls_locker st)" using turn_fields [OF assms(4) refl] by (simp add: scan_end_def)
  then show "lk_resource (ls_locker st) \<noteq> None" "lk_uid (ls_locker st) = u"
    using sys_invD(2) [OF assms(1) nth_mem [OF assms(2)]] assms(3) by (auto simp: kept_fields_def locker_id_def)
  then show "\<forall>n. serving (T(u := Ended)) n (ls_locker st) \<longrightarrow> serving T n (dm_lockers d ! k)" by (simp add: serving_def)
qed (use assms(3) in \<open>simp_all add: locker_id_def\<close>)

lemma inv_step:
  assumes "sys_step ev s = Some s'" "sys_inv (sy_threads s) (sy_daemon s)" "kernel_ok ev s s'" "clients_ok ev s s'" "pipes_kept ev s s'"
  shows "sys_inv (sy_threads s') (sy_daemon s')"
proof (cases ev)
  case (Main inp)
  obtain again d where t: "accept_turn inp (sy_again s) (sy_daemon s) = Next (again, d)"
    using assms(1) Main by (auto split: loop.splits)
  then have s': "s' = s\<lparr>sy_daemon := d, sy_again := again\<rparr>" using assms(1) Main by simp
  have "pipe_ok inp" "pipes_fit d" using assms(1,3) Main s' by simp_all
  then have "sys_inv (sy_threads s) d" by (intro inv_main [OF accept_turn_steps [OF t] assms(2)])
  then show ?thesis by (simp add: s')
next
  case (Start_thread k now)
  then show ?thesis
    using assms(1) inv_thread [OF assms(2) _ refl, of k _ k now] by (auto simp: Let_def split: if_splits)
next
  case (Turn k ck inp)
  let ?d = "sy_daemon s"
  let ?u = "locker_id ?d k"
  let ?p = "dm_pipes ?d ?u"
  have k: "k < length (dm_lockers ?d)" using assms(1) Turn by (auto simp: Let_def split: if_splits)
  obtain cs dl where r: "sy_threads s ?u = Running cs dl"
    using assms(1) Turn by (auto simp: Let_def split: if_splits thread.splits)
  show ?thesis
  proof (cases "locker_turn ck (with_pipe ?p inp) (thread_st ?d k cs dl)")
    case (Inl x)
    obtain rc st where x: "x = (rc, st)" by force
    show ?thesis
      using assms(1) Turn k r Inl inv_end [OF assms(2) k refl, of ck "with_pipe ?p inp" cs dl rc st] by (auto simp: Let_def x)
  next
    case (Inr st)
    have ok: "turn_ok ck (with_pipe ?p inp) (thread_st ?d k cs dl)" "poll_true ?p (with_pipe ?p inp) (thread_st ?d k cs dl)"
      using assms(3-5) Turn r by (auto simp: Let_def turn_ok_def clients_ok_def pipes_kept_def)
    show ?thesis using assms(1) Turn k r Inr inv_turn [OF assms(2) k refl r refl Inr ok] by (auto simp: Let_def)
  qed
qed

lemma inv_run:
  assumes "sys_run evs s = Some s'" "sys_inv (sy_threads s) (sy_daemon s)" "run_ok kernel_ok evs s" "run_ok clients_ok evs s" "run_ok pipes_kept evs s"
  shows "sys_inv (sy_threads s') (sy_daemon s')"
  using assms by (induction evs arbitrary: s) (auto split: option.splits dest: inv_step)

subsection \<open>The locks of a name\<close>

lemma concat_single:
  assumes "distinct (map f xs)" "y \<in> set xs" "\<forall>x \<in> set xs. g x \<noteq> [] \<longrightarrow> f x = f y"
  shows "concat (map g xs) = g y"
  using assms
proof (induction xs)
  case (Cons x xs)
  show ?case
  proof (cases "x = y")
    case True
    then have "\<forall>z \<in> set xs. g z = []" using Cons.prems(1,3) by (fastforce simp: image_iff)
    then show ?thesis using True by (simp add: concat_eq_Nil_conv)
  next
    case False
    then have "g x = []" using Cons.prems by (metis distinct.simps(2) imageI list.set_intros(1) list.simps(9) set_ConsD set_map)
    then show ?thesis using Cons False by auto
  qed
qed simp

lemma holders_serving:
  assumes "sys_inv T d" "lk \<in> set (dm_lockers d)" "thread_holders n (T (lk_uid lk)) lk \<noteq> []"
  shows "serving T (Some n) lk"
proof -
  obtain cs dl r where r: "T (lk_uid lk) = Running cs dl" "lk_resource lk = Some (Simple r)" "sr_name r = Some n" "sr_holders r \<noteq> []"
    using assms(3) by (auto simp: thread_holders_def split: thread.splits option.splits flom_resource.splits if_splits)
  have i: "lk_inv (Running cs dl) d lk r" using sys_invD(3) [OF assms(1,2) _ r(2)] r(1) by simp
  then have "rsrc_clients (Simple r) \<noteq> {#} \<Longrightarrow> thread_live (Running cs dl) \<noteq> {}"
    by (auto simp: lk_inv_def rsrc.served_def)
  then have "thread_live (Running cs dl) \<noteq> {}" using r(4) by simp
  then have "\<not> set (thread_uids (Running cs dl)) \<subseteq> {0}" by (auto simp: thread_live_def thread_uids_def)
  then have "locker_open lk" using i unfolding lk_inv_def locker_open_def by blast
  then show ?thesis using r by (simp add: serving_def)
qed

lemma sys_holders_cases:
  assumes "sys_inv (sy_threads s) (sy_daemon s)"
  shows "sys_holders n s = [] \<or> (\<exists>r. sys_holders n s = sr_holders r \<and> simple_inv r)"
proof (cases "\<exists>lk \<in> set (dm_lockers (sy_daemon s)). thread_holders n (sy_threads s (lk_uid lk)) lk \<noteq> []")
  case True
  let ?T = "sy_threads s" and ?d = "sy_daemon s"
  obtain lk where lk: "lk \<in> set (dm_lockers ?d)" "thread_holders n (?T (lk_uid lk)) lk \<noteq> []" using True by blast
  have "lk_uid lk' = lk_uid lk" if "lk' \<in> set (dm_lockers ?d)" "thread_holders n (?T (lk_uid lk')) lk' \<noteq> []" for lk'
    using holders_serving [OF assms lk] holders_serving [OF assms that] assms lk(1) that(1)
    unfolding sys_inv_def unique_inv_def by blast
  moreover have "distinct (map lk_uid (dm_lockers ?d))" using assms by (simp add: sys_inv_def lockers_inv_def)
  ultimately have "sys_holders n s = thread_holders n (?T (lk_uid lk)) lk"
    unfolding sys_holders_def by (intro concat_single [where f = lk_uid] lk(1)) simp_all
  moreover obtain cs dl r where r: "?T (lk_uid lk) = Running cs dl" "lk_resource lk = Some (Simple r)"
    "thread_holders n (?T (lk_uid lk)) lk = sr_holders r"
    using lk(2) by (auto simp: thread_holders_def split: thread.splits option.splits flom_resource.splits if_splits)
  moreover have "simple_inv r" using sys_invD(3) [OF assms lk(1) _ r(2)] r(1) by (simp add: lk_inv_def)
  ultimately show ?thesis by auto
qed (simp add: sys_holders_def concat_eq_Nil_conv)

text \<open>A daemon before its first turn.\<close>

definition fresh_daemon :: "daemon_st \<Rightarrow> bool" where
  "fresh_daemon d \<longleftrightarrow> dm_lockers d = [] \<and> dm_pipes d = (\<lambda>u. []) \<and> distinct (dm_uids d) \<and>
     list_all (\<lambda>c. 0 < c \<and> c \<le> dm_last_uid d) (dm_uids d)"

lemma fresh_inv: "fresh_daemon d \<Longrightarrow> sys_inv (sy_threads (sys_start d)) (sy_daemon (sys_start d))"
  by (simp add: fresh_daemon_def sys_start_def sys_inv_def lockers_inv_def unique_inv_def ids_inv_def list_all_iff)

text \<open>C1. The locks of the daemon exclude each other, whatever the threads do in whatever order: after any run of
  turns of the accept loop, starts of locker threads and turns of lockers, any two locks that are held
  under the same name of a simple resource, by whichever lockers, are compatible.  The kernel is
  assumed to report events that are true and the pipes to be of bounded capacity, the clients to ask
  for one lock at a time, and no failure of an answer to a new client to make a locker drop its pipe.\<close>

theorem system_mutual_exclusion:
  assumes "fresh_daemon d" "sys_run evs (sys_start d) = Some s"
    and "run_ok kernel_ok evs (sys_start d)" "run_ok clients_ok evs (sys_start d)" "run_ok pipes_kept evs (sys_start d)"
    and "i < length (sys_holders n s)" "j < length (sys_holders n s)" "i \<noteq> j"
  shows "compat (cl_lock_mode (sys_holders n s ! i)) (cl_lock_mode (sys_holders n s ! j))"
proof -
  have "sys_inv (sy_threads s) (sy_daemon s)" by (rule inv_run [OF assms(2) fresh_inv [OF assms(1)] assms(3-5)])
  then obtain r where r: "sys_holders n s = sr_holders r" "simple_inv r" using sys_holders_cases [of s n] assms(6) by auto
  then have "sorted_wrt (\<lambda>a b. compat (cl_lock_mode a) (cl_lock_mode b)) (sys_holders n s)"
    by (simp add: simple_inv_def simple_holders_ok_def)
  then show ?thesis using assms(6-8) compat_sym by (metis linorder_neqE_nat sorted_wrt_nth_less)
qed

text \<open>Two connected clients ask for a lock of the same resource.\<close>

definition sample_lock_events :: "string \<Rightarrow> markup_event list" where
  "sample_lock_events mode =
     [Start_element ''msg'' [(''level'', ''3''), (''verb'', ''1''), (''step'', ''8'')],
      Start_element ''resource'' [(''name'', ''res''), (''mode'', mode), (''wait'', ''1''), (''create'', ''1'')],
      End_element ''resource'', End_element ''msg'']"

definition sample_clients :: system where
  "sample_clients = sys_start (sample_daemon (map (\<lambda>u. flom_conn_init u (int u + 9) True) [2, 3, 4]) [])"

lemma sample_fresh: "fresh_daemon (sample_daemon (map (\<lambda>u. flom_conn_init u (int u + 9) True) [2, 3, 4]) [])"
  by (simp add: fresh_daemon_def sample_daemon_def dm_uids_def dm_array_def flom_conn_init_def)

definition sample_asks :: "nat \<Rightarrow> string \<Rightarrow> event" where
  "sample_asks i mode = Main (sends i (sample_lock_events mode))"

definition sample_takes :: "nat \<Rightarrow> event" where
  "sample_takes k = Turn k sample_tick (sample_fd 0 \<lparr>re_in = True, re_err = False, re_hup = False\<rparr>)"

definition sample_shared :: "event list" where
  "sample_shared = [sample_asks 1 ''3'', Start_thread 0 (100, 0), sample_takes 0,
     sample_asks 1 ''3'', sample_takes 0]"

theorem system_mutual_exclusion_witness:
  "\<exists>s. sys_run sample_shared sample_clients = Some s \<and>
     map cl_lock_mode (sys_holders ''res'' s) = [FLOM_LOCK_MODE_PR, FLOM_LOCK_MODE_PR] \<and>
     compat (cl_lock_mode (sys_holders ''res'' s ! 0)) (cl_lock_mode (sys_holders ''res'' s ! 1))"
proof -
  let ?s = "sample_clients"
  have "case sys_run sample_shared ?s of None \<Rightarrow> False
      | Some s \<Rightarrow> map cl_lock_mode (sys_holders ''res'' s) = [FLOM_LOCK_MODE_PR, FLOM_LOCK_MODE_PR]" by code_simp
  then obtain s where s: "sys_run sample_shared ?s = Some s"
    "map cl_lock_mode (sys_holders ''res'' s) = [FLOM_LOCK_MODE_PR, FLOM_LOCK_MODE_PR]"
    by (cases "sys_run sample_shared ?s") auto
  have len: "length (sys_holders ''res'' s) = 2" using arg_cong [OF s(2), of length] by simp
  have ok: "run_ok kernel_ok sample_shared ?s" "run_ok clients_ok sample_shared ?s" "run_ok pipes_kept sample_shared ?s"
    by code_simp+
  from system_mutual_exclusion [OF sample_fresh, folded sample_clients_def, OF s(1) ok, of 0 "''res''" 1] len s show ?thesis by auto
qed

text \<open>
  The third condition is needed.  The clients 2 and 3 ask for the exclusive lock; the connection of 3
  is reset, so that it cannot be told to wait: the locker closes its pipe instead of this connection.
  The connection then takes the place of the pipe in the array and its hang up is taken for the end
  of the main thread, which believes the locker to be terminating and starts a second one for client 4.
\<close>

definition sample_reset :: "event list" where
  "sample_reset =
     [Turn 0 sample_tick ((sample_fd 0 \<lparr>re_in = True, re_err = False, re_hup = False\<rparr>)\<lparr>
        li_env := (\<lambda>j. Rsrc.sample_env\<lparr>e_send := (\<lambda>n c. if c = 3 then FLOM_RC_CONNECTION_CLOSED else FLOM_RC_OK)\<rparr>)\<rparr>),
      Turn 0 sample_tick (sample_fd 0 \<lparr>re_in = False, re_err = False, re_hup = True\<rparr>)]"

definition sample_broken :: "event list" where
  "sample_broken = [sample_asks 1 ''5'', Start_thread 0 (100, 0), sample_takes 0,
     sample_asks 2 ''5''] @ sample_reset @ [sample_asks 1 ''5'', Start_thread 1 (100, 0), sample_takes 1]"


end
