(* ===== verification/Client.thy ===== *)
theory Client
  imports Daemon
begin

text \<open>
  The client side of the protocol, \<^verbatim>\<open>src/src/flom_client.c\<close> and \<^verbatim>\<open>flom_tcp_connect\<close>: finding and connecting to
  a daemon, starting one when there is none, the lock request with its answers, the unlock request,
  the end of the connection and the shutdown of a daemon.

  The results of system calls and of \<^verbatim>\<open>flom_daemon\<close>, which forks, are parameters.  The descriptors
  that are open are part of the state, and so is the heap of strings: the configuration may be
  changed by a discovery and the locked element is a string of the caller.
\<close>

abbreviation (input) FLOM_RC_CONNECTION_REFUSED :: int where "FLOM_RC_CONNECTION_REFUSED \<equiv> 7"
abbreviation (input) FLOM_RC_DAEMON_NOT_STARTED :: int where "FLOM_RC_DAEMON_NOT_STARTED \<equiv> - 2"
abbreviation (input) FLOM_RC_PROTOCOL_LEVEL_MISMATCH :: int where "FLOM_RC_PROTOCOL_LEVEL_MISMATCH \<equiv> - 15"
abbreviation (input) FLOM_RC_MSG_DESERIALIZE_ERROR :: int where "FLOM_RC_MSG_DESERIALIZE_ERROR \<equiv> - 16"
abbreviation (input) FLOM_RC_INVALID_AI_FAMILY_ERROR :: int where "FLOM_RC_INVALID_AI_FAMILY_ERROR \<equiv> - 18"
abbreviation (input) FLOM_RC_CONNECTION_CLOSED_BY_SERVER :: int where "FLOM_RC_CONNECTION_CLOSED_BY_SERVER \<equiv> - 27"
abbreviation (input) FLOM_RC_BIND_ERROR :: int where "FLOM_RC_BIND_ERROR \<equiv> - 101"
abbreviation (input) FLOM_RC_CONNECT_ERROR :: int where "FLOM_RC_CONNECT_ERROR \<equiv> - 105"
abbreviation (input) FLOM_RC_FCNTL_ERROR :: int where "FLOM_RC_FCNTL_ERROR \<equiv> - 107"
abbreviation (input) FLOM_RC_FLOCK_ERROR :: int where "FLOM_RC_FLOCK_ERROR \<equiv> - 108"
abbreviation (input) FLOM_RC_FORK_ERROR :: int where "FLOM_RC_FORK_ERROR \<equiv> - 109"
abbreviation (input) FLOM_RC_WAIT_ERROR :: int where "FLOM_RC_WAIT_ERROR \<equiv> - 142"
abbreviation (input) FLOM_RC_GETADDRINFO_ERROR :: int where "FLOM_RC_GETADDRINFO_ERROR \<equiv> - 110"
abbreviation (input) FLOM_RC_RECVFROM_ERROR :: int where "FLOM_RC_RECVFROM_ERROR \<equiv> - 127"
abbreviation (input) FLOM_RC_SOCKET_ERROR :: int where "FLOM_RC_SOCKET_ERROR \<equiv> - 139"
abbreviation (input) FLOM_RC_G_MARKUP_PARSE_CONTEXT_NEW_ERROR :: int where
  "FLOM_RC_G_MARKUP_PARSE_CONTEXT_NEW_ERROR \<equiv> - 205"
abbreviation (input) AF_INET6 :: int where "AF_INET6 \<equiv> 10"

section \<open>The state of a client\<close>

text \<open>
  The connection object of a client: state and descriptor, step of the last message, whether there
  is a TLS object.  \<open>ct_forks\<close> counts the calls of \<^verbatim>\<open>flom_daemon\<close>.
\<close>

record client_st =
  ct_config :: cfg_state
  ct_conn :: flom_conn
  ct_type :: socket_type
  ct_last_step :: int
  ct_tls :: bool
  ct_element :: "addr option"
  ct_open :: "int list"
  ct_forks :: nat
  ct_sent :: "flom_msg list"

definition ct_value :: "client_st \<Rightarrow> config_value" where
  "ct_value s = value_of (ct_config s)"

definition set_sockfd :: "int \<Rightarrow> client_st \<Rightarrow> client_st" where
  "set_sockfd fd s = s\<lparr>ct_conn := (ct_conn s)\<lparr>cn_sockfd := fd\<rparr>\<rparr>"

definition open_fd :: "int \<Rightarrow> client_st \<Rightarrow> client_st" where
  "open_fd fd s = s\<lparr>ct_open := fd # ct_open s\<rparr>"

definition close_fd :: "int \<Rightarrow> client_st \<Rightarrow> client_st" where
  "close_fd fd s = s\<lparr>ct_open := remove1 fd (ct_open s)\<rparr>"

section \<open>Connecting\<close>

datatype connect_result = Connected | Refused | Failed

text \<open>
  An address of \<^verbatim>\<open>getaddrinfo\<close> with what the calls on its socket return: \<^verbatim>\<open>socket\<close>, and \<^verbatim>\<open>connect\<close> or,
  for a discovery, the calls of \<^verbatim>\<open>setsockopt\<close> and \<^verbatim>\<open>bind\<close>.
\<close>

record address =
  ad_family :: int
  ad_socket :: "int option"
  ad_usable :: bool

datatype udp_answer = No_reply | Recv_failed | Reply string

record connect_input =
  co_socket :: "int option"
  co_connect :: connect_result
  co_daemon :: rc
  co_again :: bool
  co_getaddrinfo :: "address list option"
  co_getaddrinfo_again :: "address list option"
  co_nodelay_fails :: bool
  co_fcntl_fails :: bool
  co_tls_context :: rc
  co_tls_set_cert :: rc
  co_tls_connect :: rc

text \<open>
  \<^verbatim>\<open>flom_client_connect_local\<close>.  A socket that cannot be connected stays open.
\<close>

definition flom_client_connect_local :: "connect_input \<Rightarrow> bool \<Rightarrow> client_st \<Rightarrow> rc \<times> client_st" where
  "flom_client_connect_local inp start_daemon s =
     (case co_socket inp of
        None \<Rightarrow> (FLOM_RC_SOCKET_ERROR, set_sockfd (- 1) s)
      | Some fd \<Rightarrow>
          (let s1 = (set_sockfd fd (open_fd fd s))\<lparr>ct_type := SOCK_STREAM\<rparr> in
           case co_connect inp of
             Connected \<Rightarrow> (FLOM_RC_OK, s1)
           | Failed \<Rightarrow> (FLOM_RC_CONNECT_ERROR, s1)
           | Refused \<Rightarrow>
               if \<not> start_daemon then (FLOM_RC_DAEMON_NOT_STARTED, s1)
               else if cf_daemon_lifespan (ct_value s1) = 0 then (FLOM_RC_CONNECT_ERROR, s1)
               else
                 (let s2 = s1\<lparr>ct_forks := Suc (ct_forks s1)\<rparr> in
                  if co_daemon inp \<noteq> FLOM_RC_OK \<and> co_daemon inp \<noteq> FLOM_RC_FLOCK_ERROR then (co_daemon inp, s2)
                  else if \<not> co_again inp then (FLOM_RC_DAEMON_NOT_STARTED, s2)
                  else (FLOM_RC_OK, s2))))"

text \<open>The first address to which a socket can be connected.\<close>

fun flom_tcp_try_connect :: "address list \<Rightarrow> int option" where
  "flom_tcp_try_connect [] = None"
| "flom_tcp_try_connect (a # as) =
     (case ad_socket a of
        None \<Rightarrow> flom_tcp_try_connect as
      | Some fd \<Rightarrow> if ad_usable a then Some fd else flom_tcp_try_connect as)"

definition flom_tcp_connect :: "address list option \<Rightarrow> client_st \<Rightarrow> rc \<times> client_st" where
  "flom_tcp_connect result s =
     (case result of
        None \<Rightarrow> (FLOM_RC_GETADDRINFO_ERROR, s)
      | Some as \<Rightarrow>
          (case flom_tcp_try_connect as of
             None \<Rightarrow> (FLOM_RC_CONNECTION_REFUSED, s)
           | Some fd \<Rightarrow> (FLOM_RC_OK, (set_sockfd fd (open_fd fd s))\<lparr>ct_type := SOCK_STREAM\<rparr>)))"

text \<open>\<^verbatim>\<open>flom_tcp_init\<close> clears the object: descriptor and type become zero.\<close>

definition connect_tcp_once :: "bool \<Rightarrow> address list option \<Rightarrow> client_st \<Rightarrow> rc \<times> client_st" where
  "connect_tcp_once nodelay_fails result s =
     (case flom_tcp_connect result ((set_sockfd 0 s)\<lparr>ct_type := SOCK_OTHER\<rparr>) of
        (rc, s1) \<Rightarrow>
          if rc \<noteq> FLOM_RC_OK then (rc, s1)
          else if nodelay_fails then (FLOM_RC_SETSOCKOPT_ERROR, s1)
          else (FLOM_RC_OK, s1\<lparr>ct_type := SOCK_STREAM\<rparr>))"

definition flom_client_connect_tcp :: "connect_input \<Rightarrow> bool \<Rightarrow> client_st \<Rightarrow> rc \<times> client_st" where
  "flom_client_connect_tcp inp start_daemon s =
     (case connect_tcp_once (co_nodelay_fails inp) (co_getaddrinfo inp) s of
        (rc, s1) \<Rightarrow>
          if rc \<noteq> FLOM_RC_CONNECTION_REFUSED then (rc, s1)
          else if \<not> start_daemon then (FLOM_RC_DAEMON_NOT_STARTED, s1)
          else if cf_daemon_lifespan (ct_value s1) = 0 then (FLOM_RC_CONNECT_ERROR, s1)
          else
            (let s2 = s1\<lparr>ct_forks := Suc (ct_forks s1)\<rparr> in
             if co_daemon inp \<noteq> FLOM_RC_OK \<and> co_daemon inp \<noteq> FLOM_RC_BIND_ERROR then (co_daemon inp, s2)
             else
               (case connect_tcp_once (co_nodelay_fails inp) (co_getaddrinfo_again inp) s2 of
                  (rc, s3) \<Rightarrow> if rc \<noteq> FLOM_RC_OK then (FLOM_RC_DAEMON_NOT_STARTED, s3) else (FLOM_RC_OK, s3))))"

section \<open>Discovery\<close>

record discover_input =
  du_getaddrinfo :: "address list option"
  du_rcvtimeo_fails :: bool
  du_sendto :: "nat \<Rightarrow> bool"
  du_recvfrom :: "nat \<Rightarrow> udp_answer"
  du_parser_new :: bool
  du_markup :: "string \<Rightarrow> markup_event list \<times> bool"
  du_b64 :: "string \<Rightarrow> string"
  du_old :: "nat \<Rightarrow> char"
  du_unb64 :: "string \<Rightarrow> string option"
  du_scope_id :: nat
  du_interfaces :: cfg_env
  du_tcp :: connect_input
  du_socket :: "int option"
  du_connect_fails :: bool
  du_nodelay_fails :: bool

text \<open>
  The socket for the datagrams: the first address on which one can be opened, prepared and bound.
  When \<^verbatim>\<open>socket\<close> fails the loop goes to the next address without a \<^verbatim>\<open>continue\<close>: the calls that follow
  fail on the descriptor -1 and skip this address too, or read through a \<^verbatim>\<open>NULL\<close> pointer
  behind the last one.
\<close>

fun discover_open :: "address list \<Rightarrow> (rc + int option) call" where
  "discover_open [] = Ret (Inr None)"
| "discover_open (a # as) =
     (if ad_family a \<noteq> AF_INET \<and> ad_family a \<noteq> AF_INET6 then Ret (Inl FLOM_RC_INVALID_AI_FAMILY_ERROR)
      else
        (case ad_socket a of
           None \<Rightarrow> (case as of [] \<Rightarrow> Crashed | b # bs \<Rightarrow> discover_open bs)
         | Some fd \<Rightarrow> if ad_usable a then Ret (Inr (Some (ad_family a))) else discover_open as))"

text \<open>The attempts: the text of the first answer.\<close>

fun discover_attempts :: "discover_input \<Rightarrow> nat list \<Rightarrow> rc + string option" where
  "discover_attempts inp [] = Inr None"
| "discover_attempts inp (i # is) =
     (if \<not> du_sendto inp i then Inl FLOM_RC_SENDTO_ERROR
      else
        (case du_recvfrom inp i of
           No_reply \<Rightarrow> discover_attempts inp is
         | Recv_failed \<Rightarrow> Inl FLOM_RC_RECVFROM_ERROR
         | Reply text \<Rightarrow> Inr (Some (take network_buffer_size text))))"

definition discover_request :: flom_msg where
  "discover_request =
     flom_msg_init\<lparr>msg_level := FLOM_MSG_LEVEL, msg_verb := FLOM_MSG_VERB_DISCOVER, msg_step := FLOM_MSG_STEP_INCR\<rparr>"

definition flom_client_discover_udp_connect :: "discover_input \<Rightarrow> client_st \<Rightarrow> rc \<times> client_st" where
  "flom_client_discover_udp_connect inp s =
     (case du_socket inp of
        None \<Rightarrow> (FLOM_RC_SOCKET_ERROR, s)
      | Some fd \<Rightarrow>
          if du_connect_fails inp then (FLOM_RC_CONNECT_ERROR, s)
          else if du_nodelay_fails inp then (FLOM_RC_SETSOCKOPT_ERROR, s)
          else (FLOM_RC_OK, (set_sockfd fd (open_fd fd s))\<lparr>ct_type := SOCK_STREAM\<rparr>))"

text \<open>
  The daemon has answered: the address of the message, or the source of the datagram when it is
  empty.  A message without an address is read through a \<^verbatim>\<open>NULL\<close> pointer, one of another verb
  through a member of the union that it does not have.
\<close>

definition discover_connect :: "discover_input \<Rightarrow> bool \<Rightarrow> int \<Rightarrow> flom_msg \<Rightarrow> client_st \<Rightarrow> (rc \<times> client_st) call" where
  "discover_connect inp start_daemon family m s =
     (case d16_address (discover_16 m) of
        None \<Rightarrow> Crashed
      | Some [] \<Rightarrow> Ret (flom_client_discover_udp_connect inp s)
      | Some (ch # t) \<Rightarrow>
          (let s1 = s\<lparr>ct_config := flom_config_set_unicast_port (d16_port (discover_16 m))
                               (flom_config_set_unicast_address (Some (ch # t)) (ct_config s))\<rparr> in
           case (if family = AF_INET6 then flom_config_set_sin6_scope_id (du_interfaces inp) (du_scope_id inp) (ct_config s1)
                 else (FLOM_RC_OK, ct_config s1)) of
             (rc, cs) \<Rightarrow>
               if rc \<noteq> FLOM_RC_OK then Ret (rc, s1\<lparr>ct_config := cs\<rparr>)
               else Ret (flom_client_connect_tcp (du_tcp inp) start_daemon (s1\<lparr>ct_config := cs\<rparr>))))"

definition discover_reply :: "discover_input \<Rightarrow> bool \<Rightarrow> int \<Rightarrow> string \<Rightarrow> client_st \<Rightarrow> (rc \<times> client_st) call" where
  "discover_reply inp start_daemon family text s =
     (if \<not> du_parser_new inp then Ret (FLOM_RC_G_MARKUP_PARSE_CONTEXT_NEW_ERROR, s)
      else
        (case du_markup inp text of
           (events, parsed) \<Rightarrow>
             if \<not> parsed then Ret (FLOM_RC_G_MARKUP_PARSE_CONTEXT_PARSE_ERROR, s)
             else discover_connect inp start_daemon family (flom_msg_deserialize (du_unb64 inp) events flom_msg_init) s))"

text \<open>The socket of the datagrams is closed on every path.\<close>

definition flom_client_discover_udp :: "discover_input \<Rightarrow> bool \<Rightarrow> client_st \<Rightarrow> (rc \<times> client_st) call" where
  "flom_client_discover_udp inp start_daemon s =
     (case du_getaddrinfo inp of
        None \<Rightarrow> Ret (FLOM_RC_GETADDRINFO_ERROR, s)
      | Some as \<Rightarrow>
          (case discover_open as of
             Exited \<Rightarrow> Exited
           | Crashed \<Rightarrow> Crashed
           | Ret (Inl rc) \<Rightarrow> Ret (rc, s)
           | Ret (Inr None) \<Rightarrow> Ret (FLOM_RC_CONNECT_ERROR, s)
           | Ret (Inr (Some family)) \<Rightarrow>
               (case flom_msg_serialize (du_b64 inp) (du_old inp) discover_request network_buffer_size of
                  Inl rc \<Rightarrow> Ret (rc, s)
                | Inr text \<Rightarrow>
                    if du_rcvtimeo_fails inp then Ret (FLOM_RC_SETSOCKOPT_ERROR, s)
                    else
                      (case discover_attempts inp [0..<nat (cf_discovery_attempts (ct_value s))] of
                         Inl rc \<Rightarrow> Ret (rc, s)
                       | Inr None \<Rightarrow> Ret (FLOM_RC_CONNECTION_REFUSED, s)
                       | Inr (Some reply) \<Rightarrow> discover_reply inp start_daemon family reply s))))"

section \<open>The connection\<close>

definition connect_discover :: "connect_input \<Rightarrow> discover_input \<Rightarrow> discover_input \<Rightarrow> bool \<Rightarrow> client_st \<Rightarrow> (rc \<times> client_st) call" where
  "connect_discover inp du1 du2 start_daemon s =
     (case flom_client_discover_udp du1 start_daemon s of
        Exited \<Rightarrow> Exited
      | Crashed \<Rightarrow> Crashed
      | Ret (rc, s1) \<Rightarrow>
          if rc \<noteq> FLOM_RC_CONNECTION_REFUSED then Ret (rc, s1)
          else if \<not> start_daemon then Ret (FLOM_RC_DAEMON_NOT_STARTED, s1)
          else if cf_daemon_lifespan (ct_value s1) = 0 then Ret (FLOM_RC_CONNECT_ERROR, s1)
          else
            (let s2 = s1\<lparr>ct_forks := Suc (ct_forks s1)\<rparr> in
             if co_daemon inp \<noteq> FLOM_RC_OK then Ret (co_daemon inp, s2)
             else flom_client_discover_udp du2 start_daemon s2))"

definition connect_transport :: "connect_input \<Rightarrow> discover_input \<Rightarrow> discover_input \<Rightarrow> bool \<Rightarrow> client_st \<Rightarrow> (rc \<times> client_st) call" where
  "connect_transport inp du1 du2 start_daemon s =
     (if cf_socket_name (ct_value s) \<noteq> None then Ret (flom_client_connect_local inp start_daemon s)
      else if cf_unicast_address (ct_value s) \<noteq> None then Ret (flom_client_connect_tcp inp start_daemon s)
      else if cf_multicast_address (ct_value s) \<noteq> None then connect_discover inp du1 du2 start_daemon s
      else Ret (FLOM_RC_INTERNAL_ERROR, s))"

definition connect_tls :: "connect_input \<Rightarrow> client_st \<Rightarrow> rc \<times> client_st" where
  "connect_tls inp s =
     (if \<not> tls_configured (ct_value s) then (FLOM_RC_OK, s)
      else
        (let s1 = s\<lparr>ct_tls := True\<rparr> in
         if co_tls_context inp \<noteq> FLOM_RC_OK then (co_tls_context inp, s1)
         else if co_tls_set_cert inp \<noteq> FLOM_RC_OK then (co_tls_set_cert inp, s1)
         else (co_tls_connect inp, s1)))"

definition flom_client_connect :: "connect_input \<Rightarrow> discover_input \<Rightarrow> discover_input \<Rightarrow> bool \<Rightarrow> client_st \<Rightarrow> (rc \<times> client_st) call" where
  "flom_client_connect inp du1 du2 start_daemon s =
     (case connect_transport inp du1 du2 start_daemon s of
        Exited \<Rightarrow> Exited
      | Crashed \<Rightarrow> Crashed
      | Ret (rc, s1) \<Rightarrow>
          if rc \<noteq> FLOM_RC_OK then Ret (rc, s1)
          else if co_fcntl_fails inp then Ret (FLOM_RC_FCNTL_ERROR, s1)
          else Ret (connect_tls inp s1))"

section \<open>Lock and unlock\<close>

record answer_input =
  an_recv :: recv_calls
  an_markup :: "string \<Rightarrow> markup_event list \<times> bool"

record lock_input =
  lo_uid :: "string option"
  lo_b64 :: "string \<Rightarrow> string"
  lo_old :: "nat \<Rightarrow> char"
  lo_unb64 :: "string \<Rightarrow> string option"
  lo_send :: send_calls
  lo_answer :: answer_input
  lo_parser_new :: bool
  lo_peer_name :: "string option"
  lo_cert_check :: rc
  lo_stack :: int
  lo_waits :: "answer_input list"

definition client_recv :: "int \<Rightarrow> answer_input \<Rightarrow> client_st \<Rightarrow> rc \<times> int \<times> string \<times> string" where
  "client_recv timeout a s =
     flom_conn_recv timeout ((an_recv a)\<lparr>rv_type := ct_type s, rv_tls := ct_tls s\<rparr>) network_buffer_size"

text \<open>The reason code of an answer; a message of another verb leaves the one before.\<close>

definition wait_answer :: "flom_msg \<Rightarrow> int \<Rightarrow> rc + int" where
  "wait_answer m old =
     (if msg_verb m \<noteq> FLOM_MSG_VERB_LOCK then Inr old
      else if msg_step m = 2 * FLOM_MSG_STEP_INCR then Inr (ans_rc (l16_answer (lock_16 m)))
      else if msg_step m = 3 * FLOM_MSG_STEP_INCR then Inr (ans_rc (lock_24 m))
      else if msg_step m = 4 * FLOM_MSG_STEP_INCR then
        (if ans_rc (lock_24 m) \<noteq> FLOM_RC_OK then Inl FLOM_RC_LOCK_CANT_LOCK else Inr FLOM_RC_OK)
      else Inl FLOM_RC_PROTOCOL_ERROR)"

text \<open>
  \<^verbatim>\<open>flom_client_wait_lock\<close>: a loop without end over the messages that arrive.  \<open>None\<close> stands for a
  client that still waits after them; \<open>mba\<close> is the local variable, which is not initialized.
\<close>

fun flom_client_wait_lock ::
  "(string \<Rightarrow> string option) \<Rightarrow> int \<Rightarrow> int \<Rightarrow> answer_input list \<Rightarrow> flom_msg \<Rightarrow> client_st \<Rightarrow> (rc \<times> flom_msg \<times> client_st) option" where
  "flom_client_wait_lock unb64 timeout mba [] m s = None"
| "flom_client_wait_lock unb64 timeout mba (a # as) m s =
     (case client_recv timeout a s of
        (rc, n, buffer, rest) \<Rightarrow>
          if rc \<noteq> FLOM_RC_OK then Some (rc, m, s)
          else
            (case an_markup a buffer of
               (events, parsed) \<Rightarrow>
                 (let m1 = flom_msg_deserialize unb64 events flom_msg_init in
                  if \<not> parsed then Some (FLOM_RC_G_MARKUP_PARSE_CONTEXT_PARSE_ERROR, m1, s)
                  else
                    (let s1 = s\<lparr>ct_last_step := msg_step m1\<rparr> in
                     case wait_answer m1 mba of
                       Inl rc \<Rightarrow> Some (rc, m1, s1)
                     | Inr mba1 \<Rightarrow>
                         if mba1 = FLOM_RC_LOCK_ENQUEUED then flom_client_wait_lock unb64 timeout mba1 as m1 s1
                         else Some (FLOM_RC_OK, m1, s1)))))"

definition client_lock_request :: "string \<Rightarrow> string \<Rightarrow> config_value \<Rightarrow> flom_msg" where
  "client_lock_request peerid name c =
     flom_msg_init\<lparr>msg_level := FLOM_MSG_LEVEL, msg_verb := FLOM_MSG_VERB_LOCK, msg_step := FLOM_MSG_STEP_INCR,
       lock_8 := \<lparr> l8_peerid = Some peerid, l8_name = Some name, l8_mode = cf_lock_mode c,
                   l8_wait = (if cf_resource_timeout c \<noteq> 0 then 1 else 0), l8_quantity = cf_resource_quantity c,
                   l8_create = (if cf_resource_create c then 1 else 0), l8_lifespan = cf_resource_idle_lifespan c \<rparr>\<rparr>"

definition copy_element :: "string option \<Rightarrow> client_st \<Rightarrow> client_st" where
  "copy_element el s =
     (case el of
        None \<Rightarrow> s
      | Some t \<Rightarrow>
          (case g_strdup (Some t) (g_free (ct_element s) (heap (ct_config s))) of
             (p, h) \<Rightarrow> s\<lparr>ct_element := p, ct_config := (ct_config s)\<lparr>heap := h\<rparr>\<rparr>))"

text \<open>The answer to the request, after it has been checked.\<close>

definition lock_answer :: "lock_input \<Rightarrow> int \<Rightarrow> flom_msg \<Rightarrow> client_st \<Rightarrow> (rc \<times> client_st) option" where
  "lock_answer inp timeout m s =
     (let ans = l16_answer (lock_16 m); rc = ans_rc ans in
      if rc = FLOM_RC_OK then Some (FLOM_RC_OK, copy_element (ans_element ans) s)
      else if rc = FLOM_RC_LOCK_ENQUEUED \<or> rc = FLOM_RC_LOCK_WAIT_RESOURCE then
        (case flom_client_wait_lock (lo_unb64 inp) timeout (lo_stack inp) (lo_waits inp) m s of
           None \<Rightarrow> None
         | Some (rc, m1, s1) \<Rightarrow>
             if rc \<noteq> FLOM_RC_OK then Some (rc, s1)
             else if ct_last_step s1 = 3 * FLOM_MSG_STEP_INCR \<or> ct_last_step s1 = 4 * FLOM_MSG_STEP_INCR then
               Some (FLOM_RC_OK, copy_element (ans_element (lock_24 m1)) s1)
             else Some (FLOM_RC_INTERNAL_ERROR, s1))
      else if rc \<in> {FLOM_RC_LOCK_BUSY, FLOM_RC_LOCK_IMPOSSIBLE, FLOM_RC_LOCK_CANT_WAIT} then Some (rc, s)
      else Some (FLOM_RC_PROTOCOL_ERROR, s))"

definition lock_check_peer :: "lock_input \<Rightarrow> client_st \<Rightarrow> rc" where
  "lock_check_peer inp s =
     (if \<not> cf_tls_check_peer_id (ct_value s) then FLOM_RC_OK
      else if \<not> ct_tls s then FLOM_RC_NO_TLS_CONNECTION
      else if lo_peer_name inp = None then FLOM_RC_NULL_OBJECT
      else lo_cert_check inp)"

definition lock_reply :: "lock_input \<Rightarrow> int \<Rightarrow> client_st \<Rightarrow> (rc \<times> client_st) option" where
  "lock_reply inp timeout s =
     (case client_recv timeout (lo_answer inp) s of
        (rc, n, buffer, rest) \<Rightarrow>
          if rc \<noteq> FLOM_RC_OK then Some (rc, s)
          else if n = 0 then Some (FLOM_RC_CONNECTION_CLOSED_BY_SERVER, s)
          else if \<not> lo_parser_new inp then Some (FLOM_RC_G_MARKUP_PARSE_CONTEXT_NEW_ERROR, s)
          else
            (case an_markup (lo_answer inp) buffer of
               (events, parsed) \<Rightarrow>
                 (let m = flom_msg_deserialize (lo_unb64 inp) events flom_msg_init in
                  if \<not> parsed then Some (FLOM_RC_MSG_DESERIALIZE_ERROR, s)
                  else
                    (let s1 = s\<lparr>ct_last_step := msg_step m\<rparr> in
                     if msg_state m \<noteq> FLOM_MSG_STATE_READY then
                       Some (if msg_level m \<noteq> FLOM_MSG_LEVEL then FLOM_RC_PROTOCOL_LEVEL_MISMATCH
                             else FLOM_RC_MSG_DESERIALIZE_ERROR, s1)
                     else if msg_verb m \<noteq> FLOM_MSG_VERB_LOCK \<or> msg_step m \<noteq> 2 * FLOM_MSG_STEP_INCR then
                       Some (FLOM_RC_PROTOCOL_ERROR, s1)
                     else if lock_check_peer inp s1 \<noteq> FLOM_RC_OK then Some (lock_check_peer inp s1, s1)
                     else lock_answer inp timeout m s1))))"

text \<open>A message is sent: the text, the bytes on the wire, the step that is remembered, the release.\<close>

definition client_send :: "(string \<Rightarrow> string) \<Rightarrow> (nat \<Rightarrow> char) \<Rightarrow> send_calls \<Rightarrow> flom_msg \<Rightarrow> client_st \<Rightarrow> rc \<times> client_st" where
  "client_send b64 old k m s =
     (case flom_msg_serialize b64 old m network_buffer_size of
        Inl rc \<Rightarrow> (rc, s)
      | Inr text \<Rightarrow>
          (case conn_send (ct_tls s) k (length text) of
             rc \<Rightarrow> if rc \<noteq> FLOM_RC_OK then (rc, s)
                   else (fst (flom_msg_free m), s\<lparr>ct_last_step := msg_step m, ct_sent := ct_sent s @ [m]\<rparr>)))"

definition flom_client_lock :: "lock_input \<Rightarrow> int \<Rightarrow> client_st \<Rightarrow> (rc \<times> client_st) option" where
  "flom_client_lock inp timeout s =
     (case lo_uid inp of
        None \<Rightarrow> Some (FLOM_RC_NULL_OBJECT, s)
      | Some peerid \<Rightarrow>
          (case cf_resource_name (ct_value s) of
             None \<Rightarrow> Some (FLOM_RC_G_STRDUP_ERROR, s)
           | Some name \<Rightarrow>
               (case client_send (lo_b64 inp) (lo_old inp) (lo_send inp) (client_lock_request peerid name (ct_value s)) s of
                  (rc, s1) \<Rightarrow> if rc \<noteq> FLOM_RC_OK then Some (rc, s1) else lock_reply inp timeout s1)))"

definition client_unlock_request :: "string \<Rightarrow> bool \<Rightarrow> flom_msg" where
  "client_unlock_request name rollback =
     flom_msg_init\<lparr>msg_level := FLOM_MSG_LEVEL, msg_verb := FLOM_MSG_VERB_UNLOCK, msg_step := FLOM_MSG_STEP_INCR,
       unlock_8 := \<lparr> u8_name = Some name, u8_rollback = (if rollback then 1 else 0) \<rparr>\<rparr>"

definition flom_client_unlock :: "lock_input \<Rightarrow> bool \<Rightarrow> client_st \<Rightarrow> rc \<times> client_st" where
  "flom_client_unlock inp rollback s =
     (case cf_resource_name (ct_value s) of
        None \<Rightarrow> (FLOM_RC_G_STRDUP_ERROR, s)
      | Some name \<Rightarrow> client_send (lo_b64 inp) (lo_old inp) (lo_send inp) (client_unlock_request name rollback) s)"

text \<open>The results of \<^verbatim>\<open>shutdown\<close> and \<^verbatim>\<open>recv\<close> are ignored.\<close>

definition flom_client_disconnect :: "bool \<Rightarrow> client_st \<Rightarrow> rc \<times> client_st" where
  "flom_client_disconnect close_fails s =
     (case flom_conn_terminate close_fails (ct_conn s) of
        (rc, c) \<Rightarrow>
          (rc, (if cn_sockfd c \<noteq> cn_sockfd (ct_conn s) then close_fd (cn_sockfd (ct_conn s)) s else s)\<lparr>ct_conn := c\<rparr>))"

section \<open>Shutdown of a daemon\<close>

record shutdown_input =
  sd_conn :: bool
  sd_connect :: connect_input
  sd_discover :: discover_input
  sd_uid :: "string option"
  sd_b64 :: "string \<Rightarrow> string"
  sd_old :: "nat \<Rightarrow> char"
  sd_send :: send_calls
  sd_close_fails :: bool

definition shutdown_request :: "string \<Rightarrow> bool \<Rightarrow> flom_msg" where
  "shutdown_request peerid immediate =
     flom_msg_init\<lparr>msg_level := FLOM_MSG_LEVEL, msg_verb := FLOM_MSG_VERB_MNGMNT, msg_step := FLOM_MSG_STEP_INCR,
       mngmnt_8 := \<lparr> m8_peerid = Some peerid, m8_action = FLOM_MSG_MNGMNT_ACTION_SHUTDOWN,
                     m8_immediate = (if immediate then 1 else 0) \<rparr>\<rparr>"

text \<open>A connection object of zeros, as \<^verbatim>\<open>g_try_malloc0\<close> gives it.\<close>

definition zero_conn :: "client_st \<Rightarrow> client_st" where
  "zero_conn s = s\<lparr>ct_conn := flom_conn_init 0 0 True, ct_type := SOCK_OTHER, ct_last_step := 0, ct_tls := False\<rparr>"

text \<open>
  \<^verbatim>\<open>flom_client_shutdown\<close>.  The answer of the daemon is only logged; no daemon is started, so there
  is no second discovery.  \<^verbatim>\<open>flom_conn_new\<close> initializes the object also when there is none.
\<close>

definition flom_client_shutdown :: "shutdown_input \<Rightarrow> bool \<Rightarrow> client_st \<Rightarrow> (rc \<times> client_st) call" where
  "flom_client_shutdown inp immediate s =
     (if \<not> sd_conn inp then Crashed
      else
        (case flom_client_connect (sd_connect inp) (sd_discover inp) (sd_discover inp) False (zero_conn s) of
           Exited \<Rightarrow> Exited
         | Crashed \<Rightarrow> Crashed
         | Ret (rc, s1) \<Rightarrow>
             if rc \<noteq> FLOM_RC_OK then Ret (rc, s1)
             else
               (case sd_uid inp of
                  None \<Rightarrow> Ret (FLOM_RC_NULL_OBJECT, s1)
                | Some peerid \<Rightarrow>
                    (case client_send (sd_b64 inp) (sd_old inp) (sd_send inp) (shutdown_request peerid immediate) s1 of
                       (rc, s2) \<Rightarrow>
                         if rc \<noteq> FLOM_RC_OK then Ret (rc, s2) else Ret (flom_client_disconnect (sd_close_fails inp) s2)))))"

section \<open>What a connection changes\<close>

text \<open>
  The configuration of a client is changed by a discovery alone, which keeps the resource name and
  the lifespan of the daemon.
\<close>

definition cfg_kept :: "cfg_state \<Rightarrow> cfg_state \<Rightarrow> bool" where
  "cfg_kept c c' \<longleftrightarrow> cf_daemon_lifespan (cfg c') = cf_daemon_lifespan (cfg c) \<and>
     (\<forall>F. owns F c \<longrightarrow> owns F c' \<and> cf_resource_name (value_of c') = cf_resource_name (value_of c))"

lemma cfg_kept_refl [simp]: "cfg_kept c c"
  by (simp add: cfg_kept_def)

lemma cfg_kept_trans: "cfg_kept c c' \<Longrightarrow> cfg_kept c' c'' \<Longrightarrow> cfg_kept c c''"
  by (auto simp: cfg_kept_def)

lemma value_lifespan [simp]: "cf_daemon_lifespan (value_of c) = cf_daemon_lifespan (cfg c)"
  by (simp add: value_of_def view_def)

lemma cfg_kept_unicast_address: "cfg_kept c (flom_config_set_unicast_address v c)"
  using setters_own(3) setters_value(3)
  by (auto simp: cfg_kept_def flom_config_set_unicast_address_def set_string_def split: prod.splits)

lemma cfg_kept_plain:
  assumes "ptrs (f (cfg c)) = ptrs (cfg c)" "cf_daemon_lifespan (f (cfg c)) = cf_daemon_lifespan (cfg c)"
  shows "cfg_kept c (set_plain f c)"
proof -
  have "cf_resource_name (f (cfg c)) = cf_resource_name (cfg c)" using assms(1) by (simp add: ptrs_def)
  then show ?thesis
    using assms owns_set_plain [of f c] by (simp add: cfg_kept_def set_plain_def value_of_def view_def)
qed

lemma cfg_kept_unicast_port: "cfg_kept c (flom_config_set_unicast_port v c)"
  unfolding flom_config_set_unicast_port_def by (rule cfg_kept_plain) (simp_all add: ptrs_def)

lemma cfg_kept_interface: "cfg_kept c (set_string cf_network_interface cf_network_interface_update v c)"
  using string_setters_own(8) string_setters_value(8)
  by (auto simp: cfg_kept_def set_string_def split: prod.splits)

lemma cfg_kept_scope_id: "cfg_kept c (snd (flom_config_set_sin6_scope_id e sc c))"
proof -
  have p: "cfg_kept c (set_plain (cf_sin6_scope_id_update (\<lambda>_. sc)) c)"
    by (rule cfg_kept_plain) (simp_all add: ptrs_def)
  show ?thesis
    using cfg_kept_trans [OF p cfg_kept_interface]
    by (simp add: flom_config_set_sin6_scope_id_def split: option.splits)
qed

definition connect_frame :: "client_st \<Rightarrow> client_st \<Rightarrow> bool" where
  "connect_frame s s' \<longleftrightarrow> cfg_kept (ct_config s) (ct_config s') \<and> ct_element s' = ct_element s \<and>
     ct_sent s' = ct_sent s \<and> cn_state (ct_conn s') = cn_state (ct_conn s) \<and>
     (cf_daemon_lifespan (cfg (ct_config s)) = 0 \<longrightarrow> ct_forks s' = ct_forks s)"

text \<open>The descriptors: a call that succeeds opens exactly one, which is the one of the connection.\<close>

definition connect_fd :: "client_st \<Rightarrow> rc \<Rightarrow> client_st \<Rightarrow> bool" where
  "connect_fd s rc s' \<longleftrightarrow>
     (rc = FLOM_RC_OK \<longrightarrow> (\<exists>fd. cn_sockfd (ct_conn s') = fd \<and> ct_open s' = fd # ct_open s))"

lemma connect_frame_refl [simp]: "connect_frame s s"
  by (simp add: connect_frame_def)

lemma connect_frame_trans: "connect_frame s s' \<Longrightarrow> connect_frame s' s'' \<Longrightarrow> connect_frame s s''"
  by (auto simp: connect_frame_def cfg_kept_def)

lemmas client_state_defs = set_sockfd_def open_fd_def close_fd_def ct_value_def

lemma connect_local_frame:
  "flom_client_connect_local inp st s = (rc, s') \<Longrightarrow> connect_frame s s' \<and> connect_fd s rc s'"
  by (auto simp: flom_client_connect_local_def connect_frame_def connect_fd_def client_state_defs Let_def
      split: option.splits connect_result.splits if_splits)

lemma tcp_connect_frame:
  "flom_tcp_connect r s = (rc, s') \<Longrightarrow> connect_frame s s' \<and> connect_fd s rc s' \<and> (rc \<noteq> FLOM_RC_OK \<longrightarrow> s' = s)"
  by (auto simp: flom_tcp_connect_def connect_frame_def connect_fd_def client_state_defs split: option.splits)

lemma connect_tcp_once_frame:
  "connect_tcp_once nf r s = (rc, s') \<Longrightarrow> connect_frame s s' \<and> connect_fd s rc s' \<and>
     (rc = FLOM_RC_CONNECTION_REFUSED \<longrightarrow> ct_open s' = ct_open s)"
  by (auto simp: connect_tcp_once_def flom_tcp_connect_def connect_frame_def connect_fd_def client_state_defs
      split: option.splits if_splits)

lemma connect_tcp_frame:
  assumes "flom_client_connect_tcp inp st s = (rc, s')"
  shows "connect_frame s s' \<and> connect_fd s rc s' \<and> (rc = FLOM_RC_CONNECTION_REFUSED \<longrightarrow> ct_open s' = ct_open s)"
proof -
  obtain rc1 s1 where o: "connect_tcp_once (co_nodelay_fails inp) (co_getaddrinfo inp) s = (rc1, s1)"
    by fastforce
  note f1 = connect_tcp_once_frame [OF o]
  show ?thesis
  proof (cases "rc1 = FLOM_RC_CONNECTION_REFUSED \<and> st \<and> cf_daemon_lifespan (ct_value s1) \<noteq> 0 \<and>
      (co_daemon inp = FLOM_RC_OK \<or> co_daemon inp = FLOM_RC_BIND_ERROR)")
    case True
    obtain rc2 s2 where o2: "connect_tcp_once (co_nodelay_fails inp) (co_getaddrinfo_again inp)
        (s1\<lparr>ct_forks := Suc (ct_forks s1)\<rparr>) = (rc2, s2)"
      by fastforce
    have "s' = s2" "rc = FLOM_RC_OK \<longrightarrow> rc2 = FLOM_RC_OK" "rc \<noteq> FLOM_RC_CONNECTION_REFUSED"
      using assms True o o2 by (auto simp: flom_client_connect_tcp_def Let_def split: if_splits)
    moreover have "cf_daemon_lifespan (cfg (ct_config s)) \<noteq> 0"
      using True f1 by (simp add: connect_frame_def cfg_kept_def ct_value_def)
    ultimately show ?thesis
      using f1 connect_tcp_once_frame [OF o2] True
      by (auto simp: connect_frame_def connect_fd_def intro: cfg_kept_trans)
  next
    case False
    then show ?thesis
      using assms o f1
      by (auto simp: flom_client_connect_tcp_def Let_def connect_frame_def connect_fd_def cfg_kept_def ct_value_def
          split: if_splits)
  qed
qed

text \<open>The frames of a discovery; one that finds no daemon leaves no descriptor open.\<close>

definition call_frame :: "client_st \<Rightarrow> (rc \<times> client_st) call \<Rightarrow> bool" where
  "call_frame s r \<longleftrightarrow> (\<forall>rc s'. r = Ret (rc, s') \<longrightarrow> connect_frame s s' \<and> connect_fd s rc s' \<and>
     (rc = FLOM_RC_CONNECTION_REFUSED \<longrightarrow> ct_open s' = ct_open s))"

lemma discover_udp_connect_frame: "call_frame s (Ret (flom_client_discover_udp_connect inp s))"
  by (auto simp: call_frame_def flom_client_discover_udp_connect_def connect_frame_def connect_fd_def
      client_state_defs split: option.splits if_splits)

lemma connect_frame_config:
  assumes "cfg_kept (ct_config s) c"
  shows "connect_frame s (s\<lparr>ct_config := c\<rparr>)"
  using assms by (simp add: connect_frame_def)

lemma discover_connect_frame: "call_frame s (discover_connect inp st family m s)"
proof (cases "d16_address (discover_16 m)")
  case (Some t)
  show ?thesis
  proof (cases "t = []")
    case True
    then show ?thesis using Some discover_udp_connect_frame by (simp add: discover_connect_def)
  next
    case False
    let ?c1 = "flom_config_set_unicast_port (d16_port (discover_16 m)) (flom_config_set_unicast_address (Some t) (ct_config s))"
    define r where "r = (if family = AF_INET6 then flom_config_set_sin6_scope_id (du_interfaces inp) (du_scope_id inp) ?c1
      else (FLOM_RC_OK, ?c1))"
    have k: "cfg_kept (ct_config s) (snd r)"
      using cfg_kept_trans [OF cfg_kept_trans [OF cfg_kept_unicast_address cfg_kept_unicast_port] cfg_kept_scope_id]
        cfg_kept_trans [OF cfg_kept_unicast_address cfg_kept_unicast_port] by (simp add: r_def)
    let ?s1 = "s\<lparr>ct_config := snd r\<rparr>"
    have e: "discover_connect inp st family m s =
        (if fst r \<noteq> FLOM_RC_OK then Ret (fst r, ?s1) else Ret (flom_client_connect_tcp (du_tcp inp) st ?s1))"
      using Some False by (cases t) (simp_all add: discover_connect_def Let_def r_def case_prod_unfold)
    obtain rc s' where t: "flom_client_connect_tcp (du_tcp inp) st ?s1 = (rc, s')" by fastforce
    have "connect_frame s s'" "connect_fd s rc s'" "rc = FLOM_RC_CONNECTION_REFUSED \<longrightarrow> ct_open s' = ct_open s"
      using connect_tcp_frame [OF t] connect_frame_trans [OF connect_frame_config [OF k]] by (auto simp: connect_fd_def)
    then show ?thesis
      unfolding e using connect_frame_config [OF k] t by (auto simp: call_frame_def connect_fd_def)
  qed
qed (simp add: discover_connect_def call_frame_def)

lemma ser_bind_error: "x \<noteq> Inl FLOM_RC_OK \<Longrightarrow> (\<And>y. f y \<noteq> Inl FLOM_RC_OK) \<Longrightarrow> ser_bind x f \<noteq> Inl FLOM_RC_OK"
  by (cases x) (simp_all add: ser_bind_def)

lemma put_error: "put t b \<noteq> Inl FLOM_RC_OK"
  by (simp add: put_def)

lemma body_error: "flom_msg_serialize_body b64 old m b \<noteq> Inl FLOM_RC_OK"
proof -
  have "flom_msg_serialize_lock_8 b64 m b \<noteq> Inl FLOM_RC_OK" "flom_msg_serialize_lock_16 m b \<noteq> Inl FLOM_RC_OK"
    "flom_msg_serialize_mngmnt_8 old m b \<noteq> Inl FLOM_RC_OK"
    unfolding flom_msg_serialize_lock_8_def flom_msg_serialize_lock_16_def flom_msg_serialize_mngmnt_8_def Let_def
    by (rule ser_bind_error; simp add: put_error split: option.split)+
  then show ?thesis
    by (simp add: flom_msg_serialize_body_def flom_msg_serialize_lock_24_def flom_msg_serialize_lock_32_def
        flom_msg_serialize_unlock_8_def flom_msg_serialize_ping_def flom_msg_serialize_discover_8_def
        flom_msg_serialize_discover_16_def Let_def put_error split: option.split)
qed

lemma serialize_error: "flom_msg_serialize b64 old m n = Inl rc \<Longrightarrow> rc \<noteq> FLOM_RC_OK"
proof -
  have "flom_msg_serialize b64 old m n \<noteq> Inl FLOM_RC_OK"
    unfolding flom_msg_serialize_def by (intro ser_bind_error put_error body_error) simp
  then show "flom_msg_serialize b64 old m n = Inl rc \<Longrightarrow> rc \<noteq> FLOM_RC_OK" by auto
qed

lemma discover_open_error: "discover_open as = Ret (Inl rc) \<Longrightarrow> rc \<noteq> FLOM_RC_OK"
  by (induction as rule: discover_open.induct) (auto split: if_splits option.splits list.splits)

lemma discover_attempts_error: "discover_attempts inp is = Inl rc \<Longrightarrow> rc \<noteq> FLOM_RC_OK"
  by (induction inp "is" rule: discover_attempts.induct) (auto split: if_splits udp_answer.splits)

lemma discover_udp_frame: "call_frame s (flom_client_discover_udp inp st s)"
proof -
  have r: "call_frame s (discover_reply inp st family t s)" for family t
    using discover_connect_frame [of s] by (simp add: discover_reply_def call_frame_def connect_fd_def split: prod.split)
  have e: "call_frame s (Ret (rc, s))" if "rc \<noteq> FLOM_RC_OK" for rc
    using that by (simp add: call_frame_def connect_fd_def)
  have n: "call_frame s Exited" "call_frame s Crashed" by (simp_all add: call_frame_def)
  show ?thesis
    by (auto simp: flom_client_discover_udp_def r n split: option.split call.split sum.split
        intro!: e dest: serialize_error discover_open_error discover_attempts_error)
qed

lemma connect_frame_fork:
  "connect_frame s s1 \<Longrightarrow> cf_daemon_lifespan (ct_value s1) \<noteq> 0 \<Longrightarrow> connect_frame s (s1\<lparr>ct_forks := n\<rparr>)"
  by (simp add: connect_frame_def cfg_kept_def ct_value_def)

lemma connect_discover_frame:
  assumes "connect_discover inp du1 du2 st s = Ret (rc, s')"
  shows "connect_frame s s' \<and> connect_fd s rc s'"
proof (cases "flom_client_discover_udp du1 st s")
  case (Ret p)
  obtain rc1 s1 where p: "p = (rc1, s1)" by fastforce
  have f: "connect_frame s s1" "connect_fd s rc1 s1" "rc1 = FLOM_RC_CONNECTION_REFUSED \<longrightarrow> ct_open s1 = ct_open s"
    using discover_udp_frame [of s du1 st] Ret p by (auto simp: call_frame_def)
  show ?thesis
  proof (cases "rc1 = FLOM_RC_CONNECTION_REFUSED \<and> st \<and> cf_daemon_lifespan (ct_value s1) \<noteq> 0")
    case True
    let ?s2 = "s1\<lparr>ct_forks := Suc (ct_forks s1)\<rparr>"
    have k: "connect_frame s ?s2" using connect_frame_fork f(1) True by blast
    show ?thesis
    proof (cases "co_daemon inp = FLOM_RC_OK")
      case ok: True
      then have "flom_client_discover_udp du2 st ?s2 = Ret (rc, s')"
        using assms Ret p True by (simp add: connect_discover_def)
      then have "connect_frame ?s2 s'" "connect_fd ?s2 rc s'"
        using discover_udp_frame [of ?s2 du2 st] by (simp_all add: call_frame_def)
      then show ?thesis using connect_frame_trans [OF k] f(3) True by (simp add: connect_fd_def)
    qed (use assms Ret p True k in \<open>auto simp: connect_discover_def connect_fd_def\<close>)
  qed (use assms Ret p f in \<open>auto simp: connect_discover_def connect_fd_def split: if_splits\<close>)
qed (use assms in \<open>simp_all add: connect_discover_def\<close>)

lemma client_connect_frame:
  assumes "flom_client_connect inp du1 du2 st s = Ret (rc, s')"
  shows "connect_frame s s' \<and> connect_fd s rc s'"
proof (cases "connect_transport inp du1 du2 st s")
  case (Ret p)
  obtain rc1 s1 where p: "p = (rc1, s1)" by fastforce
  have f: "connect_frame s s1 \<and> connect_fd s rc1 s1"
    using Ret p connect_local_frame connect_tcp_frame connect_discover_frame
    by (auto simp: connect_transport_def connect_fd_def split: if_splits)
  then show ?thesis
    using assms Ret p
    by (auto simp: flom_client_connect_def connect_tls_def connect_frame_def connect_fd_def Let_def split: if_splits)
qed (use assms in \<open>simp_all add: flom_client_connect_def\<close>)

section \<open>The strings of a client\<close>

text \<open>
  A client owns the strings of its configuration and its locked element over the frame \<open>G\<close> of all
  other strings.
\<close>

definition held :: "(addr \<Rightarrow> string option) \<Rightarrow> client_st \<Rightarrow> bool" where
  "held G s \<longleftrightarrow>
     (case ct_element s of
        None \<Rightarrow> owns G (ct_config s)
      | Some a \<Rightarrow> G a = None \<and> (\<exists>t. owns (G(a \<mapsto> t)) (ct_config s)))"

lemma value_heap:
  assumes "owns F c" "\<And>a. Some a \<in> set (ptrs (cfg c)) \<Longrightarrow> h_map h a = h_map (heap c) a"
  shows "value_of (c\<lparr>heap := h\<rparr>) = value_of c"
proof -
  have "str_of h p = str_of (heap c) p" if "p \<in> set (ptrs (cfg c))" for p
    using that assms(2) by (auto simp: str_of_def split: option.split)
  then have "ptrs (view h (cfg c)) = ptrs (view (heap c) (cfg c))" by (simp flip: view_ptrs)
  then show ?thesis by (simp add: value_of_def view_def ptrs_def)
qed

lemma owns_drop:
  assumes o: "owns (G(a \<mapsto> t)) c" and G: "G a = None"
  shows "owns G (c\<lparr>heap := g_free (Some a) (heap c)\<rparr>)" "value_of (c\<lparr>heap := g_free (Some a) (heap c)\<rparr>) = value_of c"
proof -
  have a: "Some a \<notin> set (ptrs (cfg c))" using o by (auto simp: owns_def owns_list_def)
  then have m: "h_map (heap c) a = Some t" using o by (auto simp: owns_def owns_list_def)
  show "owns G (c\<lparr>heap := g_free (Some a) (heap c)\<rparr>)"
    using o a m G by (auto simp: owns_def owns_list_def g_free_def split: if_splits)
  show "value_of (c\<lparr>heap := g_free (Some a) (heap c)\<rparr>) = value_of c"
    using o a m by (intro value_heap) (auto simp: g_free_def)
qed

lemma owns_add:
  assumes o: "owns G c" and d: "g_strdup (Some t) (heap c) = (p, h)"
  shows "\<exists>a. p = Some a \<and> G a = None \<and> owns (G(a \<mapsto> t)) (c\<lparr>heap := h\<rparr>)" "value_of (c\<lparr>heap := h\<rparr>) = value_of c"
proof -
  let ?n = "h_next (heap c)"
  have p: "p = Some ?n" and h: "h = (heap c)\<lparr>h_map := (h_map (heap c))(?n := Some t), h_next := Suc ?n\<rparr>"
    using d by (auto simp: g_strdup_def)
  have f: "h_map (heap c) ?n = None" using o by (simp add: owns_def owns_list_def)
  then have n: "Some ?n \<notin> set (ptrs (cfg c))" "G ?n = None"
    using o unfolding owns_def owns_list_def by (blast, metis)
  have "owns (G(?n \<mapsto> t)) (c\<lparr>heap := h\<rparr>)"
    using o n f by (auto simp: owns_def owns_list_def h)
  then show "\<exists>a. p = Some a \<and> G a = None \<and> owns (G(a \<mapsto> t)) (c\<lparr>heap := h\<rparr>)" using p n by blast
  show "value_of (c\<lparr>heap := h\<rparr>) = value_of c"
    using o n by (intro value_heap) (auto simp: h)
qed

text \<open>The element released, and a new one in its place.\<close>

definition free_element :: "client_st \<Rightarrow> client_st" where
  "free_element s =
     s\<lparr>ct_element := None, ct_config := (ct_config s)\<lparr>heap := g_free (ct_element s) (heap (ct_config s))\<rparr>\<rparr>"

lemma held_free_element:
  assumes "held G s"
  shows "owns G (ct_config (free_element s))" "ct_value (free_element s) = ct_value s"
  using assms owns_drop
  by (cases "ct_element s"; auto simp: held_def free_element_def g_free_def ct_value_def)+

lemma held_copy_element:
  assumes "held G s"
  shows "held G (copy_element el s)" "ct_value (copy_element el s) = ct_value s"
proof -
  note f = held_free_element [OF assms]
  have "held G (copy_element el s) \<and> ct_value (copy_element el s) = ct_value s"
  proof (cases el)
    case (Some t)
    obtain p h where d: "g_strdup (Some t) (heap (ct_config (free_element s))) = (p, h)" by fastforce
    have e: "copy_element el s =
        (free_element s)\<lparr>ct_element := p, ct_config := (ct_config (free_element s))\<lparr>heap := h\<rparr>\<rparr>"
      using Some d by (simp add: copy_element_def free_element_def)
    obtain a where "p = Some a" "G a = None" "owns (G(a \<mapsto> t)) ((ct_config (free_element s))\<lparr>heap := h\<rparr>)"
      using owns_add(1) [OF f(1) d] by blast
    then show ?thesis using owns_add(2) [OF f(1) d] f(2) by (auto simp: e held_def ct_value_def)
  qed (simp add: copy_element_def assms)
  then show "held G (copy_element el s)" "ct_value (copy_element el s) = ct_value s" by simp_all
qed

lemma held_connect:
  assumes "connect_frame s s'" "held G s"
  shows "held G s'" "cf_resource_name (ct_value s') = cf_resource_name (ct_value s)"
proof -
  have k: "owns F (ct_config s')" "cf_resource_name (ct_value s') = cf_resource_name (ct_value s)"
    if "owns F (ct_config s)" for F
    using assms(1) that by (auto simp: connect_frame_def cfg_kept_def ct_value_def)
  have e: "ct_element s' = ct_element s" using assms(1) by (simp add: connect_frame_def)
  show "held G s'" "cf_resource_name (ct_value s') = cf_resource_name (ct_value s)"
    using assms(2) k e by (auto simp: held_def split: option.splits)
qed

section \<open>What a lock request changes\<close>

definition lock_frame :: "client_st \<Rightarrow> client_st \<Rightarrow> bool" where
  "lock_frame s s' \<longleftrightarrow> ct_conn s' = ct_conn s \<and> ct_open s' = ct_open s \<and> ct_forks s' = ct_forks s \<and>
     ct_type s' = ct_type s \<and> ct_tls s' = ct_tls s \<and> cfg (ct_config s') = cfg (ct_config s) \<and>
     (\<forall>G. held G s \<longrightarrow> held G s' \<and> ct_value s' = ct_value s)"

lemma lock_frame_refl [simp]: "lock_frame s s"
  by (simp add: lock_frame_def)

lemma lock_frame_trans: "lock_frame s s' \<Longrightarrow> lock_frame s' s'' \<Longrightarrow> lock_frame s s''"
  by (auto simp: lock_frame_def)

lemma lock_frame_step [simp]: "lock_frame s (s\<lparr>ct_last_step := n\<rparr>)" "lock_frame s (s\<lparr>ct_last_step := n, ct_sent := ms\<rparr>)"
  by (simp_all add: lock_frame_def held_def ct_value_def split: option.splits)

lemma lock_frame_copy: "lock_frame s (copy_element el s)"
  using held_copy_element [of _ s el]
  by (auto simp: lock_frame_def) (auto simp: copy_element_def split: option.splits prod.splits)

lemma sent_copy [simp]: "ct_sent (copy_element el s) = ct_sent s" "ct_last_step (copy_element el s) = ct_last_step s"
  by (auto simp: copy_element_def split: option.splits prod.splits)

lemma wait_lock_frame:
  "flom_client_wait_lock unb64 timeout mba as m s = Some (rc, m', s') \<Longrightarrow> lock_frame s s' \<and> ct_sent s' = ct_sent s"
proof (induction unb64 timeout mba as m s rule: flom_client_wait_lock.induct)
  case (2 unb64 timeout mba a as m s)
  obtain rc1 n buffer rest where r: "client_recv timeout a s = (rc1, n, buffer, rest)" by (metis prod.exhaust)
  obtain events parsed where e: "an_markup a buffer = (events, parsed)" by fastforce
  let ?m = "flom_msg_deserialize unb64 events flom_msg_init"
  show ?case
  proof (cases "rc1 = FLOM_RC_OK \<and> parsed \<and> wait_answer ?m mba = Inr FLOM_RC_LOCK_ENQUEUED")
    case True
    then have "flom_client_wait_lock unb64 timeout FLOM_RC_LOCK_ENQUEUED as ?m (s\<lparr>ct_last_step := msg_step ?m\<rparr>) = Some (rc, m', s')"
      using "2.prems" r e by (simp add: Let_def)
    then have "lock_frame (s\<lparr>ct_last_step := msg_step ?m\<rparr>) s'" "ct_sent s' = ct_sent s"
      using "2.IH" [OF r [symmetric] refl refl] r e True by (auto simp: Let_def)
    then show ?thesis using lock_frame_trans lock_frame_step(1) by blast
  next
    case False
    then show ?thesis using "2.prems" r e by (auto simp: Let_def split: if_splits sum.splits)
  qed
qed simp

text \<open>An answer ends the wait, or the client goes on waiting.\<close>

definition client_msg :: "(string \<Rightarrow> string option) \<Rightarrow> int \<Rightarrow> answer_input \<Rightarrow> client_st \<Rightarrow> flom_msg option" where
  "client_msg unb64 timeout a s =
     (case client_recv timeout a s of
        (rc, n, buffer, rest) \<Rightarrow>
          if rc = FLOM_RC_OK \<and> snd (an_markup a buffer)
          then Some (flom_msg_deserialize unb64 (fst (an_markup a buffer)) flom_msg_init) else None)"

definition keeps_waiting :: "flom_msg option \<Rightarrow> bool" where
  "keeps_waiting r \<longleftrightarrow> (\<exists>m. r = Some m \<and> msg_verb m = FLOM_MSG_VERB_LOCK \<and>
     (msg_step m = 2 * FLOM_MSG_STEP_INCR \<and> ans_rc (l16_answer (lock_16 m)) = FLOM_RC_LOCK_ENQUEUED \<or>
      msg_step m = 3 * FLOM_MSG_STEP_INCR \<and> ans_rc (lock_24 m) = FLOM_RC_LOCK_ENQUEUED))"

lemma client_msg_step [simp]: "client_msg unb64 timeout a (s\<lparr>ct_last_step := n\<rparr>) = client_msg unb64 timeout a s"
  by (simp add: client_msg_def client_recv_def)

lemma wait_lock_step:
  "flom_client_wait_lock unb64 timeout mba (a # as) m s =
     (case client_msg unb64 timeout a s of
        None \<Rightarrow> Some (case client_recv timeout a s of
          (rc, n, buffer, rest) \<Rightarrow>
            if rc \<noteq> FLOM_RC_OK then (rc, m, s)
            else (FLOM_RC_G_MARKUP_PARSE_CONTEXT_PARSE_ERROR,
                  flom_msg_deserialize unb64 (fst (an_markup a buffer)) flom_msg_init, s))
      | Some m1 \<Rightarrow>
          (let s1 = s\<lparr>ct_last_step := msg_step m1\<rparr> in
           case wait_answer m1 mba of
             Inl rc \<Rightarrow> Some (rc, m1, s1)
           | Inr mba1 \<Rightarrow> if mba1 = FLOM_RC_LOCK_ENQUEUED then flom_client_wait_lock unb64 timeout mba1 as m1 s1
                        else Some (FLOM_RC_OK, m1, s1)))"
  by (auto simp: client_msg_def Let_def case_prod_unfold)

lemma wait_answer_lock:
  assumes "msg_verb m = FLOM_MSG_VERB_LOCK"
  shows "wait_answer m mba = Inr FLOM_RC_LOCK_ENQUEUED \<longleftrightarrow> keeps_waiting (Some m)"
  using assms by (auto simp: wait_answer_def keeps_waiting_def)

lemma wait_lock_skips:
  assumes "\<forall>a \<in> set as. keeps_waiting (client_msg unb64 timeout a s)"
  shows "\<exists>mba' m' n. flom_client_wait_lock unb64 timeout mba (as @ bs) m s =
      flom_client_wait_lock unb64 timeout mba' bs m' (s\<lparr>ct_last_step := n\<rparr>)"
  using assms
proof (induction as arbitrary: mba m s)
  case Nil
  show ?case by (intro exI [of _ mba] exI [of _ m] exI [of _ "ct_last_step s"]) simp
next
  case (Cons a as)
  then obtain m1 where m1: "client_msg unb64 timeout a s = Some m1" "keeps_waiting (Some m1)"
    by (auto simp: keeps_waiting_def)
  then have "wait_answer m1 mba = Inr FLOM_RC_LOCK_ENQUEUED"
    using wait_answer_lock by (auto simp: keeps_waiting_def)
  then have "flom_client_wait_lock unb64 timeout mba ((a # as) @ bs) m s =
      flom_client_wait_lock unb64 timeout FLOM_RC_LOCK_ENQUEUED (as @ bs) m1 (s\<lparr>ct_last_step := msg_step m1\<rparr>)"
    using m1 by (simp add: wait_lock_step Let_def del: flom_client_wait_lock.simps)
  then show ?case using Cons.IH [of "s\<lparr>ct_last_step := msg_step m1\<rparr>" FLOM_RC_LOCK_ENQUEUED m1] Cons.prems by simp
qed

lemma client_send_frame:
  assumes "client_send b64 old k m s = (rc, s')"
  shows "lock_frame s s'" "ct_config s' = ct_config s" "ct_sent s' \<in> {ct_sent s, ct_sent s @ [m]}"
    "rc = FLOM_RC_OK \<Longrightarrow> ct_sent s' = ct_sent s @ [m]"
  using assms by (auto simp: client_send_def dest: serialize_error split: sum.splits if_splits)

lemma lock_answer_frame:
  assumes "lock_answer inp timeout m s = Some (rc, s')"
  shows "lock_frame s s' \<and> ct_sent s' = ct_sent s"
proof (cases "ans_rc (l16_answer (lock_16 m)) \<in> {FLOM_RC_LOCK_ENQUEUED, FLOM_RC_LOCK_WAIT_RESOURCE}")
  case True
  then obtain rc1 m1 s1 where w: "flom_client_wait_lock (lo_unb64 inp) timeout (lo_stack inp) (lo_waits inp) m s = Some (rc1, m1, s1)"
    using assms by (auto simp: lock_answer_def Let_def split: option.splits)
  have "s' = s1 \<or> (\<exists>el. s' = copy_element el s1)"
    using assms True w by (auto simp: lock_answer_def Let_def split: if_splits)
  then show ?thesis
    using wait_lock_frame [OF w] lock_frame_trans lock_frame_copy by fastforce
next
  case False
  then show ?thesis using assms lock_frame_copy by (auto simp: lock_answer_def Let_def split: if_splits)
qed

lemma lock_reply_frame:
  assumes "lock_reply inp timeout s = Some (rc, s')"
  shows "lock_frame s s' \<and> ct_sent s' = ct_sent s"
proof -
  obtain rc1 n buffer rest where r: "client_recv timeout (lo_answer inp) s = (rc1, n, buffer, rest)" by (metis prod.exhaust)
  have "lock_frame s1 s2 \<Longrightarrow> ct_sent s2 = ct_sent s1 \<Longrightarrow> s1 = s\<lparr>ct_last_step := k\<rparr> \<Longrightarrow> lock_frame s s2 \<and> ct_sent s2 = ct_sent s" for s1 s2 k
    using lock_frame_trans lock_frame_step(1) by fastforce
  then show ?thesis
    using assms r lock_answer_frame
    by (fastforce simp: lock_reply_def Let_def split: if_splits prod.splits)
qed

lemma client_lock_frame:
  assumes "flom_client_lock inp timeout s = Some (rc, s')"
  shows "lock_frame s s'"
    "rc = FLOM_RC_OK \<longrightarrow> (\<exists>peerid name. lo_uid inp = Some peerid \<and> cf_resource_name (ct_value s) = Some name \<and>
       ct_sent s' = ct_sent s @ [client_lock_request peerid name (ct_value s)])"
proof -
  have "lock_frame s s' \<and> (rc = FLOM_RC_OK \<longrightarrow> (\<exists>peerid name. lo_uid inp = Some peerid \<and>
      cf_resource_name (ct_value s) = Some name \<and> ct_sent s' = ct_sent s @ [client_lock_request peerid name (ct_value s)]))"
  proof (cases "lo_uid inp = None \<or> cf_resource_name (ct_value s) = None")
    case False
    then obtain peerid name where n: "lo_uid inp = Some peerid" "cf_resource_name (ct_value s) = Some name" by auto
    obtain rc1 s1 where t: "client_send (lo_b64 inp) (lo_old inp) (lo_send inp) (client_lock_request peerid name (ct_value s)) s = (rc1, s1)"
      by fastforce
    show ?thesis
    proof (cases "rc1 = FLOM_RC_OK")
      case True
      then have "lock_reply inp timeout s1 = Some (rc, s')" using assms n t by (simp add: flom_client_lock_def)
      from lock_reply_frame [OF this] show ?thesis
        using client_send_frame(1,4) [OF t] True n lock_frame_trans by fastforce
    qed (use assms n t client_send_frame(1) [OF t] in \<open>auto simp: flom_client_lock_def\<close>)
  qed (use assms in \<open>auto simp: flom_client_lock_def split: option.splits\<close>)
  then show "lock_frame s s'" "rc = FLOM_RC_OK \<longrightarrow> (\<exists>peerid name. lo_uid inp = Some peerid \<and>
      cf_resource_name (ct_value s) = Some name \<and> ct_sent s' = ct_sent s @ [client_lock_request peerid name (ct_value s)])"
    by simp_all
qed

lemma wait_lock_final:
  "flom_client_wait_lock unb64 timeout mba as m s = Some (FLOM_RC_OK, m', s') \<Longrightarrow>
     \<exists>a \<in> set as. client_msg unb64 timeout a s = Some m' \<and> ct_last_step s' = msg_step m' \<and>
       (msg_verb m' = FLOM_MSG_VERB_LOCK \<longrightarrow> \<not> keeps_waiting (Some m') \<and>
          (msg_step m' = 4 * FLOM_MSG_STEP_INCR \<longrightarrow> ans_rc (lock_24 m') = FLOM_RC_OK))"
proof (induction as arbitrary: mba m s)
  case (Cons a as)
  show ?case
  proof (cases "client_msg unb64 timeout a s")
    case None
    then show ?thesis using Cons.prems by (auto simp: wait_lock_step simp del: flom_client_wait_lock.simps split: prod.splits if_splits)
  next
    case (Some m1)
    show ?thesis
    proof (cases "wait_answer m1 mba = Inr FLOM_RC_LOCK_ENQUEUED")
      case True
      then show ?thesis
        using Cons.prems Some Cons.IH [of FLOM_RC_LOCK_ENQUEUED m1 "s\<lparr>ct_last_step := msg_step m1\<rparr>"]
        by (simp add: wait_lock_step Let_def del: flom_client_wait_lock.simps)
    next
      case False
      then have "m' = m1" "s' = s\<lparr>ct_last_step := msg_step m1\<rparr>" "wait_answer m1 mba \<noteq> Inl FLOM_RC_LOCK_CANT_LOCK"
        using Cons.prems Some
        by (auto simp: wait_lock_step Let_def simp del: flom_client_wait_lock.simps split: sum.splits if_splits)
      then show ?thesis
        using Some False wait_answer_lock [of m1 mba] by (auto simp: wait_answer_def split: if_splits)
    qed
  qed
qed simp

lemma lock_answer_ok:
  assumes "lock_answer inp timeout m s = Some (FLOM_RC_OK, s')"
  shows "ans_rc (l16_answer (lock_16 m)) = FLOM_RC_OK \<or>
     ans_rc (l16_answer (lock_16 m)) \<in> {FLOM_RC_LOCK_ENQUEUED, FLOM_RC_LOCK_WAIT_RESOURCE} \<and>
     ct_last_step s' \<in> {3 * FLOM_MSG_STEP_INCR, 4 * FLOM_MSG_STEP_INCR} \<and>
     (\<exists>m1 s1. flom_client_wait_lock (lo_unb64 inp) timeout (lo_stack inp) (lo_waits inp) m s = Some (FLOM_RC_OK, m1, s1) \<and>
        ct_last_step s1 = ct_last_step s')"
  using assms by (auto simp: lock_answer_def Let_def split: if_splits option.splits)

lemma lock_reply_ok:
  assumes "lock_reply inp timeout s = Some (FLOM_RC_OK, s')"
  shows "\<exists>m. client_msg (lo_unb64 inp) timeout (lo_answer inp) s = Some m \<and> msg_state m = FLOM_MSG_STATE_READY \<and>
    msg_verb m = FLOM_MSG_VERB_LOCK \<and> msg_step m = 2 * FLOM_MSG_STEP_INCR \<and>
    lock_check_peer inp (s\<lparr>ct_last_step := msg_step m\<rparr>) = FLOM_RC_OK \<and>
    lock_answer inp timeout m (s\<lparr>ct_last_step := msg_step m\<rparr>) = Some (FLOM_RC_OK, s')"
  using assms by (auto simp: lock_reply_def client_msg_def Let_def split: prod.splits if_splits)

section \<open>Properties\<close>

text \<open>A client with a local socket, and the answers it may get.\<close>

definition sample_client :: client_st where
  "sample_client =
     \<lparr> ct_config = snd (flom_config_set_socket_name (Some ''s'') (flom_config_reset sample_heap)),
       ct_conn = flom_conn_init 0 5 True, ct_type = SOCK_STREAM, ct_last_step = 0, ct_tls = False,
       ct_element = None, ct_open = [5], ct_forks = 0, ct_sent = [] \<rparr>"

definition sample_answer :: "int \<Rightarrow> int \<Rightarrow> answer_input" where
  "sample_answer step rc =
     \<lparr> an_recv = \<lparr>rv_poll = 1, rv_tls = False, rv_type = SOCK_STREAM, rv_datagram = None, rv_chunks = (\<lambda>n. 64),
         rv_stream = ''<msg></msg>''\<rparr>,
       an_markup = (\<lambda>_. ([Start_element ''msg'' [(''level'', ''3''), (''verb'', ''1''), (''step'', string_of_int step)],
         Start_element ''answer'' [(''rc'', string_of_int rc), (''element'', ''e'')],
         End_element ''answer'', End_element ''msg''], True)) \<rparr>"

definition sample_closed :: answer_input where
  "sample_closed =
     \<lparr> an_recv = (an_recv (sample_answer 0 0))\<lparr>rv_stream := []\<rparr>, an_markup = (\<lambda>_. ([], True)) \<rparr>"

definition sample_lock_call :: "answer_input \<Rightarrow> answer_input list \<Rightarrow> lock_input" where
  "sample_lock_call a as =
     \<lparr> lo_uid = Some ''u'', lo_b64 = (\<lambda>t. t), lo_old = (\<lambda>_. CHR ''x''), lo_unb64 = Some,
       lo_send = \<lparr>sc_getsockopt_fails = False, sc_peer_closed = False, sc_written = 169\<rparr>,
       lo_answer = a, lo_parser_new = True, lo_peer_name = None, lo_cert_check = FLOM_RC_OK, lo_stack = 0, lo_waits = as \<rparr>"



text \<open>C14. A client that waits returns.  Whatever number of messages tell it that it is still in the queue,
  the first other answer to its request, a broken connection, a timeout or a message that is
  not well formed ends flom_client_wait_lock; the reason code is FLOM_RC_OK exactly when that message
  is a well-formed answer of the steps 16, 24 or 32 and, for the step 32, grants the lock.
\<close>

theorem client_wait_returns:
  assumes "\<forall>a \<in> set as. keeps_waiting (client_msg unb64 timeout a s)"
    and "case client_msg unb64 timeout b s of None \<Rightarrow> True
      | Some m1 \<Rightarrow> msg_verb m1 = FLOM_MSG_VERB_LOCK \<and> \<not> keeps_waiting (Some m1)"
  shows "\<exists>rc m' s'. flom_client_wait_lock unb64 timeout mba (as @ b # bs) m s = Some (rc, m', s') \<and>
    (rc = FLOM_RC_OK \<longleftrightarrow> (case client_msg unb64 timeout b s of None \<Rightarrow> False
       | Some m1 \<Rightarrow> msg_step m1 \<in> {2 * FLOM_MSG_STEP_INCR, 3 * FLOM_MSG_STEP_INCR} \<or>
           msg_step m1 = 4 * FLOM_MSG_STEP_INCR \<and> ans_rc (lock_24 m1) = FLOM_RC_OK))"
proof -
  obtain mba' m' n where w: "flom_client_wait_lock unb64 timeout mba (as @ b # bs) m s =
      flom_client_wait_lock unb64 timeout mba' (b # bs) m' (s\<lparr>ct_last_step := n\<rparr>)"
    using wait_lock_skips [OF assms(1)] by blast
  have rv: "client_recv timeout b (s\<lparr>ct_last_step := n\<rparr>) = client_recv timeout b s" by (simp add: client_recv_def)
  show ?thesis
  proof (cases "client_msg unb64 timeout b s")
    case None
    then show ?thesis
      unfolding w by (auto simp: wait_lock_step rv simp del: flom_client_wait_lock.simps split: prod.split)
  next
    case (Some m1)
    then have "wait_answer m1 mba' \<noteq> Inr FLOM_RC_LOCK_ENQUEUED" "msg_verb m1 = FLOM_MSG_VERB_LOCK"
      using assms(2) wait_answer_lock by auto
    then show ?thesis
      unfolding w using Some
      by (auto simp: wait_lock_step wait_answer_def Let_def simp del: flom_client_wait_lock.simps split: sum.split if_splits)
  qed
qed

theorem client_wait_returns_witness:
  "\<exists>rc m' s'. flom_client_wait_lock Some 0 0 [sample_answer 24 FLOM_RC_LOCK_ENQUEUED, sample_answer 32 FLOM_RC_LOCK_BUSY]
     flom_msg_init sample_client = Some (rc, m', s') \<and> rc \<noteq> FLOM_RC_OK"
proof -
  have "case client_msg Some 0 (sample_answer 24 FLOM_RC_LOCK_ENQUEUED) sample_client of None \<Rightarrow> False
      | Some m \<Rightarrow> msg_verb m = 1 \<and> msg_step m = 24 \<and> ans_rc (lock_24 m) = 1"
    by code_simp
  then have k: "\<forall>a \<in> set [sample_answer 24 FLOM_RC_LOCK_ENQUEUED]. keeps_waiting (client_msg Some 0 a sample_client)"
    by (auto simp: keeps_waiting_def split: option.splits)
  have "case client_msg Some 0 (sample_answer 32 FLOM_RC_LOCK_BUSY) sample_client of None \<Rightarrow> False
      | Some m \<Rightarrow> msg_verb m = 1 \<and> msg_step m = 32 \<and> ans_rc (lock_24 m) = FLOM_RC_LOCK_BUSY"
    by code_simp
  then obtain m1 where m1: "client_msg Some 0 (sample_answer 32 FLOM_RC_LOCK_BUSY) sample_client = Some m1"
    "msg_verb m1 = 1" "msg_step m1 = 32" "ans_rc (lock_24 m1) = FLOM_RC_LOCK_BUSY"
    by (auto split: option.splits)
  then have "\<not> keeps_waiting (Some m1)" by (simp add: keeps_waiting_def)
  then show ?thesis
    using client_wait_returns [OF k, of "sample_answer 32 FLOM_RC_LOCK_BUSY" 0 "[]" flom_msg_init] m1 by auto
qed

text \<open>A refusal that arrives late is taken for a grant.  A client that has to wait for the resource and
  then gets the answer of step 24 reads it as the end of the wait, with whatever reason code other
  than that of the queue: also a lock that the daemon declares impossible is
  reported to the caller as acquired.
\<close>

theorem refused_lock_taken:
  assumes "ans_rc (l16_answer (lock_16 m)) \<in> {FLOM_RC_LOCK_ENQUEUED, FLOM_RC_LOCK_WAIT_RESOURCE}"
    and "lo_waits inp = a # as" "client_msg (lo_unb64 inp) timeout a s = Some m1"
    and "msg_verb m1 = FLOM_MSG_VERB_LOCK" "msg_step m1 = 3 * FLOM_MSG_STEP_INCR"
    and "ans_rc (lock_24 m1) = FLOM_RC_LOCK_IMPOSSIBLE"
  shows "\<exists>s'. lock_answer inp timeout m s = Some (FLOM_RC_OK, s')"
  using assms
  by (auto simp: lock_answer_def wait_lock_step wait_answer_def Let_def simp del: flom_client_wait_lock.simps)

theorem refused_lock_taken_witness:
  "\<exists>s'. lock_answer (sample_lock_call (sample_answer 16 0) [sample_answer 24 FLOM_RC_LOCK_IMPOSSIBLE]) 0
     (flom_msg_init\<lparr>lock_16 := \<lparr>l16_peerid = None, l16_answer = \<lparr>ans_rc = FLOM_RC_LOCK_WAIT_RESOURCE, ans_element = None\<rparr>\<rparr>\<rparr>)
     sample_client = Some (FLOM_RC_OK, s')"
proof -
  have "case client_msg Some 0 (sample_answer 24 FLOM_RC_LOCK_IMPOSSIBLE) sample_client of None \<Rightarrow> False
      | Some m \<Rightarrow> msg_verb m = 1 \<and> msg_step m = 24 \<and> ans_rc (lock_24 m) = FLOM_RC_LOCK_IMPOSSIBLE"
    by code_simp
  then obtain m1 where "client_msg Some 0 (sample_answer 24 FLOM_RC_LOCK_IMPOSSIBLE) sample_client = Some m1"
    "msg_verb m1 = 1" "msg_step m1 = 24" "ans_rc (lock_24 m1) = FLOM_RC_LOCK_IMPOSSIBLE"
    by (auto split: option.splits)
  then show ?thesis by (intro refused_lock_taken) (auto simp: sample_lock_call_def)
qed

lemma recv_loop_nonempty:
  "recv_loop err chunks len n buf k stream = (FLOM_RC_OK, buf', rest) \<Longrightarrow> err \<noteq> FLOM_RC_OK \<Longrightarrow> 6 \<le> length buf'"
proof (induction err chunks len n buf k stream rule: recv_loop.induct)
  case (1 err chunks len n buf k stream)
  then show ?case
    by (subst (asm) (3) recv_loop.simps) (auto simp: Let_def split: if_splits)
qed

text \<open>
  A daemon that closes the connection is told apart by the reason code of the reception: the test
  for an empty answer, which would give \<^verbatim>\<open>FLOM_RC_CONNECTION_CLOSED_BY_SERVER\<close>, is never reached on a stream.
\<close>

theorem stream_answer_not_empty:
  assumes "ct_tls s \<or> ct_type s = SOCK_STREAM" "client_recv timeout a s = (rc, n, buffer, rest)" "n = 0"
  shows "rc \<noteq> FLOM_RC_OK"
proof
  assume "rc = FLOM_RC_OK"
  have "stream_recv_msg err chunks network_buffer_size st = (FLOM_RC_OK, buf, r) \<Longrightarrow> err \<noteq> FLOM_RC_OK \<Longrightarrow> 6 \<le> length buf"
    for err chunks st buf r
    using recv_loop_nonempty by (auto simp: stream_recv_msg_def split: if_splits)
  then show False
    using assms \<open>rc = FLOM_RC_OK\<close>
    by (fastforce simp: client_recv_def flom_conn_recv_def flom_tcp_recv_def flom_tls_recv_msg_def flom_tcp_recv_msg_def
        split: if_splits prod.splits)
qed

theorem stream_answer_not_empty_witness:
  "\<exists>rc buffer rest. client_recv 0 sample_closed sample_client = (rc, 0, buffer, rest) \<and> rc \<noteq> FLOM_RC_OK"
proof -
  have "client_recv 0 sample_closed sample_client = (FLOM_RC_RECV_ERROR, 0, [], [])" by code_simp
  moreover have "ct_type sample_client = SOCK_STREAM" by (simp add: sample_client_def)
  ultimately show ?thesis using stream_answer_not_empty [of sample_client 0 sample_closed] by blast
qed

end
