(* ===== verification/Handle.thy ===== *)
theory Handle
  imports Client
begin

text \<open>
  The library interface of a client, \<^verbatim>\<open>src/src/flom_handle.c\<close>: the life of a handle from its initialization
  to its release, lock, unlock and rollback, and the methods that change its configuration.

  One handle is modelled together with the state of the library: the global configuration, of
  which a handle gets a copy, and the flag that it was initialized.  The two pointers of a
  handle, to its connection and to its configuration, are set and cleared together: \<open>fl_alloc\<close>.
  What they point to, the heap of strings, the open descriptors and the messages sent so
  far are the state of the client, \<open>fl_client\<close>.
\<close>

abbreviation (input) FLOM_RC_API_INVALID_SEQUENCE :: int where "FLOM_RC_API_INVALID_SEQUENCE \<equiv> - 17"
abbreviation (input) FLOM_RC_API_IMMUTABLE_HANDLE :: int where "FLOM_RC_API_IMMUTABLE_HANDLE \<equiv> 11"
abbreviation (input) FLOM_RC_RESOURCE_IS_NOT_TRANSACTIONAL :: int where "FLOM_RC_RESOURCE_IS_NOT_TRANSACTIONAL \<equiv> 12"
abbreviation (input) FLOM_RC_REGCOMP_ERROR :: int where "FLOM_RC_REGCOMP_ERROR \<equiv> - 128"

section \<open>State\<close>

text \<open>The states of \<^verbatim>\<open>flom_handle_state_t\<close>, and the zero that is none of them.\<close>

datatype flom_handle_state =
    FLOM_HANDLE_STATE_ZERO
  | FLOM_HANDLE_STATE_INIT
  | FLOM_HANDLE_STATE_CONNECTED
  | FLOM_HANDLE_STATE_LOCKED
  | FLOM_HANDLE_STATE_DISCONNECTED
  | FLOM_HANDLE_STATE_CLEANED

record flom_lib =
  fl_init_flag :: bool
  fl_global :: config
  fl_state :: flom_handle_state
  fl_alloc :: bool
  fl_client :: client_st

text \<open>
  What the calls of a method return: the compilation of the regular expressions, the files of the
  configuration, the allocations, whether the pointer passed is \<^verbatim>\<open>NULL\<close>, the network.
\<close>

record handle_input =
  hi_null :: bool
  hi_regcomp :: bool
  hi_env :: cfg_env
  hi_malloc_handle :: bool
  hi_malloc_conn :: bool
  hi_malloc_config :: bool
  hi_connect :: connect_input
  hi_discover :: discover_input
  hi_discover_again :: discover_input
  hi_lock :: lock_input
  hi_unlock :: lock_input
  hi_close_fails :: bool

definition fl_heap :: "flom_lib \<Rightarrow> sheap" where
  "fl_heap w = heap (ct_config (fl_client w))"

definition set_global :: "cfg_state \<Rightarrow> flom_lib \<Rightarrow> flom_lib" where
  "set_global c w =
     w\<lparr>fl_global := cfg c, fl_client := (fl_client w)\<lparr>ct_config := (ct_config (fl_client w))\<lparr>heap := heap c\<rparr>\<rparr>\<rparr>"

definition set_config :: "cfg_state \<Rightarrow> flom_lib \<Rightarrow> flom_lib" where
  "set_config c w = w\<lparr>fl_client := (fl_client w)\<lparr>ct_config := c\<rparr>\<rparr>"

section \<open>The life of a handle\<close>

text \<open>
  \<^verbatim>\<open>flom_init_check\<close>.  The traces and the mutex are left out; an initialization that fails is
  tried again by the next call.
\<close>

definition flom_init_check :: "handle_input \<Rightarrow> flom_lib \<Rightarrow> rc \<times> flom_lib" where
  "flom_init_check inp w =
     (if fl_init_flag w then (FLOM_RC_OK, w)
      else if \<not> hi_regcomp inp then (FLOM_RC_REGCOMP_ERROR, w)
      else
        (case flom_config_init (hi_env inp) None (flom_config_reset (fl_heap w)) of
           (rc, c) \<Rightarrow>
             if rc \<noteq> FLOM_RC_OK then (rc, set_global c w)
             else
               (case flom_config_check (hi_env inp) c of
                  (rc, c) \<Rightarrow>
                    if rc \<noteq> FLOM_RC_OK then (rc, set_global c w)
                    else (FLOM_RC_OK, (set_global c w)\<lparr>fl_init_flag := True\<rparr>))))"

text \<open>The memory of the handle is set to zero, what it pointed to is not released.\<close>

definition zero_handle :: "flom_lib \<Rightarrow> flom_lib" where
  "zero_handle w =
     w\<lparr>fl_state := FLOM_HANDLE_STATE_ZERO, fl_alloc := False, fl_client := (fl_client w)\<lparr>ct_element := None\<rparr>\<rparr>"

definition flom_handle_init :: "handle_input \<Rightarrow> flom_lib \<Rightarrow> rc \<times> flom_lib" where
  "flom_handle_init inp w =
     (case flom_init_check inp w of
        (rc, w0) \<Rightarrow>
          if rc \<noteq> FLOM_RC_OK then (rc, w0)
          else
            (let w1 = zero_handle w0 in
             if \<not> hi_malloc_conn inp then (FLOM_RC_G_TRY_MALLOC_ERROR, w1)
             else if \<not> hi_malloc_config inp then (FLOM_RC_G_TRY_MALLOC_ERROR, w1)
             else
               (case flom_config_clone (fl_heap w1) (fl_global w1) of
                  (h, c) \<Rightarrow>
                    (FLOM_RC_OK,
                     w1\<lparr>fl_state := FLOM_HANDLE_STATE_INIT, fl_alloc := True,
                        fl_client := (zero_conn (fl_client w1))\<lparr>ct_config :=
                          flom_config_set_lifespan 0 \<lparr>heap = h, cfg = c\<rparr>\<rparr>\<rparr>))))"

text \<open>\<^verbatim>\<open>flom_handle_new\<close>: whether the pointer that is returned is a handle.\<close>

definition flom_handle_new :: "handle_input \<Rightarrow> flom_lib \<Rightarrow> bool \<times> flom_lib" where
  "flom_handle_new inp w =
     (case flom_init_check inp w of
        (rc, w1) \<Rightarrow>
          if rc \<noteq> FLOM_RC_OK then (False, w1)
          else if \<not> hi_malloc_handle inp then (False, w1)
          else (case flom_handle_init inp w1 of (rc, w2) \<Rightarrow> (rc = FLOM_RC_OK, w2)))"

section \<open>Lock and unlock\<close>

text \<open>\<open>None\<close> stands for a client that still waits for the lock.\<close>

definition handle_lock_acquire :: "handle_input \<Rightarrow> flom_lib \<Rightarrow> (rc \<times> flom_lib) option" where
  "handle_lock_acquire inp w =
     (case flom_client_lock (hi_lock inp) (cf_resource_timeout (ct_value (fl_client w))) (fl_client w) of
        None \<Rightarrow> None
      | Some (rc, c) \<Rightarrow>
          if rc \<noteq> FLOM_RC_OK then Some (rc, w\<lparr>fl_client := c\<rparr>)
          else Some (FLOM_RC_OK, w\<lparr>fl_client := c, fl_state := FLOM_HANDLE_STATE_LOCKED\<rparr>))"

definition flom_handle_lock :: "handle_input \<Rightarrow> flom_lib \<Rightarrow> (rc \<times> flom_lib) call option" where
  "flom_handle_lock inp w =
     (case flom_init_check inp w of
        (rc, w0) \<Rightarrow>
          if rc \<noteq> FLOM_RC_OK then Some (Ret (rc, w0))
          else if hi_null inp then Some (Ret (FLOM_RC_NULL_OBJECT, w0))
          else if fl_state w0 \<notin> {FLOM_HANDLE_STATE_INIT, FLOM_HANDLE_STATE_CONNECTED, FLOM_HANDLE_STATE_DISCONNECTED}
          then Some (Ret (FLOM_RC_API_INVALID_SEQUENCE, w0))
          else if \<not> fl_alloc w0 then Some (Ret (FLOM_RC_OBJ_CORRUPTED, w0))
          else if fl_state w0 \<noteq> FLOM_HANDLE_STATE_CONNECTED then
            (case flom_client_connect (hi_connect inp) (hi_discover inp) (hi_discover_again inp) True (fl_client w0) of
               Exited \<Rightarrow> Some Exited
             | Crashed \<Rightarrow> Some Crashed
             | Ret (rc, c) \<Rightarrow>
                 if rc \<noteq> FLOM_RC_OK then Some (Ret (rc, w0\<lparr>fl_client := c\<rparr>))
                 else map_option Ret (handle_lock_acquire inp (w0\<lparr>fl_client := c, fl_state := FLOM_HANDLE_STATE_CONNECTED\<rparr>)))
          else map_option Ret (handle_lock_acquire inp w0))"

text \<open>The name of the resource is never \<^verbatim>\<open>NULL\<close>.\<close>

definition handle_transactional :: "flom_lib \<Rightarrow> bool" where
  "handle_transactional w =
     (case cf_resource_name (ct_value (fl_client w)) of None \<Rightarrow> False | Some n \<Rightarrow> flom_rsrc_get_transactional n)"

definition handle_disconnect :: "handle_input \<Rightarrow> bool \<Rightarrow> flom_lib \<Rightarrow> rc \<times> flom_lib" where
  "handle_disconnect inp ignored_rollback w =
     (case flom_client_disconnect (hi_close_fails inp) (fl_client w) of
        (rc, c) \<Rightarrow>
          if rc \<noteq> FLOM_RC_OK then (rc, w\<lparr>fl_client := c\<rparr>)
          else (if ignored_rollback then FLOM_RC_RESOURCE_IS_NOT_TRANSACTIONAL else FLOM_RC_OK,
                w\<lparr>fl_client := free_element c, fl_state := FLOM_HANDLE_STATE_DISCONNECTED\<rparr>))"

definition flom_handle_unlock_internal :: "handle_input \<Rightarrow> bool \<Rightarrow> flom_lib \<Rightarrow> rc \<times> flom_lib" where
  "flom_handle_unlock_internal inp rollback w =
     (case flom_init_check inp w of
        (rc, w0) \<Rightarrow>
          if rc \<noteq> FLOM_RC_OK then (rc, w0)
          else if hi_null inp then (FLOM_RC_NULL_OBJECT, w0)
          else if fl_state w0 \<notin> {FLOM_HANDLE_STATE_LOCKED, FLOM_HANDLE_STATE_CONNECTED}
          then (FLOM_RC_API_INVALID_SEQUENCE, w0)
          else if \<not> fl_alloc w0 then (FLOM_RC_OBJ_CORRUPTED, w0)
          else
            (let ignored_rollback = rollback \<and> \<not> handle_transactional w0;
                 rollback = rollback \<and> handle_transactional w0 in
             if fl_state w0 = FLOM_HANDLE_STATE_LOCKED then
               (case flom_client_unlock (hi_unlock inp) rollback (fl_client w0) of
                  (rc, c) \<Rightarrow>
                    if rc \<noteq> FLOM_RC_OK then (rc, w0\<lparr>fl_client := c\<rparr>)
                    else handle_disconnect inp ignored_rollback (w0\<lparr>fl_client := c, fl_state := FLOM_HANDLE_STATE_CONNECTED\<rparr>))
             else handle_disconnect inp ignored_rollback w0))"

definition flom_handle_unlock :: "handle_input \<Rightarrow> flom_lib \<Rightarrow> rc \<times> flom_lib" where
  "flom_handle_unlock inp = flom_handle_unlock_internal inp False"

definition flom_handle_unlock_rollback :: "handle_input \<Rightarrow> flom_lib \<Rightarrow> rc \<times> flom_lib" where
  "flom_handle_unlock_rollback inp = flom_handle_unlock_internal inp True"

section \<open>The release of a handle\<close>

definition handle_release :: "flom_lib \<Rightarrow> flom_lib" where
  "handle_release w =
     (let c = fl_client w; c1 = free_element (c\<lparr>ct_config := flom_config_free (ct_config c)\<rparr>) in
      w\<lparr>fl_client := c1, fl_alloc := False, fl_state := FLOM_HANDLE_STATE_CLEANED\<rparr>)"

definition flom_handle_clean :: "handle_input \<Rightarrow> flom_lib \<Rightarrow> rc \<times> flom_lib" where
  "flom_handle_clean inp w =
     (case flom_init_check inp w of
        (rc, w0) \<Rightarrow>
          if rc \<noteq> FLOM_RC_OK then (rc, w0)
          else
            (case (if fl_state w0 = FLOM_HANDLE_STATE_LOCKED then flom_handle_unlock (inp\<lparr>hi_null := False\<rparr>) w0 else (FLOM_RC_OK, w0)) of
               (rc, w1) \<Rightarrow>
                 if rc \<noteq> FLOM_RC_OK then (rc, w1)
                 else if fl_state w1 \<notin> {FLOM_HANDLE_STATE_INIT, FLOM_HANDLE_STATE_DISCONNECTED}
                 then (FLOM_RC_API_INVALID_SEQUENCE, w1)
                 else (FLOM_RC_OK, handle_release w1)))"

definition flom_handle_delete :: "handle_input \<Rightarrow> flom_lib \<Rightarrow> flom_lib" where
  "flom_handle_delete inp w =
     (case flom_init_check inp w of
        (rc, w0) \<Rightarrow>
          if rc \<noteq> FLOM_RC_OK then w0
          else if hi_null inp then w0
          else zero_handle (snd (flom_handle_clean inp w0)))"

section \<open>The methods that change the configuration\<close>

text \<open>
  The guard all methods but one share: a handle that is connected must not change where it is
  connected to, one that is locked must not change at all.
\<close>

definition idle_states :: "flom_handle_state list" where
  "idle_states = [FLOM_HANDLE_STATE_INIT, FLOM_HANDLE_STATE_DISCONNECTED]"

definition unlocked_states :: "flom_handle_state list" where
  "unlocked_states = [FLOM_HANDLE_STATE_INIT, FLOM_HANDLE_STATE_CONNECTED, FLOM_HANDLE_STATE_DISCONNECTED]"

definition handle_set :: "flom_handle_state list \<Rightarrow> (cfg_state \<Rightarrow> rc \<times> cfg_state) \<Rightarrow> flom_lib \<Rightarrow> rc \<times> flom_lib" where
  "handle_set states setter w =
     (if fl_state w \<in> set states then
        (case setter (ct_config (fl_client w)) of (rc, c) \<Rightarrow> (rc, set_config c w))
      else (FLOM_RC_API_IMMUTABLE_HANDLE, w))"

text \<open>A method that does not look at the result of the setter.\<close>

definition no_rc :: "(cfg_state \<Rightarrow> cfg_state) \<Rightarrow> cfg_state \<Rightarrow> rc \<times> cfg_state" where
  "no_rc setter c = (FLOM_RC_OK, setter c)"

definition flom_handle_set_discovery_attempts :: "int \<Rightarrow> flom_lib \<Rightarrow> rc \<times> flom_lib" where
  "flom_handle_set_discovery_attempts v = handle_set idle_states (no_rc (flom_config_set_discovery_attempts v))"

definition flom_handle_set_discovery_timeout :: "int \<Rightarrow> flom_lib \<Rightarrow> rc \<times> flom_lib" where
  "flom_handle_set_discovery_timeout v = handle_set idle_states (no_rc (flom_config_set_discovery_timeout v))"

definition flom_handle_set_discovery_ttl :: "int \<Rightarrow> flom_lib \<Rightarrow> rc \<times> flom_lib" where
  "flom_handle_set_discovery_ttl v = handle_set idle_states (no_rc (flom_config_set_discovery_ttl v))"

definition flom_handle_set_lock_mode :: "flom_lock_mode \<Rightarrow> flom_lib \<Rightarrow> rc \<times> flom_lib" where
  "flom_handle_set_lock_mode v = handle_set unlocked_states (no_rc (flom_config_set_lock_mode v))"

text \<open>
  The three ways to find a daemon: a method that sets one clears the other two by the methods of
  those with \<^verbatim>\<open>NULL\<close>, in the same state of the handle.
\<close>

definition clear_socket_name :: "cfg_state \<Rightarrow> cfg_state" where
  "clear_socket_name c = snd (flom_config_set_socket_name None c)"

definition flom_handle_set_multicast_address :: "string option \<Rightarrow> flom_lib \<Rightarrow> rc \<times> flom_lib" where
  "flom_handle_set_multicast_address v =
     handle_set idle_states (no_rc (\<lambda>c. let c1 = flom_config_set_multicast_address v c in
       if v \<noteq> None then flom_config_set_unicast_address None (clear_socket_name c1) else c1))"

definition flom_handle_set_unicast_address :: "string option \<Rightarrow> flom_lib \<Rightarrow> rc \<times> flom_lib" where
  "flom_handle_set_unicast_address v =
     handle_set idle_states (no_rc (\<lambda>c. let c1 = flom_config_set_unicast_address v c in
       if v \<noteq> None then flom_config_set_multicast_address None (clear_socket_name c1) else c1))"

definition flom_handle_set_socket_name :: "string option \<Rightarrow> flom_lib \<Rightarrow> rc \<times> flom_lib" where
  "flom_handle_set_socket_name v =
     handle_set idle_states (\<lambda>c. flom_config_set_socket_name v
       (if v \<noteq> None then flom_config_set_multicast_address None (flom_config_set_unicast_address None c) else c))"

definition flom_handle_set_multicast_port :: "int \<Rightarrow> flom_lib \<Rightarrow> rc \<times> flom_lib" where
  "flom_handle_set_multicast_port v = handle_set idle_states (no_rc (flom_config_set_multicast_port v))"

definition flom_handle_set_network_interface :: "cfg_env \<Rightarrow> string \<Rightarrow> flom_lib \<Rightarrow> rc \<times> flom_lib" where
  "flom_handle_set_network_interface e v = handle_set idle_states (flom_config_set_network_interface e v)"

definition flom_handle_set_resource_create :: "bool \<Rightarrow> flom_lib \<Rightarrow> rc \<times> flom_lib" where
  "flom_handle_set_resource_create v = handle_set idle_states (no_rc (flom_config_set_resource_create v))"

definition flom_handle_set_resource_idle_lifespan :: "int \<Rightarrow> flom_lib \<Rightarrow> rc \<times> flom_lib" where
  "flom_handle_set_resource_idle_lifespan v = handle_set unlocked_states (no_rc (flom_config_set_resource_idle_lifespan v))"

text \<open>The reason code for a name that is not valid is dropped.\<close>

definition flom_handle_set_resource_name :: "string \<Rightarrow> flom_lib \<Rightarrow> rc \<times> flom_lib" where
  "flom_handle_set_resource_name v = handle_set unlocked_states (no_rc (\<lambda>c. snd (flom_config_set_resource_name v c)))"

definition flom_handle_set_resource_quantity :: "int \<Rightarrow> flom_lib \<Rightarrow> rc \<times> flom_lib" where
  "flom_handle_set_resource_quantity v = handle_set unlocked_states (no_rc (flom_config_set_resource_quantity v))"

definition flom_handle_set_resource_timeout :: "int \<Rightarrow> flom_lib \<Rightarrow> rc \<times> flom_lib" where
  "flom_handle_set_resource_timeout v = handle_set unlocked_states (no_rc (flom_config_set_resource_timeout v))"

text \<open>No guard; without a configuration of its own, the global one is changed.\<close>

definition flom_handle_set_trace_filename :: "string option \<Rightarrow> flom_lib \<Rightarrow> rc \<times> flom_lib" where
  "flom_handle_set_trace_filename v w =
     (FLOM_RC_OK,
      if fl_alloc w then set_config (flom_config_set_command_trace_file v (ct_config (fl_client w))) w
      else set_global (flom_config_set_command_trace_file v \<lparr>heap = fl_heap w, cfg = fl_global w\<rparr>) w)"

definition flom_handle_set_unicast_port :: "int \<Rightarrow> flom_lib \<Rightarrow> rc \<times> flom_lib" where
  "flom_handle_set_unicast_port v = handle_set idle_states (no_rc (flom_config_set_unicast_port v))"

definition flom_handle_set_tls_certificate :: "cfg_env \<Rightarrow> string \<Rightarrow> flom_lib \<Rightarrow> rc \<times> flom_lib" where
  "flom_handle_set_tls_certificate e v = handle_set idle_states (flom_config_set_tls_certificate e v)"

definition flom_handle_set_tls_private_key :: "cfg_env \<Rightarrow> string \<Rightarrow> flom_lib \<Rightarrow> rc \<times> flom_lib" where
  "flom_handle_set_tls_private_key e v = handle_set idle_states (flom_config_set_tls_private_key e v)"

definition flom_handle_set_tls_ca_certificate :: "cfg_env \<Rightarrow> string \<Rightarrow> flom_lib \<Rightarrow> rc \<times> flom_lib" where
  "flom_handle_set_tls_ca_certificate e v = handle_set idle_states (flom_config_set_tls_ca_certificate e v)"

definition flom_handle_set_tls_check_peer_id :: "bool \<Rightarrow> flom_lib \<Rightarrow> rc \<times> flom_lib" where
  "flom_handle_set_tls_check_peer_id v = handle_set idle_states (no_rc (flom_config_set_tls_check_peer_id v))"

section \<open>Sequences of calls\<close>

datatype handle_op =
    H_lock | H_unlock | H_unlock_rollback | H_clean
  | H_discovery_attempts int | H_discovery_timeout int | H_discovery_ttl int | H_lock_mode flom_lock_mode
  | H_multicast_address "string option" | H_multicast_port int | H_network_interface string
  | H_resource_create bool | H_resource_idle_lifespan int | H_resource_name string
  | H_resource_quantity int | H_resource_timeout int | H_socket_name "string option"
  | H_trace_filename "string option" | H_unicast_address "string option" | H_unicast_port int
  | H_tls_certificate string | H_tls_private_key string | H_tls_ca_certificate string | H_tls_check_peer_id bool

fun handle_setter :: "cfg_env \<Rightarrow> handle_op \<Rightarrow> flom_lib \<Rightarrow> rc \<times> flom_lib" where
  "handle_setter e (H_discovery_attempts v) w = flom_handle_set_discovery_attempts v w"
| "handle_setter e (H_discovery_timeout v) w = flom_handle_set_discovery_timeout v w"
| "handle_setter e (H_discovery_ttl v) w = flom_handle_set_discovery_ttl v w"
| "handle_setter e (H_lock_mode v) w = flom_handle_set_lock_mode v w"
| "handle_setter e (H_multicast_address v) w = flom_handle_set_multicast_address v w"
| "handle_setter e (H_multicast_port v) w = flom_handle_set_multicast_port v w"
| "handle_setter e (H_network_interface v) w = flom_handle_set_network_interface e v w"
| "handle_setter e (H_resource_create v) w = flom_handle_set_resource_create v w"
| "handle_setter e (H_resource_idle_lifespan v) w = flom_handle_set_resource_idle_lifespan v w"
| "handle_setter e (H_resource_name v) w = flom_handle_set_resource_name v w"
| "handle_setter e (H_resource_quantity v) w = flom_handle_set_resource_quantity v w"
| "handle_setter e (H_resource_timeout v) w = flom_handle_set_resource_timeout v w"
| "handle_setter e (H_socket_name v) w = flom_handle_set_socket_name v w"
| "handle_setter e (H_trace_filename v) w = flom_handle_set_trace_filename v w"
| "handle_setter e (H_unicast_address v) w = flom_handle_set_unicast_address v w"
| "handle_setter e (H_unicast_port v) w = flom_handle_set_unicast_port v w"
| "handle_setter e (H_tls_certificate v) w = flom_handle_set_tls_certificate e v w"
| "handle_setter e (H_tls_private_key v) w = flom_handle_set_tls_private_key e v w"
| "handle_setter e (H_tls_ca_certificate v) w = flom_handle_set_tls_ca_certificate e v w"
| "handle_setter e (H_tls_check_peer_id v) w = flom_handle_set_tls_check_peer_id v w"
| "handle_setter e _ w = (FLOM_RC_OK, w)"

text \<open>A call on the handle; \<open>None\<close> when it does not return.\<close>

definition handle_step :: "handle_input \<Rightarrow> handle_op \<Rightarrow> flom_lib \<Rightarrow> (rc \<times> flom_lib) option" where
  "handle_step inp op w =
     (case op of
        H_lock \<Rightarrow> (case flom_handle_lock inp w of Some (Ret r) \<Rightarrow> Some r | _ \<Rightarrow> None)
      | H_unlock \<Rightarrow> Some (flom_handle_unlock inp w)
      | H_unlock_rollback \<Rightarrow> Some (flom_handle_unlock_rollback inp w)
      | H_clean \<Rightarrow> Some (flom_handle_clean inp w)
      | _ \<Rightarrow> Some (handle_setter (hi_env inp) op w))"

text \<open>The calls of a program in order: the reason codes and the final state.\<close>

fun handle_session :: "(handle_input \<times> handle_op) list \<Rightarrow> flom_lib \<Rightarrow> (rc list \<times> flom_lib) option" where
  "handle_session [] w = Some ([], w)"
| "handle_session ((inp, op) # calls) w =
     (case handle_step inp op w of
        None \<Rightarrow> None
      | Some (rc, w1) \<Rightarrow> map_option (\<lambda>p. (rc # fst p, snd p)) (handle_session calls w1))"

section \<open>What the methods keep\<close>

lemmas cfg_setter_defs =
  flom_config_set_discovery_attempts_def flom_config_set_discovery_timeout_def flom_config_set_discovery_ttl_def
  flom_config_set_lock_mode_def flom_config_set_multicast_address_def flom_config_set_multicast_port_def
  flom_config_set_network_interface_def flom_config_set_resource_create_def flom_config_set_resource_idle_lifespan_def
  flom_config_set_resource_name_def flom_config_set_resource_quantity_def flom_config_set_resource_timeout_def
  flom_config_set_socket_name_def flom_config_set_command_trace_file_def flom_config_set_unicast_address_def
  flom_config_set_unicast_port_def flom_config_set_tls_certificate_def flom_config_set_tls_private_key_def
  flom_config_set_tls_ca_certificate_def flom_config_set_tls_check_peer_id_def
  set_plain_def set_string_def clear_socket_name_def

lemmas handle_setter_defs =
  flom_handle_set_discovery_attempts_def flom_handle_set_discovery_timeout_def flom_handle_set_discovery_ttl_def
  flom_handle_set_lock_mode_def flom_handle_set_multicast_address_def flom_handle_set_multicast_port_def
  flom_handle_set_network_interface_def flom_handle_set_resource_create_def flom_handle_set_resource_idle_lifespan_def
  flom_handle_set_resource_name_def flom_handle_set_resource_quantity_def flom_handle_set_resource_timeout_def
  flom_handle_set_socket_name_def flom_handle_set_unicast_address_def
  flom_handle_set_unicast_port_def flom_handle_set_tls_certificate_def flom_handle_set_tls_private_key_def
  flom_handle_set_tls_ca_certificate_def flom_handle_set_tls_check_peer_id_def

lemma owns_clear_socket: "owns F c \<Longrightarrow> owns F (clear_socket_name c)"
  by (simp add: clear_socket_name_def setters_own)

text \<open>Every method but the one of the trace is a setter of the configuration behind a guard on the state.\<close>

definition is_setter :: "handle_op \<Rightarrow> bool" where
  "is_setter op \<longleftrightarrow> op \<notin> {H_lock, H_unlock, H_unlock_rollback, H_clean}"

fun op_states :: "handle_op \<Rightarrow> flom_handle_state list" where
  "op_states (H_lock_mode v) = unlocked_states"
| "op_states (H_resource_idle_lifespan v) = unlocked_states"
| "op_states (H_resource_name v) = unlocked_states"
| "op_states (H_resource_quantity v) = unlocked_states"
| "op_states (H_resource_timeout v) = unlocked_states"
| "op_states _ = idle_states"

lemma op_states_guard:
  "FLOM_HANDLE_STATE_LOCKED \<notin> set (op_states op)" "FLOM_HANDLE_STATE_CLEANED \<notin> set (op_states op)"
  by (cases op; simp add: unlocked_states_def idle_states_def)+

fun op_config :: "cfg_env \<Rightarrow> handle_op \<Rightarrow> cfg_state \<Rightarrow> rc \<times> cfg_state" where
  "op_config e (H_discovery_attempts v) c = (FLOM_RC_OK, flom_config_set_discovery_attempts v c)"
| "op_config e (H_discovery_timeout v) c = (FLOM_RC_OK, flom_config_set_discovery_timeout v c)"
| "op_config e (H_discovery_ttl v) c = (FLOM_RC_OK, flom_config_set_discovery_ttl v c)"
| "op_config e (H_lock_mode v) c = (FLOM_RC_OK, flom_config_set_lock_mode v c)"
| "op_config e (H_multicast_address v) c =
     (FLOM_RC_OK, let c1 = flom_config_set_multicast_address v c in
        if v \<noteq> None then flom_config_set_unicast_address None (clear_socket_name c1) else c1)"
| "op_config e (H_multicast_port v) c = (FLOM_RC_OK, flom_config_set_multicast_port v c)"
| "op_config e (H_network_interface v) c = flom_config_set_network_interface e v c"
| "op_config e (H_resource_create v) c = (FLOM_RC_OK, flom_config_set_resource_create v c)"
| "op_config e (H_resource_idle_lifespan v) c = (FLOM_RC_OK, flom_config_set_resource_idle_lifespan v c)"
| "op_config e (H_resource_name v) c = (FLOM_RC_OK, snd (flom_config_set_resource_name v c))"
| "op_config e (H_resource_quantity v) c = (FLOM_RC_OK, flom_config_set_resource_quantity v c)"
| "op_config e (H_resource_timeout v) c = (FLOM_RC_OK, flom_config_set_resource_timeout v c)"
| "op_config e (H_socket_name v) c =
     flom_config_set_socket_name v
       (if v \<noteq> None then flom_config_set_multicast_address None (flom_config_set_unicast_address None c) else c)"
| "op_config e (H_trace_filename v) c = (FLOM_RC_OK, flom_config_set_command_trace_file v c)"
| "op_config e (H_unicast_address v) c =
     (FLOM_RC_OK, let c1 = flom_config_set_unicast_address v c in
        if v \<noteq> None then flom_config_set_multicast_address None (clear_socket_name c1) else c1)"
| "op_config e (H_unicast_port v) c = (FLOM_RC_OK, flom_config_set_unicast_port v c)"
| "op_config e (H_tls_certificate v) c = flom_config_set_tls_certificate e v c"
| "op_config e (H_tls_private_key v) c = flom_config_set_tls_private_key e v c"
| "op_config e (H_tls_ca_certificate v) c = flom_config_set_tls_ca_certificate e v c"
| "op_config e (H_tls_check_peer_id v) c = (FLOM_RC_OK, flom_config_set_tls_check_peer_id v c)"
| "op_config e _ c = (FLOM_RC_OK, c)"

lemma op_config_lifespan: "cf_daemon_lifespan (cfg (snd (op_config e op c))) = cf_daemon_lifespan (cfg c)"
  by (cases op) (simp_all add: cfg_setter_defs Let_def case_prod_unfold split: option.split)

lemma op_config_owns: "owns F c \<Longrightarrow> owns F (snd (op_config e op c))"
  by (cases op) (simp_all add: Let_def setters_own plain_setters_own owns_clear_socket)

lemma handle_setter_guarded:
  "is_setter op \<Longrightarrow> \<nexists>v. op = H_trace_filename v \<Longrightarrow> handle_setter e op w = handle_set (op_states op) (op_config e op) w"
  by (cases op) (simp_all add: handle_setter_defs handle_set_def no_rc_def is_setter_def)

text \<open>
  What a method keeps: the strings of the handle stay its own and the daemon lifespan what it is;
  a handle that is locked keeps the name of its resource.
\<close>

definition setter_frame :: "flom_lib \<Rightarrow> flom_lib \<Rightarrow> bool" where
  "setter_frame w w' \<longleftrightarrow> fl_init_flag w' = fl_init_flag w \<and> fl_global w' = fl_global w \<and> fl_state w' = fl_state w \<and>
     fl_alloc w' = fl_alloc w \<and> (\<exists>c. fl_client w' = (fl_client w)\<lparr>ct_config := c\<rparr> \<and>
       cf_daemon_lifespan (cfg c) = cf_daemon_lifespan (cfg (ct_config (fl_client w))) \<and>
       (\<forall>F. owns F (ct_config (fl_client w)) \<longrightarrow> owns F c \<and>
          (fl_state w = FLOM_HANDLE_STATE_LOCKED \<longrightarrow>
             cf_resource_name (value_of c) = cf_resource_name (ct_value (fl_client w)))))"

lemma setter_frame_same: "setter_frame w w"
  by (auto simp: setter_frame_def ct_value_def intro!: exI [of _ "ct_config (fl_client w)"])

lemma handle_setter_frame:
  assumes "is_setter op" "fl_alloc w" "handle_setter e op w = (rc, w')"
  shows "setter_frame w w'"
proof (cases "\<exists>v. op = H_trace_filename v")
  case True
  then obtain v where op: "op = H_trace_filename v" by blast
  let ?c = "flom_config_set_command_trace_file v (ct_config (fl_client w))"
  have "w' = set_config ?c w" using assms op by (simp add: flom_handle_set_trace_filename_def)
  moreover have "cf_daemon_lifespan (cfg ?c) = cf_daemon_lifespan (cfg (ct_config (fl_client w)))"
    using op_config_lifespan [of e op] op by simp
  ultimately show ?thesis
    using setters_own(2) setters_value(2) by (auto simp: setter_frame_def set_config_def ct_value_def)
next
  case False
  then have s: "handle_set (op_states op) (op_config e op) w = (rc, w')"
    using handle_setter_guarded assms(1,3) by simp
  show ?thesis
  proof (cases "fl_state w \<in> set (op_states op)")
    case True
    then have "w' = set_config (snd (op_config e op (ct_config (fl_client w)))) w" "fl_state w \<noteq> FLOM_HANDLE_STATE_LOCKED"
      using s op_states_guard(1) by (auto simp: handle_set_def split: prod.splits)
    then show ?thesis
      using op_config_lifespan op_config_owns by (auto simp: setter_frame_def set_config_def intro!: exI [of _ "snd (op_config e op (ct_config (fl_client w)))"])
  qed (use s setter_frame_same in \<open>simp add: handle_set_def\<close>)
qed

section \<open>The invariant of a handle\<close>

definition live_states :: "flom_handle_state set" where
  "live_states = {FLOM_HANDLE_STATE_INIT, FLOM_HANDLE_STATE_CONNECTED, FLOM_HANDLE_STATE_LOCKED, FLOM_HANDLE_STATE_DISCONNECTED}"

text \<open>The last message of a handle that is locked is the request for the resource that its configuration names.\<close>

definition names_locked :: "client_st \<Rightarrow> bool" where
  "names_locked c \<longleftrightarrow> (\<exists>peerid name v ms. cf_resource_name (ct_value c) = Some name \<and>
     ct_sent c = ms @ [client_lock_request peerid name v])"

definition handle_inv :: "(addr \<Rightarrow> string option) \<Rightarrow> nat \<Rightarrow> flom_lib \<Rightarrow> bool" where
  "handle_inv G n w \<longleftrightarrow> fl_init_flag w \<and> fl_alloc w \<and> fl_state w \<in> live_states \<and> held G (fl_client w) \<and>
     cf_daemon_lifespan (cfg (ct_config (fl_client w))) = 0 \<and> ct_forks (fl_client w) = n \<and>
     (fl_state w = FLOM_HANDLE_STATE_LOCKED \<longrightarrow> names_locked (fl_client w)) \<and>
     (fl_state w = FLOM_HANDLE_STATE_DISCONNECTED \<longrightarrow> cn_state (ct_conn (fl_client w)) = FLOM_CONN_STATE_REMOVE)"

lemma held_config:
  assumes "held G c" "\<And>F. owns F (ct_config c) \<Longrightarrow> owns F c'"
  shows "held G (c\<lparr>ct_config := c'\<rparr>)"
  using assms by (auto simp: held_def split: option.splits)

lemma held_owns: "held G c \<Longrightarrow> \<exists>F. owns F (ct_config c)"
  by (auto simp: held_def split: option.splits)

lemma setter_inv:
  assumes "handle_inv G n w" "setter_frame w w'"
  shows "handle_inv G n w'"
proof -
  obtain c where c: "fl_client w' = (fl_client w)\<lparr>ct_config := c\<rparr>"
    "cf_daemon_lifespan (cfg c) = cf_daemon_lifespan (cfg (ct_config (fl_client w)))"
    "\<And>F. owns F (ct_config (fl_client w)) \<Longrightarrow> owns F c \<and> (fl_state w = FLOM_HANDLE_STATE_LOCKED \<longrightarrow>
       cf_resource_name (value_of c) = cf_resource_name (ct_value (fl_client w)))"
    using assms(2) unfolding setter_frame_def by blast
  have h: "held G (fl_client w)" using assms(1) by (simp add: handle_inv_def)
  then have "held G (fl_client w')" unfolding c(1) by (rule held_config) (use c(3) in blast)
  moreover have "names_locked (fl_client w')" if "fl_state w = FLOM_HANDLE_STATE_LOCKED"
    using assms(1) that held_owns [OF h] c(1,3) unfolding handle_inv_def names_locked_def
    by (auto simp: ct_value_def) blast
  ultimately show ?thesis using assms c(1,2) by (auto simp: handle_inv_def setter_frame_def)
qed

lemma init_check_flag [simp]: "fl_init_flag w \<Longrightarrow> flom_init_check inp w = (FLOM_RC_OK, w)"
  by (simp add: flom_init_check_def)

text \<open>A lock request keeps the invariant, whatever its outcome.\<close>

lemma lock_frame_inv:
  assumes "handle_inv G n w" "lock_frame (fl_client w) c" "fl_state w' \<in> live_states - {FLOM_HANDLE_STATE_DISCONNECTED}"
    "fl_state w' = FLOM_HANDLE_STATE_LOCKED \<longrightarrow> names_locked c" "w' = w\<lparr>fl_client := c, fl_state := fl_state w'\<rparr>"
  shows "handle_inv G n w'"
proof -
  have "fl_client w' = c" "fl_alloc w' = fl_alloc w" "fl_init_flag w' = fl_init_flag w" by (subst assms(5), simp)+
  then show ?thesis using assms(1-4) by (auto simp: handle_inv_def lock_frame_def)
qed

lemma lock_acquire_inv:
  assumes "handle_inv G n w" "fl_state w = FLOM_HANDLE_STATE_CONNECTED" "handle_lock_acquire inp w = Some (rc, w')"
  shows "handle_inv G n w'" "fl_state w' = (if rc = FLOM_RC_OK then FLOM_HANDLE_STATE_LOCKED else FLOM_HANDLE_STATE_CONNECTED)"
proof -
  obtain r c where l: "flom_client_lock (hi_lock inp) (cf_resource_timeout (ct_value (fl_client w))) (fl_client w) = Some (r, c)"
    "rc = r" "w' = w\<lparr>fl_client := c, fl_state := (if r = FLOM_RC_OK then FLOM_HANDLE_STATE_LOCKED else FLOM_HANDLE_STATE_CONNECTED)\<rparr>"
    using assms(2,3) by (auto simp: handle_lock_acquire_def split: option.splits prod.splits if_splits)
  note f = client_lock_frame [OF l(1)]
  have "held G (fl_client w)" using assms(1) by (simp add: handle_inv_def)
  then have "ct_value c = ct_value (fl_client w)" using f(1) by (simp add: lock_frame_def)
  then have "r = FLOM_RC_OK \<longrightarrow> names_locked c" using f(2) by (auto simp: names_locked_def)
  then show "handle_inv G n w'"
    using lock_frame_inv [OF assms(1) f(1), of w'] l(2,3) by (auto simp: live_states_def)
  show "fl_state w' = (if rc = FLOM_RC_OK then FLOM_HANDLE_STATE_LOCKED else FLOM_HANDLE_STATE_CONNECTED)" using l by simp
qed

lemma connect_inv:
  assumes "handle_inv G n w" "connect_frame (fl_client w) c" "fl_state w \<noteq> FLOM_HANDLE_STATE_LOCKED" "st \<in> {fl_state w, FLOM_HANDLE_STATE_CONNECTED}"
  shows "handle_inv G n (w\<lparr>fl_client := c, fl_state := st\<rparr>)"
  using assms held_connect(1) [OF assms(2)]
  by (auto simp: handle_inv_def connect_frame_def cfg_kept_def live_states_def)

text \<open>The automaton that the documentation of the states describes: a call, its reason code, the state after it.\<close>

inductive handle_next :: "flom_handle_state \<Rightarrow> handle_op \<Rightarrow> rc \<Rightarrow> flom_handle_state \<Rightarrow> bool" where
  granted: "s \<in> set unlocked_states \<Longrightarrow> handle_next s H_lock FLOM_RC_OK FLOM_HANDLE_STATE_LOCKED"
| not_connected: "s \<in> set idle_states \<Longrightarrow> rc \<noteq> FLOM_RC_OK \<Longrightarrow> handle_next s H_lock rc s"
| not_granted: "s \<in> set unlocked_states \<Longrightarrow> rc \<noteq> FLOM_RC_OK \<Longrightarrow> handle_next s H_lock rc FLOM_HANDLE_STATE_CONNECTED"
| lock_refused: "s \<notin> set unlocked_states \<Longrightarrow> handle_next s H_lock FLOM_RC_API_INVALID_SEQUENCE s"
| released: "s \<in> {FLOM_HANDLE_STATE_LOCKED, FLOM_HANDLE_STATE_CONNECTED} \<Longrightarrow> op \<in> {H_unlock, H_unlock_rollback} \<Longrightarrow>
    rc = FLOM_RC_OK \<or> op = H_unlock_rollback \<and> rc = FLOM_RC_RESOURCE_IS_NOT_TRANSACTIONAL \<Longrightarrow>
    handle_next s op rc FLOM_HANDLE_STATE_DISCONNECTED"
| not_released: "op \<in> {H_unlock, H_unlock_rollback} \<Longrightarrow> rc \<noteq> FLOM_RC_OK \<Longrightarrow>
    handle_next FLOM_HANDLE_STATE_LOCKED op rc FLOM_HANDLE_STATE_LOCKED"
| not_closed: "s \<in> {FLOM_HANDLE_STATE_LOCKED, FLOM_HANDLE_STATE_CONNECTED} \<Longrightarrow> op \<in> {H_unlock, H_unlock_rollback} \<Longrightarrow>
    rc \<noteq> FLOM_RC_OK \<Longrightarrow> handle_next s op rc FLOM_HANDLE_STATE_CONNECTED"
| unlock_refused: "s \<notin> {FLOM_HANDLE_STATE_LOCKED, FLOM_HANDLE_STATE_CONNECTED} \<Longrightarrow> op \<in> {H_unlock, H_unlock_rollback} \<Longrightarrow>
    handle_next s op FLOM_RC_API_INVALID_SEQUENCE s"
| cleaned: "s \<in> {FLOM_HANDLE_STATE_INIT, FLOM_HANDLE_STATE_DISCONNECTED, FLOM_HANDLE_STATE_LOCKED} \<Longrightarrow>
    handle_next s H_clean FLOM_RC_OK FLOM_HANDLE_STATE_CLEANED"
| not_cleaned: "handle_next FLOM_HANDLE_STATE_LOCKED H_unlock rc s \<Longrightarrow> rc \<noteq> FLOM_RC_OK \<Longrightarrow>
    handle_next FLOM_HANDLE_STATE_LOCKED H_clean rc s"
| clean_refused: "s \<in> {FLOM_HANDLE_STATE_CONNECTED, FLOM_HANDLE_STATE_CLEANED} \<Longrightarrow>
    handle_next s H_clean FLOM_RC_API_INVALID_SEQUENCE s"
| setter_done: "is_setter op \<Longrightarrow> s \<in> set (op_states op) \<or> (\<exists>v. op = H_trace_filename v) \<Longrightarrow> handle_next s op rc s"
| immutable: "is_setter op \<Longrightarrow> s \<notin> set (op_states op) \<Longrightarrow> handle_next s op FLOM_RC_API_IMMUTABLE_HANDLE s"

lemma handle_lock_step:
  assumes "handle_inv G n w" "\<not> hi_null inp" "flom_handle_lock inp w = Some (Ret (rc, w'))"
  shows "handle_inv G n w' \<and> handle_next (fl_state w) H_lock rc (fl_state w')"
proof -
  have w: "fl_init_flag w" "fl_alloc w" "fl_state w \<in> live_states" using assms(1) by (simp_all add: handle_inv_def)
  consider "fl_state w = FLOM_HANDLE_STATE_LOCKED" | "fl_state w = FLOM_HANDLE_STATE_CONNECTED" | "fl_state w \<in> set idle_states"
    using w(3) by (auto simp: live_states_def idle_states_def)
  then show ?thesis
  proof cases
    case 1
    then have "rc = FLOM_RC_API_INVALID_SEQUENCE" "w' = w" using assms w by (simp_all add: flom_handle_lock_def)
    then show ?thesis using assms(1) 1 handle_next.lock_refused by (simp add: unlocked_states_def)
  next
    case 2
    then have "handle_lock_acquire inp w = Some (rc, w')" using assms w by (simp add: flom_handle_lock_def)
    from lock_acquire_inv [OF assms(1) 2 this] show ?thesis
      using 2 handle_next.granted handle_next.not_granted by (simp add: unlocked_states_def)
  next
    case 3
    then have i: "fl_state w \<noteq> FLOM_HANDLE_STATE_LOCKED" "fl_state w \<noteq> FLOM_HANDLE_STATE_CONNECTED" "fl_state w \<in> set unlocked_states"
      by (auto simp: idle_states_def unlocked_states_def)
    let ?k = "flom_client_connect (hi_connect inp) (hi_discover inp) (hi_discover_again inp) True (fl_client w)"
    obtain r c where k: "?k = Ret (r, c)"
      using assms w 3 i by (auto simp: flom_handle_lock_def idle_states_def split: call.splits)
    have f: "connect_frame (fl_client w) c" using client_connect_frame [OF k] by simp
    show ?thesis
    proof (cases "r = FLOM_RC_OK")
      case True
      let ?w1 = "w\<lparr>fl_client := c, fl_state := FLOM_HANDLE_STATE_CONNECTED\<rparr>"
      have "handle_lock_acquire inp ?w1 = Some (rc, w')"
        using assms w 3 i k True by (auto simp: flom_handle_lock_def idle_states_def)
      moreover have "handle_inv G n ?w1" using connect_inv [OF assms(1) f i(1)] by simp
      ultimately show ?thesis
        using lock_acquire_inv [of G n ?w1 inp rc w'] i handle_next.granted handle_next.not_granted by simp
    next
      case False
      then have "rc = r" "w' = w\<lparr>fl_client := c, fl_state := fl_state w\<rparr>"
        using assms w 3 i k by (auto simp: flom_handle_lock_def idle_states_def)
      then show ?thesis
        using connect_inv [OF assms(1) f i(1), of "fl_state w"] False 3 handle_next.not_connected by simp
    qed
  qed
qed

lemma disconnect_frame:
  assumes "flom_client_disconnect f c = (rc, c')"
  shows "ct_config c' = ct_config c" "ct_element c' = ct_element c" "ct_forks c' = ct_forks c" "ct_sent c' = ct_sent c"
    "cn_state (ct_conn c') = FLOM_CONN_STATE_REMOVE"
  using assms by (auto simp: flom_client_disconnect_def close_fd_def dest: terminate_state split: prod.splits if_splits)

lemma handle_disconnect_step:
  assumes "handle_inv G n w" "fl_state w = FLOM_HANDLE_STATE_CONNECTED" "handle_disconnect inp ig w = (rc, w')"
  shows "handle_inv G n w'" "fl_state w' = FLOM_HANDLE_STATE_DISCONNECTED \<and> rc = (if ig then FLOM_RC_RESOURCE_IS_NOT_TRANSACTIONAL else FLOM_RC_OK) \<or>
    fl_state w' = FLOM_HANDLE_STATE_CONNECTED \<and> rc \<noteq> FLOM_RC_OK"
proof -
  obtain r c where d: "flom_client_disconnect (hi_close_fails inp) (fl_client w) = (r, c)" by fastforce
  note f = disconnect_frame [OF d]
  have h: "held G c" using assms(1) f by (simp add: handle_inv_def held_def split: option.splits)
  have e: "held G (free_element c)" using held_free_element(1) [OF h] by (simp add: held_def free_element_def)
  show "handle_inv G n w'"
    using assms d f h e by (auto simp: handle_disconnect_def handle_inv_def live_states_def free_element_def split: if_splits)
  show "fl_state w' = FLOM_HANDLE_STATE_DISCONNECTED \<and> rc = (if ig then FLOM_RC_RESOURCE_IS_NOT_TRANSACTIONAL else FLOM_RC_OK) \<or>
    fl_state w' = FLOM_HANDLE_STATE_CONNECTED \<and> rc \<noteq> FLOM_RC_OK"
    using assms d by (auto simp: handle_disconnect_def split: if_splits)
qed

lemma client_unlock_free: "fst (flom_msg_free (client_unlock_request name rollback)) = FLOM_RC_OK"
  by (simp add: flom_msg_free_def flom_msg_free_body_def client_unlock_request_def flom_msg_init_def Let_def)

lemma client_unlock_frame:
  assumes "flom_client_unlock inp rollback c = (rc, c')"
  shows "lock_frame c c'" "ct_config c' = ct_config c"
    "if rc = FLOM_RC_OK then (\<exists>name. cf_resource_name (ct_value c) = Some name \<and> ct_sent c' = ct_sent c @ [client_unlock_request name rollback])
     else ct_sent c' = ct_sent c"
proof -
  have "lock_frame c c' \<and> ct_config c' = ct_config c \<and>
    (if rc = FLOM_RC_OK then (\<exists>name. cf_resource_name (ct_value c) = Some name \<and> ct_sent c' = ct_sent c @ [client_unlock_request name rollback])
     else ct_sent c' = ct_sent c)"
  proof (cases "cf_resource_name (ct_value c)")
    case (Some name)
    then have t: "client_send (lo_b64 inp) (lo_old inp) (lo_send inp) (client_unlock_request name rollback) c = (rc, c')"
      using assms by (simp add: flom_client_unlock_def)
    have "rc \<noteq> FLOM_RC_OK \<Longrightarrow> ct_sent c' = ct_sent c"
      using t by (auto simp: client_send_def client_unlock_free split: sum.splits if_splits)
    then show ?thesis using client_send_frame [OF t] Some by simp
  qed (use assms in \<open>simp add: flom_client_unlock_def\<close>)
  then show "lock_frame c c'" "ct_config c' = ct_config c"
    "if rc = FLOM_RC_OK then (\<exists>name. cf_resource_name (ct_value c) = Some name \<and> ct_sent c' = ct_sent c @ [client_unlock_request name rollback])
     else ct_sent c' = ct_sent c" by simp_all
qed

text \<open>The unlock sends at most one message, for the resource that the handle names.\<close>

lemma handle_unlock_step:
  assumes "handle_inv G n w" "\<not> hi_null inp" "flom_handle_unlock_internal inp rb w = (rc, w')"
    "op = (if rb then H_unlock_rollback else H_unlock)"
  shows "handle_inv G n w' \<and> handle_next (fl_state w) op rc (fl_state w')"
proof -
  have w: "fl_init_flag w" "fl_alloc w" "fl_state w \<in> live_states" using assms(1) by (simp_all add: handle_inv_def)
  have op: "op \<in> {H_unlock, H_unlock_rollback}" using assms(4) by simp
  let ?ig = "rb \<and> \<not> handle_transactional w"
  consider "fl_state w = FLOM_HANDLE_STATE_LOCKED" | "fl_state w = FLOM_HANDLE_STATE_CONNECTED"
    | "fl_state w \<notin> {FLOM_HANDLE_STATE_LOCKED, FLOM_HANDLE_STATE_CONNECTED}" by blast
  then show ?thesis
  proof cases
    case 1
    obtain r c where u: "flom_client_unlock (hi_unlock inp) (rb \<and> handle_transactional w) (fl_client w) = (r, c)" by fastforce
    note f = client_unlock_frame [OF u]
    show ?thesis
    proof (cases "r = FLOM_RC_OK")
      case True
      let ?w1 = "w\<lparr>fl_client := c, fl_state := FLOM_HANDLE_STATE_CONNECTED\<rparr>"
      have d: "handle_disconnect inp ?ig ?w1 = (rc, w')"
        using assms w 1 u True by (simp add: flom_handle_unlock_internal_def)
      have i: "handle_inv G n ?w1"
        using lock_frame_inv [OF assms(1) f(1), of ?w1] by (simp add: live_states_def)
      from handle_disconnect_step [OF i _ d] show ?thesis
        using 1 op assms(4) handle_next.released handle_next.not_closed by auto
    next
      case False
      then have e: "rc = r" "w' = w\<lparr>fl_client := c\<rparr>"
        using assms w 1 u by (simp_all add: flom_handle_unlock_internal_def)
      have "names_locked c"
        using assms(1) 1 f False by (simp add: handle_inv_def names_locked_def ct_value_def)
      then have "handle_inv G n w'"
        using lock_frame_inv [OF assms(1) f(1), of w'] e w(3) 1 by (simp add: flom_lib.equality)
      then show ?thesis using e 1 op False handle_next.not_released by simp
    qed
  next
    case 2
    then have d: "handle_disconnect inp ?ig w = (rc, w')"
      using assms w by (simp add: flom_handle_unlock_internal_def)
    from handle_disconnect_step [OF assms(1) 2 d] show ?thesis
      using 2 op assms(4) handle_next.released handle_next.not_closed by auto
  next
    case 3
    then have "rc = FLOM_RC_API_INVALID_SEQUENCE" "w' = w" using assms w by (simp_all add: flom_handle_unlock_internal_def)
    then show ?thesis using assms(1) 3 op handle_next.unlock_refused by simp
  qed
qed

section \<open>The release\<close>

inductive_cases handle_next_unlock: "handle_next s H_unlock rc s'"

definition cleaned_state :: "nat \<Rightarrow> flom_lib \<Rightarrow> bool" where
  "cleaned_state n w \<longleftrightarrow> fl_init_flag w \<and> \<not> fl_alloc w \<and> fl_state w = FLOM_HANDLE_STATE_CLEANED \<and> ct_forks (fl_client w) = n"

lemma release_frees:
  assumes "held G (fl_client w)"
  shows "h_map (fl_heap (handle_release w)) = G" "\<not> h_bad (fl_heap (handle_release w))"
proof -
  have "h_map (fl_heap (handle_release w)) = G \<and> \<not> h_bad (fl_heap (handle_release w))"
  proof (cases "ct_element (fl_client w)")
    case None
    then show ?thesis
      using assms free_owned [of G "ct_config (fl_client w)"]
      by (simp add: held_def fl_heap_def handle_release_def free_element_def g_free_def Let_def)
  next
    case (Some a)
    then obtain t where t: "G a = None" "owns (G(a \<mapsto> t)) (ct_config (fl_client w))" using assms by (auto simp: held_def)
    show ?thesis
      using t(1) free_owned [OF t(2)] Some by (auto simp: fl_heap_def handle_release_def free_element_def g_free_def Let_def)
  qed
  then show "h_map (fl_heap (handle_release w)) = G" "\<not> h_bad (fl_heap (handle_release w))" by simp_all
qed

lemma handle_clean_step:
  assumes "handle_inv G n w" "flom_handle_clean inp w = (rc, w')"
  shows "handle_next (fl_state w) H_clean rc (fl_state w')"
    "if rc = FLOM_RC_OK then cleaned_state n w' \<and> h_map (fl_heap w') = G \<and> \<not> h_bad (fl_heap w') else handle_inv G n w'"
proof -
  have w: "fl_init_flag w" "fl_state w \<in> live_states" using assms(1) by (simp_all add: handle_inv_def)
  have rel: "cleaned_state n (handle_release v)" "h_map (fl_heap (handle_release v)) = G" "\<not> h_bad (fl_heap (handle_release v))"
    if "handle_inv G n v" for v
    using that release_frees by (auto simp: cleaned_state_def handle_inv_def handle_release_def free_element_def Let_def)
  define p where "p = (if fl_state w = FLOM_HANDLE_STATE_LOCKED then flom_handle_unlock (inp\<lparr>hi_null := False\<rparr>) w else (FLOM_RC_OK, w))"
  obtain r w1 where p: "p = (r, w1)" by fastforce
  have i: "handle_inv G n w1" and nx: "if fl_state w = FLOM_HANDLE_STATE_LOCKED then handle_next (fl_state w) H_unlock r (fl_state w1) else r = FLOM_RC_OK \<and> w1 = w"
    using p assms(1) handle_unlock_step [OF assms(1), of "inp\<lparr>hi_null := False\<rparr>" False r w1]
    by (auto simp: p_def flom_handle_unlock_def split: if_splits)
  have e: "(rc, w') = (if r \<noteq> FLOM_RC_OK then (r, w1)
      else if fl_state w1 \<notin> {FLOM_HANDLE_STATE_INIT, FLOM_HANDLE_STATE_DISCONNECTED} then (FLOM_RC_API_INVALID_SEQUENCE, w1)
      else (FLOM_RC_OK, handle_release w1))"
    using assms(2) w p by (simp add: flom_handle_clean_def flip: p_def)
  have d: "fl_state w1 = FLOM_HANDLE_STATE_DISCONNECTED" if "fl_state w = FLOM_HANDLE_STATE_LOCKED" "r = FLOM_RC_OK"
    using nx that by (auto elim: handle_next_unlock simp: is_setter_def)
  show "handle_next (fl_state w) H_clean rc (fl_state w')"
  proof (cases "fl_state w = FLOM_HANDLE_STATE_LOCKED")
    case True
    show ?thesis
    proof (cases "r = FLOM_RC_OK")
      case ok: True
      then show ?thesis using e d True handle_next.cleaned by (simp add: handle_release_def Let_def)
    next
      case False
      then show ?thesis using e True nx handle_next.not_cleaned by simp
    qed
  next
    case False
    then show ?thesis
      using e nx w(2) handle_next.cleaned handle_next.clean_refused
      by (auto simp: live_states_def handle_release_def Let_def)
  qed
  show "if rc = FLOM_RC_OK then cleaned_state n w' \<and> h_map (fl_heap w') = G \<and> \<not> h_bad (fl_heap w') else handle_inv G n w'"
    using e i rel [OF i] by (auto split: if_splits)
qed

section \<open>Sessions\<close>

text \<open>A handle is alive, with its invariant, or cleaned.\<close>

definition session_inv :: "(addr \<Rightarrow> string option) \<Rightarrow> nat \<Rightarrow> flom_lib \<Rightarrow> bool" where
  "session_inv G n w \<longleftrightarrow> handle_inv G n w \<or> cleaned_state n w"

lemma cleaned_step:
  assumes "cleaned_state n w" "\<not> hi_null inp" "handle_step inp op w = Some (rc, w')"
  shows "cleaned_state n w' \<and> handle_next (fl_state w) op rc (fl_state w')"
proof (cases "is_setter op")
  case True
  have st: "fl_state w \<notin> set (op_states op)" using assms(1) op_states_guard(2) [of op] by (simp add: cleaned_state_def)
  have h: "handle_setter (hi_env inp) op w = (rc, w')"
    using assms(3) True by (cases op) (auto simp: handle_step_def is_setter_def)
  show ?thesis
  proof (cases "\<exists>v. op = H_trace_filename v")
    case trace: True
    then show ?thesis
      using assms(1) h True handle_next.setter_done
      by (auto simp: flom_handle_set_trace_filename_def cleaned_state_def set_global_def)
  next
    case False
    then have "rc = FLOM_RC_API_IMMUTABLE_HANDLE" "w' = w"
      using h st handle_setter_guarded [OF True False] by (simp_all add: handle_set_def)
    then show ?thesis using assms(1) handle_next.immutable [OF True st] by simp
  qed
next
  case False
  then have "rc = FLOM_RC_API_INVALID_SEQUENCE \<and> w' = w"
    using assms
    by (cases op) (auto simp: is_setter_def handle_step_def cleaned_state_def flom_handle_lock_def flom_handle_unlock_def
        flom_handle_unlock_rollback_def flom_handle_unlock_internal_def flom_handle_clean_def)
  then show ?thesis
    using False assms(1) handle_next.lock_refused handle_next.unlock_refused handle_next.clean_refused
    by (cases op) (auto simp: is_setter_def cleaned_state_def unlocked_states_def)
qed

lemma session_step:
  assumes "session_inv G n w" "\<not> hi_null inp" "handle_step inp op w = Some (rc, w')"
  shows "session_inv G n w' \<and> handle_next (fl_state w) op rc (fl_state w')"
proof (cases "handle_inv G n w")
  case inv: True
  show ?thesis
  proof (cases "is_setter op")
    case True
    have h: "handle_setter (hi_env inp) op w = (rc, w')"
      using assms(3) True by (cases op) (auto simp: handle_step_def is_setter_def)
    have f: "setter_frame w w'" using handle_setter_frame [OF True _ h] inv by (simp add: handle_inv_def)
    have "handle_next (fl_state w) op rc (fl_state w')"
    proof (cases "fl_state w \<in> set (op_states op) \<or> (\<exists>v. op = H_trace_filename v)")
      case False
      then have "rc = FLOM_RC_API_IMMUTABLE_HANDLE" using h handle_setter_guarded [OF True] by (simp add: handle_set_def)
      then show ?thesis using f False handle_next.immutable [OF True] by (simp add: setter_frame_def)
    qed (use f handle_next.setter_done [OF True] in \<open>simp add: setter_frame_def\<close>)
    then show ?thesis using setter_inv [OF inv f] by (simp add: session_inv_def)
  next
    case False
    then consider "op = H_lock" | "op = H_unlock" | "op = H_unlock_rollback" | "op = H_clean" by (auto simp: is_setter_def)
    then show ?thesis
    proof cases
      case 1
      then have "flom_handle_lock inp w = Some (Ret (rc, w'))"
        using assms(3) by (auto simp: handle_step_def split: option.splits call.splits)
      then show ?thesis using handle_lock_step [OF inv assms(2)] 1 by (simp add: session_inv_def)
    next
      case 2
      then show ?thesis
        using assms(3) handle_unlock_step [OF inv assms(2), of False rc w'] by (simp add: handle_step_def flom_handle_unlock_def session_inv_def)
    next
      case 3
      then show ?thesis
        using assms(3) handle_unlock_step [OF inv assms(2), of True rc w'] by (simp add: handle_step_def flom_handle_unlock_rollback_def session_inv_def)
    next
      case 4
      then show ?thesis
        using assms(3) handle_clean_step [OF inv, of inp rc w'] by (auto simp: handle_step_def session_inv_def split: if_splits)
    qed
  qed
qed (use assms cleaned_step in \<open>auto simp: session_inv_def\<close>)

text \<open>The paths of the automaton.\<close>

fun handle_path :: "flom_handle_state \<Rightarrow> (handle_op \<times> rc) list \<Rightarrow> flom_handle_state \<Rightarrow> bool" where
  "handle_path s [] s' \<longleftrightarrow> s = s'"
| "handle_path s ((op, rc) # calls) s' \<longleftrightarrow> (\<exists>s1. handle_next s op rc s1 \<and> handle_path s1 calls s')"

lemma session_run:
  assumes "session_inv G n w" "list_all (\<lambda>c. \<not> hi_null (fst c)) calls" "handle_session calls w = Some (rcs, w')"
  shows "session_inv G n w' \<and> handle_path (fl_state w) (zip (map snd calls) rcs) (fl_state w')"
  using assms
proof (induction calls arbitrary: w rcs)
  case (Cons c calls)
  obtain inp op where c: "c = (inp, op)" by fastforce
  obtain rc w1 rcs1 where st: "handle_step inp op w = Some (rc, w1)" "handle_session calls w1 = Some (rcs1, w')" "rcs = rc # rcs1"
    using Cons.prems(3) c by (auto split: option.splits)
  have "session_inv G n w1 \<and> handle_next (fl_state w) op rc (fl_state w1)"
    using session_step [OF Cons.prems(1) _ st(1)] Cons.prems(2) c by simp
  then show ?case using Cons.IH [of w1 rcs1] Cons.prems(2) c st(2,3) by auto
qed simp

text \<open>
  The library before a handle is initialized: never used, or initialized with a global configuration
  that owns its strings.
\<close>

definition lib_ok :: "(addr \<Rightarrow> string option) \<Rightarrow> flom_lib \<Rightarrow> bool" where
  "lib_ok F w \<longleftrightarrow> (if fl_init_flag w then owns F \<lparr>heap = fl_heap w, cfg = fl_global w\<rparr>
     else heap_fresh (fl_heap w) \<and> F = h_map (fl_heap w))"

lemma init_check_ok:
  assumes "lib_ok F w" "flom_init_check inp w = (FLOM_RC_OK, w0)"
  shows "owns F \<lparr>heap = fl_heap w0, cfg = fl_global w0\<rparr>" "fl_init_flag w0" "ct_forks (fl_client w0) = ct_forks (fl_client w)"
proof -
  have "owns F \<lparr>heap = fl_heap w0, cfg = fl_global w0\<rparr> \<and> fl_init_flag w0 \<and> ct_forks (fl_client w0) = ct_forks (fl_client w)"
  proof (cases "fl_init_flag w")
    case False
    define c1 where "c1 = snd (flom_config_init (hi_env inp) None (flom_config_reset (fl_heap w)))"
    define c2 where "c2 = snd (flom_config_check (hi_env inp) c1)"
    have o: "owns F (flom_config_reset (fl_heap w))" using assms(1) False reset_owns by (simp add: lib_ok_def heap_fresh_def)
    have "owns F c2" unfolding c2_def c1_def by (intro check_owns init_owns o)
    moreover have "w0 = (set_global c2 w)\<lparr>fl_init_flag := True\<rparr>"
      using assms(2) False by (auto simp: flom_init_check_def c1_def c2_def split: prod.splits if_splits)
    ultimately show ?thesis by (simp add: set_global_def fl_heap_def owns_def)
  qed (use assms in \<open>simp add: lib_ok_def\<close>)
  then show "owns F \<lparr>heap = fl_heap w0, cfg = fl_global w0\<rparr>" "fl_init_flag w0"
    "ct_forks (fl_client w0) = ct_forks (fl_client w)" by simp_all
qed

lemma apart_append:
  assumes "apart ps" "apart qs" "\<And>a. Some a \<in> set ps \<Longrightarrow> Some a \<notin> set qs"
  shows "apart (ps @ qs)"
  unfolding apart_def
proof (intro allI impI)
  fix i j assume ij: "i < length (ps @ qs)" "j < length (ps @ qs)" "i \<noteq> j" "(ps @ qs) ! i \<noteq> None"
  then obtain a where a: "(ps @ qs) ! i = Some a" by auto
  have ps: "Some a \<in> set ps" if "k < length ps" "(ps @ qs) ! k = Some a" for k
    using that nth_mem by (fastforce simp: nth_append)
  have qs: "Some a \<in> set qs" if "\<not> k < length ps" "k < length (ps @ qs)" "(ps @ qs) ! k = Some a" for k
    using that nth_mem [of "k - length ps" qs] by (auto simp: nth_append)
  show "(ps @ qs) ! i \<noteq> (ps @ qs) ! j"
  proof
    assume eq: "(ps @ qs) ! i = (ps @ qs) ! j"
    consider "i < length ps" "j < length ps" | "\<not> i < length ps" "\<not> j < length ps" | "(i < length ps) \<noteq> (j < length ps)" by blast
    then show False
    proof cases
      case 1
      then show ?thesis using assms(1) ij a eq unfolding apart_def by (metis nth_append option.distinct(1))
    next
      case 2
      then have "i - length ps < length qs" "j - length ps < length qs" "i - length ps \<noteq> j - length ps" using ij by auto
      then show ?thesis using assms(2) a eq 2 unfolding apart_def by (metis nth_append option.distinct(1))
    next
      case 3
      then show ?thesis using ps qs ij a eq assms(3) by metis
    qed
  qed
qed

lemma apart_drop: "apart ps \<Longrightarrow> apart (drop k ps)"
  unfolding apart_def by (auto simp: less_diff_conv)

lemma apart_take: "apart ps \<Longrightarrow> apart (take k ps)"
  unfolding apart_def by auto

text \<open>The copy of a handle owns its strings over those of the global configuration, but for the TLS names, which it shares.\<close>

lemma clone_held:
  assumes o: "owns F \<lparr>heap = h, cfg = g\<rparr>" and c: "flom_config_clone h g = (h', c)"
  shows "owns (\<lambda>a. if Some a \<in> set (tls_names g) then None else h_map h a) \<lparr>heap = h', cfg = c\<rparr>"
proof -
  let ?G = "\<lambda>a. if Some a \<in> set (tls_names g) then None else h_map h a"
  let ?T = "drop 8 (ptrs g)"
  have T: "?T = tls_names g" "drop 8 (ptrs c) = ?T" using clone_dup_all(2) [OF c] by (simp_all add: ptrs_def tls_names_def)
  have p: "ptrs c = take 8 (ptrs c) @ ?T" using T(2) by (metis append_take_drop_id)
  note k = clone_owns(1) [OF o c, unfolded owns_list_def]
  have old: "h_map h a \<noteq> None" if "Some a \<in> set ?T" for a
    using that o in_set_dropD unfolding owns_def owns_list_def by fastforce
  have new: "h_map h a = None" "h_map h' a \<noteq> None" if "Some a \<in> set (take 8 (ptrs c))" for a
    using k that by auto
  have ap: "apart (ptrs c)"
  proof (subst p, rule apart_append)
    have "take 8 (take 8 (ptrs c) @ replicate 3 None) = take 8 (ptrs c)" by (simp add: ptrs_def)
    then show "apart (take 8 (ptrs c))" using k apart_take [of "take 8 (ptrs c) @ replicate 3 None" 8] by simp
    show "apart ?T" using o apart_drop by (auto simp: owns_def owns_list_def)
    show "Some a \<notin> set ?T" if "Some a \<in> set (take 8 (ptrs c))" for a using new(1) [OF that] old by blast
  qed
  have mem: "Some a \<in> set (ptrs c) \<longleftrightarrow> Some a \<in> set (take 8 (ptrs c)) \<or> Some a \<in> set ?T" for a by (subst p) auto
  have keep: "h_map h' a = h_map h a" if "Some a \<notin> set (take 8 (ptrs c))" for a using k that by auto
  have "owns_list ?G h' (ptrs c)"
    unfolding owns_list_def
  proof (intro conjI allI impI)
    show "\<not> h_bad h'" "apart (ptrs c)" using k ap by simp_all
    fix a
    show "?G a = None" if "Some a \<in> set (ptrs c)" using that mem new(1) T by auto
    show "h_map h' a \<noteq> None" if "Some a \<in> set (ptrs c)" using that mem new old keep by metis
    show "h_map h' a = ?G a" if "Some a \<notin> set (ptrs c)" using that mem keep T by auto
    show "h_map h' a = None" if "h_next h' \<le> a" using k that by blast
  qed
  moreover have "cf_resource_name c \<noteq> None"
  proof -
    have "cf_resource_name (view h g) \<noteq> None" using o owned_str [OF o, of "cf_resource_name g"] by (auto simp: owns_def ptrs_def view_def)
    then have "cf_resource_name (view h' c) \<noteq> None" using clone_value [OF o c] by simp
    then show ?thesis by (cases "cf_resource_name c") (simp_all add: view_def str_of_def)
  qed
  ultimately show ?thesis by (simp add: owns_def ptrs_def)
qed

lemma handle_init_inv:
  assumes "lib_ok F w" "flom_handle_init inp w = (FLOM_RC_OK, w0)"
  shows "\<exists>G. handle_inv G (ct_forks (fl_client w)) w0 \<and> fl_state w0 = FLOM_HANDLE_STATE_INIT \<and>
    (fl_init_flag w \<and> list_all (\<lambda>p. p = None) (tls_names (fl_global w)) \<longrightarrow> G = h_map (fl_heap w))"
proof -
  obtain r w1 where i: "flom_init_check inp w = (r, w1)" by fastforce
  obtain h c where c: "flom_config_clone (fl_heap w1) (fl_global w1) = (h, c)" by fastforce
  have r: "r = FLOM_RC_OK" and w0: "w0 = (zero_handle w1)\<lparr>fl_state := FLOM_HANDLE_STATE_INIT, fl_alloc := True,
      fl_client := (zero_conn (fl_client (zero_handle w1)))\<lparr>ct_config := flom_config_set_lifespan 0 \<lparr>heap = h, cfg = c\<rparr>\<rparr>\<rparr>"
    using assms(2) i c by (auto simp: flom_handle_init_def Let_def fl_heap_def zero_handle_def split: if_splits)
  note ok = init_check_ok [OF assms(1) i [unfolded r]]
  let ?G = "\<lambda>a. if Some a \<in> set (tls_names (fl_global w1)) then None else h_map (fl_heap w1) a"
  have "owns ?G (flom_config_set_lifespan 0 \<lparr>heap = h, cfg = c\<rparr>)"
    using clone_held [OF ok(1) c] plain_setters_own(3) by blast
  then have "handle_inv ?G (ct_forks (fl_client w)) w0"
    using ok by (simp add: handle_inv_def w0 held_def zero_conn_def zero_handle_def live_states_def
        flom_config_set_lifespan_def set_plain_def)
  moreover have "?G = h_map (fl_heap w)" if "fl_init_flag w" "list_all (\<lambda>p. p = None) (tls_names (fl_global w))"
    using that i r by (fastforce simp: list_all_iff)
  ultimately show ?thesis using w0 by (intro exI [of _ ?G]) simp
qed

lemma session_from_init:
  assumes "lib_ok F w" "flom_handle_init inp w = (FLOM_RC_OK, w0)"
    and "list_all (\<lambda>c. \<not> hi_null (fst c)) calls" "handle_session calls w0 = Some (rcs, w')"
  shows "\<exists>G. session_inv G (ct_forks (fl_client w)) w' \<and>
    handle_path FLOM_HANDLE_STATE_INIT (zip (map snd calls) rcs) (fl_state w') \<and>
    (fl_init_flag w \<and> list_all (\<lambda>p. p = None) (tls_names (fl_global w)) \<longrightarrow> G = h_map (fl_heap w))"
proof -
  obtain G where G: "handle_inv G (ct_forks (fl_client w)) w0" "fl_state w0 = FLOM_HANDLE_STATE_INIT"
    "fl_init_flag w \<and> list_all (\<lambda>p. p = None) (tls_names (fl_global w)) \<longrightarrow> G = h_map (fl_heap w)"
    using handle_init_inv [OF assms(1,2)] by blast
  have "session_inv G (ct_forks (fl_client w)) w0" using G(1) by (simp add: session_inv_def)
  from session_run [OF this assms(3,4)] show ?thesis using G(2,3) by auto
qed

section \<open>Properties\<close>

text \<open>A library that was initialized, and calls on a handle with a local socket.\<close>

definition sample_lib :: flom_lib where
  "sample_lib =
     (let c = snd (flom_config_set_socket_name (Some ''s'') (flom_config_reset sample_heap)) in
      \<lparr> fl_init_flag = True, fl_global = cfg c, fl_state = FLOM_HANDLE_STATE_ZERO, fl_alloc = False,
        fl_client = sample_client\<lparr>ct_config := c, ct_open := []\<rparr> \<rparr>)"

definition sample_connect :: "int \<Rightarrow> connect_input" where
  "sample_connect fd =
     \<lparr> co_socket = Some fd, co_connect = Connected, co_daemon = FLOM_RC_OK, co_again = True, co_getaddrinfo = None,
       co_getaddrinfo_again = None, co_nodelay_fails = False, co_fcntl_fails = False, co_tls_context = FLOM_RC_OK,
       co_tls_set_cert = FLOM_RC_OK, co_tls_connect = FLOM_RC_OK \<rparr>"

definition sample_discover :: discover_input where
  "sample_discover =
     \<lparr> du_getaddrinfo = None, du_rcvtimeo_fails = False, du_sendto = (\<lambda>_. True), du_recvfrom = (\<lambda>_. No_reply),
       du_parser_new = True, du_markup = (\<lambda>_. ([], True)), du_b64 = (\<lambda>t. t), du_old = (\<lambda>_. CHR ''x''), du_unb64 = Some,
       du_scope_id = 0, du_interfaces = Config.sample_env, du_tcp = sample_connect 0, du_socket = None,
       du_connect_fails = False, du_nodelay_fails = False \<rparr>"

definition sample_call :: "int \<Rightarrow> connect_result \<Rightarrow> handle_input" where
  "sample_call fd r =
     \<lparr> hi_null = False, hi_regcomp = True, hi_env = Config.sample_env, hi_malloc_handle = True, hi_malloc_conn = True,
       hi_malloc_config = True, hi_connect = (sample_connect fd)\<lparr>co_connect := r\<rparr>, hi_discover = sample_discover,
       hi_discover_again = sample_discover,
       hi_lock = (sample_lock_call (sample_answer 16 FLOM_RC_OK) [])\<lparr>lo_send := \<lparr>sc_getsockopt_fails = False, sc_peer_closed = False, sc_written = 161\<rparr>\<rparr>,
       hi_unlock = (sample_lock_call (sample_answer 16 FLOM_RC_OK) [])\<lparr>lo_send := \<lparr>sc_getsockopt_fails = False, sc_peer_closed = False, sc_written = 112\<rparr>\<rparr>,
       hi_close_fails = False \<rparr>"

lemma sample_lib_ok: "lib_ok (\<lambda>_. None) sample_lib"
proof -
  have "owns (h_map sample_heap) (flom_config_reset sample_heap)"
    by (rule reset_owns) (simp_all add: sample_heap_def)
  then have "owns (\<lambda>_. None) (snd (flom_config_set_socket_name (Some ''s'') (flom_config_reset sample_heap)))"
    using setters_own(5) by (simp add: sample_heap_def)
  then show ?thesis by (simp add: lib_ok_def sample_lib_def fl_heap_def Let_def owns_def)
qed

text \<open>C11. The handle follows its automaton.  After an initialization, whatever methods are called in whatever
  order and whatever happens on the network, the states of the handle and the reason codes are those
  of the automaton: a lock that succeeds always ends in the state locked and no other call
  does; a call out of sequence is refused and changes nothing; a setting that
  the state does not allow is refused; a handle that was cleaned stays so.
\<close>

theorem handle_follows_automaton:
  assumes "lib_ok F w" "flom_handle_init inp w = (FLOM_RC_OK, w0)"
    and "list_all (\<lambda>c. \<not> hi_null (fst c)) calls" "handle_session calls w0 = Some (rcs, w')"
  shows "handle_path FLOM_HANDLE_STATE_INIT (zip (map snd calls) rcs) (fl_state w')"
  using session_from_init [OF assms] by blast

text \<open>A client of the library never starts a daemon: whatever methods are called on a handle, also when no
  daemon answers, the process of the caller is never forked.
\<close>

theorem handle_never_forks:
  assumes "lib_ok F w" "flom_handle_init inp w = (FLOM_RC_OK, w0)"
    and "list_all (\<lambda>c. \<not> hi_null (fst c)) calls" "handle_session calls w0 = Some (rcs, w')"
  shows "ct_forks (fl_client w') = ct_forks (fl_client w)"
  using session_from_init [OF assms] by (auto simp: session_inv_def handle_inv_def cleaned_state_def)

text \<open>C12. The unlock names the resource that was locked.  After any sequence of calls that leaves the handle locked, an
  unlock or rollback that succeeds sends one message, right after the lock request and for the
  resource of that request; it asks for a rollback exactly when the caller does and the
  name is that of a transactional resource.
\<close>

theorem handle_unlocks_what_it_locked:
  assumes "lib_ok F w" "flom_handle_init inp w = (FLOM_RC_OK, w0)"
    and "list_all (\<lambda>c. \<not> hi_null (fst c)) calls" "handle_session calls w0 = Some (rcs, w')"
    and "fl_state w' = FLOM_HANDLE_STATE_LOCKED" "flom_handle_unlock_internal inp' rb w' = (rc, w'')"
    and "rc = FLOM_RC_OK \<or> rc = FLOM_RC_RESOURCE_IS_NOT_TRANSACTIONAL \<and> fl_state w'' = FLOM_HANDLE_STATE_DISCONNECTED"
  shows "\<exists>ms peerid name v. ct_sent (fl_client w'') =
    ms @ [client_lock_request peerid name v, client_unlock_request name (rb \<and> flom_rsrc_get_transactional name)]"
proof -
  obtain G where "session_inv G (ct_forks (fl_client w)) w'" using session_from_init [OF assms(1-4)] by blast
  then have i: "fl_init_flag w'" "fl_alloc w'" "names_locked (fl_client w')"
    using assms(5) by (auto simp: session_inv_def handle_inv_def cleaned_state_def)
  then obtain peerid name v ms where n: "cf_resource_name (ct_value (fl_client w')) = Some name"
    "ct_sent (fl_client w') = ms @ [client_lock_request peerid name v]" by (auto simp: names_locked_def)
  have t: "handle_transactional w' = flom_rsrc_get_transactional name" using n(1) by (simp add: handle_transactional_def)
  obtain r c where u: "flom_client_unlock (hi_unlock inp') (rb \<and> handle_transactional w') (fl_client w') = (r, c)" by fastforce
  have r: "r = FLOM_RC_OK"
    using assms(5-7) i u by (auto simp: flom_handle_unlock_internal_def split: if_splits)
  let ?w1 = "w'\<lparr>fl_client := c, fl_state := FLOM_HANDLE_STATE_CONNECTED\<rparr>"
  have "handle_disconnect inp' (rb \<and> \<not> handle_transactional w') ?w1 = (rc, w'')"
    using assms(5-7) i u r by (auto simp: flom_handle_unlock_internal_def split: if_splits)
  then have "ct_sent (fl_client w'') = ct_sent c"
    by (auto simp: handle_disconnect_def free_element_def dest: disconnect_frame(4) split: prod.splits if_splits)
  then show ?thesis using client_unlock_frame(3) [OF u] r n t by auto
qed


text \<open>The calls that the witnesses make: a lock and an unlock with settings that are accepted and refused.\<close>

definition sample_handle_calls :: "(handle_input \<times> handle_op) list" where
  "sample_handle_calls = map (\<lambda>op. (sample_call 3 Connected, op)) [H_resource_name ''r'', H_lock, H_resource_name ''q'']"

definition sample_handle :: flom_lib where
  "sample_handle = snd (flom_handle_init (sample_call 3 Connected) sample_lib)"

lemma sample_handle_init: "flom_handle_init (sample_call 3 Connected) sample_lib = (FLOM_RC_OK, sample_handle)"
proof -
  have "fst (flom_handle_init (sample_call 3 Connected) sample_lib) = FLOM_RC_OK" by code_simp
  then show ?thesis by (simp add: sample_handle_def prod_eq_iff)
qed

lemma sample_not_null: "list_all (\<lambda>c. \<not> hi_null (fst c)) sample_handle_calls"
  by (simp add: sample_handle_calls_def sample_call_def)

lemma sample_session:
  "\<exists>w. handle_session sample_handle_calls sample_handle = Some ([FLOM_RC_OK, FLOM_RC_OK, FLOM_RC_API_IMMUTABLE_HANDLE], w) \<and>
     fl_state w = FLOM_HANDLE_STATE_LOCKED"
proof -
  have "map_option (\<lambda>p. (fst p, fl_state (snd p))) (handle_session sample_handle_calls sample_handle) =
      Some ([FLOM_RC_OK, FLOM_RC_OK, FLOM_RC_API_IMMUTABLE_HANDLE], FLOM_HANDLE_STATE_LOCKED)"
    by code_simp
  then show ?thesis by auto
qed

theorem handle_follows_automaton_witness:
  "handle_path FLOM_HANDLE_STATE_INIT
     [(H_resource_name ''r'', FLOM_RC_OK), (H_lock, FLOM_RC_OK), (H_resource_name ''q'', FLOM_RC_API_IMMUTABLE_HANDLE)]
     FLOM_HANDLE_STATE_LOCKED"
proof -
  obtain w where w: "handle_session sample_handle_calls sample_handle = Some ([FLOM_RC_OK, FLOM_RC_OK, FLOM_RC_API_IMMUTABLE_HANDLE], w)"
    "fl_state w = FLOM_HANDLE_STATE_LOCKED" using sample_session by blast
  then show ?thesis
    using handle_follows_automaton [OF sample_lib_ok sample_handle_init sample_not_null w(1)]
    by (simp add: sample_handle_calls_def del: handle_path.simps)
qed

theorem handle_never_forks_witness:
  "\<exists>rcs w. handle_session [(sample_call 3 Refused, H_lock)] sample_handle = Some (rcs, w) \<and> ct_forks (fl_client w) = 0 \<and> rcs \<noteq> [FLOM_RC_OK]"
proof -
  have "map_option fst (handle_session [(sample_call 3 Refused, H_lock)] sample_handle) = Some [FLOM_RC_CONNECT_ERROR]"
    by code_simp
  then obtain w where w: "handle_session [(sample_call 3 Refused, H_lock)] sample_handle = Some ([FLOM_RC_CONNECT_ERROR], w)" by auto
  have "ct_forks (fl_client sample_lib) = 0" by (simp add: sample_lib_def sample_client_def Let_def)
  then show ?thesis
    using handle_never_forks [OF sample_lib_ok sample_handle_init _ w] w by (simp add: sample_call_def)
qed

theorem handle_unlocks_what_it_locked_witness:
  "\<exists>w ms peerid name v. fl_state w = FLOM_HANDLE_STATE_LOCKED \<and>
     ct_sent (fl_client (snd (flom_handle_unlock_internal (sample_call 3 Connected) True w))) =
       ms @ [client_lock_request peerid name v, client_unlock_request name (True \<and> flom_rsrc_get_transactional name)]"
proof -
  obtain w where w: "handle_session sample_handle_calls sample_handle = Some ([FLOM_RC_OK, FLOM_RC_OK, FLOM_RC_API_IMMUTABLE_HANDLE], w)"
    "fl_state w = FLOM_HANDLE_STATE_LOCKED" using sample_session by blast
  have "(case handle_session sample_handle_calls sample_handle of None \<Rightarrow> False
      | Some p \<Rightarrow> (case flom_handle_unlock_internal (sample_call 3 Connected) True (snd p) of (rc, w'') \<Rightarrow>
          rc = FLOM_RC_RESOURCE_IS_NOT_TRANSACTIONAL \<and> fl_state w'' = FLOM_HANDLE_STATE_DISCONNECTED))"
    by code_simp
  then obtain w'' where u: "flom_handle_unlock_internal (sample_call 3 Connected) True w = (FLOM_RC_RESOURCE_IS_NOT_TRANSACTIONAL, w'')"
    "fl_state w'' = FLOM_HANDLE_STATE_DISCONNECTED" using w by (auto split: prod.splits)
  then show ?thesis
    using handle_unlocks_what_it_locked [OF sample_lib_ok sample_handle_init sample_not_null w u(1)] w(2)
    by simp (metis snd_conv)
qed


text \<open>C39. A handle that is used again leaks its socket.  The state of the connection object is not reset when a handle
  connects a second time, so that its disconnection is taken as done: from the second on, every
  lock followed by its unlock leaves one more descriptor open, although all calls report success.
\<close>

theorem handle_reuse_leaks_socket:
  assumes "lib_ok F w" "flom_handle_init inp w = (FLOM_RC_OK, w0)"
    and "list_all (\<lambda>c. \<not> hi_null (fst c)) calls" "handle_session calls w0 = Some (rcs, w1)"
    and "fl_state w1 = FLOM_HANDLE_STATE_DISCONNECTED" "\<not> hi_null inp1" "\<not> hi_null inp2"
    and "flom_handle_lock inp1 w1 = Some (Ret (FLOM_RC_OK, w2))" "flom_handle_unlock inp2 w2 = (FLOM_RC_OK, w3)"
  shows "fl_state w3 = FLOM_HANDLE_STATE_DISCONNECTED \<and>
    (\<exists>fd. ct_open (fl_client w3) = fd # ct_open (fl_client w1) \<and> cn_sockfd (ct_conn (fl_client w3)) = fd)"
proof -
  obtain G n where inv: "handle_inv G n w1"
    using session_from_init [OF assms(1-4)] assms(5) by (auto simp: session_inv_def cleaned_state_def)
  then have r: "cn_state (ct_conn (fl_client w1)) = FLOM_CONN_STATE_REMOVE" "fl_init_flag w1" "fl_alloc w1"
    using assms(5) by (simp_all add: handle_inv_def)
  obtain c where c: "flom_client_connect (hi_connect inp1) (hi_discover inp1) (hi_discover_again inp1) True (fl_client w1) = Ret (FLOM_RC_OK, c)"
    "handle_lock_acquire inp1 (w1\<lparr>fl_client := c, fl_state := FLOM_HANDLE_STATE_CONNECTED\<rparr>) = Some (FLOM_RC_OK, w2)"
    using assms(5,6,8) r by (auto simp: flom_handle_lock_def split: call.splits if_splits)
  obtain fd where fd: "cn_sockfd (ct_conn c) = fd" "ct_open c = fd # ct_open (fl_client w1)"
    using client_connect_frame [OF c(1)] by (auto simp: connect_fd_def)
  have k: "cn_state (ct_conn c) = FLOM_CONN_STATE_REMOVE"
    using client_connect_frame [OF c(1)] r by (simp add: connect_frame_def)
  obtain c2 where c2: "lock_frame c c2" "w2 = w1\<lparr>fl_client := c2, fl_state := FLOM_HANDLE_STATE_LOCKED\<rparr>"
    using c(2) client_lock_frame(1) by (fastforce simp: handle_lock_acquire_def split: option.splits prod.splits if_splits)
  obtain c3 where c3: "lock_frame c2 c3" "handle_disconnect inp2 False (w2\<lparr>fl_client := c3, fl_state := FLOM_HANDLE_STATE_CONNECTED\<rparr>) = (FLOM_RC_OK, w3)"
    using assms(7,9) r c2(2) client_unlock_frame(1)
    by (fastforce simp: flom_handle_unlock_def flom_handle_unlock_internal_def split: prod.splits if_splits)
  have "ct_conn c3 = ct_conn c" "ct_open c3 = ct_open c" using c2(1) c3(1) by (simp_all add: lock_frame_def)
  then show ?thesis
    using c3(2) k fd
    by (auto simp: handle_disconnect_def flom_client_disconnect_def flom_conn_terminate_def free_element_def split: if_splits)
qed

definition sample_reuse :: "(handle_input \<times> handle_op) list" where
  "sample_reuse = map (\<lambda>op. (sample_call 3 Connected, op)) [H_resource_name ''r'', H_lock, H_unlock]"

theorem handle_reuse_leaks_socket_witness:
  "\<exists>w1 w2 w3. handle_session sample_reuse sample_handle = Some w1 \<and> ct_open (fl_client (snd w1)) = [] \<and>
     flom_handle_lock (sample_call 4 Connected) (snd w1) = Some (Ret (FLOM_RC_OK, w2)) \<and>
     flom_handle_unlock (sample_call 4 Connected) w2 = (FLOM_RC_OK, w3) \<and> length (ct_open (fl_client w3)) = 1"
proof -
  have "(case handle_session sample_reuse sample_handle of None \<Rightarrow> False
      | Some p \<Rightarrow> fl_state (snd p) = FLOM_HANDLE_STATE_DISCONNECTED \<and> ct_open (fl_client (snd p)) = [] \<and>
          (case flom_handle_lock (sample_call 4 Connected) (snd p) of
             Some (Ret (rc, w2)) \<Rightarrow> rc = FLOM_RC_OK \<and> fst (flom_handle_unlock (sample_call 4 Connected) w2) = FLOM_RC_OK
           | _ \<Rightarrow> False))"
    by code_simp
  then obtain rcs w1 w2 w3 where s: "handle_session sample_reuse sample_handle = Some (rcs, w1)"
    "fl_state w1 = FLOM_HANDLE_STATE_DISCONNECTED" "ct_open (fl_client w1) = []"
    "flom_handle_lock (sample_call 4 Connected) w1 = Some (Ret (FLOM_RC_OK, w2))"
    "flom_handle_unlock (sample_call 4 Connected) w2 = (FLOM_RC_OK, w3)"
    by (auto split: option.splits call.splits prod.splits simp: prod_eq_iff)
  have n: "list_all (\<lambda>c. \<not> hi_null (fst c)) sample_reuse" "\<not> hi_null (sample_call 4 Connected)"
    by (simp_all add: sample_reuse_def sample_call_def)
  from handle_reuse_leaks_socket [OF sample_lib_ok sample_handle_init n(1) s(1,2) n(2,2) s(4,5)] s show ?thesis by auto
qed

text \<open>
  A socket name that is too long is refused after the two addresses were cleared: a handle that had
  an address has none any more, and its next connection fails in the branch that the code
  calls impossible.
\<close>

theorem refused_socket_name_clears_addresses:
  assumes "owns F (ct_config (fl_client w))" "fl_state w \<in> set idle_states" "LOCAL_SOCKET_SIZE \<le> length t"
    and "cf_socket_name (ct_value (fl_client w)) = None" "flom_handle_set_socket_name (Some t) w = (rc, w')"
  shows "rc = FLOM_RC_BUFFER_OVERFLOW"
    "flom_client_connect inp du1 du2 st (fl_client w') = Ret (FLOM_RC_INTERNAL_ERROR, fl_client w')"
proof -
  let ?c = "ct_config (fl_client w)"
  let ?c2 = "flom_config_set_multicast_address None (flom_config_set_unicast_address None ?c)"
  have w': "rc = FLOM_RC_BUFFER_OVERFLOW" "w' = set_config ?c2 w"
    using assms(2,3,5) by (simp_all add: flom_handle_set_socket_name_def handle_set_def flom_config_set_socket_name_def)
  then show "rc = FLOM_RC_BUFFER_OVERFLOW" by simp
  have "value_of ?c2 = (value_of ?c)\<lparr>cf_unicast_address := None, cf_multicast_address := None\<rparr>"
    using setters_value(3) [OF assms(1), of None] setters_value(4) [OF setters_own(3) [OF assms(1)], of None] by simp
  then show "flom_client_connect inp du1 du2 st (fl_client w') = Ret (FLOM_RC_INTERNAL_ERROR, fl_client w')"
    using assms(4) w'(2) by (simp add: flom_client_connect_def connect_transport_def set_config_def ct_value_def)
qed

end
