(* ===== verification/Program.thy ===== *)
theory Program
  imports Handle
begin

text \<open>
  The command line program, \<^verbatim>\<open>src/src/main.c\<close>, and the execution of the command under the lock,
  \<^verbatim>\<open>src/src/flom_exec.c\<close>.  The program works on the global configuration, which here is that of the client.

  The parser of the options is that of GLib: its result, the values of the options, is a
  parameter, and so is what \<^verbatim>\<open>fork\<close>, \<^verbatim>\<open>execvp\<close> and \<^verbatim>\<open>wait\<close> return.  What is printed is left out.
\<close>

abbreviation (input) FLOM_RC_EXECVP_ERROR :: int where "FLOM_RC_EXECVP_ERROR \<equiv> - 106"
abbreviation (input) FLOM_RC_SIGEMPTYSET_ERROR :: int where "FLOM_RC_SIGEMPTYSET_ERROR \<equiv> - 136"
abbreviation (input) FLOM_ES_OK :: int where "FLOM_ES_OK \<equiv> 0"
abbreviation (input) FLOM_ES_REQUESTER_CANT_WAIT :: int where "FLOM_ES_REQUESTER_CANT_WAIT \<equiv> 96"
abbreviation (input) FLOM_ES_UNABLE_TO_EXECUTE_COMMAND :: int where "FLOM_ES_UNABLE_TO_EXECUTE_COMMAND \<equiv> 97"
abbreviation (input) FLOM_ES_RESOURCE_BUSY :: int where "FLOM_ES_RESOURCE_BUSY \<equiv> 98"
abbreviation (input) FLOM_ES_GENERIC_ERROR :: int where "FLOM_ES_GENERIC_ERROR \<equiv> 99"

section \<open>The options\<close>

record options =
  op_print_version :: bool
  op_verbose :: bool
  op_config_file :: "string option"
  op_socket_name :: "string option"
  op_resource_name :: "string option"
  op_resource_timeout :: int
  op_resource_quantity :: int
  op_resource_create :: "string option"
  op_resource_idle_lifespan :: int
  op_lock_mode :: "string option"
  op_daemon_lifespan :: int
  op_unicast_address :: "string option"
  op_unicast_port :: int
  op_multicast_address :: "string option"
  op_multicast_port :: int
  op_mount_point_vfs :: "string option"
  op_network_interface :: "string option"
  op_discovery_attempts :: int
  op_discovery_timeout :: int
  op_discovery_ttl :: int
  op_tcp_keepalive_time :: int
  op_tcp_keepalive_intvl :: int
  op_tcp_keepalive_probes :: int
  op_tls_certificate :: "string option"
  op_tls_private_key :: "string option"
  op_tls_ca_certificate :: "string option"
  op_tls_check_peer_id :: "string option"
  op_ignore_signals :: "string list option"
  op_signal_list :: bool
  op_quiesce_exit :: bool
  op_immediate_exit :: bool
  op_command_trace_file :: "string option"
  op_daemon_trace_file :: "string option"
  op_append_trace_file :: "string option"
  op_unique_id :: bool
  op_debug_feature :: "string option"
  op_command_argv :: "string list option"

text \<open>The initial values of the variables: an option that is not given.\<close>

definition no_options :: options where
  "no_options =
     \<lparr> op_print_version = False, op_verbose = False, op_config_file = None, op_socket_name = None,
       op_resource_name = None, op_resource_timeout = - 1, op_resource_quantity = 0, op_resource_create = None,
       op_resource_idle_lifespan = 0, op_lock_mode = None, op_daemon_lifespan = 5000, op_unicast_address = None,
       op_unicast_port = 28015, op_multicast_address = None, op_multicast_port = 28015, op_mount_point_vfs = None,
       op_network_interface = None, op_discovery_attempts = 2, op_discovery_timeout = 500, op_discovery_ttl = 1,
       op_tcp_keepalive_time = 60, op_tcp_keepalive_intvl = 10, op_tcp_keepalive_probes = 6,
       op_tls_certificate = None, op_tls_private_key = None, op_tls_ca_certificate = None, op_tls_check_peer_id = None,
       op_ignore_signals = None, op_signal_list = False, op_quiesce_exit = False, op_immediate_exit = False,
       op_command_trace_file = None, op_daemon_trace_file = None, op_append_trace_file = None, op_unique_id = False,
       op_debug_feature = None, op_command_argv = None \<rparr>"

text \<open>One step of the override; \<open>None\<close> when the program exits with an error.\<close>

type_synonym option_step = "cfg_state \<Rightarrow> cfg_state option"

definition opt_string :: "string option \<Rightarrow> (string option \<Rightarrow> cfg_state \<Rightarrow> cfg_state) \<Rightarrow> option_step" where
  "opt_string v setter c = Some (if v \<noteq> None then setter v c else c)"

definition opt_checked :: "string option \<Rightarrow> (string \<Rightarrow> cfg_state \<Rightarrow> rc \<times> cfg_state) \<Rightarrow> option_step" where
  "opt_checked v setter c =
     (case v of
        None \<Rightarrow> Some c
      | Some t \<Rightarrow> (case setter t c of (rc, c') \<Rightarrow> if rc \<noteq> FLOM_RC_OK then None else Some c'))"

definition opt_int :: "int \<Rightarrow> int \<Rightarrow> (int \<Rightarrow> cfg_state \<Rightarrow> cfg_state) \<Rightarrow> option_step" where
  "opt_int dflt v setter c = Some (if dflt \<noteq> v then setter v c else c)"

definition opt_bool :: "string option \<Rightarrow> (bool \<Rightarrow> cfg_state \<Rightarrow> cfg_state) \<Rightarrow> option_step" where
  "opt_bool v setter c =
     (case v of
        None \<Rightarrow> Some c
      | Some t \<Rightarrow> (case flom_bool_value_retrieve t of
           FLOM_BOOL_INVALID \<Rightarrow> None
         | fbv \<Rightarrow> Some (setter (fbv = FLOM_BOOL_YES) c)))"

definition opt_lock_mode :: "string option \<Rightarrow> option_step" where
  "opt_lock_mode v c =
     (case v of
        None \<Rightarrow> Some c
      | Some t \<Rightarrow>
          (let flm = flom_lock_mode_retrieve t in
           if flm = FLOM_LOCK_MODE_INVALID then None else Some (flom_config_set_lock_mode flm c)))"

text \<open>A negative quantity is ignored with a message; the result for the network interface is not looked at.\<close>

definition opt_quantity :: "int \<Rightarrow> option_step" where
  "opt_quantity v c = Some (if 0 < v then flom_config_set_resource_quantity v c else c)"

definition opt_network_interface :: "cfg_env \<Rightarrow> string option \<Rightarrow> option_step" where
  "opt_network_interface e v c =
     Some (case v of None \<Rightarrow> c | Some t \<Rightarrow> snd (flom_config_set_network_interface e t c))"

definition resource_options :: "options \<Rightarrow> option_step list" where
  "resource_options o' =
     [opt_string (op_daemon_trace_file o') flom_config_set_daemon_trace_file,
      opt_string (op_command_trace_file o') flom_config_set_command_trace_file,
      (\<lambda>c. Some (if op_verbose o' then flom_config_set_verbose True c else c)),
      opt_checked (op_resource_name o') flom_config_set_resource_name,
      opt_quantity (op_resource_quantity o'),
      opt_int (- 1) (op_resource_timeout o') flom_config_set_resource_timeout,
      opt_lock_mode (op_lock_mode o'),
      opt_bool (op_resource_create o') flom_config_set_resource_create,
      (\<lambda>c. Some (flom_config_set_resource_idle_lifespan (op_resource_idle_lifespan o') c)),
      opt_checked (op_socket_name o') (\<lambda>t. flom_config_set_socket_name (Some t)),
      opt_int 5000 (op_daemon_lifespan o') flom_config_set_lifespan]"

definition network_options :: "cfg_env \<Rightarrow> options \<Rightarrow> option_step list" where
  "network_options e o' =
     [opt_string (op_unicast_address o') flom_config_set_unicast_address,
      opt_int 28015 (op_unicast_port o') flom_config_set_unicast_port,
      opt_string (op_multicast_address o') flom_config_set_multicast_address,
      opt_int 28015 (op_multicast_port o') flom_config_set_multicast_port,
      opt_checked (op_mount_point_vfs o') (flom_config_set_mount_point_vfs e),
      opt_network_interface e (op_network_interface o'),
      opt_int 2 (op_discovery_attempts o') flom_config_set_discovery_attempts,
      opt_int 500 (op_discovery_timeout o') flom_config_set_discovery_timeout,
      opt_int 1 (op_discovery_ttl o') flom_config_set_discovery_ttl,
      opt_int 60 (op_tcp_keepalive_time o') flom_config_set_tcp_keepalive_time,
      opt_int 10 (op_tcp_keepalive_intvl o') flom_config_set_tcp_keepalive_intvl,
      opt_int 6 (op_tcp_keepalive_probes o') flom_config_set_tcp_keepalive_probes]"

definition security_options :: "cfg_env \<Rightarrow> options \<Rightarrow> option_step list" where
  "security_options e o' =
     [(\<lambda>c. Some (if op_ignore_signals o' \<noteq> None then flom_config_set_ignored_signals (op_ignore_signals o') c else c)),
      opt_checked (op_tls_certificate o') (flom_config_set_tls_certificate e),
      opt_checked (op_tls_private_key o') (flom_config_set_tls_private_key e),
      opt_checked (op_tls_ca_certificate o') (flom_config_set_tls_ca_certificate e),
      opt_bool (op_tls_check_peer_id o') flom_config_set_tls_check_peer_id,
      opt_bool (op_append_trace_file o') flom_config_set_append_trace_file]"

fun run_options :: "option_step list \<Rightarrow> option_step" where
  "run_options [] c = Some c"
| "run_options (f # fs) c = (case f c of None \<Rightarrow> None | Some c' \<Rightarrow> run_options fs c')"

definition main_options :: "cfg_env \<Rightarrow> options \<Rightarrow> option_step" where
  "main_options e o' = run_options (resource_options o' @ network_options e o' @ security_options e o')"

text \<open>The configuration of the program: defaults, files, options, check.\<close>

definition main_config :: "bool \<Rightarrow> cfg_env \<Rightarrow> options \<Rightarrow> sheap \<Rightarrow> cfg_state option" where
  "main_config regcomp e o' h =
     (if \<not> regcomp then None
      else
        (case flom_config_init e (op_config_file o') (flom_config_reset h) of
           (rc, c) \<Rightarrow>
             if rc \<noteq> FLOM_RC_OK then None
             else
               (case main_options e o' c of
                  None \<Rightarrow> None
                | Some c1 \<Rightarrow>
                    (case flom_config_check e c1 of (rc, c2) \<Rightarrow> if rc \<noteq> FLOM_RC_OK then None else Some c2))))"

section \<open>The execution of the command\<close>

text \<open>The exit status in the result of \<^verbatim>\<open>wait\<close>: its second byte.\<close>

definition WEXITSTATUS :: "int \<Rightarrow> int" where
  "WEXITSTATUS status = (status div 256) mod 256"

datatype disposition = Sig_default | Sig_ignored | Sig_handler nat

record exec_input =
  ex_fork_fails :: bool
  ex_malloc :: bool
  ex_execvp :: "string list \<Rightarrow> int option"
  ex_sigemptyset_fails :: bool
  ex_sigaction_fails :: "nat \<Rightarrow> bool"
  ex_restore_fails :: "nat \<Rightarrow> bool"
  ex_wait_fails :: bool

text \<open>The signals that are ignored while the command runs: those for which \<^verbatim>\<open>sigaction\<close> succeeds.\<close>

definition ignored_during :: "exec_input \<Rightarrow> nat set \<Rightarrow> nat \<Rightarrow> bool" where
  "ignored_during inp sigset j \<longleftrightarrow> 1 \<le> j \<and> j < SIGNAL_STRING_ARRAY_SIZE \<and> j \<in> sigset \<and> \<not> ex_sigaction_fails inp j"

definition ignore_signals :: "exec_input \<Rightarrow> nat set \<Rightarrow> (nat \<Rightarrow> disposition) \<Rightarrow> nat \<Rightarrow> disposition" where
  "ignore_signals inp sigset sa j = (if ignored_during inp sigset j then Sig_ignored else sa j)"

text \<open>The child: the vector with the element behind the arguments of the command, and the status it ends with.\<close>

definition exec_argv :: "string list \<Rightarrow> string option \<Rightarrow> string list" where
  "exec_argv argv element = (case element of None \<Rightarrow> argv | Some el \<Rightarrow> argv @ [el])"

definition exec_child :: "exec_input \<Rightarrow> string list \<Rightarrow> int" where
  "exec_child inp argv =
     (if \<not> ex_malloc inp then 256 * FLOM_ES_UNABLE_TO_EXECUTE_COMMAND
      else (case ex_execvp inp argv of None \<Rightarrow> 256 * FLOM_ES_UNABLE_TO_EXECUTE_COMMAND | Some status \<Rightarrow> status))"

text \<open>
  \<^verbatim>\<open>flom_exec\<close> in the father: the reason code, the status, the vectors that were executed and the
  dispositions of the signals after the call.
\<close>

definition flom_exec ::
  "exec_input \<Rightarrow> string list option \<Rightarrow> string option \<Rightarrow> nat set \<Rightarrow> (nat \<Rightarrow> disposition) \<Rightarrow>
     rc \<times> int \<times> string list list \<times> (nat \<Rightarrow> disposition)" where
  "flom_exec inp command_argv element sigset sa =
     (case command_argv of
        None \<Rightarrow> (FLOM_RC_NULL_OBJECT, 0, [], sa)
      | Some argv \<Rightarrow>
          if ex_fork_fails inp then (FLOM_RC_FORK_ERROR, 0, [], sa)
          else
            (let argv1 = exec_argv argv element;
                 run = (if ex_malloc inp \<and> ex_execvp inp argv1 \<noteq> None then [argv1] else []) in
             if ex_sigemptyset_fails inp then (FLOM_RC_SIGEMPTYSET_ERROR, 0, run, sa)
             else if ex_wait_fails inp then (FLOM_RC_WAIT_ERROR, 0, run, ignore_signals inp sigset sa)
             else (FLOM_RC_OK, WEXITSTATUS (exec_child inp argv1), run,
                   \<lambda>j. if ignored_during inp sigset j \<and> \<not> ex_restore_fails inp j then sa j else ignore_signals inp sigset sa j)))"

section \<open>The program\<close>

record main_input =
  ma_parsed :: bool
  ma_regcomp :: bool
  ma_env :: cfg_env
  ma_debug :: rc
  ma_shutdown :: shutdown_input
  ma_conn :: bool
  ma_connect :: connect_input
  ma_discover :: discover_input
  ma_discover_again :: discover_input
  ma_lock :: lock_input
  ma_exec :: exec_input
  ma_sa :: "nat \<Rightarrow> disposition"
  ma_unlock :: lock_input
  ma_close_fails :: bool

text \<open>The exit status with the final state and the commands that were run, or no end.\<close>

datatype ending = Exit int client_st "string list list" | Waits | Killed

definition main_unlock :: "main_input \<Rightarrow> int \<Rightarrow> string list list \<Rightarrow> client_st \<Rightarrow> ending" where
  "main_unlock inp child_status run s =
     (let s1 = free_element s in
      case flom_client_unlock (ma_unlock inp) (child_status \<noteq> 0) s1 of
        (rc, s2) \<Rightarrow>
          if rc \<noteq> FLOM_RC_OK then Exit FLOM_ES_GENERIC_ERROR s2 run
          else
            (let s3 = snd (flom_client_disconnect (ma_close_fails inp) s2) in
             Exit child_status (s3\<lparr>ct_config := flom_config_free (ct_config s3)\<rparr>) run))"

definition main_locked :: "main_input \<Rightarrow> options \<Rightarrow> client_st \<Rightarrow> ending" where
  "main_locked inp o' s =
     (case flom_exec (ma_exec inp) (op_command_argv o') (str_of (heap (ct_config s)) (ct_element s))
             (cf_ignored_signals (ct_value s)) (ma_sa inp) of
        (rc, child_status, run, sa) \<Rightarrow>
          if rc \<noteq> FLOM_RC_OK then Exit FLOM_ES_UNABLE_TO_EXECUTE_COMMAND s run
          else main_unlock inp child_status run s)"

text \<open>The exit status when the lock is not granted, and whether the program disconnects before it.\<close>

definition main_refused :: "main_input \<Rightarrow> rc \<Rightarrow> client_st \<Rightarrow> ending" where
  "main_refused inp rc s =
     (let bye = snd (flom_client_disconnect (ma_close_fails inp) s) in
      if rc = FLOM_RC_LOCK_BUSY then Exit FLOM_ES_RESOURCE_BUSY bye []
      else if rc = FLOM_RC_LOCK_CANT_WAIT then Exit FLOM_ES_REQUESTER_CANT_WAIT bye []
      else if rc = FLOM_RC_LOCK_IMPOSSIBLE then Exit FLOM_ES_GENERIC_ERROR bye []
      else if rc = FLOM_RC_NETWORK_TIMEOUT then Exit FLOM_ES_RESOURCE_BUSY bye []
      else Exit FLOM_ES_GENERIC_ERROR s [])"

definition main_command :: "main_input \<Rightarrow> options \<Rightarrow> client_st \<Rightarrow> ending" where
  "main_command inp o' s =
     (if op_command_argv o' = None then Exit FLOM_ES_UNABLE_TO_EXECUTE_COMMAND s []
      else if \<not> ma_conn inp then Killed
      else
        (case flom_client_connect (ma_connect inp) (ma_discover inp) (ma_discover_again inp) True (zero_conn s) of
           Exited \<Rightarrow> Killed
         | Crashed \<Rightarrow> Killed
         | Ret (rc, s1) \<Rightarrow>
             if rc \<noteq> FLOM_RC_OK then Exit FLOM_ES_GENERIC_ERROR s1 []
             else
               (case flom_client_lock (ma_lock inp) (cf_resource_timeout (ct_value s1)) s1 of
                  None \<Rightarrow> Waits
                | Some (rc, s2) \<Rightarrow> if rc = FLOM_RC_OK then main_locked inp o' s2 else main_refused inp rc s2)))"

definition main_shutdown :: "main_input \<Rightarrow> options \<Rightarrow> client_st \<Rightarrow> ending" where
  "main_shutdown inp o' s =
     (case flom_client_shutdown (ma_shutdown inp) (op_immediate_exit o') s of
        Exited \<Rightarrow> Killed
      | Crashed \<Rightarrow> Killed
      | Ret (rc, s1) \<Rightarrow> Exit (if rc = FLOM_RC_OK then FLOM_ES_OK else FLOM_ES_GENERIC_ERROR) s1 [])"

definition flom_main :: "main_input \<Rightarrow> options \<Rightarrow> client_st \<Rightarrow> ending" where
  "flom_main inp o' s =
     (if \<not> ma_parsed inp then Exit FLOM_ES_GENERIC_ERROR s []
      else if op_print_version o' \<or> op_signal_list o' then Exit FLOM_ES_OK s []
      else if op_unique_id o' then Exit FLOM_ES_OK s []
      else
        (case main_config (ma_regcomp inp) (ma_env inp) o' (heap (ct_config s)) of
           None \<Rightarrow> Exit FLOM_ES_GENERIC_ERROR s []
         | Some c \<Rightarrow>
             (let s1 = s\<lparr>ct_config := c\<rparr> in
              if op_debug_feature o' \<noteq> None then Exit (if ma_debug inp = FLOM_RC_OK then 0 else 1) s1 []
              else if op_quiesce_exit o' \<or> op_immediate_exit o' then main_shutdown inp o' s1
              else main_command inp o' s1)))"

section \<open>What the options do\<close>

text \<open>
  The abstract specification: which options are accepted, and the value that the options turn a
  configuration into.  A number counts as given when it is not the built-in default.
\<close>

definition given_over :: "int \<Rightarrow> int \<Rightarrow> (int \<Rightarrow> int) \<Rightarrow> int \<Rightarrow> int" where
  "given_over dflt v f old = (if dflt \<noteq> v then f v else old)"

definition options_accepted :: "cfg_env \<Rightarrow> options \<Rightarrow> bool" where
  "options_accepted e o' \<longleftrightarrow>
     opt_ok name_ok (op_resource_name o') \<and>
     opt_ok (\<lambda>t. flom_lock_mode_retrieve t \<noteq> FLOM_LOCK_MODE_INVALID) (op_lock_mode o') \<and>
     bool_ok (op_resource_create o') \<and>
     opt_ok (\<lambda>t. length t < LOCAL_SOCKET_SIZE) (op_socket_name o') \<and>
     opt_ok (\<lambda>t. e_opendir e t \<and> e_closedir e t) (op_mount_point_vfs o') \<and>
     opt_ok (\<lambda>t. e_realpath e t \<noteq> None) (op_tls_certificate o') \<and>
     opt_ok (\<lambda>t. e_realpath e t \<noteq> None) (op_tls_private_key o') \<and>
     opt_ok (\<lambda>t. e_realpath e t \<noteq> None) (op_tls_ca_certificate o') \<and>
     bool_ok (op_tls_check_peer_id o') \<and> bool_ok (op_append_trace_file o')"

definition resource_options_value :: "options \<Rightarrow> config_value \<Rightarrow> config_value" where
  "resource_options_value o' c =
     (name_over (op_resource_name o') c)
       \<lparr>cf_daemon_trace_file := str_over (op_daemon_trace_file o') (cf_daemon_trace_file c),
        cf_command_trace_file := str_over (op_command_trace_file o') (cf_command_trace_file c),
        cf_verbose := op_verbose o' \<or> cf_verbose c,
        cf_resource_quantity := (if 0 < op_resource_quantity o' then op_resource_quantity o' else cf_resource_quantity c),
        cf_resource_timeout := given_over (- 1) (op_resource_timeout o') id (cf_resource_timeout c),
        cf_lock_mode := mode_over (op_lock_mode o') (cf_lock_mode c),
        cf_resource_create := bool_over (op_resource_create o') (cf_resource_create c),
        cf_resource_idle_lifespan := or_old (cf_resource_idle_lifespan c) (op_resource_idle_lifespan o'),
        cf_socket_name := str_over (op_socket_name o') (cf_socket_name c),
        cf_daemon_lifespan := given_over 5000 (op_daemon_lifespan o') id (cf_daemon_lifespan c)\<rparr>"

definition network_options_value :: "cfg_env \<Rightarrow> options \<Rightarrow> config_value \<Rightarrow> config_value" where
  "network_options_value e o' c =
     (interface_over e (op_network_interface o') c)
       \<lparr>cf_unicast_address := str_over (op_unicast_address o') (cf_unicast_address c),
        cf_unicast_port := given_over 28015 (op_unicast_port o') gint_abs (cf_unicast_port c),
        cf_multicast_address := str_over (op_multicast_address o') (cf_multicast_address c),
        cf_multicast_port := given_over 28015 (op_multicast_port o') gint_abs (cf_multicast_port c),
        cf_mount_point_vfs := str_over (op_mount_point_vfs o') (cf_mount_point_vfs c),
        cf_discovery_attempts := given_over 2 (op_discovery_attempts o') (or_old 1) (cf_discovery_attempts c),
        cf_discovery_timeout := given_over 500 (op_discovery_timeout o') gint_abs (cf_discovery_timeout c),
        cf_discovery_ttl := given_over 1 (op_discovery_ttl o') (or_old 1) (cf_discovery_ttl c),
        cf_tcp_keepalive_time := given_over 60 (op_tcp_keepalive_time o') gint_abs (cf_tcp_keepalive_time c),
        cf_tcp_keepalive_intvl := given_over 10 (op_tcp_keepalive_intvl o') gint_abs (cf_tcp_keepalive_intvl c),
        cf_tcp_keepalive_probes := given_over 6 (op_tcp_keepalive_probes o') gint_abs (cf_tcp_keepalive_probes c)\<rparr>"

definition security_options_value :: "cfg_env \<Rightarrow> options \<Rightarrow> config_value \<Rightarrow> config_value" where
  "security_options_value e o' c =
     c\<lparr>cf_ignored_signals := signals_over (op_ignore_signals o') (cf_ignored_signals c),
       cf_tls_certificate := path_over e (op_tls_certificate o') (cf_tls_certificate c),
       cf_tls_private_key := path_over e (op_tls_private_key o') (cf_tls_private_key c),
       cf_tls_ca_certificate := path_over e (op_tls_ca_certificate o') (cf_tls_ca_certificate c),
       cf_tls_check_peer_id := bool_over (op_tls_check_peer_id o') (cf_tls_check_peer_id c),
       cf_append_trace_file := bool_over (op_append_trace_file o') (cf_append_trace_file c)\<rparr>"

definition opt_spec :: "option_step \<Rightarrow> bool \<Rightarrow> (config_value \<Rightarrow> config_value) \<Rightarrow> bool" where
  "opt_spec f ok g \<longleftrightarrow> (\<forall>F c. owns F c \<longrightarrow>
     (case f c of None \<Rightarrow> \<not> ok | Some c' \<Rightarrow> ok \<and> owns F c' \<and> value_of c' = g (value_of c)))"

lemma run_options_spec:
  assumes "list_all2 (\<lambda>f sp. opt_spec f (fst sp) (snd sp)) fs sps" "owns F c"
  shows "case run_options fs c of None \<Rightarrow> \<not> list_all fst sps
    | Some c' \<Rightarrow> list_all fst sps \<and> owns F c' \<and> value_of c' = fold snd sps (value_of c)"
  using assms
proof (induction fs sps arbitrary: c rule: list_all2_induct)
  case (Cons f fs sp sps)
  have "case f c of None \<Rightarrow> \<not> fst sp | Some c' \<Rightarrow> fst sp \<and> owns F c' \<and> value_of c' = snd sp (value_of c)"
    using Cons.hyps(1) Cons.prems by (simp add: opt_spec_def)
  then show ?case
  proof (cases "f c")
    case (Some c')
    then have "fst sp" "owns F c'" "value_of c' = snd sp (value_of c)"
      using Cons.hyps(1) Cons.prems by (auto simp: opt_spec_def split: option.splits)
    then show ?thesis using Some Cons.IH [of c'] by (simp split: option.splits)
  qed simp
qed simp

lemma opt_string_spec:
  assumes "\<And>F t c. owns F c \<Longrightarrow> owns F (setter (Some t) c) \<and> value_of (setter (Some t) c) = upd (\<lambda>_. Some t) (value_of c)"
    "\<And>c. upd (\<lambda>old. old) c = c"
  shows "opt_spec (opt_string v setter) True (upd (str_over v))"
  using assms by (auto simp: opt_spec_def opt_string_def str_over_def [abs_def] split: option.split)

lemma opt_checked_spec:
  assumes "\<And>F t c. owns F c \<Longrightarrow> owns F (snd (setter t c)) \<and> (fst (setter t c) = FLOM_RC_OK \<longleftrightarrow> ok t) \<and>
      (ok t \<longrightarrow> value_of (snd (setter t c)) = g (Some t) (value_of c))"
    "\<And>c. g None c = c"
  shows "opt_spec (opt_checked v setter) (opt_ok ok v) (g v)"
  using assms by (auto simp: opt_spec_def opt_checked_def opt_ok_def case_prod_beta split: option.split)

lemma opt_int_spec:
  assumes "\<And>F i c. owns F c \<Longrightarrow> owns F (setter i c) \<and> value_of (setter i c) = upd (\<lambda>_. f i) (value_of c)"
    "\<And>c. upd (\<lambda>old. old) c = c"
  shows "opt_spec (opt_int dflt v setter) True (upd (given_over dflt v f))"
proof (cases "dflt = v")
  case True
  then have "given_over dflt v f = (\<lambda>old. old)" by (simp add: given_over_def fun_eq_iff)
  then show ?thesis using True assms(2) by (simp add: opt_spec_def opt_int_def)
next
  case False
  then have "given_over dflt v f = (\<lambda>_. f v)" by (simp add: given_over_def fun_eq_iff)
  then show ?thesis using False assms(1) by (simp add: opt_spec_def opt_int_def)
qed

lemma opt_bool_spec:
  assumes "\<And>F b c. owns F c \<Longrightarrow> owns F (setter b c) \<and> value_of (setter b c) = upd (\<lambda>_. b) (value_of c)"
    "\<And>c. upd (\<lambda>old. old) c = c"
  shows "opt_spec (opt_bool v setter) (bool_ok v) (upd (bool_over v))"
  using assms
  by (auto simp: opt_spec_def opt_bool_def bool_ok_def opt_ok_def bool_over_def [abs_def] split: option.split flom_bool_value.split)

lemma opt_lock_mode_spec:
  "opt_spec (opt_lock_mode v) (opt_ok (\<lambda>t. flom_lock_mode_retrieve t \<noteq> FLOM_LOCK_MODE_INVALID) v) (cf_lock_mode_update (mode_over v))"
  by (auto simp: opt_spec_def opt_lock_mode_def opt_ok_def Let_def plain_setters_own plain_setters_value mode_over_def [abs_def]
      split: option.split)

lemma opt_quantity_spec:
  "opt_spec (opt_quantity v) True (cf_resource_quantity_update (\<lambda>old. if 0 < v then v else old))"
  by (auto simp: opt_spec_def opt_quantity_def plain_setters_own plain_setters_value gint_abs_def)

lemma opt_interface_spec: "opt_spec (opt_network_interface e v) True (interface_over e v)"
proof -
  have "interface_over e None c = c" for c by (simp add: interface_over_def found_scope_def scope_over_def)
  then show ?thesis by (simp add: opt_spec_def opt_network_interface_def setters_own interface_value split: option.split)
qed

lemma opt_plain_specs:
  "opt_spec (\<lambda>c. Some (if b then flom_config_set_verbose True c else c)) True (cf_verbose_update (\<lambda>old. b \<or> old))"
  "opt_spec (\<lambda>c. Some (flom_config_set_resource_idle_lifespan n c)) True (cf_resource_idle_lifespan_update (\<lambda>old. or_old old n))"
  "opt_spec (\<lambda>c. Some (if l \<noteq> None then flom_config_set_ignored_signals l c else c)) True (cf_ignored_signals_update (signals_over l))"
  by (auto simp: opt_spec_def plain_setters_own plain_setters_value or_old_def signals_over_def [abs_def]
      flom_config_set_ignored_signals_def value_of_plain owns_set_plain ptrs_def split: option.split)

definition options_spec :: "cfg_env \<Rightarrow> options \<Rightarrow> (bool \<times> (config_value \<Rightarrow> config_value)) list" where
  "options_spec e o' =
     [(True, cf_daemon_trace_file_update (str_over (op_daemon_trace_file o'))),
      (True, cf_command_trace_file_update (str_over (op_command_trace_file o'))),
      (True, cf_verbose_update (\<lambda>old. op_verbose o' \<or> old)),
      (opt_ok name_ok (op_resource_name o'), name_over (op_resource_name o')),
      (True, cf_resource_quantity_update (\<lambda>old. if 0 < op_resource_quantity o' then op_resource_quantity o' else old)),
      (True, cf_resource_timeout_update (given_over (- 1) (op_resource_timeout o') id)),
      (opt_ok (\<lambda>t. flom_lock_mode_retrieve t \<noteq> FLOM_LOCK_MODE_INVALID) (op_lock_mode o'),
       cf_lock_mode_update (mode_over (op_lock_mode o'))),
      (bool_ok (op_resource_create o'), cf_resource_create_update (bool_over (op_resource_create o'))),
      (True, cf_resource_idle_lifespan_update (\<lambda>old. or_old old (op_resource_idle_lifespan o'))),
      (opt_ok (\<lambda>t. length t < LOCAL_SOCKET_SIZE) (op_socket_name o'), cf_socket_name_update (str_over (op_socket_name o'))),
      (True, cf_daemon_lifespan_update (given_over 5000 (op_daemon_lifespan o') id)),
      (True, cf_unicast_address_update (str_over (op_unicast_address o'))),
      (True, cf_unicast_port_update (given_over 28015 (op_unicast_port o') gint_abs)),
      (True, cf_multicast_address_update (str_over (op_multicast_address o'))),
      (True, cf_multicast_port_update (given_over 28015 (op_multicast_port o') gint_abs)),
      (opt_ok (\<lambda>t. e_opendir e t \<and> e_closedir e t) (op_mount_point_vfs o'),
       cf_mount_point_vfs_update (str_over (op_mount_point_vfs o'))),
      (True, interface_over e (op_network_interface o')),
      (True, cf_discovery_attempts_update (given_over 2 (op_discovery_attempts o') (or_old 1))),
      (True, cf_discovery_timeout_update (given_over 500 (op_discovery_timeout o') gint_abs)),
      (True, cf_discovery_ttl_update (given_over 1 (op_discovery_ttl o') (or_old 1))),
      (True, cf_tcp_keepalive_time_update (given_over 60 (op_tcp_keepalive_time o') gint_abs)),
      (True, cf_tcp_keepalive_intvl_update (given_over 10 (op_tcp_keepalive_intvl o') gint_abs)),
      (True, cf_tcp_keepalive_probes_update (given_over 6 (op_tcp_keepalive_probes o') gint_abs)),
      (True, cf_ignored_signals_update (signals_over (op_ignore_signals o'))),
      (opt_ok (\<lambda>t. e_realpath e t \<noteq> None) (op_tls_certificate o'),
       cf_tls_certificate_update (path_over e (op_tls_certificate o'))),
      (opt_ok (\<lambda>t. e_realpath e t \<noteq> None) (op_tls_private_key o'),
       cf_tls_private_key_update (path_over e (op_tls_private_key o'))),
      (opt_ok (\<lambda>t. e_realpath e t \<noteq> None) (op_tls_ca_certificate o'),
       cf_tls_ca_certificate_update (path_over e (op_tls_ca_certificate o'))),
      (bool_ok (op_tls_check_peer_id o'), cf_tls_check_peer_id_update (bool_over (op_tls_check_peer_id o'))),
      (bool_ok (op_append_trace_file o'), cf_append_trace_file_update (bool_over (op_append_trace_file o')))]"

lemma main_steps_spec:
  "list_all2 (\<lambda>f sp. opt_spec f (fst sp) (snd sp)) (resource_options o' @ network_options e o' @ security_options e o')
     (options_spec e o')"
  unfolding resource_options_def network_options_def security_options_def options_spec_def append.simps
  apply (simp only: list_all2_Cons list_all2_Nil fst_conv snd_conv simp_thms)
  apply (intro conjI)
  apply (rule opt_plain_specs opt_string_spec opt_checked_spec opt_bool_spec opt_int_spec opt_lock_mode_spec opt_quantity_spec
      opt_interface_spec; simp add: setters_own plain_setters_own setters_value checked_setters path_setters
      plain_setters_value or_old_def name_over_def transactional_over_def str_over_def [abs_def] path_over_def [abs_def])+
  done

lemma options_spec_accepted: "list_all fst (options_spec e o') \<longleftrightarrow> options_accepted e o'"
  unfolding options_spec_def options_accepted_def by (simp; blast)

lemma options_spec_value:
  "fold snd (options_spec e o') c = security_options_value e o' (network_options_value e o' (resource_options_value o' c))"
  unfolding options_spec_def security_options_value_def network_options_value_def resource_options_value_def
  by (cases c) (simp add: name_over_def interface_over_def Let_def id_def)


section \<open>What the program does\<close>

lemma options_own:
  assumes "owns F c" "main_options e o' c = Some c'"
  shows "owns F c'"
  using run_options_spec [OF main_steps_spec [of o' e] assms(1)] assms(2) by (simp add: main_options_def)

lemma main_config_owns:
  assumes "heap_fresh h" "main_config regcomp e o' h = Some c"
  shows "owns (h_map h) c"
proof -
  have "owns (h_map h) (flom_config_reset h)" using assms(1) reset_owns by (simp add: heap_fresh_def)
  from init_owns [OF this] have "owns (h_map h) (snd (flom_config_init e (op_config_file o') (flom_config_reset h)))" .
  then show ?thesis
    using assms(2) options_own check_owns
    by (auto simp: main_config_def case_prod_unfold split: if_splits option.splits)
qed

text \<open>How far the program came when it ran a command.\<close>

lemma main_run:
  assumes "flom_main inp o' s = Exit code s' run" "run \<noteq> []"
  obtains c argv s1 s2 where "main_config (ma_regcomp inp) (ma_env inp) o' (heap (ct_config s)) = Some c"
    "op_command_argv o' = Some argv"
    "flom_client_connect (ma_connect inp) (ma_discover inp) (ma_discover_again inp) True (zero_conn (s\<lparr>ct_config := c\<rparr>)) = Ret (FLOM_RC_OK, s1)"
    "flom_client_lock (ma_lock inp) (cf_resource_timeout (ct_value s1)) s1 = Some (FLOM_RC_OK, s2)"
    "main_locked inp o' s2 = Exit code s' run"
  using assms
  by (auto simp: flom_main_def main_command_def main_shutdown_def main_refused_def Let_def
      split: if_splits option.splits call.splits prod.splits)

lemma exec_run:
  assumes "flom_exec inp (Some argv) el sigset sa = (rc, status, run, sa')" "run \<noteq> []"
  shows "run = [exec_argv argv el] \<and> (\<exists>st. ex_execvp inp (exec_argv argv el) = Some st \<and> (rc = FLOM_RC_OK \<longrightarrow> status = WEXITSTATUS st))"
  using assms by (auto simp: flom_exec_def exec_child_def Let_def split: if_splits)

lemma lock_answered:
  assumes "flom_client_lock inp timeout s = Some (FLOM_RC_OK, s')"
  shows "\<exists>m. client_msg (lo_unb64 inp) timeout (lo_answer inp) s = Some m \<and> msg_verb m = FLOM_MSG_VERB_LOCK \<and>
    msg_step m = 2 * FLOM_MSG_STEP_INCR \<and>
    ans_rc (l16_answer (lock_16 m)) \<in> {FLOM_RC_OK, FLOM_RC_LOCK_ENQUEUED, FLOM_RC_LOCK_WAIT_RESOURCE}"
proof -
  obtain m' s1 where t: "client_send (lo_b64 inp) (lo_old inp) (lo_send inp) m' s = (FLOM_RC_OK, s1)"
    and r: "lock_reply inp timeout s1 = Some (FLOM_RC_OK, s')"
    using assms by (auto simp: flom_client_lock_def split: option.splits prod.splits if_splits)
  have "client_msg (lo_unb64 inp) timeout a s1 = client_msg (lo_unb64 inp) timeout a s" for a
    using client_send_frame(1) [OF t] by (simp add: lock_frame_def client_msg_def client_recv_def)
  then show ?thesis using lock_reply_ok [OF r] lock_answer_ok by fastforce
qed

text \<open>C10. No command without the lock.  A command that is executed is the one of the command line, with the locked
  element behind its arguments when there is one; the options were accepted, the program is
  connected, and its lock request was answered by a complete message that grants the lock or queues
  the request, in which case the wait for the lock ended with success.
\<close>

theorem command_runs_locked:
  assumes "flom_main inp o' s = Exit code s' run" "run \<noteq> []"
  shows "\<exists>c argv s1 s2 m. main_config (ma_regcomp inp) (ma_env inp) o' (heap (ct_config s)) = Some c \<and>
    flom_client_connect (ma_connect inp) (ma_discover inp) (ma_discover_again inp) True (zero_conn (s\<lparr>ct_config := c\<rparr>)) =
      Ret (FLOM_RC_OK, s1) \<and>
    flom_client_lock (ma_lock inp) (cf_resource_timeout (ct_value s1)) s1 = Some (FLOM_RC_OK, s2) \<and>
    client_msg (lo_unb64 (ma_lock inp)) (cf_resource_timeout (ct_value s1)) (lo_answer (ma_lock inp)) s1 = Some m \<and>
    msg_verb m = FLOM_MSG_VERB_LOCK \<and> msg_step m = 2 * FLOM_MSG_STEP_INCR \<and>
    ans_rc (l16_answer (lock_16 m)) \<in> {FLOM_RC_OK, FLOM_RC_LOCK_ENQUEUED, FLOM_RC_LOCK_WAIT_RESOURCE} \<and>
    op_command_argv o' = Some argv \<and> run = [exec_argv argv (str_of (heap (ct_config s2)) (ct_element s2))]"
proof -
  obtain c argv s1 s2 where m: "main_config (ma_regcomp inp) (ma_env inp) o' (heap (ct_config s)) = Some c"
    "op_command_argv o' = Some argv"
    "flom_client_connect (ma_connect inp) (ma_discover inp) (ma_discover_again inp) True (zero_conn (s\<lparr>ct_config := c\<rparr>)) = Ret (FLOM_RC_OK, s1)"
    "flom_client_lock (ma_lock inp) (cf_resource_timeout (ct_value s1)) s1 = Some (FLOM_RC_OK, s2)"
    and l: "main_locked inp o' s2 = Exit code s' run"
    using main_run [OF assms] by blast
  obtain rc status run' sa' where x: "flom_exec (ma_exec inp) (Some argv) (str_of (heap (ct_config s2)) (ct_element s2))
      (cf_ignored_signals (ct_value s2)) (ma_sa inp) = (rc, status, run', sa')" by (metis prod.exhaust)
  then have "run' = run" using l m(2) by (auto simp: main_locked_def main_unlock_def Let_def split: if_splits prod.splits)
  then show ?thesis using exec_run [OF x] assms(2) m lock_answered [OF m(4)] by blast
qed

text \<open>What the program sent and released when it ran a command.\<close>

lemma main_locked_effect:
  assumes "held G s" "cf_resource_name (ct_value s) = Some name" "op_command_argv o' = Some argv"
    and "main_locked inp o' s = Exit code s' run" "run \<noteq> []"
  shows "\<exists>el st. run = [exec_argv argv el] \<and> ex_execvp (ma_exec inp) (exec_argv argv el) = Some st \<and>
    (ct_sent s' = ct_sent s \<and> code \<in> {FLOM_ES_UNABLE_TO_EXECUTE_COMMAND, FLOM_ES_GENERIC_ERROR} \<or>
     ct_sent s' = ct_sent s @ [client_unlock_request name (code \<noteq> 0)] \<and> code = WEXITSTATUS st \<and>
     \<not> h_bad (heap (ct_config s')) \<and> h_map (heap (ct_config s')) = G)"
proof -
  let ?el = "str_of (heap (ct_config s)) (ct_element s)"
  obtain rc status run' sa' where x: "flom_exec (ma_exec inp) (Some argv) ?el (cf_ignored_signals (ct_value s)) (ma_sa inp) =
      (rc, status, run', sa')" by (metis prod.exhaust)
  then have r: "run' = run"
    using assms(3,4) by (auto simp: main_locked_def main_unlock_def Let_def split: if_splits prod.splits)
  obtain st where e: "run = [exec_argv argv ?el]" "ex_execvp (ma_exec inp) (exec_argv argv ?el) = Some st"
    "rc = FLOM_RC_OK \<longrightarrow> status = WEXITSTATUS st" using exec_run [OF x] r assms(5) by blast
  show ?thesis
  proof (cases "rc = FLOM_RC_OK")
    case False
    then show ?thesis using assms(3,4) x e r by (auto simp: main_locked_def)
  next
    case True
    then have u: "main_unlock inp status run s = Exit code s' run" using assms(3,4) x r by (simp add: main_locked_def)
    note f = held_free_element [OF assms(1)]
    obtain rc2 s2 where k: "flom_client_unlock (ma_unlock inp) (status \<noteq> 0) (free_element s) = (rc2, s2)" by fastforce
    note g = client_unlock_frame [OF k]
    have es: "ct_sent (free_element s) = ct_sent s" by (simp add: free_element_def)
    show ?thesis
    proof (cases "rc2 = FLOM_RC_OK")
      case False
      then show ?thesis using u k g(3) e es by (auto simp: main_unlock_def Let_def)
    next
      case ok: True
      obtain rc3 s3 where d: "flom_client_disconnect (ma_close_fails inp) s2 = (rc3, s3)" by fastforce
      have o: "owns G (ct_config s3)" using f(1) g(2) disconnect_frame(1) [OF d] by simp
      have "s' = s3\<lparr>ct_config := flom_config_free (ct_config s3)\<rparr>" "code = status"
        using u k d ok by (auto simp: main_unlock_def Let_def)
      then show ?thesis
        using g(3) ok es e True f(2) assms(2) disconnect_frame(4) [OF d] free_owned [OF o] by auto
    qed
  qed
qed

lemma main_run_locked:
  assumes "heap_fresh (heap (ct_config s))" "ct_element s = None"
    and "flom_main inp o' s = Exit code s' run" "run \<noteq> []"
  obtains c argv s2 peerid name v where "main_config (ma_regcomp inp) (ma_env inp) o' (heap (ct_config s)) = Some c"
    "cf_resource_name (value_of c) = Some name" "op_command_argv o' = Some argv"
    "held (h_map (heap (ct_config s))) s2" "cf_resource_name (ct_value s2) = Some name"
    "ct_sent s2 = ct_sent s @ [client_lock_request peerid name v]" "main_locked inp o' s2 = Exit code s' run"
proof -
  let ?G = "h_map (heap (ct_config s))"
  obtain c argv s1 s2 where m: "main_config (ma_regcomp inp) (ma_env inp) o' (heap (ct_config s)) = Some c"
    "op_command_argv o' = Some argv"
    "flom_client_connect (ma_connect inp) (ma_discover inp) (ma_discover_again inp) True (zero_conn (s\<lparr>ct_config := c\<rparr>)) = Ret (FLOM_RC_OK, s1)"
    "flom_client_lock (ma_lock inp) (cf_resource_timeout (ct_value s1)) s1 = Some (FLOM_RC_OK, s2)"
    and l: "main_locked inp o' s2 = Exit code s' run"
    using main_run [OF assms(3,4)] by blast
  have h: "held ?G (zero_conn (s\<lparr>ct_config := c\<rparr>))"
    using main_config_owns [OF assms(1) m(1)] assms(2) by (simp add: held_def zero_conn_def)
  have f: "connect_frame (zero_conn (s\<lparr>ct_config := c\<rparr>)) s1" using client_connect_frame [OF m(3)] by simp
  note h1 = held_connect [OF f h]
  obtain peerid name where n: "cf_resource_name (ct_value s1) = Some name"
    "ct_sent s2 = ct_sent s1 @ [client_lock_request peerid name (ct_value s1)]"
    using client_lock_frame(2) [OF m(4)] by blast
  have h2: "held ?G s2" "ct_value s2 = ct_value s1" using client_lock_frame(1) [OF m(4)] h1(1) by (auto simp: lock_frame_def)
  have "ct_sent s1 = ct_sent s" "cf_resource_name (value_of c) = Some name"
    using f h1(2) n(1) by (simp_all add: connect_frame_def zero_conn_def ct_value_def)
  then show thesis using that [OF m(1) _ m(2) h2(1) _ _ l] n h2(2) by simp
qed


text \<open>A command that is killed counts as a success.  The status of wait of a process that a signal ended is a number
  below 256, whose exit status is 0: the program then ends with 0, and the unlock it sends
  commits what the lock protected.
\<close>

theorem killed_command_succeeds:
  assumes "heap_fresh (heap (ct_config s))" "ct_element s = None"
    and "flom_main inp o' s = Exit code s' [argv]" "ex_execvp (ma_exec inp) argv = Some st" "0 < st" "st < 256"
    and "length (ct_sent s') = length (ct_sent s) + 2"
  shows "code = FLOM_ES_OK \<and> (\<exists>peerid name v. ct_sent s' = ct_sent s @ [client_lock_request peerid name v, client_unlock_request name False])"
proof -
  have "WEXITSTATUS st = 0" using assms(5,6) by (simp add: WEXITSTATUS_def)
  obtain c argv0 s2 peerid name v where l: "op_command_argv o' = Some argv0" "held (h_map (heap (ct_config s))) s2"
    "cf_resource_name (ct_value s2) = Some name" "main_locked inp o' s2 = Exit code s' [argv]"
    and r: "ct_sent s2 = ct_sent s @ [client_lock_request peerid name v]"
    using main_run_locked [OF assms(1-3) list.distinct(2)] by metis
  obtain el st' where e: "[argv] = [exec_argv argv0 el]" "ex_execvp (ma_exec inp) (exec_argv argv0 el) = Some st'"
    and c: "ct_sent s' = ct_sent s2 \<or> ct_sent s' = ct_sent s2 @ [client_unlock_request name (code \<noteq> 0)] \<and> code = WEXITSTATUS st'"
    using main_locked_effect [OF l(2,3,1,4)] by (metis list.distinct(1))
  have "st' = st" using e assms(4) by simp
  moreover have "ct_sent s' \<noteq> ct_sent s2" using assms(7) r by auto
  ultimately have "ct_sent s' = ct_sent s2 @ [client_unlock_request name False]" "code = 0"
    using c \<open>WEXITSTATUS st = 0\<close> by simp_all
  then show ?thesis unfolding r by auto
qed

text \<open>A run with the command \<open>c\<close>, which ends with the status \<open>st\<close>.\<close>

definition sample_start :: client_st where
  "sample_start = sample_client\<lparr>ct_config := \<lparr>heap = sample_heap, cfg = cfg (flom_config_reset sample_heap)\<rparr>\<rparr>"

definition sample_options :: options where
  "sample_options = no_options\<lparr>op_resource_name := Some ''r'', op_command_argv := Some [''c'']\<rparr>"

definition sample_main :: "int \<Rightarrow> main_input" where
  "sample_main st =
     \<lparr> ma_parsed = True, ma_regcomp = True, ma_env = Config.sample_env, ma_debug = FLOM_RC_OK,
       ma_shutdown = \<lparr> sd_conn = True, sd_connect = sample_connect 3, sd_discover = sample_discover, sd_uid = Some ''u'',
         sd_b64 = (\<lambda>t. t), sd_old = (\<lambda>_. CHR ''x''), sd_send = \<lparr>sc_getsockopt_fails = False, sc_peer_closed = False, sc_written = 0\<rparr>,
         sd_close_fails = False \<rparr>,
       ma_conn = True, ma_connect = sample_connect 3, ma_discover = sample_discover, ma_discover_again = sample_discover,
       ma_lock = hi_lock (sample_call 3 Connected),
       ma_exec = \<lparr> ex_fork_fails = False, ex_malloc = True, ex_execvp = (\<lambda>_. Some st), ex_sigemptyset_fails = False,
         ex_sigaction_fails = (\<lambda>_. False), ex_restore_fails = (\<lambda>_. False), ex_wait_fails = False \<rparr>,
       ma_sa = (\<lambda>_. Sig_default), ma_unlock = hi_unlock (sample_call 3 Connected), ma_close_fails = False \<rparr>"

definition sample_run :: "int \<Rightarrow> int \<Rightarrow> bool" where
  "sample_run st code =
     (case main_config True Config.sample_env sample_options sample_heap of
        None \<Rightarrow> False
      | Some c \<Rightarrow>
          (case flom_client_connect (sample_connect 3) sample_discover sample_discover True (zero_conn (sample_start\<lparr>ct_config := c\<rparr>)) of
             Ret (rc1, s1) \<Rightarrow> rc1 = FLOM_RC_OK \<and>
               (case flom_client_lock (ma_lock (sample_main st)) (cf_resource_timeout (ct_value s1)) s1 of
                  None \<Rightarrow> False
                | Some (rc2, s2) \<Rightarrow> rc2 = FLOM_RC_OK \<and>
                    (case flom_exec (ma_exec (sample_main st)) (Some [''c'']) (str_of (heap (ct_config s2)) (ct_element s2))
                            (cf_ignored_signals (ct_value s2)) (ma_sa (sample_main st)) of
                       (rc3, status, run, sa) \<Rightarrow> rc3 = FLOM_RC_OK \<and> status = code \<and> run = [[''c'', ''e'']]) \<and>
                    (case flom_client_unlock (ma_unlock (sample_main st)) (code \<noteq> 0) (free_element s2) of
                       (rc4, s4) \<Rightarrow> rc4 = FLOM_RC_OK \<and> length (ct_sent s4) = 2))
           | Exited \<Rightarrow> False
           | Crashed \<Rightarrow> False))"

lemma sample_runs: "sample_run 512 2" "sample_run 9 0"
  by code_simp+

lemma sample_run_main:
  assumes "sample_run st code"
  shows "\<exists>s'. flom_main (sample_main st) sample_options sample_start = Exit code s' [[''c'', ''e'']] \<and> length (ct_sent s') = 2"
proof -
  have h: "heap (ct_config sample_start) = sample_heap" "op_command_argv sample_options = Some [''c'']"
    by (simp_all add: sample_start_def sample_options_def)
  have o: "\<not> op_print_version sample_options" "\<not> op_signal_list sample_options" "\<not> op_unique_id sample_options"
    "op_debug_feature sample_options = None" "\<not> op_quiesce_exit sample_options" "\<not> op_immediate_exit sample_options"
    by (simp_all add: sample_options_def no_options_def)
  have i: "ma_parsed (sample_main st)" "ma_regcomp (sample_main st)" "ma_env (sample_main st) = Config.sample_env" "ma_conn (sample_main st)"
    "ma_connect (sample_main st) = sample_connect 3" "ma_discover (sample_main st) = sample_discover"
    "ma_discover_again (sample_main st) = sample_discover" by (simp_all add: sample_main_def)
  have d: "ct_sent (snd (flom_client_disconnect f c)) = ct_sent c" for f c
    using disconnect_frame(4) [of f c] by (metis prod.collapse)
  show ?thesis
    using assms
    by (auto simp: sample_run_def flom_main_def main_command_def main_locked_def main_unlock_def h o i d Let_def
        split: option.splits call.splits prod.splits if_splits)
qed

lemma sample_start_fresh: "heap_fresh (heap (ct_config sample_start))" "ct_element sample_start = None" "ct_sent sample_start = []"
  by (simp_all add: sample_start_def heap_fresh_def sample_heap_def sample_client_def)


theorem command_runs_locked_witness:
  "\<exists>s1 s2. flom_client_lock (ma_lock (sample_main 512)) (cf_resource_timeout (ct_value s1)) s1 = Some (FLOM_RC_OK, s2) \<and>
     str_of (heap (ct_config s2)) (ct_element s2) = Some ''e''"
proof -
  obtain s' where "flom_main (sample_main 512) sample_options sample_start = Exit 2 s' [[''c'', ''e'']]"
    using sample_run_main [OF sample_runs(1)] by blast
  from command_runs_locked [OF this] show ?thesis
    by (auto simp: sample_options_def exec_argv_def split: option.splits)
qed


theorem killed_command_succeeds_witness:
  "\<exists>s' peerid name v. flom_main (sample_main 9) sample_options sample_start = Exit 0 s' [[''c'', ''e'']] \<and>
     ct_sent s' = [client_lock_request peerid name v, client_unlock_request name False]"
proof -
  obtain s' where m: "flom_main (sample_main 9) sample_options sample_start = Exit 0 s' [[''c'', ''e'']]" "length (ct_sent s') = 2"
    using sample_run_main [OF sample_runs(2)] by blast
  have "ex_execvp (ma_exec (sample_main 9)) [''c'', ''e''] = Some 9" by (simp add: sample_main_def)
  from killed_command_succeeds [OF sample_start_fresh(1,2) m(1) this] m sample_start_fresh(3) show ?thesis by auto
qed

text \<open>
  An option with the value of the built-in default does not override a configuration file: with a lifespan of 7 from a file,
  \<^verbatim>\<open>--daemon-lifespan=5000\<close> leaves 7.
\<close>

theorem default_option_ignored:
  "owns F c \<Longrightarrow> op_daemon_lifespan o' = 5000 \<Longrightarrow> main_options e o' c = Some c' \<Longrightarrow>
     cf_daemon_lifespan (value_of c') = cf_daemon_lifespan (value_of c)"
  using run_options_spec [OF main_steps_spec [of o' e], of F c]
  by (simp add: main_options_def options_spec_value security_options_value_def network_options_value_def
      resource_options_value_def interface_over_def name_over_def given_over_def Let_def del: value_lifespan split: option.splits)

theorem default_option_ignored_witness:
  "\<exists>c'. main_options Config.sample_env no_options (flom_config_set_lifespan 7 (flom_config_reset sample_heap)) = Some c' \<and>
     cf_daemon_lifespan (value_of c') = 7"
proof -
  let ?c = "flom_config_set_lifespan 7 (flom_config_reset sample_heap)"
  have o: "owns (h_map sample_heap) ?c" by (intro plain_setters_own reset_owns) (simp_all add: sample_heap_def)
  have "(case main_options Config.sample_env no_options ?c of None \<Rightarrow> False | Some c' \<Rightarrow> True)" by code_simp
  then obtain c' where c': "main_options Config.sample_env no_options ?c = Some c'" by (auto split: option.splits)
  have "op_daemon_lifespan no_options = 5000" "cf_daemon_lifespan (value_of ?c) = 7" by code_simp+
  then show ?thesis using default_option_ignored [OF o _ c'] c' by simp
qed

end
