(* ===== verification/Daemon_Start.thy ===== *)
theory Daemon_Start
  imports Client
begin

text \<open>
  The start of a daemon, the first half of \<^verbatim>\<open>src/src/flom_daemon.c\<close>: the processes of \<^verbatim>\<open>flom_daemon\<close>, the
  listening sockets, and the end after the accept loop; with \<^verbatim>\<open>flom_tcp_listen\<close> of \<^verbatim>\<open>src/src/flom_tcp.c\<close>.

  What the system calls return is in the records \<open>listen_input\<close> and \<open>start_input\<close>.  The state has the parts of a daemon
  that exist before its accept loop, and the two names in the file system that the daemons of one local
  socket share: the semaphore file and the socket.
\<close>

abbreviation (input) FLOM_RC_GETSOCKNAME_ERROR :: int where "FLOM_RC_GETSOCKNAME_ERROR \<equiv> - 113"
abbreviation (input) FLOM_RC_INET_NTOP_ERROR :: int where "FLOM_RC_INET_NTOP_ERROR \<equiv> - 116"
abbreviation (input) FLOM_RC_LISTEN_ERROR :: int where "FLOM_RC_LISTEN_ERROR \<equiv> - 117"
abbreviation (input) FLOM_RC_OPEN_ERROR :: int where "FLOM_RC_OPEN_ERROR \<equiv> - 120"
abbreviation (input) FLOM_RC_UNLINK_ERROR :: int where "FLOM_RC_UNLINK_ERROR \<equiv> - 141"
abbreviation (input) FLOM_INADDR_ANY_STRING :: string where "FLOM_INADDR_ANY_STRING \<equiv> ''0.0.0.0''"
abbreviation (input) FLOM_INADDR6_ANY_STRING :: string where "FLOM_INADDR6_ANY_STRING \<equiv> ''::''"

section \<open>State and inputs\<close>

text \<open>
  \<open>ln_lock\<close>: some living process holds the lock on the semaphore file; \<open>ln_path\<close>: the name of the local socket
  exists.
\<close>

record listen_st =
  ln_config :: cfg_state
  ln_conns :: flom_conns
  ln_types :: "conn \<Rightarrow> socket_type"
  ln_open :: "int list"
  ln_lock :: bool
  ln_path :: bool

record multicast_address = address +
  mu_join :: bool

record listen_input =
  lt_malloc :: bool
  lt_lock_fd :: "int option"
  lt_flock_fails :: bool
  lt_socket :: "int option"
  lt_sockopt_fails :: bool
  lt_unlink_fails :: bool
  lt_bind_fails :: bool
  lt_listen_fails :: bool
  lt_getsockname :: "(int \<times> int) option"
  lt_addresses :: "address list option"
  lt_multicast :: "multicast_address list option"
  lt_conn_new :: bool
  lt_conn_init :: rc
  lt_conn_new_udp :: bool
  lt_conn_init_udp :: rc

section \<open>Listening sockets\<close>

text \<open>
  The new connection of a listener.  \<^verbatim>\<open>flom_conn_new\<close> initializes the object also when there is none; the
  identifier is taken also when the initialization fails.
\<close>

definition listen_add :: "bool \<Rightarrow> rc \<Rightarrow> int \<Rightarrow> socket_type \<Rightarrow> listen_st \<Rightarrow> (rc \<times> listen_st) call" where
  "listen_add new init fd type s =
     (if \<not> new then Crashed
      else
        (case flom_conns_get_new_uid (ln_conns s) of
           (uid, cs) \<Rightarrow>
             if init \<noteq> FLOM_RC_OK then Ret (init, s\<lparr>ln_conns := cs\<rparr>)
             else Ret (FLOM_RC_OK, s\<lparr>ln_conns := flom_conns_add_conn cs (flom_conn_init uid fd True),
                                    ln_types := (ln_types s)(uid := type)\<rparr>)))"

definition listen_open_fd :: "int \<Rightarrow> listen_st \<Rightarrow> listen_st" where
  "listen_open_fd fd s = s\<lparr>ln_open := fd # ln_open s\<rparr>"

definition listen_close_fd :: "int \<Rightarrow> listen_st \<Rightarrow> listen_st" where
  "listen_close_fd fd s = s\<lparr>ln_open := remove1 fd (ln_open s)\<rparr>"

text \<open>
  \<^verbatim>\<open>flom_listen_local\<close>.  The file of the lock is kept open; a socket that cannot be used is left open too.
\<close>

definition flom_listen_local :: "listen_input \<Rightarrow> listen_st \<Rightarrow> (rc \<times> listen_st) call" where
  "flom_listen_local inp s =
     (if cf_socket_name (value_of (ln_config s)) = None then Crashed
      else if \<not> lt_malloc inp then Ret (FLOM_RC_G_TRY_MALLOC_ERROR, s)
      else
        (case lt_lock_fd inp of
           None \<Rightarrow> Ret (FLOM_RC_OPEN_ERROR, s)
         | Some lock_fd \<Rightarrow>
             (let s1 = listen_open_fd lock_fd s in
              if ln_lock s1 \<or> lt_flock_fails inp then Ret (FLOM_RC_FLOCK_ERROR, s1)
              else
                (let s2 = s1\<lparr>ln_lock := True\<rparr> in
                 case lt_socket inp of
                   None \<Rightarrow> Ret (FLOM_RC_SOCKET_ERROR, s2)
                 | Some fd \<Rightarrow>
                     (let s3 = listen_open_fd fd s2 in
                      if lt_unlink_fails inp then Ret (FLOM_RC_UNLINK_ERROR, s3)
                      else
                        (let s4 = s3\<lparr>ln_path := False\<rparr> in
                         if lt_bind_fails inp then Ret (FLOM_RC_BIND_ERROR, s4)
                         else
                           (let s5 = s4\<lparr>ln_path := True\<rparr> in
                            if lt_listen_fails inp then Ret (FLOM_RC_LISTEN_ERROR, s5)
                            else listen_add (lt_conn_new inp) (lt_conn_init inp) fd SOCK_STREAM s5)))))))"

text \<open>The first address to which a socket can be bound.\<close>

fun tcp_bind_first :: "address list \<Rightarrow> int option" where
  "tcp_bind_first [] = None"
| "tcp_bind_first (a # as) =
     (case ad_socket a of
        None \<Rightarrow> tcp_bind_first as
      | Some fd \<Rightarrow> if ad_usable a then Some fd else tcp_bind_first as)"

definition flom_tcp_listen :: "listen_input \<Rightarrow> rc + int" where
  "flom_tcp_listen inp =
     (case lt_addresses inp of
        None \<Rightarrow> Inl FLOM_RC_GETADDRINFO_ERROR
      | Some as \<Rightarrow>
          (case tcp_bind_first as of
             None \<Rightarrow> Inl FLOM_RC_BIND_ERROR
           | Some fd \<Rightarrow> if lt_listen_fails inp then Inl FLOM_RC_LISTEN_ERROR else Inr fd))"

definition flom_listen_tcp_configured :: "listen_input \<Rightarrow> listen_st \<Rightarrow> (rc \<times> listen_st) call" where
  "flom_listen_tcp_configured inp s =
     (case flom_tcp_listen inp of
        Inl rc \<Rightarrow> Ret (rc, s)
      | Inr fd \<Rightarrow> listen_add (lt_conn_new inp) (lt_conn_init inp) fd SOCK_STREAM (listen_open_fd fd s))"

text \<open>The port that the system chose is put into the configuration, with the address that stands for all.\<close>

definition set_listen_address :: "int \<Rightarrow> int \<Rightarrow> listen_st \<Rightarrow> listen_st" where
  "set_listen_address family port s =
     s\<lparr>ln_config := flom_config_set_unicast_port port
          (flom_config_set_unicast_address
             (Some (if family = AF_INET then FLOM_INADDR_ANY_STRING else FLOM_INADDR6_ANY_STRING)) (ln_config s))\<rparr>"

definition flom_listen_tcp_automatic :: "listen_input \<Rightarrow> listen_st \<Rightarrow> (rc \<times> listen_st) call" where
  "flom_listen_tcp_automatic inp s =
     (case lt_socket inp of
        None \<Rightarrow> Ret (FLOM_RC_SOCKET_ERROR, s)
      | Some fd \<Rightarrow>
          (if lt_sockopt_fails inp then Ret (FLOM_RC_SETSOCKOPT_ERROR, s)
           else if cs_domain (ln_conns s) \<notin> {AF_INET, AF_INET6} then Ret (FLOM_RC_INVALID_AI_FAMILY_ERROR, s)
           else if lt_bind_fails inp then Ret (FLOM_RC_BIND_ERROR, s)
           else if lt_listen_fails inp then Ret (FLOM_RC_LISTEN_ERROR, s)
           else
             (case lt_getsockname inp of
                None \<Rightarrow> Ret (FLOM_RC_GETSOCKNAME_ERROR, s)
              | Some (family, port) \<Rightarrow>
                  if family \<notin> {AF_INET, AF_INET6} then Ret (FLOM_RC_INVALID_AI_FAMILY_ERROR, s)
                  else
                    (case listen_add (lt_conn_new inp) (lt_conn_init inp) fd SOCK_STREAM
                            (listen_open_fd fd (set_listen_address family port s)) of
                       Ret (rc, s1) \<Rightarrow> Ret (rc, if rc \<noteq> FLOM_RC_OK then listen_close_fd fd s1 else s1)
                     | x \<Rightarrow> x))))"

definition flom_listen_tcp :: "listen_input \<Rightarrow> listen_st \<Rightarrow> (rc \<times> listen_st) call" where
  "flom_listen_tcp inp s =
     (if cf_unicast_address (value_of (ln_config s)) \<noteq> None then flom_listen_tcp_configured inp s
      else flom_listen_tcp_automatic inp s)"

text \<open>The first address whose group can be joined.\<close>

fun udp_join_first :: "multicast_address list \<Rightarrow> rc + int" where
  "udp_join_first [] = Inl FLOM_RC_CONNECT_ERROR"
| "udp_join_first (a # as) =
     (case ad_socket a of
        None \<Rightarrow> udp_join_first as
      | Some fd \<Rightarrow>
          if \<not> ad_usable a then udp_join_first as
          else if ad_family a \<notin> {AF_INET, AF_INET6} then Inl FLOM_RC_INVALID_AI_FAMILY_ERROR
          else if mu_join a then Inr fd
          else udp_join_first as)"

definition flom_listen_udp :: "listen_input \<Rightarrow> listen_st \<Rightarrow> (rc \<times> listen_st) call" where
  "flom_listen_udp inp s =
     (if cf_multicast_address (value_of (ln_config s)) = None then Ret (FLOM_RC_OK, s)
      else if cs_domain (ln_conns s) \<notin> {AF_INET, AF_INET6} then Ret (FLOM_RC_INVALID_AI_FAMILY_ERROR, s)
      else
        (case lt_multicast inp of
           None \<Rightarrow> Ret (FLOM_RC_GETADDRINFO_ERROR, s)
         | Some as \<Rightarrow>
             (case udp_join_first as of
                Inl rc \<Rightarrow> Ret (rc, s)
              | Inr fd \<Rightarrow>
                  (case listen_add (lt_conn_new_udp inp) (lt_conn_init_udp inp) fd SOCK_DGRAM (listen_open_fd fd s) of
                     Ret (rc, s1) \<Rightarrow> Ret (rc, if rc \<noteq> FLOM_RC_OK then listen_close_fd fd s1 else s1)
                   | x \<Rightarrow> x))))"

definition flom_listen :: "listen_input \<Rightarrow> listen_st \<Rightarrow> (rc \<times> listen_st) call" where
  "flom_listen inp s =
     (let domain = cs_domain (ln_conns s) in
      if domain = AF_UNIX then flom_listen_local inp s
      else if domain \<in> {AF_INET, AF_INET6} then
        (case flom_listen_tcp inp s of
           Ret (rc, s1) \<Rightarrow> if rc \<noteq> FLOM_RC_OK then Ret (rc, s1) else flom_listen_udp inp s1
         | x \<Rightarrow> x)
      else Ret (FLOM_RC_INVALID_OPTION, s))"

definition flom_listen_clean :: "(nat \<Rightarrow> bool) \<Rightarrow> bool \<Rightarrow> listen_st \<Rightarrow> listen_st" where
  "flom_listen_clean close_fails unlink_fails s =
     s\<lparr>ln_conns := flom_conns_free close_fails (ln_conns s),
       ln_path := (if cs_domain (ln_conns s) = AF_UNIX \<and> \<not> unlink_fails then False else ln_path s)\<rparr>"

section \<open>Processes\<close>

text \<open>
  The calls of \<^verbatim>\<open>flom_daemon\<close>: \<open>st_fork\<close> and the ones after it are made in the father, then in the child and
  the grandchild.
\<close>

record start_input =
  st_inet_ntop_fails :: bool
  st_pipe :: "(int \<times> int) option"
  st_fork_fails :: bool
  st_wait_fails :: bool
  st_other_child :: bool
  st_read_fails :: bool
  st_fork2_fails :: bool
  st_setsid_fails :: bool
  st_sighup_fails :: bool
  st_sigpipe_fails :: bool
  st_fork3_fails :: bool
  st_chdir_fails :: bool
  st_write_fails :: bool
  st_listen :: listen_input

text \<open>
  The child up to the accept loop: the reason code that it wrote into the pipe, if any, whether it serves, and its state.  It
  never returns to the caller.
\<close>

definition daemon_child :: "start_input \<Rightarrow> int \<times> int \<Rightarrow> int \<Rightarrow> listen_st \<Rightarrow> rc option \<times> bool \<times> listen_st" where
  "daemon_child inp p domain s =
     (if st_fork2_fails inp \<or> st_setsid_fails inp \<or> st_sighup_fails inp \<or> st_sigpipe_fails inp \<or> st_fork3_fails inp \<or>
         st_chdir_fails inp then (None, False, s)
      else
        (let s1 = s\<lparr>ln_open := filter (\<lambda>fd. \<not> (0 \<le> fd \<and> fd < 64) \<or> fd = fst p \<or> fd = snd p) (ln_open s),
                    ln_conns := flom_conns_init domain\<rparr> in
         case flom_listen (st_listen inp) s1 of
           Ret (rc, s2) \<Rightarrow>
             (if st_write_fails inp then (None, False, s2)
              else (Some rc, rc = FLOM_RC_OK, listen_close_fd (fst p) (listen_close_fd (snd p) s2)))
         | x \<Rightarrow> (None, False, s1)))"

text \<open>
  The father reads the reason code from a pipe whose writing end it holds itself: without one it waits
  for ever.
\<close>

datatype father = Returned rc | Blocked

definition daemon_father :: "start_input \<Rightarrow> rc option \<Rightarrow> father" where
  "daemon_father inp written =
     (if st_wait_fails inp then Returned FLOM_RC_WAIT_ERROR
      else if st_other_child inp then Returned FLOM_RC_INTERNAL_ERROR
      else if st_read_fails inp then Returned FLOM_RC_READ_ERROR
      else (case written of None \<Rightarrow> Blocked | Some rc \<Rightarrow> Returned rc))"

definition flom_daemon :: "start_input \<Rightarrow> int \<Rightarrow> listen_st \<Rightarrow> father \<times> bool \<times> listen_st" where
  "flom_daemon inp domain s =
     (if st_inet_ntop_fails inp then (Returned FLOM_RC_INET_NTOP_ERROR, False, s)
      else
        (case st_pipe inp of
           None \<Rightarrow> (Returned FLOM_RC_PIPE_ERROR, False, s)
         | Some p \<Rightarrow>
             if st_fork_fails inp then (Returned FLOM_RC_FORK_ERROR, False, s)
             else
               (case daemon_child inp p domain (s\<lparr>ln_open := fst p # snd p # ln_open s\<rparr>) of
                  (written, served, s1) \<Rightarrow> (daemon_father inp written, served, s1))))"

text \<open>The state in which the accept loop starts; the daemon of a client works on the global configuration.\<close>

definition daemon_of :: "world \<Rightarrow> listen_st \<Rightarrow> daemon_st" where
  "daemon_of w s =
     \<lparr> dm_conns = ln_conns s, dm_types = ln_types s, dm_tls = (\<lambda>_. False), dm_lockers = [], dm_pipes = (\<lambda>_. []),
       dm_world = w, dm_shut = [], dm_datagrams = [], dm_vfs = [], dm_config = None, dm_global = value_of (ln_config s) \<rparr>"

section \<open>What a start leaves\<close>

text \<open>A descriptor of the system is not negative.\<close>

definition fd_ok :: "int option \<Rightarrow> bool" where
  "fd_ok r \<longleftrightarrow> (case r of None \<Rightarrow> True | Some fd \<Rightarrow> 0 \<le> fd)"

definition sockets_ok :: "listen_input \<Rightarrow> bool" where
  "sockets_ok inp \<longleftrightarrow> fd_ok (lt_socket inp) \<and>
     (case lt_addresses inp of None \<Rightarrow> True | Some as \<Rightarrow> list_all (\<lambda>a. fd_ok (ad_socket a)) as) \<and>
     (case lt_multicast inp of None \<Rightarrow> True | Some as \<Rightarrow> list_all (\<lambda>a. fd_ok (ad_socket a)) as)"

lemma bind_first_ok: "list_all (\<lambda>a. fd_ok (ad_socket a)) as \<Longrightarrow> tcp_bind_first as = Some fd \<Longrightarrow> 0 \<le> fd"
  by (induction "as" rule: tcp_bind_first.induct) (auto simp: fd_ok_def split: option.splits if_splits)

lemma join_first_ok: "list_all (\<lambda>a. fd_ok (ad_socket a)) as \<Longrightarrow> udp_join_first as = Inr fd \<Longrightarrow> 0 \<le> fd"
  by (induction "as" rule: udp_join_first.induct) (auto simp: fd_ok_def split: option.splits if_splits)

lemma join_first_error: "udp_join_first as \<noteq> Inl FLOM_RC_OK"
  by (induction "as" rule: udp_join_first.induct) (auto split: option.splits)

text \<open>A listener more, behind the ones before.\<close>

definition one_more :: "listen_st \<Rightarrow> socket_type \<Rightarrow> listen_st \<Rightarrow> bool" where
  "one_more s type s' \<longleftrightarrow> (\<exists>fd\<ge>0.
     cs_array (ln_conns s') = cs_array (ln_conns s) @ [flom_conn_init (Suc (cs_last_uid (ln_conns s))) fd True] \<and>
     cs_last_uid (ln_conns s') = Suc (cs_last_uid (ln_conns s)) \<and> cs_domain (ln_conns s') = cs_domain (ln_conns s) \<and>
     ln_types s' = (ln_types s)(Suc (cs_last_uid (ln_conns s)) := type))"

lemma listen_add_ok:
  assumes "listen_add new init fd type s = Ret (FLOM_RC_OK, s')" "0 \<le> fd"
  shows "one_more s type s'" "ln_config s' = ln_config s" "ln_lock s' = ln_lock s" "ln_path s' = ln_path s"
  using assms by (auto simp: listen_add_def one_more_def flom_conns_get_new_uid_def flom_conns_add_conn_def split: if_splits)

lemma one_more_fields:
  "one_more (s\<lparr>ln_open := v\<rparr>) type s' \<longleftrightarrow> one_more s type s'" "one_more (s\<lparr>ln_lock := b\<rparr>) type s' \<longleftrightarrow> one_more s type s'"
  "one_more (s\<lparr>ln_path := b\<rparr>) type s' \<longleftrightarrow> one_more s type s'" "one_more (s\<lparr>ln_config := c\<rparr>) type s' \<longleftrightarrow> one_more s type s'"
  by (simp_all add: one_more_def)

lemma listen_local_ok:
  assumes "flom_listen_local inp s = Ret (FLOM_RC_OK, s')" "sockets_ok inp"
  shows "one_more s SOCK_STREAM s' \<and> ln_config s' = ln_config s \<and> \<not> ln_lock s \<and> ln_lock s' \<and> ln_path s'"
proof -
  obtain fd s5 where f: "lt_socket inp = Some fd" "listen_add (lt_conn_new inp) (lt_conn_init inp) fd SOCK_STREAM s5 = Ret (FLOM_RC_OK, s')"
    and u: "\<not> ln_lock s" "ln_lock s5" "ln_path s5" "ln_config s5 = ln_config s" "one_more s5 SOCK_STREAM s' \<longrightarrow> one_more s SOCK_STREAM s'"
    using assms(1) by (auto simp: flom_listen_local_def Let_def listen_open_fd_def one_more_fields split: if_splits option.splits)
  have "0 \<le> fd" using assms(2) f(1) by (simp add: sockets_ok_def fd_ok_def)
  then show ?thesis using listen_add_ok [OF f(2)] u by simp
qed

lemma listen_tcp_ok:
  assumes "flom_listen_tcp inp s = Ret (FLOM_RC_OK, s')" "sockets_ok inp"
  shows "one_more s SOCK_STREAM s' \<and>
    (if cf_unicast_address (value_of (ln_config s)) \<noteq> None then ln_config s' = ln_config s
     else \<exists>family port. lt_getsockname inp = Some (family, port) \<and> ln_config s' = ln_config (set_listen_address family port s))"
proof (cases "cf_unicast_address (value_of (ln_config s)) = None")
  case False
  then obtain fd where f: "flom_tcp_listen inp = Inr fd"
    "listen_add (lt_conn_new inp) (lt_conn_init inp) fd SOCK_STREAM (listen_open_fd fd s) = Ret (FLOM_RC_OK, s')"
    using assms(1) by (auto simp: flom_listen_tcp_def flom_listen_tcp_configured_def flom_tcp_listen_def split: sum.splits option.splits if_splits)
  have "0 \<le> fd" using f(1) assms(2) bind_first_ok by (auto simp: flom_tcp_listen_def sockets_ok_def split: option.splits if_splits)
  then show ?thesis using False listen_add_ok [OF f(2)] by (simp add: listen_open_fd_def one_more_fields)
next
  case True
  then obtain fd family port where f: "lt_socket inp = Some fd" "lt_getsockname inp = Some (family, port)"
    "listen_add (lt_conn_new inp) (lt_conn_init inp) fd SOCK_STREAM (listen_open_fd fd (set_listen_address family port s)) =
       Ret (FLOM_RC_OK, s')"
    using assms(1)
    by (auto simp: flom_listen_tcp_def flom_listen_tcp_automatic_def split: option.splits call.splits prod.splits if_splits)
  have "0 \<le> fd" using f(1) assms(2) by (simp add: sockets_ok_def fd_ok_def)
  then show ?thesis
    using True f(2) listen_add_ok [OF f(3)] by (simp add: listen_open_fd_def set_listen_address_def one_more_fields)
qed

lemma listen_udp_ok:
  assumes "flom_listen_udp inp s = Ret (FLOM_RC_OK, s')" "sockets_ok inp"
  shows "ln_config s' = ln_config s \<and>
    (if cf_multicast_address (value_of (ln_config s)) = None then s' = s else one_more s SOCK_DGRAM s')"
proof (cases "cf_multicast_address (value_of (ln_config s)) = None")
  case False
  then obtain as fd where f: "lt_multicast inp = Some as" "udp_join_first as = Inr fd"
    "listen_add (lt_conn_new_udp inp) (lt_conn_init_udp inp) fd SOCK_DGRAM (listen_open_fd fd s) = Ret (FLOM_RC_OK, s')"
    using assms(1) join_first_error
    by (auto simp: flom_listen_udp_def split: option.splits call.splits prod.splits if_splits sum.splits)
  have "list_all (\<lambda>a. fd_ok (ad_socket a)) as" using f(1) assms(2) by (simp add: sockets_ok_def)
  then have "0 \<le> fd" using join_first_ok f(2) by blast
  then show ?thesis using False listen_add_ok [OF f(3)] by (auto simp: listen_open_fd_def one_more_fields)
qed (use assms in \<open>simp add: flom_listen_udp_def\<close>)

lemma listen_address_value:
  assumes "owns F (ln_config s)"
  shows "owns F (ln_config (set_listen_address family port s))"
    "value_of (ln_config (set_listen_address family port s)) =
       (value_of (ln_config s))\<lparr>cf_unicast_address := Some (if family = AF_INET then FLOM_INADDR_ANY_STRING else FLOM_INADDR6_ANY_STRING),
          cf_unicast_port := gint_abs port\<rparr>"
  using assms by (simp_all add: set_listen_address_def setters_own plain_setters_own setters_value plain_setters_value)

text \<open>The listeners after a start that succeeds, for a local socket and for a network.\<close>

lemma listen_ok:
  assumes "flom_listen inp s = Ret (FLOM_RC_OK, s')" "sockets_ok inp" "owns F (ln_config s)"
  shows "owns F (ln_config s')"
    "cf_daemon_lifespan (value_of (ln_config s')) = cf_daemon_lifespan (value_of (ln_config s))"
    "if cs_domain (ln_conns s) = AF_UNIX then one_more s SOCK_STREAM s' \<and> \<not> ln_lock s \<and> ln_lock s' \<and> ln_path s'
     else if cf_multicast_address (value_of (ln_config s)) = None then one_more s SOCK_STREAM s'
     else \<exists>t. one_more s SOCK_STREAM t \<and> one_more t SOCK_DGRAM s'"
proof -
  have "owns F (ln_config s') \<and> cf_daemon_lifespan (value_of (ln_config s')) = cf_daemon_lifespan (value_of (ln_config s)) \<and>
    (if cs_domain (ln_conns s) = AF_UNIX then one_more s SOCK_STREAM s' \<and> \<not> ln_lock s \<and> ln_lock s' \<and> ln_path s'
     else if cf_multicast_address (value_of (ln_config s)) = None then one_more s SOCK_STREAM s'
     else \<exists>t. one_more s SOCK_STREAM t \<and> one_more t SOCK_DGRAM s')"
  proof (cases "cs_domain (ln_conns s) = AF_UNIX")
    case True
    then show ?thesis using assms listen_local_ok [of inp s s'] by (simp add: flom_listen_def)
  next
    case False
    then obtain t where t: "flom_listen_tcp inp s = Ret (FLOM_RC_OK, t)" "flom_listen_udp inp t = Ret (FLOM_RC_OK, s')"
      using assms(1) by (auto simp: flom_listen_def Let_def split: call.splits prod.splits if_splits)
    note a = listen_tcp_ok [OF t(1) assms(2)] and b = listen_udp_ok [OF t(2) assms(2)]
    have c: "owns F (ln_config t)" "cf_multicast_address (value_of (ln_config t)) = cf_multicast_address (value_of (ln_config s))"
      "cf_daemon_lifespan (value_of (ln_config t)) = cf_daemon_lifespan (value_of (ln_config s))"
      using a assms(3) listen_address_value [OF assms(3)] by (auto simp del: value_lifespan split: if_splits)
    show ?thesis using False a b c by (auto simp del: value_lifespan split: if_splits)
  qed
  then show "owns F (ln_config s')"
    "cf_daemon_lifespan (value_of (ln_config s')) = cf_daemon_lifespan (value_of (ln_config s))"
    "if cs_domain (ln_conns s) = AF_UNIX then one_more s SOCK_STREAM s' \<and> \<not> ln_lock s \<and> ln_lock s' \<and> ln_path s'
     else if cf_multicast_address (value_of (ln_config s)) = None then one_more s SOCK_STREAM s'
     else \<exists>t. one_more s SOCK_STREAM t \<and> one_more t SOCK_DGRAM s'" by blast+
qed

text \<open>A daemon that serves has listened in the state of its child.\<close>

lemma daemon_served:
  assumes "flom_daemon inp domain s = (r, True, s')"
  obtains s1 s2 where "flom_listen (st_listen inp) s1 = Ret (FLOM_RC_OK, s2)" "ln_conns s1 = flom_conns_init domain"
    "ln_config s1 = ln_config s" "ln_lock s1 = ln_lock s" "ln_path s1 = ln_path s" "ln_conns s' = ln_conns s2" "ln_types s' = ln_types s2"
    "ln_config s' = ln_config s2" "ln_lock s' = ln_lock s2" "ln_path s' = ln_path s2"
proof -
  obtain p w where "daemon_child inp p domain (s\<lparr>ln_open := fst p # snd p # ln_open s\<rparr>) = (w, True, s')"
    using assms by (auto simp: flom_daemon_def split: if_splits option.splits prod.splits)
  then show thesis
    using that by (auto simp: daemon_child_def Let_def listen_close_fd_def split: if_splits call.splits prod.splits)
qed

lemma father_ok:
  assumes "flom_daemon inp domain s = (Returned FLOM_RC_OK, served, s')"
  shows "served"
  using assms
  by (auto simp: flom_daemon_def daemon_father_def daemon_child_def Let_def split: if_splits option.splits prod.splits call.splits)

section \<open>Properties\<close>

text \<open>C17. A daemon that reports success listens.  When flom_daemon returns FLOM_RC_OK to the client that called it,
  another process serves: its accept loop starts with the listening socket first and, exactly for a network with
  a multicast address, the socket for the discovery second, both open and with their own identifiers, in
  the state from which an idle daemon ends; a local daemon holds the lock of its socket, whose name exists.
\<close>

theorem daemon_start_listens:
  assumes "flom_daemon inp domain s = (Returned FLOM_RC_OK, served, s')" "sockets_ok (st_listen inp)" "owns F (ln_config s)"
  shows "served \<and> listening (daemon_of w s') \<and>
    map (\<lambda>c. (cn_uid c, dm_types (daemon_of w s') (cn_uid c))) (dm_array (daemon_of w s')) =
      (if domain \<noteq> AF_UNIX \<and> cf_multicast_address (value_of (ln_config s)) \<noteq> None
       then [(1, SOCK_STREAM), (2, SOCK_DGRAM)] else [(1, SOCK_STREAM)]) \<and>
    cf_daemon_lifespan (the_config (daemon_of w s')) = cf_daemon_lifespan (value_of (ln_config s)) \<and>
    (domain = AF_UNIX \<longrightarrow> \<not> ln_lock s \<and> ln_lock s' \<and> ln_path s')"
proof -
  have sv: served by (rule father_ok [OF assms(1)])
  then obtain s1 s2 where l: "flom_listen (st_listen inp) s1 = Ret (FLOM_RC_OK, s2)" "ln_conns s1 = flom_conns_init domain"
    and c: "ln_config s1 = ln_config s" "ln_lock s1 = ln_lock s" "ln_path s1 = ln_path s"
    and e: "ln_conns s' = ln_conns s2" "ln_types s' = ln_types s2" "ln_config s' = ln_config s2" "ln_lock s' = ln_lock s2" "ln_path s' = ln_path s2"
    using daemon_served [of inp domain s "Returned FLOM_RC_OK" s'] assms(1) by metis
  note o = listen_ok [OF l(1) assms(2) assms(3) [folded c(1)]]
  have n: "cs_domain (ln_conns s1) = domain" "cs_array (ln_conns s1) = []" "cs_last_uid (ln_conns s1) = 0"
    by (simp_all add: l(2) flom_conns_init_def)
  have d: "dm_array (daemon_of w s') = cs_array (ln_conns s2)" "dm_types (daemon_of w s') = ln_types s2"
    "the_config (daemon_of w s') = value_of (ln_config s2)"
    by (simp_all add: daemon_of_def dm_array_def the_config_def e)
  show ?thesis
    using o(3) sv o(2) c e n
    by (auto simp: d listening_def only_listeners_def one_more_def flom_conn_init_def simp del: value_lifespan split: if_splits)
qed

text \<open>The port that is announced is the one that listens.  A network daemon without a configured address takes a port that
  the system chooses; the answer it then gives to a discovery carries this port and no address, which
  tells the client to use the address from which the answer came.
\<close>

theorem automatic_port_announced:
  assumes "flom_daemon inp domain s = (Returned FLOM_RC_OK, served, s')" "sockets_ok (st_listen inp)" "owns F (ln_config s)"
    and "domain \<noteq> AF_UNIX" "cf_unicast_address (value_of (ln_config s)) = None"
    and "lt_getsockname (st_listen inp) = Some (family, port)" "0 \<le> port" "port < 65536"
  shows "msg_verb (discover_msg (the_config (daemon_of w s'))) = FLOM_MSG_VERB_DISCOVER \<and>
    discover_16 (discover_msg (the_config (daemon_of w s'))) = \<lparr>d16_address = None, d16_port = port\<rparr>"
proof -
  obtain s1 s2 where l: "flom_listen (st_listen inp) s1 = Ret (FLOM_RC_OK, s2)" "ln_conns s1 = flom_conns_init domain"
    and c: "ln_config s1 = ln_config s" and e: "ln_config s' = ln_config s2"
    using daemon_served [of inp domain s "Returned FLOM_RC_OK" s'] father_ok assms(1) by metis
  have "cs_domain (ln_conns s1) = domain" by (simp add: l(2) flom_conns_init_def)
  then obtain t where t: "flom_listen_tcp (st_listen inp) s1 = Ret (FLOM_RC_OK, t)" "flom_listen_udp (st_listen inp) t = Ret (FLOM_RC_OK, s2)"
    using l(1) assms(4) by (auto simp: flom_listen_def Let_def split: call.splits prod.splits if_splits)
  have "ln_config s2 = ln_config (set_listen_address family port s1)"
    using listen_tcp_ok [OF t(1) assms(2)] listen_udp_ok [OF t(2) assms(2)] assms(5,6) c by auto
  moreover have "gint_abs port = port" using assms(7) by (simp add: gint_abs_def)
  ultimately have "value_of (ln_config s2) = (value_of (ln_config s))\<lparr>cf_unicast_address :=
      Some (if family = AF_INET then FLOM_INADDR_ANY_STRING else FLOM_INADDR6_ANY_STRING), cf_unicast_port := port\<rparr>"
    using listen_address_value(2) [of F s1] assms(3) c by simp
  then show ?thesis using e assms(7,8) by (simp add: daemon_of_def the_config_def discover_msg_def)
qed

text \<open>
  Starts of daemons for one local socket, one after the other, while none of the daemons ends.  The lock of a process
  that does not serve is released with the process.
\<close>

definition local_start :: "start_input \<times> cfg_state \<Rightarrow> bool \<times> bool \<times> nat \<Rightarrow> bool \<times> bool \<times> nat" where
  "local_start st x =
     (case x of (lock, path, n) \<Rightarrow>
        (case flom_daemon (fst st) AF_UNIX
                \<lparr> ln_config = snd st, ln_conns = flom_conns_init AF_UNIX, ln_types = (\<lambda>_. SOCK_OTHER), ln_open = [],
                  ln_lock = lock, ln_path = path \<rparr> of
           (r, served, s') \<Rightarrow> if served then (True, ln_path s', Suc n) else (lock, ln_path s', n)))"

lemma locked_start:
  assumes "flom_daemon inp AF_UNIX s = (r, served, s')" "ln_lock s"
  shows "\<not> served \<and> ln_path s' = ln_path s"
proof -
  have l: "flom_listen (st_listen inp) s1 = Ret (rc, s2) \<Longrightarrow> rc \<noteq> FLOM_RC_OK \<and> ln_path s2 = ln_path s1"
    if "ln_lock s1" "ln_conns s1 = flom_conns_init AF_UNIX" for s1 s2 rc
    using that by (auto simp: flom_listen_def flom_listen_local_def flom_conns_init_def Let_def listen_open_fd_def split: if_splits option.splits)
  have c: "\<not> served' \<and> ln_path t' = ln_path t" if d: "daemon_child inp p AF_UNIX t = (w, served', t')" and k: "ln_lock t" for p t w served' t'
  proof -
    let ?s1 = "t\<lparr>ln_open := filter (\<lambda>fd. \<not> (0 \<le> fd \<and> fd < 64) \<or> fd = fst p \<or> fd = snd p) (ln_open t), ln_conns := flom_conns_init AF_UNIX\<rparr>"
    show ?thesis
    proof (cases "flom_listen (st_listen inp) ?s1")
      case (Ret x)
      then obtain rc s2 where x: "flom_listen (st_listen inp) ?s1 = Ret (rc, s2)" by (cases x) simp
      then have "rc \<noteq> FLOM_RC_OK" "ln_path s2 = ln_path t" using l [OF _ _ x] k by simp_all
      then show ?thesis using d x by (auto simp: daemon_child_def Let_def listen_close_fd_def split: if_splits)
    qed (use d in \<open>auto simp: daemon_child_def Let_def split: if_splits\<close>)
  qed
  show ?thesis
    using assms by (auto simp: flom_daemon_def dest!: c split: if_splits option.splits prod.splits)
qed

lemma local_served:
  assumes "flom_daemon inp AF_UNIX s = (r, True, s')"
  shows "ln_path s'"
proof -
  obtain s1 s2 where "flom_listen (st_listen inp) s1 = Ret (FLOM_RC_OK, s2)" "ln_conns s1 = flom_conns_init AF_UNIX" "ln_path s' = ln_path s2"
    using daemon_served [OF assms] by metis
  then show ?thesis
    by (auto simp: flom_listen_def flom_listen_local_def flom_conns_init_def Let_def listen_open_fd_def listen_add_def
        split: if_splits option.splits prod.splits)
qed


text \<open>
  A daemon that fails before its report is never missed: the client that starts it holds the writing end of the pipe itself and
  waits for ever.
\<close>

theorem silent_daemon_blocks_client:
  assumes "\<not> st_inet_ntop_fails inp" "st_pipe inp = Some p" "\<not> st_fork_fails inp" "\<not> st_wait_fails inp" "\<not> st_other_child inp"
    and "\<not> st_read_fails inp"
    and "st_fork2_fails inp \<or> st_setsid_fails inp \<or> st_sighup_fails inp \<or> st_sigpipe_fails inp \<or> st_fork3_fails inp \<or> st_chdir_fails inp"
  shows "\<exists>s'. flom_daemon inp domain s = (Blocked, False, s')"
  using assms by (auto simp: flom_daemon_def daemon_child_def daemon_father_def Let_def split: prod.splits)

section \<open>Witnesses\<close>

text \<open>A start in which every call succeeds, with the port 4711, and the configuration of a network with a multicast address.\<close>

definition sample_listen :: listen_input where
  "sample_listen =
     \<lparr> lt_malloc = True, lt_lock_fd = Some 4, lt_flock_fails = False, lt_socket = Some 5, lt_sockopt_fails = False, lt_unlink_fails = False,
       lt_bind_fails = False, lt_listen_fails = False, lt_getsockname = Some (AF_INET, 4711), lt_addresses = None,
       lt_multicast = Some [\<lparr>ad_family = AF_INET, ad_socket = None, ad_usable = True, mu_join = True\<rparr>,
         \<lparr>ad_family = AF_INET, ad_socket = Some 6, ad_usable = True, mu_join = True\<rparr>],
       lt_conn_new = True, lt_conn_init = FLOM_RC_OK, lt_conn_new_udp = True, lt_conn_init_udp = FLOM_RC_OK \<rparr>"

definition sample_daemon_start :: start_input where
  "sample_daemon_start =
     \<lparr> st_inet_ntop_fails = False, st_pipe = Some (7, 8), st_fork_fails = False, st_wait_fails = False, st_other_child = False,
       st_read_fails = False, st_fork2_fails = False, st_setsid_fails = False, st_sighup_fails = False, st_sigpipe_fails = False,
       st_fork3_fails = False, st_chdir_fails = False, st_write_fails = False, st_listen = sample_listen \<rparr>"

definition sample_network :: listen_st where
  "sample_network =
     \<lparr> ln_config = flom_config_set_multicast_address (Some ''m'') (flom_config_reset sample_heap), ln_conns = flom_conns_init AF_INET,
       ln_types = (\<lambda>_. SOCK_OTHER), ln_open = [], ln_lock = False, ln_path = False \<rparr>"

lemma sample_network_owns: "owns (h_map sample_heap) (ln_config sample_network)"
proof -
  have "owns (h_map sample_heap) (flom_config_reset sample_heap)" by (rule reset_owns) (simp_all add: sample_heap_def)
  then show ?thesis by (simp add: sample_network_def setters_own)
qed

lemma sample_network_start:
  obtains s' where "flom_daemon sample_daemon_start AF_INET sample_network = (Returned FLOM_RC_OK, True, s')"
proof -
  have "(case flom_daemon sample_daemon_start AF_INET sample_network of (r, served, s') \<Rightarrow> r = Returned FLOM_RC_OK \<and> served)" by code_simp
  then show thesis using that by (auto split: prod.splits)
qed

lemma sample_sockets_ok: "sockets_ok (st_listen sample_daemon_start)"
  by code_simp

theorem daemon_start_listens_witness:
  "\<exists>s'. listening (daemon_of sample_world s') \<and>
     map (\<lambda>c. (cn_uid c, dm_types (daemon_of sample_world s') (cn_uid c))) (dm_array (daemon_of sample_world s')) = [(1, SOCK_STREAM), (2, SOCK_DGRAM)]"
proof -
  obtain s' where s': "flom_daemon sample_daemon_start AF_INET sample_network = (Returned FLOM_RC_OK, True, s')"
    by (rule sample_network_start)
  have "cf_multicast_address (value_of (ln_config sample_network)) \<noteq> None" by code_simp
  then show ?thesis
    using daemon_start_listens [OF s' sample_sockets_ok sample_network_owns, of sample_world] by auto
qed

theorem automatic_port_announced_witness:
  "\<exists>s'. discover_16 (discover_msg (the_config (daemon_of sample_world s'))) = \<lparr>d16_address = None, d16_port = 4711\<rparr>"
proof -
  obtain s' where s': "flom_daemon sample_daemon_start AF_INET sample_network = (Returned FLOM_RC_OK, True, s')"
    by (rule sample_network_start)
  have "(AF_INET :: int) \<noteq> AF_UNIX" "cf_unicast_address (value_of (ln_config sample_network)) = None"
    "lt_getsockname (st_listen sample_daemon_start) = Some (AF_INET, 4711)" "(0 :: int) \<le> 4711" "(4711 :: int) < 65536" by code_simp+
  from automatic_port_announced [OF s' sample_sockets_ok sample_network_owns this, of sample_world] show ?thesis by auto
qed


theorem silent_daemon_blocks_client_witness:
  "\<exists>s'. flom_daemon (sample_daemon_start\<lparr>st_chdir_fails := True\<rparr>) AF_INET sample_network = (Blocked, False, s')"
  by (rule silent_daemon_blocks_client [of _ "(7, 8)"]) (simp_all add: sample_daemon_start_def)

end
