(* ===== verification/Tls.thy ===== *)
theory Tls
  imports Daemon
begin

text \<open>
  TLS, \<^verbatim>\<open>src/src/flom_tls.c\<close>: the objects, the handshake, the certificate of the peer and the check of its
  identity; and the parts of \<^verbatim>\<open>flom_conn.c\<close> and \<^verbatim>\<open>flom_tcp.c\<close> around them.

  What OpenSSL returns is in the record \<open>tls_calls\<close>: a certificate is the list of the entries of its two names, each with a kind
  and a sequence of characters, which may contain the character zero, and the result of the
  verification of its chain.  The release of the objects is not modelled.
\<close>

abbreviation (input) FLOM_RC_NO_CERTIFICATE :: int where "FLOM_RC_NO_CERTIFICATE \<equiv> - 22"
abbreviation (input) FLOM_RC_UNIQUE_ID_DOES_NOT_MATCH :: int where "FLOM_RC_UNIQUE_ID_DOES_NOT_MATCH \<equiv> - 23"
abbreviation (input) FLOM_RC_SSL_CTX_CHECK_PRIVATE_KEY_ERROR :: int where "FLOM_RC_SSL_CTX_CHECK_PRIVATE_KEY_ERROR \<equiv> - 400"
abbreviation (input) FLOM_RC_SSL_CTX_LOAD_VERIFY_LOCATIONS_ERROR :: int where "FLOM_RC_SSL_CTX_LOAD_VERIFY_LOCATIONS_ERROR \<equiv> - 401"
abbreviation (input) FLOM_RC_SSL_CTX_NEW_ERROR :: int where "FLOM_RC_SSL_CTX_NEW_ERROR \<equiv> - 402"
abbreviation (input) FLOM_RC_SSL_CTX_USE_CERTIFICATE_FILE_ERROR :: int where "FLOM_RC_SSL_CTX_USE_CERTIFICATE_FILE_ERROR \<equiv> - 403"
abbreviation (input) FLOM_RC_SSL_CTX_USE_PRIVATEKEY_FILE_ERROR :: int where "FLOM_RC_SSL_CTX_USE_PRIVATEKEY_FILE_ERROR \<equiv> - 404"
abbreviation (input) FLOM_RC_SSL_ACCEPT_ERROR :: int where "FLOM_RC_SSL_ACCEPT_ERROR \<equiv> - 405"
abbreviation (input) FLOM_RC_SSL_CONNECT_ERROR :: int where "FLOM_RC_SSL_CONNECT_ERROR \<equiv> - 406"
abbreviation (input) FLOM_RC_SSL_GET_VERIFY_RESULT_ERROR :: int where "FLOM_RC_SSL_GET_VERIFY_RESULT_ERROR \<equiv> - 407"
abbreviation (input) FLOM_RC_SSL_NEW_ERROR :: int where "FLOM_RC_SSL_NEW_ERROR \<equiv> - 408"
abbreviation (input) FLOM_RC_SSL_SET_EX_DATA_ERROR :: int where "FLOM_RC_SSL_SET_EX_DATA_ERROR \<equiv> - 410"
abbreviation (input) FLOM_RC_SSL_SET_FD_ERROR :: int where "FLOM_RC_SSL_SET_FD_ERROR \<equiv> - 411"
abbreviation (input) FLOM_RC_TLS_NO_VALID_METHOD :: int where "FLOM_RC_TLS_NO_VALID_METHOD \<equiv> - 413"

section \<open>Objects\<close>

record flom_tls_cert_s =
  c_str :: "string option"
  st_str :: "string option"
  l_str :: "string option"
  o_str :: "string option"
  ou_str :: "string option"
  e_str :: "string option"
  cn_str :: "string option"

record flom_tls_cert =
  ce_issuer :: flom_tls_cert_s
  ce_subject :: flom_tls_cert_s

text \<open>The context: side, whether a peer without a certificate is refused, depth of the chain.\<close>

record tls_ctx =
  cx_client :: bool
  cx_fail_if_no_peer_cert :: bool
  cx_depth :: int

record flom_tls =
  tl_ctx :: "tls_ctx option"
  tl_ssl :: "int option"
  tl_client :: bool
  tl_depth :: int
  tl_cert :: "flom_tls_cert option"

definition FLOM_TLS_MAX_DEPTH_CERT_CHAIN_VERIF :: int where "FLOM_TLS_MAX_DEPTH_CERT_CHAIN_VERIF = 3"

datatype nid =
    NID_countryName | NID_stateOrProvinceName | NID_localityName | NID_organizationName
  | NID_organizationalUnitName | NID_pkcs9_emailAddress | NID_commonName | NID_other int

record x509 =
  x5_issuer :: "(nid \<times> string option) list"
  x5_subject :: "(nid \<times> string option) list"

record tls_calls =
  tk_method :: bool
  tk_ctx_new :: bool
  tk_use_certificate :: bool
  tk_use_key :: bool
  tk_check_key :: bool
  tk_load_ca :: bool
  tk_ssl_new :: bool
  tk_set_fd :: bool
  tk_set_ex_data :: bool
  tk_handshake :: bool
  tk_cert_malloc :: bool
  tk_peer :: "x509 option"
  tk_verified :: bool

text \<open>\<^verbatim>\<open>dbus_get_local_machine_id\<close> and the copy of its result.\<close>

definition flom_tls_get_unique_id :: "string option \<Rightarrow> string option" where
  "flom_tls_get_unique_id machine_id = machine_id"

text \<open>The first object initializes the library.\<close>

definition flom_tls_new :: "bool \<Rightarrow> bool \<Rightarrow> bool \<Rightarrow> flom_tls option \<times> bool" where
  "flom_tls_new alloc client initialized =
     (if alloc then Some \<lparr> tl_ctx = None, tl_ssl = None, tl_client = client,
                           tl_depth = FLOM_TLS_MAX_DEPTH_CERT_CHAIN_VERIF, tl_cert = None \<rparr>
      else None, True)"

definition flom_tls_context :: "tls_calls \<Rightarrow> flom_tls \<Rightarrow> rc \<times> flom_tls" where
  "flom_tls_context k t =
     (if \<not> tk_method k then (FLOM_RC_TLS_NO_VALID_METHOD, t)
      else if \<not> tk_ctx_new k then (FLOM_RC_SSL_CTX_NEW_ERROR, t\<lparr>tl_ctx := None\<rparr>)
      else (FLOM_RC_OK, t\<lparr>tl_ctx := Some \<lparr> cx_client = tl_client t, cx_fail_if_no_peer_cert = \<not> tl_client t,
                                           cx_depth = tl_depth t + 1 \<rparr>\<rparr>))"

text \<open>The callback of the verification lets every handshake go on.\<close>

definition flom_tls_callback :: "bool \<Rightarrow> bool" where
  "flom_tls_callback preverify_ok = True"

definition flom_tls_set_cert :: "tls_calls \<Rightarrow> flom_tls \<Rightarrow> rc" where
  "flom_tls_set_cert k t =
     (if \<not> tk_use_certificate k then FLOM_RC_SSL_CTX_USE_CERTIFICATE_FILE_ERROR
      else if \<not> tk_use_key k then FLOM_RC_SSL_CTX_USE_PRIVATEKEY_FILE_ERROR
      else if \<not> tk_check_key k then FLOM_RC_SSL_CTX_CHECK_PRIVATE_KEY_ERROR
      else if \<not> tk_load_ca k then FLOM_RC_SSL_CTX_LOAD_VERIFY_LOCATIONS_ERROR
      else FLOM_RC_OK)"

definition flom_tls_prepare :: "tls_calls \<Rightarrow> int \<Rightarrow> flom_tls \<Rightarrow> rc \<times> flom_tls" where
  "flom_tls_prepare k sockfd t =
     (let t1 = t\<lparr>tl_ssl := None\<rparr> in
      if \<not> tk_ssl_new k then (FLOM_RC_SSL_NEW_ERROR, t1)
      else
        (let t2 = t1\<lparr>tl_ssl := Some sockfd\<rparr> in
         if \<not> tk_set_fd k then (FLOM_RC_SSL_SET_FD_ERROR, t2)
         else if \<not> tk_set_ex_data k then (FLOM_RC_SSL_SET_EX_DATA_ERROR, t2)
         else (FLOM_RC_OK, t2)))"

section \<open>The certificate of the peer\<close>

text \<open>A C string ends at the first character zero.\<close>

definition c_string :: "string \<Rightarrow> string" where
  "c_string = takeWhile (\<lambda>ch. ch \<noteq> CHR 0x00)"

definition empty_names :: flom_tls_cert_s where
  "empty_names = \<lparr> c_str = None, st_str = None, l_str = None, o_str = None, ou_str = None, e_str = None, cn_str = None \<rparr>"

definition flom_tls_cert_new :: flom_tls_cert where
  "flom_tls_cert_new = \<lparr> ce_issuer = empty_names, ce_subject = empty_names \<rparr>"

definition flom_tls_cert_struct_fill :: "flom_tls_cert_s \<Rightarrow> nid \<Rightarrow> string option \<Rightarrow> rc \<times> flom_tls_cert_s" where
  "flom_tls_cert_struct_fill s n str =
     (let dup = map_option c_string str;
          rc = (if dup = None then FLOM_RC_G_STRDUP_ERROR else FLOM_RC_OK) in
      case n of
        NID_countryName \<Rightarrow> (rc, s\<lparr>c_str := dup\<rparr>)
      | NID_stateOrProvinceName \<Rightarrow> (rc, s\<lparr>st_str := dup\<rparr>)
      | NID_localityName \<Rightarrow> (rc, s\<lparr>l_str := dup\<rparr>)
      | NID_organizationName \<Rightarrow> (rc, s\<lparr>o_str := dup\<rparr>)
      | NID_organizationalUnitName \<Rightarrow> (rc, s\<lparr>ou_str := dup\<rparr>)
      | NID_pkcs9_emailAddress \<Rightarrow> (rc, s\<lparr>e_str := dup\<rparr>)
      | NID_commonName \<Rightarrow> (rc, s\<lparr>cn_str := dup\<rparr>)
      | NID_other i \<Rightarrow> (FLOM_RC_OK, s))"

fun fill_names :: "flom_tls_cert_s \<Rightarrow> (nid \<times> string option) list \<Rightarrow> rc \<times> flom_tls_cert_s" where
  "fill_names s [] = (FLOM_RC_OK, s)"
| "fill_names s ((n, str) # es) =
     (case flom_tls_cert_struct_fill s n str of
        (rc, s1) \<Rightarrow> if rc \<noteq> FLOM_RC_OK then (rc, s1) else fill_names s1 es)"

definition flom_tls_cert_parse :: "tls_calls \<Rightarrow> flom_tls_cert option \<Rightarrow> (rc \<times> flom_tls_cert option) call" where
  "flom_tls_cert_parse k obj =
     (case tk_peer k of
        None \<Rightarrow> Ret (FLOM_RC_NO_CERTIFICATE, obj)
      | Some cert \<Rightarrow>
          (case obj of
             None \<Rightarrow> Crashed
           | Some c \<Rightarrow>
               (case fill_names (ce_issuer c) (x5_issuer cert) of
                  (rc, i) \<Rightarrow>
                    if rc \<noteq> FLOM_RC_OK then Ret (rc, Some (c\<lparr>ce_issuer := i\<rparr>))
                    else
                      (case fill_names (ce_subject c) (x5_subject cert) of
                         (rc, sb) \<Rightarrow>
                           (let c1 = c\<lparr>ce_issuer := i, ce_subject := sb\<rparr> in
                            if rc \<noteq> FLOM_RC_OK then Ret (rc, Some c1)
                            else if \<not> tk_verified k then Ret (FLOM_RC_SSL_GET_VERIFY_RESULT_ERROR, Some c1)
                            else Ret (FLOM_RC_OK, Some c1))))))"

section \<open>Handshake and check\<close>

text \<open>The two sides differ in the call of OpenSSL and the reason code of its failure.\<close>

definition tls_handshake :: "rc \<Rightarrow> tls_calls \<Rightarrow> int \<Rightarrow> flom_tls \<Rightarrow> (rc \<times> flom_tls) call" where
  "tls_handshake error k sockfd t =
     (case flom_tls_prepare k sockfd t of
        (rc, t1) \<Rightarrow>
          if rc \<noteq> FLOM_RC_OK then Ret (rc, t1)
          else if \<not> tk_handshake k then Ret (error, t1)
          else
            (case flom_tls_cert_parse k (if tk_cert_malloc k then Some flom_tls_cert_new else None) of
               Ret (rc, c) \<Rightarrow> Ret (rc, t1\<lparr>tl_cert := c\<rparr>)
             | Exited \<Rightarrow> Exited
             | Crashed \<Rightarrow> Crashed))"

definition flom_tls_connect :: "tls_calls \<Rightarrow> int \<Rightarrow> flom_tls \<Rightarrow> (rc \<times> flom_tls) call" where
  "flom_tls_connect = tls_handshake FLOM_RC_SSL_CONNECT_ERROR"

definition flom_tls_accept :: "tls_calls \<Rightarrow> int \<Rightarrow> flom_tls \<Rightarrow> (rc \<times> flom_tls) call" where
  "flom_tls_accept = tls_handshake FLOM_RC_SSL_ACCEPT_ERROR"

definition flom_tls_cert_check :: "flom_tls \<Rightarrow> string option \<Rightarrow> rc call" where
  "flom_tls_cert_check t peer_unique_id =
     (case tl_cert t of
        None \<Rightarrow> Crashed
      | Some c \<Rightarrow>
          (case (cn_str (ce_subject c), peer_unique_id) of
             (Some cn, Some p) \<Rightarrow> Ret (if cn \<noteq> p then FLOM_RC_UNIQUE_ID_DOES_NOT_MATCH else FLOM_RC_OK)
           | _ \<Rightarrow> Ret FLOM_RC_NULL_OBJECT))"

section \<open>Connections\<close>

text \<open>\<^verbatim>\<open>flom_conn_authenticate\<close>: a connection without TLS passes.\<close>

definition flom_conn_authenticate :: "flom_tls option \<Rightarrow> string option \<Rightarrow> bool \<Rightarrow> rc call" where
  "flom_conn_authenticate tls peer_id tls_check_peer_id =
     (case tls of
        None \<Rightarrow> Ret FLOM_RC_OK
      | Some t \<Rightarrow> if tls_check_peer_id then flom_tls_cert_check t peer_id else Ret FLOM_RC_OK)"

datatype sock_option = SO_KEEPALIVE | TCP_KEEPIDLE | TCP_KEEPINTVL | TCP_KEEPCNT

text \<open>The options that \<^verbatim>\<open>flom_conn_set_keepalive\<close> sets, up to the first that fails.\<close>

fun set_options :: "(sock_option \<Rightarrow> bool) \<Rightarrow> (sock_option \<times> int) list \<Rightarrow> rc \<times> (sock_option \<times> int) list" where
  "set_options fails [] = (FLOM_RC_OK, [])"
| "set_options fails ((p, v) # ps) =
     (if fails p then (FLOM_RC_SETSOCKOPT_ERROR, [])
      else (case set_options fails ps of (rc, done) \<Rightarrow> (rc, (p, v) # done)))"

definition flom_conn_set_keepalive :: "(sock_option \<Rightarrow> bool) \<Rightarrow> config_value \<Rightarrow> int \<Rightarrow> rc \<times> (sock_option \<times> int) list" where
  "flom_conn_set_keepalive fails c fd =
     (if fd = FLOM_NULL_FD then (FLOM_RC_NULL_OBJECT, [])
      else set_options fails [(SO_KEEPALIVE, 1), (TCP_KEEPIDLE, cf_tcp_keepalive_time c), (TCP_KEEPINTVL, cf_tcp_keepalive_intvl c),
             (TCP_KEEPCNT, cf_tcp_keepalive_probes c)])"

text \<open>Host and service as \<^verbatim>\<open>getnameinfo\<close> gives them.\<close>

definition flom_tcp_retrieve_peer_name :: "bool \<Rightarrow> (string \<times> string) option \<Rightarrow> bool \<Rightarrow> string option" where
  "flom_tcp_retrieve_peer_name getpeername nameinfo alloc =
     (if \<not> getpeername then None
      else (case nameinfo of None \<Rightarrow> None | Some (host, serv) \<Rightarrow> if alloc then Some (host @ ''/'' @ serv) else None))"

section \<open>Who is authenticated\<close>

text \<open>The common name that counts is the last one; entries of the known kinds must have a value.\<close>

fun last_name :: "(nid \<times> string option) list \<Rightarrow> string option" where
  "last_name [] = None"
| "last_name ((n, str) # es) =
     (case last_name es of Some t \<Rightarrow> Some t | None \<Rightarrow> if n = NID_commonName then map_option c_string str else None)"

definition names_present :: "(nid \<times> string option) list \<Rightarrow> bool" where
  "names_present es \<longleftrightarrow> list_all (\<lambda>(n, str). str \<noteq> None \<or> (\<exists>i. n = NID_other i)) es"

lemma fill_names_spec:
  "fst (fill_names s es) = FLOM_RC_OK \<longleftrightarrow> names_present es"
  "names_present es \<Longrightarrow> cn_str (snd (fill_names s es)) = (case last_name es of Some t \<Rightarrow> Some t | None \<Rightarrow> cn_str s)"
proof -
  have "(fst (fill_names s es) = FLOM_RC_OK \<longleftrightarrow> names_present es) \<and>
    (names_present es \<longrightarrow> cn_str (snd (fill_names s es)) = (case last_name es of Some t \<Rightarrow> Some t | None \<Rightarrow> cn_str s))"
  proof (induction es arbitrary: s)
    case (Cons e es)
    obtain n str where e: "e = (n, str)" by (cases e)
    show ?case
      using Cons.IH by (cases n; cases str) (auto simp: e flom_tls_cert_struct_fill_def names_present_def Let_def split: option.splits)
  qed (simp add: names_present_def)
  then show "fst (fill_names s es) = FLOM_RC_OK \<longleftrightarrow> names_present es"
    "names_present es \<Longrightarrow> cn_str (snd (fill_names s es)) = (case last_name es of Some t \<Rightarrow> Some t | None \<Rightarrow> cn_str s)" by blast+
qed

definition handshake_ok :: "tls_calls \<Rightarrow> bool" where
  "handshake_ok k \<longleftrightarrow> tk_ssl_new k \<and> tk_set_fd k \<and> tk_set_ex_data k \<and> tk_handshake k"

text \<open>The identity that a peer proves: the common name of a certificate whose chain is verified.\<close>

definition proven_identity :: "tls_calls \<Rightarrow> string option" where
  "proven_identity k =
     (case tk_peer k of
        None \<Rightarrow> None
      | Some cert \<Rightarrow> if names_present (x5_issuer cert) \<and> names_present (x5_subject cert) \<and> tk_verified k then last_name (x5_subject cert) else None)"

lemma tls_handshake_ok:
  assumes "error \<noteq> FLOM_RC_OK"
  shows "tls_handshake error k fd t = Ret (FLOM_RC_OK, t') \<longleftrightarrow>
    (\<exists>cert. handshake_ok k \<and> tk_cert_malloc k \<and> tk_peer k = Some cert \<and> names_present (x5_issuer cert) \<and> names_present (x5_subject cert) \<and>
       tk_verified k \<and> t' = t\<lparr>tl_ssl := Some fd, tl_cert := Some \<lparr> ce_issuer = snd (fill_names empty_names (x5_issuer cert)),
         ce_subject = snd (fill_names empty_names (x5_subject cert)) \<rparr>\<rparr>)"
  using assms fill_names_spec(1) [of empty_names]
  by (auto simp: tls_handshake_def flom_tls_prepare_def flom_tls_cert_parse_def flom_tls_cert_new_def handshake_ok_def Let_def
      case_prod_unfold split: option.splits)

lemma proven_check:
  assumes "tls_handshake error k fd t = Ret (FLOM_RC_OK, t')" "error \<noteq> FLOM_RC_OK"
  shows "flom_tls_cert_check t' p = Ret FLOM_RC_OK \<longleftrightarrow> p \<noteq> None \<and> proven_identity k = p"
proof -
  obtain cert where c: "tk_peer k = Some cert" "names_present (x5_issuer cert)" "names_present (x5_subject cert)" "tk_verified k"
    and t: "t' = t\<lparr>tl_ssl := Some fd, tl_cert := Some \<lparr> ce_issuer = snd (fill_names empty_names (x5_issuer cert)),
         ce_subject = snd (fill_names empty_names (x5_subject cert)) \<rparr>\<rparr>"
    using assms tls_handshake_ok by blast
  have "cn_str (snd (fill_names empty_names (x5_subject cert))) = last_name (x5_subject cert)"
    using fill_names_spec(2) [OF c(3), of empty_names] by (simp add: empty_names_def split: option.splits)
  then show ?thesis by (auto simp: t flom_tls_cert_check_def proven_identity_def c split: option.splits)
qed

text \<open>C20. Who is authenticated over TLS.  On either side the handshake and the check of an identity succeed exactly when
  the calls of the library do, the peer presents a certificate whose chain is verified and whose entries have values,
  and the last common name of its subject, up to the first character zero, is the identity that the peer claims.
\<close>

theorem peer_authenticated_iff:
  "((\<exists>t'. flom_tls_accept k fd t = Ret (FLOM_RC_OK, t') \<and> flom_tls_cert_check t' (Some p) = Ret FLOM_RC_OK) \<longleftrightarrow>
      handshake_ok k \<and> tk_cert_malloc k \<and> proven_identity k = Some p) \<and>
   ((\<exists>t'. flom_tls_connect k fd t = Ret (FLOM_RC_OK, t') \<and> flom_tls_cert_check t' (Some p) = Ret FLOM_RC_OK) \<longleftrightarrow>
      handshake_ok k \<and> tk_cert_malloc k \<and> proven_identity k = Some p)"
proof -
  have "(\<exists>t'. tls_handshake error k fd t = Ret (FLOM_RC_OK, t') \<and> flom_tls_cert_check t' (Some p) = Ret FLOM_RC_OK) \<longleftrightarrow>
      handshake_ok k \<and> tk_cert_malloc k \<and> proven_identity k = Some p" if e: "error \<noteq> FLOM_RC_OK" for error
  proof -
    have "(\<exists>t'. tls_handshake error k fd t = Ret (FLOM_RC_OK, t') \<and> flom_tls_cert_check t' (Some p) = Ret FLOM_RC_OK) \<longleftrightarrow>
        (\<exists>t'. tls_handshake error k fd t = Ret (FLOM_RC_OK, t')) \<and> proven_identity k = Some p"
      using proven_check [OF _ e] by blast
    also have "\<dots> \<longleftrightarrow> handshake_ok k \<and> tk_cert_malloc k \<and> proven_identity k = Some p"
      by (auto simp: tls_handshake_ok [OF e] proven_identity_def split: option.splits if_splits)
    finally show ?thesis .
  qed
  from this [of FLOM_RC_SSL_ACCEPT_ERROR] this [of FLOM_RC_SSL_CONNECT_ERROR] show ?thesis
    by (simp add: flom_tls_accept_def flom_tls_connect_def)
qed


text \<open>
  A certificate whose common name has a character zero proves the identity before it: the rest of the name is not
  compared.
\<close>

theorem null_prefix_certificate:
  assumes "tk_peer k = Some \<lparr> x5_issuer = [], x5_subject = [(NID_commonName, Some (p @ CHR 0x00 # rest))] \<rparr>" "tk_verified k"
    and "handshake_ok k" "tk_cert_malloc k" "CHR 0x00 \<notin> set p"
  shows "\<exists>t'. flom_tls_accept k fd t = Ret (FLOM_RC_OK, t') \<and> flom_tls_cert_check t' (Some p) = Ret FLOM_RC_OK"
proof -
  have "c_string (p @ CHR 0x00 # rest) = p" using assms(5) unfolding c_string_def by (induction p) auto
  then have p: "proven_identity k = Some p" using assms(1,2) by (simp add: proven_identity_def names_present_def)
  obtain t' where t': "tls_handshake FLOM_RC_SSL_ACCEPT_ERROR k fd t = Ret (FLOM_RC_OK, t')"
    using assms by (fastforce simp: tls_handshake_ok names_present_def)
  then show ?thesis using proven_check [OF t'] p by (simp add: flom_tls_accept_def)
qed

section \<open>Witnesses\<close>

text \<open>A handshake in which every call succeeds, with two common names.\<close>

definition sample_tls :: "string \<Rightarrow> tls_calls" where
  "sample_tls cn =
     \<lparr> tk_method = True, tk_ctx_new = True, tk_use_certificate = True, tk_use_key = True, tk_check_key = True, tk_load_ca = True,
       tk_ssl_new = True, tk_set_fd = True, tk_set_ex_data = True, tk_handshake = True, tk_cert_malloc = True,
       tk_peer = Some \<lparr> x5_issuer = [], x5_subject = [(NID_commonName, Some cn)] \<rparr>, tk_verified = True \<rparr>"

definition sample_tls_object :: flom_tls where
  "sample_tls_object = \<lparr> tl_ctx = None, tl_ssl = None, tl_client = False, tl_depth = 3, tl_cert = None \<rparr>"

text \<open>A daemon that checks its peers, with one client, whose lock request is to be processed.\<close>

definition sample_checked :: daemon_st where
  "sample_checked =
     (sample_daemon [(flom_conn_init 2 9 True)\<lparr>cn_msg := flom_msg_init\<lparr>msg_verb := FLOM_MSG_VERB_LOCK, msg_step := FLOM_MSG_STEP_INCR,
        lock_8 := (lock_8 flom_msg_init)\<lparr>l8_peerid := Some ''u''\<rparr>\<rparr>\<rparr>] [])
       \<lparr>dm_global := (value_of (flom_config_reset sample_heap))\<lparr>cf_tls_check_peer_id := True, cf_tls_certificate := Some ''c'',
          cf_tls_private_key := Some ''k'', cf_tls_ca_certificate := Some ''a''\<rparr>\<rparr>"


theorem null_prefix_certificate_witness:
  "\<exists>t'. flom_tls_accept (sample_tls (''u'' @ CHR 0x00 # ''evil'')) 9 sample_tls_object = Ret (FLOM_RC_OK, t') \<and>
     flom_tls_cert_check t' (Some ''u'') = Ret FLOM_RC_OK"
  by (rule null_prefix_certificate) (simp_all add: sample_tls_def handshake_ok_def)

end
