(* ===== verification/Spec2Isabelle.thy ===== *)
theory Spec2Isabelle
  imports Vfs_Mirror System Program Daemon_Start Tls
begin

text \<open>
  A verification of FLoM, the Free Lock Manager.

  \<^bold>\<open>The program.\<close>  FLoM is a lock manager for processes of one or of several hosts.  A
  client asks a daemon for a lock on a resource named by a string, in one of six modes
  (from null lock to exclusive), runs a command, and releases the lock.  The name tells
  the type of the resource: \<^verbatim>\<open>name\<close> is a simple resource, \<^verbatim>\<open>name[n]\<close> a numeric one, of
  which quantities are locked, \<^verbatim>\<open>a.b.c\<close> a set, of which one element is locked,
  \<^verbatim>\<open>/a/b\<close> a path of a hierarchy, \<^verbatim>\<open>_s_name[n]\<close> a sequence of numbers (\<^verbatim>\<open>_S_\<close> a
  transactional one), and \<^verbatim>\<open>_t_format[n]\<close> a series of timestamps.  The parts of the
  daemon, all under \<^verbatim>\<open>src/src\<close>, are:

  \<^item> the main thread (\<^verbatim>\<open>flom_daemon.c\<close>), which accepts connections (\<^verbatim>\<open>flom_tcp.c\<close>,
    \<^verbatim>\<open>flom_tls.c\<close>, \<^verbatim>\<open>flom_conn.c\<close>, \<^verbatim>\<open>flom_conns.c\<close>), reads the first message of a
    client and hands the connection to the locker of its resource;
  \<^item> one locker thread per resource (\<^verbatim>\<open>flom_locker.c\<close>), which polls its connections and
    calls the methods of the resource: a request has arrived (\<^verbatim>\<open>inmsg\<close>), a client is gone
    (\<^verbatim>\<open>clean\<close>), the time is over (\<^verbatim>\<open>timeout\<close>);
  \<^item> the six resources (\<^verbatim>\<open>flom_resource_*.c\<close>), which keep the holders and the queue of the
    waiting clients, and their common part (\<^verbatim>\<open>flom_rsrc.c\<close>);
  \<^item> the messages (\<^verbatim>\<open>flom_msg.c\<close>), small XML documents with a verb and a step.

  \<^bold>\<open>The theories.\<close>  Operations have the names of the C functions.

  \<^item> \<open>Prelude\<close>: reason codes, C integers and their decimal form, lists.
  \<^item> \<open>Rsrc_Name\<close> (first half of \<^verbatim>\<open>flom_rsrc.c\<close>): the regular expressions of the names, the
    type of a name, its number, infix and elements.  Shown: the ordered search finds the
    type whose expression matches; number and elements are read back as written; the
    number wraps around silently.
  \<^item> \<open>Msg\<close> and \<open>Msg_Xml\<close> (\<^verbatim>\<open>flom_msg.c\<close>): lock modes, message structure, release, check of
    the direction, answers; the text of every message with the checks of the buffer, and
    the parser callbacks.  Shown: the names of the modes are read back; serializer,
    protocol check and release agree on the set of messages; a text fits its buffer and
    ends with the closing tag; a message survives the way through its text; only
    messages of this level become ready.
  \<^item> \<open>Tcp\<close> (\<^verbatim>\<open>flom_tcp_recv_msg\<close>, \<^verbatim>\<open>flom_tls_recv_msg\<close>): the search for the closing tag on
    a stream.  Shown: exactly one message is taken, however the bytes arrive.
  \<^item> \<open>Conns\<close> (\<^verbatim>\<open>flom_conn.c\<close>, \<^verbatim>\<open>flom_conns.c\<close>): connections and the array of them that a
    thread polls.  Shown: the cleaning deletes exactly the marked connections and keeps
    the first one in place; a turn of the polling loop starts with open connections only.
  \<^item> \<open>Rsrc\<close>: what the resources share: lock records, environment and state of the
    connections, answer to a waiting client, compatibility table, scan of the waiting
    clients.  The contracts are locales: \<open>grant_scan\<close> (an invariant of a scan),
    \<open>exhaustive_scan\<close> (nobody is left who could be served), \<open>conserving_scan\<close> (nobody is
    lost), \<open>resource_ops\<close> (the methods of a resource keep an invariant), with
    \<open>bounded_resource_ops\<close> for counters that wrap around and \<open>timed_resource_ops\<close> for a
    resource with time outs.  The theory of each resource interprets them on its own
    operations, and the properties rest on the interpretations.
  \<^item> \<open>Resource_Simple\<close>: mutual exclusion by the compatibility table, no lost wake up, and
    the refinement of an abstract lock manager by lock and unlock requests.
  \<^item> \<open>Resource_Numeric\<close>: the locked quantity is the sum of the holders' and within the
    total; no lost wake up; the answers.
  \<^item> \<open>Resource_Set\<close>: round robin search, no idle element while somebody waits, nobody
    lost, the answers.
  \<^item> \<open>Resource_Sequence\<close>: distinct values that are not zero, roll back and re-use, the
    answers.
  \<^item> \<open>Resource_Hier\<close>: the recursive check is compatibility with prefixes and extensions of
    the path; mutual exclusion along paths; release of exactly one lock.
  \<^item> \<open>Resource_Timestamp\<close>: one timestamp per interval of the format, exact deadlines,
    expansion of the fractions of a second in place.
  \<^item> \<open>Resource\<close> (second half of \<^verbatim>\<open>flom_rsrc.c\<close>): the resource object and its methods.
    Shown: every accepted name makes a resource of its type; requests for another
    resource are refused and change nothing.
  \<^item> \<open>Clients\<close>: the connections that hold or await a lock of a resource, and the contract
    \<open>client_ops\<close> of the methods: which of them a request, a disconnection or a time out may
    add or remove.  It is interpreted on the resource object.
  \<^item> \<open>Net\<close> (\<^verbatim>\<open>flom_conn_send\<close>, \<^verbatim>\<open>flom_conn_recv\<close> and the functions of \<^verbatim>\<open>flom_tcp.c\<close> and
    \<^verbatim>\<open>flom_tls.c\<close> below them): the choice between TCP and TLS, streams and datagrams.
  \<^item> \<open>Locker\<close> (\<^verbatim>\<open>flom_locker.c\<close>): the loop of the thread that serves a resource, turn by turn.
    Shown: no connection that has gone holds or awaits a lock; mutual exclusion under the
    loop; the poll ends for the deadline of the resource; the thread ends when its
    connections have left; two ways in which one client stops a locker.
  \<^item> \<open>Daemon\<close> (\<^verbatim>\<open>flom_daemon.c\<close> from \<^verbatim>\<open>flom_accept_loop\<close> on, \<^verbatim>\<open>flom_daemon_mngmnt.c\<close>): the loop of the main
    thread, turn by turn.  Shown: it refines a specification of five kinds of steps on lockers and
    pipes; a new locker takes the waiting clients; the daemon ends exactly when it is idle, and it
    does end; one message of one client stops it.
  \<^item> \<open>Locker_Turn\<close>: what a turn of a locker changes in the object it shares with the main thread.
  \<^item> \<open>System\<close>: the main thread and all locker threads, in every order of their turns.  Shown: locks under
    one name exclude each other in the whole daemon; the defect that breaks this.
  \<^item> \<open>Vfs\<close> (\<^verbatim>\<open>flom_vfs.c\<close>): the tree of directories and files that shows lockers, holders and
    waiting clients.  Shown: the operations refine the changes of an abstract directory; files
    and directories keep their kinds under all failures.
  \<^item> \<open>Vfs_Mirror\<close>: the calls of a simple resource, replayed on the tree, show its holders and
    its queue.
  \<^item> \<open>Config\<close> (\<^verbatim>\<open>flom_config.c\<close>): the configuration object with its strings in an explicit heap.
    Shown: the files are loaded as specified on values, the last one wins; every sequence of
    calls releases what it allocates and nothing twice; the check decides between local and
    network and fits mode and quantity to the resource; numbers stay in their ranges; the copy
    made for a handle shares the names of the TLS files.
  \<^item> \<open>Client\<close> (\<^verbatim>\<open>flom_client.c\<close>, \<^verbatim>\<open>flom_tcp_connect\<close>): connection, discovery, lock with its wait, unlock,
    shutdown.  Shown: what a successful lock request has sent and received; a wait returns; which state a connection
    and a lock request change; a late refusal is taken for a grant.
  \<^item> \<open>Handle\<close> (\<^verbatim>\<open>flom_handle.c\<close>): the handles of the library and all their methods.  Shown: a handle follows an
    automaton of five states; the unlock names the resource that was locked; no handle starts a daemon; the memory
    is balanced; a handle that is used again leaks its socket.
  \<^item> \<open>Program\<close> (\<^verbatim>\<open>main.c\<close>, \<^verbatim>\<open>flom_exec.c\<close>): options, execution of the command, exit status.  Shown: the options
    refine a specification on values; no command runs without the lock; one lock request, one command, one unlock
    request with a rollback when the command failed; a killed command counts as a success.
  \<^item> \<open>Daemon_Start\<close> (\<^verbatim>\<open>flom_daemon.c\<close> before the accept loop, \<^verbatim>\<open>flom_tcp_listen\<close>): the processes of
    \<^verbatim>\<open>flom_daemon\<close> and the listening sockets.  Shown: a start that reports success has a daemon that listens, in the
    state from which \<open>Daemon\<close> goes on; one daemon per local socket; the announced port is the one that
    listens; a daemon that fails before its report blocks its client.
  \<^item> \<open>Tls\<close> (\<^verbatim>\<open>flom_tls.c\<close>): handshake, certificate and identity of a peer.  Shown: who is authenticated,
    exactly; the daemon processes no message of a client with a wrong identity; a name with a zero character
    is cut.

  Some theorems state defects of the code: a disconnected client keeps its lock in a
  hierarchy, a value of a sequence is lost, a negative quantity or an unknown mode is
  accepted, a number wraps around, a reset connection breaks the exclusion of locks.

  \<^bold>\<open>How the code is modelled.\<close>  A structure is a record, a C union is the record of its
  members, a \<^verbatim>\<open>NULL\<close> pointer is \<open>None\<close>, a \<^verbatim>\<open>GSList\<close> or \<^verbatim>\<open>GQueue\<close> is a list, a connection is
  its unique identifier.  An operation takes the state and returns its reason code and
  the new state; every \<^verbatim>\<open>THROW\<close> is a branch.  The results of calls that leave the program
  (memory, network, TLS, base64, clock, XML parser) are parameters that differ from call
  to call, so the invariants hold under all failures; where a theorem needs that
  calls succeed or a parser that does its work, this is a hypothesis.  A run is a list of events, each with its
  environment: every interleaving of requests and disconnections of a resource is such a
  list, because a locker thread serves its resource alone.  The counter of a sequence is a 32 bit word; other
  integers of the messages are converted as in C when they are read.  All loops are
  total functions; no fuel is needed: the scans get shorter queues or larger
  indices, the receiver a shorter stream.

  The threads of the daemon are composed by interleaving whole turns of their loops; a locker
  object is shared without a lock in the code, and the order of single accesses within two turns is
  not modelled.

  The client side is a sequential program: what the network, the clock and the child process return are arguments of
  a call, and an endless wait for a message is the value \<open>None\<close> of \<open>flom_client_wait_lock\<close>, which gets the list of
  the messages that arrive.

  \<^bold>\<open>Not modelled.\<close>  Memory that is only freed, tracing and printing, the texts of the error codes and
  the callbacks of FUSE, which hand the tree of the virtual file system to libfuse.  The parser of the options is
  that of GLib.  The debug features and the bindings of other languages are left out.
\<close>

end
